(* ===== verification/Prelude.thy ===== *)
theory Prelude
  imports Main "HOL-Library.Char_ord" "HOL-Library.List_Lexorder" "HOL-Library.Multiset"
begin

text \<open>
  Shared ground of the development: the outcome of a Rust call (\<open>result\<close>: a value, a typed
  error or a panic), the checked and saturating arithmetic of Rust's unsigned integers at their
  width, \<open>BTreeMap\<close> as an association list in ascending key order, the read-through overlay of
  optional rows, and sums over finite maps, which state every conservation law.

  Integers are natural numbers with the width written out. The workspace builds with
  \<open>overflow-checks = true\<close> (\<^verbatim>\<open>src/Cargo.toml\<close>, lines 135--136), so a plain \<open>+\<close>, \<open>-\<close> or \<open>*\<close> whose
  exact result does not fit its type is a panic, the constructor \<open>Panic\<close> here.
\<close>

named_theorems ok_simps \<open>inversion of a computation that returned Ok\<close>
named_theorems bt_simps \<open>lookups in updated BTreeMaps\<close>
named_theorems msum_simps \<open>sums over updated finite maps\<close>

section \<open>The outcome of a call\<close>

datatype ('e, 'a) result = Ok 'a | Err 'e | Panic

fun and_then :: "('e, 'a) result \<Rightarrow> ('a \<Rightarrow> ('e, 'b) result) \<Rightarrow> ('e, 'b) result" where
  "and_then (Ok x) f = f x"
| "and_then (Err e) f = Err e"
| "and_then Panic f = Panic"

fun map_err :: "('d \<Rightarrow> 'e) \<Rightarrow> ('d, 'a) result \<Rightarrow> ('e, 'a) result" where
  "map_err g (Ok x) = Ok x"
| "map_err g (Err d) = Err (g d)"
| "map_err g Panic = Panic"

text \<open>
  A function of the source that returns no \<open>Result\<close> can still panic: its model returns over the
  error type \<open>never\<close>, none of whose values the model produces, and callers lift it with
  \<open>unfailing\<close>.
\<close>

datatype never = Never

fun unfailing :: "(never, 'a) result \<Rightarrow> ('e, 'a) result" where
  "unfailing (Ok x) = Ok x"
| "unfailing (Err e) = Panic"
| "unfailing Panic = Panic"

definition ok_or :: "'e \<Rightarrow> 'a option \<Rightarrow> ('e, 'a) result" where
  "ok_or e x = (case x of None \<Rightarrow> Err e | Some v \<Rightarrow> Ok v)"

definition expect :: "'a option \<Rightarrow> ('e, 'a) result" where
  "expect x = (case x of None \<Rightarrow> Panic | Some v \<Rightarrow> Ok v)"

definition ensure :: "bool \<Rightarrow> 'e \<Rightarrow> ('e, unit) result" where
  "ensure b e = (if b then Ok () else Err e)"

fun unwrap_or :: "'a \<Rightarrow> 'a option \<Rightarrow> 'a" where
  "unwrap_or d None = d"
| "unwrap_or d (Some x) = x"

fun option_list :: "'a option \<Rightarrow> 'a list" where
  "option_list None = []"
| "option_list (Some x) = [x]"

fun is_ok :: "('e, 'a) result \<Rightarrow> bool" where
  "is_ok (Ok _) = True"
| "is_ok _ = False"

lemma and_then_cong [fundef_cong]:
  "m = m' \<Longrightarrow> (\<And>x. m' = Ok x \<Longrightarrow> f x = g x) \<Longrightarrow> and_then m f = and_then m' g"
  by (cases m') auto

lemma and_then_Ok_iff [simp, ok_simps]:
  "and_then m f = Ok y \<longleftrightarrow> (\<exists>x. m = Ok x \<and> f x = Ok y)"
  by (cases m) auto

lemma and_then_Err_iff:
  "and_then m f = Err e \<longleftrightarrow> m = Err e \<or> (\<exists>x. m = Ok x \<and> f x = Err e)"
  by (cases m) auto

lemma and_then_Panic_iff:
  "and_then m f = Panic \<longleftrightarrow> m = Panic \<or> (\<exists>x. m = Ok x \<and> f x = Panic)"
  by (cases m) auto

lemma map_err_Ok_iff [simp, ok_simps]: "map_err g m = Ok x \<longleftrightarrow> m = Ok x"
  by (cases m) auto

lemma unfailing_Ok_iff [simp, ok_simps]: "unfailing m = Ok x \<longleftrightarrow> m = Ok x"
  by (cases m) auto

lemma unfailing_not_Err [simp]: "unfailing m \<noteq> Err e"
  by (cases m) auto

lemma map_err_Panic_iff [simp]: "map_err g m = Panic \<longleftrightarrow> m = Panic"
  by (cases m) auto

lemma ok_or_Ok_iff [simp, ok_simps]: "ok_or e x = Ok y \<longleftrightarrow> x = Some y"
  by (auto simp: ok_or_def split: option.splits)

lemma ok_or_Some [simp]: "ok_or e (Some x) = Ok x"
  by (simp add: ok_or_def)

lemma ok_or_None [simp]: "ok_or e None = Err e"
  by (simp add: ok_or_def)

lemma ok_or_not_Panic [simp]: "ok_or e x \<noteq> Panic"
  by (cases x) auto

lemma expect_Ok_iff [simp, ok_simps]: "expect x = Ok y \<longleftrightarrow> x = Some y"
  by (auto simp: expect_def split: option.splits)

lemma expect_Panic_iff [simp]: "expect x = Panic \<longleftrightarrow> x = None"
  by (auto simp: expect_def split: option.splits)

lemma expect_not_Err [simp]: "expect x \<noteq> Err e"
  by (auto simp: expect_def split: option.splits)

lemma ensure_Ok_iff [simp, ok_simps]: "ensure b e = Ok u \<longleftrightarrow> b"
  by (auto simp: ensure_def)

lemma ensure_Err_iff [simp]: "ensure b e = Err e' \<longleftrightarrow> \<not> b \<and> e' = e"
  by (auto simp: ensure_def)

lemma ensure_not_Panic [simp]: "ensure b e \<noteq> Panic"
  by (auto simp: ensure_def)

lemma if_Err_Ok_iff [simp, ok_simps]:
  "(if b then Err e else m) = Ok y \<longleftrightarrow> \<not> b \<and> m = Ok y"
  "(if b then m else Err e) = Ok y \<longleftrightarrow> b \<and> m = Ok y"
  by auto

lemma if_Panic_Ok_iff [simp, ok_simps]:
  "(if b then Panic else m) = Ok y \<longleftrightarrow> \<not> b \<and> m = Ok y"
  "(if b then m else Panic) = Ok y \<longleftrightarrow> b \<and> m = Ok y"
  by auto

lemma is_ok_iff: "is_ok m \<longleftrightarrow> (\<exists>x. m = Ok x)"
  by (cases m) auto

section \<open>Unsigned integers at their width\<close>

definition u8_max :: nat where "u8_max = 2 ^ 8 - 1"
definition u32_max :: nat where "u32_max = 2 ^ 32 - 1"
definition u64_max :: nat where "u64_max = 2 ^ 64 - 1"
definition u128_max :: nat where "u128_max = 2 ^ 128 - 1"

definition checked_add :: "nat \<Rightarrow> nat \<Rightarrow> nat \<Rightarrow> nat option" where
  "checked_add M a b = (if a + b \<le> M then Some (a + b) else None)"

definition checked_sub :: "nat \<Rightarrow> nat \<Rightarrow> nat option" where
  "checked_sub a b = (if b \<le> a then Some (a - b) else None)"

definition checked_mul :: "nat \<Rightarrow> nat \<Rightarrow> nat \<Rightarrow> nat option" where
  "checked_mul M a b = (if a * b \<le> M then Some (a * b) else None)"

definition saturating_add :: "nat \<Rightarrow> nat \<Rightarrow> nat \<Rightarrow> nat" where
  "saturating_add M a b = min M (a + b)"

definition saturating_sub :: "nat \<Rightarrow> nat \<Rightarrow> nat" where
  "saturating_sub a b = a - b"

definition saturating_mul :: "nat \<Rightarrow> nat \<Rightarrow> nat \<Rightarrow> nat" where
  "saturating_mul M a b = min M (a * b)"

text \<open>The plain operators of a build with overflow checks.\<close>

definition add_or_panic :: "nat \<Rightarrow> nat \<Rightarrow> nat \<Rightarrow> ('e, nat) result" where
  "add_or_panic M a b = expect (checked_add M a b)"

definition sub_or_panic :: "nat \<Rightarrow> nat \<Rightarrow> ('e, nat) result" where
  "sub_or_panic a b = expect (checked_sub a b)"

definition mul_or_panic :: "nat \<Rightarrow> nat \<Rightarrow> nat \<Rightarrow> ('e, nat) result" where
  "mul_or_panic M a b = expect (checked_mul M a b)"

definition sum_or_panic :: "nat \<Rightarrow> nat list \<Rightarrow> ('e, nat) result" where
  "sum_or_panic M xs = (if sum_list xs \<le> M then Ok (sum_list xs) else Panic)"

lemma sum_or_panic_Ok_iff [simp, ok_simps]:
  "sum_or_panic M xs = Ok s \<longleftrightarrow> sum_list xs \<le> M \<and> s = sum_list xs"
  by (auto simp: sum_or_panic_def)

lemma checked_add_Some_iff [simp, ok_simps]:
  "checked_add M a b = Some c \<longleftrightarrow> a + b \<le> M \<and> c = a + b"
  by (auto simp: checked_add_def)

lemma checked_add_None_iff [simp]: "checked_add M a b = None \<longleftrightarrow> M < a + b"
  by (auto simp: checked_add_def)

lemma checked_sub_Some_iff [simp, ok_simps]:
  "checked_sub a b = Some c \<longleftrightarrow> b \<le> a \<and> c = a - b"
  by (auto simp: checked_sub_def)

lemma checked_sub_None_iff [simp]: "checked_sub a b = None \<longleftrightarrow> a < b"
  by (auto simp: checked_sub_def)

lemma checked_mul_Some_iff [simp, ok_simps]:
  "checked_mul M a b = Some c \<longleftrightarrow> a * b \<le> M \<and> c = a * b"
  by (auto simp: checked_mul_def)

lemma checked_mul_None_iff [simp]: "checked_mul M a b = None \<longleftrightarrow> M < a * b"
  by (auto simp: checked_mul_def)

lemma add_or_panic_Ok_iff [simp, ok_simps]:
  "add_or_panic M a b = Ok c \<longleftrightarrow> a + b \<le> M \<and> c = a + b"
  by (simp add: add_or_panic_def)

lemma add_or_panic_Panic_iff [simp]: "add_or_panic M a b = Panic \<longleftrightarrow> M < a + b"
  by (simp add: add_or_panic_def)

lemma add_or_panic_not_Err [simp]: "add_or_panic M a b \<noteq> Err e"
  by (simp add: add_or_panic_def)

lemma sub_or_panic_Ok_iff [simp, ok_simps]:
  "sub_or_panic a b = Ok c \<longleftrightarrow> b \<le> a \<and> c = a - b"
  by (simp add: sub_or_panic_def)

lemma sub_or_panic_Panic_iff [simp]: "sub_or_panic a b = Panic \<longleftrightarrow> a < b"
  by (simp add: sub_or_panic_def)

lemma mul_or_panic_Ok_iff [simp, ok_simps]:
  "mul_or_panic M a b = Ok c \<longleftrightarrow> a * b \<le> M \<and> c = a * b"
  by (simp add: mul_or_panic_def)

lemma saturating_add_le_max: "saturating_add M a b \<le> M"
  by (simp add: saturating_add_def)

lemma saturating_add_exact: "a + b \<le> M \<Longrightarrow> saturating_add M a b = a + b"
  by (simp add: saturating_add_def)

lemma saturating_sub_le: "saturating_sub a b \<le> a"
  by (simp add: saturating_sub_def)

lemma bps_share_le: "b \<le> 10000 \<Longrightarrow> a * b div 10000 \<le> (a::nat)"
proof -
  assume "b \<le> 10000"
  then have "a * b div 10000 \<le> a * 10000 div 10000"
    by (intro div_le_mono mult_le_mono2)
  then show ?thesis by simp
qed

lemma sum_list_member_le: "x \<in> set xs \<Longrightarrow> x \<le> sum_list xs" for x :: nat
  by (induction xs) auto

section \<open>BTreeMap\<close>

text \<open>
  A \<open>BTreeMap\<close> is the list of its entries in ascending key order. Iteration order is observable
  in the code (remainder units of voting power go out in it), so the order is part of the model.
\<close>

type_synonym ('k, 'v) btree = "('k \<times> 'v) list"

fun bt_insert :: "'k::linorder \<Rightarrow> 'v \<Rightarrow> ('k, 'v) btree \<Rightarrow> ('k, 'v) btree" where
  "bt_insert k v [] = [(k, v)]"
| "bt_insert k v (e # es) =
     (if k = fst e then (k, v) # es
      else if k < fst e then (k, v) # e # es
      else e # bt_insert k v es)"

definition bt_remove :: "'k \<Rightarrow> ('k, 'v) btree \<Rightarrow> ('k, 'v) btree" where
  "bt_remove k m = filter (\<lambda>e. fst e \<noteq> k) m"

definition bt_keys :: "('k, 'v) btree \<Rightarrow> 'k list" where
  "bt_keys m = map fst m"

definition bt_extend :: "('k::linorder, 'v) btree \<Rightarrow> ('k, 'v) btree \<Rightarrow> ('k, 'v) btree" where
  "bt_extend m n = fold (\<lambda>(k, v) acc. bt_insert k v acc) n m"

definition bt_from :: "('k::linorder \<times> 'v) list \<Rightarrow> ('k, 'v) btree" where
  "bt_from es = fold (\<lambda>(k, v) acc. bt_insert k v acc) es []"

definition bt_wf :: "('k::linorder, 'v) btree \<Rightarrow> bool" where
  "bt_wf m \<longleftrightarrow> sorted_wrt (<) (map fst m)"

lemma map_of_bt_insert [simp, bt_simps]: "map_of (bt_insert k v m) = (map_of m)(k \<mapsto> v)"
  by (induction m) auto

lemma map_of_bt_remove [simp, bt_simps]: "map_of (bt_remove k m) = (map_of m)(k := None)"
  by (induction m) (auto simp: bt_remove_def fun_eq_iff)

lemma map_of_fold_bt_insert:
  "map_of (fold (\<lambda>(k, v) acc. bt_insert k v acc) n m) = map_of m ++ map_of (rev n)"
  by (induction n arbitrary: m) (auto simp: map_add_def fun_eq_iff split: option.splits)

lemma bt_insert_fst: "fst ` set (bt_insert k v m) = insert k (fst ` set m)"
  by (induction m) auto

lemma bt_wf_Cons: "bt_wf (e # es) \<longleftrightarrow> (\<forall>k\<in>fst ` set es. fst e < k) \<and> bt_wf es"
  by (simp add: bt_wf_def)

lemma bt_wf_insert: "bt_wf m \<Longrightarrow> bt_wf (bt_insert k v m)"
proof (induction m)
  case (Cons e es)
  consider "k = fst e" | "k < fst e" | "fst e < k" by (rule linorder_cases)
  then show ?case
  proof cases
    case 2
    with Cons.prems show ?thesis by (force simp: bt_wf_Cons)
  next
    case 3
    with Cons show ?thesis by (auto simp: bt_wf_Cons bt_insert_fst)
  qed (use Cons.prems in \<open>simp add: bt_wf_Cons\<close>)
qed (simp add: bt_wf_def)

lemma bt_wf_remove: "bt_wf m \<Longrightarrow> bt_wf (bt_remove k m)"
  unfolding bt_wf_def bt_remove_def
  by (induction m) auto

lemma bt_wf_distinct: "bt_wf m \<Longrightarrow> distinct (map fst m)"
  unfolding bt_wf_def by (simp add: strict_sorted_iff)

lemma bt_wf_Nil [simp]: "bt_wf []"
  by (simp add: bt_wf_def)

lemma bt_wf_extend: "bt_wf m \<Longrightarrow> bt_wf (bt_extend m n)"
  unfolding bt_extend_def
  by (induction n arbitrary: m) (auto simp: bt_wf_insert)

lemma bt_wf_from: "bt_wf (bt_from es)"
  using bt_wf_extend [of "[]" es] by (simp add: bt_extend_def bt_from_def)

lemma map_of_rev_distinct: "distinct (map fst n) \<Longrightarrow> map_of (rev n) = map_of n"
proof (rule ext)
  fix x
  assume d: "distinct (map fst n)"
  then have "distinct (map fst (rev n))" by (simp add: rev_map [symmetric])
  with d show "map_of (rev n) x = map_of n x"
    by (metis map_of_eq_None_iff map_of_eq_Some_iff option.exhaust set_rev)
qed

lemma map_of_bt_extend [bt_simps]:
  "bt_wf n \<Longrightarrow> map_of (bt_extend m n) = map_of m ++ map_of n"
  by (simp add: bt_extend_def map_of_fold_bt_insert map_of_rev_distinct bt_wf_distinct)

declare bt_insert.simps [simp del]

text \<open>Entries as a multiset, for sums over the values of a map.\<close>

lemma mset_bt_insert:
  "k \<notin> fst ` set m \<Longrightarrow> mset (bt_insert k v m) = add_mset (k, v) (mset m)"
  by (induction m) (auto simp: bt_insert.simps)

lemma mset_bt_extend:
  "distinct (map fst n) \<Longrightarrow> fst ` set m \<inter> fst ` set n = {} \<Longrightarrow>
   mset (bt_extend m n) = mset m + mset n"
  unfolding bt_extend_def
proof (induction n arbitrary: m)
  case (Cons e n)
  obtain k v where e: "e = (k, v)" by (cases e)
  have "mset (fold (\<lambda>(k, v). bt_insert k v) n (bt_insert k v m)) = mset (bt_insert k v m) + mset n"
    using Cons.prems by (intro Cons.IH) (auto simp: e bt_insert_fst)
  with Cons.prems show ?case by (simp add: e mset_bt_insert)
qed simp

lemma set_bt_extend_disjoint:
  "distinct (map fst n) \<Longrightarrow> fst ` set m \<inter> fst ` set n = {} \<Longrightarrow>
   set (bt_extend m n) = set m \<union> set n"
  using mset_bt_extend [of n m] by (metis mset_append set_append set_mset_mset)

lemma sum_bt_extend:
  "distinct (map fst n) \<Longrightarrow> fst ` set m \<inter> fst ` set n = {} \<Longrightarrow>
   sum_list (map snd (bt_extend m n)) = sum_list (map snd m) + sum_list (map (snd :: _ \<Rightarrow> nat) n)"
  using mset_bt_extend [of n m]
  by (metis map_append mset_append mset_map sum_list_append sum_mset_sum_list)

text \<open>
  The map contract a client of \<open>BTreeMap\<close> relies on: what a lookup returns after an insert or a
  removal. The client lemmas are proved once here and used through the interpretation below.
\<close>

locale finite_map =
  fixes look :: "'m \<Rightarrow> 'k \<Rightarrow> 'v option"
    and ins :: "'k \<Rightarrow> 'v \<Rightarrow> 'm \<Rightarrow> 'm"
    and del :: "'k \<Rightarrow> 'm \<Rightarrow> 'm"
    and good :: "'m \<Rightarrow> bool"
  assumes look_ins: "look (ins k v m) = (look m)(k \<mapsto> v)"
    and look_del: "look (del k m) = (look m)(k := None)"
    and good_ins: "good m \<Longrightarrow> good (ins k v m)"
    and good_del: "good m \<Longrightarrow> good (del k m)"
begin

lemma look_ins_same: "look (ins k v m) k = Some v"
  by (simp add: look_ins)

lemma look_ins_other: "k' \<noteq> k \<Longrightarrow> look (ins k v m) k' = look m k'"
  by (simp add: look_ins)

lemma ins_overwrites: "look (ins k w (ins k v m)) = look (ins k w m)"
  by (simp add: look_ins)

lemma del_after_ins: "look (del k (ins k v m)) = look (del k m)"
  by (simp add: look_ins look_del)

lemma ins_commute: "k \<noteq> k' \<Longrightarrow> look (ins k v (ins k' w m)) = look (ins k' w (ins k v m))"
  by (simp add: look_ins fun_upd_twist)

end

interpretation btm: finite_map map_of bt_insert bt_remove bt_wf
  by unfold_locales (simp_all add: bt_wf_insert bt_wf_remove)

section \<open>Overlays of optional rows\<close>

text \<open>
  A batch maps a key to the new row, or to nothing for a deletion. Reading through it falls back
  to the rows underneath for every key the batch does not mention.
\<close>

definition overlay :: "('k \<rightharpoonup> 'v) \<Rightarrow> ('k, 'v option) btree \<Rightarrow> ('k \<rightharpoonup> 'v)" where
  "overlay m u = (\<lambda>k. case map_of u k of None \<Rightarrow> m k | Some r \<Rightarrow> r)"

lemma overlay_Nil [simp]: "overlay m [] = m"
  by (simp add: overlay_def)

lemma overlay_insert [simp, bt_simps]: "overlay m (bt_insert k r u) = (overlay m u)(k := r)"
  by (auto simp: overlay_def fun_eq_iff)

lemma overlay_extend: "bt_wf n \<Longrightarrow> overlay m (bt_extend u n) = overlay (overlay m u) n"
  by (auto simp: overlay_def fun_eq_iff map_of_bt_extend map_add_def split: option.splits)

section \<open>Sums over finite maps\<close>

definition opt_val :: "('v \<Rightarrow> nat) \<Rightarrow> 'v option \<Rightarrow> nat" where
  "opt_val f x = (case x of None \<Rightarrow> 0 | Some v \<Rightarrow> f v)"

definition msum :: "('v \<Rightarrow> nat) \<Rightarrow> ('k \<rightharpoonup> 'v) \<Rightarrow> nat" where
  "msum f m = (\<Sum>k\<in>dom m. f (the (m k)))"

lemma opt_val_simps [simp]: "opt_val f None = 0" "opt_val f (Some v) = f v"
  by (simp_all add: opt_val_def)

lemma msum_empty [simp]: "msum f Map.empty = 0"
  by (simp add: msum_def)

lemma msum_upd [msum_simps]:
  assumes "finite (dom m)"
  shows "msum f (m(k \<mapsto> v)) + opt_val f (m k) = msum f m + f v"
proof -
  let ?R = "dom m - {k}"
  have same: "(\<Sum>j\<in>?R. f (the ((m(k \<mapsto> v)) j))) = (\<Sum>j\<in>?R. f (the (m j)))"
    by (intro sum.cong) auto
  have new: "msum f (m(k \<mapsto> v)) = f v + (\<Sum>j\<in>?R. f (the (m j)))"
    using assms same by (simp add: msum_def sum.insert_remove)
  have old: "msum f m = opt_val f (m k) + (\<Sum>j\<in>?R. f (the (m j)))"
  proof (cases "m k")
    case None
    then have "k \<notin> dom m" by auto
    then have "?R = dom m" by auto
    with None show ?thesis by (simp add: msum_def)
  next
    case (Some w)
    then have "k \<in> dom m" by auto
    with assms Some show ?thesis
      by (simp add: msum_def sum.remove)
  qed
  show ?thesis using new old by simp
qed

lemma msum_del [msum_simps]:
  assumes "finite (dom m)"
  shows "msum f (m(k := None)) + opt_val f (m k) = msum f m"
proof (cases "m k")
  case None
  then have "m(k := None) = m" by (simp add: fun_eq_iff)
  with None show ?thesis by simp
next
  case (Some w)
  then have "(m(k := None))(k \<mapsto> w) = m" by (simp add: fun_eq_iff)
  with msum_upd [of "m(k := None)" f k w] assms Some show ?thesis by simp
qed

lemma msum_ge: "finite (dom m) \<Longrightarrow> m k = Some v \<Longrightarrow> f v \<le> msum f m"
  using msum_del [of m f k] by simp

text \<open>Two writes at distinct keys, the shape of every transfer.\<close>

lemma msum_upd2:
  assumes "finite (dom m)" and "a \<noteq> b"
  shows "msum f (m(a \<mapsto> x, b \<mapsto> y)) + opt_val f (m a) + opt_val f (m b) = msum f m + f x + f y"
  using msum_upd [OF assms(1), of f a x] msum_upd [of "m(a \<mapsto> x)" f b y] assms by simp

lemma msum_upd2_conserve:
  assumes "finite (dom m)" and "a \<noteq> b"
    and "f x + f y = opt_val f (m a) + opt_val f (m b)"
  shows "msum f (m(a \<mapsto> x, b \<mapsto> y)) = msum f m"
  using msum_upd2 [OF assms(1,2), of f x y] assms(3) by simp

end
