(* ===== verification/Primitives.thy ===== *)
theory Primitives
  imports Prelude
begin

text \<open>
  The stored data of the chain (\<^verbatim>\<open>src/core/primitives/src\<close>): addresses and asset references, account
  entries with their programmable policy, stake allocations, assets and holder state, attestor
  records, chain parameters, governance proposals and validator status, with the functions those
  files define on them. Record fields keep the source's names; a field whose name occurs in two
  structs carries a short prefix.

  SHA-256 followed by the bech32 encoding of \<open>Address::from_pubkey_bytes\<close> is a parameter
  (\<open>hasher\<close>): both are third-party crates. An \<open>[u8; 32]\<close> is a \<open>string\<close>, whose lexicographic order is
  the array's derived order.
\<close>

section \<open>Addresses and asset references\<close>

datatype address = Address (addr_str: string)

datatype asset_ref = AssetRef (ref_str: string)

instantiation address :: linorder
begin

definition less_eq_address :: "address \<Rightarrow> address \<Rightarrow> bool" where
  "less_eq_address a b \<longleftrightarrow> addr_str a \<le> addr_str b"

definition less_address :: "address \<Rightarrow> address \<Rightarrow> bool" where
  "less_address a b \<longleftrightarrow> addr_str a < addr_str b"

instance
  by standard
     (auto simp: less_eq_address_def less_address_def less_le_not_le intro: address.expand)

end

instantiation asset_ref :: linorder
begin

definition less_eq_asset_ref :: "asset_ref \<Rightarrow> asset_ref \<Rightarrow> bool" where
  "less_eq_asset_ref a b \<longleftrightarrow> ref_str a \<le> ref_str b"

definition less_asset_ref :: "asset_ref \<Rightarrow> asset_ref \<Rightarrow> bool" where
  "less_asset_ref a b \<longleftrightarrow> ref_str a < ref_str b"

instance
  by standard
     (auto simp: less_eq_asset_ref_def less_asset_ref_def less_le_not_le intro: asset_ref.expand)

end

type_synonym hasher = "string \<Rightarrow> address"

definition stake_subaccount :: "hasher \<Rightarrow> address \<Rightarrow> address" where
  "stake_subaccount H validator = H (''xc-stake-subaccount:'' @ addr_str validator)"

definition reward_pool_account :: "hasher \<Rightarrow> address" where
  "reward_pool_account H = H ''xc-reward-pool''"

definition treasury_account :: "hasher \<Rightarrow> address" where
  "treasury_account H = H ''xc-treasury''"

text \<open>
  What the ledger needs of the hash: the three kinds of system account are told apart. It follows
  from the absence of a collision among the preimages in use.
\<close>

lemma system_accounts_distinct:
  assumes "inj H"
  shows "stake_subaccount H v = stake_subaccount H w \<longleftrightarrow> v = w"
    and "stake_subaccount H v \<noteq> reward_pool_account H"
    and "stake_subaccount H v \<noteq> treasury_account H"
    and "reward_pool_account H \<noteq> treasury_account H"
  using assms
  by (auto simp: stake_subaccount_def reward_pool_account_def treasury_account_def inj_eq
      intro: address.expand)

section \<open>Accounts and their policies\<close>

datatype claim_topic = Kyc | Aml | Accredited | Jurisdiction

type_synonym country_code = string
type_synonym pubkey = string

record threshold_policy =
  threshold :: nat
  members :: "pubkey list"

datatype spend_asset = Native | SpendAsset asset_ref

record spending_limit =
  limit_asset :: spend_asset
  period_blocks :: nat
  limit_amount :: nat

record spend_counter =
  counter_asset :: spend_asset
  window :: nat
  spent :: nat

record session_key =
  public_key :: pubkey
  expires_at :: nat
  session_asset :: spend_asset
  allowance :: nat
  session_recipients :: "address list"

record recovery_policy =
  guardians :: threshold_policy
  delay_blocks :: nat

record pending_recovery_rec =
  pending_owners :: threshold_policy
  execute_after :: nat

record account_policy =
  owners :: threshold_policy
  limits :: "spending_limit list"
  recipients :: "address list option"
  sessions :: "session_key list"
  recovery :: "recovery_policy option"

record programmable_account =
  policy :: account_policy
  counters :: "spend_counter list"
  pending_recovery :: "pending_recovery_rec option"

record account_entry =
  balance :: nat
  nonce :: nat
  identity_hash :: "string option"
  zk_identity_verified :: bool
  attested_by :: "address option"
  claims :: "claim_topic list"
  jurisdiction :: "country_code option"
  attested_at :: "nat option"
  programmable :: "programmable_account option"

definition default_account :: account_entry where
  "default_account =
    \<lparr> balance = 0, nonce = 0, identity_hash = None, zk_identity_verified = False,
      attested_by = None, claims = [], jurisdiction = None, attested_at = None,
      programmable = None \<rparr>"

lemma default_account_simps [simp]:
  "balance default_account = 0" "nonce default_account = 0"
  "identity_hash default_account = None" "attested_by default_account = None"
  "programmable default_account = None" "claims default_account = []"
  "jurisdiction default_account = None" "attested_at default_account = None"
  "zk_identity_verified default_account = False"
  by (simp_all add: default_account_def)

record validator_entry =
  ve_stake :: nat
  ve_bls_pubkey :: "string option"
  ve_bls_pop :: "string option"

section \<open>Stake\<close>

record unbonding_rec =
  unb_amount :: nat
  unlock_at_height :: nat

record stake_allocation =
  sa_master :: address
  sa_validator :: address
  active_amount :: nat
  unbonding :: "unbonding_rec option"
  sa_created_at :: nat
  updated_at :: nat

datatype validator_status =
    Active
  | Pending
  | Jailed nat
  | Leaving nat
  | Tombstoned

fun eligible_for :: "validator_status \<Rightarrow> nat \<Rightarrow> bool" where
  "eligible_for Active next_epoch = True"
| "eligible_for Pending next_epoch = True"
| "eligible_for (Jailed until_epoch) next_epoch = (until_epoch \<le> next_epoch)"
| "eligible_for (Leaving from_epoch) next_epoch = (next_epoch < from_epoch)"
| "eligible_for Tombstoned next_epoch = False"

section \<open>Assets\<close>

datatype asset_class_t = Other | RealEstate | Equity | Bond | Stablecoin | Commodity | Token

record cap_table =
  ct_height :: nat
  ct_total :: nat
  ct_holders :: "(address \<times> nat) list"

record asset =
  asset_id :: string
  issuer :: address
  compliance_required :: bool
  asset_class :: asset_class_t
  decimals :: nat
  required_claims :: "claim_topic list"
  allowed_jurisdictions :: "country_code list option"
  max_supply :: "nat option"
  total_supply :: nat
  frozen :: bool
  metadata_uri :: "string option"
  registered_at :: nat
  symbol :: string
  asset_name :: string
  asset_ref_of :: asset_ref
  issuance_locked :: bool
  max_holders :: "nat option"
  max_balance_per_holder :: "nat option"
  max_attestation_age :: "nat option"
  holder_count :: nat
  snapshot :: "cap_table option"
  private_claims :: bool

record asset_metadata =
  md_asset_class :: asset_class_t
  md_decimals :: nat
  md_required_claims :: "claim_topic list"
  md_allowed_jurisdictions :: "country_code list option"
  md_max_supply :: "nat option"
  md_metadata_uri :: "string option"
  md_symbol :: string
  md_name :: string

definition asset_register ::
  "asset_ref \<Rightarrow> string \<Rightarrow> address \<Rightarrow> bool \<Rightarrow> asset_metadata \<Rightarrow> nat \<Rightarrow> asset" where
  "asset_register r aid iss compliance metadata height =
    \<lparr> asset_id = aid, issuer = iss, compliance_required = compliance,
      asset_class = md_asset_class metadata, decimals = md_decimals metadata,
      required_claims = md_required_claims metadata,
      allowed_jurisdictions = md_allowed_jurisdictions metadata,
      max_supply = md_max_supply metadata, total_supply = 0, frozen = False,
      metadata_uri = md_metadata_uri metadata, registered_at = height,
      symbol = md_symbol metadata, asset_name = md_name metadata, asset_ref_of = r,
      issuance_locked = False, max_holders = None, max_balance_per_holder = None,
      max_attestation_age = None, holder_count = 0, snapshot = None, private_claims = False \<rparr>"

record holder_state =
  hs_frozen :: bool
  frozen_amount :: nat
  lock_expires_at :: "nat option"
  claim_verified_at :: "nat option"

definition default_holder_state :: holder_state where
  "default_holder_state =
    \<lparr> hs_frozen = False, frozen_amount = 0, lock_expires_at = None, claim_verified_at = None \<rparr>"

section \<open>Actions\<close>

text \<open>The envelope of an action; the payload type is the chain's.\<close>

record 'p action =
  act_sender :: address
  act_nonce :: nat
  act_signature :: "string option"
  act_payload :: 'p

section \<open>Attestors\<close>

record attestor_record =
  att_name :: string
  att_registered_at :: nat
  att_owners :: "address list"
  att_threshold :: nat
  self_blocked :: bool
  removal_pending :: bool
  removal_cooldown_until :: nat

definition blocked :: "attestor_record \<Rightarrow> bool" where
  "blocked r \<longleftrightarrow> self_blocked r \<or> removal_pending r"

text \<open>ASCII classes of \<open>u8::is_ascii_alphanumeric\<close> and \<open>to_ascii_lowercase\<close>.\<close>

definition ascii_digit :: "char \<Rightarrow> bool" where
  "ascii_digit c \<longleftrightarrow> 48 \<le> (of_char c :: nat) \<and> (of_char c :: nat) \<le> 57"

definition ascii_upper :: "char \<Rightarrow> bool" where
  "ascii_upper c \<longleftrightarrow> 65 \<le> (of_char c :: nat) \<and> (of_char c :: nat) \<le> 90"

definition ascii_lower :: "char \<Rightarrow> bool" where
  "ascii_lower c \<longleftrightarrow> 97 \<le> (of_char c :: nat) \<and> (of_char c :: nat) \<le> 122"

definition ascii_alphanumeric :: "char \<Rightarrow> bool" where
  "ascii_alphanumeric c \<longleftrightarrow> ascii_digit c \<or> ascii_upper c \<or> ascii_lower c"

definition to_ascii_lowercase :: "char \<Rightarrow> char" where
  "to_ascii_lowercase c = (if ascii_upper c then char_of ((of_char c :: nat) + 32) else c)"

datatype name_error = NameLength | NameCharset | NameSpaces | NameNoAlnum

fun has_double_space :: "string \<Rightarrow> bool" where
  "has_double_space (a # b # s) \<longleftrightarrow> (a = CHR '' '' \<and> b = CHR '' '') \<or> has_double_space (b # s)"
| "has_double_space _ \<longleftrightarrow> False"

definition validate_attestor_name :: "string \<Rightarrow> (name_error, unit) result" where
  "validate_attestor_name name =
    (if \<not> (3 \<le> length name \<and> length name \<le> 64) then Err NameLength
     else if \<not> list_all (\<lambda>b. ascii_alphanumeric b \<or> b \<in> set '' .-&'' \<or> b = CHR 0x27 \<or> b \<in> set ''()'') name
     then Err NameCharset
     else if (name \<noteq> [] \<and> (hd name = CHR '' '' \<or> last name = CHR '' '')) \<or> has_double_space name
     then Err NameSpaces
     else if \<not> list_ex ascii_alphanumeric name then Err NameNoAlnum
     else Ok ())"

definition skeleton_char :: "char \<Rightarrow> char" where
  "skeleton_char b =
    (let c = to_ascii_lowercase b in
     if c = CHR ''0'' then CHR ''o''
     else if c = CHR ''1'' \<or> c = CHR ''i'' then CHR ''l''
     else if c = CHR ''5'' then CHR ''s''
     else c)"

definition attestor_name_skeleton :: "string \<Rightarrow> string" where
  "attestor_name_skeleton name = map skeleton_char (filter ascii_alphanumeric name)"

datatype multisig_rule_error = ThresholdTooLow | OwnersNotSingleKey | BadOwnerSet | AddressMismatch

text \<open>
  \<open>single_key\<close> decodes a bech32 address to its 32 key bytes (\<open>None\<close> for any other length or an
  invalid encoding); \<open>multisig\<close> is \<open>multisig_address\<close>, \<open>None\<close> where that function refuses the set.
\<close>

fun collect_option :: "'a option list \<Rightarrow> 'a list option" where
  "collect_option [] = Some []"
| "collect_option (None # xs) = None"
| "collect_option (Some x # xs) = map_option (Cons x) (collect_option xs)"

definition validate_attestor_multisig ::
  "(address \<Rightarrow> pubkey option) \<Rightarrow> (nat \<Rightarrow> pubkey list \<Rightarrow> address option) \<Rightarrow>
   address \<Rightarrow> address list \<Rightarrow> nat \<Rightarrow> (multisig_rule_error, unit) result" where
  "validate_attestor_multisig single_key multisig attestor ownrs thr =
    (if thr < 2 then Err ThresholdTooLow
     else and_then (ok_or OwnersNotSingleKey (collect_option (map single_key ownrs))) (\<lambda>ms.
          and_then (ok_or BadOwnerSet (multisig thr ms)) (\<lambda>derived.
          if derived \<noteq> attestor then Err AddressMismatch else Ok ())))"

section \<open>Chain parameters, proposals\<close>

record chain_params =
  block_interval_secs :: nat
  epoch_length :: nat
  validator_attestation_required :: bool
  min_validator_set :: nat
  max_validator_set :: nat
  max_block_weight :: nat
  reward_per_block :: nat
  unbonding_blocks :: nat
  voting_period_blocks :: nat
  proposal_quorum_bps :: nat
  action_fee :: nat
  weight_fee :: nat
  min_validator_stake :: nat
  equivocation_slash_bps :: nat
  downtime_slash_bps :: nat
  fee_proposer_bps :: nat
  fee_treasury_bps :: nat
  challenge_window_blocks :: nat
  challenger_reward_bps :: nat
  token_create_fee :: nat
  account_extensions_enabled :: bool
  attestor_apply_bond :: nat
  attestor_removal_voting_blocks :: nat
  attestor_removal_cooldown_blocks :: nat
  canonical_builds :: "string list"

definition default_chain_params :: chain_params where
  "default_chain_params =
    \<lparr> block_interval_secs = 2,
      epoch_length = 1800,
      validator_attestation_required = False,
      min_validator_set = 4,
      max_validator_set = 100,
      max_block_weight = 1000000,
      reward_per_block = 4300000000,
      unbonding_blocks = 14 * 24 * 60 * 60 div 2,
      voting_period_blocks = 7 * 24 * 60 * 60 div 2,
      proposal_quorum_bps = 5000,
      action_fee = 1000000,
      weight_fee = 10000,
      min_validator_stake = 100000 * 1000000000,
      equivocation_slash_bps = 10000,
      downtime_slash_bps = 1,
      fee_proposer_bps = 3000,
      fee_treasury_bps = 2000,
      challenge_window_blocks = 12 * 60 * 60 div 2,
      challenger_reward_bps = 500,
      token_create_fee = 100 * 1000000000,
      account_extensions_enabled = False,
      attestor_apply_bond = 100 * 1000000000,
      attestor_removal_voting_blocks = 24 * 60 * 60 div 2,
      attestor_removal_cooldown_blocks = 3 * 24 * 60 * 60 div 2,
      canonical_builds = [] \<rparr>"

datatype dispute_cause = Bug | Attack

datatype dispute_resolution = Accept | Forked

definition classify_build :: "chain_params \<Rightarrow> string \<Rightarrow> dispute_cause" where
  "classify_build params build_id =
    (if canonical_builds params \<noteq> [] \<and>
        (build_id = last (canonical_builds params) \<or> build_id \<notin> set (canonical_builds params))
     then Attack else Bug)"

datatype governance_action =
    SetChainParams chain_params
  | TreasurySpend address nat
  | ResolveDispute nat string dispute_resolution "(address \<times> nat) list" dispute_cause nat
  | ReinstateValidator address
  | AddAttestor address string "address list" nat string string
  | RemoveAttestor address
  | UnblockAttestor address

datatype proposal_status = Open | Executed | Rejected

record proposal =
  proposal_id :: nat
  proposer :: address
  proposal_action :: governance_action
  description :: string
  created_at :: nat
  voting_ends_at :: nat
  yes_power :: nat
  no_power :: nat
  status :: proposal_status
  bond :: nat

end
