(* ===== verification/Voting_Power.thy ===== *)
theory Voting_Power
  imports Primitives
begin

text \<open>
  The stake-weighted validator set (\<^verbatim>\<open>src/core/primitives/src/validator_set.rs\<close>): quorum tests,
  epoch arithmetic and the assignment of voting power. A \<open>VotingPower\<close> is the number it wraps.
  The lemmas show that the assignment returns, that powers always sum to exactly 10,000, that no
  validator exceeds the cap, and that any two quorums overlap in more than a third of the power.
\<close>

section \<open>Quorums\<close>

definition TOTAL_VOTING_POWER :: nat where [simp]: "TOTAL_VOTING_POWER = 10000"

definition QUORUM_POWER :: nat where [simp]: "QUORUM_POWER = 6667"

type_synonym validator_set = "(address, nat) btree"

text \<open>The \<open>filter(|s| seen.insert(*s))\<close> of the source: the first occurrence passes.\<close>

fun first_seen :: "'a set \<Rightarrow> 'a list \<Rightarrow> 'a list" where
  "first_seen seen [] = []"
| "first_seen seen (s # ss) =
     (if s \<in> seen then first_seen seen ss else s # first_seen (insert s seen) ss)"

definition signed_power :: "validator_set \<Rightarrow> address list \<Rightarrow> nat" where
  "signed_power vs signers = sum_list (List.map_filter (map_of vs) (first_seen {} signers))"

definition quorum_reached :: "validator_set \<Rightarrow> address list \<Rightarrow> bool" where
  "quorum_reached vs signers \<longleftrightarrow> QUORUM_POWER \<le> signed_power vs signers"

section \<open>Epochs\<close>

definition epoch_of :: "nat \<Rightarrow> nat \<Rightarrow> nat" where
  "epoch_of height len = height div max len 1"

definition boundary_of :: "nat \<Rightarrow> nat \<Rightarrow> (never, nat) result" where
  "boundary_of epoch len =
    and_then (add_or_panic u64_max epoch 1) (\<lambda>e.
    and_then (mul_or_panic u64_max e (max len 1)) (\<lambda>p.
    sub_or_panic p 1))"

definition validator_set_effective_height :: "nat \<Rightarrow> nat \<Rightarrow> (never, nat) result" where
  "validator_set_effective_height height len =
    mul_or_panic u64_max (epoch_of height len) (max len 1)"

definition is_boundary :: "nat \<Rightarrow> nat \<Rightarrow> (never, bool) result" where
  "is_boundary height len =
    and_then (add_or_panic u64_max height 1) (\<lambda>h. Ok (max len 1 dvd h))"

section \<open>Power assignment\<close>

text \<open>\<open>clamp\<close> of Rust's \<open>Ord\<close>, and \<open>u32::div_ceil\<close>. A \<open>usize as u32\<close> cast keeps the low 32 bits.\<close>

definition clamp :: "nat \<Rightarrow> nat \<Rightarrow> nat \<Rightarrow> nat" where
  "clamp lo hi x = (if x < lo then lo else if hi < x then hi else x)"

definition div_ceil :: "nat \<Rightarrow> nat \<Rightarrow> nat" where
  "div_ceil a b = (if a mod b = 0 then a div b else a div b + 1)"

definition as_u32 :: "nat \<Rightarrow> nat" where
  "as_u32 n = n mod 2 ^ 32"

definition power_cap :: "nat \<Rightarrow> nat" where
  "power_cap n0 =
    (let n = as_u32 (max n0 1) in
     max (clamp (TOTAL_VOTING_POWER div 10) 3333 (2 * TOTAL_VOTING_POWER div n))
         (div_ceil TOTAL_VOTING_POWER n))"

definition power_share :: "nat \<Rightarrow> nat \<Rightarrow> nat \<Rightarrow> nat \<Rightarrow> (never, nat) result" where
  "power_share remaining pool_total n stake =
    (if pool_total = 0 then Ok (remaining div as_u32 n)
     else and_then (mul_or_panic u128_max remaining stake) (\<lambda>p.
          Ok (as_u32 (p div pool_total))))"

text \<open>
  The proportional pass. The pool is walked in ascending key order, so each \<open>insert\<close> into the
  fresh \<open>assigned\<close> map appends at its end.
\<close>

fun proportional :: "nat \<Rightarrow> nat \<Rightarrow> nat \<Rightarrow> (address, nat) btree \<Rightarrow>
    (never, (address, nat) btree) result" where
  "proportional remaining pool_total n [] = Ok []"
| "proportional remaining pool_total n (e # es) =
     and_then (power_share remaining pool_total n (snd e)) (\<lambda>share.
     and_then (proportional remaining pool_total n es) (\<lambda>rest.
     Ok ((fst e, share) # rest)))"

text \<open>The remainder goes one unit at a time in ascending address order.\<close>

fun hand_out :: "nat \<Rightarrow> (address, nat) btree \<Rightarrow> (address, nat) btree" where
  "hand_out leftover [] = []"
| "hand_out leftover (e # es) =
     (if leftover = 0 then e # es else (fst e, snd e + 1) # hand_out (leftover - 1) es)"

definition assign_pass :: "nat \<Rightarrow> (address, nat) btree \<Rightarrow> (never, (address, nat) btree) result" where
  "assign_pass remaining pool =
    and_then (sum_or_panic u128_max (map snd pool)) (\<lambda>pool_total.
    and_then (proportional remaining pool_total (length pool) pool) (\<lambda>assigned.
    and_then (sum_or_panic u32_max (map snd assigned)) (\<lambda>assigned_total.
    and_then (sub_or_panic remaining assigned_total) (\<lambda>leftover.
    Ok (hand_out leftover assigned)))))"

definition over_cap :: "nat \<Rightarrow> (address, nat) btree \<Rightarrow> address list" where
  "over_cap cap assigned = map fst (filter (\<lambda>e. cap < snd e) assigned)"

definition bt_remove_all :: "'k list \<Rightarrow> ('k, 'v) btree \<Rightarrow> ('k, 'v) btree" where
  "bt_remove_all ks m = filter (\<lambda>e. fst e \<notin> set ks) m"

lemma proportional_keys:
  "proportional R T n es = Ok xs \<Longrightarrow> map fst xs = map fst es"
  by (induction es arbitrary: xs) auto

lemma hand_out_keys [simp]: "map fst (hand_out l es) = map fst es"
  by (induction l es rule: hand_out.induct) auto

lemma assign_pass_keys: "assign_pass R es = Ok xs \<Longrightarrow> map fst xs = map fst es"
  by (auto simp: assign_pass_def proportional_keys)

lemma over_cap_subset: "set (over_cap cap xs) \<subseteq> fst ` set xs"
  by (auto simp: over_cap_def)

lemma assign_pass_shrinks:
  assumes "assign_pass R pool = Ok xs" and "over_cap cap xs \<noteq> []"
  shows "length (bt_remove_all (over_cap cap xs) pool) < length pool"
proof -
  obtain a where a: "a \<in> set (over_cap cap xs)" using assms(2) by (cases "over_cap cap xs") auto
  then have "a \<in> fst ` set pool"
    using over_cap_subset [of cap xs] assign_pass_keys [OF assms(1)]
    by (metis in_mono list.set_map)
  then obtain e where "e \<in> set pool" "fst e \<in> set (over_cap cap xs)" using a by auto
  then show ?thesis
    unfolding bt_remove_all_def by (intro length_filter_less [of e]) auto
qed

function assign_loop :: "nat \<Rightarrow> (address, nat) btree \<Rightarrow> nat \<Rightarrow> (address, nat) btree \<Rightarrow>
    (never, validator_set) result" where
  "assign_loop cap powers remaining pool =
    and_then (assign_pass remaining pool) (\<lambda>assigned.
    (let over = over_cap cap assigned in
     if over = [] then Ok (bt_extend powers assigned)
     else
       (let powers' = bt_extend powers (map (\<lambda>a. (a, cap)) over);
            pool' = bt_remove_all over pool
        in and_then (sub_or_panic remaining (cap * length over)) (\<lambda>remaining'.
           if pool' = [] then Ok (hand_out remaining' powers')
           else assign_loop cap powers' remaining' pool'))))"
  by pat_completeness auto
termination
  by (relation "measure (\<lambda>(cap, powers, remaining, pool). length pool)")
     (auto intro: assign_pass_shrinks)

declare assign_loop.simps [simp del]

definition assign_voting_power :: "(address, nat) btree \<Rightarrow> (never, validator_set) result" where
  "assign_voting_power stakes =
    (if stakes = [] then Ok []
     else assign_loop (power_cap (length stakes)) [] TOTAL_VOTING_POWER stakes)"

section \<open>The assignment is total and exact\<close>

lemma sum_floor_le:
  "sum_list (map (\<lambda>x. f x div T) xs) * T \<le> sum_list (map f xs)" for T :: nat
  by (induction xs) (auto simp: add_mult_distrib intro!: add_mono)

lemma sum_floor_ge:
  "0 < T \<Longrightarrow> sum_list (map f xs) \<le> (sum_list (map (\<lambda>x. f x div T) xs) + length xs) * T" for T :: nat
proof (induction xs)
  case (Cons x xs)
  have "f x \<le> (f x div T + 1) * T"
    using Cons.prems by (metis Suc_eq_plus1 dividend_less_times_div less_imp_le mult.commute mult_Suc_right)
  with Cons show ?case by (simp add: algebra_simps)
qed simp

definition share_of :: "nat \<Rightarrow> nat \<Rightarrow> nat \<Rightarrow> nat \<Rightarrow> nat" where
  "share_of R T n s = (if T = 0 then R div n else R * s div T)"

lemma power_share_exact:
  assumes "R \<le> 10000" "s \<le> T" "10000 * T \<le> u128_max" "n < 2 ^ 32"
  shows "power_share R T n s = Ok (share_of R T n s)"
proof (cases "T = 0")
  case False
  have "R * s \<le> 10000 * T" using assms by (intro mult_mono) auto
  moreover have "R * s div T \<le> R * T div T"
    using assms by (intro div_le_mono mult_le_mono2)
  ultimately show ?thesis
    using assms False
    by (cases "mul_or_panic u128_max R s") (auto simp: power_share_def share_of_def as_u32_def mul_or_panic_def)
qed (use assms in \<open>auto simp: power_share_def share_of_def as_u32_def\<close>)

lemma proportional_exact:
  assumes "R \<le> 10000" "\<forall>s\<in>snd ` set es. s \<le> T" "10000 * T \<le> u128_max" "n < 2 ^ 32"
  shows "proportional R T n es = Ok (map (\<lambda>e. (fst e, share_of R T n (snd e))) es)"
  using assms(2) by (induction es) (use assms in \<open>auto simp: power_share_exact\<close>)

lemma hand_out_sum:
  "l \<le> length es \<Longrightarrow> sum_list (map snd (hand_out l es)) = sum_list (map snd es) + l"
  by (induction l es rule: hand_out.induct) auto

lemma shares_bounds:
  fixes ss :: "nat list" and R :: nat
  assumes "ss \<noteq> []"
  defines "S \<equiv> sum_list (map (share_of R (sum_list ss) (length ss)) ss)"
  shows "S \<le> R" "R \<le> S + length ss"
proof -
  let ?T = "sum_list ss" and ?n = "length ss"
  have "S \<le> R \<and> R \<le> S + ?n"
  proof (cases "?T = 0")
    case True
    then have S: "S = ?n * (R div ?n)" by (simp add: S_def share_of_def [abs_def] map_replicate_const sum_list_replicate)
    have "R = ?n * (R div ?n) + R mod ?n" by simp
    moreover have "R mod ?n < ?n" using assms(1) by simp
    ultimately show ?thesis unfolding S by linarith
  next
    case False
    have S: "S = sum_list (map (\<lambda>s. R * s div ?T) ss)"
      unfolding S_def share_of_def [abs_def] using False by (simp only: if_False)
    have RT: "sum_list (map (\<lambda>s. R * s) ss) = R * ?T" by (simp add: sum_list_const_mult)
    have "S * ?T \<le> R * ?T" using sum_floor_le [of "\<lambda>s. R * s" ?T ss] by (simp add: S RT)
    moreover have "R * ?T \<le> (S + ?n) * ?T"
      using sum_floor_ge [of ?T "\<lambda>s. R * s" ss] False by (simp add: S RT)
    ultimately show ?thesis using False by simp
  qed
  then show "S \<le> R" "R \<le> S + length ss" by auto
qed

lemma assign_pass_total:
  assumes "pool \<noteq> []" "R \<le> 10000" "10000 * sum_list (map snd pool) \<le> u128_max"
    and "length pool < 2 ^ 32"
  obtains xs where "(assign_pass R pool :: (never, _) result) = Ok xs" "sum_list (map snd xs) = R"
    "map fst xs = map fst pool"
proof -
  let ?T = "sum_list (map snd pool)" and ?n = "length pool"
  let ?as = "map (\<lambda>e. (fst e, share_of R ?T ?n (snd e))) pool"
  let ?S = "sum_list (map snd ?as)"
  have le: "\<forall>s\<in>snd ` set pool. s \<le> ?T" by (force intro: sum_list_member_le)
  have as: "(proportional R ?T ?n pool :: (never, _) result) = Ok ?as"
    by (rule proportional_exact) (use assms le in auto)
  have b: "?S \<le> R" "R \<le> ?S + ?n"
    using shares_bounds [of "map snd pool" R] assms(1) by (simp_all add: comp_def)
  have T: "?T \<le> u128_max" using assms(3) by linarith
  have "?S \<le> u32_max" using b(1) assms(2) by (simp add: u32_max_def)
  then have p: "(assign_pass R pool :: (never, _) result) = Ok (hand_out (R - ?S) ?as)"
    unfolding assign_pass_def using T as b(1)
    by (simp add: sum_or_panic_def sub_or_panic_def expect_def checked_sub_def del: and_then_Ok_iff map_map)
  have q: "sum_list (map snd (hand_out (R - ?S) ?as)) = R"
    using b by (simp add: hand_out_sum)
  show ?thesis by (rule that [OF p q assign_pass_keys [OF p]])
qed


definition loop_inv :: "nat \<Rightarrow> (address, nat) btree \<Rightarrow> nat \<Rightarrow> (address, nat) btree \<Rightarrow> bool" where
  "loop_inv cap powers R pool \<longleftrightarrow>
     pool \<noteq> [] \<and> bt_wf pool \<and> bt_wf powers \<and> fst ` set powers \<inter> fst ` set pool = {} \<and>
     (\<forall>e\<in>set powers. snd e = cap) \<and> R + cap * length powers = 10000 \<and>
     10000 \<le> cap * (length pool + length powers) \<and>
     10000 * sum_list (map snd pool) \<le> u128_max \<and> length pool < 2 ^ 32"

definition power_post :: "nat \<Rightarrow> address set \<Rightarrow> validator_set \<Rightarrow> bool" where
  "power_post cap keys r \<longleftrightarrow>
     sum_list (map snd r) = 10000 \<and> (\<forall>e\<in>set r. snd e \<le> cap) \<and> fst ` set r = keys \<and> bt_wf r"

lemma sum_all_const: "\<forall>e\<in>set m. snd e = c \<Longrightarrow> sum_list (map snd m) = c * length m" for c :: nat
  by (induction m) auto

lemma sum_over_gt:
  "over_cap cap xs \<noteq> [] \<Longrightarrow> cap * length (over_cap cap xs) < sum_list (map snd xs)"
proof (induction xs)
  case (Cons x xs)
  have "cap * length (over_cap cap xs) \<le> sum_list (map snd xs)"
    using Cons.IH by (cases "over_cap cap xs = []") auto
  with Cons show ?case by (auto simp: over_cap_def)
qed (simp add: over_cap_def)

lemma length_bt_extend:
  "distinct (map fst n) \<Longrightarrow> fst ` set m \<inter> fst ` set n = {} \<Longrightarrow>
   length (bt_extend m n) = length m + length n"
  using mset_bt_extend [of n m] by (metis length_append mset_append mset_eq_length)

lemma filter_sum_le: "sum_list (map f (filter P xs)) \<le> sum_list (map f xs)" for f :: "_ \<Rightarrow> nat"
  by (induction xs) auto

lemma bt_wf_filter: "bt_wf m \<Longrightarrow> bt_wf (filter P m)"
  unfolding bt_wf_def by (induction m) auto

lemma length_bt_remove_all:
  assumes "bt_wf m" "distinct ks" "set ks \<subseteq> fst ` set m"
  shows "length (bt_remove_all ks m) + length ks = length m"
proof -
  have keys: "fst ` set (bt_remove_all ks m) = fst ` set m - set ks"
    by (auto simp: bt_remove_all_def)
  have "distinct (map fst (bt_remove_all ks m))" "distinct (map fst m)"
    using assms(1) bt_wf_filter bt_wf_distinct unfolding bt_remove_all_def by auto
  then have "length (bt_remove_all ks m) = card (fst ` set m - set ks)"
    and "length m = card (fst ` set m)"
    by (metis distinct_card keys length_map list.set_map)+
  moreover have "card (set ks) = length ks" using assms(2) by (rule distinct_card)
  ultimately show ?thesis
    using assms(3) card_Diff_subset [OF _ assms(3)] card_mono [OF _ assms(3)] by simp
qed

lemma loop_inv_step:
  assumes inv: "loop_inv cap powers R pool" and pass: "assign_pass R pool = Ok xs"
    and sum: "sum_list (map snd xs) = R" and over: "over_cap cap xs \<noteq> []"
  defines "os \<equiv> over_cap cap xs"
  shows "cap * length os \<le> R"
    and "bt_remove_all os pool \<noteq> []"
    and "loop_inv cap (bt_extend powers (map (\<lambda>a. (a, cap)) os)) (R - cap * length os) (bt_remove_all os pool)"
    and "fst ` set (bt_extend powers (map (\<lambda>a. (a, cap)) os)) \<union> fst ` set (bt_remove_all os pool)
         = fst ` set powers \<union> fst ` set pool"
proof -
  let ?p = "bt_extend powers (map (\<lambda>a. (a, cap)) os)" and ?q = "bt_remove_all os pool"
  have I: "bt_wf pool" "bt_wf powers" "fst ` set powers \<inter> fst ` set pool = {}"
    "\<forall>e\<in>set powers. snd e = cap" "R + cap * length powers = 10000"
    "10000 \<le> cap * (length pool + length powers)"
    "10000 * sum_list (map snd pool) \<le> u128_max" "length pool < 2 ^ 32"
    using inv by (auto simp: loop_inv_def)
  have keys: "map fst xs = map fst pool" by (rule assign_pass_keys [OF pass])
  have dx: "distinct (map fst xs)" using I(1) bt_wf_distinct keys by metis
  have sub: "set os \<subseteq> fst ` set pool"
    using over_cap_subset [of cap xs] keys by (metis os_def list.set_map)
  have dos: "distinct os" unfolding os_def over_cap_def using dx by (rule distinct_map_filter)
  have disj: "fst ` set powers \<inter> fst ` set (map (\<lambda>a. (a, cap)) os) = {}"
    using sub I(3) by (auto simp: image_image)
  have lt: "cap * length os < R" using sum_over_gt [OF over] sum by (simp add: os_def)
  show le: "cap * length os \<le> R" using lt by simp
  have lenp: "length ?p = length powers + length os"
    using length_bt_extend [OF _ disj] dos by (simp add: comp_def)
  have setp: "set ?p = set powers \<union> (\<lambda>a. (a, cap)) ` set os"
    using set_bt_extend_disjoint [OF _ disj] dos by (simp add: comp_def)
  have keysq: "fst ` set ?q = fst ` set pool - set os"
    by (auto simp: bt_remove_all_def)
  have cardq: "length ?q + length os = length pool"
    using I(1) dos sub by (rule length_bt_remove_all)
  show q: "?q \<noteq> []"
  proof
    assume "?q = []"
    then have "length os = length pool" using cardq by simp
    then have "cap * (length pool + length powers) < 10000"
      using lt I(5) by (simp add: distrib_left)
    with I(6) show False by simp
  qed
  have "sum_list (map snd ?q) \<le> sum_list (map snd pool)"
    unfolding bt_remove_all_def by (rule filter_sum_le)
  then have s: "10000 * sum_list (map snd ?q) \<le> u128_max" using I(7) by linarith
  have "fst ` set ?p \<inter> fst ` set ?q = {}"
    using I(3) keysq by (auto simp: setp image_Un image_image)
  moreover have "cap * length os + (R - cap * length os) = R" using le by simp
  ultimately show "loop_inv cap ?p (R - cap * length os) ?q"
    using q I cardq s
    by (auto simp: loop_inv_def setp lenp bt_wf_extend bt_remove_all_def bt_wf_filter algebra_simps)
  show "fst ` set ?p \<union> fst ` set ?q = fst ` set powers \<union> fst ` set pool"
    using sub by (auto simp: setp keysq image_Un image_image)
qed

lemma assign_loop_correct:
  "loop_inv cap powers R pool \<Longrightarrow>
   \<exists>r. (assign_loop cap powers R pool :: (never, _) result) = Ok r \<and> power_post cap (fst ` set powers \<union> fst ` set pool) r"
proof (induction pool arbitrary: powers R rule: measure_induct_rule [of length])
  case (less pool)
  have inv: "bt_wf pool" "bt_wf powers" "fst ` set powers \<inter> fst ` set pool = {}"
    "\<forall>e\<in>set powers. snd e = cap" "R + cap * length powers = 10000"
    using less.prems by (auto simp: loop_inv_def)
  obtain xs where xs: "(assign_pass R pool :: (never, _) result) = Ok xs" "sum_list (map snd xs) = R"
      "map fst xs = map fst pool"
    using less.prems assign_pass_total [of pool R] by (auto simp: loop_inv_def)
  have kx: "fst ` set xs = fst ` set pool" using xs(3) by (metis list.set_map)
  show ?case
  proof (cases "over_cap cap xs = []")
    case True
    have d: "distinct (map fst xs)" "fst ` set powers \<inter> fst ` set xs = {}"
      using inv xs(3) bt_wf_distinct kx by (metis, simp)
    have "\<forall>e\<in>set xs. snd e \<le> cap"
      using True by (auto simp: over_cap_def filter_empty_conv not_less)
    then have "power_post cap (fst ` set powers \<union> fst ` set pool) (bt_extend powers xs)"
      using inv xs d kx sum_all_const [OF inv(4)]
      by (auto simp: power_post_def sum_bt_extend set_bt_extend_disjoint bt_wf_extend image_Un)
    with xs True show ?thesis by (subst assign_loop.simps) simp
  next
    case False
    note step = loop_inv_step [OF less.prems xs(1,2) False]
    have "(sub_or_panic R (cap * length (over_cap cap xs)) :: (never, _) result) = Ok (R - cap * length (over_cap cap xs))"
      using step(1) by simp
    with less.IH [OF assign_pass_shrinks [OF xs(1) False] step(3)] step xs False
    show ?thesis by (subst assign_loop.simps) (simp add: Let_def)
  qed
qed

lemma div_ceil_covers:
  assumes "0 < n"
  shows "t \<le> div_ceil t n * n"
proof -
  have "t mod n < n" using assms by simp
  then have "t \<le> n * (t div n) + n"
    using mult_div_mod_eq [of n t] by linarith
  then show ?thesis
    using mult_div_mod_eq [of n t] by (auto simp: div_ceil_def algebra_simps)
qed

lemma power_cap_covers:
  assumes "0 < n" "n < 2 ^ 32"
  shows "10000 \<le> power_cap n * n"
proof -
  have m: "as_u32 (max n 1) = n" using assms by (simp add: as_u32_def max_def)
  have "10000 \<le> div_ceil 10000 n * n" using assms(1) by (rule div_ceil_covers)
  also have "\<dots> \<le> power_cap n * n"
    unfolding power_cap_def Let_def m by (intro mult_le_mono1) simp
  finally show ?thesis .
qed

lemma power_cap_le:
  assumes "4 \<le> n" "n < 2 ^ 32"
  shows "power_cap n \<le> 3333"
proof -
  have m: "as_u32 (max n 1) = n" using assms by (simp add: as_u32_def max_def)
  have "10000 div n \<le> 10000 div (4::nat)" using assms(1) by (rule div_le_mono2 [rotated]) simp
  then have "div_ceil 10000 n \<le> 3333" by (simp add: div_ceil_def)
  then show ?thesis unfolding power_cap_def Let_def m by (simp add: clamp_def)
qed

lemma assign_voting_power_post:
  assumes "bt_wf stakes" "stakes \<noteq> []" "length stakes < 2 ^ 32"
    and "10000 * sum_list (map snd stakes) \<le> u128_max"
  shows "\<exists>r. assign_voting_power stakes = Ok r \<and>
             power_post (power_cap (length stakes)) (fst ` set stakes) r"
proof -
  have "loop_inv (power_cap (length stakes)) [] 10000 stakes"
    using assms power_cap_covers [of "length stakes"] by (auto simp: loop_inv_def)
  from assign_loop_correct [OF this] assms(2) show ?thesis
    by (simp add: assign_voting_power_def)
qed

section \<open>Quorums overlap\<close>

lemma first_seen_set: "set (first_seen seen xs) = set xs - seen"
  by (induction seen xs rule: first_seen.induct) auto

lemma first_seen_distinct: "distinct (first_seen seen xs)"
  by (induction seen xs rule: first_seen.induct) (auto simp: first_seen_set)

lemma sum_map_filter:
  "distinct xs \<Longrightarrow>
   sum_list (List.map_filter f xs) = (\<Sum>x\<in>set xs \<inter> dom f. the (f x))" for f :: "_ \<Rightarrow> nat option"
proof (induction xs)
  case (Cons x xs)
  then show ?case
    by (cases "f x") (auto simp: List.map_filter_simps Int_insert_left domIff)
qed (simp add: List.map_filter_simps)

lemma signed_power_sum:
  "signed_power vs xs = (\<Sum>v\<in>set xs \<inter> dom (map_of vs). the (map_of vs v))"
  by (simp add: signed_power_def sum_map_filter first_seen_distinct first_seen_set)

lemma sum_snd_map_of: "distinct (map fst m) \<Longrightarrow> sum_list (map snd m) = msum (\<lambda>v. v) (map_of m)"
  for m :: "('k \<times> nat) list"
proof (induction m)
  case (Cons e m)
  have "map_of m (fst e) = None" using Cons.prems by (simp add: map_of_eq_None_iff)
  then have "msum (\<lambda>v. v) ((map_of m)(fst e \<mapsto> snd e)) = msum (\<lambda>v. v) (map_of m) + snd e"
    using msum_upd [OF finite_dom_map_of, of "\<lambda>v. v" m "fst e" "snd e"] by simp
  with Cons show ?case by (simp del: fun_upd_apply)
qed simp

text \<open>
  The contract of a weighted quorum system: a set of members, each with a weight, the weights
  adding up to a fixed total, and the power of a list of signers, which counts each member once
  and an outsider not at all.
\<close>

locale weighted_quorum =
  fixes good :: "'s \<Rightarrow> bool"
    and memb :: "'s \<Rightarrow> 'v set"
    and weight :: "'s \<Rightarrow> 'v \<Rightarrow> nat"
    and power :: "'s \<Rightarrow> 'v list \<Rightarrow> nat"
    and whole :: nat
  assumes finite_members: "good s \<Longrightarrow> finite (memb s)"
    and weights_total: "good s \<Longrightarrow> (\<Sum>v\<in>memb s. weight s v) = whole"
    and power_counts: "good s \<Longrightarrow> power s xs = (\<Sum>v\<in>set xs \<inter> memb s. weight s v)"
begin

lemma power_le_whole: "good s \<Longrightarrow> power s xs \<le> whole"
  unfolding power_counts weights_total [symmetric]
  by (intro sum_mono2) (auto simp: finite_members)

lemma power_mono: "good s \<Longrightarrow> set xs \<inter> memb s \<subseteq> set ys \<Longrightarrow> power s xs \<le> power s ys"
  unfolding power_counts by (intro sum_mono2) (auto simp: finite_members)

lemma power_overlap:
  assumes "good s" and "set xs \<inter> set ys \<subseteq> set zs"
  shows "power s xs + power s ys \<le> whole + power s zs"
proof -
  let ?X = "set xs \<inter> memb s" and ?Y = "set ys \<inter> memb s" and ?w = "weight s"
  have fin: "finite ?X" "finite ?Y" by auto
  have "sum ?w ?X + sum ?w ?Y = sum ?w (?X \<union> ?Y) + sum ?w (?X \<inter> ?Y)"
    using sum.union_inter [OF fin, of ?w] by simp
  also have "sum ?w (?X \<union> ?Y) \<le> sum ?w (memb s)"
    using assms(1) by (intro sum_mono2) (auto simp: finite_members)
  also have "sum ?w (?X \<inter> ?Y) \<le> sum ?w (set zs \<inter> memb s)"
    using assms by (intro sum_mono2) (auto simp: finite_members)
  finally show ?thesis using assms(1) by (simp add: power_counts weights_total)
qed

lemma power_complement:
  assumes "good s" and "memb s \<subseteq> set xs \<union> set ys"
  shows "whole \<le> power s xs + power s ys"
proof -
  let ?X = "set xs \<inter> memb s" and ?Y = "set ys \<inter> memb s" and ?w = "weight s"
  have "sum ?w (memb s) = sum ?w (?X \<union> ?Y)"
    using assms(2) by (intro sum.cong) auto
  also have "\<dots> \<le> sum ?w ?X + sum ?w ?Y"
    using sum.union_inter [of ?X ?Y ?w] by simp
  finally show ?thesis using assms(1) by (simp add: power_counts weights_total)
qed

end

definition full_set :: "validator_set \<Rightarrow> bool" where
  "full_set vs \<longleftrightarrow> bt_wf vs \<and> sum_list (map snd vs) = TOTAL_VOTING_POWER"

interpretation vq: weighted_quorum full_set "\<lambda>vs. dom (map_of vs)" "\<lambda>vs v. the (map_of vs v)"
    signed_power TOTAL_VOTING_POWER
proof
  fix vs :: validator_set
  assume "full_set vs"
  then have "bt_wf vs" "sum_list (map snd vs) = TOTAL_VOTING_POWER" by (auto simp: full_set_def)
  then show "(\<Sum>v\<in>dom (map_of vs). the (map_of vs v)) = TOTAL_VOTING_POWER"
    by (simp add: sum_snd_map_of bt_wf_distinct msum_def)
qed (auto simp: finite_dom_map_of signed_power_sum)


section \<open>Properties\<close>

text \<open>
  C16: \<open>assign_voting_power\<close> always returns, keeps exactly the staked addresses, hands out exactly
  10,000 units and gives nobody more than \<open>power_cap\<close>, for every non-empty stake map whose total
  times 10,000 fits a \<open>u128\<close> (the fixed supply is sixteen orders of magnitude below that).
\<close>

theorem assign_voting_power_exact:
  assumes "bt_wf stakes" and "stakes \<noteq> []" and "length stakes < 2 ^ 32"
    and "10000 * sum_list (map snd stakes) \<le> u128_max"
  shows "\<exists>powers. assign_voting_power stakes = Ok powers \<and>
           sum_list (map snd powers) = TOTAL_VOTING_POWER \<and>
           (\<forall>(a, p)\<in>set powers. p \<le> power_cap (length stakes)) \<and>
           set (bt_keys powers) = set (bt_keys stakes) \<and> bt_wf powers"
  using assign_voting_power_post [OF assms]
  by (fastforce simp: power_post_def bt_keys_def)

theorem assign_voting_power_exact_witness:
  "\<exists>powers. assign_voting_power [(Address ''a'', 90), (Address ''b'', 5), (Address ''c'', 5)] = Ok powers \<and>
     sum_list (map snd powers) = TOTAL_VOTING_POWER \<and>
     (\<forall>(a, p)\<in>set powers. p \<le> power_cap 3) \<and>
     set (bt_keys powers) = {Address ''a'', Address ''b'', Address ''c''} \<and> bt_wf powers"
  using assign_voting_power_exact
    [of "[(Address ''a'', 90), (Address ''b'', 5), (Address ''c'', 5)]"]
  by (simp add: bt_wf_def u128_max_def bt_keys_def less_address_def numeral_3_eq_3)

text \<open>
  A validator set with four or more members stays able to finalize without any one of them:
  the cap is at most 3,333, so everybody else together still reaches the quorum.
\<close>

theorem no_single_validator_blocks_finality:
  assumes "bt_wf stakes" and "4 \<le> length stakes" and "length stakes < 2 ^ 32"
    and "10000 * sum_list (map snd stakes) \<le> u128_max"
    and "assign_voting_power stakes = Ok powers"
  shows "quorum_reached powers (filter (\<lambda>a. a \<noteq> v) (bt_keys powers))"
proof -
  have post: "power_post (power_cap (length stakes)) (fst ` set stakes) powers"
    using assign_voting_power_post [of stakes] assms by fastforce
  then have full: "full_set powers" by (simp add: power_post_def full_set_def)
  have "signed_power powers [v] \<le> 3333"
  proof (cases "map_of powers v")
    case (Some p)
    then have "p \<le> power_cap (length stakes)"
      using post by (force simp: power_post_def dest: map_of_SomeD)
    with Some power_cap_le [OF assms(2,3)] show ?thesis
      by (simp add: signed_power_def List.map_filter_simps)
  qed (simp add: signed_power_def List.map_filter_simps)
  moreover have "10000 \<le> signed_power powers (filter (\<lambda>a. a \<noteq> v) (bt_keys powers)) + signed_power powers [v]"
    using vq.power_complement [OF full, of "filter (\<lambda>a. a \<noteq> v) (bt_keys powers)" "[v]"]
    by (auto simp: bt_keys_def dom_map_of_conv_image_fst)
  ultimately show ?thesis by (simp add: quorum_reached_def)
qed

theorem no_single_validator_blocks_finality_witness:
  "\<exists>powers. assign_voting_power
       [(Address ''a'', 97), (Address ''b'', 1), (Address ''c'', 1), (Address ''d'', 1)] = Ok powers \<and>
     quorum_reached powers (filter (\<lambda>a. a \<noteq> Address ''a'') (bt_keys powers))"
proof -
  let ?s = "[(Address ''a'', 97), (Address ''b'', 1), (Address ''c'', 1), (Address ''d'', 1)] :: (address \<times> nat) list"
  have wf: "bt_wf ?s" "10000 * sum_list (map snd ?s) \<le> u128_max"
    by (simp_all add: bt_wf_def u128_max_def less_address_def)
  obtain p where p: "assign_voting_power ?s = Ok p"
    using assign_voting_power_post [OF wf(1) _ _ wf(2)] by auto
  with no_single_validator_blocks_finality [OF wf(1) _ _ wf(2) p, of "Address ''a''"]
  show ?thesis by auto
qed

text \<open>
  Two quorums of the same set share signers holding at least 3,334 units, more than a third of
  the power: two conflicting certificates for one height need that much power to have signed both.
\<close>

theorem quorums_intersect:
  assumes "full_set vs" and "quorum_reached vs xs" and "quorum_reached vs ys"
  shows "3334 \<le> signed_power vs (filter (\<lambda>v. v \<in> set ys) xs)"
proof -
  have "signed_power vs xs + signed_power vs ys
      \<le> TOTAL_VOTING_POWER + signed_power vs (filter (\<lambda>v. v \<in> set ys) xs)"
    using assms(1) by (rule vq.power_overlap) auto
  with assms(2,3) show ?thesis by (simp add: quorum_reached_def)
qed

theorem quorums_intersect_witness:
  "3334 \<le> signed_power [(Address ''a'', 3334), (Address ''b'', 3333), (Address ''c'', 3333)]
     (filter (\<lambda>v. v \<in> set [Address ''a'', Address ''c'']) [Address ''a'', Address ''b'', Address ''a''])"
  by (rule quorums_intersect)
     (simp_all add: full_set_def bt_wf_def less_address_def quorum_reached_def signed_power_def
      List.map_filter_simps)

text \<open>
  Epoch arithmetic is consistent. For every height whose epoch ends within \<open>u64\<close>, the
  boundary test holds exactly at \<open>boundary_of\<close> of the height's epoch, and the row in force is the
  one of the epoch's first height, one epoch length before the boundary's successor.
\<close>

theorem epoch_boundary_consistent:
  assumes "(epoch_of h len + 1) * max len 1 \<le> u64_max"
  shows "\<exists>b e. boundary_of (epoch_of h len) len = Ok b \<and>
           validator_set_effective_height h len = Ok e \<and>
           is_boundary h len = Ok (h = b) \<and> e \<le> h \<and> h \<le> b \<and> b + 1 = e + max len 1 \<and>
           epoch_of b len = epoch_of h len \<and> epoch_of e len = epoch_of h len"
proof -
  define L where L: "L = max len 1"
  define q where q: "q = h div L"
  define r where r: "r = h mod L"
  have L0: "0 < L" by (simp add: L)
  have h: "h = q * L + r" "r < L" using L0 by (simp_all add: q r)
  have ep: "epoch_of h len = q" by (simp add: epoch_of_def q L)
  have fits: "q * L + L \<le> u64_max" using assms by (simp add: ep L algebra_simps)
  have "q \<le> q * L" using L0 by simp
  then have one: "h + 1 \<le> u64_max" "q + 1 \<le> u64_max" using fits h L0 by linarith+
  have bnd: "L dvd h + 1 \<longleftrightarrow> h = q * L + L - 1"
  proof
    assume "L dvd h + 1"
    then have "L dvd q * L + (r + 1)" unfolding h(1) by (simp only: add.assoc)
    then have "L dvd r + 1" using dvd_add_right_iff [of L "q * L" "r + 1"] by simp
    then have "L \<le> r + 1" by (intro dvd_imp_le) simp_all
    with h show "h = q * L + L - 1" by simp
  next
    assume "h = q * L + L - 1"
    then have "h + 1 = (q + 1) * L" using L0 by (simp add: algebra_simps)
    then show "L dvd h + 1" by simp
  qed
  have "epoch_of (q * L + L - 1) len = q"
  proof -
    obtain m where m: "L = Suc m" using L0 gr0_conv_Suc by auto
    have "q * L + L - 1 = m + q * L" by (simp add: m)
    also have "\<dots> div L = q" using m by (simp only: div_mult_self1) (simp add: m)
    finally show ?thesis unfolding epoch_of_def L [symmetric] .
  qed
  moreover have "epoch_of (q * L) len = q" using L0 unfolding epoch_of_def L [symmetric] by simp
  moreover have "(q + 1) * L = q * L + L" by simp
  then have "boundary_of q len = Ok (q * L + L - 1)"
    using fits one(2) L0 unfolding boundary_of_def L [symmetric]
    by (simp del: One_nat_def mult_Suc add: One_nat_def [symmetric])
  moreover have "validator_set_effective_height h len = Ok (q * L)"
    using fits unfolding validator_set_effective_height_def ep L [symmetric] by simp
  moreover have "is_boundary h len = Ok (h = q * L + L - 1)"
    using one(1) bnd unfolding is_boundary_def L [symmetric] by simp
  moreover have "q * L \<le> h" "h \<le> q * L + L - 1" "q * L + L - 1 + 1 = q * L + L"
    using h L0 by linarith+
  ultimately show ?thesis unfolding ep L [symmetric] by blast
qed

theorem epoch_boundary_consistent_witness:
  "\<exists>b e. boundary_of (epoch_of 3599 1800) 1800 = Ok b \<and>
     validator_set_effective_height 3599 1800 = Ok e \<and>
     is_boundary 3599 1800 = Ok (3599 = b) \<and> e \<le> 3599 \<and> 3599 \<le> b \<and> b + 1 = e + max 1800 1 \<and>
     epoch_of b 1800 = epoch_of 3599 1800 \<and> epoch_of e 1800 = epoch_of 3599 1800"
  by (rule epoch_boundary_consistent) (simp add: epoch_of_def u64_max_def)

end
