(* ===== verification/Proposer.thy ===== *)
theory Proposer
  imports Primitives
begin

text \<open>
  Proposer rotation and the bytes a round-timeout vote signs
  (\<^verbatim>\<open>src/core/primitives/src/consensus.rs\<close>). The lemmas show that the rotation depends on the set
  alone and not on the order it is listed in, that a run of as many rounds as there are validators
  lets every validator propose exactly once, and that distinct votes sign distinct bytes.
\<close>

definition eligible_proposer :: "address list \<Rightarrow> nat \<Rightarrow> nat \<Rightarrow> address option" where
  "eligible_proposer validators height round =
    (if validators = [] then None
     else
       (let sorted = sort validators;
            idx = (height + round) mod 2 ^ 64 mod length sorted
        in Some (sorted ! idx)))"

definition expected_proposer :: "address list \<Rightarrow> nat \<Rightarrow> address option" where
  "expected_proposer validators height = eligible_proposer validators height 0"

type_synonym bytes = string

fun to_le_bytes :: "nat \<Rightarrow> nat \<Rightarrow> bytes" where
  "to_le_bytes 0 n = []"
| "to_le_bytes (Suc k) n = char_of (n mod 256) # to_le_bytes k (n div 256)"

definition push_field :: "bytes \<Rightarrow> bytes \<Rightarrow> bytes" where
  "push_field buf field = buf @ to_le_bytes 8 (length field) @ field"

definition DOMAIN_ROUND_TIMEOUT :: bytes where
  "DOMAIN_ROUND_TIMEOUT = ''arxium/round_timeout/v3''"

definition round_timeout_signing_bytes :: "bytes \<Rightarrow> nat \<Rightarrow> nat \<Rightarrow> string \<Rightarrow> bytes" where
  "round_timeout_signing_bytes genesis height round parent_hash =
    (let buf = push_field [] DOMAIN_ROUND_TIMEOUT;
         buf = push_field buf genesis;
         buf = push_field buf (to_le_bytes 8 height);
         buf = push_field buf (to_le_bytes 4 round)
     in push_field buf parent_hash)"

section \<open>Rotation\<close>

lemma mod_run_le:
  fixes n :: nat
  assumes "r \<le> s" "s < n" "(h + r) mod n = (h + s) mod n"
  shows "r = s"
proof -
  have "n dvd s - r" using assms mod_eq_dvd_iff_nat [of "h + r" "h + s" n] by simp
  moreover have "s - r < n" using assms(2) by simp
  ultimately show ?thesis using assms(1) by (metis diff_is_0_eq dual_order.antisym nat_dvd_not_less not_gr0)
qed

lemma mod_run_inj:
  fixes n :: nat
  assumes "r < n" "s < n" "(h + r) mod n = (h + s) mod n"
  shows "r = s"
  using assms mod_run_le [of r s n h] mod_run_le [of s r n h] by (cases "r \<le> s") auto

lemma eligible_proposer_unwrapped:
  "validators \<noteq> [] \<Longrightarrow> height + round < 2 ^ 64 \<Longrightarrow>
   eligible_proposer validators height round =
     Some (sort validators ! ((height + round) mod length validators))"
  by (simp add: eligible_proposer_def Let_def)

section \<open>Length-prefixed fields\<close>

lemma length_to_le_bytes [simp]: "length (to_le_bytes k n) = k"
  by (induction k n rule: to_le_bytes.induct) auto

lemma to_le_bytes_inj:
  "m < 256 ^ k \<Longrightarrow> n < 256 ^ k \<Longrightarrow> to_le_bytes k m = to_le_bytes k n \<Longrightarrow> m = n"
proof (induction k arbitrary: m n)
  case (Suc k)
  have "m mod 256 = n mod 256"
    using Suc.prems(3) by (simp add: char_of_eq_iff take_bit_eq_mod)
  moreover have "m div 256 = n div 256"
    using Suc.prems by (intro Suc.IH) (auto simp: less_mult_imp_div_less mult.commute)
  ultimately show ?case by (metis div_mult_mod_eq)
qed simp

text \<open>
  A prefix-free field encoding: fields that satisfy \<open>fits\<close> can be read back from the front of any
  byte string, so a fixed number of concatenated fields determines each of them.
\<close>

locale field_code =
  fixes enc :: "'f \<Rightarrow> 'b list" and fits :: "'f \<Rightarrow> bool"
  assumes enc_prefix_free:
    "fits f \<Longrightarrow> fits g \<Longrightarrow> enc f @ x = enc g @ y \<Longrightarrow> f = g \<and> x = y"
begin

lemma fields_inj:
  "length fs = length gs \<Longrightarrow> list_all fits fs \<Longrightarrow> list_all fits gs \<Longrightarrow>
   concat (map enc fs) = concat (map enc gs) \<Longrightarrow> fs = gs"
proof (induction fs gs rule: list_induct2)
  case (Cons f fs g gs)
  have "f = g \<and> concat (map enc fs) = concat (map enc gs)"
    using Cons.prems by (intro enc_prefix_free) auto
  with Cons show ?case by auto
qed simp

end

lemma push_field_prefix_free:
  assumes "length f < 2 ^ 64" "length g < 2 ^ 64"
    and "push_field [] f @ x = push_field [] g @ y"
  shows "f = g \<and> x = y"
proof -
  have "to_le_bytes 8 (length f) @ f @ x = to_le_bytes 8 (length g) @ g @ y"
    using assms(3) by (simp add: push_field_def)
  then have "to_le_bytes 8 (length f) = to_le_bytes 8 (length g)" and r: "f @ x = g @ y"
    by (simp_all add: append_eq_append_conv)
  then have "length f = length g"
    using assms(1,2) to_le_bytes_inj [of "length f" 8 "length g"] by simp
  with r show ?thesis by simp
qed

interpretation pf: field_code "push_field []" "\<lambda>f. length f < 2 ^ 64"
  by unfold_locales (rule push_field_prefix_free)

lemma signing_bytes_fields:
  "round_timeout_signing_bytes genesis height round parent =
   concat (map (push_field [])
     [DOMAIN_ROUND_TIMEOUT, genesis, to_le_bytes 8 height, to_le_bytes 4 round, parent])"
  by (simp add: round_timeout_signing_bytes_def push_field_def Let_def)

section \<open>Properties\<close>

text \<open>
  The proposer depends on the validator set alone: two listings of the same multiset of
  validators elect the same proposer at every height and round.
\<close>

theorem eligible_proposer_order_independent:
  assumes "mset validators = mset validators'"
  shows "eligible_proposer validators height round = eligible_proposer validators' height round"
proof -
  have "sort validators = sort validators'"
    using assms by (intro properties_for_sort) (simp_all add: sorted_sort)
  moreover have "validators = [] \<longleftrightarrow> validators' = []" using assms by auto
  moreover have "length validators = length validators'" using assms by (rule mset_eq_length)
  ultimately show ?thesis by (simp add: eligible_proposer_def)
qed

theorem eligible_proposer_order_independent_witness:
  "eligible_proposer [Address ''b'', Address ''a''] 7 1 =
   eligible_proposer [Address ''a'', Address ''b''] 7 1"
  by (rule eligible_proposer_order_independent) simp

text \<open>
  C18: no validator is skipped. At any height, the first \<open>n\<close> rounds of a set of \<open>n\<close> distinct
  validators elect every member exactly once, so a height recovers as soon as one live validator's
  round is certified.
\<close>

theorem rounds_elect_every_validator:
  assumes "distinct validators" and "height + length validators \<le> 2 ^ 64"
  shows "bij_betw (\<lambda>round. the (eligible_proposer validators height round))
           {..<length validators} (set validators)"
proof (cases "validators = []")
  case False
  let ?n = "length validators" and ?s = "sort validators"
  let ?f = "\<lambda>round. ?s ! ((height + round) mod ?n)"
  have n: "0 < ?n" using False by simp
  have eq: "the (eligible_proposer validators height r) = ?f r" if "r < ?n" for r
    using that assms(2) False by (subst eligible_proposer_unwrapped) auto
  have inj: "inj_on ?f {..<?n}"
  proof (rule inj_onI)
    fix r s assume rs: "r \<in> {..<?n}" "s \<in> {..<?n}" and "?f r = ?f s"
    then have "(height + r) mod ?n = (height + s) mod ?n"
      using n assms(1) by (subst (asm) nth_eq_iff_index_eq) auto
    with rs show "r = s" by (auto intro: mod_run_inj)
  qed
  have "?f ` {..<?n} \<subseteq> set validators"
    using n nth_mem [of _ ?s] by auto
  moreover have "card (?f ` {..<?n}) = card (set validators)"
    using card_image [OF inj] distinct_card [OF assms(1)] by simp
  ultimately have "?f ` {..<?n} = set validators" by (intro card_subset_eq) auto
  with inj have "bij_betw ?f {..<?n} (set validators)" by (simp add: bij_betw_def)
  then show ?thesis by (subst bij_betw_cong [of _ _ ?f]) (auto simp: eq)
qed (simp add: bij_betw_def)

theorem rounds_elect_every_validator_witness:
  "bij_betw (\<lambda>round. the (eligible_proposer [Address ''c'', Address ''a'', Address ''b''] 10 round))
     {..<length [Address ''c'', Address ''a'', Address ''b'']}
     (set [Address ''c'', Address ''a'', Address ''b''])"
  by (rule rounds_elect_every_validator) simp_all

text \<open>
  A round-timeout signature speaks for one chain, one height, one round and one parent only:
  the signed bytes determine all four.
\<close>

theorem round_timeout_signing_bytes_injective:
  assumes "length g1 = 32" "length g2 = 32" "h1 < 2 ^ 64" "h2 < 2 ^ 64" "r1 < 2 ^ 32" "r2 < 2 ^ 32"
    and "length p1 < 2 ^ 64" "length p2 < 2 ^ 64"
    and "round_timeout_signing_bytes g1 h1 r1 p1 = round_timeout_signing_bytes g2 h2 r2 p2"
  shows "g1 = g2 \<and> h1 = h2 \<and> r1 = r2 \<and> p1 = p2"
proof -
  have "[DOMAIN_ROUND_TIMEOUT, g1, to_le_bytes 8 h1, to_le_bytes 4 r1, p1] =
        [DOMAIN_ROUND_TIMEOUT, g2, to_le_bytes 8 h2, to_le_bytes 4 r2, p2]"
    using assms unfolding signing_bytes_fields
    by (intro pf.fields_inj) (simp_all add: DOMAIN_ROUND_TIMEOUT_def)
  then show ?thesis
    using assms to_le_bytes_inj [of h1 8 h2] to_le_bytes_inj [of r1 4 r2] by simp
qed

theorem round_timeout_signing_bytes_injective_witness:
  "round_timeout_signing_bytes (replicate 32 (CHR ''g'')) 300 1 ''aa''
   \<noteq> round_timeout_signing_bytes (replicate 32 (CHR ''g'')) 300 2 ''aa''"
  using round_timeout_signing_bytes_injective
    [of "replicate 32 (CHR ''g'')" "replicate 32 (CHR ''g'')" 300 300 1 2 "''aa''" "''aa''"]
  by auto

end
