(* ===== verification/Ledger_View.thy ===== *)
theory Ledger_View
  imports Voting_Power "HOL-Library.Product_Lexorder"
begin

text \<open>
  What a circuit reads and what it hands back. A \<open>view\<close> holds one partial map per typed key of
  \<^verbatim>\<open>src/core/circuit/src/lib.rs\<close> (\<open>KvRead::get\<close> of a key is the map's value at it); the update structs
  of \<^verbatim>\<open>src/core/storage/src/batch.rs\<close> are the sorted maps the source has, and the \<open>apply_*\<close> functions
  fold them into a view as \<^verbatim>\<open>src/core/storage/src/view.rs\<close> does.

  Reads are total here: a \<open>StorageError\<close> comes only from RocksDB or bincode, which are third-party
  code. \<open>GovernanceUpdates\<close> is a map from encoded keys to encoded rows; here it is the list of its
  writes in order, in which the last write to a key wins as in the map.

  The locale \<open>ledger\<close> is the contract of a balance sheet: how its total moves when rows are
  written. It is interpreted for native balances and for asset balances.
\<close>

section \<open>Typed rows\<close>

record open_dispute =
  culprit :: address
  challenger :: address
  cause :: dispute_cause

record view =
  v_account :: "address \<rightharpoonup> account_entry"
  v_stake :: "address \<times> address \<rightharpoonup> stake_allocation"
  v_stake_by_validator :: "address \<rightharpoonup> address list"
  v_unbonding_due :: "nat \<rightharpoonup> (address \<times> address) list"
  v_validator_candidates :: "address list option"
  v_bls_key :: "address \<rightharpoonup> string"
  v_bls_pubkey_owner :: "string \<rightharpoonup> address"
  v_operator :: "address \<rightharpoonup> address"
  v_operator_index :: "address \<rightharpoonup> address list"
  v_validator_set :: "nat \<rightharpoonup> validator_set"
  v_asset :: "asset_ref \<rightharpoonup> asset"
  v_asset_balance :: "asset_ref \<times> address \<rightharpoonup> nat"
  v_asset_holder_state :: "asset_ref \<times> address \<rightharpoonup> holder_state"
  v_asset_holders :: "asset_ref \<rightharpoonup> address list"
  v_attestor_record :: "address \<rightharpoonup> attestor_record"
  v_attestor_name :: "string \<rightharpoonup> address"
  v_evidence_marker :: "nat \<times> address \<rightharpoonup> unit"
  v_disputed_block :: "nat \<times> string \<rightharpoonup> unit"
  v_dispute_open :: "nat \<times> string \<rightharpoonup> open_dispute"
  v_genesis_hash :: "string option"
  v_validator_status :: "address \<rightharpoonup> validator_status"
  v_chain_params :: "chain_params option"
  v_proposal :: "nat \<rightharpoonup> proposal"
  v_vote :: "nat \<times> address \<rightharpoonup> bool"
  v_next_proposal_id :: "nat option"

definition empty_view :: view where
  "empty_view =
    \<lparr> v_account = Map.empty, v_stake = Map.empty, v_stake_by_validator = Map.empty,
      v_unbonding_due = Map.empty, v_validator_candidates = None, v_bls_key = Map.empty,
      v_bls_pubkey_owner = Map.empty, v_operator = Map.empty, v_operator_index = Map.empty,
      v_validator_set = Map.empty, v_asset = Map.empty, v_asset_balance = Map.empty,
      v_asset_holder_state = Map.empty, v_asset_holders = Map.empty,
      v_attestor_record = Map.empty, v_attestor_name = Map.empty, v_evidence_marker = Map.empty,
      v_disputed_block = Map.empty, v_dispute_open = Map.empty, v_genesis_hash = None,
      v_validator_status = Map.empty, v_chain_params = None, v_proposal = Map.empty,
      v_vote = Map.empty, v_next_proposal_id = None \<rparr>"

text \<open>The \<open>unwrap_or_default\<close> reads every circuit starts with.\<close>

definition account_of :: "view \<Rightarrow> address \<Rightarrow> account_entry" where
  "account_of v a = unwrap_or default_account (v_account v a)"

definition chain_params_of :: "view \<Rightarrow> chain_params" where
  "chain_params_of v = unwrap_or default_chain_params (v_chain_params v)"

definition masters_of :: "view \<Rightarrow> address \<Rightarrow> address list" where
  "masters_of v validator = unwrap_or [] (v_stake_by_validator v validator)"

section \<open>Update batches\<close>

type_synonym account_updates = "(address, account_entry) btree"
type_synonym asset_balance_updates = "(asset_ref \<times> address, nat) btree"
type_synonym holder_state_updates = "(asset_ref \<times> address, holder_state) btree"
type_synonym validator_status_updates = "(address, validator_status option) btree"

record stake_updates =
  allocations :: "(address \<times> address, stake_allocation option) btree"
  validator_index :: "(address, address list) btree"

definition no_stakes :: stake_updates where
  "no_stakes = \<lparr> allocations = [], validator_index = [] \<rparr>"

record operator_updates =
  authorization :: "(address, address option) btree"
  operator_index :: "(address, address list) btree"

definition no_operators :: operator_updates where
  "no_operators = \<lparr> authorization = [], operator_index = [] \<rparr>"

record evidence_marker =
  em_height :: nat
  em_proposer :: address
  em_disputed :: "string option"
  em_challenger :: "address option"
  em_cause :: "dispute_cause option"

record bls_key_registration =
  bls_address :: address
  bls_pubkey :: string
  bls_effective_height :: nat
  previous_pubkey :: "string option"

record attestor_registration =
  ar_attestor :: address
  ar_record :: attestor_record

datatype gov_write =
    PutProposal nat proposal
  | PutVote nat address bool
  | PutNextProposalId nat
  | PutChainParams chain_params
  | DeleteDisputeOpen nat string
  | DeleteValidatorStatus address
  | PutUnbondingDue nat "(address \<times> address) list"
  | DeleteUnbondingDue nat
  | PutValidatorCandidates "address list"
  | PutAttestorRecord address attestor_record
  | DeleteAttestorRecord address
  | PutAttestorName string address
  | DeleteAttestorName string

type_synonym governance_updates = "gov_write list"

record block_updates =
  bu_accounts :: account_updates
  bu_validator_statuses :: validator_status_updates
  bu_validator_set :: "validator_set option"
  bu_stakes :: stake_updates
  bu_evidence :: "evidence_marker option"
  bu_bls_key :: "bls_key_registration option"
  bu_operator :: operator_updates
  bu_assets :: asset_balance_updates
  bu_holder_states :: holder_state_updates
  bu_asset_registration :: "asset option"
  bu_attestor_registration :: "attestor_registration option"
  bu_attestor_deregistration :: "address option"
  bu_governance :: governance_updates

definition default_updates :: block_updates where
  "default_updates =
    \<lparr> bu_accounts = [], bu_validator_statuses = [], bu_validator_set = None,
      bu_stakes = no_stakes, bu_evidence = None, bu_bls_key = None, bu_operator = no_operators,
      bu_assets = [], bu_holder_states = [], bu_asset_registration = None,
      bu_attestor_registration = None, bu_attestor_deregistration = None, bu_governance = [] \<rparr>"

section \<open>Folding a batch into the view\<close>

text \<open>An empty list deletes the row, as in \<open>apply_stakes\<close> and \<open>apply_operator\<close>.\<close>

definition list_row :: "('k \<rightharpoonup> 'v list) \<Rightarrow> ('k, 'v list) btree \<Rightarrow> ('k \<rightharpoonup> 'v list)" where
  "list_row m u = (\<lambda>k. case map_of u k of None \<Rightarrow> m k | Some xs \<Rightarrow> if xs = [] then None else Some xs)"

definition apply_accounts :: "view \<Rightarrow> account_updates \<Rightarrow> view" where
  "apply_accounts v u = v\<lparr> v_account := v_account v ++ map_of u \<rparr>"

definition apply_stakes :: "view \<Rightarrow> stake_updates \<Rightarrow> view" where
  "apply_stakes v u =
    v\<lparr> v_stake := overlay (v_stake v) (allocations u),
       v_stake_by_validator := list_row (v_stake_by_validator v) (validator_index u) \<rparr>"

definition apply_asset_balances :: "view \<Rightarrow> asset_balance_updates \<Rightarrow> view" where
  "apply_asset_balances v u = v\<lparr> v_asset_balance := v_asset_balance v ++ map_of u \<rparr>"

definition apply_holder_states :: "view \<Rightarrow> holder_state_updates \<Rightarrow> view" where
  "apply_holder_states v u = v\<lparr> v_asset_holder_state := v_asset_holder_state v ++ map_of u \<rparr>"

definition apply_validator_statuses :: "view \<Rightarrow> validator_status_updates \<Rightarrow> view" where
  "apply_validator_statuses v u = v\<lparr> v_validator_status := overlay (v_validator_status v) u \<rparr>"

definition apply_operator :: "view \<Rightarrow> operator_updates \<Rightarrow> view" where
  "apply_operator v u =
    v\<lparr> v_operator := overlay (v_operator v) (authorization u),
       v_operator_index := list_row (v_operator_index v) (operator_index u) \<rparr>"

definition apply_bls_key :: "view \<Rightarrow> bls_key_registration \<Rightarrow> view" where
  "apply_bls_key v r =
    (let keys = (v_bls_key v)(bls_address r \<mapsto> bls_pubkey r);
         owners = (v_bls_pubkey_owner v)(bls_pubkey r \<mapsto> bls_address r);
         owners = (case previous_pubkey r of
                     Some previous \<Rightarrow>
                       if previous \<noteq> bls_pubkey r then owners(previous := None) else owners
                   | None \<Rightarrow> owners)
     in v\<lparr> v_bls_key := keys, v_bls_pubkey_owner := owners \<rparr>)"

definition apply_asset_registration :: "view \<Rightarrow> asset \<Rightarrow> view" where
  "apply_asset_registration v a = v\<lparr> v_asset := (v_asset v)(asset_ref_of a \<mapsto> a) \<rparr>"

definition apply_attestor_registration :: "view \<Rightarrow> attestor_registration \<Rightarrow> view" where
  "apply_attestor_registration v r =
    v\<lparr> v_attestor_record := (v_attestor_record v)(ar_attestor r \<mapsto> ar_record r) \<rparr>"

definition apply_attestor_deregistration :: "view \<Rightarrow> address \<Rightarrow> view" where
  "apply_attestor_deregistration v a =
    v\<lparr> v_attestor_record := (v_attestor_record v)(a := None) \<rparr>"

fun apply_gov_write :: "gov_write \<Rightarrow> view \<Rightarrow> view" where
  "apply_gov_write (PutProposal n p) v = v\<lparr> v_proposal := (v_proposal v)(n \<mapsto> p) \<rparr>"
| "apply_gov_write (PutVote n a b) v = v\<lparr> v_vote := (v_vote v)((n, a) \<mapsto> b) \<rparr>"
| "apply_gov_write (PutNextProposalId n) v = v\<lparr> v_next_proposal_id := Some n \<rparr>"
| "apply_gov_write (PutChainParams p) v = v\<lparr> v_chain_params := Some p \<rparr>"
| "apply_gov_write (DeleteDisputeOpen n h) v = v\<lparr> v_dispute_open := (v_dispute_open v)((n, h) := None) \<rparr>"
| "apply_gov_write (DeleteValidatorStatus a) v =
     v\<lparr> v_validator_status := (v_validator_status v)(a := None) \<rparr>"
| "apply_gov_write (PutUnbondingDue n ps) v = v\<lparr> v_unbonding_due := (v_unbonding_due v)(n \<mapsto> ps) \<rparr>"
| "apply_gov_write (DeleteUnbondingDue n) v = v\<lparr> v_unbonding_due := (v_unbonding_due v)(n := None) \<rparr>"
| "apply_gov_write (PutValidatorCandidates cs) v = v\<lparr> v_validator_candidates := Some cs \<rparr>"
| "apply_gov_write (PutAttestorRecord a r) v = v\<lparr> v_attestor_record := (v_attestor_record v)(a \<mapsto> r) \<rparr>"
| "apply_gov_write (DeleteAttestorRecord a) v =
     v\<lparr> v_attestor_record := (v_attestor_record v)(a := None) \<rparr>"
| "apply_gov_write (PutAttestorName n a) v = v\<lparr> v_attestor_name := (v_attestor_name v)(n \<mapsto> a) \<rparr>"
| "apply_gov_write (DeleteAttestorName n) v = v\<lparr> v_attestor_name := (v_attestor_name v)(n := None) \<rparr>"

definition apply_governance :: "view \<Rightarrow> governance_updates \<Rightarrow> view" where
  "apply_governance v u = fold apply_gov_write u v"

section \<open>Reading back\<close>

lemma apply_accounts_Nil [simp]: "apply_accounts v [] = v"
  by (simp add: apply_accounts_def)

lemma apply_accounts_simps [simp]:
  "v_account (apply_accounts v u) = v_account v ++ map_of u"
  "v_stake (apply_accounts v u) = v_stake v"
  "v_stake_by_validator (apply_accounts v u) = v_stake_by_validator v"
  "v_unbonding_due (apply_accounts v u) = v_unbonding_due v"
  "v_asset_balance (apply_accounts v u) = v_asset_balance v"
  "v_validator_status (apply_accounts v u) = v_validator_status v"
  "v_chain_params (apply_accounts v u) = v_chain_params v"
  by (simp_all add: apply_accounts_def)

lemma apply_stakes_simps [simp]:
  "v_account (apply_stakes v u) = v_account v"
  "v_stake (apply_stakes v u) = overlay (v_stake v) (allocations u)"
  "v_stake_by_validator (apply_stakes v u) = list_row (v_stake_by_validator v) (validator_index u)"
  "v_unbonding_due (apply_stakes v u) = v_unbonding_due v"
  "v_asset_balance (apply_stakes v u) = v_asset_balance v"
  "v_validator_status (apply_stakes v u) = v_validator_status v"
  "v_chain_params (apply_stakes v u) = v_chain_params v"
  by (simp_all add: apply_stakes_def)

lemma apply_asset_balances_simps [simp]:
  "v_asset_balance (apply_asset_balances v u) = v_asset_balance v ++ map_of u"
  "v_account (apply_asset_balances v u) = v_account v"
  by (simp_all add: apply_asset_balances_def)

lemma list_row_Nil [simp]: "list_row m [] = m"
  by (simp add: list_row_def)

lemma list_row_insert [simp, bt_simps]:
  "list_row m (bt_insert k xs u) = (list_row m u)(k := if xs = [] then None else Some xs)"
  by (auto simp: list_row_def fun_eq_iff)

lemma no_stakes_simps [simp]: "allocations no_stakes = []" "validator_index no_stakes = []"
  by (simp_all add: no_stakes_def)

lemma apply_governance_simps [simp]:
  "apply_governance v [] = v"
  "apply_governance v (w # ws) = apply_governance (apply_gov_write w v) ws"
  by (simp_all add: apply_governance_def)

lemma apply_gov_write_accounts [simp]:
  "v_account (apply_gov_write w v) = v_account v"
  "v_stake (apply_gov_write w v) = v_stake v"
  "v_stake_by_validator (apply_gov_write w v) = v_stake_by_validator v"
  "v_asset_balance (apply_gov_write w v) = v_asset_balance v"
  "v_asset_holder_state (apply_gov_write w v) = v_asset_holder_state v"
  by (cases w; simp)+

lemma apply_governance_append:
  "apply_governance v (xs @ ys) = apply_governance (apply_governance v xs) ys"
  by (simp add: apply_governance_def)

lemma apply_governance_accounts [simp]:
  "v_account (apply_governance v ws) = v_account v"
  "v_stake (apply_governance v ws) = v_stake v"
  "v_stake_by_validator (apply_governance v ws) = v_stake_by_validator v"
  "v_asset_balance (apply_governance v ws) = v_asset_balance v"
  "v_asset_holder_state (apply_governance v ws) = v_asset_holder_state v"
  by (induction ws arbitrary: v) simp_all

section \<open>The balance sheet\<close>

text \<open>
  A ledger holds rows under keys, each with an amount, and absorbs a batch of rows. Its total is
  what the code's conservation comments speak about.
\<close>

locale ledger =
  fixes rows :: "'s \<Rightarrow> 'k::linorder \<rightharpoonup> 'row"
    and absorb :: "'s \<Rightarrow> ('k, 'row) btree \<Rightarrow> 's"
    and amount :: "'row \<Rightarrow> nat"
  assumes rows_absorb: "rows (absorb s u) = rows s ++ map_of u"
begin

definition sheet_total :: "'s \<Rightarrow> nat" where
  "sheet_total s = msum amount (rows s)"

definition amount_at :: "'s \<Rightarrow> 'k \<Rightarrow> nat" where
  "amount_at s k = opt_val amount (rows s k)"

lemma finite_absorb: "finite (dom (rows s)) \<Longrightarrow> finite (dom (rows (absorb s u)))"
  by (simp add: rows_absorb finite_dom_map_of)

lemma absorb_one:
  "finite (dom (rows s)) \<Longrightarrow>
   sheet_total (absorb s (bt_insert k r [])) + amount_at s k = sheet_total s + amount r"
  using msum_upd [of "rows s" amount k r]
  by (simp add: sheet_total_def amount_at_def rows_absorb)

lemma absorb_two:
  assumes "finite (dom (rows s))" and "a \<noteq> b"
  shows "sheet_total (absorb s (bt_insert b y (bt_insert a x []))) + amount_at s a + amount_at s b =
         sheet_total s + amount x + amount y"
proof -
  have "rows (absorb s (bt_insert b y (bt_insert a x []))) = (rows s)(a \<mapsto> x, b \<mapsto> y)"
    unfolding rows_absorb map_of_bt_insert using assms(2) by (auto simp: fun_eq_iff map_add_def)
  then show ?thesis
    using msum_upd2 [OF assms, of amount x y] by (simp add: sheet_total_def amount_at_def)
qed

lemma absorb_three:
  assumes "finite (dom (rows s))" and "a \<noteq> b" "a \<noteq> c" "b \<noteq> c"
  shows "sheet_total (absorb s (bt_insert c z (bt_insert b y (bt_insert a x []))))
           + amount_at s a + amount_at s b + amount_at s c =
         sheet_total s + amount x + amount y + amount z"
proof -
  have "rows (absorb s (bt_insert c z (bt_insert b y (bt_insert a x [])))) =
        (rows s)(a \<mapsto> x, b \<mapsto> y, c \<mapsto> z)"
    unfolding rows_absorb map_of_bt_insert using assms by (auto simp: fun_eq_iff map_add_def)
  moreover have "msum amount ((rows s)(a \<mapsto> x, b \<mapsto> y, c \<mapsto> z)) + amount_at s c =
      msum amount ((rows s)(a \<mapsto> x, b \<mapsto> y)) + amount z"
    using msum_upd [of "(rows s)(a \<mapsto> x, b \<mapsto> y)" amount c z] assms
    by (simp add: amount_at_def)
  ultimately show ?thesis
    using msum_upd2 [OF assms(1,2), of amount x y] by (simp add: sheet_total_def amount_at_def)
qed

lemma two_rows_conserve:
  assumes "finite (dom (rows s))" and "a \<noteq> b"
    and "amount x + amount y = amount_at s a + amount_at s b"
  shows "sheet_total (absorb s (bt_insert b y (bt_insert a x []))) = sheet_total s"
  using absorb_two [OF assms(1,2), of y x] assms(3) by simp

lemma amount_le_total:
  "finite (dom (rows s)) \<Longrightarrow> amount_at s k \<le> sheet_total s"
  using msum_ge [of "rows s" k _ amount]
  by (cases "rows s k") (auto simp: amount_at_def sheet_total_def)

end

definition native_supply :: "view \<Rightarrow> nat" where
  "native_supply v = msum balance (v_account v)"

interpretation nl: ledger v_account apply_accounts balance
  by unfold_locales simp

interpretation al: ledger v_asset_balance apply_asset_balances "\<lambda>b. b"
  by unfold_locales simp

lemma native_supply_sheet: "nl.sheet_total v = native_supply v"
  by (simp add: nl.sheet_total_def native_supply_def)

lemma native_amount_at: "nl.amount_at v a = balance (account_of v a)"
  by (cases "v_account v a") (simp_all add: nl.amount_at_def account_of_def)

lemmas native_one = nl.absorb_one [unfolded native_supply_sheet native_amount_at]
lemmas native_two = nl.absorb_two [unfolded native_supply_sheet native_amount_at]
lemmas native_three = nl.absorb_three [unfolded native_supply_sheet native_amount_at]
lemmas native_le_supply = nl.amount_le_total [unfolded native_supply_sheet native_amount_at]

lemmas native_conserve = nl.two_rows_conserve [unfolded native_supply_sheet native_amount_at]

lemma native_same:
  "finite (dom (v_account v)) \<Longrightarrow> balance x = balance (account_of v a) \<Longrightarrow>
   native_supply (apply_accounts v (bt_insert a x [])) = native_supply v"
  using native_one [of v a x] by simp

lemma native_supply_same [simp]:
  "native_supply (apply_stakes v u) = native_supply v"
  "native_supply (apply_governance v ws) = native_supply v"
  by (simp_all add: native_supply_def)

lemma account_of_same [simp]:
  "account_of (apply_stakes v u) a = account_of v a"
  "account_of (apply_governance v ws) a = account_of v a"
  by (simp_all add: account_of_def)

lemma account_of_apply_accounts [simp]:
  "account_of (apply_accounts v u) a =
   (case map_of u a of None \<Rightarrow> account_of v a | Some e \<Rightarrow> e)"
  by (auto simp: account_of_def map_add_def split: option.splits)

lemma two_accounts_le_supply:
  assumes "finite (dom (v_account v))" and "a \<noteq> b"
  shows "balance (account_of v a) + balance (account_of v b) \<le> native_supply v"
  using native_two [OF assms, of default_account default_account] by simp

text \<open>The saturating payment governance uses is exact while the supply fits a \<open>u128\<close>.\<close>

lemma saturating_payment_conserves:
  assumes "finite (dom (v_account v))" and "a \<noteq> b" and "x \<le> balance (account_of v a)"
    and "native_supply v \<le> u128_max"
  shows "native_supply (apply_accounts v
      (bt_insert b ((account_of v b)\<lparr> balance := saturating_add u128_max (balance (account_of v b)) x \<rparr>)
        (bt_insert a ((account_of v a)\<lparr> balance := balance (account_of v a) - x \<rparr>) []))) = native_supply v"
proof -
  have "balance (account_of v b) + x \<le> u128_max"
    using two_accounts_le_supply [OF assms(1,2)] assms(3,4) by linarith
  then show ?thesis
    using assms(1-3) by (intro native_conserve) (simp_all add: saturating_add_def)
qed

end
