(* ===== verification/Account_Circuit.thy ===== *)
theory Account_Circuit
  imports Ledger_View
begin

text \<open>
  The native transfer (\<^verbatim>\<open>src/circuits/account/src/lib.rs\<close>). The lemmas describe every branch of
  \<open>apply_transfer\<close> and show that it moves coins without creating or destroying any, also when
  sender and receiver coincide.
\<close>

datatype account_error =
    AccInvalidNonce address nat nat
  | AccInsufficientBalance address nat nat
  | AccOverflow address

definition apply_transfer ::
  "view \<Rightarrow> address \<Rightarrow> nat \<Rightarrow> address \<Rightarrow> nat \<Rightarrow> (account_error, account_updates) result" where
  "apply_transfer v sender n to amount =
    (let sender_entry = account_of v sender in
     if n \<noteq> nonce sender_entry then Err (AccInvalidNonce sender (nonce sender_entry) n)
     else if balance sender_entry < amount
     then Err (AccInsufficientBalance sender (balance sender_entry) amount)
     else if to = sender
     then and_then (add_or_panic u64_max (nonce sender_entry) 1) (\<lambda>n'.
          Ok (bt_insert sender (sender_entry\<lparr> nonce := n' \<rparr>) []))
     else
       (let receiver_entry = account_of v to in
        and_then (add_or_panic u64_max (nonce sender_entry) 1) (\<lambda>n'.
        and_then (ok_or (AccOverflow to) (checked_add u128_max (balance receiver_entry) amount)) (\<lambda>b'.
        Ok (bt_insert to (receiver_entry\<lparr> balance := b' \<rparr>)
             (bt_insert sender
               (sender_entry\<lparr> balance := balance sender_entry - amount, nonce := n' \<rparr>) []))))))"

lemma apply_transfer_OkE:
  assumes "apply_transfer v sender n to amount = Ok u"
  obtains (self) "to = sender" "n = nonce (account_of v sender)" "amount \<le> balance (account_of v sender)"
      "u = bt_insert sender ((account_of v sender)\<lparr> nonce := Suc n \<rparr>) []"
    | (other) "to \<noteq> sender" "n = nonce (account_of v sender)" "amount \<le> balance (account_of v sender)"
      "balance (account_of v to) + amount \<le> u128_max"
      "u = bt_insert to ((account_of v to)\<lparr> balance := balance (account_of v to) + amount \<rparr>)
             (bt_insert sender ((account_of v sender)\<lparr>
                balance := balance (account_of v sender) - amount, nonce := Suc n \<rparr>) [])"
  using assms by (cases "to = sender") (auto simp: apply_transfer_def Let_def not_less)

lemma apply_transfer_outcome:
  "apply_transfer v sender n to amount =
    (if n \<noteq> nonce (account_of v sender) then Err (AccInvalidNonce sender (nonce (account_of v sender)) n)
     else if balance (account_of v sender) < amount
     then Err (AccInsufficientBalance sender (balance (account_of v sender)) amount)
     else if u64_max \<le> n then Panic
     else if to \<noteq> sender \<and> u128_max < balance (account_of v to) + amount then Err (AccOverflow to)
     else Ok (if to = sender then bt_insert sender ((account_of v sender)\<lparr> nonce := Suc n \<rparr>) []
              else bt_insert to ((account_of v to)\<lparr> balance := balance (account_of v to) + amount \<rparr>)
                 (bt_insert sender ((account_of v sender)\<lparr>
                    balance := balance (account_of v sender) - amount, nonce := Suc n \<rparr>) [])))"
  by (auto simp: apply_transfer_def Let_def add_or_panic_def expect_def checked_add_def ok_or_def)

section \<open>Properties\<close>

text \<open>
  An applied transfer conserves the native supply, moves exactly the amount, and touches no
  third account; a transfer to oneself leaves the balance as it was. The sender's nonce advances
  by one.
\<close>

theorem apply_transfer_conserves:
  assumes "finite (dom (v_account v))" and "apply_transfer v sender n to amount = Ok u"
  shows "native_supply (apply_accounts v u) = native_supply v \<and>
    nonce (account_of v sender) = n \<and>
    nonce (account_of (apply_accounts v u) sender) = n + 1 \<and>
    (to \<noteq> sender \<longrightarrow>
       balance (account_of (apply_accounts v u) sender) + amount = balance (account_of v sender) \<and>
       balance (account_of (apply_accounts v u) to) = balance (account_of v to) + amount) \<and>
    (to = sender \<longrightarrow> balance (account_of (apply_accounts v u) sender) = balance (account_of v sender)) \<and>
    (\<forall>a. a \<noteq> sender \<and> a \<noteq> to \<longrightarrow> v_account (apply_accounts v u) a = v_account v a)"
  using assms(2)
proof (cases rule: apply_transfer_OkE)
  case self
  then show ?thesis
    using native_one [OF assms(1), of sender "(account_of v sender)\<lparr> nonce := Suc n \<rparr>"]
    by (simp add: map_add_def)
next
  case other
  then show ?thesis
    using native_two [OF assms(1), of sender to
        "(account_of v to)\<lparr> balance := balance (account_of v to) + amount \<rparr>" "(account_of v sender)\<lparr>
        balance := balance (account_of v sender) - amount, nonce := Suc n \<rparr>"]
    by (simp add: map_add_def)
qed

theorem apply_transfer_conserves_witness:
  "let v = empty_view\<lparr> v_account := [Address ''a'' \<mapsto> default_account\<lparr> balance := 10, nonce := 4 \<rparr>] \<rparr>;
       u = bt_insert (Address ''b'') (default_account\<lparr> balance := 3 \<rparr>)
             (bt_insert (Address ''a'') (default_account\<lparr> balance := 7, nonce := 5 \<rparr>) [])
   in apply_transfer v (Address ''a'') 4 (Address ''b'') 3 = Ok u \<and>
      native_supply (apply_accounts v u) = native_supply v \<and>
      balance (account_of (apply_accounts v u) (Address ''b'')) = 3"
proof -
  let ?v = "empty_view\<lparr> v_account := [Address ''a'' \<mapsto> default_account\<lparr> balance := 10, nonce := 4 \<rparr>] \<rparr>"
  let ?u = "bt_insert (Address ''b'') (default_account\<lparr> balance := 3 \<rparr>)
             (bt_insert (Address ''a'') (default_account\<lparr> balance := 7, nonce := 5 \<rparr>) [])"
  have ok: "apply_transfer ?v (Address ''a'') 4 (Address ''b'') 3 = Ok ?u"
    by (simp add: apply_transfer_outcome account_of_def empty_view_def u64_max_def u128_max_def
       )
  have "balance (account_of ?v (Address ''b'')) = 0" by (simp add: account_of_def empty_view_def)
  with apply_transfer_conserves [OF _ ok] ok show ?thesis by (simp add: empty_view_def)
qed

text \<open>
  The outcome of a transfer on every branch. A wrong nonce is reported before a short balance,
  the only panic is a sender whose nonce has reached \<open>u64::MAX\<close>, and a credit that would overflow
  is refused; otherwise the transfer is applied.
\<close>

theorem apply_transfer_branches:
  "(n \<noteq> nonce (account_of v sender) \<longrightarrow>
      apply_transfer v sender n to amount = Err (AccInvalidNonce sender (nonce (account_of v sender)) n)) \<and>
   (n = nonce (account_of v sender) \<and> balance (account_of v sender) < amount \<longrightarrow>
      apply_transfer v sender n to amount =
        Err (AccInsufficientBalance sender (balance (account_of v sender)) amount)) \<and>
   (apply_transfer v sender n to amount = Panic \<longleftrightarrow>
      n = nonce (account_of v sender) \<and> amount \<le> balance (account_of v sender) \<and> u64_max \<le> n) \<and>
   (is_ok (apply_transfer v sender n to amount) \<longleftrightarrow>
      n = nonce (account_of v sender) \<and> amount \<le> balance (account_of v sender) \<and> n < u64_max \<and>
      (to = sender \<or> balance (account_of v to) + amount \<le> u128_max))"
  unfolding apply_transfer_outcome by (auto simp: not_le not_less)

theorem apply_transfer_branches_witness:
  "apply_transfer empty_view (Address ''a'') 7 (Address ''b'') 1 = Err (AccInvalidNonce (Address ''a'') 0 7) \<and>
   apply_transfer empty_view (Address ''a'') 0 (Address ''b'') 1 =
     Err (AccInsufficientBalance (Address ''a'') 0 1)"
  using apply_transfer_branches [of 7 empty_view "Address ''a''" "Address ''b''" 1]
    apply_transfer_branches [of 0 empty_view "Address ''a''" "Address ''b''" 1]
  by (simp add: account_of_def empty_view_def)

end
