(* ===== verification/Staking_Circuit.thy ===== *)
theory Staking_Circuit
  imports Ledger_View
begin

text \<open>
  The staking circuit (\<^verbatim>\<open>src/circuits/staking/src/lib.rs\<close>): block rewards, staking and unstaking,
  slashing, the unbonding index and the release of matured unbonding.

  The invariant \<open>stake_inv\<close> collects what the comments of the source promise: one master per
  validator, index and allocation rows that agree, and a sub-account that holds at least what its
  allocation locks. Every operation keeps it, none creates or destroys coins, and under it the
  release of matured unbonding never panics.
\<close>

section \<open>Operations\<close>

definition MAX_DELEGATION_PER_VALIDATOR :: nat where
  "MAX_DELEGATION_PER_VALIDATOR = 10000000 * 1000000000"

datatype slash_reason = DoubleSign | Downtime | ExecutionFault

fun tombstones :: "slash_reason \<Rightarrow> bool" where
  "tombstones Downtime = False"
| "tombstones _ = True"

datatype staking_error =
    StkInvalidNonce address nat nat
  | ZeroAmount
  | StkInsufficientBalance address nat nat
  | ValidatorHasOtherMaster address
  | NoActiveAllocation address address
  | AlreadyUnbonding address address
  | InsufficientStake address address nat nat
  | NoStakeForValidator address
  | DelegationCapExceeded address nat
  | StkOverflow address

definition credit :: "nat \<Rightarrow> nat \<Rightarrow> address \<Rightarrow> (staking_error, nat) result" where
  "credit bal amount acct = ok_or (StkOverflow acct) (checked_add u128_max bal amount)"

definition apply_block_reward ::
  "hasher \<Rightarrow> view \<Rightarrow> address \<Rightarrow> nat \<Rightarrow> nat \<Rightarrow> nat \<Rightarrow> nat \<Rightarrow> (never, account_updates) result" where
  "apply_block_reward H v who fees_collected reward prop_bps treasury_bps =
    (let pool_account = reward_pool_account H;
         treasury = treasury_account H;
         pool_entry = account_of v pool_account;
         block_reward = min reward (balance pool_entry);
         pool_entry = pool_entry\<lparr> balance := balance pool_entry - block_reward \<rparr>
     in
     and_then (mul_or_panic u128_max fees_collected prop_bps) (\<lambda>p.
     and_then (mul_or_panic u128_max fees_collected treasury_bps) (\<lambda>t.
     (let proposer_fee_share = p div 10000;
          treasury_fee_share = t div 10000;
          proposer_entry = account_of v who
      in
      and_then (add_or_panic u128_max block_reward proposer_fee_share) (\<lambda>gain.
      and_then (expect (checked_add u128_max (balance proposer_entry) gain)) (\<lambda>pb.
      (let treasury_entry = account_of v treasury in
       and_then (expect (checked_add u128_max (balance treasury_entry) treasury_fee_share)) (\<lambda>tb.
       Ok (bt_insert treasury (treasury_entry\<lparr> balance := tb \<rparr>)
            (bt_insert who (proposer_entry\<lparr> balance := pb \<rparr>)
              (bt_insert pool_account pool_entry [])))))))))))"

definition apply_stake ::
  "hasher \<Rightarrow> view \<Rightarrow> address \<Rightarrow> nat \<Rightarrow> address \<Rightarrow> nat \<Rightarrow> nat \<Rightarrow>
   (staking_error, account_updates \<times> stake_updates) result" where
  "apply_stake H v master n validator amount now_height =
    (if amount = 0 then Err ZeroAmount
     else
      (let master_entry = account_of v master in
       if n \<noteq> nonce master_entry then Err (StkInvalidNonce master (nonce master_entry) n)
       else if balance master_entry < amount
       then Err (StkInsufficientBalance master (balance master_entry) amount)
       else if list_ex (\<lambda>m. m \<noteq> master) (masters_of v validator)
       then Err (ValidatorHasOtherMaster validator)
       else
        (let existing = v_stake v (master, validator) in
         if (case existing of Some e \<Rightarrow> unbonding e \<noteq> None | None \<Rightarrow> False)
         then Err (AlreadyUnbonding master validator)
         else
          (let current_total = (case existing of Some e \<Rightarrow> active_amount e | None \<Rightarrow> 0) in
           and_then (add_or_panic u128_max current_total amount) (\<lambda>new_total.
           if MAX_DELEGATION_PER_VALIDATOR < new_total
           then Err (DelegationCapExceeded validator new_total)
           else
            (let sub_account = stake_subaccount H validator;
                 sub_entry = account_of v sub_account
             in
             and_then (add_or_panic u64_max (nonce master_entry) 1) (\<lambda>n'.
             and_then (credit (balance sub_entry) amount sub_account) (\<lambda>b'.
             (let new_allocation =
                   (case existing of
                      Some e \<Rightarrow> e\<lparr> active_amount := new_total, updated_at := now_height \<rparr>
                    | None \<Rightarrow> \<lparr> sa_master = master, sa_validator = validator, active_amount = amount,
                               unbonding = None, sa_created_at = now_height,
                               updated_at = now_height \<rparr>)
              in
              Ok (bt_insert sub_account (sub_entry\<lparr> balance := b' \<rparr>)
                   (bt_insert master
                     (master_entry\<lparr> balance := balance master_entry - amount, nonce := n' \<rparr>) []),
                  \<lparr> allocations = bt_insert (master, validator) (Some new_allocation) [],
                    validator_index = bt_insert validator [master] [] \<rparr>))))))))))"

definition apply_unstake ::
  "view \<Rightarrow> address \<Rightarrow> nat \<Rightarrow> address \<Rightarrow> nat \<Rightarrow> nat \<Rightarrow> nat \<Rightarrow>
   (staking_error, account_updates \<times> stake_updates) result" where
  "apply_unstake v master n validator amount now_height unbond_blocks =
    (if amount = 0 then Err ZeroAmount
     else
      (let master_entry = account_of v master in
       if n \<noteq> nonce master_entry then Err (StkInvalidNonce master (nonce master_entry) n)
       else
        and_then (ok_or (NoActiveAllocation master validator) (v_stake v (master, validator))) (\<lambda>existing.
        if unbonding existing \<noteq> None then Err (AlreadyUnbonding master validator)
        else if active_amount existing < amount
        then Err (InsufficientStake master validator (active_amount existing) amount)
        else
         and_then (add_or_panic u64_max now_height unbond_blocks) (\<lambda>unlock.
         and_then (add_or_panic u64_max (nonce master_entry) 1) (\<lambda>n'.
         Ok (bt_insert master (master_entry\<lparr> nonce := n' \<rparr>) [],
             \<lparr> allocations =
                 bt_insert (master, validator)
                   (Some (existing\<lparr> active_amount := active_amount existing - amount,
                                    unbonding := Some \<lparr> unb_amount = amount, unlock_at_height = unlock \<rparr>,
                                    updated_at := now_height \<rparr>)) [],
               validator_index = [] \<rparr>))))))"

definition unbonding_amount :: "stake_allocation \<Rightarrow> nat" where
  "unbonding_amount e = (case unbonding e of Some u \<Rightarrow> unb_amount u | None \<Rightarrow> 0)"

text \<open>How a slash of \<open>slash_amount\<close> hits an allocation: active stake first, then the unbonding batch.\<close>

definition slash_allocation :: "nat \<Rightarrow> nat \<Rightarrow> stake_allocation \<Rightarrow> stake_allocation" where
  "slash_allocation slash_amount now_height existing =
    (let from_active = min slash_amount (active_amount existing);
         remaining = slash_amount - from_active;
         hit = existing\<lparr> active_amount := active_amount existing - from_active \<rparr>;
         hit = (case unbonding existing of
                  Some u \<Rightarrow>
                    if 0 < remaining then
                      (if unb_amount u - remaining = 0 then hit\<lparr> unbonding := None \<rparr>
                       else hit\<lparr> unbonding := Some (u\<lparr> unb_amount := unb_amount u - remaining \<rparr>) \<rparr>)
                    else hit
                | None \<Rightarrow> hit)
     in hit\<lparr> updated_at := now_height \<rparr>)"

definition apply_slash ::
  "hasher \<Rightarrow> view \<Rightarrow> address \<Rightarrow> nat \<Rightarrow> slash_reason \<Rightarrow> nat \<Rightarrow>
   (staking_error, account_updates \<times> stake_updates) result" where
  "apply_slash H v validator amount reason now_height =
    (case masters_of v validator of
       [] \<Rightarrow> Err (NoStakeForValidator validator)
     | master # _ \<Rightarrow>
       and_then (ok_or (NoStakeForValidator validator) (v_stake v (master, validator))) (\<lambda>existing.
       and_then (add_or_panic u128_max (active_amount existing) (unbonding_amount existing)) (\<lambda>total.
       (let slash_amount = min amount total;
            hit = slash_allocation slash_amount now_height existing;
            sub_account = stake_subaccount H validator;
            sub_entry = account_of v sub_account;
            debited = min (balance sub_entry) slash_amount;
            sub_entry' = sub_entry\<lparr> balance := balance sub_entry - debited \<rparr>;
            pool_account = reward_pool_account H;
            pool_entry = account_of v pool_account
        in
        and_then (credit (balance pool_entry) debited pool_account) (\<lambda>b'.
        Ok (bt_insert pool_account (pool_entry\<lparr> balance := b' \<rparr>)
             (bt_insert sub_account sub_entry' []),
            (if active_amount hit = 0 \<and> unbonding hit = None then
               \<lparr> allocations = bt_insert (master, validator) None [],
                 validator_index = bt_insert validator [] [] \<rparr>
             else
               \<lparr> allocations = bt_insert (master, validator) (Some hit) [],
                 validator_index = [] \<rparr>)))))))"

definition apply_downtime_slash ::
  "hasher \<Rightarrow> view \<Rightarrow> address \<Rightarrow> address \<Rightarrow> nat \<Rightarrow> nat \<Rightarrow>
   (never, account_updates \<times> stake_updates) result" where
  "apply_downtime_slash H v primary actual_proposer now_height slash_bps =
    (if primary = actual_proposer then Ok ([], no_stakes)
     else
      (case masters_of v primary of
         [] \<Rightarrow> Ok ([], no_stakes)
       | master # _ \<Rightarrow>
         (case v_stake v (master, primary) of
            None \<Rightarrow> Ok ([], no_stakes)
          | Some existing \<Rightarrow>
            and_then (add_or_panic u128_max (active_amount existing) (unbonding_amount existing)) (\<lambda>total.
            and_then (mul_or_panic u128_max total slash_bps) (\<lambda>p.
            (let amount = p div 10000 in
             if amount = 0 then Ok ([], no_stakes)
             else
              (case apply_slash H v primary amount Downtime now_height of
                 Ok res \<Rightarrow> Ok res
               | Err e \<Rightarrow> Ok ([], no_stakes)
               | Panic \<Rightarrow> Panic)))))))"

definition index_unbonding :: "view \<Rightarrow> nat \<Rightarrow> address \<Rightarrow> address \<Rightarrow> governance_updates" where
  "index_unbonding v unlock master validator =
    (let due = unwrap_or [] (v_unbonding_due v unlock);
         pair = (master, validator);
         due = (if pair \<in> set due then due else due @ [pair])
     in [PutUnbondingDue unlock due])"

text \<open>The allocations among the indexed pairs that still unlock at \<open>height\<close>.\<close>

definition due_allocations :: "view \<Rightarrow> nat \<Rightarrow> (address \<times> address) list \<Rightarrow> stake_allocation list" where
  "due_allocations v height pairs =
    List.map_filter (\<lambda>pair.
      case v_stake v pair of
        Some a \<Rightarrow> (case unbonding a of
                     Some u \<Rightarrow> if unlock_at_height u = height then Some a else None
                   | None \<Rightarrow> None)
      | None \<Rightarrow> None) pairs"

text \<open>An account as read through the overlay the release loop keeps.\<close>

definition through :: "account_updates \<Rightarrow> view \<Rightarrow> address \<Rightarrow> account_entry" where
  "through overl v a = (case map_of overl a of Some e \<Rightarrow> e | None \<Rightarrow> account_of v a)"

fun release_loop ::
  "hasher \<Rightarrow> view \<Rightarrow> stake_allocation list \<Rightarrow> account_updates \<Rightarrow> stake_updates \<Rightarrow>
   (never, account_updates \<times> stake_updates) result" where
  "release_loop H v [] overl su = Ok (overl, su)"
| "release_loop H v (allocation # due) overl su =
    (case unbonding allocation of
       None \<Rightarrow> release_loop H v due overl su
     | Some u \<Rightarrow>
       (let allocation = allocation\<lparr> unbonding := None \<rparr>;
            master = sa_master allocation;
            master_entry = through overl v master
        in
        and_then (expect (checked_add u128_max (balance master_entry) (unb_amount u))) (\<lambda>mb.
        (let overl = bt_insert master (master_entry\<lparr> balance := mb \<rparr>) overl;
             sub_account = stake_subaccount H (sa_validator allocation);
             sub_entry = through overl v sub_account
         in
         and_then (sub_or_panic (balance sub_entry) (unb_amount u)) (\<lambda>sb.
         (let overl = bt_insert sub_account (sub_entry\<lparr> balance := sb \<rparr>) overl;
              key = (master, sa_validator allocation);
              su = (if active_amount allocation = 0 then
                      su\<lparr> allocations := bt_insert key None (allocations su),
                          validator_index := bt_insert (sa_validator allocation) [] (validator_index su) \<rparr>
                    else su\<lparr> allocations := bt_insert key (Some allocation) (allocations su) \<rparr>)
          in release_loop H v due overl su))))))"

definition resolve_due_unbonding ::
  "hasher \<Rightarrow> view \<Rightarrow> nat \<Rightarrow> (never, account_updates \<times> stake_updates \<times> governance_updates) result" where
  "resolve_due_unbonding H v height =
    (case v_unbonding_due v height of
       None \<Rightarrow> Ok ([], no_stakes, [])
     | Some pairs \<Rightarrow>
       and_then (release_loop H v (due_allocations v height pairs) [] no_stakes) (\<lambda>(overl, su).
       Ok (overl, su, [DeleteUnbondingDue height])))"

section \<open>System accounts\<close>

text \<open>
  System accounts have no key, so no transaction is sent from one. \<open>separated\<close> says the hash tells
  them apart; \<open>user_account\<close> that an address is none of them.
\<close>

definition separated :: "hasher \<Rightarrow> bool" where
  "separated H \<longleftrightarrow>
     (\<forall>v w. stake_subaccount H v = stake_subaccount H w \<longrightarrow> v = w) \<and>
     (\<forall>w. stake_subaccount H w \<noteq> reward_pool_account H \<and> stake_subaccount H w \<noteq> treasury_account H) \<and>
     reward_pool_account H \<noteq> treasury_account H"

definition user_account :: "hasher \<Rightarrow> address \<Rightarrow> bool" where
  "user_account H a \<longleftrightarrow>
     (\<forall>w. a \<noteq> stake_subaccount H w) \<and> a \<noteq> reward_pool_account H \<and> a \<noteq> treasury_account H"

lemma separated_inj: "inj H \<Longrightarrow> separated H"
  by (simp add: separated_def system_accounts_distinct)

lemma separatedD [simp]:
  assumes "separated H"
  shows "stake_subaccount H v = stake_subaccount H w \<longleftrightarrow> v = w"
    and "stake_subaccount H w \<noteq> reward_pool_account H"
    and "reward_pool_account H \<noteq> stake_subaccount H w"
    and "stake_subaccount H w \<noteq> treasury_account H"
    and "treasury_account H \<noteq> stake_subaccount H w"
    and "reward_pool_account H \<noteq> treasury_account H"
    and "treasury_account H \<noteq> reward_pool_account H"
  using assms by (auto simp: separated_def)

lemma user_accountD [simp]:
  assumes "user_account H a"
  shows "a \<noteq> stake_subaccount H w" "stake_subaccount H w \<noteq> a"
    and "a \<noteq> reward_pool_account H" "reward_pool_account H \<noteq> a"
    and "a \<noteq> treasury_account H" "treasury_account H \<noteq> a"
  using assms by (auto simp: user_account_def)

section \<open>The invariant\<close>

definition locked :: "stake_allocation \<Rightarrow> nat" where
  "locked a = active_amount a + unbonding_amount a"

definition row_ok :: "hasher \<Rightarrow> view \<Rightarrow> address \<Rightarrow> address \<Rightarrow> stake_allocation \<Rightarrow> bool" where
  "row_ok H v m w a \<longleftrightarrow>
     sa_master a = m \<and> sa_validator a = w \<and> user_account H m \<and>
     v_stake_by_validator v w = Some [m] \<and>
     locked a \<le> balance (account_of v (stake_subaccount H w))"

definition stake_inv :: "hasher \<Rightarrow> view \<Rightarrow> bool" where
  "stake_inv H v \<longleftrightarrow>
     finite (dom (v_account v)) \<and>
     (\<forall>m w a. v_stake v (m, w) = Some a \<longrightarrow> row_ok H v m w a) \<and>
     (\<forall>w ms. v_stake_by_validator v w = Some ms \<longrightarrow> (\<exists>m. ms = [m] \<and> v_stake v (m, w) \<noteq> None))"

lemma stake_inv_finite: "stake_inv H v \<Longrightarrow> finite (dom (v_account v))"
  by (simp add: stake_inv_def)

lemma stake_inv_row: "stake_inv H v \<Longrightarrow> v_stake v (m, w) = Some a \<Longrightarrow> row_ok H v m w a"
  by (simp add: stake_inv_def)

lemma stake_inv_single:
  "stake_inv H v \<Longrightarrow> v_stake v (m, w) = Some a \<Longrightarrow> v_stake v (m', w) = Some b \<Longrightarrow> m' = m"
  using stake_inv_row [of H v m w a] stake_inv_row [of H v m' w b] by (simp add: row_ok_def)

lemma stake_inv_first:
  assumes "stake_inv H v" and "masters_of v w = m # ms"
  shows "ms = []" and "\<exists>a. v_stake v (m, w) = Some a" and "v_stake_by_validator v w = Some [m]"
  using assms by (cases "v_stake_by_validator v w"; fastforce simp: masters_of_def stake_inv_def)+

text \<open>
  The shape of every staking write: one allocation row, its validator's index row, and balances in
  which no other sub-account shrinks.
\<close>

lemma stake_inv_update:
  assumes inv: "stake_inv H v" and fin: "finite (dom (v_account v'))"
    and stake: "v_stake v' = (v_stake v)((m, w) := r)"
    and idx: "\<And>w'. w' \<noteq> w \<Longrightarrow> v_stake_by_validator v' w' = v_stake_by_validator v w'"
    and bal: "\<And>w'. w' \<noteq> w \<Longrightarrow> balance (account_of v (stake_subaccount H w'))
                    \<le> balance (account_of v' (stake_subaccount H w'))"
    and only: "\<And>m' a. v_stake v (m', w) = Some a \<Longrightarrow> m' = m"
    and row: "case r of Some a \<Rightarrow> row_ok H v' m w a | None \<Rightarrow> v_stake_by_validator v' w = None"
  shows "stake_inv H v'"
proof -
  have rows: "row_ok H v' m' w' a" if "v_stake v' (m', w') = Some a" for m' w' a
  proof (cases "w' = w")
    case True
    with that only row stake show ?thesis by (cases "m' = m") (auto split: if_splits)
  next
    case False
    with that stake have "v_stake v (m', w') = Some a" by simp
    then have "row_ok H v m' w' a" by (rule stake_inv_row [OF inv])
    with idx [OF False] bal [OF False] show ?thesis by (auto simp: row_ok_def)
  qed
  have "\<exists>m'. ms = [m'] \<and> v_stake v' (m', w') \<noteq> None" if "v_stake_by_validator v' w' = Some ms" for w' ms
  proof (cases "w' = w")
    case True
    with that row show ?thesis by (cases r) (auto simp: row_ok_def stake)
  next
    case False
    with that idx have "v_stake_by_validator v w' = Some ms" by simp
    with inv False show ?thesis by (auto simp: stake_inv_def stake)
  qed
  with rows fin show ?thesis by (auto simp: stake_inv_def)
qed

lemma stake_inv_accounts:
  assumes "stake_inv H v"
    and "\<And>w. balance (account_of v (stake_subaccount H w))
             \<le> balance (account_of (apply_accounts v u) (stake_subaccount H w))"
  shows "stake_inv H (apply_accounts v u)"
  using assms nl.finite_absorb [of v u]
  by (fastforce simp: stake_inv_def row_ok_def intro: order_trans)

section \<open>Staking and unstaking\<close>

definition staked :: "view \<Rightarrow> account_updates \<times> stake_updates \<Rightarrow> view" where
  "staked v r = apply_stakes (apply_accounts v (fst r)) (snd r)"

lemma apply_stake_OkE:
  assumes "apply_stake H v master n validator amount now = Ok r"
  obtains cur e' where "0 < amount" "n = nonce (account_of v master)" "n < u64_max"
    "amount \<le> balance (account_of v master)"
    "\<forall>m\<in>set (masters_of v validator). m = master"
    "cur = (case v_stake v (master, validator) of Some e \<Rightarrow> active_amount e | None \<Rightarrow> 0)"
    "\<forall>e. v_stake v (master, validator) = Some e \<longrightarrow> unbonding e = None"
    "cur + amount \<le> MAX_DELEGATION_PER_VALIDATOR"
    "balance (account_of v (stake_subaccount H validator)) + amount \<le> u128_max"
    "r = (bt_insert (stake_subaccount H validator)
            ((account_of v (stake_subaccount H validator))\<lparr>
               balance := balance (account_of v (stake_subaccount H validator)) + amount \<rparr>)
           (bt_insert master ((account_of v master)\<lparr>
               balance := balance (account_of v master) - amount, nonce := n + 1 \<rparr>) []),
          \<lparr> allocations = bt_insert (master, validator) (Some e') [],
            validator_index = bt_insert validator [master] [] \<rparr>)"
    "active_amount e' = cur + amount" "unbonding e' = None"
    "v_stake v (master, validator) = None \<longrightarrow> sa_master e' = master \<and> sa_validator e' = validator"
    "\<forall>e. v_stake v (master, validator) = Some e \<longrightarrow> sa_master e' = sa_master e \<and> sa_validator e' = sa_validator e"
proof -
  let ?x = "v_stake v (master, validator)"
  let ?cur = "case ?x of Some e \<Rightarrow> active_amount e | None \<Rightarrow> 0"
  let ?e = "case ?x of Some e \<Rightarrow> e\<lparr> active_amount := ?cur + amount, updated_at := now \<rparr>
     | None \<Rightarrow> \<lparr> sa_master = master, sa_validator = validator, active_amount = amount,
               unbonding = None, sa_created_at = now, updated_at = now \<rparr>"
  show ?thesis
    using assms
    by (intro that [of ?cur ?e])
       (auto simp: apply_stake_def Let_def credit_def not_less list_ex_iff less_eq_Suc_le
         split: if_splits option.splits)
qed

lemma apply_stake_inv:
  assumes sep: "separated H" and user: "user_account H master" and inv: "stake_inv H v"
    and ok: "apply_stake H v master n validator amount now = Ok r"
  shows "stake_inv H (staked v r)" and "native_supply (staked v r) = native_supply v"
  using ok
proof (atomize (full), cases rule: apply_stake_OkE)
  case (1 cur e')
  let ?s = "stake_subaccount H validator"
  have fin: "finite (dom (v_account v))" by (rule stake_inv_finite [OF inv])
  have ne: "?s \<noteq> master" using user by simp
  have "native_supply (staked v r) = native_supply v"
    unfolding staked_def 1(10) using 1(4) ne by (simp add: native_conserve fin)
  moreover have "stake_inv H (staked v r)"
  proof (rule stake_inv_update [OF inv, where m = master and w = validator and r = "Some e'"])
    show "v_stake (staked v r) = (v_stake v)((master, validator) := Some e')"
      by (simp add: staked_def 1(10))
    show "\<And>m' a. v_stake v (m', validator) = Some a \<Longrightarrow> m' = master"
      using stake_inv_row [OF inv] 1(5) by (fastforce simp: row_ok_def masters_of_def)
    show "case Some e' of Some a \<Rightarrow> row_ok H (staked v r) master validator a
        | None \<Rightarrow> v_stake_by_validator (staked v r) validator = None"
      using stake_inv_row [OF inv, of master validator] user ne 1(6,7,11-14)
      by (cases "v_stake v (master, validator)")
         (auto simp: row_ok_def staked_def 1(10) locked_def
           unbonding_amount_def)
  qed (use fin sep user ne in \<open>auto simp: staked_def 1(10)
     \<close>)
  ultimately show "stake_inv H (staked v r) \<and> native_supply (staked v r) = native_supply v" by simp
qed

lemma apply_unstake_OkE:
  assumes "apply_unstake v master n validator amount now blocks = Ok r"
  obtains e where "0 < amount" "n = nonce (account_of v master)" "n < u64_max"
    "v_stake v (master, validator) = Some e" "unbonding e = None" "amount \<le> active_amount e"
    "now + blocks \<le> u64_max"
    "r = (bt_insert master ((account_of v master)\<lparr> nonce := n + 1 \<rparr>) [],
          \<lparr> allocations = bt_insert (master, validator)
              (Some (e\<lparr> active_amount := active_amount e - amount,
                        unbonding := Some \<lparr> unb_amount = amount, unlock_at_height = now + blocks \<rparr>,
                        updated_at := now \<rparr>)) [],
            validator_index = [] \<rparr>)"
  using assms
  by (auto simp: apply_unstake_def Let_def not_less less_eq_Suc_le split: if_splits)

lemma apply_unstake_inv:
  assumes inv: "stake_inv H v"
    and ok: "apply_unstake v master n validator amount now blocks = Ok r"
  shows "stake_inv H (staked v r)" and "native_supply (staked v r) = native_supply v"
  using ok
proof (atomize (full), cases rule: apply_unstake_OkE)
  case (1 e)
  have fin: "finite (dom (v_account v))" by (rule stake_inv_finite [OF inv])
  have row: "row_ok H v master validator e" by (rule stake_inv_row [OF inv 1(4)])
  have "native_supply (staked v r) = native_supply v"
    unfolding staked_def 1(8) by (simp add: native_same fin)
  moreover have "stake_inv H (staked v r)"
  proof (rule stake_inv_update [OF inv, where m = master and w = validator])
    show "v_stake (staked v r) = (v_stake v)((master, validator) :=
        Some (e\<lparr> active_amount := active_amount e - amount,
                 unbonding := Some \<lparr> unb_amount = amount, unlock_at_height = now + blocks \<rparr>,
                 updated_at := now \<rparr>))"
      by (simp add: staked_def 1(8))
    show "\<And>m' a. v_stake v (m', validator) = Some a \<Longrightarrow> m' = master"
      by (rule stake_inv_single [OF inv 1(4)])
  qed (use fin row 1(5,6) in \<open>auto simp: staked_def 1(8) row_ok_def locked_def unbonding_amount_def\<close>)
  ultimately show "stake_inv H (staked v r) \<and> native_supply (staked v r) = native_supply v" by simp
qed

section \<open>Slashing\<close>

lemma slash_allocation_locked:
  assumes "s \<le> locked e"
  shows "locked (slash_allocation s now e) = locked e - s"
    and "sa_master (slash_allocation s now e) = sa_master e"
    and "sa_validator (slash_allocation s now e) = sa_validator e"
    and "active_amount (slash_allocation s now e) = active_amount e - min s (active_amount e)"
  using assms
  by (cases "unbonding e"; auto simp: slash_allocation_def locked_def unbonding_amount_def Let_def)+

lemma apply_slash_OkE:
  assumes "apply_slash H v validator amount reason now = Ok r"
  obtains m ms e s d where "masters_of v validator = m # ms" "v_stake v (m, validator) = Some e"
    "s = min amount (locked e)"
    "d = min (balance (account_of v (stake_subaccount H validator))) s"
    "locked e \<le> u128_max"
    "balance (account_of v (reward_pool_account H)) + d \<le> u128_max"
    "fst r = bt_insert (reward_pool_account H) ((account_of v (reward_pool_account H))\<lparr>
               balance := balance (account_of v (reward_pool_account H)) + d \<rparr>)
             (bt_insert (stake_subaccount H validator) ((account_of v (stake_subaccount H validator))\<lparr>
               balance := balance (account_of v (stake_subaccount H validator)) - d \<rparr>) [])"
    "snd r = (let hit = slash_allocation s now e in
              if active_amount hit = 0 \<and> unbonding hit = None then
                \<lparr> allocations = bt_insert (m, validator) None [], validator_index = bt_insert validator [] [] \<rparr>
              else \<lparr> allocations = bt_insert (m, validator) (Some hit) [], validator_index = [] \<rparr>)"
proof (cases "masters_of v validator")
  case (Cons m ms)
  with assms show ?thesis
    by (intro that [of m ms "the (v_stake v (m, validator))" "min amount (locked (the (v_stake v (m, validator))))"])
       (auto simp: apply_slash_def Let_def credit_def locked_def)
qed (use assms in \<open>simp add: apply_slash_def\<close>)

lemma apply_slash_inv:
  assumes sep: "separated H" and inv: "stake_inv H v"
    and ok: "apply_slash H v validator amount reason now = Ok r"
  shows "stake_inv H (staked v r)" and "native_supply (staked v r) = native_supply v"
  using ok
proof (atomize (full), cases rule: apply_slash_OkE)
  case (1 m ms e s d)
  let ?s = "stake_subaccount H validator" and ?hit = "slash_allocation s now e"
  have fin: "finite (dom (v_account v))" by (rule stake_inv_finite [OF inv])
  have row: "row_ok H v m validator e" by (rule stake_inv_row [OF inv 1(2)])
  then have bk: "locked e \<le> balance (account_of v ?s)" by (simp add: row_ok_def)
  have sl: "s \<le> locked e" using 1(3) by simp
  have d: "d = s" using bk sl 1(4) by simp
  note hit = slash_allocation_locked [OF sl, of now]
  have "native_supply (staked v r) = native_supply v"
    unfolding staked_def 1(7) using sep 1(4) by (simp add: native_conserve fin)
  moreover have "stake_inv H (staked v r)"
  proof (rule stake_inv_update [OF inv, where m = m and w = validator and
        r = "if active_amount ?hit = 0 \<and> unbonding ?hit = None then None else Some ?hit"])
    show "v_stake (staked v r) = (v_stake v)((m, validator) :=
        if active_amount ?hit = 0 \<and> unbonding ?hit = None then None else Some ?hit)"
      by (simp add: staked_def 1(8) Let_def)
    show "\<And>m' a. v_stake v (m', validator) = Some a \<Longrightarrow> m' = m"
      by (rule stake_inv_single [OF inv 1(2)])
  qed (use fin row sep hit bk d in
      \<open>auto simp: staked_def 1(7,8) Let_def row_ok_def split: if_splits\<close>)
  ultimately show "stake_inv H (staked v r) \<and> native_supply (staked v r) = native_supply v" by simp
qed

lemma staked_nothing [simp]: "staked v ([], no_stakes) = v"
  by (simp add: staked_def apply_accounts_def apply_stakes_def)

lemma apply_downtime_slash_cases:
  assumes "apply_downtime_slash H v primary actual now bps = Ok r"
  shows "r = ([], no_stakes) \<or> (\<exists>amount. apply_slash H v primary amount Downtime now = Ok r)"
  using assms
  by (auto simp: apply_downtime_slash_def Let_def split: if_splits list.splits option.splits result.splits)

lemma apply_downtime_slash_inv:
  assumes "separated H" and "stake_inv H v"
    and "apply_downtime_slash H v primary actual now bps = Ok r"
  shows "stake_inv H (staked v r)" and "native_supply (staked v r) = native_supply v"
  using apply_downtime_slash_cases [OF assms(3)] apply_slash_inv [OF assms(1,2)] assms(2)
  by (elim disjE exE; simp)+

section \<open>Block rewards\<close>

lemma apply_block_reward_Ok_iff:
  "apply_block_reward H v who fees reward pb tb = Ok u \<longleftrightarrow>
    (let pool = account_of v (reward_pool_account H); pay = min reward (balance pool);
         share = fees * pb div 10000; cut = fees * tb div 10000 in
     fees * pb \<le> u128_max \<and> fees * tb \<le> u128_max \<and> pay + share \<le> u128_max \<and>
     balance (account_of v who) + (pay + share) \<le> u128_max \<and>
     balance (account_of v (treasury_account H)) + cut \<le> u128_max \<and>
     u = bt_insert (treasury_account H) ((account_of v (treasury_account H))\<lparr>
            balance := balance (account_of v (treasury_account H)) + cut \<rparr>)
          (bt_insert who ((account_of v who)\<lparr> balance := balance (account_of v who) + (pay + share) \<rparr>)
            (bt_insert (reward_pool_account H) (pool\<lparr> balance := balance pool - pay \<rparr>) [])))"
  by (auto simp: apply_block_reward_def Let_def)

lemma apply_block_reward_supply:
  assumes "separated H" and "user_account H who" and "finite (dom (v_account v))"
    and "apply_block_reward H v who fees reward pb tb = Ok u"
  shows "native_supply (apply_accounts v u) =
         native_supply v + fees * pb div 10000 + fees * tb div 10000"
proof -
  let ?p = "reward_pool_account H" and ?t = "treasury_account H"
  let ?pay = "min reward (balance (account_of v ?p))"
  have "native_supply (apply_accounts v u) + balance (account_of v ?p) + balance (account_of v who)
      + balance (account_of v ?t) =
      native_supply v + (balance (account_of v ?p) - ?pay)
      + (balance (account_of v who) + (?pay + fees * pb div 10000))
      + (balance (account_of v ?t) + fees * tb div 10000)"
    using assms(4) native_three [OF assms(3), of ?p who ?t] assms(1,2)
    unfolding apply_block_reward_Ok_iff Let_def by simp
  moreover have "?pay \<le> balance (account_of v ?p)" by simp
  ultimately show ?thesis by linarith
qed

lemma apply_block_reward_inv:
  assumes "separated H" and "user_account H who" and "stake_inv H v"
    and "apply_block_reward H v who fees reward pb tb = Ok u"
  shows "stake_inv H (apply_accounts v u)"
  using assms by (intro stake_inv_accounts) (simp_all add: apply_block_reward_Ok_iff Let_def)

section \<open>Release of matured unbonding\<close>

text \<open>The abstract effect of releasing one allocation, on the whole view.\<close>

definition release :: "hasher \<Rightarrow> stake_allocation \<Rightarrow> view \<Rightarrow> view" where
  "release H a v =
    (let m = sa_master a; w = sa_validator a; s = stake_subaccount H w; x = unbonding_amount a in
     staked v
       (bt_insert s ((account_of v s)\<lparr> balance := balance (account_of v s) - x \<rparr>)
         (bt_insert m ((account_of v m)\<lparr> balance := balance (account_of v m) + x \<rparr>) []),
        if active_amount a = 0
        then \<lparr> allocations = bt_insert (m, w) None [], validator_index = bt_insert w [] [] \<rparr>
        else \<lparr> allocations = bt_insert (m, w) (Some (a\<lparr> unbonding := None \<rparr>)) [], validator_index = [] \<rparr>))"

lemma release_inv:
  assumes sep: "separated H" and inv: "stake_inv H v"
    and row: "v_stake v (sa_master a, sa_validator a) = Some a"
  shows "stake_inv H (release H a v)" and "native_supply (release H a v) = native_supply v"
    and "unbonding_amount a \<le> balance (account_of v (stake_subaccount H (sa_validator a)))"
    and "sa_master a \<noteq> stake_subaccount H w"
proof -
  let ?m = "sa_master a" and ?w = "sa_validator a"
  let ?r = "if active_amount a = 0 then None else Some (a\<lparr> unbonding := None \<rparr>)"
  have fin: "finite (dom (v_account v))" by (rule stake_inv_finite [OF inv])
  have ok: "row_ok H v ?m ?w a" by (rule stake_inv_row [OF inv row])
  then show bk: "unbonding_amount a \<le> balance (account_of v (stake_subaccount H ?w))"
    by (simp add: row_ok_def locked_def)
  have user: "user_account H ?m" using ok by (simp add: row_ok_def)
  then show "sa_master a \<noteq> stake_subaccount H w" by simp
  show "native_supply (release H a v) = native_supply v"
    unfolding release_def staked_def Let_def using user bk by (simp add: native_conserve fin)
  show "stake_inv H (release H a v)"
  proof (rule stake_inv_update [OF inv, where m = ?m and w = ?w and r = ?r])
    show "v_stake (release H a v) = (v_stake v)((?m, ?w) := ?r)"
      by (simp add: release_def staked_def Let_def)
    show "\<And>m' b. v_stake v (m', ?w) = Some b \<Longrightarrow> m' = ?m"
      by (rule stake_inv_single [OF inv row])
  qed (use fin sep user ok in
      \<open>auto simp: release_def staked_def Let_def row_ok_def locked_def unbonding_amount_def\<close>)
qed

lemma release_other_rows:
  "(m, w) \<noteq> (sa_master a, sa_validator a) \<Longrightarrow> v_stake (release H a v) (m, w) = v_stake v (m, w)"
  by (auto simp: release_def staked_def Let_def)

lemma through_account_of: "through ov v = account_of (staked v (ov, su))"
  by (auto simp: through_def staked_def fun_eq_iff)

lemma release_loop_step:
  fixes ov :: account_updates and su :: stake_updates and v :: view
  defines "x \<equiv> staked v (ov, su)"
  assumes "unbonding a = Some u" and ne: "sa_master a \<noteq> stake_subaccount H (sa_validator a)"
    and "balance (account_of x (sa_master a)) + unb_amount u \<le> u128_max"
    and "unb_amount u \<le> balance (account_of x (stake_subaccount H (sa_validator a)))"
  obtains ov' su' where "release_loop H v (a # due) ov su = release_loop H v due ov' su'"
    and "staked v (ov', su') = release H a x"
proof -
  let ?m = "sa_master a" and ?w = "sa_validator a" and ?s = "stake_subaccount H (sa_validator a)"
  let ?ov1 = "bt_insert ?m ((account_of x ?m)\<lparr> balance := balance (account_of x ?m) + unb_amount u \<rparr>) ov"
  let ?ov = "bt_insert ?s ((account_of x ?s)\<lparr> balance := balance (account_of x ?s) - unb_amount u \<rparr>) ?ov1"
  let ?su = "if active_amount a = 0 then
      su\<lparr> allocations := bt_insert (?m, ?w) None (allocations su),
          validator_index := bt_insert ?w [] (validator_index su) \<rparr>
    else su\<lparr> allocations := bt_insert (?m, ?w) (Some (a\<lparr> unbonding := None \<rparr>)) (allocations su) \<rparr>"
  have t1: "through ov v ?m = account_of x ?m" by (simp add: x_def through_account_of [of ov v su])
  have t2: "through ?ov1 v ?s = account_of x ?s"
    using ne by (simp add: x_def through_def staked_def)
  have "release_loop H v (a # due) ov su = release_loop H v due ?ov ?su"
    using assms(2,4,5) t1 t2
    by (simp add: Let_def expect_def checked_add_def sub_or_panic_def checked_sub_def)
  moreover have "staked v (?ov, ?su) = release H a x"
    using assms(2) unfolding release_def Let_def x_def
    by (simp add: staked_def apply_accounts_def apply_stakes_def unbonding_amount_def)
  ultimately show ?thesis by (rule that)
qed

lemma release_loop_correct:
  assumes sep: "separated H"
  shows "stake_inv H (staked v (ov, su)) \<Longrightarrow> native_supply (staked v (ov, su)) \<le> u128_max \<Longrightarrow>
    (\<forall>a\<in>set due. v_stake (staked v (ov, su)) (sa_master a, sa_validator a) = Some a \<and> unbonding a \<noteq> None) \<Longrightarrow>
    distinct (map sa_validator due) \<Longrightarrow>
    \<exists>r. release_loop H v due ov su = Ok r \<and> staked v r = fold (release H) due (staked v (ov, su)) \<and>
        stake_inv H (staked v r) \<and> native_supply (staked v r) = native_supply (staked v (ov, su))"
proof (induction due arbitrary: ov su)
  case (Cons a due)
  let ?x = "staked v (ov, su)" and ?s = "stake_subaccount H (sa_validator a)"
  obtain u where u: "unbonding a = Some u" using Cons.prems(3) by auto
  have row: "v_stake ?x (sa_master a, sa_validator a) = Some a" using Cons.prems(3) by simp
  note rel = release_inv [OF sep Cons.prems(1) row]
  have x: "unbonding_amount a = unb_amount u" by (simp add: unbonding_amount_def u)
  have "balance (account_of ?x (sa_master a)) + balance (account_of ?x ?s) \<le> u128_max"
    using two_accounts_le_supply [OF stake_inv_finite [OF Cons.prems(1)] rel(4)] Cons.prems(2)
    by (rule order_trans)
  then obtain ov' su' where st: "release_loop H v (a # due) ov su = release_loop H v due ov' su'"
      "staked v (ov', su') = release H a ?x"
    using release_loop_step [OF u rel(4), of v ov su due] rel(3) x by auto
  have "\<forall>b\<in>set due. sa_validator b \<noteq> sa_validator a" using Cons.prems(4) by (simp, metis imageI)
  then have "\<forall>b\<in>set due. v_stake (release H a ?x) (sa_master b, sa_validator b) = Some b \<and> unbonding b \<noteq> None"
    using Cons.prems(3) by (simp add: release_other_rows)
  then show ?case
    using Cons.IH [of ov' su'] Cons.prems rel(1,2) unfolding st by simp
qed simp

section \<open>The unbonding index\<close>

definition due_list :: "view \<Rightarrow> nat \<Rightarrow> (address \<times> address) list" where
  "due_list v h = unwrap_or [] (v_unbonding_due v h)"

definition matured :: "view \<Rightarrow> nat \<Rightarrow> stake_allocation list" where
  "matured v h = due_allocations v h (due_list v h)"

text \<open>Every unbonding batch is listed, once, at the height it unlocks.\<close>

definition index_inv :: "view \<Rightarrow> bool" where
  "index_inv v \<longleftrightarrow>
     (\<forall>h. distinct (due_list v h)) \<and>
     (\<forall>m w a u. v_stake v (m, w) = Some a \<and> unbonding a = Some u \<longrightarrow>
        (m, w) \<in> set (due_list v (unlock_at_height u)))"

definition resolved :: "view \<Rightarrow> account_updates \<times> stake_updates \<times> governance_updates \<Rightarrow> view" where
  "resolved v r = apply_governance (staked v (fst r, fst (snd r))) (snd (snd r))"

lemma due_allocations_set:
  "a \<in> set (due_allocations v h ps) \<longleftrightarrow>
   (\<exists>p\<in>set ps. v_stake v p = Some a \<and> (\<exists>u. unbonding a = Some u \<and> unlock_at_height u = h))"
  by (induction ps)
     (auto simp: due_allocations_def List.map_filter_simps split: option.splits if_splits)

lemma due_allocations_Cons:
  "due_allocations v h (p # ps) =
   (case v_stake v p of
      Some a \<Rightarrow> (case unbonding a of
                   Some u \<Rightarrow> if unlock_at_height u = h then [a] else []
                 | None \<Rightarrow> [])
    | None \<Rightarrow> []) @ due_allocations v h ps"
  by (auto simp: due_allocations_def List.map_filter_simps split: option.splits)

lemma due_allocations_distinct:
  assumes "stake_inv H v"
  shows "distinct ps \<Longrightarrow> distinct (map sa_validator (due_allocations v h ps))"
proof (induction ps)
  case (Cons p ps)
  obtain m w where p: "p = (m, w)" by (cases p)
  have new: "sa_validator b \<noteq> w" if row: "v_stake v (m, w) = Some a" and mem: "b \<in> set (due_allocations v h ps)" for a b
  proof
    assume w: "sa_validator b = w"
    obtain m' w' where q: "(m', w') \<in> set ps" "v_stake v (m', w') = Some b"
      using mem by (auto simp: due_allocations_set)
    then have "w' = w" using stake_inv_row [OF assms] w by (fastforce simp: row_ok_def)
    moreover from this have "m' = m" using stake_inv_single [OF assms row] q by simp
    ultimately show False using q(1) Cons.prems p by simp
  qed
  have "sa_validator a = w" if "v_stake v (m, w) = Some a" for a
    using stake_inv_row [OF assms that] by (simp add: row_ok_def)
  with Cons new show ?case
    by (auto simp: p due_allocations_Cons split: option.splits)
qed (simp add: due_allocations_def List.map_filter_simps)

lemma fold_release_other:
  "\<forall>a\<in>set due. k \<noteq> (sa_master a, sa_validator a) \<Longrightarrow>
   v_stake (fold (release H) due v) k = v_stake v k"
  by (induction due arbitrary: v) (auto simp: release_other_rows split_paired_all, metis release_other_rows surj_pair)

lemma fold_release_row:
  "distinct (map sa_validator due) \<Longrightarrow> a \<in> set due \<Longrightarrow>
   v_stake (fold (release H) due v) (sa_master a, sa_validator a) =
     (if active_amount a = 0 then None else Some (a\<lparr> unbonding := None \<rparr>))"
proof (induction due arbitrary: v)
  case (Cons b due)
  show ?case
  proof (cases "a \<in> set due")
    case False
    with Cons.prems have "a = b" by simp
    with Cons.prems have "\<forall>c\<in>set due. sa_validator a \<noteq> sa_validator c" by (simp, metis imageI)
    with \<open>a = b\<close> show ?thesis
      by (simp add: fold_release_other) (simp add: release_def staked_def Let_def)
  qed (use Cons in simp)
qed simp

lemma fold_release_index [simp]: "v_unbonding_due (fold (release H) due v) = v_unbonding_due v"
  by (induction due arbitrary: v) (simp_all add: release_def staked_def Let_def)

lemma fold_release_user:
  "user_account H b \<Longrightarrow>
   balance (account_of (fold (release H) due v) b) =
   balance (account_of v b) + (\<Sum>a\<leftarrow>due. if sa_master a = b then unbonding_amount a else 0)"
  by (induction due arbitrary: v) (auto simp: release_def staked_def Let_def)

lemma resolve_due_unbonding_correct:
  assumes sep: "separated H" and inv: "stake_inv H v" and idx: "index_inv v"
    and sup: "native_supply v \<le> u128_max"
  shows "\<exists>r. resolve_due_unbonding H v h = Ok r \<and>
     resolved v r = (fold (release H) (matured v h) v)\<lparr> v_unbonding_due := (v_unbonding_due v)(h := None) \<rparr> \<and>
     stake_inv H (fold (release H) (matured v h) v) \<and>
     native_supply (fold (release H) (matured v h) v) = native_supply v"
proof (cases "v_unbonding_due v h")
  case None
  then have "matured v h = []" by (simp add: matured_def due_list_def due_allocations_def List.map_filter_simps)
  moreover have "v\<lparr> v_unbonding_due := (v_unbonding_due v)(h := None) \<rparr> = v"
    using None by (cases v) (simp add: fun_upd_idem)
  ultimately show ?thesis
    using None inv by (simp add: resolve_due_unbonding_def resolved_def)
next
  case (Some ps)
  have due: "matured v h = due_allocations v h ps" by (simp add: matured_def due_list_def Some)
  have "distinct ps" using idx Some unfolding index_inv_def due_list_def by (metis unwrap_or.simps(2))
  then have d: "distinct (map sa_validator (matured v h))"
    unfolding due by (rule due_allocations_distinct [OF inv])
  have "v_stake v (sa_master a, sa_validator a) = Some a \<and> unbonding a \<noteq> None" if "a \<in> set (matured v h)" for a
    using that stake_inv_row [OF inv] by (fastforce simp: due due_allocations_set row_ok_def)
  then obtain r where "release_loop H v (matured v h) [] no_stakes = Ok r"
      "staked v r = fold (release H) (matured v h) v"
      "stake_inv H (staked v r)" "native_supply (staked v r) = native_supply v"
    using release_loop_correct [OF sep, of v "[]" no_stakes "matured v h"] inv sup d by auto
  then show ?thesis
    using Some by (cases r) (simp add: resolve_due_unbonding_def resolved_def due [symmetric])
qed

lemma index_inv_release:
  fixes h :: nat
  assumes inv: "stake_inv H v" and idx: "index_inv v"
  defines "v' \<equiv> (fold (release H) (matured v h) v)\<lparr> v_unbonding_due := (v_unbonding_due v)(h := None) \<rparr>"
  shows "v_stake v' (m, w) = Some a \<Longrightarrow> unbonding a = Some u \<Longrightarrow>
         v_stake v (m, w) = Some a \<and> unlock_at_height u \<noteq> h"
    and "index_inv v'"
proof -
  have d: "distinct (map sa_validator (matured v h))"
    unfolding matured_def using idx by (intro due_allocations_distinct [OF inv]) (simp add: index_inv_def)
  have key: "v_stake v (m, w) = Some a \<and> unlock_at_height u \<noteq> h"
    if row: "v_stake v' (m, w) = Some a" and u: "unbonding a = Some u" for m w a u
  proof -
    have notin: "\<forall>b\<in>set (matured v h). (m, w) \<noteq> (sa_master b, sa_validator b)"
      using row u fold_release_row [OF d, of _ H v] by (fastforce simp: v'_def split: if_splits)
    then have old: "v_stake v (m, w) = Some a" using row by (simp add: v'_def fold_release_other)
    have "unlock_at_height u \<noteq> h"
    proof
      assume h: "unlock_at_height u = h"
      then have "a \<in> set (matured v h)"
        using old u idx unfolding matured_def due_allocations_set index_inv_def by blast
      with notin stake_inv_row [OF inv old] show False by (auto simp: row_ok_def)
    qed
    with old show ?thesis by simp
  qed
  then show "v_stake v' (m, w) = Some a \<Longrightarrow> unbonding a = Some u \<Longrightarrow>
      v_stake v (m, w) = Some a \<and> unlock_at_height u \<noteq> h" by blast
  have "due_list v' h' = (if h' = h then [] else due_list v h')" for h'
    by (simp add: due_list_def v'_def)
  then show "index_inv v'"
    using idx key unfolding index_inv_def by (auto, blast)
qed

section \<open>Properties\<close>

text \<open>A concrete collision-free hash for the witnesses, and a chain with one staked validator.\<close>

definition sample_hasher :: hasher where
  "sample_hasher s = Address (''sys:'' @ s)"

definition sample_alice :: address where "sample_alice = Address ''alice''"

definition sample_allocation :: stake_allocation where
  "sample_allocation =
    \<lparr> sa_master = sample_alice, sa_validator = sample_alice, active_amount = 60,
      unbonding = Some \<lparr> unb_amount = 40, unlock_at_height = 9 \<rparr>, sa_created_at = 1, updated_at = 2 \<rparr>"

definition sample_view :: view where
  "sample_view = empty_view\<lparr>
     v_account := [sample_alice \<mapsto> default_account\<lparr> balance := 500 \<rparr>,
                   stake_subaccount sample_hasher sample_alice \<mapsto> default_account\<lparr> balance := 100 \<rparr>,
                   reward_pool_account sample_hasher \<mapsto> default_account\<lparr> balance := 7 \<rparr>],
     v_stake := [(sample_alice, sample_alice) \<mapsto> sample_allocation],
     v_stake_by_validator := [sample_alice \<mapsto> [sample_alice]],
     v_unbonding_due := [9 \<mapsto> [(sample_alice, sample_alice)]] \<rparr>"

lemma sample_separated: "separated sample_hasher"
  by (rule separated_inj) (simp add: inj_def sample_hasher_def)

lemma sample_user: "user_account sample_hasher sample_alice"
  by (simp add: user_account_def sample_hasher_def sample_alice_def stake_subaccount_def
      reward_pool_account_def treasury_account_def)

lemma sample_accounts:
  "balance (account_of sample_view sample_alice) = 500"
  "nonce (account_of sample_view sample_alice) = 0"
  "balance (account_of sample_view (stake_subaccount sample_hasher sample_alice)) = 100"
  "balance (account_of sample_view (reward_pool_account sample_hasher)) = 7"
  using sample_separated sample_user
  by (simp_all add: account_of_def sample_view_def)

lemma sample_stake_inv: "stake_inv sample_hasher sample_view"
proof -
  have "row_ok sample_hasher sample_view sample_alice sample_alice sample_allocation"
    using sample_user sample_accounts(3)
    by (simp add: row_ok_def sample_allocation_def locked_def unbonding_amount_def sample_view_def)
  then show ?thesis
    by (auto simp: stake_inv_def sample_view_def split: if_splits)
qed

lemma sample_supply: "native_supply sample_view = 607"
proof -
  have "msum balance ([sample_alice \<mapsto> default_account\<lparr> balance := 500 \<rparr>,
                   stake_subaccount sample_hasher sample_alice \<mapsto> default_account\<lparr> balance := 100 \<rparr>,
                   reward_pool_account sample_hasher \<mapsto> default_account\<lparr> balance := 7 \<rparr>]) = 607"
    using sample_separated sample_user unfolding msum_def by simp
  then show ?thesis by (simp add: native_supply_def sample_view_def)
qed

lemma sample_index_inv: "index_inv sample_view"
  by (auto simp: index_inv_def due_list_def sample_view_def sample_allocation_def empty_view_def
      split: if_splits)

text \<open>
  An accepted \<open>apply_stake\<close> keeps the staking invariant, conserves the supply, moves exactly
  \<open>amount\<close> from the master to the validator's sub-account and adds it to the active stake, which
  stays within the delegation cap.
\<close>

theorem apply_stake_sound:
  assumes "separated H" and "user_account H master" and "stake_inv H v"
    and "apply_stake H v master n validator amount now = Ok r"
  shows "stake_inv H (staked v r) \<and> native_supply (staked v r) = native_supply v \<and>
    balance (account_of (staked v r) master) + amount = balance (account_of v master) \<and>
    balance (account_of (staked v r) (stake_subaccount H validator)) =
      balance (account_of v (stake_subaccount H validator)) + amount \<and>
    nonce (account_of (staked v r) master) = n + 1 \<and>
    (\<exists>a. v_stake (staked v r) (master, validator) = Some a \<and>
         active_amount a = amount + (case v_stake v (master, validator) of
                                       Some e \<Rightarrow> active_amount e | None \<Rightarrow> 0) \<and>
         active_amount a \<le> MAX_DELEGATION_PER_VALIDATOR)"
  using apply_stake_inv [OF assms] assms(4)
  by (elim apply_stake_OkE) (use assms(1,2) in \<open>auto simp: staked_def\<close>)

theorem apply_stake_sound_witness:
  "\<exists>r. apply_stake sample_hasher sample_view sample_alice 0 (Address ''bob'') 30 5 = Ok r \<and>
       native_supply (staked sample_view r) = native_supply sample_view \<and>
       balance (account_of (staked sample_view r) sample_alice) + 30 = balance (account_of sample_view sample_alice)"
proof -
  let ?s = "stake_subaccount sample_hasher (Address ''bob'')"
  have b: "balance (account_of sample_view ?s) = 0"
    by (simp add: account_of_def sample_view_def empty_view_def stake_subaccount_def sample_hasher_def
        sample_alice_def reward_pool_account_def)
  have "is_ok (apply_stake sample_hasher sample_view sample_alice 0 (Address ''bob'') 30 5)"
    using sample_accounts b
    by (simp add: apply_stake_def Let_def credit_def checked_add_def u128_max_def u64_max_def
        add_or_panic_def expect_def masters_of_def sample_view_def empty_view_def sample_alice_def
        MAX_DELEGATION_PER_VALIDATOR_def)
  then obtain r where r: "apply_stake sample_hasher sample_view sample_alice 0 (Address ''bob'') 30 5 = Ok r"
    by (auto simp: is_ok_iff)
  from apply_stake_sound [OF sample_separated sample_user sample_stake_inv r] r show ?thesis by auto
qed

text \<open>
  An accepted \<open>apply_unstake\<close> keeps the staking invariant and every balance: the coins stay in
  the sub-account, split between active stake and one unbonding batch that unlocks
  \<open>unbonding_blocks\<close> later, and what the allocation locks is unchanged.
\<close>

theorem apply_unstake_sound:
  assumes "stake_inv H v" and "apply_unstake v master n validator amount now blocks = Ok r"
  shows "stake_inv H (staked v r) \<and> native_supply (staked v r) = native_supply v \<and>
    (\<forall>a. balance (account_of (staked v r) a) = balance (account_of v a)) \<and>
    (\<exists>e e'. v_stake v (master, validator) = Some e \<and> v_stake (staked v r) (master, validator) = Some e' \<and>
       unbonding e' = Some \<lparr> unb_amount = amount, unlock_at_height = now + blocks \<rparr> \<and>
       active_amount e' + amount = active_amount e \<and> locked e' = locked e)"
  using apply_unstake_inv [OF assms] assms(2)
  by (elim apply_unstake_OkE) (auto simp: staked_def locked_def unbonding_amount_def)

theorem apply_unstake_sound_witness:
  "let v = sample_view\<lparr> v_stake := [(sample_alice, sample_alice) \<mapsto> sample_allocation\<lparr> unbonding := None \<rparr>] \<rparr>
   in \<exists>r. apply_unstake v sample_alice 0 sample_alice 25 10 100 = Ok r \<and>
        (\<exists>e'. v_stake (staked v r) (sample_alice, sample_alice) = Some e' \<and>
              unbonding e' = Some \<lparr> unb_amount = 25, unlock_at_height = 10 + 100 \<rparr>)"
proof -
  let ?v = "sample_view\<lparr> v_stake := [(sample_alice, sample_alice) \<mapsto> sample_allocation\<lparr> unbonding := None \<rparr>] \<rparr>"
  have acc: "account_of (sample_view\<lparr> v_stake := x \<rparr>) = account_of sample_view" for x
    by (simp add: account_of_def fun_eq_iff)
  have l: "locked (sample_allocation\<lparr> unbonding := None \<rparr>) = 60"
    "sa_master (sample_allocation\<lparr> unbonding := None \<rparr>) = sample_alice"
    "sa_validator (sample_allocation\<lparr> unbonding := None \<rparr>) = sample_alice"
    by (simp_all add: sample_allocation_def locked_def unbonding_amount_def)
  have st: "v_stake_by_validator ?v = [sample_alice \<mapsto> [sample_alice]]"
      "finite (dom (v_account ?v))"
    by (simp_all add: sample_view_def)
  have "row_ok sample_hasher ?v sample_alice sample_alice (sample_allocation\<lparr> unbonding := None \<rparr>)"
    using sample_user sample_accounts(3) by (simp add: row_ok_def l acc st)
  then have inv: "stake_inv sample_hasher ?v"
    using st by (auto simp: stake_inv_def split: if_splits)
  have "is_ok (apply_unstake ?v sample_alice 0 sample_alice 25 10 100)"
    using sample_accounts
    by (simp add: apply_unstake_def Let_def acc sample_allocation_def add_or_panic_def expect_def
        checked_add_def u64_max_def)
  then obtain r where r: "apply_unstake ?v sample_alice 0 sample_alice 25 10 100 = Ok r"
    by (auto simp: is_ok_iff)
  from apply_unstake_sound [OF inv r] r show ?thesis unfolding Let_def by blast
qed

text \<open>
  A slash takes \<open>min amount locked\<close> and no more, active stake before unbonding stake, and pays
  exactly that to the reward pool. The staking invariant and the supply are kept, and a row with
  nothing left is removed together with its index entry.
\<close>

theorem apply_slash_sound:
  assumes "separated H" and "stake_inv H v"
    and "v_stake v (m, validator) = Some e" and "apply_slash H v validator amount reason now = Ok r"
  shows "stake_inv H (staked v r) \<and> native_supply (staked v r) = native_supply v \<and>
    balance (account_of (staked v r) (reward_pool_account H)) =
      balance (account_of v (reward_pool_account H)) + min amount (locked e) \<and>
    balance (account_of (staked v r) (stake_subaccount H validator)) + min amount (locked e) =
      balance (account_of v (stake_subaccount H validator)) \<and>
    (case v_stake (staked v r) (m, validator) of
       None \<Rightarrow> locked e \<le> amount \<and> v_stake_by_validator (staked v r) validator = None
     | Some e' \<Rightarrow> locked e' = locked e - min amount (locked e) \<and>
         active_amount e' = active_amount e - min amount (active_amount e))"
  using assms(4)
proof (cases rule: apply_slash_OkE)
  case (1 m' ms e' s d)
  have row: "row_ok H v m validator e" by (rule stake_inv_row [OF assms(2,3)])
  have "m' = m" using stake_inv_single [OF assms(2,3)] 1(2) by blast
  then have e': "e' = e" using 1(2) assms(3) by simp
  have sl: "s \<le> locked e" using 1(3) e' by simp
  have d: "d = s" using 1(4) sl row by (simp add: row_ok_def)
  note hit = slash_allocation_locked [OF sl, of now]
  have bal: "balance (account_of (staked v r) (reward_pool_account H)) =
      balance (account_of v (reward_pool_account H)) + min amount (locked e)"
    "balance (account_of (staked v r) (stake_subaccount H validator)) + min amount (locked e) =
      balance (account_of v (stake_subaccount H validator))"
    using assms(1) 1(3) d row sl by (auto simp: staked_def 1(7) e' row_ok_def)
  moreover have "case v_stake (staked v r) (m, validator) of
       None \<Rightarrow> locked e \<le> amount \<and> v_stake_by_validator (staked v r) validator = None
     | Some e' \<Rightarrow> locked e' = locked e - min amount (locked e) \<and>
         active_amount e' = active_amount e - min amount (active_amount e)"
  proof (cases "active_amount (slash_allocation s now e) = 0 \<and> unbonding (slash_allocation s now e) = None")
    case True
    then have "locked e - s = 0" using hit(1) by (simp add: locked_def unbonding_amount_def)
    with True 1(3) show ?thesis by (simp add: staked_def 1(8) e' \<open>m' = m\<close> Let_def)
  next
    case False
    have "min s (active_amount e) = min amount (active_amount e)" using 1(3) by (simp add: e' locked_def)
    with False hit 1(3) show ?thesis by (auto simp: staked_def 1(8) e' \<open>m' = m\<close> Let_def)
  qed
  ultimately show ?thesis using apply_slash_inv [OF assms(1,2,4)] by blast
qed

theorem apply_slash_sound_witness:
  "\<exists>r. apply_slash sample_hasher sample_view sample_alice 75 DoubleSign 5 = Ok r \<and>
     balance (account_of (staked sample_view r) (reward_pool_account sample_hasher)) = 7 + min 75 100"
proof -
  have row: "v_stake sample_view (sample_alice, sample_alice) = Some sample_allocation"
    and first: "masters_of sample_view sample_alice = [sample_alice]"
    by (simp_all add: sample_view_def masters_of_def)
  have l: "locked sample_allocation = 100"
    by (simp add: locked_def unbonding_amount_def sample_allocation_def)
  have "is_ok (apply_slash sample_hasher sample_view sample_alice 75 DoubleSign 5)"
    using row first sample_accounts
    by (simp add: apply_slash_def Let_def credit_def checked_add_def u128_max_def add_or_panic_def
        expect_def sample_allocation_def unbonding_amount_def)
  then obtain r where r: "apply_slash sample_hasher sample_view sample_alice 75 DoubleSign 5 = Ok r"
    by (auto simp: is_ok_iff)
  with apply_slash_sound [OF sample_separated sample_stake_inv row r] l sample_accounts(4)
  show ?thesis by auto
qed

text \<open>
  Block rewards never mint. When the seal's reward returns, the supply has grown by exactly
  the two fee shares (coins the senders were already debited), the pool has paid at most
  \<open>reward_per_block\<close> and never more than it held, and with shares of at most 10,000 basis points
  together the growth is at most the fees collected. The staking invariant is kept.
\<close>

theorem apply_block_reward_never_mints:
  assumes "separated H" and "user_account H who" and "stake_inv H v" and "pb + tb \<le> 10000"
    and "apply_block_reward H v who fees reward pb tb = Ok u"
  shows "native_supply (apply_accounts v u) =
           native_supply v + fees * pb div 10000 + fees * tb div 10000 \<and>
    native_supply (apply_accounts v u) \<le> native_supply v + fees \<and>
    (let paid = balance (account_of v (reward_pool_account H))
                - balance (account_of (apply_accounts v u) (reward_pool_account H)) in
     paid = min reward (balance (account_of v (reward_pool_account H))) \<and>
     balance (account_of (apply_accounts v u) who) =
       balance (account_of v who) + paid + fees * pb div 10000) \<and>
    stake_inv H (apply_accounts v u)"
proof -
  have "(fees * pb div 10000 + fees * tb div 10000) * 10000 \<le> fees * pb + fees * tb"
    using div_times_less_eq_dividend [of "fees * pb" 10000] div_times_less_eq_dividend [of "fees * tb" 10000]
    by (simp only: add_mult_distrib)
  also have "\<dots> = fees * (pb + tb)" by (simp add: distrib_left)
  also have "\<dots> \<le> fees * 10000" using assms(4) by (rule mult_le_mono2)
  finally have "fees * pb div 10000 + fees * tb div 10000 \<le> fees" by simp
  moreover have "native_supply (apply_accounts v u) =
      native_supply v + fees * pb div 10000 + fees * tb div 10000"
    using assms(1,2,5) stake_inv_finite [OF assms(3)] by (intro apply_block_reward_supply)
  moreover have "stake_inv H (apply_accounts v u)"
    using assms(1,2,3,5) by (rule apply_block_reward_inv)
  ultimately show ?thesis
    using assms(1,2,5) by (auto simp: apply_block_reward_Ok_iff Let_def)
qed

theorem apply_block_reward_never_mints_witness:
  "\<exists>u. apply_block_reward sample_hasher sample_view sample_alice 1000 4300000000 3000 2000 = Ok u \<and>
       native_supply (apply_accounts sample_view u) = native_supply sample_view + 300 + 200"
proof -
  have t: "balance (account_of sample_view (treasury_account sample_hasher)) = 0"
    using sample_separated sample_user by (simp add: account_of_def sample_view_def empty_view_def)
  have "\<exists>u. apply_block_reward sample_hasher sample_view sample_alice 1000 4300000000 3000 2000 = Ok u"
    using sample_accounts t by (simp add: apply_block_reward_Ok_iff Let_def u128_max_def)
  then obtain u where u: "apply_block_reward sample_hasher sample_view sample_alice 1000 4300000000 3000 2000 = Ok u" ..
  from apply_block_reward_never_mints [OF sample_separated sample_user sample_stake_inv _ u] u
  show ?thesis by auto
qed

text \<open>
  C19: matured unbonding is always paid out. On a chain that keeps the staking and index
  invariants and whose supply fits a \<open>u128\<close>, \<open>resolve_due_unbonding\<close> returns (neither its checked
  addition nor its plain subtraction panics), conserves the supply, keeps both invariants, credits
  each master exactly the batches that matured at this height, and leaves no allocation that still
  unlocks here.
\<close>

theorem resolve_due_unbonding_pays_out:
  assumes "separated H" and "stake_inv H v" and "index_inv v" and "native_supply v \<le> u128_max"
  shows "\<exists>r. resolve_due_unbonding H v h = Ok r \<and>
    native_supply (resolved v r) = native_supply v \<and>
    stake_inv H (resolved v r) \<and> index_inv (resolved v r) \<and>
    (\<forall>b. user_account H b \<longrightarrow> balance (account_of (resolved v r) b) =
       balance (account_of v b) + (\<Sum>a\<leftarrow>matured v h. if sa_master a = b then unbonding_amount a else 0)) \<and>
    (\<forall>m w a u. v_stake (resolved v r) (m, w) = Some a \<and> unbonding a = Some u \<longrightarrow>
       unlock_at_height u \<noteq> h)"
proof -
  let ?x = "fold (release H) (matured v h) v"
  obtain r where r: "resolve_due_unbonding H v h = Ok r"
      "resolved v r = ?x\<lparr> v_unbonding_due := (v_unbonding_due v)(h := None) \<rparr>"
      "stake_inv H ?x" "native_supply ?x = native_supply v"
    using resolve_due_unbonding_correct [OF assms] by blast
  have acc: "account_of (resolved v r) b = account_of ?x b" for b by (simp add: r(2) account_of_def)
  have "native_supply (resolved v r) = native_supply v" using r(4) by (simp add: r(2) native_supply_def)
  moreover have "stake_inv H (resolved v r)"
    using r(3) unfolding stake_inv_def row_ok_def acc by (simp add: r(2))
  moreover have "index_inv (resolved v r)" unfolding r(2) by (rule index_inv_release(2) [OF assms(2,3)])
  moreover have "\<forall>m w a u. v_stake (resolved v r) (m, w) = Some a \<and> unbonding a = Some u \<longrightarrow>
      unlock_at_height u \<noteq> h"
    unfolding r(2) using index_inv_release(1) [OF assms(2,3)] by blast
  ultimately show ?thesis using r(1) fold_release_user by (intro exI [of _ r]) (simp add: acc)
qed

theorem resolve_due_unbonding_pays_out_witness:
  "\<exists>r. resolve_due_unbonding sample_hasher sample_view 9 = Ok r \<and>
       native_supply (resolved sample_view r) = native_supply sample_view \<and>
       balance (account_of (resolved sample_view r) sample_alice) = 540"
proof -
  have m: "matured sample_view 9 = [sample_allocation]"
    by (simp add: matured_def due_list_def due_allocations_def sample_view_def List.map_filter_simps
        sample_allocation_def)
  have a: "sa_master sample_allocation = sample_alice" "unbonding_amount sample_allocation = 40"
    by (simp_all add: sample_allocation_def unbonding_amount_def)
  have "native_supply sample_view \<le> u128_max" by (simp add: sample_supply u128_max_def)
  from resolve_due_unbonding_pays_out [OF sample_separated sample_stake_inv sample_index_inv this, of 9]
  show ?thesis using sample_user sample_accounts(1) m a by auto
qed

end
