(* ===== verification/Identity_Circuit.thy ===== *)
theory Identity_Circuit
  imports Ledger_View
begin

text \<open>
  The identity circuit (\<^verbatim>\<open>src/circuits/identity/src/lib.rs\<close>): the attestor registry, attestations on
  accounts and the zero-knowledge upgrades. Bech32 decoding, the multisig address hash, field and
  proof decoding and the Groth16 verifiers are parameters.

  Every write of the registry is a step of \<open>registry_step\<close>; \<open>registry_inv\<close> says that the name
  rows and the attestor records describe the same assignment, which makes the look-alike check an
  honest uniqueness guarantee in every reachable state.
\<close>

section \<open>Operations\<close>

datatype identity_error =
    NotAttestor address
  | AlreadyAttestor address
  | AttestorBlocked address
  | InvalidName name_error
  | NameTaken string
  | InvalidMultisig multisig_rule_error
  | RemovalPending address
  | RemovalCooldown address nat
  | InvalidJurisdiction string
  | AccountNotFound address
  | NoIdentityHash
  | MalformedIdentityHash
  | MalformedProof
  | MalformedSender
  | ProofRejected
  | NotAttested address
  | NothingToProve
  | UnprovableJurisdictions
  | MalformedSub
  | WrongDate nat nat

definition validate_jurisdiction_code :: "string \<Rightarrow> (identity_error, unit) result" where
  "validate_jurisdiction_code code =
    (if length code \<noteq> 2 \<or> \<not> list_all ascii_upper code then Err (InvalidJurisdiction code) else Ok ())"

definition require_attestor :: "view \<Rightarrow> address \<Rightarrow> (identity_error, attestor_record) result" where
  "require_attestor v who = ok_or (NotAttestor who) (v_attestor_record v who)"

definition is_attested :: "view \<Rightarrow> address \<Rightarrow> bool" where
  "is_attested v a =
    (case v_account v a of
       None \<Rightarrow> False
     | Some entry \<Rightarrow>
       if identity_hash entry = None then False
       else (case attested_by entry of
               Some attestor \<Rightarrow> v_attestor_record v attestor \<noteq> None
             | None \<Rightarrow> True))"

definition apply_register_attestor ::
  "(address \<Rightarrow> pubkey option) \<Rightarrow> (nat \<Rightarrow> pubkey list \<Rightarrow> address option) \<Rightarrow>
   view \<Rightarrow> address \<Rightarrow> string \<Rightarrow> address list \<Rightarrow> nat \<Rightarrow> nat \<Rightarrow>
   (identity_error, attestor_registration \<times> governance_updates) result" where
  "apply_register_attestor single_key multisig v attestor name ownrs thr height =
    and_then (map_err InvalidName (validate_attestor_name name)) (\<lambda>_.
    and_then (map_err InvalidMultisig (validate_attestor_multisig single_key multisig attestor ownrs thr)) (\<lambda>_.
    if v_attestor_record v attestor \<noteq> None then Err (AlreadyAttestor attestor)
    else
     (let skeleton = attestor_name_skeleton name in
      if v_attestor_name v skeleton \<noteq> None then Err (NameTaken name)
      else Ok (\<lparr> ar_attestor = attestor,
                 ar_record = \<lparr> att_name = name, att_registered_at = height, att_owners = ownrs,
                               att_threshold = thr, self_blocked = False, removal_pending = False,
                               removal_cooldown_until = 0 \<rparr> \<rparr>,
               [PutAttestorName skeleton attestor]))))"

definition apply_deregister_attestor ::
  "view \<Rightarrow> address \<Rightarrow> (identity_error, address \<times> governance_updates) result" where
  "apply_deregister_attestor v attestor =
    and_then (require_attestor v attestor) (\<lambda>r.
    Ok (attestor, [DeleteAttestorName (attestor_name_skeleton (att_name r))]))"

definition apply_set_self_blocked ::
  "view \<Rightarrow> address \<Rightarrow> bool \<Rightarrow> (identity_error, governance_updates) result" where
  "apply_set_self_blocked v attestor b =
    and_then (require_attestor v attestor) (\<lambda>r.
    Ok [PutAttestorRecord attestor (r\<lparr> self_blocked := b \<rparr>)])"

definition apply_open_removal ::
  "view \<Rightarrow> address \<Rightarrow> nat \<Rightarrow> (identity_error, governance_updates) result" where
  "apply_open_removal v attestor height =
    and_then (require_attestor v attestor) (\<lambda>r.
    if removal_pending r then Err (RemovalPending attestor)
    else if height < removal_cooldown_until r
    then Err (RemovalCooldown attestor (removal_cooldown_until r))
    else Ok [PutAttestorRecord attestor (r\<lparr> removal_pending := True \<rparr>)])"

definition apply_close_failed_removal :: "view \<Rightarrow> address \<Rightarrow> nat \<Rightarrow> nat \<Rightarrow> governance_updates" where
  "apply_close_failed_removal v attestor height cooldown_blocks =
    (case v_attestor_record v attestor of
       Some r \<Rightarrow> [PutAttestorRecord attestor
                   (r\<lparr> removal_pending := False,
                       removal_cooldown_until := saturating_add u64_max height cooldown_blocks \<rparr>)]
     | None \<Rightarrow> [])"

text \<open>Topics with repeats dropped, in the order they first occur.\<close>

definition unique_topics :: "claim_topic list \<Rightarrow> claim_topic list" where
  "unique_topics topics =
    fold (\<lambda>topic unique. if topic \<in> set unique then unique else unique @ [topic]) topics []"

definition apply_grant_attestation ::
  "view \<Rightarrow> address \<Rightarrow> address \<Rightarrow> string \<Rightarrow> claim_topic list \<Rightarrow> string option \<Rightarrow> nat \<Rightarrow>
   (identity_error, account_updates) result" where
  "apply_grant_attestation v attestor subject hash topics juris height =
    and_then (require_attestor v attestor) (\<lambda>r.
    if blocked r then Err (AttestorBlocked attestor)
    else
     and_then (case juris of Some code \<Rightarrow> validate_jurisdiction_code code | None \<Rightarrow> Ok ()) (\<lambda>_.
     (let entry = account_of v subject;
          entry = (if identity_hash entry \<noteq> Some hash
                   then entry\<lparr> zk_identity_verified := False \<rparr> else entry)
      in Ok (bt_insert subject
               (entry\<lparr> identity_hash := Some hash, attested_by := Some attestor,
                       attested_at := Some height, claims := unique_topics topics,
                       jurisdiction := juris \<rparr>) []))))"

definition apply_revoke_attestation ::
  "view \<Rightarrow> address \<Rightarrow> address \<Rightarrow> (identity_error, account_updates) result" where
  "apply_revoke_attestation v attestor subject =
    and_then (require_attestor v attestor) (\<lambda>_.
    and_then (ok_or (AccountNotFound subject) (v_account v subject)) (\<lambda>entry.
    Ok (bt_insert subject
          (entry\<lparr> identity_hash := None, zk_identity_verified := False, attested_at := None,
                  claims := [], jurisdiction := None \<rparr>) [])))"

definition apply_verify_credential ::
  "(string \<Rightarrow> 'f option) \<Rightarrow> (string \<Rightarrow> 'p option) \<Rightarrow> (address \<Rightarrow> string option) \<Rightarrow>
   ('f \<Rightarrow> string \<Rightarrow> 'p \<Rightarrow> bool) \<Rightarrow> view \<Rightarrow> address \<Rightarrow> string \<Rightarrow>
   (identity_error, account_updates) result" where
  "apply_verify_credential field_of proof_of pubkey_bytes verify v sender proof =
    and_then (ok_or (AccountNotFound sender) (v_account v sender)) (\<lambda>entry.
    and_then (ok_or NoIdentityHash (identity_hash entry)) (\<lambda>hash_hex.
    and_then (ok_or MalformedIdentityHash (field_of hash_hex)) (\<lambda>credential_hash.
    and_then (ok_or MalformedProof (proof_of proof)) (\<lambda>parsed_proof.
    and_then (ok_or MalformedSender (pubkey_bytes sender)) (\<lambda>sender_pubkey.
    if \<not> verify credential_hash sender_pubkey parsed_proof then Err ProofRejected
    else Ok (bt_insert sender (entry\<lparr> zk_identity_verified := True \<rparr>) []))))))"

definition CREDENTIAL_EPOCH_OFFSET_DAYS :: nat where
  "CREDENTIAL_EPOCH_OFFSET_DAYS = 25567"

fun claim_bit :: "claim_topic \<Rightarrow> nat" where
  "claim_bit Kyc = 1"
| "claim_bit Aml = 2"
| "claim_bit Accredited = 4"
| "claim_bit Jurisdiction = 0"

definition RESIDENCY :: nat where "RESIDENCY = 16"

definition claims_mask :: "asset \<Rightarrow> nat" where
  "claims_mask a =
    (let mask = fold (\<lambda>topic mask. or mask (claim_bit topic)) (required_claims a) 0 in
     case allowed_jurisdictions a of Some allowed \<Rightarrow> or mask RESIDENCY | None \<Rightarrow> mask)"

definition verify_claim_proof ::
  "(string \<Rightarrow> 'f option) \<Rightarrow> (string \<Rightarrow> 'p option) \<Rightarrow> (address \<Rightarrow> string option) \<Rightarrow>
   (string list \<Rightarrow> nat list option) \<Rightarrow>
   ('f \<Rightarrow> string \<Rightarrow> string \<Rightarrow> nat \<Rightarrow> nat list \<Rightarrow> 'f \<Rightarrow> nat \<Rightarrow> 'p \<Rightarrow> bool) \<Rightarrow>
   view \<Rightarrow> address \<Rightarrow> asset \<Rightarrow> string \<Rightarrow> nat \<Rightarrow> nat \<Rightarrow> string \<Rightarrow> (identity_error, unit) result" where
  "verify_claim_proof field_of proof_of pubkey_bytes country_set verify_predicate
     v sender a sub today_days block_timestamp proof =
    (let block_day = block_timestamp div 86400 + CREDENTIAL_EPOCH_OFFSET_DAYS in
     if 1 < (max today_days block_day - min today_days block_day) then Err (WrongDate today_days block_day)
     else if \<not> is_attested v sender then Err (NotAttested sender)
     else
      and_then (ok_or (AccountNotFound sender) (v_account v sender)) (\<lambda>entry.
      and_then (ok_or NoIdentityHash (identity_hash entry)) (\<lambda>hash_hex.
      and_then (ok_or MalformedIdentityHash (field_of hash_hex)) (\<lambda>leaf.
      and_then (case allowed_jurisdictions a of
                  Some allowed \<Rightarrow> ok_or UnprovableJurisdictions (country_set allowed)
                | None \<Rightarrow> Ok []) (\<lambda>countries.
      if claims_mask a = 0 then Err NothingToProve
      else
       and_then (ok_or MalformedSender (pubkey_bytes sender)) (\<lambda>sender_pubkey.
       and_then (ok_or MalformedSub (field_of sub)) (\<lambda>sub_f.
       and_then (ok_or MalformedProof (proof_of proof)) (\<lambda>p.
       if \<not> verify_predicate leaf sender_pubkey (ref_str (asset_ref_of a)) (claims_mask a)
             countries sub_f today_days p
       then Err ProofRejected else Ok ()))))))))"

section \<open>The registry as a state machine\<close>

inductive registry_step ::
  "(address \<Rightarrow> pubkey option) \<Rightarrow> (nat \<Rightarrow> pubkey list \<Rightarrow> address option) \<Rightarrow> view \<Rightarrow> view \<Rightarrow> bool"
  for sk ms where
  register: "apply_register_attestor sk ms v a name ownrs thr h = Ok (reg, ws) \<Longrightarrow>
    registry_step sk ms v (apply_governance (apply_attestor_registration v reg) ws)"
| deregister: "apply_deregister_attestor v a = Ok (d, ws) \<Longrightarrow>
    registry_step sk ms v (apply_governance (apply_attestor_deregistration v d) ws)"
| self_block: "apply_set_self_blocked v a b = Ok ws \<Longrightarrow> registry_step sk ms v (apply_governance v ws)"
| open_removal: "apply_open_removal v a h = Ok ws \<Longrightarrow> registry_step sk ms v (apply_governance v ws)"
| close_removal: "registry_step sk ms v (apply_governance v (apply_close_failed_removal v a h c))"
| grant: "apply_grant_attestation v a subject hash topics juris h = Ok u \<Longrightarrow>
    registry_step sk ms v (apply_accounts v u)"
| revoke: "apply_revoke_attestation v a subject = Ok u \<Longrightarrow> registry_step sk ms v (apply_accounts v u)"

inductive registry_reachable ::
  "(address \<Rightarrow> pubkey option) \<Rightarrow> (nat \<Rightarrow> pubkey list \<Rightarrow> address option) \<Rightarrow> view \<Rightarrow> view \<Rightarrow> bool"
  for sk ms v0 where
  start: "registry_reachable sk ms v0 v0"
| step: "registry_reachable sk ms v0 v \<Longrightarrow> registry_step sk ms v v' \<Longrightarrow> registry_reachable sk ms v0 v'"

inductive_cases registry_stepE: "registry_step sk ms v v'"

definition registry_inv :: "view \<Rightarrow> bool" where
  "registry_inv v \<longleftrightarrow>
    (\<forall>a r. v_attestor_record v a = Some r \<longrightarrow> v_attestor_name v (attestor_name_skeleton (att_name r)) = Some a) \<and>
    (\<forall>s a. v_attestor_name v s = Some a \<longrightarrow>
       (\<exists>r. v_attestor_record v a = Some r \<and> attestor_name_skeleton (att_name r) = s))"

lemma apply_accounts_registry [simp]:
  "v_attestor_record (apply_accounts v u) = v_attestor_record v"
  "v_attestor_name (apply_accounts v u) = v_attestor_name v"
  by (simp_all add: apply_accounts_def)

lemma registry_inv_rewrite:
  assumes "registry_inv v" and "v_attestor_record v a = Some r" and "att_name r' = att_name r"
  shows "registry_inv (apply_governance v [PutAttestorRecord a r'])"
  using assms by (fastforce simp: registry_inv_def)

lemma registry_inv_step:
  assumes "registry_step sk ms v v'" and "registry_inv v"
  shows "registry_inv v'"
  using assms(1)
proof cases
  case (register a name ownrs thr h reg ws)
  then have "v_attestor_record v a = None" "v_attestor_name v (attestor_name_skeleton name) = None"
    "ar_attestor reg = a" "att_name (ar_record reg) = name" "ws = [PutAttestorName (attestor_name_skeleton name) a]"
    by (auto simp: apply_register_attestor_def Let_def split: if_splits)
  with assms(2) register(1) show ?thesis
    by (auto simp: registry_inv_def apply_attestor_registration_def) (metis option.distinct(1))+
next
  case (deregister a d ws)
  then obtain r where "v_attestor_record v a = Some r" "d = a"
    "ws = [DeleteAttestorName (attestor_name_skeleton (att_name r))]"
    by (auto simp: apply_deregister_attestor_def require_attestor_def)
  with assms(2) deregister(1) show ?thesis
    by (auto simp: registry_inv_def apply_attestor_deregistration_def) (metis option.inject)+
next
  case (self_block a b ws)
  then show ?thesis
    using registry_inv_rewrite [OF assms(2)]
    by (auto simp: apply_set_self_blocked_def require_attestor_def simp del: apply_governance_simps)
next
  case (open_removal a h ws)
  then show ?thesis
    using registry_inv_rewrite [OF assms(2)]
    by (auto simp: apply_open_removal_def require_attestor_def simp del: apply_governance_simps split: if_splits)
next
  case (close_removal a h c)
  then show ?thesis
    using registry_inv_rewrite [OF assms(2)] assms(2)
    by (auto simp: apply_close_failed_removal_def simp del: apply_governance_simps(2) split: option.splits)
qed (use assms(2) in \<open>auto simp: registry_inv_def\<close>)

lemma registry_inv_reachable:
  "registry_reachable sk ms v0 v \<Longrightarrow> registry_inv v0 \<Longrightarrow> registry_inv v"
  by (induction rule: registry_reachable.induct) (auto intro: registry_inv_step)

section \<open>Attestations\<close>

lemma unique_topics_loop:
  "distinct acc \<Longrightarrow>
   set (fold (\<lambda>t u. if t \<in> set u then u else u @ [t]) ts acc) = set acc \<union> set ts \<and>
   distinct (fold (\<lambda>t u. if t \<in> set u then u else u @ [t]) ts acc)"
  by (induction ts arbitrary: acc) auto

lemma unique_topics: "set (unique_topics ts) = set ts" "distinct (unique_topics ts)"
  using unique_topics_loop [of "[]" ts] by (simp_all add: unique_topics_def)

section \<open>Properties\<close>

text \<open>
  In every reachable state of the registry no two registered attestors carry names that read
  alike: distinct attestors have distinct name skeletons, however registrations, removals, blocks
  and grants were interleaved since a consistent genesis.
\<close>

theorem attestor_names_never_collide:
  assumes "registry_reachable sk ms v0 v" and "registry_inv v0"
    and "v_attestor_record v a = Some r" and "v_attestor_record v b = Some q" and "a \<noteq> b"
  shows "attestor_name_skeleton (att_name r) \<noteq> attestor_name_skeleton (att_name q)"
  using registry_inv_reachable [OF assms(1,2)] assms(3-5) unfolding registry_inv_def by (metis option.inject)

definition sample_single_key :: "address \<Rightarrow> pubkey option" where
  "sample_single_key a = Some (addr_str a)"

definition sample_multisig :: "nat \<Rightarrow> pubkey list \<Rightarrow> address option" where
  "sample_multisig thr ms = Some (Address (concat ms))"

lemmas sample_register_simps =
  apply_register_attestor_def validate_attestor_name_def validate_attestor_multisig_def
  ascii_alphanumeric_def ascii_digit_def ascii_upper_def ascii_lower_def sample_single_key_def
  sample_multisig_def attestor_name_skeleton_def skeleton_char_def to_ascii_lowercase_def Let_def

theorem attestor_names_never_collide_witness:
  "\<exists>v r q. registry_reachable sample_single_key sample_multisig empty_view v \<and>
     v_attestor_record v (Address ''xy'') = Some r \<and> v_attestor_record v (Address ''zw'') = Some q \<and>
     attestor_name_skeleton (att_name r) \<noteq> attestor_name_skeleton (att_name q)"
proof -
  let ?a = "Address ''xy''" and ?b = "Address ''zw''"
  let ?sk = sample_single_key and ?ms = sample_multisig
  let ?rec = "\<lambda>name ownrs. \<lparr> att_name = name, att_registered_at = 5, att_owners = ownrs,
     att_threshold = 2, self_blocked = False, removal_pending = False, removal_cooldown_until = 0 \<rparr>"
  let ?r1 = "\<lparr> ar_attestor = ?a, ar_record = ?rec ''arx bank'' [Address ''x'', Address ''y''] \<rparr>"
  let ?r2 = "\<lparr> ar_attestor = ?b, ar_record = ?rec ''umbrella'' [Address ''z'', Address ''w''] \<rparr>"
  let ?v1 = "apply_governance (apply_attestor_registration empty_view ?r1) [PutAttestorName ''arxbank'' ?a]"
  let ?v2 = "apply_governance (apply_attestor_registration ?v1 ?r2) [PutAttestorName ''umbrella'' ?b]"
  have 1: "apply_register_attestor ?sk ?ms empty_view ?a ''arx bank'' [Address ''x'', Address ''y''] 2 5
      = Ok (?r1, [PutAttestorName ''arxbank'' ?a])"
    by (simp add: sample_register_simps empty_view_def)
  have 2: "apply_register_attestor ?sk ?ms ?v1 ?b ''umbrella'' [Address ''z'', Address ''w''] 2 5
      = Ok (?r2, [PutAttestorName ''umbrella'' ?b])"
    by (simp add: sample_register_simps empty_view_def apply_attestor_registration_def)
  have reach: "registry_reachable ?sk ?ms empty_view ?v2"
    by (rule registry_reachable.step [OF registry_reachable.step [OF registry_reachable.start
          registry_step.register [OF 1]] registry_step.register [OF 2]])
  have inv: "registry_inv empty_view" by (simp add: registry_inv_def empty_view_def)
  have rows: "v_attestor_record ?v2 ?a = Some (ar_record ?r1)" "v_attestor_record ?v2 ?b = Some (ar_record ?r2)"
    by (simp_all add: apply_attestor_registration_def)
  from attestor_names_never_collide [OF reach inv rows] reach rows show ?thesis by blast
qed

text \<open>
  Removing an attestor revokes everything it granted and nothing else: after the
  deregistration no account attested by it counts as attested, and every other account's standing
  is what it was.
\<close>

theorem deregistration_revokes_grants:
  assumes "apply_deregister_attestor v attestor = Ok (d, ws)"
  defines "v' \<equiv> apply_governance (apply_attestor_deregistration v d) ws"
  shows "(\<forall>subject. attested_by (account_of v subject) = Some attestor \<longrightarrow> \<not> is_attested v' subject) \<and>
    (\<forall>subject. attested_by (account_of v subject) \<noteq> Some attestor \<longrightarrow>
       is_attested v' subject = is_attested v subject) \<and>
    v_attestor_record v' attestor = None"
proof -
  obtain s where ws: "ws = [DeleteAttestorName s]" "d = attestor"
    using assms(1) by (auto simp: apply_deregister_attestor_def)
  have acc: "v_account v' = v_account v" "v_attestor_record v' = (v_attestor_record v)(attestor := None)"
    by (simp_all add: v'_def ws apply_attestor_deregistration_def)
  then show ?thesis
    by (auto simp: is_attested_def account_of_def split: option.splits)
qed

theorem deregistration_revokes_grants_witness:
  "let r = \<lparr> att_name = ''arx'', att_registered_at = 1, att_owners = [], att_threshold = 2,
             self_blocked = False, removal_pending = False, removal_cooldown_until = 0 \<rparr>;
       v = empty_view\<lparr> v_account := [Address ''s'' \<mapsto> default_account\<lparr> identity_hash := Some ''h'',
                           attested_by := Some (Address ''a'') \<rparr>],
                        v_attestor_record := [Address ''a'' \<mapsto> r] \<rparr>
   in is_attested v (Address ''s'') \<and>
      (\<exists>d ws. apply_deregister_attestor v (Address ''a'') = Ok (d, ws) \<and>
         \<not> is_attested (apply_governance (apply_attestor_deregistration v d) ws) (Address ''s''))"
proof -
  let ?r = "\<lparr> att_name = ''arx'', att_registered_at = 1, att_owners = [], att_threshold = 2,
             self_blocked = False, removal_pending = False, removal_cooldown_until = 0 \<rparr>"
  let ?v = "empty_view\<lparr> v_account := [Address ''s'' \<mapsto> default_account\<lparr> identity_hash := Some ''h'',
                           attested_by := Some (Address ''a'') \<rparr>],
                        v_attestor_record := [Address ''a'' \<mapsto> ?r] \<rparr>"
  have ok: "apply_deregister_attestor ?v (Address ''a'') =
      Ok (Address ''a'', [DeleteAttestorName (attestor_name_skeleton (att_name ?r))])"
    by (simp add: apply_deregister_attestor_def require_attestor_def)
  have "is_attested ?v (Address ''s'')" "attested_by (account_of ?v (Address ''s'')) = Some (Address ''a'')"
    by (simp_all add: is_attested_def account_of_def)
  with deregistration_revokes_grants [OF ok] ok show ?thesis unfolding Let_def by blast
qed

text \<open>
  A grant needs a registered attestor that is not blocked; it attests the subject, records
  who vouched and when, replaces the claims by exactly the granted topics without repeats, drops a
  zero-knowledge verification made for another credential, and moves no coins.
\<close>

theorem grant_attestation_sound:
  assumes "finite (dom (v_account v))"
    and "apply_grant_attestation v attestor subject hash topics juris height = Ok u"
  shows "(\<exists>r. v_attestor_record v attestor = Some r \<and> \<not> blocked r) \<and>
    is_attested (apply_accounts v u) subject \<and>
    (let e = account_of (apply_accounts v u) subject in
     identity_hash e = Some hash \<and> attested_by e = Some attestor \<and> attested_at e = Some height \<and>
     set (claims e) = set topics \<and> distinct (claims e) \<and>
     (zk_identity_verified e \<longrightarrow> identity_hash (account_of v subject) = Some hash)) \<and>
    native_supply (apply_accounts v u) = native_supply v"
proof -
  let ?old = "account_of v subject"
  define e where "e = (if identity_hash ?old \<noteq> Some hash then ?old\<lparr> zk_identity_verified := False \<rparr> else ?old)"
  have e: "balance e = balance ?old" "zk_identity_verified e \<longrightarrow> identity_hash ?old = Some hash"
    by (auto simp: e_def)
  obtain r where r: "v_attestor_record v attestor = Some r" "\<not> blocked r"
    and u: "u = bt_insert subject (e\<lparr> identity_hash := Some hash, attested_by := Some attestor,
              attested_at := Some height, claims := unique_topics topics, jurisdiction := juris \<rparr>) []"
    using assms(2) unfolding apply_grant_attestation_def Let_def e_def [symmetric]
    by (auto simp: require_attestor_def)
  have "native_supply (apply_accounts v u) = native_supply v"
    unfolding u using assms(1) e(1) by (simp add: native_same)
  with r e(2) show ?thesis by (simp add: u is_attested_def unique_topics Let_def)
qed

theorem grant_attestation_sound_witness:
  "let r = \<lparr> att_name = ''arx'', att_registered_at = 1, att_owners = [], att_threshold = 2,
             self_blocked = False, removal_pending = False, removal_cooldown_until = 0 \<rparr>;
       v = empty_view\<lparr> v_attestor_record := [Address ''a'' \<mapsto> r] \<rparr>
   in \<exists>u. apply_grant_attestation v (Address ''a'') (Address ''s'') ''h'' [Kyc, Aml, Kyc] (Some ''CH'') 3 = Ok u \<and>
        is_attested (apply_accounts v u) (Address ''s'')"
proof -
  let ?r = "\<lparr> att_name = ''arx'', att_registered_at = 1, att_owners = [], att_threshold = 2,
             self_blocked = False, removal_pending = False, removal_cooldown_until = 0 \<rparr>"
  let ?v = "empty_view\<lparr> v_attestor_record := [Address ''a'' \<mapsto> ?r] \<rparr>"
  have "\<exists>u. apply_grant_attestation ?v (Address ''a'') (Address ''s'') ''h'' [Kyc, Aml, Kyc] (Some ''CH'') 3 = Ok u"
    by (simp add: apply_grant_attestation_def require_attestor_def blocked_def
        validate_jurisdiction_code_def ascii_upper_def Let_def)
  then obtain u where u: "apply_grant_attestation ?v (Address ''a'') (Address ''s'') ''h'' [Kyc, Aml, Kyc] (Some ''CH'') 3 = Ok u" ..
  have "finite (dom (v_account ?v))" by (simp add: empty_view_def)
  from grant_attestation_sound [OF this u] u show ?thesis unfolding Let_def by blast
qed

text \<open>
  A revocation by a registered attestor leaves the subject unattested, unverified and without
  claims, keeps the account's coins and nonce, and touches no other account.
\<close>

theorem revoke_attestation_sound:
  assumes "finite (dom (v_account v))" and "apply_revoke_attestation v attestor subject = Ok u"
  shows "v_attestor_record v attestor \<noteq> None \<and> \<not> is_attested (apply_accounts v u) subject \<and>
    (let e = account_of (apply_accounts v u) subject in
     \<not> zk_identity_verified e \<and> claims e = [] \<and> jurisdiction e = None \<and>
     nonce e = nonce (account_of v subject)) \<and>
    (\<forall>a. a \<noteq> subject \<longrightarrow> is_attested (apply_accounts v u) a = is_attested v a) \<and>
    native_supply (apply_accounts v u) = native_supply v"
proof -
  obtain r e where r: "v_attestor_record v attestor = Some r" and e: "v_account v subject = Some e"
    and u: "u = bt_insert subject (e\<lparr> identity_hash := None, zk_identity_verified := False,
              attested_at := None, claims := [], jurisdiction := None \<rparr>) []"
    using assms(2) by (auto simp: apply_revoke_attestation_def require_attestor_def)
  have "native_supply (apply_accounts v u) = native_supply v"
    unfolding u using assms(1) e by (simp add: native_same account_of_def)
  with r e show ?thesis by (auto simp: u is_attested_def Let_def account_of_def split: option.splits)
qed

theorem revoke_attestation_sound_witness:
  "let r = \<lparr> att_name = ''arx'', att_registered_at = 1, att_owners = [], att_threshold = 2,
             self_blocked = True, removal_pending = False, removal_cooldown_until = 0 \<rparr>;
       v = empty_view\<lparr> v_account := [Address ''s'' \<mapsto> default_account\<lparr> identity_hash := Some ''h'',
                           attested_by := Some (Address ''a'') \<rparr>],
                        v_attestor_record := [Address ''a'' \<mapsto> r] \<rparr>
   in is_attested v (Address ''s'') \<and>
      (\<exists>u. apply_revoke_attestation v (Address ''a'') (Address ''s'') = Ok u \<and>
           \<not> is_attested (apply_accounts v u) (Address ''s''))"
proof -
  let ?r = "\<lparr> att_name = ''arx'', att_registered_at = 1, att_owners = [], att_threshold = 2,
             self_blocked = True, removal_pending = False, removal_cooldown_until = 0 \<rparr>"
  let ?v = "empty_view\<lparr> v_account := [Address ''s'' \<mapsto> default_account\<lparr> identity_hash := Some ''h'',
                           attested_by := Some (Address ''a'') \<rparr>],
                        v_attestor_record := [Address ''a'' \<mapsto> ?r] \<rparr>"
  have "\<exists>u. apply_revoke_attestation ?v (Address ''a'') (Address ''s'') = Ok u"
    by (simp add: apply_revoke_attestation_def require_attestor_def)
  then obtain u where u: "apply_revoke_attestation ?v (Address ''a'') (Address ''s'') = Ok u" ..
  have "finite (dom (v_account ?v))" "is_attested ?v (Address ''s'')" by (simp_all add: is_attested_def)
  with revoke_attestation_sound [OF this(1) u] u show ?thesis unfolding Let_def by blast
qed

end
