(* ===== verification/Governance_Circuit.thy ===== *)
theory Governance_Circuit
  imports Identity_Circuit
begin

text \<open>
  The governance circuit (\<^verbatim>\<open>src/circuits/governance/src/lib.rs\<close>): submission, attestor applications,
  votes and execution. The life of a proposal is the relation \<open>gov_step\<close>; the lemmas show that
  ids are never reused, that a closed proposal is never touched again, that a vote is cast at most
  once and never withdrawn, that the epoch length never moves, and that nothing is executed
  without its quorum.

  \<open>pubkey_ok\<close> says whether \<open>Address::pubkey_bytes\<close> (bech32 decoding) succeeds.
\<close>

section \<open>Operations\<close>

datatype governance_error =
    NotValidator address
  | UnknownProposal nat
  | NotOpen nat
  | VotingClosed nat nat
  | VotingStillOpen nat nat
  | AlreadyVoted nat address
  | GovIdentity identity_error
  | InvalidEvidence
  | UnknownAttestor address
  | CannotPayBond nat nat
  | TreasuryInsufficient nat nat
  | ZeroSpend
  | InvalidAddress address
  | ForkedWithCorrections
  | AttackWithPayouts
  | InvalidParams string

record attestor_change =
  registration :: "attestor_registration option"
  deregistration :: "address option"

definition MAX_EVIDENCE_HASH_LEN :: nat where "MAX_EVIDENCE_HASH_LEN = 128"
definition MAX_EVIDENCE_URI_LEN :: nat where "MAX_EVIDENCE_URI_LEN = 512"
definition MAX_CANONICAL_BUILDS :: nat where "MAX_CANONICAL_BUILDS = 32"
definition MAX_BUILD_ID_LEN :: nat where "MAX_BUILD_ID_LEN = 64"

definition gov_voting_power :: "view \<Rightarrow> address \<Rightarrow> nat \<Rightarrow> (governance_error, nat) result" where
  "gov_voting_power v who height =
    and_then (unfailing (validator_set_effective_height height (epoch_length (chain_params_of v)))) (\<lambda>eff.
    ok_or (NotValidator who) (map_of (unwrap_or [] (v_validator_set v eff)) who))"

definition proposal_of :: "view \<Rightarrow> nat \<Rightarrow> (governance_error, proposal) result" where
  "proposal_of v n = ok_or (UnknownProposal n) (v_proposal v n)"

definition changes_epoch_length :: "view \<Rightarrow> chain_params \<Rightarrow> bool" where
  "changes_epoch_length v proposed \<longleftrightarrow> epoch_length proposed \<noteq> epoch_length (chain_params_of v)"

definition validate_params :: "chain_params \<Rightarrow> (governance_error, unit) result" where
  "validate_params p =
    (if block_interval_secs p = 0 then Err (InvalidParams ''block_interval_secs must be positive'')
     else if epoch_length p = 0 then Err (InvalidParams ''epoch_length must be positive'')
     else if min_validator_set p = 0 \<or> max_validator_set p < min_validator_set p
     then Err (InvalidParams ''need 0 < min_validator_set <= max_validator_set'')
     else if MAX_CANONICAL_BUILDS < length (canonical_builds p) \<or>
             list_ex (\<lambda>b. b = [] \<or> MAX_BUILD_ID_LEN < length b) (canonical_builds p)
     then Err (InvalidParams ''canonical_builds: at most 32 non-empty ids of at most 64 bytes'')
     else if max_block_weight p = 0 then Err (InvalidParams ''max_block_weight must be positive'')
     else if voting_period_blocks p = 0 then Err (InvalidParams ''voting_period_blocks must be positive'')
     else if TOTAL_VOTING_POWER < proposal_quorum_bps p
     then Err (InvalidParams ''proposal_quorum_bps is over 10_000'')
     else if action_fee p = 0 then Err (InvalidParams ''action_fee must be positive'')
     else if min_validator_stake p = 0 then Err (InvalidParams ''min_validator_stake must be positive'')
     else if 10000 < equivocation_slash_bps p \<or> 10000 < downtime_slash_bps p
     then Err (InvalidParams ''a slash rate is over 100%'')
     else if 10000 < saturating_add u32_max (fee_proposer_bps p) (fee_treasury_bps p)
     then Err (InvalidParams ''fee_proposer_bps + fee_treasury_bps is over 100%'')
     else if challenge_window_blocks p = 0 \<or> unbonding_blocks p \<le> challenge_window_blocks p
     then Err (InvalidParams ''challenge_window_blocks must be positive and below unbonding_blocks'')
     else if 1000 < challenger_reward_bps p
     then Err (InvalidParams ''challenger_reward_bps is over 10%'')
     else Ok ())"

fun validate_action ::
  "hasher \<Rightarrow> (address \<Rightarrow> bool) \<Rightarrow> (address \<Rightarrow> pubkey option) \<Rightarrow> (nat \<Rightarrow> pubkey list \<Rightarrow> address option) \<Rightarrow>
   governance_action \<Rightarrow> (governance_error, unit) result" where
  "validate_action H pubkey_ok sk ms (SetChainParams p) = validate_params p"
| "validate_action H pubkey_ok sk ms (AddAttestor attestor name ownrs thr evidence_hash evidence_uri) =
     and_then (map_err (\<lambda>e. GovIdentity (InvalidName e)) (validate_attestor_name name)) (\<lambda>_.
     and_then (map_err (\<lambda>e. GovIdentity (InvalidMultisig e))
                 (validate_attestor_multisig sk ms attestor ownrs thr)) (\<lambda>_.
     if evidence_hash = [] \<or> MAX_EVIDENCE_HASH_LEN < length evidence_hash \<or>
        evidence_uri = [] \<or> MAX_EVIDENCE_URI_LEN < length evidence_uri
     then Err InvalidEvidence else Ok ()))"
| "validate_action H pubkey_ok sk ms (RemoveAttestor attestor) =
     (if pubkey_ok attestor then Ok () else Err (InvalidAddress attestor))"
| "validate_action H pubkey_ok sk ms (UnblockAttestor attestor) =
     (if pubkey_ok attestor then Ok () else Err (InvalidAddress attestor))"
| "validate_action H pubkey_ok sk ms (TreasurySpend to amount) =
     (if amount = 0 then Err ZeroSpend
      else if to = treasury_account H then Err (InvalidAddress to)
      else if pubkey_ok to then Ok () else Err (InvalidAddress to))"
| "validate_action H pubkey_ok sk ms (ReinstateValidator validator) =
     (if pubkey_ok validator then Ok () else Err (InvalidAddress validator))"
| "validate_action H pubkey_ok sk ms (ResolveDispute height header resolution corrections verdict bounty) =
     (if resolution = Forked \<and> corrections \<noteq> [] then Err ForkedWithCorrections
      else if verdict = Attack \<and> (corrections \<noteq> [] \<or> 0 < bounty) then Err AttackWithPayouts
      else (case find (\<lambda>c. \<not> pubkey_ok (fst c)) corrections of
              Some c \<Rightarrow> Err (InvalidAddress (fst c))
            | None \<Rightarrow> Ok ()))"

definition open_proposal ::
  "(address \<Rightarrow> pubkey option) \<Rightarrow> (nat \<Rightarrow> pubkey list \<Rightarrow> address option) \<Rightarrow>
   view \<Rightarrow> address \<Rightarrow> governance_action \<Rightarrow> string \<Rightarrow> nat \<Rightarrow> nat \<Rightarrow>
   (governance_error, nat \<times> governance_updates) result" where
  "open_proposal sk ms v who act descr height bnd =
    (let params = chain_params_of v in
     and_then
      (case act of
         AddAttestor attestor name ownrs thr _ _ \<Rightarrow>
           and_then (map_err GovIdentity (apply_register_attestor sk ms v attestor name ownrs thr height)) (\<lambda>_.
           Ok (voting_period_blocks params, []))
       | RemoveAttestor attestor \<Rightarrow>
           and_then (map_err GovIdentity (apply_open_removal v attestor height)) (\<lambda>ws.
           Ok (attestor_removal_voting_blocks params, ws))
       | UnblockAttestor attestor \<Rightarrow>
           and_then (map_err (\<lambda>_. UnknownAttestor attestor) (require_attestor v attestor)) (\<lambda>_.
           Ok (voting_period_blocks params, []))
       | _ \<Rightarrow> Ok (voting_period_blocks params, []))
      (\<lambda>(voting_blocks, ws).
       (let n = unwrap_or 0 (v_next_proposal_id v);
            p = \<lparr> proposal_id = n, proposer = who, proposal_action = act, description = descr,
                  created_at = height, voting_ends_at = saturating_add u64_max height voting_blocks,
                  yes_power = 0, no_power = 0, status = Open, bond = bnd \<rparr>
        in and_then (add_or_panic u64_max n 1) (\<lambda>n'.
           Ok (n, ws @ [PutProposal n p, PutNextProposalId n'])))))"

definition apply_submit ::
  "hasher \<Rightarrow> (address \<Rightarrow> bool) \<Rightarrow> (address \<Rightarrow> pubkey option) \<Rightarrow> (nat \<Rightarrow> pubkey list \<Rightarrow> address option) \<Rightarrow>
   view \<Rightarrow> address \<Rightarrow> governance_action \<Rightarrow> string \<Rightarrow> nat \<Rightarrow>
   (governance_error, nat \<times> governance_updates) result" where
  "apply_submit H pubkey_ok sk ms v who act descr height =
    and_then (gov_voting_power v who height) (\<lambda>_.
    and_then (validate_action H pubkey_ok sk ms act) (\<lambda>_.
    if (case act of SetChainParams p \<Rightarrow> changes_epoch_length v p | _ \<Rightarrow> False)
    then Err (InvalidParams ''epoch_length can't be changed by governance'')
    else open_proposal sk ms v who act descr height 0))"

definition apply_attestor_application ::
  "hasher \<Rightarrow> (address \<Rightarrow> bool) \<Rightarrow> (address \<Rightarrow> pubkey option) \<Rightarrow> (nat \<Rightarrow> pubkey list \<Rightarrow> address option) \<Rightarrow>
   view \<Rightarrow> address \<Rightarrow> string \<Rightarrow> address list \<Rightarrow> nat \<Rightarrow> string \<Rightarrow> string \<Rightarrow> nat \<Rightarrow>
   (governance_error, nat \<times> governance_updates \<times> account_updates) result" where
  "apply_attestor_application H pubkey_ok sk ms v applicant name ownrs thr evidence_hash evidence_uri height =
    (let act = AddAttestor applicant name ownrs thr evidence_hash evidence_uri in
     and_then (validate_action H pubkey_ok sk ms act) (\<lambda>_.
     and_then (map_err GovIdentity (apply_register_attestor sk ms v applicant name ownrs thr height)) (\<lambda>_.
     (let bnd = attestor_apply_bond (chain_params_of v);
          treasury = treasury_account H;
          payer = account_of v applicant
      in
      and_then (ok_or (CannotPayBond bnd (balance payer)) (checked_sub (balance payer) bnd)) (\<lambda>rest.
      (let payer = payer\<lparr> balance := rest \<rparr>;
           treasury_entry = account_of v treasury;
           treasury_entry = treasury_entry\<lparr> balance := saturating_add u128_max (balance treasury_entry) bnd \<rparr>;
           accounts = bt_insert treasury treasury_entry (bt_insert applicant payer [])
       in
       and_then (open_proposal sk ms v applicant act (''Attestor application: '' @ name) height bnd) (\<lambda>(n, ws).
       Ok (n, ws, accounts))))))))"

definition refund_bond :: "hasher \<Rightarrow> view \<Rightarrow> proposal \<Rightarrow> account_updates \<Rightarrow> account_updates" where
  "refund_bond H v p accounts =
    (if bond p = 0 then accounts
     else
      (let treasury = treasury_account H;
           from_e = account_of v treasury;
           refund = min (bond p) (balance from_e);
           from_e = from_e\<lparr> balance := balance from_e - refund \<rparr>;
           to_e = account_of v (proposer p);
           to_e = to_e\<lparr> balance := saturating_add u128_max (balance to_e) refund \<rparr>
       in bt_insert (proposer p) to_e (bt_insert treasury from_e accounts)))"

definition apply_vote ::
  "view \<Rightarrow> address \<Rightarrow> nat \<Rightarrow> bool \<Rightarrow> nat \<Rightarrow> (governance_error, governance_updates) result" where
  "apply_vote v voter n approve height =
    and_then (gov_voting_power v voter height) (\<lambda>power.
    and_then (proposal_of v n) (\<lambda>p.
    if status p \<noteq> Open then Err (NotOpen n)
    else if voting_ends_at p \<le> height then Err (VotingClosed n (voting_ends_at p))
    else if v_vote v (n, voter) \<noteq> None then Err (AlreadyVoted n voter)
    else
     (let p = (if approve then p\<lparr> yes_power := saturating_add u32_max (yes_power p) power \<rparr>
               else p\<lparr> no_power := saturating_add u32_max (no_power p) power \<rparr>)
      in Ok [PutProposal n p, PutVote n voter approve])))"

text \<open>What executing a passed action yields; \<open>None\<close> where the source falls through as Rejected.\<close>

type_synonym exec_effect =
  "governance_updates \<times> account_updates \<times> open_dispute option \<times> attestor_change"

definition no_attestors :: attestor_change where
  "no_attestors = \<lparr> registration = None, deregistration = None \<rparr>"

definition apply_corrections :: "view \<Rightarrow> (address \<times> nat) list \<Rightarrow> account_updates \<Rightarrow> account_updates" where
  "apply_corrections v corrections accounts =
    fold (\<lambda>(who, b) acc.
            bt_insert who ((case map_of acc who of Some e \<Rightarrow> e | None \<Rightarrow> account_of v who)\<lparr> balance := b \<rparr>) acc)
         corrections accounts"

definition resolve_dispute ::
  "hasher \<Rightarrow> view \<Rightarrow> nat \<Rightarrow> string \<Rightarrow> (address \<times> nat) list \<Rightarrow> dispute_cause \<Rightarrow> nat \<Rightarrow> exec_effect option" where
  "resolve_dispute H v height header corrections verdict bounty =
    (case v_dispute_open v (height, header) of
       None \<Rightarrow> None
     | Some open_d \<Rightarrow>
       if cause open_d = Bug \<and> verdict = Attack then None
       else
        (let treasury = treasury_account H; from_e = account_of v treasury in
         if 0 < bounty \<and> (balance from_e < bounty \<or> challenger open_d = treasury) then None
         else
          (let accounts =
                 (if 0 < bounty then
                    (let dest = account_of v (challenger open_d) in
                     bt_insert (challenger open_d)
                       (dest\<lparr> balance := saturating_add u128_max (balance dest) bounty \<rparr>)
                       (bt_insert treasury (from_e\<lparr> balance := balance from_e - bounty \<rparr>) []))
                  else [])
           in Some ([DeleteDisputeOpen height header], apply_corrections v corrections accounts,
                    if verdict = Attack then Some open_d else None, no_attestors))))"

fun execute_action ::
  "hasher \<Rightarrow> (address \<Rightarrow> pubkey option) \<Rightarrow> (nat \<Rightarrow> pubkey list \<Rightarrow> address option) \<Rightarrow>
   view \<Rightarrow> proposal \<Rightarrow> nat \<Rightarrow> governance_action \<Rightarrow> exec_effect option" where
  "execute_action H sk ms v p height (SetChainParams params) =
     (if changes_epoch_length v params then None else Some ([PutChainParams params], [], None, no_attestors))"
| "execute_action H sk ms v p height (AddAttestor attestor name ownrs thr eh eu) =
     (case apply_register_attestor sk ms v attestor name ownrs thr height of
        Ok (reg, name_row) \<Rightarrow>
          Some (name_row, refund_bond H v p [], None, no_attestors\<lparr> registration := Some reg \<rparr>)
      | _ \<Rightarrow> None)"
| "execute_action H sk ms v p height (RemoveAttestor attestor) =
     (case apply_deregister_attestor v attestor of
        Ok (d, name_row) \<Rightarrow> Some (name_row, [], None, no_attestors\<lparr> deregistration := Some d \<rparr>)
      | _ \<Rightarrow> None)"
| "execute_action H sk ms v p height (UnblockAttestor attestor) =
     (case apply_set_self_blocked v attestor False of
        Ok ws \<Rightarrow> Some (ws, [], None, no_attestors)
      | _ \<Rightarrow> None)"
| "execute_action H sk ms v p height (TreasurySpend to amount) =
     (let treasury = treasury_account H; from_e = account_of v treasury in
      if to = treasury \<or> balance from_e < amount then None
      else
       (let dest = account_of v to in
        Some ([], bt_insert to (dest\<lparr> balance := saturating_add u128_max (balance dest) amount \<rparr>)
                   (bt_insert treasury (from_e\<lparr> balance := balance from_e - amount \<rparr>) []),
              None, no_attestors)))"
| "execute_action H sk ms v p height (ResolveDispute h header resolution corrections verdict bounty) =
     resolve_dispute H v h header corrections verdict bounty"
| "execute_action H sk ms v p height (ReinstateValidator validator) =
     (if v_validator_status v validator = Some Tombstoned
      then Some ([DeleteValidatorStatus validator], [], None, no_attestors) else None)"

definition apply_execute ::
  "hasher \<Rightarrow> (address \<Rightarrow> pubkey option) \<Rightarrow> (nat \<Rightarrow> pubkey list \<Rightarrow> address option) \<Rightarrow>
   view \<Rightarrow> nat \<Rightarrow> nat \<Rightarrow> (governance_error, exec_effect) result" where
  "apply_execute H sk ms v n height =
    and_then (proposal_of v n) (\<lambda>p.
    if status p \<noteq> Open then Err (NotOpen n)
    else if height < voting_ends_at p then Err (VotingStillOpen n (voting_ends_at p))
    else
     (let quorum = proposal_quorum_bps (chain_params_of v);
          passed = (no_power p < yes_power p \<and> quorum \<le> yes_power p);
          effect = (if passed then execute_action H sk ms v p height (proposal_action p) else None)
      in
      (case effect of
         Some (ws, accounts, slash, attestors) \<Rightarrow>
           Ok (ws @ [PutProposal n (p\<lparr> status := Executed \<rparr>)], accounts, slash, attestors)
       | None \<Rightarrow>
           Ok ((case proposal_action p of
                  RemoveAttestor attestor \<Rightarrow>
                    apply_close_failed_removal v attestor height
                      (attestor_removal_cooldown_blocks (chain_params_of v))
                | _ \<Rightarrow> [])
               @ [PutProposal n (p\<lparr> status := Rejected \<rparr>)], [], None, no_attestors))))"

section \<open>The life of a proposal\<close>

definition executed :: "view \<Rightarrow> exec_effect \<Rightarrow> view" where
  "executed v eff =
    (case eff of (ws, accounts, slash, attestors) \<Rightarrow>
      (let v = apply_accounts v accounts;
           v = (case registration attestors of Some r \<Rightarrow> apply_attestor_registration v r | None \<Rightarrow> v);
           v = (case deregistration attestors of Some d \<Rightarrow> apply_attestor_deregistration v d | None \<Rightarrow> v)
       in apply_governance v ws))"

text \<open>
  Between two governance actions the rest of the chain moves on: balances, stakes, validator sets
  and attestors change, but nothing outside this circuit writes proposals, votes, the id counter or
  the parameters.
\<close>

definition same_governance :: "view \<Rightarrow> view \<Rightarrow> bool" where
  "same_governance v v' \<longleftrightarrow>
     v_proposal v' = v_proposal v \<and> v_vote v' = v_vote v \<and>
     v_next_proposal_id v' = v_next_proposal_id v \<and> v_chain_params v' = v_chain_params v"

inductive gov_step ::
  "hasher \<Rightarrow> (address \<Rightarrow> bool) \<Rightarrow> (address \<Rightarrow> pubkey option) \<Rightarrow> (nat \<Rightarrow> pubkey list \<Rightarrow> address option) \<Rightarrow>
   view \<Rightarrow> view \<Rightarrow> bool"
  for H pubkey_ok sk ms where
  submit: "apply_submit H pubkey_ok sk ms v who act descr height = Ok (n, ws) \<Longrightarrow>
    gov_step H pubkey_ok sk ms v (apply_governance v ws)"
| application: "apply_attestor_application H pubkey_ok sk ms v who name ownrs thr eh eu height
      = Ok (n, ws, accounts) \<Longrightarrow>
    gov_step H pubkey_ok sk ms v (apply_governance (apply_accounts v accounts) ws)"
| vote: "apply_vote v voter n approve height = Ok ws \<Longrightarrow>
    gov_step H pubkey_ok sk ms v (apply_governance v ws)"
| execute: "apply_execute H sk ms v n height = Ok eff \<Longrightarrow>
    gov_step H pubkey_ok sk ms v (executed v eff)"
| elsewhere: "same_governance v v' \<Longrightarrow> gov_step H pubkey_ok sk ms v v'"

inductive gov_reachable ::
  "hasher \<Rightarrow> (address \<Rightarrow> bool) \<Rightarrow> (address \<Rightarrow> pubkey option) \<Rightarrow> (nat \<Rightarrow> pubkey list \<Rightarrow> address option) \<Rightarrow>
   view \<Rightarrow> view \<Rightarrow> bool"
  for H pubkey_ok sk ms v0 where
  start: "gov_reachable H pubkey_ok sk ms v0 v0"
| step: "gov_reachable H pubkey_ok sk ms v0 v \<Longrightarrow> gov_step H pubkey_ok sk ms v v' \<Longrightarrow>
    gov_reachable H pubkey_ok sk ms v0 v'"

definition next_id :: "view \<Rightarrow> nat" where
  "next_id v = unwrap_or 0 (v_next_proposal_id v)"

definition gov_inv :: "view \<Rightarrow> bool" where
  "gov_inv v \<longleftrightarrow>
     (\<forall>n p. v_proposal v n = Some p \<longrightarrow> n < next_id v \<and> proposal_id p = n) \<and>
     (\<forall>n a b. v_vote v (n, a) = Some b \<longrightarrow> n < next_id v)"

text \<open>Writes that leave proposals, votes, the counter and the parameters alone.\<close>

fun side_write :: "gov_write \<Rightarrow> bool" where
  "side_write (PutProposal _ _) = False"
| "side_write (PutVote _ _ _) = False"
| "side_write (PutNextProposalId _) = False"
| "side_write (PutChainParams _) = False"
| "side_write _ = True"

lemma side_writes_frame:
  "list_all side_write ws \<Longrightarrow> same_governance v (apply_governance v ws)"
proof (induction ws arbitrary: v)
  case (Cons w ws)
  then have "same_governance v (apply_gov_write w v)" by (cases w) (simp_all add: same_governance_def)
  with Cons.IH [of "apply_gov_write w v"] Cons.prems show ?case by (simp add: same_governance_def)
qed (simp add: same_governance_def)

lemma same_governance_frames:
  "same_governance v (apply_accounts v u)"
  "same_governance v (apply_attestor_registration v r)"
  "same_governance v (apply_attestor_deregistration v d)"
  by (simp_all add: same_governance_def apply_accounts_def apply_attestor_registration_def
      apply_attestor_deregistration_def)

lemma open_proposal_Ok:
  assumes "open_proposal sk ms v who act descr height bnd = Ok (n, ws)"
  obtains pre p where "n = next_id v" "ws = pre @ [PutProposal n p, PutNextProposalId (n + 1)]"
    "list_all side_write pre" "proposal_id p = n" "status p = Open" "yes_power p = 0" "no_power p = 0"
    "proposal_action p = act" "proposer p = who" "bond p = bnd"
  using assms
  by (cases act) (auto simp: open_proposal_def next_id_def Let_def apply_open_removal_def
      split: if_splits)

lemma side_effects:
  assumes "execute_action H sk ms v p height act = Some (ws, accounts, slash, attestors)"
  shows "(\<exists>params. ws = [PutChainParams params] \<and> \<not> changes_epoch_length v params) \<or> list_all side_write ws"
  using assms
  by (cases act) (auto simp: resolve_dispute_def Let_def apply_register_attestor_def
      apply_deregister_attestor_def apply_set_self_blocked_def
      split: if_splits result.splits option.splits)

lemma executed_frame:
  assumes "list_all side_write ws \<or> (\<exists>params. ws = [PutChainParams params] \<and> \<not> changes_epoch_length v params)"
  shows "v_proposal (executed v (ws @ [PutProposal n q], accounts, slash, attestors)) = (v_proposal v)(n \<mapsto> q)"
    and "v_vote (executed v (ws @ [PutProposal n q], accounts, slash, attestors)) = v_vote v"
    and "next_id (executed v (ws @ [PutProposal n q], accounts, slash, attestors)) = next_id v"
    and "epoch_length (chain_params_of (executed v (ws @ [PutProposal n q], accounts, slash, attestors))) =
         epoch_length (chain_params_of v)"
proof -
  define v1 where "v1 = (let v = apply_accounts v accounts;
      v = (case registration attestors of Some r \<Rightarrow> apply_attestor_registration v r | None \<Rightarrow> v)
    in (case deregistration attestors of Some d \<Rightarrow> apply_attestor_deregistration v d | None \<Rightarrow> v))"
  have s: "same_governance v v1"
    using same_governance_frames unfolding v1_def Let_def
    by (cases "registration attestors"; cases "deregistration attestors") (auto simp: same_governance_def)
  have e: "executed v (ws @ [PutProposal n q], accounts, slash, attestors) =
      apply_gov_write (PutProposal n q) (apply_governance v1 ws)"
    by (simp add: executed_def v1_def apply_governance_append Let_def)
  from assms have "v_proposal (apply_governance v1 ws) = v_proposal v \<and> v_vote (apply_governance v1 ws) = v_vote v \<and>
      next_id (apply_governance v1 ws) = next_id v \<and>
      epoch_length (chain_params_of (apply_governance v1 ws)) = epoch_length (chain_params_of v)"
  proof
    assume "list_all side_write ws"
    from side_writes_frame [OF this, of v1] s show ?thesis
      by (simp add: same_governance_def next_id_def chain_params_of_def)
  qed (use s in \<open>auto simp: same_governance_def next_id_def chain_params_of_def changes_epoch_length_def\<close>)
  then show "v_proposal (executed v (ws @ [PutProposal n q], accounts, slash, attestors)) = (v_proposal v)(n \<mapsto> q)"
    "v_vote (executed v (ws @ [PutProposal n q], accounts, slash, attestors)) = v_vote v"
    "next_id (executed v (ws @ [PutProposal n q], accounts, slash, attestors)) = next_id v"
    "epoch_length (chain_params_of (executed v (ws @ [PutProposal n q], accounts, slash, attestors))) =
       epoch_length (chain_params_of v)"
    by (simp_all add: e next_id_def chain_params_of_def)
qed

lemma apply_execute_Ok:
  assumes "apply_execute H sk ms v n height = Ok eff"
  obtains p ws st accounts slash attestors where "v_proposal v n = Some p" "status p = Open"
    "voting_ends_at p \<le> height" "eff = (ws @ [PutProposal n (p\<lparr> status := st \<rparr>)], accounts, slash, attestors)"
    "list_all side_write ws \<or> (\<exists>params. ws = [PutChainParams params] \<and> \<not> changes_epoch_length v params)"
    "(st = Executed \<and> no_power p < yes_power p \<and> proposal_quorum_bps (chain_params_of v) \<le> yes_power p \<and>
       execute_action H sk ms v p height (proposal_action p) = Some (ws, accounts, slash, attestors)) \<or>
     (st = Rejected \<and> accounts = [] \<and> slash = None \<and> attestors = no_attestors \<and> list_all side_write ws)"
proof -
  obtain p where p: "v_proposal v n = Some p" "status p = Open" "voting_ends_at p \<le> height"
    using assms by (auto simp: apply_execute_def proposal_of_def not_less split: if_splits)
  let ?e = "if no_power p < yes_power p \<and> proposal_quorum_bps (chain_params_of v) \<le> yes_power p
    then execute_action H sk ms v p height (proposal_action p) else None"
  show ?thesis
  proof (cases ?e)
    case None
    let ?ws = "case proposal_action p of RemoveAttestor attestor \<Rightarrow>
        apply_close_failed_removal v attestor height (attestor_removal_cooldown_blocks (chain_params_of v)) | _ \<Rightarrow> []"
    have "list_all side_write ?ws"
      by (auto simp: apply_close_failed_removal_def split: governance_action.splits option.splits)
    moreover have "eff = (?ws @ [PutProposal n (p\<lparr> status := Rejected \<rparr>)], [], None, no_attestors)"
      using assms p None by (simp add: apply_execute_def proposal_of_def Let_def)
    ultimately show ?thesis using p by (intro that [of p ?ws Rejected]) auto
  next
    case (Some x)
    obtain ws accounts slash attestors where x: "x = (ws, accounts, slash, attestors)" by (cases x)
    have passed: "no_power p < yes_power p" "proposal_quorum_bps (chain_params_of v) \<le> yes_power p"
      "execute_action H sk ms v p height (proposal_action p) = Some (ws, accounts, slash, attestors)"
      using Some x by (auto split: if_splits)
    have "eff = (ws @ [PutProposal n (p\<lparr> status := Executed \<rparr>)], accounts, slash, attestors)"
      using assms p passed by (simp add: apply_execute_def proposal_of_def Let_def)
    with p passed side_effects [OF passed(3)] show ?thesis
      by (intro that [of p ws Executed accounts slash attestors]) auto
  qed
qed

lemma apply_vote_Ok:
  assumes "apply_vote v voter n approve height = Ok ws"
  obtains power p p' where "gov_voting_power v voter height = Ok power" "v_proposal v n = Some p"
    "status p = Open" "height < voting_ends_at p" "v_vote v (n, voter) = None"
    "ws = [PutProposal n p', PutVote n voter approve]"
    "p' = (if approve then p\<lparr> yes_power := saturating_add u32_max (yes_power p) power \<rparr>
           else p\<lparr> no_power := saturating_add u32_max (no_power p) power \<rparr>)"
proof -
  obtain power where P: "gov_voting_power v voter height = Ok power"
    using assms by (auto simp: apply_vote_def)
  obtain p where p: "v_proposal v n = Some p"
    using assms P by (auto simp: apply_vote_def proposal_of_def)
  show ?thesis
    using assms
    by (intro that [OF P p _ _ _ _ refl])
       (auto simp: apply_vote_def P p proposal_of_def Let_def not_le split: if_splits)
qed

text \<open>What one governance step may do to the rows.\<close>

lemma gov_step_effect:
  assumes "gov_step H pubkey_ok sk ms v v'" and "gov_inv v"
  shows "gov_inv v'"
    and "epoch_length (chain_params_of v') = epoch_length (chain_params_of v)"
    and "v_proposal v n = Some p \<Longrightarrow> status p \<noteq> Open \<Longrightarrow> v_proposal v' n = Some p"
    and "v_vote v (n, a) = Some b \<Longrightarrow> v_vote v' (n, a) = Some b"
proof -
  have opened: "gov_inv (apply_governance w ws) \<and>
      epoch_length (chain_params_of (apply_governance w ws)) = epoch_length (chain_params_of v) \<and>
      (\<forall>n p. v_proposal v n = Some p \<longrightarrow> v_proposal (apply_governance w ws) n = Some p) \<and>
      v_vote (apply_governance w ws) = v_vote v"
    if s: "same_governance v w" and o: "open_proposal sk ms v who act descr height bnd = Ok (m, ws)"
    for w ws who act descr height bnd m
    using o
  proof (cases rule: open_proposal_Ok)
    case (1 pre q)
    have "same_governance v (apply_governance w pre)"
      using side_writes_frame [OF 1(3), of w] s by (simp add: same_governance_def)
    with 1(1,2,4) assms(2) show ?thesis
      by (auto simp: apply_governance_append same_governance_def gov_inv_def next_id_def chain_params_of_def
          less_SucI)
  qed
  have "gov_inv v' \<and> epoch_length (chain_params_of v') = epoch_length (chain_params_of v) \<and>
    (\<forall>n p. v_proposal v n = Some p \<and> status p \<noteq> Open \<longrightarrow> v_proposal v' n = Some p) \<and>
    (\<forall>n a b. v_vote v (n, a) = Some b \<longrightarrow> v_vote v' (n, a) = Some b)"
    using assms(1)
  proof cases
    case (submit who act descr height m ws)
    then have "open_proposal sk ms v who act descr height 0 = Ok (m, ws)"
      by (auto simp: apply_submit_def split: if_splits)
    from opened [OF _ this, of v] submit(1) show ?thesis by (simp add: same_governance_def)
  next
    case (application who name ownrs thr eh eu height m ws accounts)
    then obtain bnd where "open_proposal sk ms v who (AddAttestor who name ownrs thr eh eu)
        (''Attestor application: '' @ name) height bnd = Ok (m, ws)"
      by (auto simp: apply_attestor_application_def Let_def)
    from opened [OF same_governance_frames(1) this, of accounts] application(1) show ?thesis by simp
  next
    case (vote voter m approve height ws)
    from vote(2) show ?thesis
    proof (cases rule: apply_vote_Ok)
      case (1 power q q')
      then have q': "proposal_id q' = proposal_id q" "status q = Open" by auto
      have "v' = (v\<lparr> v_proposal := (v_proposal v)(m \<mapsto> q') \<rparr>)\<lparr> v_vote := (v_vote v)((m, voter) \<mapsto> approve) \<rparr>"
        using vote(1) 1(6) by simp
      moreover have "m < next_id v" using assms(2) 1(2) by (simp add: gov_inv_def)
      ultimately show ?thesis
        using 1(2,5) q' assms(2) by (auto simp: gov_inv_def next_id_def chain_params_of_def split: if_splits) blast
    qed
  next
    case (execute m height eff)
    from execute(2) show ?thesis
    proof (cases rule: apply_execute_Ok)
      case (1 p ws st accounts slash attestors)
      with execute(1) assms(2) show ?thesis
        by (auto simp: gov_inv_def executed_frame [OF 1(5)])
    qed
  next
    case elsewhere
    with assms(2) show ?thesis by (auto simp: same_governance_def gov_inv_def next_id_def chain_params_of_def)
  qed
  then show "gov_inv v'"
    "epoch_length (chain_params_of v') = epoch_length (chain_params_of v)"
    "v_proposal v n = Some p \<Longrightarrow> status p \<noteq> Open \<Longrightarrow> v_proposal v' n = Some p"
    "v_vote v (n, a) = Some b \<Longrightarrow> v_vote v' (n, a) = Some b" by auto
qed

lemma gov_reachable_effect:
  assumes "gov_reachable H pubkey_ok sk ms v0 v" and "gov_inv v0"
  shows "gov_inv v \<and> epoch_length (chain_params_of v) = epoch_length (chain_params_of v0) \<and>
    (\<forall>n p. v_proposal v0 n = Some p \<and> status p \<noteq> Open \<longrightarrow> v_proposal v n = Some p) \<and>
    (\<forall>n a b. v_vote v0 (n, a) = Some b \<longrightarrow> v_vote v (n, a) = Some b)"
  using assms
proof (induction rule: gov_reachable.induct)
  case (step v v')
  then show ?case using gov_step_effect [OF step.hyps(2)] by metis
qed simp

section \<open>Properties\<close>

definition sample_validator :: address where "sample_validator = Address ''val''"

definition sample_proposal :: "nat \<Rightarrow> proposal_status \<Rightarrow> proposal" where
  "sample_proposal n st =
    \<lparr> proposal_id = n, proposer = sample_validator, proposal_action = TreasurySpend (Address ''bob'') 5,
      description = ''pay'', created_at = 1, voting_ends_at = 100, yes_power = 0, no_power = 0,
      status = st, bond = 0 \<rparr>"

definition sample_gov_view :: view where
  "sample_gov_view = empty_view\<lparr>
     v_validator_set := [0 \<mapsto> [(sample_validator, 10000)]],
     v_proposal := [0 \<mapsto> sample_proposal 0 Executed, 1 \<mapsto> sample_proposal 1 Open],
     v_next_proposal_id := Some 2 \<rparr>"

lemma sample_gov_inv: "gov_inv sample_gov_view"
  by (auto simp: gov_inv_def sample_gov_view_def sample_proposal_def next_id_def empty_view_def
      split: if_splits)

lemma sample_vote:
  "apply_vote sample_gov_view sample_validator 1 True 7 =
   Ok [PutProposal 1 ((sample_proposal 1 Open)\<lparr> yes_power := 10000 \<rparr>), PutVote 1 sample_validator True]"
  by (simp add: apply_vote_def gov_voting_power_def validator_set_effective_height_def epoch_of_def
      sample_gov_view_def empty_view_def chain_params_of_def default_chain_params_def
      mul_or_panic_def checked_mul_def expect_def proposal_of_def sample_proposal_def
      saturating_add_def u32_max_def Let_def)

lemma sample_gov_reachable:
  "gov_reachable H pubkey_ok sk ms sample_gov_view (apply_governance sample_gov_view
     [PutProposal 1 ((sample_proposal 1 Open)\<lparr> yes_power := 10000 \<rparr>), PutVote 1 sample_validator True])"
  by (rule gov_reachable.step [OF gov_reachable.start gov_step.vote [OF sample_vote]])

text \<open>
  A closed proposal is final. Whatever happens on the chain afterwards (submissions, votes,
  executions, and any change outside governance), a proposal that is Executed or Rejected keeps
  its row unchanged, so its action is applied at most once.
\<close>

theorem closed_proposal_is_final:
  assumes "gov_reachable H pubkey_ok sk ms v0 v" and "gov_inv v0"
    and "v_proposal v0 n = Some p" and "status p \<noteq> Open"
  shows "v_proposal v n = Some p \<and> (\<forall>height. \<not> is_ok (apply_execute H sk ms v n height))"
proof -
  have "v_proposal v n = Some p" using gov_reachable_effect [OF assms(1,2)] assms(3,4) by blast
  with assms(4) show ?thesis by (simp add: apply_execute_def proposal_of_def)
qed

theorem closed_proposal_is_final_witness:
  "v_proposal (apply_governance sample_gov_view
     [PutProposal 1 ((sample_proposal 1 Open)\<lparr> yes_power := 10000 \<rparr>), PutVote 1 sample_validator True]) 0
   = Some (sample_proposal 0 Executed)"
proof -
  have "v_proposal sample_gov_view 0 = Some (sample_proposal 0 Executed)"
    "status (sample_proposal 0 Executed) \<noteq> Open"
    by (simp_all add: sample_gov_view_def sample_proposal_def)
  from closed_proposal_is_final [OF sample_gov_reachable [of "\<lambda>s. Address s" "\<lambda>_. True" "\<lambda>_. None" "\<lambda>_ _. None"]
      sample_gov_inv this]
  show ?thesis by simp
qed

text \<open>
  One vote per validator and proposal, for good. A recorded vote stays recorded as it was
  cast in every later state, and every further vote by the same validator on that proposal is
  refused, even after the proposal or the validator set changed.
\<close>

theorem vote_is_cast_once:
  assumes "gov_reachable H pubkey_ok sk ms v0 v" and "gov_inv v0"
    and "v_vote v0 (n, voter) = Some b"
  shows "v_vote v (n, voter) = Some b \<and> \<not> is_ok (apply_vote v voter n approve height)"
proof -
  have "v_vote v (n, voter) = Some b" using gov_reachable_effect [OF assms(1,2)] assms(3) by blast
  moreover from this have "apply_vote v voter n approve height \<noteq> Ok ws" for ws
    by (auto elim: apply_vote_Ok)
  ultimately show ?thesis by (auto simp: is_ok_iff)
qed

theorem vote_is_cast_once_witness:
  "let v = apply_governance sample_gov_view
     [PutProposal 1 ((sample_proposal 1 Open)\<lparr> yes_power := 10000 \<rparr>), PutVote 1 sample_validator True]
   in v_vote v (1, sample_validator) = Some True \<and>
      \<not> is_ok (apply_vote v sample_validator 1 False 8)"
proof -
  let ?v = "apply_governance sample_gov_view
     [PutProposal 1 ((sample_proposal 1 Open)\<lparr> yes_power := 10000 \<rparr>), PutVote 1 sample_validator True]"
  have r: "gov_reachable (\<lambda>s. Address s) (\<lambda>_. True) (\<lambda>_. None) (\<lambda>_ _. None) ?v ?v"
    by (rule gov_reachable.start)
  have i: "gov_inv ?v"
    using gov_reachable_effect [OF sample_gov_reachable [of "\<lambda>s. Address s" "\<lambda>_. True" "\<lambda>_. None" "\<lambda>_ _. None"]
      sample_gov_inv] by blast
  have "v_vote ?v (1, sample_validator) = Some True" by simp
  from vote_is_cast_once [OF r i this] show ?thesis unfolding Let_def by blast
qed

text \<open>
  Governance never moves the epoch grid: in every reachable state the epoch length is the one
  the chain started with, whatever parameter changes were voted in.
\<close>

theorem epoch_length_is_fixed:
  assumes "gov_reachable H pubkey_ok sk ms v0 v" and "gov_inv v0"
  shows "epoch_length (chain_params_of v) = epoch_length (chain_params_of v0)"
  using gov_reachable_effect [OF assms] by blast

theorem epoch_length_is_fixed_witness:
  "epoch_length (chain_params_of (apply_governance sample_gov_view
     [PutProposal 1 ((sample_proposal 1 Open)\<lparr> yes_power := 10000 \<rparr>), PutVote 1 sample_validator True]))
   = epoch_length (chain_params_of sample_gov_view)"
  by (rule epoch_length_is_fixed [OF sample_gov_reachable [of "\<lambda>s. Address s" "\<lambda>_. True" "\<lambda>_. None" "\<lambda>_ _. None"]
        sample_gov_inv])

text \<open>
  C20: nothing is executed without its quorum. If closing a proposal records it as Executed, its
  voting window was over, more power said yes than no, and the yes power reached the quorum;
  otherwise it is recorded as Rejected, no account changes and no slash is requested.
\<close>

theorem execution_needs_quorum:
  assumes "apply_execute H sk ms v n height = Ok eff"
  shows "\<exists>p q. v_proposal v n = Some p \<and> status p = Open \<and> voting_ends_at p \<le> height \<and>
    v_proposal (executed v eff) n = Some q \<and>
    ((status q = Executed \<and> no_power p < yes_power p \<and>
        proposal_quorum_bps (chain_params_of v) \<le> yes_power p) \<or>
     (status q = Rejected \<and> v_account (executed v eff) = v_account v \<and> fst (snd (snd eff)) = None))"
  using assms
proof (cases rule: apply_execute_Ok)
  case (1 p ws st accounts slash attestors)
  have "v_account (executed v (ws @ [PutProposal n (p\<lparr> status := st \<rparr>)], [], None, no_attestors)) = v_account v"
    by (simp add: executed_def no_attestors_def Let_def)
  with 1 executed_frame(1) [OF 1(5), of n "p\<lparr> status := st \<rparr>" accounts slash attestors] show ?thesis
    by (auto simp: 1(4))
qed

theorem execution_needs_quorum_witness:
  "\<exists>eff q. apply_execute (\<lambda>s. Address s) (\<lambda>_. None) (\<lambda>_ _. None) sample_gov_view 1 100 = Ok eff \<and>
     v_proposal (executed sample_gov_view eff) 1 = Some q \<and> status q = Rejected"
proof -
  have p: "v_proposal sample_gov_view 1 = Some (sample_proposal 1 Open)"
    by (simp add: sample_gov_view_def)
  have "\<exists>eff. apply_execute (\<lambda>s. Address s) (\<lambda>_. None) (\<lambda>_ _. None) sample_gov_view 1 100 = Ok eff"
    using p by (simp add: apply_execute_def proposal_of_def sample_proposal_def Let_def)
  then obtain eff where e: "apply_execute (\<lambda>s. Address s) (\<lambda>_. None) (\<lambda>_ _. None) sample_gov_view 1 100 = Ok eff" ..
  from execution_needs_quorum [OF e] p e show ?thesis
    by (auto simp: sample_proposal_def)
qed

text \<open>
  Executing a proposal creates and destroys no coins, dispute corrections aside: treasury
  spends and bond refunds are exact transfers out of the treasury, as long as the supply fits a
  \<open>u128\<close> and the proposer is not the treasury itself.
\<close>

theorem execution_conserves_supply:
  assumes "finite (dom (v_account v))" and "native_supply v \<le> u128_max"
    and "v_proposal v n = Some p" and "proposer p \<noteq> treasury_account H"
    and "\<forall>h hd res cs verdict b. proposal_action p \<noteq> ResolveDispute h hd res cs verdict b"
    and "apply_execute H sk ms v n height = Ok eff"
  shows "native_supply (executed v eff) = native_supply v"
  using assms(6)
proof (cases rule: apply_execute_Ok)
  case (1 p' ws st accounts slash attestors)
  have p': "p' = p" using 1(1) assms(3) by simp
  have acc: "native_supply (executed v eff) = native_supply (apply_accounts v accounts)"
    by (cases "registration attestors"; cases "deregistration attestors")
       (simp_all add: 1(4) executed_def Let_def native_supply_def apply_attestor_registration_def
        apply_attestor_deregistration_def)
  from 1(6) show ?thesis
  proof
    assume x: "st = Executed \<and> no_power p' < yes_power p' \<and> proposal_quorum_bps (chain_params_of v) \<le> yes_power p' \<and>
       execute_action H sk ms v p' height (proposal_action p') = Some (ws, accounts, slash, attestors)"
    have pay: "balance (account_of v (treasury_account H)) \<ge> y \<Longrightarrow> to \<noteq> treasury_account H \<Longrightarrow>
        native_supply (apply_accounts v
          (bt_insert to ((account_of v to)\<lparr> balance := saturating_add u128_max (balance (account_of v to)) y \<rparr>)
          (bt_insert (treasury_account H) ((account_of v (treasury_account H))\<lparr>
             balance := balance (account_of v (treasury_account H)) - y \<rparr>) []))) = native_supply v" for y to
      using assms(1,2) by (intro saturating_payment_conserves) auto
    show ?thesis
      using x assms(4,5) pay unfolding acc
      by (cases "proposal_action p") (auto simp: p' Let_def refund_bond_def split: if_splits result.splits)
  qed (simp add: acc)
qed

theorem execution_conserves_supply_witness:
  "\<exists>v eff. apply_execute (\<lambda>s. Address s) (\<lambda>_. None) (\<lambda>_ _. None) v 1 100 = Ok eff \<and>
     native_supply v = 9 \<and> native_supply (executed v eff) = 9"
proof -
  let ?t = "treasury_account (\<lambda>s. Address s)"
  let ?p = "(sample_proposal 1 Open)\<lparr> yes_power := 10000 \<rparr>"
  let ?v = "sample_gov_view\<lparr> v_account := [?t \<mapsto> default_account\<lparr> balance := 9 \<rparr>],
     v_proposal := [1 \<mapsto> ?p] \<rparr>"
  have s: "native_supply ?v = 9" by (simp add: native_supply_def msum_def)
  have p: "v_proposal ?v 1 = Some ?p" by simp
  have "\<exists>eff. apply_execute (\<lambda>s. Address s) (\<lambda>_. None) (\<lambda>_ _. None) ?v 1 100 = Ok eff"
    by (simp add: apply_execute_def proposal_of_def sample_proposal_def Let_def treasury_account_def
        account_of_def)
  then obtain eff where e: "apply_execute (\<lambda>s. Address s) (\<lambda>_. None) (\<lambda>_ _. None) ?v 1 100 = Ok eff" ..
  have "native_supply (executed ?v eff) = native_supply ?v"
  proof (rule execution_conserves_supply [OF _ _ p _ _ e])
    show "native_supply ?v \<le> u128_max" unfolding s by (simp add: u128_max_def)
  qed (simp_all add: sample_proposal_def sample_validator_def treasury_account_def)
  with e s show ?thesis by metis
qed

end
