(* ===== verification/Executor.thy ===== *)
theory Executor
  imports Staking_Circuit "HOL-Library.Sublist"
begin

text \<open>
  The block executor (\<^verbatim>\<open>src/core/executor/src/lib.rs\<close>): how the batch of one dispatched action is
  folded into the view and into the block's overlays, the loop over a block's actions with its
  weight limit, and the view the seal reads through.

  The executor is generic in the chain it runs: \<open>dispatch\<close> and \<open>meter\<close> are arguments of the source's
  functions and of these. Signature checks are Ed25519 (a third-party crate): \<open>presigned\<close> says whether an
  action's own signature verifies and \<open>policy_signed\<close> whether it verifies under the stored policy of a
  programmable account.
\<close>

section \<open>One action's effects\<close>

definition apply_opt :: "(view \<Rightarrow> 'r \<Rightarrow> view) \<Rightarrow> 'r option \<Rightarrow> view \<Rightarrow> view" where
  "apply_opt f r v = (case r of Some x \<Rightarrow> f v x | None \<Rightarrow> v)"

definition absorb_updates :: "view \<Rightarrow> block_updates \<Rightarrow> view" where
  "absorb_updates v u =
    (let v = apply_accounts v (bu_accounts u);
         v = apply_validator_statuses v (bu_validator_statuses u);
         v = apply_stakes v (bu_stakes u);
         v = apply_opt apply_bls_key (bu_bls_key u) v;
         v = apply_operator v (bu_operator u);
         v = apply_asset_balances v (bu_assets u);
         v = apply_holder_states v (bu_holder_states u);
         v = apply_opt apply_asset_registration (bu_asset_registration u) v;
         v = apply_opt apply_attestor_registration (bu_attestor_registration u) v;
         v = apply_opt apply_attestor_deregistration (bu_attestor_deregistration u) v
     in apply_governance v (bu_governance u))"

definition resolve_matured_unbonding :: "hasher \<Rightarrow> view \<Rightarrow> nat \<Rightarrow> (never, block_updates) result" where
  "resolve_matured_unbonding H v height =
    and_then (resolve_due_unbonding H v height) (\<lambda>(accounts, stakes, governance).
    Ok (default_updates\<lparr> bu_accounts := accounts, bu_stakes := stakes, bu_governance := governance \<rparr>))"

section \<open>The block's overlays\<close>

record ('a, 'e) execution_outcome =
  applied :: "'a list"
  dropped :: "('a \<times> 'e option) list"
  o_accounts :: account_updates
  o_validator_statuses :: validator_status_updates
  o_stakes :: stake_updates
  evidence_markers :: "evidence_marker list"
  bls_keys :: "bls_key_registration list"
  o_operator :: operator_updates
  o_assets :: asset_balance_updates
  o_holder_states :: holder_state_updates
  asset_registrations :: "asset list"
  attestor_registrations :: "attestor_registration list"
  attestor_deregistrations :: "address list"
  o_governance :: governance_updates
  weight_used :: nat
  fees_collected :: nat
  deferred :: "'a list"

definition seeded_outcome :: "block_updates \<Rightarrow> ('a, 'e) execution_outcome" where
  "seeded_outcome seed =
    \<lparr> applied = [], dropped = [],
      o_accounts = bu_accounts seed, o_validator_statuses = bu_validator_statuses seed,
      o_stakes = bu_stakes seed, evidence_markers = option_list (bu_evidence seed),
      bls_keys = option_list (bu_bls_key seed), o_operator = bu_operator seed,
      o_assets = bu_assets seed, o_holder_states = bu_holder_states seed,
      asset_registrations = option_list (bu_asset_registration seed),
      attestor_registrations = option_list (bu_attestor_registration seed),
      attestor_deregistrations = option_list (bu_attestor_deregistration seed),
      o_governance = bu_governance seed, weight_used = 0, fees_collected = 0, deferred = [] \<rparr>"

definition extend_outcome ::
  "'a \<Rightarrow> nat \<Rightarrow> nat \<Rightarrow> block_updates \<Rightarrow> ('a, 'e) execution_outcome \<Rightarrow> ('a, 'e) execution_outcome" where
  "extend_outcome act used fee u out =
    out\<lparr> o_accounts := bt_extend (o_accounts out) (bu_accounts u),
         o_validator_statuses := bt_extend (o_validator_statuses out) (bu_validator_statuses u),
         o_stakes := \<lparr> allocations = bt_extend (allocations (o_stakes out)) (allocations (bu_stakes u)),
                       validator_index = bt_extend (validator_index (o_stakes out)) (validator_index (bu_stakes u)) \<rparr>,
         evidence_markers := evidence_markers out @ option_list (bu_evidence u),
         bls_keys := bls_keys out @ option_list (bu_bls_key u),
         o_operator := \<lparr> authorization = bt_extend (authorization (o_operator out)) (authorization (bu_operator u)),
                         operator_index = bt_extend (operator_index (o_operator out)) (operator_index (bu_operator u)) \<rparr>,
         o_assets := bt_extend (o_assets out) (bu_assets u),
         o_holder_states := bt_extend (o_holder_states out) (bu_holder_states u),
         asset_registrations := asset_registrations out @ option_list (bu_asset_registration u),
         attestor_registrations := attestor_registrations out @ option_list (bu_attestor_registration u),
         attestor_deregistrations := attestor_deregistrations out @ option_list (bu_attestor_deregistration u),
         o_governance := o_governance out @ bu_governance u,
         weight_used := used,
         fees_collected := saturating_add u128_max (fees_collected out) fee,
         applied := applied out @ [act] \<rparr>"

section \<open>The action loop\<close>

text \<open>The view the loop starts from: the database under the seed batch.\<close>

definition seeded_view :: "view \<Rightarrow> block_updates \<Rightarrow> view" where
  "seeded_view db seed =
    (let v = apply_accounts db (bu_accounts seed);
         v = apply_stakes v (bu_stakes seed);
         v = apply_asset_balances v (bu_assets seed);
         v = apply_holder_states v (bu_holder_states seed);
         v = apply_validator_statuses v (bu_validator_statuses seed);
         v = apply_opt apply_attestor_registration (bu_attestor_registration seed) v;
         v = apply_opt apply_attestor_deregistration (bu_attestor_deregistration seed) v
     in apply_governance v (bu_governance seed))"

definition verified ::
  "('p action \<Rightarrow> bool) \<Rightarrow> ('p action \<Rightarrow> programmable_account \<Rightarrow> bool) \<Rightarrow> view \<Rightarrow> 'p action \<Rightarrow> bool" where
  "verified presigned policy_signed v act =
    (case Option.bind (v_account v (act_sender act)) programmable of
       Some pol \<Rightarrow> policy_signed act pol
     | None \<Rightarrow> presigned act)"

fun execute_loop ::
  "('p action \<Rightarrow> bool) \<Rightarrow> ('p action \<Rightarrow> programmable_account \<Rightarrow> bool) \<Rightarrow>
   ('p action \<Rightarrow> view \<Rightarrow> ('e, block_updates) result) \<Rightarrow> ('p action \<Rightarrow> nat \<times> nat) \<Rightarrow> nat \<Rightarrow>
   'p action list \<Rightarrow> view \<Rightarrow> ('p action, 'e) execution_outcome \<Rightarrow>
   (never, view \<times> ('p action, 'e) execution_outcome) result" where
  "execute_loop presigned policy_signed dispatch meter max_weight [] v out = Ok (v, out)"
| "execute_loop presigned policy_signed dispatch meter max_weight (act # actions) v out =
    (if \<not> verified presigned policy_signed v act
     then execute_loop presigned policy_signed dispatch meter max_weight actions v
            (out\<lparr> dropped := dropped out @ [(act, None)] \<rparr>)
     else
      (case meter act of
         (weight, fee) \<Rightarrow>
         if max_weight < saturating_add u64_max (weight_used out) weight
         then Ok (v, out\<lparr> deferred := act # actions \<rparr>)
         else
          (case dispatch act v of
             Ok u \<Rightarrow>
               and_then (add_or_panic u64_max (weight_used out) weight) (\<lambda>used.
               execute_loop presigned policy_signed dispatch meter max_weight actions
                 (absorb_updates v u) (extend_outcome act used fee u out))
           | Err e \<Rightarrow>
               execute_loop presigned policy_signed dispatch meter max_weight actions v
                 (out\<lparr> dropped := dropped out @ [(act, Some e)] \<rparr>)
           | Panic \<Rightarrow> Panic)))"

definition execute_actions ::
  "('p action \<Rightarrow> bool) \<Rightarrow> ('p action \<Rightarrow> programmable_account \<Rightarrow> bool) \<Rightarrow>
   ('p action \<Rightarrow> view \<Rightarrow> ('e, block_updates) result) \<Rightarrow> ('p action \<Rightarrow> nat \<times> nat) \<Rightarrow>
   view \<Rightarrow> 'p action list \<Rightarrow> block_updates \<Rightarrow>
   (never, view \<times> ('p action, 'e) execution_outcome) result" where
  "execute_actions presigned policy_signed dispatch meter db actions seed =
    execute_loop presigned policy_signed dispatch meter (max_block_weight (chain_params_of db)) actions
      (seeded_view db seed) (seeded_outcome seed)"

text \<open>The view \<open>on_block_sealed\<close> reads through, rebuilt from the overlays.\<close>

definition seal_view :: "view \<Rightarrow> ('a, 'e) execution_outcome \<Rightarrow> view" where
  "seal_view db out =
    (let v = apply_accounts db (o_accounts out);
         v = apply_stakes v (o_stakes out);
         v = apply_asset_balances v (o_assets out);
         v = apply_holder_states v (o_holder_states out);
         v = apply_validator_statuses v (o_validator_statuses out);
         v = fold (\<lambda>r v. apply_attestor_registration v r) (attestor_registrations out) v;
         v = fold (\<lambda>d v. apply_attestor_deregistration v d) (attestor_deregistrations out) v
     in apply_governance v (o_governance out))"

section \<open>Committing a block\<close>

definition apply_evidence :: "view \<Rightarrow> evidence_marker \<Rightarrow> view" where
  "apply_evidence v m =
    (let v = v\<lparr> v_evidence_marker := (v_evidence_marker v)((em_height m, em_proposer m) \<mapsto> ()) \<rparr> in
     case em_disputed m of
       None \<Rightarrow> v
     | Some header \<Rightarrow>
       v\<lparr> v_disputed_block := (v_disputed_block v)((em_height m, header) \<mapsto> ()),
          v_dispute_open := (v_dispute_open v)((em_height m, header) \<mapsto>
            \<lparr> culprit = em_proposer m,
              challenger = unwrap_or (em_proposer m) (em_challenger m),
              cause = unwrap_or Bug (em_cause m) \<rparr>) \<rparr>)"

definition apply_validator_set :: "nat \<Rightarrow> view \<Rightarrow> validator_set \<Rightarrow> view" where
  "apply_validator_set effective_height v s =
    v\<lparr> v_validator_set := (v_validator_set v)(effective_height \<mapsto> s) \<rparr>"

text \<open>
  The write batch of \<open>accept_block\<close> in its order: typed rows, validator set, evidence, keys, asset and
  attestor rows, operators, and the governance rows last. The read-side index rows (\<^verbatim>\<open>CF_META\<close>) and
  the block record itself are left out.
\<close>

definition commit_typed :: "view \<Rightarrow> ('a, 'e) execution_outcome \<Rightarrow> block_updates \<Rightarrow> view" where
  "commit_typed db out sealed =
    (let v = apply_accounts db (bt_extend (o_accounts out) (bu_accounts sealed));
         v = apply_stakes v
               \<lparr> allocations = bt_extend (allocations (o_stakes out)) (allocations (bu_stakes sealed)),
                 validator_index = bt_extend (validator_index (o_stakes out)) (validator_index (bu_stakes sealed)) \<rparr>;
         v = apply_asset_balances v (bt_extend (o_assets out) (bu_assets sealed));
         v = apply_holder_states v (o_holder_states out)
     in apply_validator_statuses v (bt_extend (o_validator_statuses out) (bu_validator_statuses sealed)))"

definition commit_block ::
  "view \<Rightarrow> nat \<Rightarrow> ('a, 'e) execution_outcome \<Rightarrow> block_updates \<Rightarrow> (never, view) result" where
  "commit_block db height out sealed =
    and_then (case bu_validator_set sealed of
                Some s \<Rightarrow> and_then (add_or_panic u64_max height 1) (\<lambda>h. Ok (Some (h, s)))
              | None \<Rightarrow> Ok None) (\<lambda>snapshot.
    (let v = commit_typed db out sealed;
         v = (case snapshot of Some (h, s) \<Rightarrow> apply_validator_set h v s | None \<Rightarrow> v);
         v = fold (\<lambda>m v. apply_evidence v m) (evidence_markers out) v;
         v = fold (\<lambda>k v. apply_bls_key v k) (bls_keys out) v;
         v = fold (\<lambda>a v. apply_asset_registration v a) (asset_registrations out) v;
         v = fold (\<lambda>r v. apply_attestor_registration v r) (attestor_registrations out) v;
         v = fold (\<lambda>d v. apply_attestor_deregistration v d) (attestor_deregistrations out) v;
         v = apply_operator v (o_operator out)
     in Ok (apply_governance v (o_governance out @ bu_governance sealed))))"

section \<open>What the loop accounts for\<close>

text \<open>
  How a run of the loop from \<open>out\<close> to \<open>out'\<close> disposes of its actions: a prefix is applied or dropped,
  in order, and the rest is deferred.
\<close>

definition loop_accounts ::
  "('a \<Rightarrow> nat \<times> nat) \<Rightarrow> nat \<Rightarrow> 'a list \<Rightarrow> ('a, 'e) execution_outcome \<Rightarrow> ('a, 'e) execution_outcome \<Rightarrow> bool" where
  "loop_accounts meter M actions out out' \<longleftrightarrow>
    (\<exists>taken xs ds. actions = taken @ deferred out' \<and>
      applied out' = applied out @ xs \<and> dropped out' = dropped out @ ds \<and>
      subseq xs taken \<and> mset taken = mset xs + mset (map fst ds) \<and>
      weight_used out' = weight_used out + (\<Sum>a\<leftarrow>xs. fst (meter a)) \<and>
      (fees_collected out \<le> u128_max \<longrightarrow>
         fees_collected out' = min u128_max (fees_collected out + (\<Sum>a\<leftarrow>xs. snd (meter a)))) \<and>
      (weight_used out \<le> M \<longrightarrow> weight_used out' \<le> M) \<and>
      (deferred out' \<noteq> [] \<longrightarrow> M < weight_used out' + fst (meter (hd (deferred out')))))"

lemma loop_accounts_Nil: "deferred out = [] \<Longrightarrow> loop_accounts meter M [] out out"
  by (auto simp: loop_accounts_def)

lemma loop_accounts_defer:
  "deferred out = [] \<Longrightarrow> M < weight_used out + fst (meter a) \<Longrightarrow>
   loop_accounts meter M (a # actions) out (out\<lparr> deferred := a # actions \<rparr>)"
  by (auto simp: loop_accounts_def)

lemma loop_accounts_drop:
  assumes "loop_accounts meter M actions (out\<lparr> dropped := dropped out @ [(a, e)] \<rparr>) out'"
  shows "loop_accounts meter M (a # actions) out out'"
proof -
  let ?o = "out\<lparr> dropped := dropped out @ [(a, e)] \<rparr>"
  from assms obtain taken xs ds where x: "actions = taken @ deferred out'" "applied out' = applied ?o @ xs"
    "dropped out' = dropped ?o @ ds" "subseq xs taken" "mset taken = mset xs + mset (map fst ds)"
    "weight_used out' = weight_used ?o + (\<Sum>a\<leftarrow>xs. fst (meter a))"
    "fees_collected ?o \<le> u128_max \<longrightarrow>
         fees_collected out' = min u128_max (fees_collected ?o + (\<Sum>a\<leftarrow>xs. snd (meter a)))"
    "weight_used ?o \<le> M \<longrightarrow> weight_used out' \<le> M"
    "deferred out' \<noteq> [] \<longrightarrow> M < weight_used out' + fst (meter (hd (deferred out')))"
    unfolding loop_accounts_def by blast
  then show ?thesis unfolding loop_accounts_def
    by (intro exI [of _ "a # taken"] exI [of _ xs] exI [of _ "(a, e) # ds"]) auto
qed

lemma loop_accounts_apply:
  assumes "loop_accounts meter M actions (extend_outcome a (weight_used out + w) f u out) out'"
    and "meter a = (w, f)" and "weight_used out + w \<le> M"
  shows "loop_accounts meter M (a # actions) out out'"
proof -
  let ?o = "extend_outcome a (weight_used out + w) f u out"
  have o: "applied ?o = applied out @ [a]" "dropped ?o = dropped out" "weight_used ?o = weight_used out + w"
    "fees_collected ?o = min u128_max (fees_collected out + f)"
    by (simp_all add: extend_outcome_def saturating_add_def)
  from assms(1) obtain taken xs ds where x: "actions = taken @ deferred out'" "applied out' = applied ?o @ xs"
    "dropped out' = dropped ?o @ ds" "subseq xs taken" "mset taken = mset xs + mset (map fst ds)"
    "weight_used out' = weight_used ?o + (\<Sum>a\<leftarrow>xs. fst (meter a))"
    "fees_collected ?o \<le> u128_max \<longrightarrow>
         fees_collected out' = min u128_max (fees_collected ?o + (\<Sum>a\<leftarrow>xs. snd (meter a)))"
    "weight_used ?o \<le> M \<longrightarrow> weight_used out' \<le> M"
    "deferred out' \<noteq> [] \<longrightarrow> M < weight_used out' + fst (meter (hd (deferred out')))"
    unfolding loop_accounts_def by blast
  from x(7) have "fees_collected out' = min u128_max (fees_collected out + (f + (\<Sum>a\<leftarrow>xs. snd (meter a))))"
    by (simp add: o(4) min_def)
  with x assms(2,3) o show ?thesis unfolding loop_accounts_def
    by (intro exI [of _ "a # taken"] exI [of _ "a # xs"] exI [of _ ds]) auto
qed

lemma execute_loop_ConsE:
  assumes "execute_loop pre pol dispatch meter M (a # actions) v out = Ok (v', out')"
  obtains
    (skip) e where "execute_loop pre pol dispatch meter M actions v
        (out\<lparr> dropped := dropped out @ [(a, e)] \<rparr>) = Ok (v', out')"
  | (full) "M < weight_used out + fst (meter a)" "v' = v" "out' = out\<lparr> deferred := a # actions \<rparr>"
  | (go) u where "verified pre pol v a" "dispatch a v = Ok u"
      "weight_used out + fst (meter a) \<le> M" "weight_used out + fst (meter a) \<le> u64_max"
      "execute_loop pre pol dispatch meter M actions (absorb_updates v u)
          (extend_outcome a (weight_used out + fst (meter a)) (snd (meter a)) u out) = Ok (v', out')"
proof -
  obtain w f where m: "meter a = (w, f)" by fastforce
  note run = assms [unfolded execute_loop.simps m prod.case]
  show thesis
  proof (cases "verified pre pol v a")
    case False
    then show thesis using run skip by simp
  next
    case ver: True
    show thesis
    proof (cases "M < saturating_add u64_max (weight_used out) w")
      case True
      then have "M < weight_used out + w" by (auto simp: saturating_add_def)
      then show thesis using run ver True full by (simp add: m)
    next
      case False
      then show thesis
        using run ver skip go m by (cases "dispatch a v") (auto simp: saturating_add_def not_less)
    qed
  qed
qed

lemma execute_loop_accounts:
  assumes "execute_loop pre pol dispatch meter M actions v out = Ok (v', out')" and "deferred out = []"
  shows "loop_accounts meter M actions out out'"
  using assms
proof (induction actions arbitrary: v out)
  case Nil
  then show ?case by (simp add: loop_accounts_Nil)
next
  case (Cons a actions)
  from Cons.prems(1) show ?case
  proof (cases rule: execute_loop_ConsE)
    case (skip e)
    have "loop_accounts meter M actions (out\<lparr> dropped := dropped out @ [(a, e)] \<rparr>) out'"
      using Cons.IH [OF skip] Cons.prems(2) by simp
    then show ?thesis by (rule loop_accounts_drop)
  next
    case full
    then show ?thesis using Cons.prems(2) by (auto intro!: loop_accounts_defer)
  next
    case (go u)
    have "loop_accounts meter M actions
        (extend_outcome a (weight_used out + fst (meter a)) (snd (meter a)) u out) out'"
      using Cons.IH [OF go(5)] Cons.prems(2) by (simp add: extend_outcome_def)
    then show ?thesis using go(3) by (intro loop_accounts_apply) auto
  qed
qed

text \<open>Running only the actions that were applied reproduces the run.\<close>

lemma execute_loop_replay:
  assumes "execute_loop pre pol dispatch meter M actions v out = Ok (v', out')"
  shows "\<exists>xs. applied out' = applied out @ xs \<and>
    (\<forall>d. execute_loop pre pol dispatch meter M xs v (out\<lparr> dropped := d \<rparr>) =
           Ok (v', out'\<lparr> dropped := d, deferred := deferred out \<rparr>))"
  using assms
proof (induction actions arbitrary: v out)
  case (Cons a actions)
  from Cons.prems(1) show ?case
  proof (cases rule: execute_loop_ConsE)
    case (skip e)
    from Cons.IH [OF skip] show ?thesis by simp
  next
    case full
    then show ?thesis by simp
  next
    case (go u)
    define o1 where "o1 = extend_outcome a (weight_used out + fst (meter a)) (snd (meter a)) u out"
    have ext: "extend_outcome a (weight_used out + fst (meter a)) (snd (meter a)) u (out\<lparr> dropped := d \<rparr>)
        = o1\<lparr> dropped := d \<rparr>" for d
      by (simp add: o1_def extend_outcome_def)
    have o: "applied o1 = applied out @ [a]" "deferred o1 = deferred out"
      by (simp_all add: o1_def extend_outcome_def)
    from Cons.IH [OF go(5)] obtain xs where xs: "applied out' = applied o1 @ xs"
      "\<forall>d. execute_loop pre pol dispatch meter M xs (absorb_updates v u) (o1\<lparr> dropped := d \<rparr>) =
         Ok (v', out'\<lparr> dropped := d, deferred := deferred o1 \<rparr>)" unfolding o1_def by blast
    have le: "\<not> M < saturating_add u64_max (weight_used out) (fst (meter a))"
      using go(3,4) by (simp add: saturating_add_def)
    have "execute_loop pre pol dispatch meter M (a # xs) v (out\<lparr> dropped := d \<rparr>) =
        Ok (v', out'\<lparr> dropped := d, deferred := deferred out \<rparr>)" for d
      using go(1,2,4) le xs(2) by (simp add: case_prod_beta o ext add_or_panic_def checked_add_def expect_def)
    with xs(1) o show ?thesis by (intro exI [of _ "a # xs"]) simp
  qed
qed simp

section \<open>The view the seal reads\<close>

text \<open>The \<open>BTreeMap\<close>s of a batch are ordered maps; here that is a property of the model's lists.\<close>

definition wf_updates :: "block_updates \<Rightarrow> bool" where
  "wf_updates u \<longleftrightarrow>
     bt_wf (bu_accounts u) \<and> bt_wf (bu_validator_statuses u) \<and>
     bt_wf (allocations (bu_stakes u)) \<and> bt_wf (validator_index (bu_stakes u)) \<and>
     bt_wf (bu_assets u) \<and> bt_wf (bu_holder_states u) \<and>
     bt_wf (authorization (bu_operator u)) \<and> bt_wf (operator_index (bu_operator u))"

text \<open>The rows only governance writes touch, and the writes to rows that typed batches touch too.\<close>

definition gov_rows :: "view \<Rightarrow> _" where
  "gov_rows v = (v_unbonding_due v, v_validator_candidates v, v_chain_params v, v_proposal v, v_vote v,
     v_next_proposal_id v, v_dispute_open v, v_attestor_name v)"

fun writes_status :: "gov_write \<Rightarrow> bool" where
  "writes_status (DeleteValidatorStatus a) = True"
| "writes_status g = False"

fun writes_attestor :: "gov_write \<Rightarrow> bool" where
  "writes_attestor (PutAttestorRecord a r) = True"
| "writes_attestor (DeleteAttestorRecord a) = True"
| "writes_attestor g = False"

lemma apply_gov_write_rows:
  "gov_rows v = gov_rows w \<Longrightarrow> gov_rows (apply_gov_write g v) = gov_rows (apply_gov_write g w)"
  by (cases g) (simp_all add: gov_rows_def)

lemma apply_governance_rows:
  "gov_rows v = gov_rows w \<Longrightarrow> gov_rows (apply_governance v gs) = gov_rows (apply_governance w gs)"
proof (induction gs arbitrary: v w)
  case (Cons g gs)
  from Cons.IH [OF apply_gov_write_rows [OF Cons.prems, of g]] show ?case by simp
qed simp

lemma apply_governance_status:
  "\<not> list_ex writes_status gs \<Longrightarrow> v_validator_status (apply_governance v gs) = v_validator_status v"
  unfolding apply_governance_def
proof (induction gs arbitrary: v)
  case (Cons g gs)
  then show ?case by (cases g) simp_all
qed simp

lemma apply_governance_attestor:
  "\<not> list_ex writes_attestor gs \<Longrightarrow> v_attestor_record (apply_governance v gs) = v_attestor_record v"
  unfolding apply_governance_def
proof (induction gs arbitrary: v)
  case (Cons g gs)
  then show ?case by (cases g) simp_all
qed simp

lemma list_row_extend: "bt_wf n \<Longrightarrow> list_row m (bt_extend u n) = list_row (list_row m u) n"
  by (rule ext) (auto simp: list_row_def map_of_bt_extend map_add_def split: option.splits)

lemmas absorb_rows = absorb_updates_def apply_opt_def apply_validator_statuses_def apply_bls_key_def
  apply_operator_def apply_holder_states_def apply_asset_registration_def
  apply_attestor_registration_def apply_attestor_deregistration_def apply_asset_balances_def
  apply_stakes_def apply_accounts_def Let_def

lemma absorb_updates_rows:
  "v_account (absorb_updates v u) = v_account v ++ map_of (bu_accounts u)"
  "v_stake (absorb_updates v u) = overlay (v_stake v) (allocations (bu_stakes u))"
  "v_stake_by_validator (absorb_updates v u) = list_row (v_stake_by_validator v) (validator_index (bu_stakes u))"
  "v_asset_balance (absorb_updates v u) = v_asset_balance v ++ map_of (bu_assets u)"
  "v_asset_holder_state (absorb_updates v u) = v_asset_holder_state v ++ map_of (bu_holder_states u)"
  "gov_rows (absorb_updates v u) = gov_rows (apply_governance v (bu_governance u))"
  "\<not> list_ex writes_status (bu_governance u) \<Longrightarrow>
     v_validator_status (absorb_updates v u) = overlay (v_validator_status v) (bu_validator_statuses u)"
  "\<not> list_ex writes_attestor (bu_governance u) \<Longrightarrow> bu_attestor_deregistration u = None \<Longrightarrow>
     v_attestor_record (absorb_updates v u) =
       fold (\<lambda>r m. m(ar_attestor r \<mapsto> ar_record r)) (option_list (bu_attestor_registration u)) (v_attestor_record v)"
proof -
  show "gov_rows (absorb_updates v u) = gov_rows (apply_governance v (bu_governance u))"
    unfolding absorb_updates_def Let_def
    by (rule apply_governance_rows)
       (simp add: gov_rows_def absorb_rows split: option.splits)
qed (simp_all add: absorb_rows apply_governance_status apply_governance_attestor split: option.splits)

text \<open>How the loop's view and the block's overlays hang together at every step.\<close>

definition tracks :: "view \<Rightarrow> view \<Rightarrow> ('a, 'e) execution_outcome \<Rightarrow> bool" where
  "tracks db v out \<longleftrightarrow>
     v_account v = v_account db ++ map_of (o_accounts out) \<and>
     v_stake v = overlay (v_stake db) (allocations (o_stakes out)) \<and>
     v_stake_by_validator v = list_row (v_stake_by_validator db) (validator_index (o_stakes out)) \<and>
     v_asset_balance v = v_asset_balance db ++ map_of (o_assets out) \<and>
     v_asset_holder_state v = v_asset_holder_state db ++ map_of (o_holder_states out) \<and>
     gov_rows v = gov_rows (apply_governance db (o_governance out)) \<and>
     (\<not> list_ex writes_status (o_governance out) \<longrightarrow>
        v_validator_status v = overlay (v_validator_status db) (o_validator_statuses out)) \<and>
     (\<not> list_ex writes_attestor (o_governance out) \<and> attestor_deregistrations out = [] \<longrightarrow>
        v_attestor_record v =
          fold (\<lambda>r m. m(ar_attestor r \<mapsto> ar_record r)) (attestor_registrations out) (v_attestor_record db))"

lemma tracks_step:
  assumes "tracks db v out" and "wf_updates u"
  shows "tracks db (absorb_updates v u) (extend_outcome a w f u out)"
proof -
  have "gov_rows (absorb_updates v u) = gov_rows (apply_governance db (o_governance out @ bu_governance u))"
    unfolding absorb_updates_rows(6) apply_governance_append
    by (rule apply_governance_rows) (use assms(1) in \<open>simp add: tracks_def\<close>)
  moreover have "v_validator_status (absorb_updates v u) =
      overlay (v_validator_status db) (bt_extend (o_validator_statuses out) (bu_validator_statuses u))"
    if "\<not> list_ex writes_status (o_governance out @ bu_governance u)"
    using that assms by (simp add: absorb_updates_rows(7) tracks_def wf_updates_def overlay_extend)
  moreover have "v_attestor_record (absorb_updates v u) =
      fold (\<lambda>r m. m(ar_attestor r \<mapsto> ar_record r))
        (attestor_registrations out @ option_list (bu_attestor_registration u)) (v_attestor_record db)"
    if "\<not> list_ex writes_attestor (o_governance out @ bu_governance u)"
      "attestor_deregistrations out @ option_list (bu_attestor_deregistration u) = []"
  proof -
    have "bu_attestor_deregistration u = None" using that(2) by (cases "bu_attestor_deregistration u") simp_all
    then show ?thesis using that assms by (simp add: absorb_updates_rows(8) tracks_def)
  qed
  ultimately show ?thesis
    using assms unfolding tracks_def extend_outcome_def wf_updates_def
    by (simp add: absorb_updates_rows(1-5) map_of_bt_extend overlay_extend list_row_extend)
qed

lemma tracks_seed: "tracks db (seeded_view db seed) (seeded_outcome seed)"
proof -
  have "gov_rows (seeded_view db seed) = gov_rows (apply_governance db (bu_governance seed))"
    unfolding seeded_view_def Let_def
    by (rule apply_governance_rows) (simp add: gov_rows_def absorb_rows split: option.splits)
  then show ?thesis
    unfolding tracks_def seeded_outcome_def
    by (cases "bu_attestor_registration seed"; cases "bu_attestor_deregistration seed")
       (simp_all add: seeded_view_def absorb_rows apply_governance_status apply_governance_attestor)
qed

lemma execute_loop_tracks:
  assumes "execute_loop pre pol dispatch meter M actions v out = Ok (v', out')" and "tracks db v out"
    and "\<And>a v u. dispatch a v = Ok u \<Longrightarrow> wf_updates u"
  shows "tracks db v' out'"
  using assms(1,2)
proof (induction actions arbitrary: v out)
  case (Cons a actions)
  from Cons.prems(1) show ?case
  proof (cases rule: execute_loop_ConsE)
    case (skip e)
    show ?thesis by (rule Cons.IH [OF skip]) (use Cons.prems(2) in \<open>simp add: tracks_def\<close>)
  next
    case full
    then show ?thesis using Cons.prems(2) by (simp add: tracks_def)
  next
    case (go u)
    show ?thesis by (rule Cons.IH [OF go(5) tracks_step [OF Cons.prems(2) assms(3) [OF go(2)]]])
  qed
qed simp

text \<open>The rows the seal reads, in a view rebuilt from the overlays.\<close>

lemma fold_attestor_registration:
  "fold (\<lambda>r v. apply_attestor_registration v r) rs v =
   v\<lparr> v_attestor_record := fold (\<lambda>r m. m(ar_attestor r \<mapsto> ar_record r)) rs (v_attestor_record v) \<rparr>"
  by (induction rs arbitrary: v) (simp_all add: apply_attestor_registration_def)

lemma fold_attestor_deregistration:
  "fold (\<lambda>d v. apply_attestor_deregistration v d) ds v =
   v\<lparr> v_attestor_record := fold (\<lambda>d m. m(d := None)) ds (v_attestor_record v) \<rparr>"
  by (induction ds arbitrary: v) (simp_all add: apply_attestor_deregistration_def)

lemma seal_view_tracks: "tracks db (seal_view db out) out"
proof -
  note sv = seal_view_def Let_def fold_attestor_registration fold_attestor_deregistration
  have "gov_rows (seal_view db out) = gov_rows (apply_governance db (o_governance out))"
    unfolding sv by (rule apply_governance_rows) (simp add: gov_rows_def absorb_rows)
  then show ?thesis
    unfolding tracks_def sv
    by (simp add: absorb_rows apply_governance_status apply_governance_attestor)
qed

section \<open>Properties\<close>

text \<open>
  C11: the action loop accounts for every action of the block. A prefix of the block is either
  applied, in the order given, or dropped with a reason, and the rest is deferred untouched. The
  weight used is the sum over the applied actions and never exceeds \<open>max_block_weight\<close>, the first
  deferred action would have exceeded it, and the fees collected are the fees of the applied
  actions (capped at the largest \<open>u128\<close>).
\<close>

theorem execute_actions_accounts_for_all:
  assumes "execute_actions presigned policy_signed dispatch meter db actions seed = Ok (v, out)"
  shows "(\<exists>taken. actions = taken @ deferred out \<and> subseq (applied out) taken \<and>
      mset taken = mset (applied out) + mset (map fst (dropped out))) \<and>
    weight_used out = (\<Sum>a\<leftarrow>applied out. fst (meter a)) \<and>
    weight_used out \<le> max_block_weight (chain_params_of db) \<and>
    (deferred out \<noteq> [] \<longrightarrow>
      max_block_weight (chain_params_of db) < weight_used out + fst (meter (hd (deferred out)))) \<and>
    fees_collected out = min u128_max (\<Sum>a\<leftarrow>applied out. snd (meter a))"
proof -
  let ?o = "seeded_outcome seed"
  have o: "deferred ?o = []" "applied ?o = []" "dropped ?o = []" "weight_used ?o = 0" "fees_collected ?o = 0"
    by (simp_all add: seeded_outcome_def)
  have "loop_accounts meter (max_block_weight (chain_params_of db)) actions ?o out"
    using assms o(1) unfolding execute_actions_def by (rule execute_loop_accounts)
  then show ?thesis unfolding loop_accounts_def o by auto
qed

definition sample_action :: "nat \<Rightarrow> nat action" where
  "sample_action n = \<lparr> act_sender = sample_alice, act_nonce = n, act_signature = None, act_payload = n \<rparr>"

text \<open>A toy chain for the witnesses: payload 1 is rejected, any other one sets a balance.\<close>

definition sample_dispatch :: "nat action \<Rightarrow> view \<Rightarrow> (nat, block_updates) result" where
  "sample_dispatch a v =
    (if act_payload a = 1 then Err 1
     else Ok (default_updates\<lparr> bu_accounts := [(sample_alice, default_account\<lparr> balance := act_payload a \<rparr>)] \<rparr>))"

definition sample_db :: view where
  "sample_db = empty_view\<lparr> v_chain_params := Some (default_chain_params\<lparr> max_block_weight := 10 \<rparr>) \<rparr>"

definition sample_block :: "nat action list" where
  "sample_block = [sample_action 0, sample_action 1, sample_action 2, sample_action 3]"

lemma sample_run:
  "\<exists>v out. execute_actions (\<lambda>_. True) (\<lambda>_ _. True) sample_dispatch (\<lambda>_. (4, 5)) sample_db sample_block
       default_updates = Ok (v, out) \<and>
     applied out = [sample_action 0, sample_action 2] \<and> deferred out = [sample_action 3]"
  by (simp add: execute_actions_def sample_block_def sample_db_def sample_dispatch_def sample_action_def
      chain_params_of_def default_chain_params_def seeded_outcome_def seeded_view_def default_updates_def
      empty_view_def absorb_rows verified_def default_account_def extend_outcome_def saturating_add_def
      add_or_panic_def checked_add_def expect_def u64_max_def bt_extend_def bt_insert.simps no_stakes_def
      no_operators_def)

theorem execute_actions_accounts_for_all_witness:
  "\<exists>v out. execute_actions (\<lambda>_. True) (\<lambda>_ _. True) sample_dispatch (\<lambda>_. (4, 5)) sample_db sample_block
       default_updates = Ok (v, out) \<and> weight_used out = 8 \<and> fees_collected out = 10"
proof -
  from sample_run obtain v out where r: "execute_actions (\<lambda>_. True) (\<lambda>_ _. True) sample_dispatch
      (\<lambda>_. (4, 5)) sample_db sample_block default_updates = Ok (v, out)"
    "applied out = [sample_action 0, sample_action 2]" by blast
  from execute_actions_accounts_for_all [OF r(1)] r show ?thesis by (auto simp: u128_max_def)
qed

text \<open>
  A producer's block is accepted. Executing just the actions a run applied, from the same state,
  drops and defers nothing and reproduces the run: the same final view, the same overlays, the same
  weight and fees. This is what \<open>accept_block\<close> demands of a block (\<open>ActionMismatch\<close>,
  \<open>BlockOverWeight\<close> and the state root), so dropped actions leave no trace.
\<close>

theorem producing_then_accepting:
  assumes "execute_actions presigned policy_signed dispatch meter db actions seed = Ok (v, out)"
  shows "execute_actions presigned policy_signed dispatch meter db (applied out) seed =
    Ok (v, out\<lparr> dropped := [], deferred := [] \<rparr>)"
proof -
  let ?o = "seeded_outcome seed"
  have o: "deferred ?o = []" "applied ?o = []" "?o\<lparr> dropped := [] \<rparr> = ?o"
    by (simp_all add: seeded_outcome_def)
  from execute_loop_replay [OF assms [unfolded execute_actions_def]] o show ?thesis
    unfolding execute_actions_def by (metis append_Nil)
qed

theorem producing_then_accepting_witness:
  "\<exists>v out. execute_actions (\<lambda>_. True) (\<lambda>_ _. True) sample_dispatch (\<lambda>_. (4, 5)) sample_db
       [sample_action 0, sample_action 2] default_updates = Ok (v, out) \<and> dropped out = []"
proof -
  from sample_run obtain v out where r: "execute_actions (\<lambda>_. True) (\<lambda>_ _. True) sample_dispatch
      (\<lambda>_. (4, 5)) sample_db sample_block default_updates = Ok (v, out)"
    "applied out = [sample_action 0, sample_action 2]" by blast
  from producing_then_accepting [OF r(1)] r(2) show ?thesis by auto
qed

text \<open>
  The seal reads what the actions left. The view rebuilt from the block's overlays has the same
  accounts, stakes, asset balances, holder states and governance rows as the view the last action
  left. Status rows agree too when no action of the block deleted one through a governance write,
  and attestor records when no action wrote one through governance or deregistered one: those rows
  are committed after the typed ones whatever the order of the actions.
\<close>

theorem seal_view_reads_actions:
  assumes "execute_actions presigned policy_signed dispatch meter db actions seed = Ok (v, out)"
    and "\<forall>a v u. dispatch a v = Ok u \<longrightarrow> wf_updates u"
  shows "v_account (seal_view db out) = v_account v \<and> v_stake (seal_view db out) = v_stake v \<and>
    v_stake_by_validator (seal_view db out) = v_stake_by_validator v \<and>
    v_asset_balance (seal_view db out) = v_asset_balance v \<and>
    v_asset_holder_state (seal_view db out) = v_asset_holder_state v \<and>
    gov_rows (seal_view db out) = gov_rows v \<and>
    (\<not> list_ex writes_status (o_governance out) \<longrightarrow>
       v_validator_status (seal_view db out) = v_validator_status v) \<and>
    (\<not> list_ex writes_attestor (o_governance out) \<and> attestor_deregistrations out = [] \<longrightarrow>
       v_attestor_record (seal_view db out) = v_attestor_record v)"
proof -
  have "tracks db v out"
    using assms(1) unfolding execute_actions_def
    by (rule execute_loop_tracks [OF _ tracks_seed]) (use assms(2) in blast)
  with seal_view_tracks [of db out] show ?thesis unfolding tracks_def by presburger
qed

theorem seal_view_reads_actions_witness:
  "\<exists>v out. execute_actions (\<lambda>_. True) (\<lambda>_ _. True) sample_dispatch (\<lambda>_. (4, 5)) sample_db sample_block
       default_updates = Ok (v, out) \<and> v_account (seal_view sample_db out) = v_account v"
proof -
  from sample_run obtain v out where r: "execute_actions (\<lambda>_. True) (\<lambda>_ _. True) sample_dispatch
      (\<lambda>_. (4, 5)) sample_db sample_block default_updates = Ok (v, out)" by blast
  have "\<forall>a w u. sample_dispatch a w = Ok u \<longrightarrow> wf_updates u"
    by (auto simp: sample_dispatch_def wf_updates_def default_updates_def no_stakes_def
        no_operators_def bt_wf_def split: if_splits)
  from seal_view_reads_actions [OF r this] r show ?thesis by blast
qed

end
