(* ===== verification/Runtime_Staking.thy ===== *)
theory Runtime_Staking
  imports Executor Identity_Circuit Governance_Circuit
begin

text \<open>
  The staking handlers of the CoreChain runtime (\<^verbatim>\<open>src/arxd/runtime/src/staking.rs\<close>), the BLS key
  rules they share with \<^verbatim>\<open>consensus.rs\<close>, and the operator handlers of \<^verbatim>\<open>account.rs\<close>.

  A handler takes the envelope of the action (sender and nonce), the view, the fields of its
  payload and the lookups the executor passes in, and returns a \<open>block_updates\<close> batch or the error
  the action is dropped with. \<open>verify_possession\<close> stands for the BLS library's check of a proof of
  possession: \<open>Inl True\<close> for an invalid public key, \<open>Inl False\<close> for any other failure.
\<close>

section \<open>Errors\<close>

datatype runtime_error =
    NotAuthorized address address
  | TombstonedForever address
  | ValidatorNotAttested address
  | BelowMinimumStake nat nat
  | BlsKeyLength
  | BlsPopLength
  | BlsInvalidKey
  | BlsInvalidPop
  | BlsKeyTaken address
  | NotCurrentValidator address
  | LastValidator
  | NothingToUnstake address address
  | StakeNotConsented address address
  | NoOperatorToRevoke address
  | NothingToSlash address
  | NoAllocationToSlash address
  | PoolNotCredited
  | RewardOverflows address
  | RtInvalidNonce address nat nat
  | NoAccountForFee address
  | CannotPayFee nat
  | ReasonRequired string
  | RtStaking staking_error
  | RtIdentity identity_error
  | RtGovernance governance_error

section \<open>Authorization and admission\<close>

definition is_authorized :: "address \<Rightarrow> address \<Rightarrow> (address \<Rightarrow> address option) \<Rightarrow> bool" where
  "is_authorized sender validator operator_lookup \<longleftrightarrow>
     (if sender = validator then True else operator_lookup validator = Some sender)"

definition check_join_admission :: "view \<Rightarrow> address \<Rightarrow> (runtime_error, unit) result" where
  "check_join_admission v validator =
    (if v_validator_status v validator = Some Tombstoned then Err (TombstonedForever validator)
     else if validator_attestation_required (chain_params_of v) \<and> \<not> is_attested v validator
     then Err (ValidatorNotAttested validator)
     else Ok ())"

definition status_after_join :: "view \<Rightarrow> address \<Rightarrow> validator_status" where
  "status_after_join v validator =
    (case v_validator_status v validator of
       Some Active \<Rightarrow> Active
     | Some (Jailed until_epoch) \<Rightarrow> Jailed until_epoch
     | _ \<Rightarrow> Pending)"

definition validated_bls_pubkey ::
  "(string \<Rightarrow> string \<Rightarrow> bool + unit) \<Rightarrow> string \<Rightarrow> string \<Rightarrow> (runtime_error, string) result" where
  "validated_bls_pubkey verify_possession pubkey pop =
    (if length pubkey \<noteq> 48 then Err BlsKeyLength
     else if length pop \<noteq> 96 then Err BlsPopLength
     else (case verify_possession pubkey pop of
             Inl invalid_key \<Rightarrow> Err (if invalid_key then BlsInvalidKey else BlsInvalidPop)
           | Inr _ \<Rightarrow> Ok pubkey))"

definition next_epoch_start :: "view \<Rightarrow> nat \<Rightarrow> (never, nat) result" where
  "next_epoch_start v current_height =
    (let len = epoch_length (chain_params_of v) in
     and_then (boundary_of (epoch_of current_height len) len) (\<lambda>b.
     add_or_panic u64_max b 1))"

definition bls_key_free ::
  "(string \<Rightarrow> address option) \<Rightarrow> string \<Rightarrow> address \<Rightarrow> (runtime_error, unit) result" where
  "bls_key_free owner_lookup pubkey validator =
    (case owner_lookup pubkey of
       Some owner \<Rightarrow> if owner \<noteq> validator then Err (BlsKeyTaken owner) else Ok ()
     | None \<Rightarrow> Ok ())"

section \<open>Joining, leaving, staking\<close>

definition join_validator ::
  "hasher \<Rightarrow> (string \<Rightarrow> string \<Rightarrow> bool + unit) \<Rightarrow> 'p action \<Rightarrow> view \<Rightarrow> address \<Rightarrow> nat \<Rightarrow> string \<Rightarrow> string \<Rightarrow>
   (address \<Rightarrow> address option) \<Rightarrow> (string \<Rightarrow> address option) \<Rightarrow> nat \<Rightarrow> (runtime_error, block_updates) result" where
  "join_validator H verify_possession act v validator amount pubkey pop operator_lookup owner_lookup current_height =
    (if \<not> is_authorized (act_sender act) validator operator_lookup
     then Err (NotAuthorized (act_sender act) validator)
     else
      and_then (check_join_admission v validator) (\<lambda>_.
      (let existing_active = (case v_stake v (act_sender act, validator) of
                                Some a \<Rightarrow> active_amount a | None \<Rightarrow> 0);
           min_stake = min_validator_stake (chain_params_of v)
       in
       if saturating_add u128_max existing_active amount < min_stake
       then Err (BelowMinimumStake amount min_stake)
       else
        and_then (map_err RtStaking
          (apply_stake H v (act_sender act) (act_nonce act) validator amount current_height))
          (\<lambda>(accounts, stakes).
        and_then (validated_bls_pubkey verify_possession pubkey pop) (\<lambda>bytes.
        and_then (bls_key_free owner_lookup bytes validator) (\<lambda>_.
        and_then (unfailing (next_epoch_start v current_height)) (\<lambda>eff.
        Ok (default_updates\<lparr>
              bu_accounts := accounts, bu_stakes := stakes,
              bu_bls_key := Some \<lparr> bls_address = validator, bls_pubkey = bytes,
                                   bls_effective_height = eff,
                                   previous_pubkey = v_bls_key v validator \<rparr>,
              bu_validator_statuses := bt_insert validator (Some (status_after_join v validator)) [] \<rparr>)))))))) "

definition leave_validator ::
  "'p action \<Rightarrow> view \<Rightarrow> address \<Rightarrow> (address \<Rightarrow> address option) \<Rightarrow> address list \<Rightarrow> nat \<Rightarrow>
   (runtime_error, block_updates) result" where
  "leave_validator act v validator operator_lookup validators current_height =
    (if \<not> is_authorized (act_sender act) validator operator_lookup
     then Err (NotAuthorized (act_sender act) validator)
     else if validator \<notin> set validators then Err (NotCurrentValidator validator)
     else if length validators \<le> 1 then Err LastValidator
     else
      (let master = (case masters_of v validator of m # _ \<Rightarrow> m | [] \<Rightarrow> act_sender act) in
       and_then (ok_or (NothingToUnstake master validator) (v_stake v (master, validator))) (\<lambda>self_stake.
       (let sender_is_master = (master = act_sender act);
            circuit_nonce = (if sender_is_master then act_nonce act
                             else (case v_account v master of Some e \<Rightarrow> nonce e | None \<Rightarrow> 0));
            params = chain_params_of v
        in
        and_then (map_err RtStaking
          (apply_unstake v master circuit_nonce validator (active_amount self_stake) current_height
             (unbonding_blocks params)))
          (\<lambda>(accounts, stakes).
        (let accounts = (if sender_is_master then accounts else bt_remove master accounts) in
         and_then (add_or_panic u64_max (epoch_of current_height (epoch_length params)) 1) (\<lambda>from_epoch.
         Ok (default_updates\<lparr>
               bu_accounts := accounts, bu_stakes := stakes,
               bu_validator_statuses := bt_insert validator (Some (Leaving from_epoch)) [] \<rparr>)))))))) "

definition check_stake_consent ::
  "view \<Rightarrow> address \<Rightarrow> address \<Rightarrow> (address \<Rightarrow> address option) \<Rightarrow> (runtime_error, unit) result" where
  "check_stake_consent v sender validator operator_lookup =
    (if masters_of v validator = [] \<and> \<not> is_authorized sender validator operator_lookup
     then Err (StakeNotConsented validator sender) else Ok ())"

definition stake ::
  "hasher \<Rightarrow> view \<Rightarrow> 'p action \<Rightarrow> address \<Rightarrow> nat \<Rightarrow> (address \<Rightarrow> address option) \<Rightarrow> nat \<Rightarrow>
   (runtime_error, block_updates) result" where
  "stake H v act validator amount operator_lookup current_height =
    and_then (check_stake_consent v (act_sender act) validator operator_lookup) (\<lambda>_.
    and_then (map_err RtStaking
      (apply_stake H v (act_sender act) (act_nonce act) validator amount current_height))
      (\<lambda>(accounts, stakes).
    Ok (default_updates\<lparr> bu_accounts := accounts, bu_stakes := stakes \<rparr>)))"

definition unstake ::
  "view \<Rightarrow> 'p action \<Rightarrow> address \<Rightarrow> nat \<Rightarrow> nat \<Rightarrow> (runtime_error, block_updates) result" where
  "unstake v act validator amount current_height =
    (let blocks = unbonding_blocks (chain_params_of v) in
     and_then (map_err RtStaking
       (apply_unstake v (act_sender act) (act_nonce act) validator amount current_height blocks))
       (\<lambda>(accounts, stakes).
     and_then (add_or_panic u64_max current_height blocks) (\<lambda>unlock.
     Ok (default_updates\<lparr>
           bu_accounts := accounts, bu_stakes := stakes,
           bu_governance := index_unbonding v unlock (act_sender act) validator \<rparr>))))"

definition register_bls_key ::
  "(string \<Rightarrow> string \<Rightarrow> bool + unit) \<Rightarrow> 'p action \<Rightarrow> view \<Rightarrow> address \<Rightarrow> string \<Rightarrow> string \<Rightarrow> nat \<Rightarrow>
   (address \<Rightarrow> address option) \<Rightarrow> (string \<Rightarrow> address option) \<Rightarrow> (runtime_error, block_updates) result" where
  "register_bls_key verify_possession act v validator pubkey pop current_height operator_lookup owner_lookup =
    (if \<not> is_authorized (act_sender act) validator operator_lookup
     then Err (NotAuthorized (act_sender act) validator)
     else
      and_then (validated_bls_pubkey verify_possession pubkey pop) (\<lambda>bytes.
      and_then (bls_key_free owner_lookup bytes validator) (\<lambda>_.
      and_then (unfailing (next_epoch_start v current_height)) (\<lambda>eff.
      Ok (default_updates\<lparr>
            bu_bls_key := Some \<lparr> bls_address = validator, bls_pubkey = bytes,
                                 bls_effective_height = eff,
                                 previous_pubkey = v_bls_key v validator \<rparr> \<rparr>)))))"

section \<open>Operators\<close>

definition authorize_operator ::
  "'p action \<Rightarrow> address \<Rightarrow> (address \<Rightarrow> address option) \<Rightarrow> (address \<Rightarrow> address list) \<Rightarrow>
   (runtime_error, block_updates) result" where
  "authorize_operator act operator operator_lookup operator_validators_lookup =
    (let validator = act_sender act;
         index = (case operator_lookup validator of
                    Some previous \<Rightarrow>
                      if previous \<noteq> operator
                      then bt_insert previous
                             (filter (\<lambda>w. w \<noteq> validator) (operator_validators_lookup previous)) []
                      else []
                  | None \<Rightarrow> []);
         new_list = operator_validators_lookup operator;
         new_list = (if validator \<in> set new_list then new_list else new_list @ [validator])
     in Ok (default_updates\<lparr>
              bu_operator := \<lparr> authorization = bt_insert validator (Some operator) [],
                               operator_index = bt_insert operator new_list index \<rparr> \<rparr>))"

definition revoke_operator ::
  "'p action \<Rightarrow> (address \<Rightarrow> address option) \<Rightarrow> (address \<Rightarrow> address list) \<Rightarrow>
   (runtime_error, block_updates) result" where
  "revoke_operator act operator_lookup operator_validators_lookup =
    (let validator = act_sender act in
     and_then (ok_or (NoOperatorToRevoke validator) (operator_lookup validator)) (\<lambda>previous.
     Ok (default_updates\<lparr>
           bu_operator := \<lparr> authorization = bt_insert validator None [],
                            operator_index = bt_insert previous
                              (filter (\<lambda>w. w \<noteq> validator) (operator_validators_lookup previous)) [] \<rparr> \<rparr>)))"

section \<open>What a staking batch does to the view\<close>

lemma stake_inv_cong:
  assumes "v_account v = v_account w" "v_stake v = v_stake w" "v_stake_by_validator v = v_stake_by_validator w"
  shows "stake_inv H v = stake_inv H w"
  using assms by (simp add: stake_inv_def row_ok_def account_of_def)

lemma index_inv_cong:
  assumes "v_stake v = v_stake w" "v_unbonding_due v = v_unbonding_due w"
  shows "index_inv v = index_inv w"
  using assms by (simp add: index_inv_def due_list_def)

lemma absorb_is_staked:
  shows "stake_inv H (absorb_updates v u) = stake_inv H (staked v (bu_accounts u, bu_stakes u))"
    and "native_supply (absorb_updates v u) = native_supply (staked v (bu_accounts u, bu_stakes u))"
    and "v_stake (absorb_updates v u) = v_stake (staked v (bu_accounts u, bu_stakes u))"
    and "account_of (absorb_updates v u) = account_of (staked v (bu_accounts u, bu_stakes u))"
proof -
  show "stake_inv H (absorb_updates v u) = stake_inv H (staked v (bu_accounts u, bu_stakes u))"
    by (rule stake_inv_cong) (simp_all add: absorb_updates_rows staked_def)
qed (simp_all add: absorb_updates_rows staked_def native_supply_def account_of_def fun_eq_iff)

lemma absorb_due:
  "v_unbonding_due (absorb_updates v u) = v_unbonding_due (apply_governance v (bu_governance u))"
  using absorb_updates_rows(6) [of v u] by (simp add: gov_rows_def)

lemma default_updates_simps [simp]:
  "bu_accounts default_updates = []" "bu_validator_statuses default_updates = []"
  "bu_validator_set default_updates = None" "bu_stakes default_updates = no_stakes"
  "bu_evidence default_updates = None" "bu_bls_key default_updates = None"
  "bu_operator default_updates = no_operators" "bu_assets default_updates = []"
  "bu_holder_states default_updates = []" "bu_asset_registration default_updates = None"
  "bu_attestor_registration default_updates = None" "bu_attestor_deregistration default_updates = None"
  "bu_governance default_updates = []"
  by (simp_all add: default_updates_def)

section \<open>Unstaking\<close>

lemma unstake_OkE:
  assumes "unstake v act validator amount h = Ok u"
  obtains accounts stakes where
    "apply_unstake v (act_sender act) (act_nonce act) validator amount h (unbonding_blocks (chain_params_of v))
       = Ok (accounts, stakes)"
    "u = default_updates\<lparr> bu_accounts := accounts, bu_stakes := stakes,
           bu_governance := index_unbonding v (h + unbonding_blocks (chain_params_of v)) (act_sender act) validator \<rparr>"
  using assms by (auto simp: unstake_def Let_def)

lemma due_list_index:
  "due_list (apply_governance v (index_unbonding v t m w)) t' =
   (if t' = t then (if (m, w) \<in> set (due_list v t) then due_list v t else due_list v t @ [(m, w)])
    else due_list v t')"
  by (simp add: index_unbonding_def due_list_def Let_def)

lemma unstake_index_inv:
  assumes "index_inv v" and "unstake v act validator amount h = Ok u"
  shows "index_inv (absorb_updates v u)"
  using assms(2)
proof (cases rule: unstake_OkE)
  case (1 accounts stakes)
  let ?t = "h + unbonding_blocks (chain_params_of v)"
  let ?w = "apply_governance v (index_unbonding v ?t (act_sender act) validator)"
  have due: "due_list (absorb_updates v u) t = due_list ?w t" for t
    by (simp add: due_list_def absorb_due 1(2))
  have "(m, w) \<in> set (due_list ?w (unlock_at_height b))"
    if "v_stake (absorb_updates v u) (m, w) = Some a" "unbonding a = Some b" for m w a b
  proof (cases "(m, w) = (act_sender act, validator)")
    case True
    from 1(1) that have "unlock_at_height b = ?t"
      by (cases rule: apply_unstake_OkE) (auto simp: absorb_is_staked(3) staked_def 1(2) True)
    then show ?thesis using True by (simp add: due_list_index)
  next
    case False
    from 1(1) that False have "v_stake v (m, w) = Some a"
      by (cases rule: apply_unstake_OkE) (auto simp: absorb_is_staked(3) staked_def 1(2))
    then have "(m, w) \<in> set (due_list v (unlock_at_height b))"
      using assms(1) that(2) by (auto simp: index_inv_def)
    then show ?thesis by (auto simp: due_list_index)
  qed
  moreover have "distinct (due_list ?w t)" for t
    using assms(1) by (auto simp: due_list_index index_inv_def)
  ultimately show ?thesis by (simp add: index_inv_def due)
qed

section \<open>Leaving\<close>

lemma leave_validator_OkE:
  assumes "leave_validator act v validator opl validators h = Ok u"
  obtains m e accounts stakes n where
    "is_authorized (act_sender act) validator opl" "validator \<in> set validators" "1 < length validators"
    "m = (case masters_of v validator of m # _ \<Rightarrow> m | [] \<Rightarrow> act_sender act)"
    "v_stake v (m, validator) = Some e"
    "apply_unstake v m n validator (active_amount e) h (unbonding_blocks (chain_params_of v)) = Ok (accounts, stakes)"
    "m = act_sender act \<longrightarrow> n = act_nonce act"
    "u = default_updates\<lparr> bu_accounts := (if m = act_sender act then accounts else bt_remove m accounts),
           bu_stakes := stakes,
           bu_validator_statuses := bt_insert validator
             (Some (Leaving (epoch_of h (epoch_length (chain_params_of v)) + 1))) [] \<rparr>"
  using assms
  by (auto simp: leave_validator_def Let_def not_le split: if_splits)

text \<open>
  A leave moves the whole active stake into one unbonding batch and writes no index row.
\<close>

lemma leave_validator_batch:
  assumes "leave_validator act v validator opl validators h = Ok u"
  shows "\<exists>m e. v_stake v (m, validator) = Some e \<and> unbonding e = None \<and> 0 < active_amount e \<and>
    v_unbonding_due (absorb_updates v u) = v_unbonding_due v \<and>
    v_stake (absorb_updates v u) = (v_stake v)((m, validator) \<mapsto>
      e\<lparr> active_amount := 0,
         unbonding := Some \<lparr> unb_amount = active_amount e,
                             unlock_at_height = h + unbonding_blocks (chain_params_of v) \<rparr>,
         updated_at := h \<rparr>) \<and>
    (masters_of v validator \<noteq> [] \<longrightarrow> m = hd (masters_of v validator))"
  using assms
proof (cases rule: leave_validator_OkE)
  case (1 m e accounts stakes n)
  from 1(6) show ?thesis
  proof (cases rule: apply_unstake_OkE)
    case (1 e')
    with \<open>v_stake v (m, validator) = Some e\<close> have "e' = e" by simp
    with 1 show ?thesis
      by (intro exI [of _ m] exI [of _ e])
         (auto simp: absorb_due absorb_is_staked(3) staked_def \<open>u = _\<close> \<open>m = _\<close> split: list.splits)
  qed
qed

lemma release_loop_other:
  assumes "release_loop H v due ov su = Ok (ov', su')"
    and "k \<notin> (\<lambda>a. (sa_master a, sa_validator a)) ` set due"
  shows "map_of (allocations su') k = map_of (allocations su) k"
  using assms
proof (induction due arbitrary: ov su)
  case (Cons a due)
  then show ?case
    by (auto simp: Let_def split: option.splits if_splits)
qed simp

text \<open>An unbonding batch that its unlock height does not list is never paid out.\<close>

lemma resolve_skips_unlisted:
  assumes inv: "stake_inv H v" and row: "v_stake v (m, w) = Some a" and u: "unbonding a = Some b"
    and gone: "(m, w) \<notin> set (due_list v (unlock_at_height b))"
    and ok: "resolve_due_unbonding H v t = Ok r"
  shows "v_stake (resolved v r) (m, w) = Some a"
proof (cases "v_unbonding_due v t")
  case None
  then have "r = ([], no_stakes, [])" using ok by (simp add: resolve_due_unbonding_def)
  then show ?thesis using row by (simp add: resolved_def)
next
  case (Some pairs)
  then obtain ov su where rl: "release_loop H v (due_allocations v t pairs) [] no_stakes = Ok (ov, su)"
      "r = (ov, su, [DeleteUnbondingDue t])"
    using ok by (auto simp: resolve_due_unbonding_def)
  have "(m, w) \<noteq> (sa_master x, sa_validator x)" if "x \<in> set (due_allocations v t pairs)" for x
  proof
    assume eq: "(m, w) = (sa_master x, sa_validator x)"
    from that obtain p c where p: "p \<in> set pairs" "v_stake v p = Some x" "unbonding x = Some c"
        "unlock_at_height c = t"
      by (auto simp: due_allocations_set)
    obtain pm pw where pp: "p = (pm, pw)" by fastforce
    with p(2) have "row_ok H v pm pw x" by (auto intro: stake_inv_row [OF inv])
    then have "p = (m, w)" using eq pp by (simp add: row_ok_def)
    then have "x = a" using p(2) row by simp
    then have "c = b" using p(3) u by simp
    then show False using gone p(1,4) Some \<open>p = (m, w)\<close> by (simp add: due_list_def)
  qed
  then have "map_of (allocations su) (m, w) = None"
    using release_loop_other [OF rl(1), of "(m, w)"] by auto
  then show ?thesis using row by (simp add: rl(2) resolved_def staked_def overlay_def)
qed

section \<open>BLS keys\<close>

text \<open>The key of every validator and the owner of every key are inverse to each other.\<close>

definition bls_inv :: "view \<Rightarrow> bool" where
  "bls_inv v \<longleftrightarrow> (\<forall>a k. v_bls_key v a = Some k \<longleftrightarrow> v_bls_pubkey_owner v k = Some a)"

lemma apply_bls_key_inv:
  assumes "bls_inv v" and "previous_pubkey r = v_bls_key v (bls_address r)"
    and "v_bls_pubkey_owner v (bls_pubkey r) \<in> {None, Some (bls_address r)}"
  shows "bls_inv (apply_bls_key v r)"
proof -
  have own: "v_bls_pubkey_owner (apply_bls_key v r) k =
      (if k = bls_pubkey r then Some (bls_address r)
       else if v_bls_key v (bls_address r) = Some k then None else v_bls_pubkey_owner v k)" for k
    using assms(2) by (auto simp: apply_bls_key_def Let_def split: option.splits)
  have key: "v_bls_key (apply_bls_key v r) a = (if a = bls_address r then Some (bls_pubkey r) else v_bls_key v a)" for a
    by (simp add: apply_bls_key_def Let_def)
  have inv: "v_bls_key v a = Some k \<longleftrightarrow> v_bls_pubkey_owner v k = Some a" for a k
    using assms(1) by (simp add: bls_inv_def)
  show ?thesis unfolding bls_inv_def own key inv using assms(3) by (auto simp: inv)
qed

lemma bls_key_free_Ok_iff [simp]:
  "bls_key_free look k a = Ok x \<longleftrightarrow> look k \<in> {None, Some a}"
  by (auto simp: bls_key_free_def split: option.splits)

lemma validated_bls_pubkey_Ok_iff [simp]:
  "validated_bls_pubkey vp pubkey pop = Ok bytes \<longleftrightarrow>
   bytes = pubkey \<and> length pubkey = 48 \<and> length pop = 96 \<and> (\<exists>x. vp pubkey pop = Inr x)"
  by (auto simp: validated_bls_pubkey_def split: sum.splits)

lemma apply_gov_write_keys [simp]:
  "v_bls_key (apply_gov_write g v) = v_bls_key v"
  "v_bls_pubkey_owner (apply_gov_write g v) = v_bls_pubkey_owner v"
  "v_operator (apply_gov_write g v) = v_operator v"
  "v_operator_index (apply_gov_write g v) = v_operator_index v"
  by (cases g; simp)+

lemma apply_governance_keys [simp]:
  "v_bls_key (apply_governance v gs) = v_bls_key v"
  "v_bls_pubkey_owner (apply_governance v gs) = v_bls_pubkey_owner v"
  "v_operator (apply_governance v gs) = v_operator v"
  "v_operator_index (apply_governance v gs) = v_operator_index v"
  by (induction gs arbitrary: v) simp_all

lemma absorb_keys:
  "v_bls_key (absorb_updates v u) = v_bls_key (apply_opt apply_bls_key (bu_bls_key u) v)"
  "v_bls_pubkey_owner (absorb_updates v u) = v_bls_pubkey_owner (apply_opt apply_bls_key (bu_bls_key u) v)"
  "v_operator (absorb_updates v u) = v_operator (apply_operator v (bu_operator u))"
  "v_operator_index (absorb_updates v u) = v_operator_index (apply_operator v (bu_operator u))"
  by (simp_all add: absorb_rows split: option.splits)

lemma absorb_bls_inv: "bls_inv (absorb_updates v u) = bls_inv (apply_opt apply_bls_key (bu_bls_key u) v)"
  by (simp add: bls_inv_def absorb_keys)

section \<open>Operators\<close>

text \<open>An operator's index lists exactly the validators that authorized it.\<close>

definition operator_inv :: "view \<Rightarrow> bool" where
  "operator_inv v \<longleftrightarrow>
     (\<forall>w p. v_operator v w = Some p \<longleftrightarrow> w \<in> set (unwrap_or [] (v_operator_index v p)))"

abbreviation operators_of :: "view \<Rightarrow> address \<Rightarrow> address list" where
  "operators_of v p \<equiv> unwrap_or [] (v_operator_index v p)"

lemma operators_of_list_row:
  "unwrap_or [] (list_row m u k) = (case map_of u k of Some xs \<Rightarrow> xs | None \<Rightarrow> unwrap_or [] (m k))"
  by (auto simp: list_row_def split: option.splits)

lemma operator_inv_unique:
  "operator_inv v \<Longrightarrow> w \<in> set (operators_of v p) \<Longrightarrow> w \<in> set (operators_of v q) \<Longrightarrow> p = q"
  unfolding operator_inv_def by (metis option.inject)

lemma operator_inv_none: "operator_inv v \<Longrightarrow> v_operator v w = None \<Longrightarrow> w \<notin> set (operators_of v p)"
  unfolding operator_inv_def by (metis option.discI)

lemma authorize_operator_inv:
  assumes "operator_inv v" and "authorize_operator act p (v_operator v) (operators_of v) = Ok u"
  shows "operator_inv (absorb_updates v u)"
  using assms(2) operator_inv_unique [OF assms(1)] operator_inv_none [OF assms(1)] assms(1)
  by (auto simp: operator_inv_def authorize_operator_def Let_def absorb_keys apply_operator_def
      operators_of_list_row split: option.splits if_splits)

lemma revoke_operator_inv:
  assumes "operator_inv v" and "revoke_operator act (v_operator v) (operators_of v) = Ok u"
  shows "operator_inv (absorb_updates v u)"
  using assms(2) operator_inv_unique [OF assms(1)] operator_inv_none [OF assms(1)] assms(1)
  by (auto simp: operator_inv_def revoke_operator_def Let_def absorb_keys apply_operator_def
      operators_of_list_row split: option.splits if_splits)

text \<open>
  The states a chain reaches: operators are authorized and revoked, and anything else happens that
  leaves the two operator tables alone. The handlers do not look at the payload, so its type is
  fixed to \<open>unit\<close> here.
\<close>

inductive operator_reachable :: "view \<Rightarrow> view \<Rightarrow> bool" for v0 :: view where
  start: "operator_reachable v0 v0"
| authorize: "\<lbrakk>operator_reachable v0 v; authorize_operator (act :: unit action) p (v_operator v) (operators_of v) = Ok u\<rbrakk>
    \<Longrightarrow> operator_reachable v0 (absorb_updates v u)"
| revoke: "\<lbrakk>operator_reachable v0 v; revoke_operator (act :: unit action) (v_operator v) (operators_of v) = Ok u\<rbrakk>
    \<Longrightarrow> operator_reachable v0 (absorb_updates v u)"
| other: "\<lbrakk>operator_reachable v0 v; v_operator w = v_operator v; v_operator_index w = v_operator_index v\<rbrakk>
    \<Longrightarrow> operator_reachable v0 w"

lemma operator_reachable_inv:
  assumes "operator_reachable v0 v" and "operator_inv v0"
  shows "operator_inv v"
  using assms(1)
proof induction
  case (authorize v act p u)
  then show ?case by (auto intro: authorize_operator_inv)
next
  case (revoke v act u)
  then show ?case by (auto intro: revoke_operator_inv)
next
  case (other v w)
  then show ?case by (simp add: operator_inv_def)
qed (rule assms(2))

section \<open>Joining\<close>

lemma join_validator_OkE:
  assumes "join_validator H vp act v validator amount pubkey pop opl owner h = Ok u"
  obtains accounts stakes eff where
    "is_authorized (act_sender act) validator opl"
    "v_validator_status v validator \<noteq> Some Tombstoned"
    "validator_attestation_required (chain_params_of v) \<longrightarrow> is_attested v validator"
    "min_validator_stake (chain_params_of v) \<le> saturating_add u128_max
       (case v_stake v (act_sender act, validator) of Some a \<Rightarrow> active_amount a | None \<Rightarrow> 0) amount"
    "apply_stake H v (act_sender act) (act_nonce act) validator amount h = Ok (accounts, stakes)"
    "length pubkey = 48" "length pop = 96" "vp pubkey pop = Inr ()"
    "owner pubkey \<in> {None, Some validator}"
    "u = default_updates\<lparr> bu_accounts := accounts, bu_stakes := stakes,
           bu_bls_key := Some \<lparr> bls_address = validator, bls_pubkey = pubkey,
              bls_effective_height = eff, previous_pubkey = v_bls_key v validator \<rparr>,
           bu_validator_statuses := bt_insert validator (Some (status_after_join v validator)) [] \<rparr>"
  using assms
  by (auto simp: join_validator_def check_join_admission_def Let_def not_less
      split: if_splits simp del: insert_iff)

section \<open>Properties\<close>

lemma stake_inv_masters:
  "stake_inv H v \<Longrightarrow> v_stake v (m, w) = Some e \<Longrightarrow> masters_of v w = [m]"
  using stake_inv_row [of H v m w e] by (simp add: row_ok_def masters_of_def)

lemma stake_inv_same_balances:
  assumes "stake_inv H v" and "finite (dom (v_account w))"
    and "\<And>a. balance (account_of w a) = balance (account_of v a)"
    and "v_stake w = v_stake v" and "v_stake_by_validator w = v_stake_by_validator v"
  shows "stake_inv H w"
  using assms by (auto simp: stake_inv_def row_ok_def)

lemma leave_validator_inv:
  assumes inv: "stake_inv H v" and ok: "leave_validator act v validator opl validators h = Ok u"
  shows "stake_inv H (absorb_updates v u)" and "native_supply (absorb_updates v u) = native_supply v"
  using ok
proof (atomize (full), cases rule: leave_validator_OkE)
  case (1 m e accounts stakes n)
  let ?s = "staked v (accounts, stakes)"
  have s: "stake_inv H ?s" "native_supply ?s = native_supply v"
    using apply_unstake_inv [OF inv 1(6)] by auto
  show "stake_inv H (absorb_updates v u) \<and> native_supply (absorb_updates v u) = native_supply v"
  proof (cases "m = act_sender act")
    case True
    then show ?thesis using s by (simp add: absorb_is_staked(1,2) 1(8))
  next
    case False
    from 1(6) obtain x where "accounts = bt_insert m x []" "balance x = balance (account_of v m)"
      by (cases rule: apply_unstake_OkE) auto
    then have acc: "bt_remove m accounts = []" "\<And>a. balance (account_of ?s a) = balance (account_of v a)"
      by (auto simp: bt_insert.simps bt_remove_def staked_def)
    have "stake_inv H (staked v ([], stakes))"
      by (rule stake_inv_same_balances [OF s(1)])
         (use stake_inv_finite [OF inv] in \<open>simp_all add: acc(2), simp_all add: staked_def\<close>)
    then show ?thesis using False acc(1)
      by (simp add: absorb_is_staked(1,2) 1(8)) (simp add: staked_def)
  qed
qed

lemma unbonding_blocks_staking:
  assumes "v_stake v (m, w) = Some a" and "unbonding a = Some b"
  shows "\<not> is_ok (apply_stake H v m n w x t)" and "\<not> is_ok (apply_unstake v m n w x t c)"
proof -
  have "apply_stake H v m n w x t \<noteq> Ok r" for r
  proof
    assume "apply_stake H v m n w x t = Ok r"
    then show False by (cases rule: apply_stake_OkE) (use assms in simp)
  qed
  moreover have "apply_unstake v m n w x t c \<noteq> Ok r" for r
  proof
    assume "apply_unstake v m n w x t c = Ok r"
    then show False by (cases rule: apply_unstake_OkE) (use assms in simp)
  qed
  ultimately show "\<not> is_ok (apply_stake H v m n w x t)" "\<not> is_ok (apply_unstake v m n w x t c)"
    by (simp_all add: is_ok_iff)
qed

text \<open>
  C21: \<open>leave_validator\<close> strands the leaver's stake. It moves the whole active stake into an unbonding
  batch but, unlike \<open>unstake\<close>, writes no \<open>UnbondingDueKey\<close> row, so (unless an old row of that
  height happens to name the pair) the index no longer lists every batch: no height ever pays the
  batch out, and while it is unbonding the pair can neither stake nor unstake.
\<close>

theorem leave_validator_strands_stake:
  assumes "stake_inv H v" and "leave_validator act v validator opl validators h = Ok u"
    and "masters_of v validator = [m]"
    and "(m, validator) \<notin> set (due_list v (h + unbonding_blocks (chain_params_of v)))"
  shows "\<not> index_inv (absorb_updates v u) \<and>
    (\<exists>a. v_stake (absorb_updates v u) (m, validator) = Some a \<and> 0 < unbonding_amount a \<and>
      (\<forall>t r. resolve_due_unbonding H (absorb_updates v u) t = Ok r \<longrightarrow>
         v_stake (resolved (absorb_updates v u) r) (m, validator) = Some a) \<and>
      (\<forall>n x t. \<not> is_ok (apply_stake H (absorb_updates v u) m n validator x t)) \<and>
      (\<forall>n x t b. \<not> is_ok (apply_unstake (absorb_updates v u) m n validator x t b)))"
proof -
  let ?v = "absorb_updates v u"
  obtain m' e where e: "v_stake v (m', validator) = Some e" "unbonding e = None" "0 < active_amount e"
    "v_unbonding_due ?v = v_unbonding_due v" "v_stake ?v = (v_stake v)((m', validator) \<mapsto>
      e\<lparr> active_amount := 0,
         unbonding := Some \<lparr> unb_amount = active_amount e,
                             unlock_at_height = h + unbonding_blocks (chain_params_of v) \<rparr>,
         updated_at := h \<rparr>)"
    using leave_validator_batch [OF assms(2)] by blast
  have "m' = m" using stake_inv_masters [OF assms(1) e(1)] assms(3) by simp
  define b where "b = \<lparr> unb_amount = active_amount e,
    unlock_at_height = h + unbonding_blocks (chain_params_of v) \<rparr>"
  define a where "a = e\<lparr> active_amount := 0, unbonding := Some b, updated_at := h \<rparr>"
  have a: "v_stake ?v (m, validator) = Some a" "unbonding a = Some b"
      "unb_amount b = active_amount e" "unlock_at_height b = h + unbonding_blocks (chain_params_of v)"
    by (simp_all add: e(5) \<open>m' = m\<close> a_def b_def)
  have gone: "(m, validator) \<notin> set (due_list ?v (unlock_at_height b))"
    using assms(4) e(4) a(4) by (simp add: due_list_def)
  have "\<not> index_inv ?v" using a(1,2) gone unfolding index_inv_def by blast
  moreover have "v_stake (resolved ?v r) (m, validator) = Some a"
    if "resolve_due_unbonding H ?v t = Ok r" for t r
    by (rule resolve_skips_unlisted [OF leave_validator_inv(1) [OF assms(1,2)] a(1,2) gone that])
  moreover have "0 < unbonding_amount a" using a(2,3) e(3) by (simp add: unbonding_amount_def)
  ultimately show ?thesis using a(1) unbonding_blocks_staking [OF a(1,2)] by blast
qed

definition sample_bob :: address where "sample_bob = Address ''bob''"

definition sample_leaving_view :: view where
  "sample_leaving_view = sample_view\<lparr>
     v_stake := [(sample_alice, sample_alice) \<mapsto> sample_allocation\<lparr> unbonding := None \<rparr>],
     v_unbonding_due := Map.empty \<rparr>"

definition sample_leave :: "unit action" where
  "sample_leave = \<lparr> act_sender = sample_alice, act_nonce = 0, act_signature = None, act_payload = () \<rparr>"

lemma sample_leaving_rows:
  "v_stake sample_leaving_view (sample_alice, sample_alice) = Some (sample_allocation\<lparr> unbonding := None \<rparr>)"
  "masters_of sample_leaving_view sample_alice = [sample_alice]"
  "account_of sample_leaving_view = account_of sample_view"
  "chain_params_of sample_leaving_view = default_chain_params"
  "due_list sample_leaving_view t = []"
  by (simp_all add: sample_leaving_view_def sample_view_def masters_of_def chain_params_of_def
      account_of_def empty_view_def due_list_def fun_eq_iff)

lemma sample_leaving_inv: "stake_inv sample_hasher sample_leaving_view"
proof -
  have "row_ok sample_hasher sample_leaving_view sample_alice sample_alice (sample_allocation\<lparr> unbonding := None \<rparr>)"
    using sample_user sample_accounts(3)
    by (simp add: row_ok_def sample_leaving_rows(3), simp add: sample_allocation_def locked_def
        unbonding_amount_def sample_leaving_view_def sample_view_def)
  then show ?thesis
    by (auto simp: stake_inv_def sample_leaving_view_def sample_view_def split: if_splits)
qed

theorem leave_validator_strands_stake_witness:
  "\<exists>u. leave_validator sample_leave sample_leaving_view sample_alice (\<lambda>_. None) [sample_alice, sample_bob] 10 = Ok u \<and>
     \<not> index_inv (absorb_updates sample_leaving_view u)"
proof -
  have "is_ok (leave_validator sample_leave sample_leaving_view sample_alice (\<lambda>_. None) [sample_alice, sample_bob] 10)"
    using sample_accounts
    by (simp add: leave_validator_def sample_leave_def is_authorized_def Let_def sample_leaving_rows
        apply_unstake_def sample_allocation_def default_chain_params_def add_or_panic_def expect_def
        checked_add_def u64_max_def epoch_of_def)
  then obtain u where "leave_validator sample_leave sample_leaving_view sample_alice (\<lambda>_. None)
      [sample_alice, sample_bob] 10 = Ok u" by (auto simp: is_ok_iff)
  from leave_validator_strands_stake [OF sample_leaving_inv this sample_leaving_rows(2)] this
  show ?thesis by (simp add: sample_leaving_rows)
qed

text \<open>
  \<open>unstake\<close> keeps both staking invariants and the supply: every unbonding batch stays listed, once,
  at the height it unlocks, so (with the release theorem of the staking circuit) it is paid out there.
\<close>

theorem unstake_keeps_invariants:
  assumes "stake_inv H v" and "index_inv v" and "unstake v act validator amount h = Ok u"
  shows "stake_inv H (absorb_updates v u) \<and> index_inv (absorb_updates v u) \<and>
    native_supply (absorb_updates v u) = native_supply v \<and>
    (act_sender act, validator) \<in> set (due_list (absorb_updates v u) (h + unbonding_blocks (chain_params_of v)))"
  using assms(3)
proof (cases rule: unstake_OkE)
  case (1 accounts stakes)
  have "stake_inv H (absorb_updates v u)" "native_supply (absorb_updates v u) = native_supply v"
    using apply_unstake_inv [OF assms(1) 1(1)] by (simp_all add: absorb_is_staked(1,2) 1(2))
  moreover have "(act_sender act, validator) \<in> set (due_list (absorb_updates v u) (h + unbonding_blocks (chain_params_of v)))"
    using due_list_index [of v "h + unbonding_blocks (chain_params_of v)" "act_sender act" validator]
    by (simp add: due_list_def absorb_due 1(2))
  ultimately show ?thesis using unstake_index_inv [OF assms(2,3)] by blast
qed

theorem unstake_keeps_invariants_witness:
  "\<exists>u. unstake sample_leaving_view sample_leave sample_alice 25 10 = Ok u \<and>
     index_inv (absorb_updates sample_leaving_view u)"
proof -
  have "is_ok (unstake sample_leaving_view sample_leave sample_alice 25 10)"
    using sample_accounts
    by (simp add: unstake_def sample_leave_def Let_def sample_leaving_rows
        apply_unstake_def sample_allocation_def default_chain_params_def add_or_panic_def expect_def
        checked_add_def u64_max_def)
  then obtain u where u: "unstake sample_leaving_view sample_leave sample_alice 25 10 = Ok u"
    by (auto simp: is_ok_iff)
  have "index_inv sample_leaving_view"
    by (auto simp: index_inv_def sample_leaving_rows(5), auto simp: sample_leaving_view_def split: if_splits)
  from unstake_keeps_invariants [OF sample_leaving_inv this u] u show ?thesis by blast
qed

lemma join_bls_inv:
  assumes "bls_inv v" and "join_validator H vp act v validator amount pubkey pop opl (v_bls_pubkey_owner v) h = Ok u"
  shows "bls_inv (absorb_updates v u)" and "v_bls_key (absorb_updates v u) validator = Some pubkey"
  using assms(2)
proof (atomize (full), cases rule: join_validator_OkE)
  case (1 accounts stakes eff)
  then show "bls_inv (absorb_updates v u) \<and> v_bls_key (absorb_updates v u) validator = Some pubkey"
    using assms(1) 1(9)
    by (auto simp: absorb_bls_inv absorb_keys apply_opt_def intro!: apply_bls_key_inv)
       (simp_all add: apply_bls_key_def Let_def)
qed

lemma register_bls_inv:
  assumes "bls_inv v" and "register_bls_key vp act v validator pubkey pop h opl (v_bls_pubkey_owner v) = Ok u"
  shows "bls_inv (absorb_updates v u)"
  using assms
  by (auto simp: register_bls_key_def absorb_bls_inv apply_opt_def simp del: insert_iff
      split: if_splits intro!: apply_bls_key_inv)

text \<open>The states key registration reaches, together with any step that leaves the key tables alone.\<close>

inductive bls_reachable :: "hasher \<Rightarrow> (string \<Rightarrow> string \<Rightarrow> bool + unit) \<Rightarrow> view \<Rightarrow> view \<Rightarrow> bool"
  for H vp v0 where
  start: "bls_reachable H vp v0 v0"
| join: "\<lbrakk>bls_reachable H vp v0 v;
     join_validator H vp (act :: unit action) v validator amount pubkey pop opl (v_bls_pubkey_owner v) h = Ok u\<rbrakk>
    \<Longrightarrow> bls_reachable H vp v0 (absorb_updates v u)"
| register: "\<lbrakk>bls_reachable H vp v0 v;
     register_bls_key vp (act :: unit action) v validator pubkey pop h opl (v_bls_pubkey_owner v) = Ok u\<rbrakk>
    \<Longrightarrow> bls_reachable H vp v0 (absorb_updates v u)"
| other: "\<lbrakk>bls_reachable H vp v0 v; v_bls_key w = v_bls_key v; v_bls_pubkey_owner w = v_bls_pubkey_owner v\<rbrakk>
    \<Longrightarrow> bls_reachable H vp v0 w"

lemma bls_reachable_inv:
  assumes "bls_reachable H vp v0 v" and "bls_inv v0"
  shows "bls_inv v"
  using assms(1)
proof induction
  case (join v act validator amount pubkey pop opl h u)
  then show ?case by (auto intro: join_bls_inv(1))
next
  case (register v act validator pubkey pop h opl u)
  then show ?case by (auto intro: register_bls_inv)
next
  case (other v w)
  then show ?case by (simp add: bls_inv_def)
qed (rule assms(2))

text \<open>
  An accepted \<open>join_validator\<close> comes from the validator or the operator it authorized, for a
  validator that is not tombstoned (and is attested where the chain requires it). It leaves at least
  the minimum validator stake active, within the delegation cap; conserves the supply and keeps both
  staking invariants; registers the proven BLS key; and sets the status to waiting, except that a
  current member stays active and a jailed one stays jailed.
\<close>

theorem join_validator_sound:
  assumes "separated H" and "user_account H (act_sender act)" and "stake_inv H v"
    and "join_validator H vp act v validator amount pubkey pop (v_operator v) (v_bls_pubkey_owner v) h = Ok u"
  shows "(act_sender act = validator \<or> v_operator v validator = Some (act_sender act)) \<and>
    v_validator_status v validator \<noteq> Some Tombstoned \<and>
    (validator_attestation_required (chain_params_of v) \<longrightarrow> is_attested v validator) \<and>
    (\<exists>a. v_stake (absorb_updates v u) (act_sender act, validator) = Some a \<and> unbonding a = None \<and>
       min_validator_stake (chain_params_of v) \<le> active_amount a \<and>
       active_amount a \<le> MAX_DELEGATION_PER_VALIDATOR) \<and>
    stake_inv H (absorb_updates v u) \<and> native_supply (absorb_updates v u) = native_supply v \<and>
    (index_inv v \<longrightarrow> index_inv (absorb_updates v u)) \<and>
    v_bls_key (absorb_updates v u) validator = Some pubkey \<and>
    (\<exists>x. vp pubkey pop = Inr x) \<and>
    v_validator_status (absorb_updates v u) validator =
      Some (case v_validator_status v validator of
              Some Active \<Rightarrow> Active | Some (Jailed e) \<Rightarrow> Jailed e | _ \<Rightarrow> Pending)"
  using assms(4)
proof (cases rule: join_validator_OkE)
  case (1 accounts stakes eff)
  note j = 1
  let ?v = "absorb_updates v u" and ?s = "staked v (accounts, stakes)"
  have inv: "stake_inv H ?v" "native_supply ?v = native_supply v"
    using apply_stake_inv [OF assms(1-3) j(5)] by (simp_all add: absorb_is_staked(1,2) j(10))
  have key: "v_bls_key ?v validator = Some pubkey"
    by (simp add: absorb_keys apply_opt_def j(10) apply_bls_key_def Let_def)
  have status: "v_validator_status ?v validator = Some (status_after_join v validator)"
    by (simp add: absorb_updates_rows(7) j(10))
  from j(5) have "\<exists>a. v_stake ?v = (v_stake v)((act_sender act, validator) \<mapsto> a) \<and> unbonding a = None \<and>
      min_validator_stake (chain_params_of v) \<le> active_amount a \<and>
      active_amount a \<le> MAX_DELEGATION_PER_VALIDATOR"
  proof (cases rule: apply_stake_OkE)
    case (1 cur e')
    have "MAX_DELEGATION_PER_VALIDATOR \<le> u128_max"
      by (simp add: MAX_DELEGATION_PER_VALIDATOR_def u128_max_def)
    then have "saturating_add u128_max cur amount = cur + amount"
      using 1(8) by (intro saturating_add_exact) linarith
    then have "min_validator_stake (chain_params_of v) \<le> active_amount e'" using j(4) 1(6,11) by simp
    with 1 show ?thesis
      by (intro exI [of _ e']) (simp add: absorb_is_staked(3) staked_def j(10))
  qed
  then obtain a where a: "v_stake ?v = (v_stake v)((act_sender act, validator) \<mapsto> a)" "unbonding a = None"
      "min_validator_stake (chain_params_of v) \<le> active_amount a"
      "active_amount a \<le> MAX_DELEGATION_PER_VALIDATOR" by blast
  have due: "due_list ?v t = due_list v t" for t by (simp add: due_list_def absorb_due j(10))
  have "index_inv ?v" if "index_inv v"
    using that a(1,2) unfolding index_inv_def due by (metis fun_upd_apply option.discI option.inject)
  then show ?thesis
    using j(1-3,8) inv key status a by (auto simp: is_authorized_def status_after_join_def split: if_splits)
qed

definition sample_key :: string where "sample_key = replicate 48 CHR ''k''"

definition sample_pop :: string where "sample_pop = replicate 96 CHR ''p''"

definition sample_join_view :: view where
  "sample_join_view = sample_leaving_view\<lparr>
     v_chain_params := Some (default_chain_params\<lparr> min_validator_stake := 80 \<rparr>) \<rparr>"

lemma sample_join_rows:
  "account_of sample_join_view = account_of sample_view"
  "chain_params_of sample_join_view = default_chain_params\<lparr> min_validator_stake := 80 \<rparr>"
  "v_stake sample_join_view (sample_alice, sample_alice) = Some (sample_allocation\<lparr> unbonding := None \<rparr>)"
  "masters_of sample_join_view sample_alice = [sample_alice]"
  "v_validator_status sample_join_view = Map.empty" "v_bls_key sample_join_view = Map.empty"
  "v_bls_pubkey_owner sample_join_view = Map.empty"
  "v_operator sample_join_view = Map.empty"
  by (simp_all add: sample_join_view_def chain_params_of_def sample_leaving_view_def sample_view_def
      account_of_def empty_view_def masters_of_def fun_eq_iff)

lemma sample_join:
  "\<exists>u. join_validator sample_hasher (\<lambda>_ _. Inr ()) sample_leave sample_join_view sample_alice 25 sample_key
     sample_pop (v_operator sample_join_view) (v_bls_pubkey_owner sample_join_view) 10 = Ok u"
proof -
  have "is_ok (join_validator sample_hasher (\<lambda>_ _. Inr ()) sample_leave sample_join_view sample_alice 25 sample_key
     sample_pop (v_operator sample_join_view) (v_bls_pubkey_owner sample_join_view) 10)"
    using sample_accounts
    by (simp add: join_validator_def sample_leave_def is_authorized_def Let_def sample_join_rows
        check_join_admission_def default_chain_params_def apply_stake_def sample_allocation_def
        add_or_panic_def expect_def checked_add_def u64_max_def u128_max_def saturating_add_def
        MAX_DELEGATION_PER_VALIDATOR_def credit_def validated_bls_pubkey_def sample_key_def sample_pop_def
        bls_key_free_def next_epoch_start_def boundary_of_def epoch_of_def
        mul_or_panic_def checked_mul_def sub_or_panic_def checked_sub_def)
  then show ?thesis by (simp add: is_ok_iff)
qed

lemma sample_join_inv: "stake_inv sample_hasher sample_join_view"
  using sample_leaving_inv stake_inv_cong [of sample_join_view sample_leaving_view]
  by (simp add: sample_join_view_def)

theorem join_validator_sound_witness:
  "\<exists>u. join_validator sample_hasher (\<lambda>_ _. Inr ()) sample_leave sample_join_view sample_alice 25 sample_key
      sample_pop (v_operator sample_join_view) (v_bls_pubkey_owner sample_join_view) 10 = Ok u \<and>
    v_validator_status (absorb_updates sample_join_view u) sample_alice = Some Pending"
proof -
  from sample_join obtain u where u: "join_validator sample_hasher (\<lambda>_ _. Inr ()) sample_leave sample_join_view
     sample_alice 25 sample_key sample_pop (v_operator sample_join_view)
     (v_bls_pubkey_owner sample_join_view) 10 = Ok u" by blast
  have "user_account sample_hasher (act_sender sample_leave)"
    using sample_user by (simp add: sample_leave_def)
  from join_validator_sound [OF sample_separated this sample_join_inv u] u
  show ?thesis by (simp add: sample_join_rows(5))
qed

text \<open>
  C22: no two validators ever share a BLS key. In every state reached by joins, key registrations
  and rotations from one where the key tables agree, two addresses with the same current key are
  the same address, and a key's owner row names exactly the address that holds it.
\<close>

theorem bls_keys_never_shared:
  assumes "bls_reachable H vp v0 v" and "bls_inv v0"
  shows "(v_bls_key v a = Some k \<and> v_bls_key v b = Some k \<longrightarrow> a = b) \<and>
    (v_bls_key v a = Some k \<longleftrightarrow> v_bls_pubkey_owner v k = Some a)"
  using bls_reachable_inv [OF assms] unfolding bls_inv_def by (metis option.inject)

theorem bls_keys_never_shared_witness:
  "\<exists>v. bls_reachable sample_hasher (\<lambda>_ _. Inr ()) sample_join_view v \<and>
     v_bls_pubkey_owner v sample_key = Some sample_alice"
proof -
  from sample_join obtain u where u: "join_validator sample_hasher (\<lambda>_ _. Inr ()) sample_leave sample_join_view
     sample_alice 25 sample_key sample_pop (v_operator sample_join_view)
     (v_bls_pubkey_owner sample_join_view) 10 = Ok u" by blast
  let ?v = "absorb_updates sample_join_view u"
  have r: "bls_reachable sample_hasher (\<lambda>_ _. Inr ()) sample_join_view ?v"
    by (rule bls_reachable.join [OF bls_reachable.start u])
  have i: "bls_inv sample_join_view" by (simp add: bls_inv_def sample_join_rows(6,7))
  have "v_bls_key ?v sample_alice = Some sample_key" by (rule join_bls_inv(2) [OF i u])
  then show ?thesis using r bls_keys_never_shared [OF r i] by blast
qed

text \<open>
  An operator's reverse index lists exactly the validators that currently authorize it, in every
  state reached by authorizing, re-authorizing and revoking operators.
\<close>

theorem operator_index_mirrors_authorizations:
  assumes "operator_reachable v0 v" and "operator_inv v0"
  shows "v_operator v validator = Some p \<longleftrightarrow> validator \<in> set (unwrap_or [] (v_operator_index v p))"
  using operator_reachable_inv [OF assms] by (simp add: operator_inv_def)

theorem operator_index_mirrors_authorizations_witness:
  "\<exists>v. operator_reachable empty_view v \<and> v_operator v sample_alice = Some sample_bob \<and>
     sample_alice \<in> set (unwrap_or [] (v_operator_index v sample_bob))"
proof -
  obtain u where u: "authorize_operator sample_leave sample_bob (v_operator empty_view)
      (operators_of empty_view) = Ok u" by (simp add: authorize_operator_def Let_def)
  let ?v = "absorb_updates empty_view u"
  have r: "operator_reachable empty_view ?v" by (rule operator_reachable.authorize [OF operator_reachable.start u])
  have i: "operator_inv empty_view" by (simp add: operator_inv_def empty_view_def)
  have "v_operator ?v sample_alice = Some sample_bob"
    using u by (auto simp: authorize_operator_def Let_def absorb_keys apply_operator_def sample_leave_def)
  then show ?thesis using r operator_index_mirrors_authorizations [OF r i] by blast
qed

end
