(* ===== verification/Evidence.thy ===== *)
theory Evidence
  imports Primitives
begin

text \<open>
  Signed blocks and equivocation evidence: \<^verbatim>\<open>src/core/primitives/src/block.rs\<close> (the block, what its
  proposer signs, the signature check) and \<^verbatim>\<open>src/core/evidence/src/lib.rs\<close> (when two blocks convict
  their proposer).

  Third-party code is a parameter: \<open>hex_decode\<close> (the hex crate), \<open>pubkey_bytes\<close> (bech32 decoding of an
  address), \<open>verifies key payload sig\<close> (Ed25519 \<open>verify_strict\<close> over the bincode bytes of the payload)
  and \<open>digest\<close> (SHA-256 over the bincode bytes of the whole block, as a hash).
\<close>

section \<open>Blocks\<close>

record round_certificate =
  rc_height :: nat
  rc_round :: nat
  rc_signers :: "address list"
  rc_aggregate_signature :: string

record 'p block =
  b_height :: nat
  b_parent_hash :: string
  b_timestamp :: nat
  b_actions :: "'p action list"
  b_tx_root :: string
  b_proposer :: "address option"
  b_signature :: "string option"
  b_parent_state_root :: string
  b_state_root :: string
  b_round :: nat
  b_round_certificate :: "round_certificate option"
  b_build_id :: string

record block_signing_payload =
  sp_genesis_hash :: string
  sp_height :: nat
  sp_parent_hash :: string
  sp_timestamp :: nat
  sp_tx_root :: string
  sp_proposer :: address
  sp_parent_state_root :: string
  sp_state_root :: string
  sp_round :: nat
  sp_build_id :: string

definition signing_payload :: "'p block \<Rightarrow> string \<Rightarrow> address \<Rightarrow> block_signing_payload" where
  "signing_payload b genesis who =
    \<lparr> sp_genesis_hash = genesis, sp_height = b_height b, sp_parent_hash = b_parent_hash b,
      sp_timestamp = b_timestamp b, sp_tx_root = b_tx_root b, sp_proposer = who,
      sp_parent_state_root = b_parent_state_root b, sp_state_root = b_state_root b,
      sp_round = b_round b, sp_build_id = b_build_id b \<rparr>"

datatype signature_error = Missing | InvalidHex | WrongLength nat | BadPubkey | Invalid | BadMultisig string

definition verify_proposer_signature ::
  "(string \<Rightarrow> string option) \<Rightarrow> (address \<Rightarrow> string option) \<Rightarrow>
   (string \<Rightarrow> block_signing_payload \<Rightarrow> string \<Rightarrow> bool) \<Rightarrow> string \<Rightarrow> 'p block \<Rightarrow> (signature_error, unit) result" where
  "verify_proposer_signature hex_decode pubkey_bytes verifies genesis b =
    and_then (ok_or Missing (b_proposer b)) (\<lambda>who.
    and_then (ok_or Missing (b_signature b)) (\<lambda>sig_hex.
    and_then (ok_or InvalidHex (hex_decode sig_hex)) (\<lambda>sig_bytes.
    if length sig_bytes \<noteq> 64 then Err (WrongLength (length sig_bytes))
    else
     and_then (ok_or BadPubkey (pubkey_bytes who)) (\<lambda>key.
     if length key \<noteq> 32 then Err (WrongLength (length key))
     else ensure (verifies key (signing_payload b genesis who) sig_bytes) Invalid))))"

section \<open>Equivocation\<close>

datatype evidence_error =
    HeightMismatch nat nat
  | RoundMismatch nat nat
  | ProposerMismatch
  | SameBlock
  | EvSignature signature_error

definition verify_equivocation ::
  "(string \<Rightarrow> string option) \<Rightarrow> (address \<Rightarrow> string option) \<Rightarrow>
   (string \<Rightarrow> block_signing_payload \<Rightarrow> string \<Rightarrow> bool) \<Rightarrow> ('p block \<Rightarrow> string) \<Rightarrow>
   string \<Rightarrow> 'p block \<Rightarrow> 'p block \<Rightarrow> (evidence_error, address) result" where
  "verify_equivocation hex_decode pubkey_bytes verifies digest genesis a b =
    (if b_height a \<noteq> b_height b then Err (HeightMismatch (b_height a) (b_height b))
     else if b_round a \<noteq> b_round b then Err (RoundMismatch (b_round a) (b_round b))
     else
      and_then (ok_or (EvSignature Missing) (b_proposer a)) (\<lambda>proposer_a.
      and_then (ok_or (EvSignature Missing) (b_proposer b)) (\<lambda>proposer_b.
      if proposer_a \<noteq> proposer_b then Err ProposerMismatch
      else if digest a = digest b then Err SameBlock
      else
       and_then (map_err EvSignature (verify_proposer_signature hex_decode pubkey_bytes verifies genesis a)) (\<lambda>_.
       and_then (map_err EvSignature (verify_proposer_signature hex_decode pubkey_bytes verifies genesis b)) (\<lambda>_.
       Ok proposer_a)))))"

section \<open>Properties\<close>

text \<open>
  A conviction rests on two valid signatures. Whoever \<open>verify_equivocation\<close> names signed both
  headers, for this chain's genesis and for one height and round.
\<close>

theorem equivocation_needs_two_signatures:
  assumes "verify_equivocation hex_decode pubkey_bytes verifies digest genesis a b = Ok who"
  shows "b_height a = b_height b \<and> b_round a = b_round b \<and> digest a \<noteq> digest b \<and>
    (\<exists>key sig_a sig_b. pubkey_bytes who = Some key \<and>
       verifies key (signing_payload a genesis who) sig_a \<and>
       verifies key (signing_payload b genesis who) sig_b)"
  using assms
  by (auto simp: verify_equivocation_def verify_proposer_signature_def split: if_splits)

definition sample_signed :: "nat \<Rightarrow> nat block" where
  "sample_signed t =
    \<lparr> b_height = 7, b_parent_hash = ''p'', b_timestamp = t, b_actions = [], b_tx_root = ''root'',
      b_proposer = Some (Address ''val''), b_signature = Some (replicate 64 CHR ''s''),
      b_parent_state_root = ''x'', b_state_root = ''y'', b_round = 0, b_round_certificate = None,
      b_build_id = ''1.0'' \<rparr>"

definition sample_digest :: "nat block \<Rightarrow> string" where
  "sample_digest b = replicate (b_timestamp b + length (b_actions b)) CHR ''d''"

theorem equivocation_needs_two_signatures_witness:
  "b_height (sample_signed 3) = b_height (sample_signed 4) \<and>
   verify_equivocation Some (\<lambda>_. Some (replicate 32 CHR ''k'')) (\<lambda>_ _ _. True) sample_digest ''gen''
     (sample_signed 3) (sample_signed 4) = Ok (Address ''val'')"
proof -
  have e: "verify_equivocation Some (\<lambda>_. Some (replicate 32 CHR ''k'')) (\<lambda>_ _ _. True) sample_digest ''gen''
     (sample_signed 3) (sample_signed 4) = Ok (Address ''val'')"
    by (simp add: verify_equivocation_def verify_proposer_signature_def sample_signed_def sample_digest_def
        ensure_def)
  from equivocation_needs_two_signatures [OF e] e show ?thesis by blast
qed

text \<open>
  C23: two signed headers need not differ. A proposer that signed one block is convicted by that block
  and any copy of it with another action list and another round certificate: the copy's signature
  still verifies, because neither field is signed, and \<open>verify_equivocation\<close> compares the hash of the
  whole block instead of the signed header. (Hypothesis: the two blocks hash differently.)
\<close>

theorem one_signature_convicts:
  assumes "verify_proposer_signature hex_decode pubkey_bytes verifies genesis a = Ok ()"
    and "b = a\<lparr> b_actions := other_actions, b_round_certificate := other_certificate \<rparr>"
    and "digest a \<noteq> digest b"
  shows "\<exists>who. b_proposer a = Some who \<and>
    signing_payload b genesis who = signing_payload a genesis who \<and>
    verify_equivocation hex_decode pubkey_bytes verifies digest genesis a b = Ok who"
proof -
  have same: "signing_payload b genesis who = signing_payload a genesis who" for who
    by (simp add: assms(2) signing_payload_def)
  have "verify_proposer_signature hex_decode pubkey_bytes verifies genesis b = Ok ()"
    using assms(1) unfolding verify_proposer_signature_def same by (simp add: assms(2))
  moreover obtain who where "b_proposer a = Some who"
    using assms(1) by (auto simp: verify_proposer_signature_def)
  ultimately show ?thesis
    using assms(1,3) same by (auto simp: verify_equivocation_def) (simp_all add: assms(2))
qed

theorem one_signature_convicts_witness:
  "verify_equivocation Some (\<lambda>_. Some (replicate 32 CHR ''k'')) (\<lambda>_ _ _. True) sample_digest ''gen''
     (sample_signed 3)
     ((sample_signed 3)\<lparr> b_actions := [\<lparr> act_sender = Address ''x'', act_nonce = 0, act_signature = None, act_payload = 0 \<rparr>], b_round_certificate := None \<rparr>) = Ok (Address ''val'')"
proof -
  have s: "verify_proposer_signature Some (\<lambda>_. Some (replicate 32 CHR ''k'')) (\<lambda>_ _ _. True) ''gen''
      (sample_signed 3) = Ok ()"
    by (simp add: verify_proposer_signature_def sample_signed_def ensure_def)
  have d: "sample_digest (sample_signed 3) \<noteq>
      sample_digest ((sample_signed 3)\<lparr> b_actions := [\<lparr> act_sender = Address ''x'', act_nonce = 0, act_signature = None, act_payload = 0 \<rparr>], b_round_certificate := None \<rparr>)"
    by (simp add: sample_digest_def sample_signed_def)
  have "b_proposer (sample_signed 3) = Some (Address ''val'')" by (simp add: sample_signed_def)
  with one_signature_convicts [OF s refl d] show ?thesis by auto
qed

end
