(* ===== verification/Runtime_Consensus.thy ===== *)
theory Runtime_Consensus
  imports Runtime_Staking Evidence
begin

text \<open>
  Fault handling in the runtime: the one slash for a tombstoning fault and the equivocation handler
  (\<^verbatim>\<open>src/arxd/runtime/src/consensus.rs\<close>), the governance and attestor handlers that lead to it
  (\<^verbatim>\<open>governance.rs\<close>, \<^verbatim>\<open>identity.rs\<close>), and the nonce and fee every dispatched action pays
  (\<^verbatim>\<open>lib.rs\<close>).
\<close>

section \<open>The slash for a tombstoning fault\<close>

definition slash_amount :: "nat \<Rightarrow> nat \<Rightarrow> (never, nat) result" where
  "slash_amount total_stake slash_bps =
    and_then (mul_or_panic u128_max total_stake slash_bps) (\<lambda>p. Ok (p div 10000))"

text \<open>The challenger's share, taken back out of the pool row of the slash.\<close>

definition pay_challenger ::
  "view \<Rightarrow> address \<Rightarrow> account_entry \<Rightarrow> nat \<Rightarrow> address \<Rightarrow> account_updates \<Rightarrow>
   (runtime_error, account_updates) result" where
  "pay_challenger v pool pool_entry reward chal accounts =
    (if 0 < reward then
       and_then (sub_or_panic (balance pool_entry) reward) (\<lambda>rest.
       (let accounts = bt_insert pool (pool_entry\<lparr> balance := rest \<rparr>) accounts;
            entry = (case map_of accounts chal of Some e \<Rightarrow> e | None \<Rightarrow> account_of v chal)
        in
        and_then (ok_or (RewardOverflows chal) (checked_add u128_max (balance entry) reward)) (\<lambda>b.
        Ok (bt_insert chal (entry\<lparr> balance := b \<rparr>) accounts))))
     else Ok accounts)"

definition fault_slash ::
  "hasher \<Rightarrow> view \<Rightarrow> address \<Rightarrow> slash_reason \<Rightarrow> nat \<Rightarrow> address \<Rightarrow> (runtime_error, block_updates) result" where
  "fault_slash H v who reason current_height chal =
    (if v_validator_status v who = Some Tombstoned then Ok default_updates
     else
      (case masters_of v who of
         [] \<Rightarrow> Err (NothingToSlash who)
       | master # _ \<Rightarrow>
         and_then (ok_or (NoAllocationToSlash who) (v_stake v (master, who))) (\<lambda>allocation.
         and_then (add_or_panic u128_max (active_amount allocation) (unbonding_amount allocation)) (\<lambda>total.
         and_then (unfailing (slash_amount total (equivocation_slash_bps (chain_params_of v)))) (\<lambda>amount.
         and_then (map_err RtStaking (apply_slash H v who amount reason current_height)) (\<lambda>(accounts, stakes).
         (let pool = reward_pool_account H;
              pool_before = (case v_account v pool of Some e \<Rightarrow> balance e | None \<Rightarrow> 0)
          in
          and_then (ok_or PoolNotCredited (map_of accounts pool)) (\<lambda>pool_entry.
          and_then (sub_or_panic (balance pool_entry) pool_before) (\<lambda>received.
          and_then (unfailing (slash_amount received (challenger_reward_bps (chain_params_of v)))) (\<lambda>reward.
          and_then (pay_challenger v pool pool_entry reward chal accounts) (\<lambda>accounts.
          Ok (default_updates\<lparr>
                bu_accounts := accounts, bu_stakes := stakes,
                bu_validator_statuses := bt_insert who (Some Tombstoned) [] \<rparr>)))))))))))) "

section \<open>Equivocation evidence\<close>

datatype consensus_error =
    DifferentRounds nat nat nat
  | NoGenesisHash
  | MalformedGenesisHash
  | InvalidEvidenceError evidence_error
  | AlreadyProcessed address nat
  | CsRuntime runtime_error

definition hash32_parse :: "(string \<Rightarrow> string option) \<Rightarrow> string \<Rightarrow> string option" where
  "hash32_parse hex_decode s =
    (let hex_part = (if take 2 s = ''0x'' \<or> take 2 s = ''0X'' then drop 2 s else s) in
     case hex_decode hex_part of
       Some bytes \<Rightarrow> if length bytes = 32 then Some bytes else None
     | None \<Rightarrow> None)"

definition submit_equivocation_evidence ::
  "hasher \<Rightarrow> (string \<Rightarrow> string option) \<Rightarrow> (address \<Rightarrow> string option) \<Rightarrow>
   (string \<Rightarrow> block_signing_payload \<Rightarrow> string \<Rightarrow> bool) \<Rightarrow> ('p block \<Rightarrow> string) \<Rightarrow>
   view \<Rightarrow> 'p block \<Rightarrow> 'p block \<Rightarrow> nat \<Rightarrow> address \<Rightarrow> (consensus_error, block_updates) result" where
  "submit_equivocation_evidence H hex_decode pubkey_bytes verifies digest v block_a block_b current_height chal =
    (if b_round block_a \<noteq> b_round block_b
     then Err (DifferentRounds (b_round block_a) (b_round block_b) (b_height block_a))
     else
      and_then (ok_or NoGenesisHash (v_genesis_hash v)) (\<lambda>genesis_str.
      and_then (ok_or MalformedGenesisHash (hash32_parse hex_decode genesis_str)) (\<lambda>genesis.
      and_then (map_err InvalidEvidenceError
        (verify_equivocation hex_decode pubkey_bytes verifies digest genesis block_a block_b)) (\<lambda>equivocator.
      if v_evidence_marker v (b_height block_a, equivocator) \<noteq> None
      then Err (AlreadyProcessed equivocator (b_height block_a))
      else
       and_then (map_err CsRuntime (fault_slash H v equivocator DoubleSign current_height chal)) (\<lambda>u.
       Ok (u\<lparr> bu_evidence := Some \<lparr> em_height = b_height block_a, em_proposer = equivocator,
                em_disputed = None, em_challenger = None, em_cause = None \<rparr> \<rparr>))))))"

section \<open>Governance and attestor handlers\<close>

definition block_attestor :: "view \<Rightarrow> 'p action \<Rightarrow> (runtime_error, block_updates) result" where
  "block_attestor v act =
    and_then (map_err RtIdentity (apply_set_self_blocked v (act_sender act) True)) (\<lambda>gov.
    Ok (default_updates\<lparr> bu_governance := gov \<rparr>))"

definition grant_attestation ::
  "view \<Rightarrow> 'p action \<Rightarrow> address \<Rightarrow> string \<Rightarrow> claim_topic list \<Rightarrow> string option \<Rightarrow> nat \<Rightarrow>
   (runtime_error, block_updates) result" where
  "grant_attestation v act subject hash topics juris current_height =
    and_then (map_err RtIdentity
      (apply_grant_attestation v (act_sender act) subject hash topics juris current_height)) (\<lambda>accounts.
    Ok (default_updates\<lparr> bu_accounts := accounts \<rparr>))"

definition revoke_attestation ::
  "view \<Rightarrow> 'p action \<Rightarrow> address \<Rightarrow> (runtime_error, block_updates) result" where
  "revoke_attestation v act subject =
    and_then (map_err RtIdentity (apply_revoke_attestation v (act_sender act) subject)) (\<lambda>accounts.
    Ok (default_updates\<lparr> bu_accounts := accounts \<rparr>))"

definition gov_apply_attestor ::
  "hasher \<Rightarrow> (address \<Rightarrow> bool) \<Rightarrow> (address \<Rightarrow> pubkey option) \<Rightarrow> (nat \<Rightarrow> pubkey list \<Rightarrow> address option) \<Rightarrow>
   view \<Rightarrow> 'p action \<Rightarrow> string \<Rightarrow> address list \<Rightarrow> nat \<Rightarrow> string \<Rightarrow> string \<Rightarrow> nat \<Rightarrow>
   (runtime_error, block_updates) result" where
  "gov_apply_attestor H pubkey_ok sk ms v act name ownrs thr evidence_hash evidence_uri current_height =
    and_then (map_err RtGovernance
      (apply_attestor_application H pubkey_ok sk ms v (act_sender act) name ownrs thr evidence_hash evidence_uri current_height))
      (\<lambda>(_, governance, accounts).
    Ok (default_updates\<lparr> bu_governance := governance, bu_accounts := accounts \<rparr>))"

definition gov_vote ::
  "view \<Rightarrow> 'p action \<Rightarrow> nat \<Rightarrow> bool \<Rightarrow> nat \<Rightarrow> (runtime_error, block_updates) result" where
  "gov_vote v act proposal_no approve current_height =
    and_then (map_err RtGovernance (apply_vote v (act_sender act) proposal_no approve current_height)) (\<lambda>governance.
    Ok (default_updates\<lparr> bu_governance := governance \<rparr>))"

definition gov_execute ::
  "hasher \<Rightarrow> (address \<Rightarrow> pubkey option) \<Rightarrow> (nat \<Rightarrow> pubkey list \<Rightarrow> address option) \<Rightarrow>
   view \<Rightarrow> nat \<Rightarrow> nat \<Rightarrow> (runtime_error, block_updates) result" where
  "gov_execute H sk ms v proposal_no current_height =
    and_then (map_err RtGovernance (apply_execute H sk ms v proposal_no current_height))
      (\<lambda>(governance, accounts, slash, attestors).
    (let u = default_updates\<lparr> bu_governance := governance, bu_accounts := accounts,
               bu_attestor_registration := registration attestors,
               bu_attestor_deregistration := deregistration attestors \<rparr>
     in case slash of
          None \<Rightarrow> Ok u
        | Some open_d \<Rightarrow>
          (case fault_slash H v (culprit open_d) ExecutionFault current_height (challenger open_d) of
             Ok slashed \<Rightarrow> Ok (u\<lparr> bu_accounts := bu_accounts slashed, bu_stakes := bu_stakes slashed,
                                  bu_validator_statuses := bu_validator_statuses slashed \<rparr>)
           | Err e \<Rightarrow> Ok u
           | Panic \<Rightarrow> Panic)))"

section \<open>Nonce and fee\<close>

text \<open>\<open>action_weight\<close> depends on the encoded size of the action; the fee is computed from it.\<close>

definition action_fee_for :: "chain_params \<Rightarrow> nat \<Rightarrow> nat" where
  "action_fee_for params weight =
    saturating_add u128_max (action_fee params) (min u128_max (weight * weight_fee params))"

definition consume_nonce ::
  "'p action \<Rightarrow> view \<Rightarrow> block_updates \<Rightarrow> (runtime_error, block_updates) result" where
  "consume_nonce act v u =
    (let sender = act_sender act;
         current = (case v_account v sender of Some e \<Rightarrow> nonce e | None \<Rightarrow> 0);
         entry = (case map_of (bu_accounts u) sender of Some e \<Rightarrow> e | None \<Rightarrow> account_of v sender)
     in
     if nonce entry \<noteq> current then Ok u
     else if act_nonce act \<noteq> current then Err (RtInvalidNonce sender current (act_nonce act))
     else
      and_then (add_or_panic u64_max current 1) (\<lambda>n.
      Ok (u\<lparr> bu_accounts := bt_insert sender (entry\<lparr> nonce := n \<rparr>) (bu_accounts u) \<rparr>)))"

definition charge_action_fee ::
  "nat \<Rightarrow> 'p action \<Rightarrow> view \<Rightarrow> block_updates \<Rightarrow> (runtime_error, block_updates) result" where
  "charge_action_fee weight act v u =
    (let sender = act_sender act in
     and_then (case map_of (bu_accounts u) sender of
                 Some e \<Rightarrow> Ok e
               | None \<Rightarrow> ok_or (NoAccountForFee sender) (v_account v sender)) (\<lambda>entry.
     (let fee = action_fee_for (chain_params_of v) weight in
      and_then (ok_or (CannotPayFee fee) (checked_sub (balance entry) fee)) (\<lambda>b.
      Ok (u\<lparr> bu_accounts := bt_insert sender (entry\<lparr> balance := b \<rparr>) (bu_accounts u) \<rparr>)))))"

section \<open>Properties\<close>

lemma slash_amount_Ok_iff [simp]:
  "slash_amount t b = Ok x \<longleftrightarrow> t * b \<le> u128_max \<and> x = t * b div 10000"
  by (auto simp: slash_amount_def)

lemma fault_slash_OkE:
  assumes "fault_slash H v who reason h chal = Ok u" and "v_validator_status v who \<noteq> Some Tombstoned"
  obtains m ms e accounts stakes pool_entry accounts' where
    "masters_of v who = m # ms" "v_stake v (m, who) = Some e"
    "apply_slash H v who (locked e * equivocation_slash_bps (chain_params_of v) div 10000) reason h = Ok (accounts, stakes)"
    "map_of accounts (reward_pool_account H) = Some pool_entry"
    "pay_challenger v (reward_pool_account H) pool_entry
       ((balance pool_entry - balance (account_of v (reward_pool_account H)))
          * challenger_reward_bps (chain_params_of v) div 10000) chal accounts = Ok accounts'"
    "u = default_updates\<lparr> bu_accounts := accounts', bu_stakes := stakes,
           bu_validator_statuses := bt_insert who (Some Tombstoned) [] \<rparr>"
proof -
  have pool: "(case v_account v p of None \<Rightarrow> 0 | Some e \<Rightarrow> balance e) = balance (account_of v p)" for p
    by (simp add: account_of_def default_account_def split: option.splits)
  obtain m ms where m: "masters_of v who = m # ms"
    using assms by (cases "masters_of v who") (simp_all add: fault_slash_def)
  have "fault_slash H v who reason h chal = Ok u" by (rule assms(1))
  then show ?thesis
    unfolding fault_slash_def if_not_P [OF assms(2)] m list.case Let_def pool
    by (clarsimp simp: locked_def) (rule that, auto simp: m locked_def)
qed

text \<open>A transfer from the reward pool to a user account, after which the staking invariant still holds.\<close>

lemma pool_payment_inv:
  assumes "separated H" and "user_account H chal" and "stake_inv H v"
    and "x \<le> balance (account_of v (reward_pool_account H))"
    and "v_account w = v_account (apply_accounts v
           (bt_insert chal ((account_of v chal)\<lparr> balance := balance (account_of v chal) + x \<rparr>)
             (bt_insert (reward_pool_account H) ((account_of v (reward_pool_account H))\<lparr>
                balance := balance (account_of v (reward_pool_account H)) - x \<rparr>) [])))"
    and "v_stake w = v_stake v" and "v_stake_by_validator w = v_stake_by_validator v"
  shows "stake_inv H w" and "native_supply w = native_supply v"
proof -
  let ?p = "bt_insert chal ((account_of v chal)\<lparr> balance := balance (account_of v chal) + x \<rparr>)
             (bt_insert (reward_pool_account H) ((account_of v (reward_pool_account H))\<lparr>
                balance := balance (account_of v (reward_pool_account H)) - x \<rparr>) [])"
  have "stake_inv H (apply_accounts v ?p)"
    using assms(1,2) by (intro stake_inv_accounts [OF assms(3)]) simp
  then show "stake_inv H w" using assms(5-7) stake_inv_cong [of w "apply_accounts v ?p" H] by simp
  have "native_supply (apply_accounts v ?p) = native_supply v"
    using assms(2,4) stake_inv_finite [OF assms(3)] by (intro native_conserve) simp_all
  then show "native_supply w = native_supply v" by (simp add: native_supply_def assms(5))
qed

lemma apply_slash_accounts:
  assumes "stake_inv H v" and "v_stake v (m, who) = Some e" and "apply_slash H v who x reason h = Ok r"
  shows "fst r = bt_insert (reward_pool_account H) ((account_of v (reward_pool_account H))\<lparr>
               balance := balance (account_of v (reward_pool_account H)) + min x (locked e) \<rparr>)
             (bt_insert (stake_subaccount H who) ((account_of v (stake_subaccount H who))\<lparr>
               balance := balance (account_of v (stake_subaccount H who)) - min x (locked e) \<rparr>) [])"
  using assms(3)
proof (cases rule: apply_slash_OkE)
  case (1 m' ms' e' s d)
  have "m' = m" using stake_inv_single [OF assms(1,2)] 1(2) by blast
  then have "e' = e" using 1(2) assms(2) by simp
  moreover have "locked e \<le> balance (account_of v (stake_subaccount H who))"
    using stake_inv_row [OF assms(1,2)] by (simp add: row_ok_def)
  ultimately have "d = min x (locked e)" using 1(3,4) by simp
  then show ?thesis using 1(7) by simp
qed

text \<open>Paying the challenger out of the pool row of a slash that took \<open>d\<close>.\<close>

lemma pay_challenger_inv:
  assumes "separated H" and "user_account H chal" and inv: "stake_inv H (staked v (accounts, stakes))"
    and accounts: "accounts = bt_insert (reward_pool_account H) pool_entry
             (bt_insert (stake_subaccount H who) sub_entry [])"
    and pay: "pay_challenger v (reward_pool_account H) pool_entry x chal accounts = Ok accounts'"
    and w: "v_account w = v_account (staked v (accounts', stakes))"
      "v_stake w = v_stake (staked v (accounts, stakes))"
      "v_stake_by_validator w = v_stake_by_validator (staked v (accounts, stakes))"
  shows "stake_inv H w \<and> native_supply w = native_supply (staked v (accounts, stakes)) \<and>
    balance (account_of w chal) = balance (account_of v chal) + x \<and>
    balance (account_of w (reward_pool_account H)) + x = balance pool_entry"
proof (cases "0 < x")
  case False
  then have acc: "v_account w = v_account (staked v (accounts, stakes))"
    using pay w(1) by (simp add: pay_challenger_def)
  then have "account_of w a = account_of (staked v (accounts, stakes)) a" for a by (simp add: account_of_def)
  then show ?thesis
    using inv stake_inv_cong [OF acc w(2,3), of H] assms(1,2) False
    by (simp add: native_supply_def acc, simp add: staked_def accounts)
next
  case True
  let ?pool = "reward_pool_account H" and ?s = "staked v (accounts, stakes)"
  have le: "x \<le> balance pool_entry" and accounts': "accounts' =
      bt_insert chal ((account_of v chal)\<lparr> balance := balance (account_of v chal) + x \<rparr>)
        (bt_insert ?pool (pool_entry\<lparr> balance := balance pool_entry - x \<rparr>) accounts)"
    using pay True assms(1,2) by (auto simp: pay_challenger_def Let_def accounts)
  have s: "account_of ?s ?pool = pool_entry" "account_of ?s chal = account_of v chal"
    using assms(1,2) by (simp_all add: staked_def accounts)
  have "v_account w = v_account (apply_accounts ?s
       (bt_insert chal ((account_of ?s chal)\<lparr> balance := balance (account_of ?s chal) + x \<rparr>)
         (bt_insert ?pool ((account_of ?s ?pool)\<lparr> balance := balance (account_of ?s ?pool) - x \<rparr>) [])))"
    unfolding s w(1) using assms(1,2) by (simp add: staked_def accounts' accounts)
  with le have "stake_inv H w \<and> native_supply w = native_supply ?s"
    using pool_payment_inv [OF assms(1,2) inv _ _ w(2,3)] s(1) by simp
  moreover have "account_of w a = account_of (staked v (accounts', stakes)) a" for a
    by (simp add: account_of_def w(1))
  ultimately show ?thesis using assms(1,2) le by (simp add: staked_def accounts' accounts)
qed

text \<open>
  A tombstoning fault is punished exactly once and without minting. Against a validator that is
  already tombstoned, \<open>fault_slash\<close> changes nothing. Otherwise it takes
  \<open>equivocation_slash_bps\<close> of the locked stake (at most all of it), pays \<open>challenger_reward_bps\<close> of
  what was taken to the challenger and the rest to the reward pool, tombstones the culprit, and
  keeps the supply and the staking invariant.
\<close>

theorem fault_slash_sound:
  assumes "separated H" and "user_account H chal" and "stake_inv H v"
    and "fault_slash H v who reason h chal = Ok u"
  shows "if v_validator_status v who = Some Tombstoned then u = default_updates
    else \<exists>m e taken reward. v_stake v (m, who) = Some e \<and>
      taken = min (locked e * equivocation_slash_bps (chain_params_of v) div 10000) (locked e) \<and>
      reward = taken * challenger_reward_bps (chain_params_of v) div 10000 \<and>
      stake_inv H (absorb_updates v u) \<and> native_supply (absorb_updates v u) = native_supply v \<and>
      balance (account_of (absorb_updates v u) chal) = balance (account_of v chal) + reward \<and>
      balance (account_of (absorb_updates v u) (reward_pool_account H)) + reward =
        balance (account_of v (reward_pool_account H)) + taken \<and>
      v_validator_status (absorb_updates v u) who = Some Tombstoned"
proof (cases "v_validator_status v who = Some Tombstoned")
  case True
  then show ?thesis using assms(4) by (simp add: fault_slash_def)
next
  case live: False
  from assms(4) live show ?thesis
  proof (cases rule: fault_slash_OkE)
    case (1 m ms e accounts stakes pool_entry accounts')
    let ?w = "absorb_updates v u" and ?pool = "reward_pool_account H"
    let ?d = "min (locked e * equivocation_slash_bps (chain_params_of v) div 10000) (locked e)"
    let ?r = "?d * challenger_reward_bps (chain_params_of v) div 10000"
    note slash = apply_slash_inv [OF assms(1,3) 1(3)]
    note acc = apply_slash_accounts [OF assms(3) 1(2,3), unfolded fst_conv]
    have pe: "pool_entry = (account_of v ?pool)\<lparr> balance := balance (account_of v ?pool) + ?d \<rparr>"
      using 1(4) acc by simp
    have pay: "pay_challenger v ?pool pool_entry ?r chal accounts = Ok accounts'" using 1(5) pe by simp
    have "stake_inv H ?w \<and> native_supply ?w = native_supply (staked v (accounts, stakes)) \<and>
        balance (account_of ?w chal) = balance (account_of v chal) + ?r \<and>
        balance (account_of ?w ?pool) + ?r = balance pool_entry"
      by (rule pay_challenger_inv [OF assms(1,2) slash(1) acc [folded pe] pay])
         (simp_all add: absorb_updates_rows 1(6) staked_def)
    moreover have "v_validator_status ?w who = Some Tombstoned" by (simp add: absorb_updates_rows(7) 1(6))
    ultimately show ?thesis
      using live 1(2) slash(2) pe by (simp, intro exI [of _ m] exI [of _ e]) simp
  qed
qed

lemma sample_bob_user: "user_account sample_hasher sample_bob" "sample_bob \<noteq> sample_alice"
  by (simp_all add: user_account_def sample_hasher_def sample_bob_def sample_alice_def stake_subaccount_def
      reward_pool_account_def treasury_account_def)

lemma sample_fault:
  "\<exists>u. fault_slash sample_hasher sample_view sample_alice DoubleSign 12 sample_bob = Ok u"
proof -
  have b: "balance (account_of sample_view sample_bob) = 0"
    using sample_bob_user by (simp add: account_of_def sample_view_def empty_view_def default_account_def)
  have rows: "masters_of sample_view sample_alice = [sample_alice]"
    "v_stake sample_view (sample_alice, sample_alice) = Some sample_allocation"
    "v_validator_status sample_view sample_alice = None"
    "chain_params_of sample_view = default_chain_params"
    by (simp_all add: sample_view_def masters_of_def empty_view_def chain_params_of_def)
  have p: "(case v_account sample_view (reward_pool_account sample_hasher) of None \<Rightarrow> 0 | Some e \<Rightarrow> balance e) = 7"
    using sample_accounts(4) by (cases "v_account sample_view (reward_pool_account sample_hasher)")
      (simp_all add: account_of_def default_account_def)
  have "is_ok (fault_slash sample_hasher sample_view sample_alice DoubleSign 12 sample_bob)"
    using sample_accounts sample_separated sample_bob_user(1) b
    by (simp add: fault_slash_def rows p Let_def sample_allocation_def unbonding_amount_def
        default_chain_params_def apply_slash_def slash_amount_def mul_or_panic_def checked_mul_def
        add_or_panic_def checked_add_def expect_def credit_def u128_max_def
        sub_or_panic_def checked_sub_def pay_challenger_def)
  then show ?thesis by (simp add: is_ok_iff)
qed

theorem fault_slash_sound_witness:
  "\<exists>u. fault_slash sample_hasher sample_view sample_alice DoubleSign 12 sample_bob = Ok u \<and>
     v_validator_status (absorb_updates sample_view u) sample_alice = Some Tombstoned \<and>
     native_supply (absorb_updates sample_view u) = 607"
proof -
  from sample_fault obtain u where
    u: "fault_slash sample_hasher sample_view sample_alice DoubleSign 12 sample_bob = Ok u" ..
  have "v_validator_status sample_view sample_alice \<noteq> Some Tombstoned"
    by (simp add: sample_view_def empty_view_def)
  with fault_slash_sound [OF sample_separated sample_bob_user(1) sample_stake_inv u] u sample_supply
  show ?thesis by auto
qed

end
