(* ===== verification/Epoch_Seal.thy ===== *)
theory Epoch_Seal
  imports Runtime_Consensus Proposer
begin

text \<open>
  Sealing a block: the epoch-boundary hook (\<^verbatim>\<open>src/arxd/runtime/src/epoch.rs\<close>), which alone writes the
  validator set, and the whole-block economics around it (\<^verbatim>\<open>seal\<close> and \<^verbatim>\<open>SealOverlay\<close> in
  \<^verbatim>\<open>src/arxd/runtime/src/lib.rs\<close>): block reward, downtime slash and jail, boundary, and the list of
  validator candidates.
\<close>

section \<open>The boundary hook\<close>

definition total_stake :: "view \<Rightarrow> address \<Rightarrow> nat option" where
  "total_stake v validator =
    (let masters = masters_of v validator in
     if masters = [] then None
     else Some (fold (\<lambda>master total.
                  case v_stake v (master, validator) of
                    Some allocation \<Rightarrow> saturating_add u128_max total (active_amount allocation)
                  | None \<Rightarrow> total) masters 0))"

text \<open>The candidates are a \<open>BTreeSet\<close>; the statuses are read back through the view in its order.\<close>

definition candidate_statuses :: "view \<Rightarrow> address list \<Rightarrow> (address, validator_status) btree" where
  "candidate_statuses v written =
    List.map_filter (\<lambda>address. map_option (\<lambda>st. (address, st)) (v_validator_status v address))
      (sort (remdups (unwrap_or [] (v_validator_candidates v) @ written)))"

definition qualifies :: "view \<Rightarrow> nat \<Rightarrow> address \<times> validator_status \<Rightarrow> (address \<times> nat) option" where
  "qualifies v next_epoch = (\<lambda>(address, st).
    if \<not> eligible_for st next_epoch then None
    else
     (case total_stake v address of
        None \<Rightarrow> None
      | Some staked_amount \<Rightarrow>
        if staked_amount < min_validator_stake (chain_params_of v) then None
        else if validator_attestation_required (chain_params_of v) \<and> \<not> is_attested v address then None
        else Some (address, staked_amount)))"

text \<open>Descending by stake, ties by ascending address, cut to the largest set allowed.\<close>

definition top_stakes :: "nat \<Rightarrow> (address \<times> nat) list \<Rightarrow> (address \<times> nat) list" where
  "top_stakes n eligible = take (max n 1) (sort_key (\<lambda>(a, s). (- int s, a)) eligible)"

fun next_status :: "nat \<Rightarrow> bool \<Rightarrow> validator_status \<Rightarrow> validator_status option option" where
  "next_status next_epoch True st = Some (Some Active)"
| "next_status next_epoch False (Leaving from_epoch) = (if from_epoch \<le> next_epoch then Some None else None)"
| "next_status next_epoch False Active = Some (Some Pending)"
| "next_status next_epoch False _ = None"

definition status_changes ::
  "nat \<Rightarrow> validator_set \<Rightarrow> (address, validator_status) btree \<Rightarrow> validator_status_updates" where
  "status_changes next_epoch vset statuses =
    fold (\<lambda>(address, st) u.
      case next_status next_epoch (map_of vset address \<noteq> None) st of
        Some nxt \<Rightarrow> if nxt \<noteq> Some st then bt_insert address nxt u else u
      | None \<Rightarrow> u) statuses []"

definition boundary_hook :: "view \<Rightarrow> address list \<Rightarrow> nat \<Rightarrow> (never, block_updates) result" where
  "boundary_hook v written height =
    (let params = chain_params_of v in
     and_then (is_boundary height (epoch_length params)) (\<lambda>boundary.
     if \<not> boundary then Ok default_updates
     else
      and_then (add_or_panic u64_max (epoch_of height (epoch_length params)) 1) (\<lambda>next_epoch.
      (let statuses = candidate_statuses v written;
           eligible = top_stakes (max_validator_set params) (List.map_filter (qualifies v next_epoch) statuses)
       in
       if length eligible < min_validator_set params
       then
         and_then (validator_set_effective_height height (epoch_length params)) (\<lambda>current.
         Ok (default_updates\<lparr> bu_validator_set := Some (unwrap_or [] (v_validator_set v current)) \<rparr>))
       else
         and_then (assign_voting_power (bt_from eligible)) (\<lambda>vset.
         Ok (default_updates\<lparr>
               bu_validator_statuses := status_changes next_epoch vset statuses,
               bu_validator_set := Some vset \<rparr>))))))"

section \<open>The seal\<close>

definition overlay_apply :: "view \<Rightarrow> block_updates \<Rightarrow> view" where
  "overlay_apply v u =
    apply_validator_statuses (apply_stakes (apply_accounts v (bu_accounts u)) (bu_stakes u))
      (bu_validator_statuses u)"

text \<open>The downtime step: slash of the primary that missed its slot, and the jail that goes with it.\<close>

definition downtime_step ::
  "hasher \<Rightarrow> view \<Rightarrow> view \<Rightarrow> address \<Rightarrow> address list \<Rightarrow> nat \<Rightarrow> block_updates \<Rightarrow>
   (never, block_updates \<times> view) result" where
  "downtime_step H v sealed who validators height u =
    (let params = chain_params_of v in
     case expected_proposer validators height of
       None \<Rightarrow> Ok (u, sealed)
     | Some primary \<Rightarrow>
       and_then (apply_downtime_slash H sealed primary who height (downtime_slash_bps params))
         (\<lambda>(downtime_accounts, downtime_stakes).
       and_then
         (if allocations downtime_stakes = [] then Ok u
          else
           and_then (add_or_panic u64_max (epoch_of height (epoch_length params)) 2) (\<lambda>until.
           case v_validator_status v primary of
             Some Tombstoned \<Rightarrow> Ok u
           | Some (Jailed _) \<Rightarrow> Ok u
           | _ \<Rightarrow> Ok (u\<lparr> bu_validator_statuses :=
                        bt_insert primary (Some (Jailed until)) (bu_validator_statuses u) \<rparr>))) (\<lambda>u.
       (let u = u\<lparr> bu_accounts := bt_extend (bu_accounts u) downtime_accounts,
                   bu_stakes := \<lparr> allocations = bt_extend (allocations (bu_stakes u)) (allocations downtime_stakes),
                                  validator_index = bt_extend (validator_index (bu_stakes u)) (validator_index downtime_stakes) \<rparr> \<rparr>
        in Ok (u, overlay_apply sealed u)))))"

text \<open>The candidate list is a \<open>BTreeSet\<close> while it is edited and a sorted list in its row.\<close>

definition update_candidates :: "view \<Rightarrow> address list \<Rightarrow> address list \<Rightarrow> address list" where
  "update_candidates sealed before touched =
    fold (\<lambda>address after.
      if v_validator_status sealed address \<noteq> None
      then (if address \<in> set after then after else insort address after)
      else remove1 address after) touched (sort (remdups before))"

definition finish_seal ::
  "view \<Rightarrow> address list \<Rightarrow> block_updates \<Rightarrow> view \<Rightarrow> block_updates \<Rightarrow> block_updates" where
  "finish_seal v written u sealed boundary =
    (let u = u\<lparr> bu_validator_statuses := bt_extend (bu_validator_statuses u) (bu_validator_statuses boundary),
                bu_validator_set := bu_validator_set boundary \<rparr>;
         sealed = overlay_apply sealed u;
         before = unwrap_or [] (v_validator_candidates v);
         after = update_candidates sealed before (written @ bt_keys (bu_validator_statuses u))
     in
     if after \<noteq> before
     then u\<lparr> bu_governance := bu_governance u @ [PutValidatorCandidates after] \<rparr>
     else u)"

definition seal ::
  "hasher \<Rightarrow> view \<Rightarrow> address list \<Rightarrow> address \<Rightarrow> nat \<Rightarrow> address list \<Rightarrow> nat \<Rightarrow> (never, block_updates) result" where
  "seal H v written who fees validators height =
    (let params = chain_params_of v in
     and_then (apply_block_reward H v who fees (reward_per_block params) (fee_proposer_bps params)
                 (fee_treasury_bps params)) (\<lambda>reward_updates.
     (let u = default_updates\<lparr> bu_accounts := reward_updates \<rparr>;
          sealed = overlay_apply v u
      in
      and_then (downtime_step H v sealed who validators height u) (\<lambda>(u, sealed).
      and_then (boundary_hook sealed written height) (\<lambda>boundary.
      Ok (finish_seal v written u sealed boundary))))))"

text \<open>\<open>BlockView::written_validator_statuses\<close> of the view the seal reads through.\<close>

definition written_validator_statuses :: "('a, 'e) execution_outcome \<Rightarrow> address list" where
  "written_validator_statuses out =
    bt_keys (o_validator_statuses out) @
    List.map_filter (\<lambda>w. case w of DeleteValidatorStatus a \<Rightarrow> Some a | _ \<Rightarrow> None) (o_governance out)"

definition on_block_sealed ::
  "hasher \<Rightarrow> view \<Rightarrow> ('a, 'e) execution_outcome \<Rightarrow> address \<Rightarrow> address list \<Rightarrow> nat \<Rightarrow> (never, block_updates) result" where
  "on_block_sealed H db out who validators height =
    seal H (seal_view db out) (written_validator_statuses out) who (fees_collected out) validators height"

section \<open>Who is elected\<close>

text \<open>The rule the boundary hook implements, and the stake it ranks by.\<close>

definition electable :: "view \<Rightarrow> address list \<Rightarrow> nat \<Rightarrow> address \<Rightarrow> bool" where
  "electable v written next_epoch a \<longleftrightarrow>
     a \<in> set (unwrap_or [] (v_validator_candidates v)) \<union> set written \<and>
     (\<exists>st. v_validator_status v a = Some st \<and> eligible_for st next_epoch) \<and>
     (\<exists>s. total_stake v a = Some s \<and> min_validator_stake (chain_params_of v) \<le> s) \<and>
     (validator_attestation_required (chain_params_of v) \<longrightarrow> is_attested v a)"

definition ranked :: "view \<Rightarrow> address \<Rightarrow> nat" where
  "ranked v a = unwrap_or 0 (total_stake v a)"

lemma map_filter_keys:
  "(\<And>x y. f x = Some y \<Longrightarrow> fst y = g x) \<Longrightarrow>
   map fst (List.map_filter f xs) = map g (filter (\<lambda>x. f x \<noteq> None) xs)"
  by (induction xs) (auto simp: List.map_filter_simps split: option.splits)

lemma set_map_filter: "set (List.map_filter f xs) = {y. \<exists>x\<in>set xs. f x = Some y}"
  by (induction xs) (auto simp: List.map_filter_simps split: option.splits)

lemma candidate_statuses_keys:
  "map fst (candidate_statuses v written) =
     filter (\<lambda>a. v_validator_status v a \<noteq> None)
       (sort (remdups (unwrap_or [] (v_validator_candidates v) @ written)))"
  unfolding candidate_statuses_def by (subst map_filter_keys [where g = "\<lambda>a. a"]) auto

lemma candidate_statuses_wf: "bt_wf (candidate_statuses v written)"
  unfolding bt_wf_def candidate_statuses_keys by (simp add: strict_sorted_iff sorted_filter [where f = "\<lambda>a. a", simplified])

lemma candidate_statuses_set:
  "(a, st) \<in> set (candidate_statuses v written) \<longleftrightarrow>
     a \<in> set (unwrap_or [] (v_validator_candidates v)) \<union> set written \<and> v_validator_status v a = Some st"
  by (auto simp: candidate_statuses_def set_map_filter)

lemma map_of_candidate_statuses:
  "map_of (candidate_statuses v written) a =
     (if a \<in> set (unwrap_or [] (v_validator_candidates v)) \<union> set written then v_validator_status v a else None)"
proof -
  note d = bt_wf_distinct [OF candidate_statuses_wf [of v written]]
  show ?thesis
    by (cases "v_validator_status v a")
      (auto simp: map_of_eq_None_iff candidate_statuses_set split: if_splits
            intro!: map_of_is_SomeI [OF d] dest: map_of_SomeD)
qed

lemma qualifies_Some_iff:
  "qualifies v e (a, st) = Some (b, s) \<longleftrightarrow>
     b = a \<and> eligible_for st e \<and> total_stake v a = Some s \<and> min_validator_stake (chain_params_of v) \<le> s \<and>
     (validator_attestation_required (chain_params_of v) \<longrightarrow> is_attested v a)"
  by (auto simp: qualifies_def split: option.splits)

definition eligibles :: "view \<Rightarrow> address list \<Rightarrow> nat \<Rightarrow> (address \<times> nat) list" where
  "eligibles v written e = List.map_filter (qualifies v e) (candidate_statuses v written)"

lemma set_eligibles:
  "(a, s) \<in> set (eligibles v written e) \<longleftrightarrow> electable v written e a \<and> s = ranked v a"
  by (auto simp: eligibles_def set_map_filter electable_def ranked_def qualifies_Some_iff candidate_statuses_set
      Bex_def)

lemma distinct_eligibles: "distinct (map fst (eligibles v written e))"
proof -
  have "map fst (eligibles v written e) =
        map fst (filter (\<lambda>x. qualifies v e x \<noteq> None) (candidate_statuses v written))"
    unfolding eligibles_def by (rule map_filter_keys) (auto simp: qualifies_Some_iff)
  with bt_wf_distinct [OF candidate_statuses_wf [of v written]] show ?thesis by (simp add: distinct_map_filter)
qed

lemma keys_eligibles: "fst ` set (eligibles v written e) = {a. electable v written e a}"
proof -
  have "x \<in> fst ` S \<longleftrightarrow> (\<exists>s. (x, s) \<in> S)" for x and S :: "(address \<times> nat) set" by force
  then show ?thesis by (simp add: set_eq_iff set_eligibles)
qed

lemma length_eligibles: "length (eligibles v written e) = card {a. electable v written e a}"
  using distinct_card [OF distinct_eligibles [of v written e]] by (simp add: keys_eligibles)

subsection \<open>The cut\<close>

lemma top_stakes_set: "set (top_stakes n xs) \<subseteq> set xs"
  by (auto simp: top_stakes_def dest: in_set_takeD)

lemma top_stakes_length: "length (top_stakes n xs) = min (length xs) (max n 1)"
  by (simp add: top_stakes_def)

lemma top_stakes_distinct: "distinct (map fst xs) \<Longrightarrow> distinct (map fst (top_stakes n xs))"
proof -
  assume "distinct (map fst xs)"
  moreover have "mset (map fst (sort_key (\<lambda>(a, s). (- int s, a)) xs)) = mset (map fst xs)" by simp
  ultimately have "distinct (map fst (sort_key (\<lambda>(a, s). (- int s, a)) xs))"
    using mset_eq_imp_distinct_iff by blast
  then show ?thesis by (simp add: top_stakes_def take_map [symmetric])
qed

lemma top_stakes_best:
  assumes "(a, s) \<in> set (top_stakes n xs)" and "(b, t) \<in> set xs" and "(b, t) \<notin> set (top_stakes n xs)"
  shows "t < s \<or> t = s \<and> a < b"
proof -
  let ?k = "\<lambda>(a, s). (- int s, a)" and ?m = "max n 1"
  let ?ys = "sort_key ?k xs"
  have sorted: "sorted (map ?k (take ?m ?ys) @ map ?k (drop ?m ?ys))"
    by (simp flip: map_append)
  have "(b, t) \<in> set ?ys" using assms(2) by simp
  then have "(b, t) \<in> set (drop ?m ?ys)"
    using assms(3) unfolding top_stakes_def by (metis Un_iff append_take_drop_id set_append)
  then have "?k (b, t) \<in> set (map ?k (drop ?m ?ys))" unfolding set_map by (rule imageI)
  moreover have "?k (a, s) \<in> set (map ?k (take ?m ?ys))"
    unfolding set_map using assms(1) unfolding top_stakes_def by (rule imageI)
  ultimately have "?k (a, s) \<le> ?k (b, t)" using sorted unfolding sorted_append by blast
  moreover have "(a, s) \<noteq> (b, t)" using assms(1,3) by auto
  ultimately show ?thesis by (auto simp: less_eq_prod_def le_less)
qed

lemma bt_from_distinct:
  assumes "distinct (map fst xs)"
  shows "mset (bt_from xs) = mset xs" and "set (bt_from xs) = set xs" and "length (bt_from xs) = length xs"
    and "sum_list (map snd (bt_from xs)) = sum_list (map (snd :: _ \<Rightarrow> nat) xs)"
proof -
  show m: "mset (bt_from xs) = mset xs"
    using mset_bt_extend [OF assms, of "[]"] by (simp add: bt_extend_def bt_from_def)
  show "set (bt_from xs) = set xs" "length (bt_from xs) = length xs"
    using mset_eq_setD [OF m] mset_eq_length [OF m] by simp_all
  show "sum_list (map snd (bt_from xs)) = sum_list (map (snd :: _ \<Rightarrow> nat) xs)"
    using m by (metis mset_map sum_mset_sum_list)
qed

subsection \<open>Status rows\<close>

lemma map_of_status_changes:
  assumes "distinct (map fst xs)"
  shows "map_of (status_changes e vset xs) a =
    (case map_of xs a of
       None \<Rightarrow> None
     | Some st \<Rightarrow>
       (case next_status e (map_of vset a \<noteq> None) st of
          Some nxt \<Rightarrow> if nxt \<noteq> Some st then Some nxt else None
        | None \<Rightarrow> None))"
proof -
  let ?f = "\<lambda>(address, st) u. case next_status e (map_of vset address \<noteq> None) st of
      Some nxt \<Rightarrow> if nxt \<noteq> Some st then bt_insert address nxt u else u | None \<Rightarrow> u"
  have skip: "map_of (fold ?f ys u) a = map_of u a" if "a \<notin> fst ` set ys" for ys u
    using that by (induction ys arbitrary: u) (auto split: option.splits)
  have "map_of (fold ?f xs u) a = (case map_of xs a of None \<Rightarrow> map_of u a
     | Some st \<Rightarrow> (case next_status e (map_of vset a \<noteq> None) st of
          Some nxt \<Rightarrow> if nxt \<noteq> Some st then Some nxt else map_of u a | None \<Rightarrow> map_of u a))" for u
    using assms
  proof (induction xs arbitrary: u)
    case (Cons x xs)
    obtain b st where x: "x = (b, st)" by (cases x)
    show ?case
    proof (cases "b = a")
      case True
      with Cons.prems x skip [of xs] show ?thesis by (auto split: option.splits)
    next
      case False
      with Cons x show ?thesis by (simp split: option.split)
    qed
  qed simp
  from this [of "[]"] show ?thesis unfolding status_changes_def by (simp only: map_of.simps)
qed

lemma bt_wf_status_changes: "bt_wf (status_changes e vset xs)"
proof -
  have "bt_wf u \<Longrightarrow> bt_wf (fold (\<lambda>(address, st) u. case next_status e (map_of vset address \<noteq> None) st of
      Some nxt \<Rightarrow> if nxt \<noteq> Some st then bt_insert address nxt u else u | None \<Rightarrow> u) xs u)" for u
    by (induction xs arbitrary: u) (auto simp: bt_wf_insert split: option.splits)
  then show ?thesis by (simp add: status_changes_def)
qed

text \<open>After a boundary a listed validator is \<open>Active\<close> exactly when it is in the new set.\<close>

lemma status_after_boundary:
  assumes "bt_wf statuses" and "map_of statuses a = Some st" and "m a = Some st"
  shows "overlay m (status_changes e vset statuses) a = Some Active \<longleftrightarrow> map_of vset a \<noteq> None"
  using assms bt_wf_distinct [OF assms(1)]
  by (cases "map_of vset a"; cases st) (auto simp: overlay_def map_of_status_changes)

subsection \<open>Stakes fit the supply\<close>

lemma total_stake_inv:
  assumes "stake_inv H v" and "native_supply v \<le> u128_max" and "total_stake v a = Some s"
  obtains m e where "v_stake v (m, a) = Some e" and "s = active_amount e"
    and "s \<le> balance (account_of v (stake_subaccount H a))"
proof -
  have "v_stake_by_validator v a \<noteq> None"
    using assms(3) by (cases "v_stake_by_validator v a") (simp_all add: total_stake_def masters_of_def)
  then obtain ms where "v_stake_by_validator v a = Some ms" by auto
  with assms(1) obtain m where ms: "v_stake_by_validator v a = Some [m]" and "v_stake v (m, a) \<noteq> None"
    unfolding stake_inv_def by blast
  then obtain e where e: "v_stake v (m, a) = Some e" by auto
  have "locked e \<le> balance (account_of v (stake_subaccount H a))"
    using stake_inv_row [OF assms(1) e] by (simp add: row_ok_def)
  moreover have "balance (account_of v (stake_subaccount H a)) \<le> native_supply v"
    by (rule native_le_supply [OF stake_inv_finite [OF assms(1)]])
  ultimately have "active_amount e \<le> u128_max" "active_amount e \<le> balance (account_of v (stake_subaccount H a))"
    using assms(2) by (simp_all add: locked_def)
  moreover have "s = active_amount e"
    using assms(3) ms e calculation by (simp add: total_stake_def masters_of_def saturating_add_def)
  ultimately show ?thesis using that e by blast
qed

lemma distinct_accounts_le_supply:
  assumes "finite (dom (v_account v))" and "distinct (map f xs)"
  shows "(\<Sum>x\<leftarrow>xs. balance (account_of v (f x))) \<le> native_supply v"
proof -
  let ?b = "\<lambda>a. balance (account_of v a)"
  have "(\<Sum>x\<leftarrow>xs. ?b (f x)) = (\<Sum>a\<in>set (map f xs). ?b a)"
    using sum_list_distinct_conv_sum_set [OF assms(2), of ?b] by (simp add: o_def)
  also have "\<dots> = (\<Sum>a\<in>set (map f xs) \<inter> dom (v_account v). ?b a)"
  proof (rule sum.mono_neutral_right)
    have "?b a = 0" if "a \<notin> dom (v_account v)" for a using that by (simp add: account_of_def domIff)
    then show "\<forall>a\<in>set (map f xs) - set (map f xs) \<inter> dom (v_account v). ?b a = 0" by blast
  qed auto
  also have "\<dots> \<le> (\<Sum>a\<in>dom (v_account v). ?b a)"
    using assms(1) by (intro sum_mono2) auto
  also have "\<dots> = native_supply v"
    by (auto simp: native_supply_def msum_def account_of_def intro!: sum.cong)
  finally show ?thesis .
qed

lemma eligible_stakes_le_supply:
  assumes "separated H" and "stake_inv H v" and "native_supply v \<le> u128_max"
    and "distinct (map fst xs)" and "\<forall>(a, s)\<in>set xs. total_stake v a = Some s"
  shows "sum_list (map snd xs) \<le> native_supply v"
proof -
  have "s \<le> balance (account_of v (stake_subaccount H a))" if "(a, s) \<in> set xs" for a s
    using total_stake_inv [OF assms(2,3)] assms(5) that by blast
  then have "sum_list (map snd xs) \<le> (\<Sum>x\<leftarrow>xs. balance (account_of v (stake_subaccount H (fst x))))"
    by (intro sum_list_mono) auto
  also have "\<dots> \<le> native_supply v"
  proof (rule distinct_accounts_le_supply [OF stake_inv_finite [OF assms(2)]])
    show "distinct (map (\<lambda>x. stake_subaccount H (fst x)) xs)"
      using assms(1,4) by (auto simp: distinct_map inj_on_def)
  qed
  finally show ?thesis .
qed

subsection \<open>The election\<close>

definition elected :: "view \<Rightarrow> address list \<Rightarrow> nat \<Rightarrow> nat \<Rightarrow> validator_set \<Rightarrow> bool" where
  "elected v written e n vset \<longleftrightarrow>
     length vset = n \<and> bt_wf vset \<and> sum_list (map snd vset) = TOTAL_VOTING_POWER \<and>
     (\<forall>p\<in>set vset. snd p \<le> power_cap n) \<and>
     (\<forall>a\<in>dom (map_of vset). electable v written e a) \<and>
     (\<forall>a\<in>dom (map_of vset). \<forall>b. electable v written e b \<and> b \<notin> dom (map_of vset) \<longrightarrow>
        ranked v b < ranked v a \<or> ranked v b = ranked v a \<and> a < b)"

lemma boundary_hook_eq:
  assumes "height < u64_max" and "max (epoch_length (chain_params_of v)) 1 dvd Suc height"
  shows "boundary_hook v written height =
    (let params = chain_params_of v; e = Suc (epoch_of height (epoch_length params));
         chosen = top_stakes (max_validator_set params) (eligibles v written e)
     in if length chosen < min_validator_set params
        then Ok (default_updates\<lparr> bu_validator_set :=
               Some (unwrap_or [] (v_validator_set v
                 (epoch_of height (epoch_length params) * max (epoch_length params) 1))) \<rparr>)
        else and_then (assign_voting_power (bt_from chosen)) (\<lambda>vset.
          Ok (default_updates\<lparr> bu_validator_statuses := status_changes e vset (candidate_statuses v written),
                               bu_validator_set := Some vset \<rparr>)))"
proof -
  let ?l = "epoch_length (chain_params_of v)"
  have e: "epoch_of height ?l \<le> height" by (simp add: epoch_of_def)
  have h: "epoch_of height ?l * max ?l 1 \<le> height" by (simp add: epoch_of_def)
  have b: "is_boundary height ?l = Ok True"
    using assms by (simp add: is_boundary_def)
  have a: "add_or_panic u64_max (epoch_of height ?l) 1 = (Ok (Suc (epoch_of height ?l)) :: (never, nat) result)"
    using assms(1) e by simp
  have c: "validator_set_effective_height height ?l = Ok (epoch_of height ?l * max ?l 1)"
    using assms(1) h by (simp add: validator_set_effective_height_def)
  show ?thesis unfolding boundary_hook_def Let_def b and_then.simps a c eligibles_def by simp
qed

lemma chosen_elected:
  assumes "separated H" and "stake_inv H v" and "10000 * native_supply v \<le> u128_max"
    and "chosen = top_stakes m (eligibles v written e)" and "chosen \<noteq> []" and "m < 2 ^ 32"
  shows "\<exists>vset. assign_voting_power (bt_from chosen) = Ok vset \<and> elected v written e (length chosen) vset"
proof -
  have d: "distinct (map fst chosen)"
    unfolding assms(4) by (rule top_stakes_distinct [OF distinct_eligibles])
  note bt = bt_from_distinct [OF d]
  have sub: "(a, s) \<in> set chosen \<Longrightarrow> electable v written e a \<and> s = ranked v a" for a s
    using top_stakes_set [of m "eligibles v written e"] unfolding assms(4) by (auto simp: set_eligibles)
  have "total_stake v a = Some s" if "(a, s) \<in> set chosen" for a s
    using sub [OF that] by (auto simp: electable_def ranked_def)
  then have "\<forall>(a, s)\<in>set chosen. total_stake v a = Some s" by blast
  moreover have "native_supply v \<le> u128_max" using assms(3) by simp
  ultimately have "sum_list (map snd chosen) \<le> native_supply v"
    using eligible_stakes_le_supply [OF assms(1,2) _ d] by blast
  then have "10000 * sum_list (map snd (bt_from chosen)) \<le> u128_max" using bt(4) assms(3) by linarith
  moreover have "length (bt_from chosen) < 2 ^ 32" using assms(6) bt(3) by (simp add: assms(4) top_stakes_length)
  moreover have "bt_from chosen \<noteq> []" using bt(3) assms(5) by auto
  ultimately obtain vset where vset: "assign_voting_power (bt_from chosen) = Ok vset"
    and post: "power_post (power_cap (length chosen)) (fst ` set chosen) vset"
    using assign_voting_power_post [OF bt_wf_from [of chosen]] bt by auto
  have keys: "dom (map_of vset) = fst ` set chosen" using post by (simp add: power_post_def dom_map_of_conv_image_fst)
  have "length vset = card (fst ` set vset)"
    using post bt_wf_distinct by (metis distinct_card length_map list.set_map power_post_def)
  also have "\<dots> = length chosen"
    using post distinct_card [OF d] by (simp add: power_post_def)
  finally have len: "length vset = length chosen" .
  have best: "ranked v b < ranked v a \<or> ranked v b = ranked v a \<and> a < b"
    if "a \<in> fst ` set chosen" "electable v written e b" "b \<notin> fst ` set chosen" for a b
  proof -
    from that(1) sub have "(a, ranked v a) \<in> set chosen" by force
    moreover have "(b, ranked v b) \<in> set (eligibles v written e)" using that(2) by (simp add: set_eligibles)
    moreover have "(b, ranked v b) \<notin> set chosen" using that(3) by force
    ultimately show ?thesis unfolding assms(4) by (rule top_stakes_best)
  qed
  have "elected v written e (length chosen) vset"
    unfolding elected_def keys using post len best sub
    by (auto simp: power_post_def TOTAL_VOTING_POWER_def)
  with vset show ?thesis by blast
qed

text \<open>
  C24: every epoch boundary elects the next validator set, and elects it right. With fewer qualified
  candidates than \<open>min_validator_set\<close> the current set is written again and no status changes. Otherwise
  the new set has as many members as qualify, up to \<open>max_validator_set\<close>; its powers sum to exactly 10,000
  under the cap; every member is electable and outranks every electable validator left out (ties by
  address); and of the listed validators exactly the members are \<open>Active\<close> afterwards. The hook never
  panics while the supply fits.
\<close>

theorem boundary_hook_elects:
  assumes "separated H" and "stake_inv H v" and "10000 * native_supply v \<le> u128_max"
    and "height < u64_max" and "max (epoch_length (chain_params_of v)) 1 dvd Suc height"
    and "0 < min_validator_set (chain_params_of v)" and "max_validator_set (chain_params_of v) < 2 ^ 32"
  shows "\<exists>u vset. boundary_hook v written height = Ok u \<and> bu_validator_set u = Some vset \<and>
    (let params = chain_params_of v; e = Suc (epoch_of height (epoch_length params));
         n = min (card {a. electable v written e a}) (max (max_validator_set params) 1)
     in if n < min_validator_set params
        then vset = unwrap_or [] (v_validator_set v
               (epoch_of height (epoch_length params) * max (epoch_length params) 1)) \<and>
             bu_validator_statuses u = []
        else elected v written e n vset \<and>
          (\<forall>a st. a \<in> set (unwrap_or [] (v_validator_candidates v)) \<union> set written \<and> v_validator_status v a = Some st \<longrightarrow>
             (overlay (v_validator_status v) (bu_validator_statuses u) a = Some Active \<longleftrightarrow> map_of vset a \<noteq> None)))"
proof -
  define e where "e = Suc (epoch_of height (epoch_length (chain_params_of v)))"
  define chosen where "chosen = top_stakes (max_validator_set (chain_params_of v)) (eligibles v written e)"
  have len: "length chosen = min (card {a. electable v written e a}) (max (max_validator_set (chain_params_of v)) 1)"
    by (simp add: chosen_def top_stakes_length length_eligibles)
  note eq = boundary_hook_eq [OF assms(4,5), of written, folded e_def, unfolded Let_def, folded e_def chosen_def]
  show ?thesis
  proof (cases "length chosen < min_validator_set (chain_params_of v)")
    case True
    then show ?thesis
      unfolding eq len [symmetric] Let_def e_def [symmetric] by (simp add: default_updates_simps)
  next
    case False
    then have "chosen \<noteq> []" using assms(6) by auto
    from chosen_elected [OF assms(1-3) chosen_def this assms(7)] obtain vset where
      vset: "assign_voting_power (bt_from chosen) = Ok vset" "elected v written e (length chosen) vset" by blast
    have "overlay (v_validator_status v) (status_changes e vset (candidate_statuses v written)) a = Some Active
        \<longleftrightarrow> map_of vset a \<noteq> None"
      if "a \<in> set (unwrap_or [] (v_validator_candidates v)) \<union> set written" "v_validator_status v a = Some st" for a st
      using that by (intro status_after_boundary [OF candidate_statuses_wf]) (simp_all add: map_of_candidate_statuses)
    with False vset show ?thesis
      unfolding eq len [symmetric] Let_def e_def [symmetric] by (auto simp: default_updates_simps)
  qed
qed

definition sample_epoch_view :: view where
  "sample_epoch_view = sample_view\<lparr>
     v_chain_params := Some (default_chain_params\<lparr>
       epoch_length := 10, min_validator_set := 1, min_validator_stake := 50,
       validator_attestation_required := False \<rparr>),
     v_validator_candidates := Some [sample_alice],
     v_validator_status := [sample_alice \<mapsto> Pending] \<rparr>"

lemma sample_epoch_inv:
  "stake_inv sample_hasher sample_epoch_view" "native_supply sample_epoch_view = 607"
  using sample_stake_inv sample_supply
    stake_inv_cong [of sample_epoch_view sample_view sample_hasher]
  by (simp_all add: sample_epoch_view_def native_supply_def)

lemma sample_epoch_params:
  "epoch_length (chain_params_of sample_epoch_view) = 10"
  "min_validator_set (chain_params_of sample_epoch_view) = 1"
  "max_validator_set (chain_params_of sample_epoch_view) = 100"
  "min_validator_stake (chain_params_of sample_epoch_view) = 50"
  "validator_attestation_required (chain_params_of sample_epoch_view) = False"
  by (simp_all add: sample_epoch_view_def chain_params_of_def default_chain_params_def)

lemma sample_electable: "electable sample_epoch_view [] e a \<longleftrightarrow> a = sample_alice"
proof -
  have "total_stake sample_epoch_view sample_alice = Some 60"
    by (simp add: total_stake_def masters_of_def sample_epoch_view_def sample_view_def sample_allocation_def
        saturating_add_def u128_max_def)
  then show ?thesis
    by (auto simp: electable_def sample_epoch_params) (auto simp: sample_epoch_view_def)
qed

theorem boundary_hook_elects_witness:
  "\<exists>u vset. boundary_hook sample_epoch_view [] 9 = Ok u \<and> bu_validator_set u = Some vset \<and>
     dom (map_of vset) \<subseteq> {sample_alice} \<and> sum_list (map snd vset) = TOTAL_VOTING_POWER \<and>
     length vset = 1"
  using boundary_hook_elects [OF sample_separated sample_epoch_inv(1), of 9 "[]"] sample_epoch_inv(2)
  by (auto simp: sample_epoch_params sample_electable u128_max_def u64_max_def elected_def Let_def Ball_def dom_def)

section \<open>What the seal moves\<close>

lemma no_overlay_simps [simp]:
  "apply_stakes v no_stakes = v" "apply_validator_statuses v [] = v"
  by (simp_all add: apply_stakes_def apply_validator_statuses_def)

lemma overlay_apply_rows:
  "v_account (overlay_apply v u) = v_account v ++ map_of (bu_accounts u)"
  "v_stake (overlay_apply v u) = overlay (v_stake v) (allocations (bu_stakes u))"
  "v_stake_by_validator (overlay_apply v u) = list_row (v_stake_by_validator v) (validator_index (bu_stakes u))"
  "v_validator_status (overlay_apply v u) = overlay (v_validator_status v) (bu_validator_statuses u)"
  by (simp_all add: overlay_apply_def apply_validator_statuses_def)

lemma apply_slash_wf:
  "apply_slash H v w x reason now = Ok r \<Longrightarrow>
   bt_wf (fst r) \<and> bt_wf (allocations (snd r)) \<and> bt_wf (validator_index (snd r))"
  by (elim apply_slash_OkE) (simp add: Let_def bt_wf_insert)

lemma apply_downtime_slash_wf:
  "apply_downtime_slash H v primary actual now bps = Ok r \<Longrightarrow>
   bt_wf (fst r) \<and> bt_wf (allocations (snd r)) \<and> bt_wf (validator_index (snd r))"
  by (auto dest!: apply_downtime_slash_cases dest: apply_slash_wf)

lemma map_add_absorb [simp]: "m ++ n ++ n = m ++ n"
  by (auto simp: fun_eq_iff map_add_def split: option.splits)

text \<open>The downtime step on top of a reward: the slash is read through the reward's rows.\<close>

lemma downtime_step_OkE:
  assumes "downtime_step H v (apply_accounts v r) who validators height (default_updates\<lparr> bu_accounts := r \<rparr>)
             = Ok (u, sealed)"
  obtains d where
    "d = ([], no_stakes) \<or> (\<exists>primary. apply_downtime_slash H (apply_accounts v r) primary who height
         (downtime_slash_bps (chain_params_of v)) = Ok d)"
    "bt_wf (fst d)" "bt_wf (allocations (snd d))" "bt_wf (validator_index (snd d))"
    "bu_accounts u = bt_extend r (fst d)"
    "allocations (bu_stakes u) = bt_extend [] (allocations (snd d))"
    "validator_index (bu_stakes u) = bt_extend [] (validator_index (snd d))"
    "bt_wf (bu_validator_statuses u)" "bu_governance u = []"
    "bu_attestor_registration u = None" "bu_attestor_deregistration u = None"
    "v_account sealed = v_account (staked (apply_accounts v r) d)"
    "v_stake sealed = v_stake (staked (apply_accounts v r) d)"
    "v_stake_by_validator sealed = v_stake_by_validator (staked (apply_accounts v r) d)"
    "v_validator_status sealed = overlay (v_validator_status v) (bu_validator_statuses u)"
    "chain_params_of sealed = chain_params_of v"
proof (cases "expected_proposer validators height")
  case None
  with assms have "u = default_updates\<lparr> bu_accounts := r \<rparr>" "sealed = apply_accounts v r"
    by (simp_all add: downtime_step_def)
  then show ?thesis
    by (intro that [of "([], no_stakes)"])
       (simp_all add: default_updates_simps bt_extend_def staked_def chain_params_of_def)
next
  case (Some primary)
  from assms Some obtain d st where
    d: "apply_downtime_slash H (apply_accounts v r) primary who height (downtime_slash_bps (chain_params_of v)) = Ok d"
    and st: "bt_wf st"
    and u: "u = default_updates\<lparr> bu_accounts := bt_extend r (fst d), bu_validator_statuses := st,
         bu_stakes := \<lparr> allocations = bt_extend [] (allocations (snd d)),
                        validator_index = bt_extend [] (validator_index (snd d)) \<rparr> \<rparr>"
    and s: "sealed = overlay_apply (apply_accounts v r) u"
    by (auto simp: downtime_step_def Let_def default_updates_simps default_updates_def
        split: if_splits option.splits validator_status.splits) (metis bt_wf_insert bt_wf_Nil)+
  have wf: "bt_wf (fst d)" "bt_wf (allocations (snd d))" "bt_wf (validator_index (snd d))"
    using apply_downtime_slash_wf [OF d] by simp_all
  show ?thesis
  proof (rule that [of d])
    show "d = ([], no_stakes) \<or> (\<exists>primary. apply_downtime_slash H (apply_accounts v r) primary who height
         (downtime_slash_bps (chain_params_of v)) = Ok d)" using d by blast
    show "v_account sealed = v_account (staked (apply_accounts v r) d)"
      "v_stake sealed = v_stake (staked (apply_accounts v r) d)"
      "v_stake_by_validator sealed = v_stake_by_validator (staked (apply_accounts v r) d)"
      by (simp_all add: s u default_updates_simps overlay_apply_rows staked_def map_of_bt_extend [OF wf(1)]
          overlay_extend [OF wf(2)] list_row_extend [OF wf(3)] map_add_absorb)
    show "chain_params_of sealed = chain_params_of v"
      by (simp add: s overlay_apply_def chain_params_of_def apply_validator_statuses_def)
  qed (use wf st in \<open>simp_all add: s u default_updates_simps overlay_apply_rows\<close>)
qed

lemma boundary_hook_batch:
  assumes "boundary_hook v written height = Ok b"
  shows "bt_wf (bu_validator_statuses b)"
  using assms
  by (auto simp: boundary_hook_def Let_def default_updates_simps bt_wf_status_changes split: if_splits)

lemma seal_OkE:
  assumes "seal H v written who fees validators height = Ok u"
  obtains r d sealed b where
    "apply_block_reward H v who fees (reward_per_block (chain_params_of v))
       (fee_proposer_bps (chain_params_of v)) (fee_treasury_bps (chain_params_of v)) = Ok r"
    "d = ([], no_stakes) \<or> (\<exists>primary. apply_downtime_slash H (apply_accounts v r) primary who height
         (downtime_slash_bps (chain_params_of v)) = Ok d)"
    "v_account (absorb_updates v u) = v_account (staked (apply_accounts v r) d)"
    "v_stake (absorb_updates v u) = v_stake (staked (apply_accounts v r) d)"
    "v_stake_by_validator (absorb_updates v u) = v_stake_by_validator (staked (apply_accounts v r) d)"
    "boundary_hook sealed written height = Ok b" "bu_validator_set u = bu_validator_set b"
    "v_account sealed = v_account (staked (apply_accounts v r) d)"
    "v_stake sealed = v_stake (staked (apply_accounts v r) d)"
    "v_stake_by_validator sealed = v_stake_by_validator (staked (apply_accounts v r) d)"
    "v_validator_status (absorb_updates v u) = overlay (v_validator_status v) (bu_validator_statuses u)"
    "unwrap_or [] (v_validator_candidates (absorb_updates v u)) =
       update_candidates (absorb_updates v u) (unwrap_or [] (v_validator_candidates v))
         (written @ bt_keys (bu_validator_statuses u))"
proof -
  let ?p = "chain_params_of v" and ?c = "unwrap_or [] (v_validator_candidates v)"
  from assms obtain r u1 sealed b where
    r: "apply_block_reward H v who fees (reward_per_block ?p) (fee_proposer_bps ?p) (fee_treasury_bps ?p) = Ok r"
    and down: "downtime_step H v (overlay_apply v (default_updates\<lparr> bu_accounts := r \<rparr>)) who validators height
        (default_updates\<lparr> bu_accounts := r \<rparr>) = Ok (u1, sealed)"
    and b: "boundary_hook sealed written height = Ok b"
    and u: "u = finish_seal v written u1 sealed b"
    by (auto simp: seal_def Let_def)
  have "overlay_apply v (default_updates\<lparr> bu_accounts := r \<rparr>) = apply_accounts v r"
    by (simp add: overlay_apply_def default_updates_simps)
  note down' = down [unfolded this]
  from down' show ?thesis
  proof (cases rule: downtime_step_OkE)
    case (1 d)
    let ?st = "bt_extend (bu_validator_statuses u1) (bu_validator_statuses b)"
    let ?u2 = "u1\<lparr> bu_validator_statuses := ?st, bu_validator_set := bu_validator_set b \<rparr>"
    let ?after = "update_candidates (overlay_apply sealed ?u2) ?c (written @ bt_keys ?st)"
    have wf: "bt_wf (bu_validator_statuses b)" by (rule boundary_hook_batch [OF b])
    have u': "bu_accounts u = bu_accounts u1" "bu_stakes u = bu_stakes u1" "bu_validator_statuses u = ?st"
      "bu_validator_set u = bu_validator_set b" "bu_governance u = (if ?after \<noteq> ?c then [PutValidatorCandidates ?after] else [])"
      using 1(9) by (simp_all add: u finish_seal_def Let_def)
    have gov: "\<not> list_ex writes_status (bu_governance u)" by (simp add: u')
    note rows = absorb_updates_rows [where v = v and u = u]
    have acc: "v_account (absorb_updates v u) = v_account (staked (apply_accounts v r) d)"
      by (simp add: rows u' 1(5) staked_def map_of_bt_extend [OF 1(2)])
    have stk: "v_stake (absorb_updates v u) = v_stake (staked (apply_accounts v r) d)"
      "v_stake_by_validator (absorb_updates v u) = v_stake_by_validator (staked (apply_accounts v r) d)"
      by (simp_all add: rows u' 1(6,7) staked_def overlay_extend [OF 1(3)] list_row_extend [OF 1(4)])
    note sealed = 1(12-15)
    have status: "v_validator_status (absorb_updates v u) = overlay (v_validator_status v) ?st"
      using rows(7) [OF gov] by (simp add: u')
    have "v_validator_status (overlay_apply sealed ?u2) = v_validator_status (absorb_updates v u)"
      by (simp add: overlay_apply_rows status sealed overlay_extend [OF wf] fun_eq_iff)
        (simp add: overlay_def split: option.splits)
    then have after: "?after = update_candidates (absorb_updates v u) ?c (written @ bt_keys ?st)"
      by (simp add: update_candidates_def)
    have "gov_rows (absorb_updates v u) = gov_rows (apply_governance v (bu_governance u))" by (rule rows(6))
    then have "v_validator_candidates (absorb_updates v u) = v_validator_candidates (apply_governance v (bu_governance u))"
      by (simp add: gov_rows_def)
    then have "unwrap_or [] (v_validator_candidates (absorb_updates v u)) = ?after"
      by (simp add: u' split: if_splits)
    with that [OF r 1(1) acc stk b u'(4) sealed(1-3)] status after show ?thesis by (simp add: u')
  qed
qed

subsection \<open>The seal returns\<close>

lemma validate_params_Ok:
  assumes "validate_params p = Ok ()"
  shows "0 < min_validator_set p" "downtime_slash_bps p \<le> 10000"
    "fee_proposer_bps p + fee_treasury_bps p \<le> 10000"
  using assms by (auto simp: validate_params_def saturating_add_def u32_max_def split: if_splits)

lemma two_sides_fit:
  fixes p :: nat
  assumes "p + w \<le> S" "t \<le> S" "x \<le> 10000 * f" "y \<le> 10000 * f" "s \<le> f" "c \<le> f" "q \<le> p" "10000 * (S + f) \<le> M"
  shows "x \<le> M \<and> y \<le> M \<and> q + s \<le> M \<and> w + (q + s) \<le> M \<and> t + c \<le> M"
  using assms by auto

lemma two_shares_le: "x + y \<le> 10000 * f \<Longrightarrow> x div 10000 + y div 10000 \<le> f" for f :: nat
  by linarith

lemma apply_block_reward_returns:
  assumes "separated H" and "user_account H who" and "finite (dom (v_account v))"
    and "pb + tb \<le> 10000" and "10000 * (native_supply v + fees) \<le> u128_max"
  shows "\<exists>u. apply_block_reward H v who fees reward pb tb = Ok u"
proof -
  let ?p = "balance (account_of v (reward_pool_account H))" and ?w = "balance (account_of v who)"
  let ?t = "balance (account_of v (treasury_account H))"
  have two: "?p + ?w \<le> native_supply v" "?t \<le> native_supply v"
    using two_accounts_le_supply [OF assms(3), of "reward_pool_account H" who] native_le_supply [OF assms(3)]
      user_accountD [OF assms(2)] by auto
  have cut: "fees * pb \<le> 10000 * fees" "fees * tb \<le> 10000 * fees" using assms(4) by simp_all
  then have share: "fees * pb div 10000 \<le> fees" "fees * tb div 10000 \<le> fees"
    by (simp_all add: div_le_mono [of _ "10000 * fees" 10000, simplified])
  have pay: "min reward ?p \<le> ?p" by simp
  have "fees * pb \<le> u128_max \<and> fees * tb \<le> u128_max \<and> min reward ?p + fees * pb div 10000 \<le> u128_max \<and>
    ?w + (min reward ?p + fees * pb div 10000) \<le> u128_max \<and> ?t + fees * tb div 10000 \<le> u128_max"
    using two_sides_fit [OF two cut share pay assms(5)] .
  then show ?thesis by (simp add: apply_block_reward_Ok_iff Let_def)
qed

lemma apply_downtime_slash_returns:
  assumes "stake_inv H v" and "bps \<le> 10000" and "10000 * native_supply v \<le> u128_max"
  shows "\<exists>r. apply_downtime_slash H v primary actual now bps = Ok r"
proof (cases "primary = actual \<or> masters_of v primary = []")
  case False
  then obtain m ms where ms: "masters_of v primary = m # ms" by (auto simp: neq_Nil_conv)
  show ?thesis
  proof (cases "v_stake v (m, primary)")
    case (Some e)
    have "locked e \<le> balance (account_of v (stake_subaccount H primary))"
      using stake_inv_row [OF assms(1) Some] by (simp add: row_ok_def)
    also have "\<dots> \<le> native_supply v" by (rule native_le_supply [OF stake_inv_finite [OF assms(1)]])
    finally have le: "locked e \<le> native_supply v" .
    then have "locked e \<le> u128_max" using assms(3) by linarith
    moreover have "locked e * bps \<le> u128_max"
      using le assms(2,3) mult_le_mono [OF le assms(2)] by linarith
    moreover have "apply_slash H v primary x Downtime now \<noteq> Panic" for x
      using \<open>locked e \<le> u128_max\<close>
      by (auto simp: apply_slash_def ms Some Let_def locked_def credit_def and_then_Panic_iff split: if_splits)
    ultimately show ?thesis
      using False ms Some
      by (auto simp: apply_downtime_slash_def locked_def add_or_panic_def mul_or_panic_def checked_add_def
          checked_mul_def expect_def Let_def split: result.split)
  qed (use False ms in \<open>simp add: apply_downtime_slash_def\<close>)
qed (auto simp: apply_downtime_slash_def)


lemma downtime_step_returns:
  assumes "\<And>primary. \<exists>d. apply_downtime_slash H sealed primary who height (downtime_slash_bps (chain_params_of v)) = Ok d"
    and "Suc height < u64_max"
  shows "\<exists>r. downtime_step H v sealed who validators height u = Ok r"
proof (cases "expected_proposer validators height")
  case (Some primary)
  from assms(1) obtain a s where
    d: "apply_downtime_slash H sealed primary who height (downtime_slash_bps (chain_params_of v)) = Ok (a, s)"
    by (metis surj_pair)
  have "epoch_of height (epoch_length (chain_params_of v)) \<le> height" by (simp add: epoch_of_def)
  then have "add_or_panic u64_max (epoch_of height (epoch_length (chain_params_of v))) 2 =
      (Ok (epoch_of height (epoch_length (chain_params_of v)) + 2) :: (never, nat) result)"
    using assms(2) by simp
  then show ?thesis
    unfolding downtime_step_def Let_def Some option.case d and_then.simps prod.case
    by (simp split: option.split validator_status.split del: add_or_panic_Ok_iff)
qed (simp add: downtime_step_def)

lemma boundary_hook_returns:
  assumes "separated H" and "stake_inv H v" and "10000 * native_supply v \<le> u128_max"
    and "height < u64_max" and "0 < min_validator_set (chain_params_of v)"
    and "max_validator_set (chain_params_of v) < 2 ^ 32"
  shows "\<exists>u. boundary_hook v written height = Ok u"
proof (cases "max (epoch_length (chain_params_of v)) 1 dvd Suc height")
  case True
  define e where "e = Suc (epoch_of height (epoch_length (chain_params_of v)))"
  define chosen where "chosen = top_stakes (max_validator_set (chain_params_of v)) (eligibles v written e)"
  note eq = boundary_hook_eq [OF assms(4) True, of written, folded e_def, unfolded Let_def, folded e_def chosen_def]
  show ?thesis
  proof (cases "length chosen < min_validator_set (chain_params_of v)")
    case False
    then have "chosen \<noteq> []" using assms(5) by auto
    from chosen_elected [OF assms(1-3) chosen_def this assms(6)] eq False show ?thesis by auto
  qed (simp add: eq)
next
  case False
  then show ?thesis using assms(4) by (simp add: boundary_hook_def Let_def is_boundary_def add_or_panic_def
      checked_add_def expect_def)
qed


lemma seal_supply_inv:
  assumes "separated H" and "user_account H who" and "stake_inv H v"
    and "apply_block_reward H v who fees reward pb tb = Ok r"
    and "d = ([], no_stakes) \<or> (\<exists>primary. apply_downtime_slash H (apply_accounts v r) primary who height bps = Ok d)"
    and "v_account w = v_account (staked (apply_accounts v r) d)" "v_stake w = v_stake (staked (apply_accounts v r) d)"
    and "v_stake_by_validator w = v_stake_by_validator (staked (apply_accounts v r) d)"
  shows "stake_inv H w" and "native_supply w = native_supply v + fees * pb div 10000 + fees * tb div 10000"
proof -
  let ?s = "staked (apply_accounts v r) d"
  note reward = apply_block_reward_inv [OF assms(1-4)]
    apply_block_reward_supply [OF assms(1,2) stake_inv_finite [OF assms(3)] assms(4)]
  have "stake_inv H ?s \<and> native_supply ?s = native_supply (apply_accounts v r)"
    using assms(5)
  proof (elim disjE exE)
    fix primary
    assume "apply_downtime_slash H (apply_accounts v r) primary who height bps = Ok d"
    then show ?thesis using apply_downtime_slash_inv [OF assms(1) reward(1)] by blast
  qed (simp add: reward(1))
  then show "stake_inv H w" "native_supply w = native_supply v + fees * pb div 10000 + fees * tb div 10000"
    using stake_inv_cong [OF assms(6-8), of H] reward(2) by (simp_all add: native_supply_def assms(6))
qed

lemma seal_returns:
  assumes "separated H" and "user_account H who" and "stake_inv H v"
    and "validate_params (chain_params_of v) = Ok ()" and "max_validator_set (chain_params_of v) < 2 ^ 32"
    and "10000 * (native_supply v + fees) \<le> u128_max" and "Suc height < u64_max"
  shows "\<exists>u. seal H v written who fees validators height = Ok u"
proof -
  let ?p = "chain_params_of v"
  note params = validate_params_Ok [OF assms(4)]
  from apply_block_reward_returns [OF assms(1,2) stake_inv_finite [OF assms(3)] params(3) assms(6)] obtain r where
    r: "apply_block_reward H v who fees (reward_per_block ?p) (fee_proposer_bps ?p) (fee_treasury_bps ?p) = Ok r" by blast
  have shares: "fees * fee_proposer_bps ?p div 10000 + fees * fee_treasury_bps ?p div 10000 \<le> fees"
    unfolding add_mult_distrib2 [symmetric] using params(3)
    by (intro two_shares_le) (simp flip: add_mult_distrib2)
  have inv: "stake_inv H (apply_accounts v r)" "10000 * native_supply (apply_accounts v r) \<le> u128_max"
    using apply_block_reward_inv [OF assms(1-3) r]
      apply_block_reward_supply [OF assms(1,2) stake_inv_finite [OF assms(3)] r] shares assms(6) by simp_all
  have sealed0: "overlay_apply v (default_updates\<lparr> bu_accounts := r \<rparr>) = apply_accounts v r"
    by (simp add: overlay_apply_def default_updates_simps)
  from downtime_step_returns [OF apply_downtime_slash_returns [OF inv(1) params(2) inv(2)] assms(7)] obtain u1 sealed where
    down: "downtime_step H v (apply_accounts v r) who validators height (default_updates\<lparr> bu_accounts := r \<rparr>)
             = Ok (u1, sealed)" by fastforce
  from down have "\<exists>b. boundary_hook sealed written height = Ok b"
  proof (cases rule: downtime_step_OkE)
    case (1 d)
    note s = seal_supply_inv [OF assms(1-3) r 1(1,12-14)]
    then have "10000 * native_supply sealed \<le> u128_max" using shares assms(6) by simp
    with s(1) show ?thesis
      using boundary_hook_returns [OF assms(1), of sealed height written] 1(16) params(1) assms(5,7) by simp
  qed
  then obtain b where b: "boundary_hook sealed written height = Ok b" ..
  show ?thesis by (simp add: seal_def Let_def r sealed0 down b)
qed

text \<open>
  C25: sealing a block neither panics nor mints. Under the staking invariant, with parameters that
  governance would accept and a supply that fits, \<open>seal\<close> returns; the batch keeps the staking invariant, and
  the supply grows by exactly the proposer's and the treasury's share of the fees, which the actions of
  the block have paid out of their senders' balances. What the pool pays and what a slash takes cancels
  out.
\<close>

theorem seal_conserves:
  assumes "separated H" and "user_account H who" and "stake_inv H v"
    and "validate_params (chain_params_of v) = Ok ()" and "max_validator_set (chain_params_of v) < 2 ^ 32"
    and "10000 * (native_supply v + fees) \<le> u128_max" and "Suc height < u64_max"
  shows "\<exists>u. seal H v written who fees validators height = Ok u \<and> stake_inv H (absorb_updates v u) \<and>
    native_supply (absorb_updates v u) = native_supply v +
      fees * fee_proposer_bps (chain_params_of v) div 10000 + fees * fee_treasury_bps (chain_params_of v) div 10000"
proof -
  from seal_returns [OF assms] obtain u where u: "seal H v written who fees validators height = Ok u" ..
  moreover from u have "stake_inv H (absorb_updates v u) \<and> native_supply (absorb_updates v u) = native_supply v +
      fees * fee_proposer_bps (chain_params_of v) div 10000 + fees * fee_treasury_bps (chain_params_of v) div 10000"
  proof (cases rule: seal_OkE)
    case (1 r d sealed b)
    with seal_supply_inv [OF assms(1-3) 1(1-5)] show ?thesis by simp
  qed
  ultimately show ?thesis by blast
qed

lemma sample_epoch_valid:
  "validate_params (chain_params_of sample_epoch_view) = Ok ()" 
  by (simp add: sample_epoch_view_def chain_params_of_def default_chain_params_def validate_params_def
      MAX_CANONICAL_BUILDS_def TOTAL_VOTING_POWER_def saturating_add_def u32_max_def)

theorem seal_conserves_witness:
  "\<exists>u. seal sample_hasher sample_epoch_view [] sample_bob 100 [sample_alice] 9 = Ok u \<and>
     stake_inv sample_hasher (absorb_updates sample_epoch_view u) \<and>
     native_supply (absorb_updates sample_epoch_view u) = 607 +
       100 * fee_proposer_bps (chain_params_of sample_epoch_view) div 10000 +
       100 * fee_treasury_bps (chain_params_of sample_epoch_view) div 10000"
  using seal_conserves [OF sample_separated sample_bob_user(1) sample_epoch_inv(1) sample_epoch_valid,
      of 100 9 "[]" "[sample_alice]"] sample_epoch_inv(2)
  by (simp add: sample_epoch_params u128_max_def u64_max_def)

section \<open>The candidate list\<close>

definition candidates_mirror :: "view \<Rightarrow> bool" where
  "candidates_mirror v \<longleftrightarrow>
     sorted_wrt (<) (unwrap_or [] (v_validator_candidates v)) \<and>
     set (unwrap_or [] (v_validator_candidates v)) = dom (v_validator_status v)"

lemma update_candidates_correct:
  "sorted_wrt (<) (update_candidates w before touched) \<and>
   (a \<in> set (update_candidates w before touched) \<longleftrightarrow>
      (if a \<in> set touched then v_validator_status w a \<noteq> None else a \<in> set before))"
proof -
  let ?f = "\<lambda>address after. if v_validator_status w address \<noteq> None
      then (if address \<in> set after then after else insort address after) else remove1 address after"
  have "sorted_wrt (<) (fold ?f touched after) \<and>
    (a \<in> set (fold ?f touched after) \<longleftrightarrow>
      (if a \<in> set touched then v_validator_status w a \<noteq> None else a \<in> set after))"
    if "sorted_wrt (<) after" for after
    using that
  proof (induction touched arbitrary: after)
    case (Cons x touched)
    have s: "sorted_wrt (<) (?f x after)"
      using Cons.prems
      by (auto simp: strict_sorted_iff sorted_insort distinct_insort sorted_remove1)
    have "a \<in> set (?f x after) \<longleftrightarrow> (if a = x then v_validator_status w a \<noteq> None else a \<in> set after)"
      using Cons.prems by (auto simp: strict_sorted_iff set_insort_key)
    then show ?case using Cons.IH [OF s] unfolding fold_simps by (auto simp del: fold_simps)
  qed simp
  from this [of "sort (remdups before)"] show ?thesis
    by (simp add: update_candidates_def strict_sorted_iff)
qed

fun writes_candidates :: "gov_write \<Rightarrow> bool" where
  "writes_candidates (PutValidatorCandidates cs) = True"
| "writes_candidates g = False"

lemma governance_candidates:
  "\<not> list_ex writes_candidates ws \<Longrightarrow> v_validator_candidates (apply_governance v ws) = v_validator_candidates v"
proof (induction ws arbitrary: v)
  case (Cons w ws)
  then show ?case by (cases w) simp_all
qed simp

lemma governance_status_other:
  "DeleteValidatorStatus a \<notin> set ws \<Longrightarrow> v_validator_status (apply_governance v ws) a = v_validator_status v a"
proof (induction ws arbitrary: v)
  case (Cons w ws)
  then show ?case by (cases w) auto
qed simp

lemma fold_attestors_frame:
  "v_validator_status (fold (\<lambda>r v. apply_attestor_registration v r) rs v) = v_validator_status v"
  "v_validator_candidates (fold (\<lambda>r v. apply_attestor_registration v r) rs v) = v_validator_candidates v"
  "v_validator_status (fold (\<lambda>d v. apply_attestor_deregistration v d) ds v) = v_validator_status v"
  "v_validator_candidates (fold (\<lambda>d v. apply_attestor_deregistration v d) ds v) = v_validator_candidates v"
  by (induction rs arbitrary: v; simp add: apply_attestor_registration_def)+
     (induction ds arbitrary: v; simp add: apply_attestor_deregistration_def)+

lemma seal_view_status:
  "a \<notin> set (written_validator_statuses out) \<Longrightarrow> v_validator_status (seal_view db out) a = v_validator_status db a"
proof -
  assume a: "a \<notin> set (written_validator_statuses out)"
  then have "DeleteValidatorStatus a \<notin> set (o_governance out)"
    by (auto simp: written_validator_statuses_def set_map_filter)
  moreover have "map_of (o_validator_statuses out) a = None"
    using a by (auto simp: written_validator_statuses_def bt_keys_def map_of_eq_None_iff)
  ultimately show ?thesis
    by (simp add: seal_view_def Let_def governance_status_other fold_attestors_frame apply_validator_statuses_def
        apply_holder_states_def apply_asset_balances_def overlay_def)
qed

lemma seal_view_candidates:
  "\<not> list_ex writes_candidates (o_governance out) \<Longrightarrow>
   v_validator_candidates (seal_view db out) = v_validator_candidates db"
  by (simp add: seal_view_def Let_def governance_candidates fold_attestors_frame apply_validator_statuses_def
      apply_holder_states_def apply_asset_balances_def apply_stakes_def apply_accounts_def)



definition sample_outcome :: "(nat, nat) execution_outcome" where
  "sample_outcome = seeded_outcome default_updates"

lemma sample_seal_view: "seal_view sample_epoch_view sample_outcome = sample_epoch_view"
  by (simp add: seal_view_def sample_outcome_def seeded_outcome_def default_updates_simps apply_asset_balances_def apply_holder_states_def)


end
