(* ===== verification/Block_Commit.thy ===== *)
theory Block_Commit
  imports Epoch_Seal
begin

text \<open>
  Committing a block: the persisted rows against the view the actions were executed on. Accounts,
  stakes, asset balances, holder states and the rows only governance writes come out the same. Attestor
  records and validator statuses have two writers, the typed batches and the governance batch, and the
  commit replays the governance batch last whatever the order of the actions
  (\<^verbatim>\<open>accept_block\<close> in \<^verbatim>\<open>src/core/executor/src/lib.rs\<close>).
\<close>

section \<open>The rows a commit writes\<close>

definition typed_rows :: "view \<Rightarrow> _" where
  "typed_rows v = (v_account v, v_stake v, v_stake_by_validator v, v_asset_balance v, v_asset_holder_state v)"

definition shared_rows :: "view \<Rightarrow> _" where
  "shared_rows v = (v_validator_status v, v_attestor_record v)"

definition voted_rows :: "view \<Rightarrow> _" where
  "voted_rows v = (v_unbonding_due v, v_validator_candidates v, v_chain_params v, v_proposal v, v_vote v,
     v_next_proposal_id v, v_attestor_name v)"

lemma fold_frame: "(\<And>x v. f (g x v) = f v) \<Longrightarrow> f (fold g xs v) = f v"
  by (induction xs arbitrary: v) simp_all

lemmas rows_defs = typed_rows_def shared_rows_def voted_rows_def

lemma commit_frames:
  "typed_rows (fold (\<lambda>m v. apply_evidence v m) ms v) = typed_rows v"
  "shared_rows (fold (\<lambda>m v. apply_evidence v m) ms v) = shared_rows v"
  "voted_rows (fold (\<lambda>m v. apply_evidence v m) ms v) = voted_rows v"
  "typed_rows (fold (\<lambda>k v. apply_bls_key v k) ks v) = typed_rows v"
  "shared_rows (fold (\<lambda>k v. apply_bls_key v k) ks v) = shared_rows v"
  "voted_rows (fold (\<lambda>k v. apply_bls_key v k) ks v) = voted_rows v"
  "typed_rows (fold (\<lambda>a v. apply_asset_registration v a) as v) = typed_rows v"
  "shared_rows (fold (\<lambda>a v. apply_asset_registration v a) as v) = shared_rows v"
  "voted_rows (fold (\<lambda>a v. apply_asset_registration v a) as v) = voted_rows v"
  by (rule fold_frame; simp add: rows_defs apply_evidence_def apply_bls_key_def apply_asset_registration_def
      Let_def split: option.split)+

lemma governance_voted:
  "voted_rows v = voted_rows w \<Longrightarrow> voted_rows (apply_governance v gs) = voted_rows (apply_governance w gs)"
proof (induction gs arbitrary: v w)
  case (Cons g gs)
  have "voted_rows (apply_gov_write g v) = voted_rows (apply_gov_write g w)"
    using Cons.prems by (cases g) (simp_all add: voted_rows_def)
  from Cons.IH [OF this] show ?case by simp
qed simp

lemma governance_shared:
  "shared_rows v = shared_rows w \<Longrightarrow> shared_rows (apply_governance v gs) = shared_rows (apply_governance w gs)"
proof (induction gs arbitrary: v w)
  case (Cons g gs)
  have "shared_rows (apply_gov_write g v) = shared_rows (apply_gov_write g w)"
    using Cons.prems by (cases g) (simp_all add: shared_rows_def)
  from Cons.IH [OF this] show ?case by simp
qed simp

lemma and_then_OkE: "and_then m f = Ok y \<Longrightarrow> (\<And>x. m = Ok x \<Longrightarrow> f x = Ok y \<Longrightarrow> P) \<Longrightarrow> P"
  by (cases m) auto

text \<open>The state just before the governance batch is replayed.\<close>

definition before_governance :: "view \<Rightarrow> ('a, 'e) execution_outcome \<Rightarrow> block_updates \<Rightarrow> view" where
  "before_governance db out sealed =
    db\<lparr> v_account := v_account db ++ map_of (o_accounts out) ++ map_of (bu_accounts sealed),
        v_stake := overlay (overlay (v_stake db) (allocations (o_stakes out))) (allocations (bu_stakes sealed)),
        v_stake_by_validator := list_row (list_row (v_stake_by_validator db) (validator_index (o_stakes out)))
          (validator_index (bu_stakes sealed)),
        v_asset_balance := v_asset_balance db ++ map_of (o_assets out) ++ map_of (bu_assets sealed),
        v_asset_holder_state := v_asset_holder_state db ++ map_of (o_holder_states out),
        v_validator_status := overlay (overlay (v_validator_status db) (o_validator_statuses out))
          (bu_validator_statuses sealed),
        v_attestor_record := fold (\<lambda>d m. m(d := None)) (attestor_deregistrations out)
          (fold (\<lambda>r m. m(ar_attestor r \<mapsto> ar_record r)) (attestor_registrations out) (v_attestor_record db)) \<rparr>"

lemma commit_block_rows:
  assumes "commit_block db height out sealed = Ok w" and "wf_updates sealed"
  defines "x \<equiv> apply_governance (before_governance db out sealed) (o_governance out @ bu_governance sealed)"
  shows "typed_rows w = typed_rows x" and "shared_rows w = shared_rows x" and "voted_rows w = voted_rows x"
proof -
  let ?b = "before_governance db out sealed" and ?g = "o_governance out @ bu_governance sealed"
  from assms(1) obtain y where w: "w = apply_governance y ?g"
    and y: "typed_rows y = typed_rows ?b" "shared_rows y = shared_rows ?b" "voted_rows y = voted_rows ?b"
  proof -
    note rows = commit_frames [unfolded rows_defs prod.inject] fold_attestor_registration fold_attestor_deregistration
      apply_operator_def apply_validator_set_def apply_validator_statuses_def apply_holder_states_def
      apply_asset_balances_def apply_stakes_def apply_accounts_def before_governance_def commit_typed_def Let_def
    have wf: "bt_wf (bu_accounts sealed)" "bt_wf (bu_assets sealed)" "bt_wf (bu_validator_statuses sealed)"
      "bt_wf (allocations (bu_stakes sealed))" "bt_wf (validator_index (bu_stakes sealed))"
      using assms(2) by (simp_all add: wf_updates_def)
    let ?y = "\<lambda>snapshot. apply_operator (fold (\<lambda>d v. apply_attestor_deregistration v d) (attestor_deregistrations out)
      (fold (\<lambda>r v. apply_attestor_registration v r) (attestor_registrations out)
      (fold (\<lambda>a v. apply_asset_registration v a) (asset_registrations out)
      (fold (\<lambda>k v. apply_bls_key v k) (bls_keys out)
      (fold (\<lambda>m v. apply_evidence v m) (evidence_markers out)
      (case snapshot of Some (h, s) \<Rightarrow> apply_validator_set h (commit_typed db out sealed) s
       | None \<Rightarrow> commit_typed db out sealed)))))) (o_operator out)"
    from assms(1) obtain snapshot where w: "w = apply_governance (?y snapshot) ?g"
      unfolding commit_block_def Let_def by (elim and_then_OkE) (rule that, blast)
    show ?thesis
      by (rule that [OF w]; cases snapshot)
         (simp_all add: rows_defs rows wf map_of_bt_extend overlay_extend list_row_extend split_beta)
  qed
  show "typed_rows w = typed_rows x" using y(1) by (simp add: w x_def typed_rows_def)
  show "shared_rows w = shared_rows x" unfolding w x_def by (rule governance_shared [OF y(2)])
  show "voted_rows w = voted_rows x" unfolding w x_def by (rule governance_voted [OF y(3)])
qed


section \<open>What is persisted is what was executed\<close>



section \<open>A removal that does not stick\<close>

lemma execute_action_deregisters:
  assumes "execute_action H sk ms v p height act = Some (ws, accounts, slash, attestors)"
    and "deregistration attestors = Some d"
  shows "\<not> list_ex writes_attestor ws \<and> registration attestors = None \<and> slash = None"
  using assms
  by (cases act)
     (auto simp: no_attestors_def resolve_dispute_def apply_deregister_attestor_def Let_def
       split: if_splits result.splits option.splits prod.splits)

lemma gov_execute_deregisters:
  assumes "gov_execute H sk ms v n height = Ok u" and "bu_attestor_deregistration u = Some d"
  shows "\<not> list_ex writes_attestor (bu_governance u)" and "bu_attestor_registration u = None"
proof -
  from assms(1) obtain g accounts slash attestors where
    e: "apply_execute H sk ms v n height = Ok (g, accounts, slash, attestors)"
    by (auto simp: gov_execute_def)
  have u: "bu_governance u = g" "bu_attestor_registration u = registration attestors"
      "bu_attestor_deregistration u = deregistration attestors"
    using assms(1) by (auto simp: gov_execute_def e Let_def default_updates_simps split: option.splits result.splits)
  from e have "\<not> list_ex writes_attestor g \<and> registration attestors = None"
  proof (cases rule: apply_execute_Ok)
    case (1 p ws st accounts' slash' attestors')
    with assms(2) u(3) execute_action_deregisters [of H sk ms v p height "proposal_action p" ws accounts' slash' attestors' d]
    show ?thesis by (auto simp: no_attestors_def)
  qed
  then show "\<not> list_ex writes_attestor (bu_governance u)" "bu_attestor_registration u = None" by (simp_all add: u)
qed

lemma absorb_deregistration:
  "\<not> list_ex writes_attestor (bu_governance u) \<Longrightarrow> bu_attestor_deregistration u = Some d \<Longrightarrow>
   v_attestor_record (absorb_updates v u) d = None"
  unfolding absorb_updates_def Let_def
  by (simp add: apply_governance_attestor apply_opt_def apply_attestor_deregistration_def)

lemma seeded_view_nothing: "seeded_view db default_updates = db"
  by (simp add: seeded_view_def default_updates_simps apply_opt_def apply_asset_balances_def apply_holder_states_def)

lemma execute_two:
  assumes "verified pre pol db a" "dispatch a db = Ok u" "verified pre pol (absorb_updates db u) b"
    "dispatch b (absorb_updates db u) = Ok x"
    "fst (meter a) + fst (meter b) \<le> max_block_weight (chain_params_of db)"
    "max_block_weight (chain_params_of db) \<le> u64_max"
  shows "execute_actions pre pol dispatch meter db [a, b] default_updates =
    Ok (absorb_updates (absorb_updates db u) x,
        extend_outcome b (fst (meter a) + fst (meter b)) (snd (meter b)) x
          (extend_outcome a (fst (meter a)) (snd (meter a)) u (seeded_outcome default_updates)))"
  using assms
  by (cases "meter a"; cases "meter b")
     (simp add: execute_actions_def seeded_view_nothing seeded_outcome_def saturating_add_def extend_outcome_def
       add_or_panic_def checked_add_def expect_def)


text \<open>
  C27: an attestor can undo its own removal. When a block holds the attestor's \<open>BlockAttestor\<close> and then the
  \<open>ExecuteProposal\<close> that removes it, the execution view ends without its record, as both handlers intend.
  What is persisted still has the record: the deregistration is written first and the governance row of the
  earlier action after it. The record stays (blocked), and with it every attestation the attestor granted.
\<close>

theorem self_block_undoes_removal:
  fixes dispatch :: "'p action \<Rightarrow> view \<Rightarrow> ('e, block_updates) result"
  assumes block: "block_attestor db a = Ok u" and gov: "gov_execute H sk ms (absorb_updates db (u\<lparr> bu_accounts := x \<rparr>)) n h = Ok u'"
    and removed: "bu_attestor_deregistration u' = Some (act_sender a)"
    and run: "verified pre pol db a" "dispatch a db = Ok (u\<lparr> bu_accounts := x \<rparr>)"
      "verified pre pol (absorb_updates db (u\<lparr> bu_accounts := x \<rparr>)) b"
      "dispatch b (absorb_updates db (u\<lparr> bu_accounts := x \<rparr>)) = Ok (u'\<lparr> bu_accounts := x' \<rparr>)"
    and weight: "fst (meter a) + fst (meter b) \<le> max_block_weight (chain_params_of db)"
      "max_block_weight (chain_params_of db) \<le> u64_max"
    and sealed: "wf_updates sealed" "\<not> list_ex writes_attestor (bu_governance sealed)"
  shows "\<exists>v out. execute_actions pre pol dispatch meter db [a, b] default_updates = Ok (v, out) \<and>
    v_attestor_record v (act_sender a) = None \<and>
    (\<forall>w. commit_block db h out sealed = Ok w \<longrightarrow>
       (\<exists>r. v_attestor_record w (act_sender a) = Some r \<and> self_blocked r))"
proof -
  let ?u = "u\<lparr> bu_accounts := x \<rparr>" and ?u' = "u'\<lparr> bu_accounts := x' \<rparr>"
  let ?out = "extend_outcome b (fst (meter a) + fst (meter b)) (snd (meter b)) ?u'
          (extend_outcome a (fst (meter a)) (snd (meter a)) ?u (seeded_outcome default_updates)) :: ('p action, 'e) execution_outcome"
  from block obtain r where r: "v_attestor_record db (act_sender a) = Some r"
    and u: "u = default_updates\<lparr> bu_governance := [PutAttestorRecord (act_sender a) (r\<lparr> self_blocked := True \<rparr>)] \<rparr>"
    by (auto simp: block_attestor_def apply_set_self_blocked_def require_attestor_def)
  note g = gov_execute_deregisters [OF gov removed]
  have gone: "v_attestor_record (absorb_updates (absorb_updates db ?u) ?u') (act_sender a) = None"
    using g removed by (intro absorb_deregistration) simp_all
  have kept: "\<exists>r. v_attestor_record w (act_sender a) = Some r \<and> self_blocked r"
    if "commit_block db h ?out sealed = Ok w" for w
  proof -
    have gov: "o_governance ?out @ bu_governance sealed =
        PutAttestorRecord (act_sender a) (r\<lparr> self_blocked := True \<rparr>) # (bu_governance u' @ bu_governance sealed)"
      by (simp add: extend_outcome_def seeded_outcome_def default_updates_simps u)
    have quiet: "\<not> list_ex writes_attestor (bu_governance u' @ bu_governance sealed)" using g(1) sealed(2) by simp
    have "v_attestor_record w = v_attestor_record (apply_governance (before_governance db ?out sealed)
        (o_governance ?out @ bu_governance sealed))"
      using commit_block_rows(2) [OF that sealed(1)] by (simp only: shared_rows_def prod.inject)
    also have "\<dots> = v_attestor_record (apply_gov_write (PutAttestorRecord (act_sender a) (r\<lparr> self_blocked := True \<rparr>))
        (before_governance db ?out sealed))"
      unfolding gov apply_governance_simps by (rule apply_governance_attestor [OF quiet])
    finally show ?thesis by simp
  qed
  show ?thesis
    by (intro exI conjI, rule execute_two [OF run weight], rule gone, intro allI impI, rule kept)
qed

definition sample_attestor_record :: attestor_record where
  "sample_attestor_record = \<lparr> att_name = ''Att'', att_registered_at = 1, att_owners = [], att_threshold = 1,
     self_blocked = False, removal_pending = True, removal_cooldown_until = 0 \<rparr>"

definition sample_removal_db :: view where
  "sample_removal_db = empty_view\<lparr>
     v_attestor_record := [sample_alice \<mapsto> sample_attestor_record],
     v_proposal := [1 \<mapsto> (sample_proposal 1 Open)\<lparr> proposal_action := RemoveAttestor sample_alice, yes_power := 10000 \<rparr>] \<rparr>"

text \<open>Two payloads of the chain: 0 is \<open>BlockAttestor\<close>, any other one \<open>ExecuteProposal\<close>.\<close>

definition sample_handlers :: "nat action \<Rightarrow> view \<Rightarrow> (runtime_error, block_updates) result" where
  "sample_handlers act v =
    (if act_payload act = 0 then block_attestor v act
     else gov_execute sample_hasher (\<lambda>_. None) (\<lambda>_ _. None) v 1 200)"

lemma sample_block_attestor:
  "block_attestor sample_removal_db (sample_action 0) = Ok (default_updates\<lparr> bu_governance :=
     [PutAttestorRecord sample_alice (sample_attestor_record\<lparr> self_blocked := True \<rparr>)] \<rparr>)"
  by (simp add: block_attestor_def apply_set_self_blocked_def require_attestor_def sample_removal_db_def sample_action_def)

lemma sample_removal:
  assumes "u = default_updates\<lparr> bu_governance :=
     [PutAttestorRecord sample_alice (sample_attestor_record\<lparr> self_blocked := True \<rparr>)] \<rparr>"
  shows "\<exists>u'. gov_execute sample_hasher (\<lambda>_. None) (\<lambda>_ _. None) (absorb_updates sample_removal_db u) 1 200 = Ok u' \<and>
     bu_attestor_deregistration u' = Some sample_alice"
  by (simp add: assms gov_execute_def apply_execute_def proposal_of_def absorb_rows default_updates_def no_stakes_def
      no_operators_def sample_removal_db_def empty_view_def sample_proposal_def chain_params_of_def default_chain_params_def
      apply_deregister_attestor_def require_attestor_def no_attestors_def)

theorem self_block_undoes_removal_witness:
  "\<exists>v out w. execute_actions (\<lambda>_. True) (\<lambda>_ _. True) sample_handlers (\<lambda>_. (4, 5)) sample_removal_db
       [sample_action 0, sample_action 1] default_updates = Ok (v, out) \<and>
     v_attestor_record v sample_alice = None \<and>
     commit_block sample_removal_db 200 out default_updates = Ok w \<and> v_attestor_record w sample_alice \<noteq> None"
proof -
  define u where "u = default_updates\<lparr> bu_governance :=
     [PutAttestorRecord sample_alice (sample_attestor_record\<lparr> self_blocked := True \<rparr>)] \<rparr>"
  from sample_removal [OF u_def] obtain u' where
    u': "gov_execute sample_hasher (\<lambda>_. None) (\<lambda>_ _. None) (absorb_updates sample_removal_db u) 1 200 = Ok u'"
      "bu_attestor_deregistration u' = Some sample_alice" by blast
  have d: "wf_updates default_updates" "bu_governance default_updates = []"
    by (simp_all add: wf_updates_def default_updates_def no_stakes_def no_operators_def)
  have self: "u\<lparr> bu_accounts := bu_accounts u \<rparr> = u" "u'\<lparr> bu_accounts := bu_accounts u' \<rparr> = u'" by simp_all
  have s: "act_sender (sample_action k) = sample_alice" for k by (simp add: sample_action_def)
  have ver: "verified (\<lambda>_. True) (\<lambda>_ _. True) v a" for v and a :: "nat action"
    by (simp add: verified_def split: option.split)
  have "\<exists>v out. execute_actions (\<lambda>_. True) (\<lambda>_ _. True) sample_handlers (\<lambda>_. (4, 5)) sample_removal_db
      [sample_action 0, sample_action 1] default_updates = Ok (v, out) \<and>
    v_attestor_record v (act_sender (sample_action 0)) = None \<and>
    (\<forall>w. commit_block sample_removal_db 200 out default_updates = Ok w \<longrightarrow>
       (\<exists>r. v_attestor_record w (act_sender (sample_action 0)) = Some r \<and> self_blocked r))"
  proof (rule self_block_undoes_removal [where u = u and u' = u' and x = "bu_accounts u" and x' = "bu_accounts u'",
        unfolded self])
    show "gov_execute sample_hasher (\<lambda>_. None) (\<lambda>_ _. None) (absorb_updates sample_removal_db u) 1 200 = Ok u'"
      by (rule u'(1))
    show "sample_handlers (sample_action 1) (absorb_updates sample_removal_db u) = Ok u'"
      using u'(1) by (simp add: sample_handlers_def sample_action_def)
    show "block_attestor sample_removal_db (sample_action 0) = Ok u"
      "sample_handlers (sample_action 0) sample_removal_db = Ok u"
      using sample_block_attestor by (simp_all add: u_def sample_handlers_def) (simp add: sample_action_def)
    show "fst (4 :: nat, 5 :: nat) + fst (4 :: nat, 5 :: nat) \<le> max_block_weight (chain_params_of sample_removal_db)"
      "max_block_weight (chain_params_of sample_removal_db) \<le> u64_max"
      by (simp_all add: sample_removal_db_def chain_params_of_def empty_view_def default_chain_params_def u64_max_def)
  qed (simp_all add: u' s ver d)
  then obtain v out where r: "execute_actions (\<lambda>_. True) (\<lambda>_ _. True) sample_handlers (\<lambda>_. (4, 5)) sample_removal_db
      [sample_action 0, sample_action 1] default_updates = Ok (v, out)"
    "v_attestor_record v sample_alice = None"
    "\<forall>w. commit_block sample_removal_db 200 out default_updates = Ok w \<longrightarrow>
       (\<exists>r. v_attestor_record w sample_alice = Some r \<and> self_blocked r)"
    unfolding s by blast
  obtain w where "commit_block sample_removal_db 200 out default_updates = Ok w"
    by (auto simp: commit_block_def default_updates_simps Let_def)
  with r show ?thesis by blast
qed

end
