(* ===== verification/Asset_Ledger.thy ===== *)
theory Asset_Ledger
  imports Identity_Circuit
begin

text \<open>
  What tokens and regulated assets share: the balances under one asset, the outstanding total and the
  number of holders, and the contract their two circuits keep with the asset record. Each circuit has
  its own \<open>track_holder\<close>; the locale \<open>holder_book\<close> states what both promise and proves once that
  minting, burning and moving units keep \<open>total_supply\<close> and \<open>holder_count\<close> equal to what the balances say.
\<close>

section \<open>Balances under one asset\<close>

definition asset_balance :: "view \<Rightarrow> asset_ref \<Rightarrow> address \<Rightarrow> nat" where
  "asset_balance v r owner = unwrap_or 0 (v_asset_balance v (r, owner))"

definition holdings :: "view \<Rightarrow> asset_ref \<Rightarrow> address \<rightharpoonup> nat" where
  "holdings v r = (\<lambda>owner. v_asset_balance v (r, owner))"

definition outstanding :: "view \<Rightarrow> asset_ref \<Rightarrow> nat" where
  "outstanding v r = msum (\<lambda>b. b) (holdings v r)"

definition holders :: "view \<Rightarrow> asset_ref \<Rightarrow> address set" where
  "holders v r = {owner. 0 < asset_balance v r owner}"

lemma asset_balance_holdings: "asset_balance v r owner = opt_val (\<lambda>b. b) (holdings v r owner)"
  by (cases "v_asset_balance v (r, owner)") (simp_all add: asset_balance_def holdings_def)

lemma holdings_insert:
  "holdings (apply_asset_balances v (bt_insert (r, owner) x u)) r =
   (holdings (apply_asset_balances v u) r)(owner \<mapsto> x)"
  by (auto simp: holdings_def fun_eq_iff)

lemma holdings_same [simp]: "holdings (apply_asset_balances v []) r = holdings v r"
  by (simp add: holdings_def)

lemma holdings_other:
  "(\<And>k. k \<in> set (bt_keys u) \<Longrightarrow> fst k = r) \<Longrightarrow> s \<noteq> r \<Longrightarrow>
   holdings (apply_asset_balances v u) s = holdings v s"
proof
  fix owner
  assume keys: "\<And>k. k \<in> set (bt_keys u) \<Longrightarrow> fst k = r" and s: "s \<noteq> r"
  have "(s, owner) \<notin> fst ` set u" using keys [of "(s, owner)"] s by (auto simp: bt_keys_def)
  then have "map_of u (s, owner) = None" by (simp add: map_of_eq_None_iff)
  then show "holdings (apply_asset_balances v u) s owner = holdings v s owner"
    by (simp add: holdings_def map_add_def)
qed

lemma finite_holders: "finite (dom (holdings v r)) \<Longrightarrow> finite (holders v r)"
  by (rule finite_subset [of _ "dom (holdings v r)"])
     (auto simp: holders_def asset_balance_holdings opt_val_def split: option.splits)

lemma balance_le_outstanding: "finite (dom (holdings v r)) \<Longrightarrow> asset_balance v r owner \<le> outstanding v r"
  using msum_ge [of "holdings v r" owner _ "\<lambda>b. b"]
  by (cases "holdings v r owner") (auto simp: asset_balance_holdings outstanding_def)

lemma asset_balance_upd:
  "holdings w r = (holdings v r)(owner \<mapsto> x) \<Longrightarrow>
   asset_balance w r o' = (if o' = owner then x else asset_balance v r o')"
  by (simp add: asset_balance_holdings)

lemma outstanding_upd:
  "finite (dom (holdings v r)) \<Longrightarrow> holdings w r = (holdings v r)(owner \<mapsto> x) \<Longrightarrow>
   outstanding w r + asset_balance v r owner = outstanding v r + x"
  using msum_upd [of "holdings v r" "\<lambda>b. b" owner x] by (simp add: outstanding_def asset_balance_holdings)

section \<open>The contract of \<open>track_holder\<close>\<close>

locale holder_book =
  fixes counts :: "asset \<Rightarrow> address \<Rightarrow> bool"
    and track :: "asset \<Rightarrow> address \<Rightarrow> nat \<Rightarrow> nat \<Rightarrow> asset"
  assumes track_rule: "track a who before after =
      (if \<not> counts a who then a
       else if before = 0 \<and> after \<noteq> 0 then a\<lparr> holder_count := saturating_add u32_max (holder_count a) 1 \<rparr>
       else if before \<noteq> 0 \<and> after = 0 then a\<lparr> holder_count := saturating_sub (holder_count a) 1 \<rparr>
       else a)"
    and counts_record: "asset_ref_of b = asset_ref_of a \<Longrightarrow> issuer b = issuer a \<Longrightarrow> counts b who = counts a who"
begin

definition book :: "view \<Rightarrow> asset \<Rightarrow> bool" where
  "book v a \<longleftrightarrow> finite (dom (holdings v (asset_ref_of a))) \<and>
     total_supply a = outstanding v (asset_ref_of a) \<and>
     holder_count a = card {owner \<in> holders v (asset_ref_of a). counts a owner}"

lemma track_keeps:
  "asset_ref_of (track a who b c) = asset_ref_of a" "issuer (track a who b c) = issuer a"
  "total_supply (track a who b c) = total_supply a" "max_supply (track a who b c) = max_supply a"
  "asset_class (track a who b c) = asset_class a"
  by (simp_all add: track_rule)

lemma book_outstanding: "book v a \<Longrightarrow> outstanding v (asset_ref_of a) = total_supply a"
  by (simp add: book_def)

text \<open>One balance moves; the record follows it.\<close>

lemma book_set_balance:
  assumes "book v a" and upd: "holdings w (asset_ref_of a) = (holdings v (asset_ref_of a))(who \<mapsto> x)"
    and "holder_count a < u32_max"
    and "tot + asset_balance v (asset_ref_of a) who = total_supply a + x"
  shows "book w ((track a who (asset_balance v (asset_ref_of a) who) x)\<lparr> total_supply := tot \<rparr>)"
proof -
  let ?r = "asset_ref_of a" and ?b = "asset_balance v (asset_ref_of a) who"
  let ?H = "{owner \<in> holders v ?r. counts a owner}"
  have fin: "finite (dom (holdings v ?r))" "finite ?H"
    using assms(1) finite_holders [of v ?r] by (auto simp: book_def)
  have hs: "holders w ?r = (if x = 0 then holders v ?r - {who} else insert who (holders v ?r))"
    using asset_balance_upd [OF upd] by (auto simp: holders_def)
  have mem: "who \<in> holders v ?r \<longleftrightarrow> ?b \<noteq> 0" by (simp add: holders_def)
  have "card {owner \<in> holders w ?r. counts a owner} = holder_count (track a who ?b x)"
  proof (cases "counts a who")
    case False
    then have "{owner \<in> holders w ?r. counts a owner} = ?H" using hs by (auto split: if_splits)
    then show ?thesis using False assms(1) by (simp add: track_rule book_def)
  next
    case True
    then have set: "{owner \<in> holders w ?r. counts a owner} = (if x = 0 then ?H - {who} else insert who ?H)"
      using hs by auto
    show ?thesis
      using True mem fin(2) assms(1,3) unfolding set
      by (auto simp: track_rule book_def saturating_add_def saturating_sub_def card_insert_if card_Diff_singleton)
  qed
  moreover have "outstanding w ?r = tot" using outstanding_upd [OF fin(1) upd] assms(1,4) by (simp add: book_def)
  moreover have "counts ((track a who ?b x)\<lparr> total_supply := tot \<rparr>) = counts a"
    by (rule ext, rule counts_record) (simp_all add: track_keeps)
  ultimately show ?thesis using fin(1) upd by (simp add: book_def track_keeps)
qed

text \<open>Units move between two holders.\<close>

lemma book_move:
  assumes "book v a" and "from \<noteq> to" and "amount \<le> asset_balance v (asset_ref_of a) from"
    and upd: "holdings w (asset_ref_of a) =
      (holdings v (asset_ref_of a))(from \<mapsto> asset_balance v (asset_ref_of a) from - amount,
                                    to \<mapsto> asset_balance v (asset_ref_of a) to + amount)"
    and "holder_count a < u32_max"
  shows "book w (track (track a from (asset_balance v (asset_ref_of a) from) (asset_balance v (asset_ref_of a) from - amount))
     to (asset_balance v (asset_ref_of a) to) (asset_balance v (asset_ref_of a) to + amount))"
proof -
  let ?r = "asset_ref_of a" and ?f = "asset_balance v (asset_ref_of a) from" and ?t = "asset_balance v (asset_ref_of a) to"
  let ?v = "apply_asset_balances v (bt_insert (?r, from) (?f - amount) [])"
  let ?a = "(track a from ?f (?f - amount))\<lparr> total_supply := total_supply a - amount \<rparr>"
  have mid: "holdings ?v ?r = (holdings v ?r)(from \<mapsto> ?f - amount)" by (simp add: holdings_insert)
  have le: "amount \<le> total_supply a"
    using assms(1,3) balance_le_outstanding [of v ?r "from"] by (simp add: book_def)
  have "book ?v ?a" by (rule book_set_balance [OF assms(1) mid assms(5)]) (use assms(3) le in simp)
  moreover have to: "asset_balance ?v ?r to = ?t" using asset_balance_upd [OF mid] assms(2) by simp
  moreover have "holder_count ?a \<le> holder_count a" by (simp add: track_rule saturating_sub_def)
  ultimately have "book w ((track ?a to ?t (?t + amount))\<lparr> total_supply := total_supply a \<rparr>)"
    using book_set_balance [of ?v ?a w to "?t + amount" "total_supply a"] upd mid assms(5) le
    by (simp add: track_keeps)
  moreover have "(track ?a to ?t (?t + amount))\<lparr> total_supply := total_supply a \<rparr> =
      track (track a from ?f (?f - amount)) to ?t (?t + amount)"
    using counts_record [of ?a "track a from ?f (?f - amount)" to]
    by (simp add: track_rule)
  ultimately show ?thesis by simp
qed

end

end
