(* ===== verification/Token_Circuit.thy ===== *)
theory Token_Circuit
  imports Asset_Ledger Staking_Circuit
begin

text \<open>
  Permissionless tokens (\<^verbatim>\<open>src/circuits/token/src/lib.rs\<close>): creation, minting, transfer, burning and the
  renunciation of minting. A function that takes the asset record by mutable reference returns the new
  record with its updates.
\<close>

section \<open>Operations\<close>

datatype token_error =
    NotAToken asset_ref
  | NotCreator asset_ref address address
  | MintRenounced asset_ref
  | TkZeroAmount
  | EmptyFixedSupply
  | TkSupplyCapExceeded asset_ref nat nat nat
  | TkSupplyOverflow asset_ref
  | TkInsufficientBalance asset_ref address nat nat
  | CannotPayCreateFee address nat nat

definition require_token :: "asset \<Rightarrow> (token_error, unit) result" where
  "require_token a = (if asset_class a \<noteq> Token then Err (NotAToken (asset_ref_of a)) else Ok ())"

definition require_creator :: "asset \<Rightarrow> address \<Rightarrow> (token_error, unit) result" where
  "require_creator a sender =
    (if sender \<noteq> issuer a then Err (NotCreator (asset_ref_of a) (issuer a) sender) else Ok ())"

definition token_track_holder :: "asset \<Rightarrow> nat \<Rightarrow> nat \<Rightarrow> asset" where
  "token_track_holder a before after =
    (if before = 0 \<and> after \<noteq> 0 then a\<lparr> holder_count := saturating_add u32_max (holder_count a) 1 \<rparr>
     else if before \<noteq> 0 \<and> after = 0 then a\<lparr> holder_count := saturating_sub (holder_count a) 1 \<rparr>
     else a)"

definition mint_into ::
  "view \<Rightarrow> asset \<Rightarrow> address \<Rightarrow> nat \<Rightarrow> (token_error, asset \<times> asset_balance_updates) result" where
  "mint_into v a to amount =
    and_then (ok_or (TkSupplyOverflow (asset_ref_of a)) (checked_add u128_max (total_supply a) amount)) (\<lambda>resulting.
    if (case max_supply a of Some cap \<Rightarrow> cap < resulting | None \<Rightarrow> False)
    then Err (TkSupplyCapExceeded (asset_ref_of a) (the (max_supply a)) resulting amount)
    else
     (let before = asset_balance v (asset_ref_of a) to in
      and_then (ok_or (TkSupplyOverflow (asset_ref_of a)) (checked_add u128_max before amount)) (\<lambda>after.
      Ok (token_track_holder (a\<lparr> total_supply := resulting \<rparr>) before after,
          bt_insert (asset_ref_of a, to) after []))))"

definition apply_create ::
  "hasher \<Rightarrow> view \<Rightarrow> asset \<Rightarrow> nat \<Rightarrow> nat \<Rightarrow>
   (token_error, asset \<times> account_updates \<times> asset_balance_updates) result" where
  "apply_create H v a initial_supply create_fee =
    and_then (require_token a) (\<lambda>_.
    if initial_supply = 0 \<and> issuance_locked a then Err EmptyFixedSupply
    else
     (let creator = issuer a in
      and_then (if 0 < initial_supply then mint_into v a creator initial_supply else Ok (a, [])) (\<lambda>(a, assets).
      if 0 < create_fee then
        (let payer = account_of v creator in
         and_then (ok_or (CannotPayCreateFee creator (balance payer) create_fee)
                     (checked_sub (balance payer) create_fee)) (\<lambda>rest.
         (let treasury = treasury_account H;
              sink = account_of v treasury
          in Ok (a, bt_insert treasury (sink\<lparr> balance := saturating_add u128_max (balance sink) create_fee \<rparr>)
                     (bt_insert creator (payer\<lparr> balance := rest \<rparr>) []), assets))))
      else Ok (a, [], assets))))"

definition apply_mint ::
  "view \<Rightarrow> asset \<Rightarrow> address \<Rightarrow> address \<Rightarrow> nat \<Rightarrow> (token_error, asset \<times> asset_balance_updates) result" where
  "apply_mint v a sender to amount =
    and_then (require_token a) (\<lambda>_.
    and_then (require_creator a sender) (\<lambda>_.
    if issuance_locked a then Err (MintRenounced (asset_ref_of a))
    else if amount = 0 then Err TkZeroAmount
    else mint_into v a to amount))"

definition token_transfer ::
  "view \<Rightarrow> asset \<Rightarrow> address \<Rightarrow> address \<Rightarrow> nat \<Rightarrow> (token_error, asset \<times> asset_balance_updates) result" where
  "token_transfer v a from to amount =
    and_then (require_token a) (\<lambda>_.
    if amount = 0 then Err TkZeroAmount
    else
     (let from_balance = asset_balance v (asset_ref_of a) from in
      if from_balance < amount then Err (TkInsufficientBalance (asset_ref_of a) from from_balance amount)
      else if from = to then Ok (a, [])
      else
       (let to_balance = asset_balance v (asset_ref_of a) to in
        and_then (ok_or (TkSupplyOverflow (asset_ref_of a)) (checked_add u128_max to_balance amount)) (\<lambda>to_after.
        Ok (token_track_holder (token_track_holder a from_balance (from_balance - amount)) to_balance to_after,
            bt_insert (asset_ref_of a, to) to_after
              (bt_insert (asset_ref_of a, from) (from_balance - amount) []))))))"

definition token_burn ::
  "view \<Rightarrow> asset \<Rightarrow> address \<Rightarrow> nat \<Rightarrow> (token_error, asset \<times> asset_balance_updates) result" where
  "token_burn v a holder amount =
    and_then (require_token a) (\<lambda>_.
    if amount = 0 then Err TkZeroAmount
    else
     (let b = asset_balance v (asset_ref_of a) holder in
      if b < amount then Err (TkInsufficientBalance (asset_ref_of a) holder b amount)
      else Ok (token_track_holder (a\<lparr> total_supply := saturating_sub (total_supply a) amount \<rparr>) b (b - amount),
               bt_insert (asset_ref_of a, holder) (b - amount) [])))"

definition apply_renounce_mint :: "asset \<Rightarrow> address \<Rightarrow> (token_error, asset) result" where
  "apply_renounce_mint a sender =
    and_then (require_token a) (\<lambda>_.
    and_then (require_creator a sender) (\<lambda>_.
    Ok (a\<lparr> issuance_locked := True \<rparr>)))"

section \<open>The holder book of a token\<close>

text \<open>Every holder of a token counts, its creator too.\<close>

interpretation tb: holder_book "\<lambda>a who. True" "\<lambda>a who before after. token_track_holder a before after"
  by unfold_locales (simp_all add: token_track_holder_def)

lemma track_total: "(token_track_holder a b c)\<lparr> total_supply := t \<rparr> = token_track_holder (a\<lparr> total_supply := t \<rparr>) b c"
  by (simp add: token_track_holder_def)

lemma mint_into_OkE:
  assumes "mint_into v a to amount = Ok (a', u)"
  obtains "total_supply a + amount \<le> u128_max" "\<forall>cap. max_supply a = Some cap \<longrightarrow> total_supply a + amount \<le> cap"
    "a' = (token_track_holder a (asset_balance v (asset_ref_of a) to) (asset_balance v (asset_ref_of a) to + amount))\<lparr>
            total_supply := total_supply a + amount \<rparr>"
    "u = bt_insert (asset_ref_of a, to) (asset_balance v (asset_ref_of a) to + amount) []"
  using assms by (auto simp: mint_into_def Let_def track_total not_less split: if_splits option.splits)

lemma mint_into_book:
  assumes "tb.book v a" and "mint_into v a to amount = Ok (a', u)" and "holder_count a < u32_max"
  shows "tb.book (apply_asset_balances v u) a' \<and> total_supply a' = total_supply a + amount \<and>
    (\<forall>cap. max_supply a' = Some cap \<longrightarrow> total_supply a' \<le> cap) \<and> asset_ref_of a' = asset_ref_of a"
  using assms(2)
proof (cases rule: mint_into_OkE)
  case 1
  let ?b = "asset_balance v (asset_ref_of a) to"
  have "tb.book (apply_asset_balances v u) ((token_track_holder a ?b (?b + amount))\<lparr> total_supply := total_supply a + amount \<rparr>)"
    using 1(4) by (intro tb.book_set_balance [OF assms(1) _ assms(3)]) (simp_all add: holdings_insert)
  with 1 show ?thesis using tb.track_keeps [of a] by simp
qed

lemma token_transfer_book:
  assumes "tb.book v a" and "token_transfer v a from to amount = Ok (a', u)" and "holder_count a < u32_max"
  shows "tb.book (apply_asset_balances v u) a' \<and> total_supply a' = total_supply a \<and> asset_ref_of a' = asset_ref_of a"
proof (cases "from = to")
  case True
  then have "a' = a" "u = []" using assms(2) by (simp_all add: token_transfer_def Let_def split: if_splits)
  then show ?thesis using assms(1) by (simp add: apply_asset_balances_def)
next
  case False
  let ?f = "asset_balance v (asset_ref_of a) from" and ?t = "asset_balance v (asset_ref_of a) to"
  from assms(2) False have *: "amount \<le> ?f"
    "a' = token_track_holder (token_track_holder a ?f (?f - amount)) ?t (?t + amount)"
    "u = bt_insert (asset_ref_of a, to) (?t + amount) (bt_insert (asset_ref_of a, from) (?f - amount) [])"
    by (auto simp: token_transfer_def Let_def split: if_splits)
  have "tb.book (apply_asset_balances v u) a'"
    unfolding *(2) by (rule tb.book_move [OF assms(1) False *(1) _ assms(3)]) (simp add: *(3) holdings_insert)
  then show ?thesis using tb.track_keeps by (simp add: *(2))
qed

lemma token_burn_book:
  assumes "tb.book v a" and "token_burn v a holder amount = Ok (a', u)" and "holder_count a < u32_max"
  shows "tb.book (apply_asset_balances v u) a' \<and> total_supply a' + amount = total_supply a \<and> asset_ref_of a' = asset_ref_of a"
proof -
  let ?b = "asset_balance v (asset_ref_of a) holder"
  from assms(2) have *: "amount \<le> ?b" "a' = token_track_holder (a\<lparr> total_supply := total_supply a - amount \<rparr>) ?b (?b - amount)"
    "u = bt_insert (asset_ref_of a, holder) (?b - amount) []"
    by (auto simp: token_burn_def Let_def saturating_sub_def split: if_splits)
  have le: "amount \<le> total_supply a"
    using *(1) assms(1) balance_le_outstanding [of v "asset_ref_of a" holder] by (simp add: tb.book_def)
  have "tb.book (apply_asset_balances v u) a'"
    unfolding *(2) track_total [symmetric]
    using *(1) le by (intro tb.book_set_balance [OF assms(1) _ assms(3)]) (simp_all add: *(3) holdings_insert)
  then show ?thesis using le tb.track_keeps by (simp add: *(2))
qed

end
