(* ===== verification/Asset_Circuit.thy ===== *)
theory Asset_Circuit
  imports Asset_Ledger Staking_Circuit
begin

text \<open>
  Regulated assets (\<^verbatim>\<open>src/circuits/rwa-asset/src/lib.rs\<close>): who may hold an asset, issuance, compliant and
  forced transfers, burning, freezes and locks, wallet recovery, and the corporate actions over a
  recorded cap table (distribution, redemption, split).
\<close>

section \<open>Errors\<close>

datatype rwa_error =
    NotIssuer address address
  | RwaInvalidNonce address nat nat
  | NotCompliant address
  | RwaInsufficientBalance asset_ref address nat nat
  | SupplyCapExceeded asset_ref nat nat nat
  | SupplyOverflow asset_ref
  | AssetFrozen asset_ref
  | HolderFrozen asset_ref address
  | AmountLocked asset_ref address nat nat nat nat
  | LockExceedsBalance asset_ref address nat nat nat
  | UnlockExceedsLocked asset_ref address nat nat
  | IssuanceLocked asset_ref
  | BurnExceedsBalance asset_ref nat nat
  | BurnExceedsSupply asset_ref nat nat
  | MissingClaim asset_ref address claim_topic
  | JurisdictionNotAllowed asset_ref address "country_code option"
  | AttestationExpired asset_ref address nat nat
  | HolderCapReached asset_ref address nat
  | HolderLimitExceeded asset_ref address nat nat
  | ShareOverflow asset_ref
  | AttestedThisBlock address

fun ineligible_party :: "rwa_error \<Rightarrow> address option" where
  "ineligible_party (NotCompliant a) = Some a"
| "ineligible_party (HolderFrozen r a) = Some a"
| "ineligible_party (MissingClaim r a t) = Some a"
| "ineligible_party (JurisdictionNotAllowed r a j) = Some a"
| "ineligible_party (AttestationExpired r a x m) = Some a"
| "ineligible_party (HolderCapReached r a h) = Some a"
| "ineligible_party (HolderLimitExceeded r a x l) = Some a"
| "ineligible_party _ = None"

section \<open>Who may hold an asset\<close>

definition holder_state_of :: "view \<Rightarrow> asset \<Rightarrow> address \<Rightarrow> nat \<Rightarrow> holder_state" where
  "holder_state_of v a holder current_height =
    (let st = unwrap_or default_holder_state (v_asset_holder_state v (asset_ref_of a, holder)) in
     if (case lock_expires_at st of Some at \<Rightarrow> at \<le> current_height | None \<Rightarrow> False)
     then st\<lparr> frozen_amount := 0, lock_expires_at := None \<rparr> else st)"

definition CLAIM_PROOF_TTL_SECS :: nat where "CLAIM_PROOF_TTL_SECS = 90 * 86400"

definition claim_proof_live ::
  "view \<Rightarrow> address \<Rightarrow> account_entry option \<Rightarrow> holder_state \<Rightarrow> nat \<Rightarrow> bool" where
  "claim_proof_live v party entry st current_height =
    (case claim_verified_at st of
       None \<Rightarrow> False
     | Some verified_at \<Rightarrow>
       if (case Option.bind entry attested_at of Some at \<Rightarrow> verified_at \<le> at | None \<Rightarrow> True) \<or> \<not> is_attested v party
       then False
       else
        (let interval = max (block_interval_secs (chain_params_of v)) 1 in
         current_height < saturating_add u64_max verified_at (CLAIM_PROOF_TTL_SECS div interval)))"

definition check_claims ::
  "view \<Rightarrow> asset \<Rightarrow> address \<Rightarrow> account_entry option \<Rightarrow> bool \<Rightarrow> (rwa_error, unit) result" where
  "check_claims v a party entry proven =
    (if proven then Ok ()
     else if required_claims a \<noteq> [] then
       (if \<not> is_attested v party then Err (NotCompliant party)
        else
         (let held = (case entry of Some e \<Rightarrow> claims e | None \<Rightarrow> []) in
          case List.find (\<lambda>t. t \<notin> set held) (required_claims a) of
            Some missing \<Rightarrow> Err (MissingClaim (asset_ref_of a) party missing)
          | None \<Rightarrow> Ok ()))
     else if compliance_required a \<and> \<not> is_attested v party then Err (NotCompliant party)
     else Ok ())"

definition check_age :: "asset \<Rightarrow> address \<Rightarrow> account_entry option \<Rightarrow> nat \<Rightarrow> (rwa_error, unit) result" where
  "check_age a party entry current_height =
    (case max_attestation_age a of
       None \<Rightarrow> Ok ()
     | Some max_age \<Rightarrow>
       (case Option.bind entry attested_at of
          None \<Rightarrow> Err (AttestationExpired (asset_ref_of a) party u64_max max_age)
        | Some at \<Rightarrow>
          (let age = saturating_sub current_height at in
           if max_age < age then Err (AttestationExpired (asset_ref_of a) party age max_age) else Ok ())))"

definition check_jurisdiction ::
  "asset \<Rightarrow> address \<Rightarrow> account_entry option \<Rightarrow> bool \<Rightarrow> (rwa_error, unit) result" where
  "check_jurisdiction a party entry proven =
    (case allowed_jurisdictions a of
       None \<Rightarrow> Ok ()
     | Some allowed \<Rightarrow>
       if proven then Ok ()
       else
        (let held = Option.bind entry jurisdiction in
         if (case held of Some code \<Rightarrow> code \<in> set allowed | None \<Rightarrow> False) then Ok ()
         else Err (JurisdictionNotAllowed (asset_ref_of a) party held)))"

definition check_party :: "view \<Rightarrow> asset \<Rightarrow> address \<Rightarrow> nat \<Rightarrow> (rwa_error, unit) result" where
  "check_party v a party current_height =
    (let entry = v_account v party;
         st = holder_state_of v a party current_height
     in
     if hs_frozen st then Err (HolderFrozen (asset_ref_of a) party)
     else
      (let proven = (private_claims a \<and> claim_proof_live v party entry st current_height) in
       and_then (check_claims v a party entry proven) (\<lambda>_.
       and_then (check_age a party entry current_height) (\<lambda>_.
       check_jurisdiction a party entry proven))))"

definition apply_record_claim_proof ::
  "view \<Rightarrow> asset \<Rightarrow> address \<Rightarrow> nat \<Rightarrow> (rwa_error, holder_state_updates) result" where
  "apply_record_claim_proof v a holder current_height =
    (if (case Option.bind (v_account v holder) attested_at of Some at \<Rightarrow> current_height \<le> at | None \<Rightarrow> False)
     then Err (AttestedThisBlock holder)
     else
      (let st = unwrap_or default_holder_state (v_asset_holder_state v (asset_ref_of a, holder)) in
       Ok (bt_insert (asset_ref_of a, holder) (st\<lparr> claim_verified_at := Some current_height \<rparr>) [])))"

definition MAX_ASSET_HOLDERS :: nat where "MAX_ASSET_HOLDERS = 1000"

definition asset_credit :: "asset_ref \<Rightarrow> nat \<Rightarrow> nat \<Rightarrow> (rwa_error, nat) result" where
  "asset_credit r bal amount = ok_or (SupplyOverflow r) (checked_add u128_max bal amount)"

definition check_recipient ::
  "view \<Rightarrow> asset \<Rightarrow> address \<Rightarrow> nat \<Rightarrow> nat \<Rightarrow> (rwa_error, nat) result" where
  "check_recipient v a to amount current_height =
    and_then (check_party v a to current_height) (\<lambda>_.
    (let bal = asset_balance v (asset_ref_of a) to in
     if to = issuer a then Ok bal
     else
      (let cap = (case max_holders a of Some c \<Rightarrow> min c MAX_ASSET_HOLDERS | None \<Rightarrow> MAX_ASSET_HOLDERS) in
       if bal = 0 \<and> 0 < amount \<and> cap \<le> holder_count a
       then Err (HolderCapReached (asset_ref_of a) to (holder_count a))
       else
        (case max_balance_per_holder a of
           None \<Rightarrow> Ok bal
         | Some limit \<Rightarrow>
           and_then (asset_credit (asset_ref_of a) bal amount) (\<lambda>resulting.
           if limit < resulting then Err (HolderLimitExceeded (asset_ref_of a) to resulting limit)
           else Ok bal)))))"

definition rwa_track_holder :: "asset \<Rightarrow> address \<Rightarrow> nat \<Rightarrow> nat \<Rightarrow> asset" where
  "rwa_track_holder a who before after =
    (if who = issuer a then a
     else if before = 0 \<and> after \<noteq> 0 then a\<lparr> holder_count := saturating_add u32_max (holder_count a) 1 \<rparr>
     else if before \<noteq> 0 \<and> after = 0 then a\<lparr> holder_count := saturating_sub (holder_count a) 1 \<rparr>
     else a)"

section \<open>What a wallet shows\<close>

datatype transfer_eligibility =
    Eligible
  | EligAssetFrozen
  | EligHolderFrozen
  | MissingAttestation
  | MissingRequiredClaim
  | EligJurisdictionNotAllowed
  | EligAttestationExpired
  | NoTransferableBalance

text \<open>The last arm is the \<open>unreachable!\<close> of the source.\<close>

definition transfer_eligibility_of ::
  "view \<Rightarrow> asset \<Rightarrow> address \<Rightarrow> nat \<Rightarrow> nat \<Rightarrow> (never, transfer_eligibility) result" where
  "transfer_eligibility_of v a sender bal current_height =
    (if frozen a then Ok EligAssetFrozen
     else
      (case check_party v a sender current_height of
         Ok _ \<Rightarrow>
           (let locked_units = frozen_amount (holder_state_of v a sender current_height) in
            if saturating_sub bal locked_units = 0 then Ok NoTransferableBalance else Ok Eligible)
       | Err (HolderFrozen _ _) \<Rightarrow> Ok EligHolderFrozen
       | Err (NotCompliant _) \<Rightarrow> Ok MissingAttestation
       | Err (MissingClaim _ _ _) \<Rightarrow> Ok MissingRequiredClaim
       | Err (JurisdictionNotAllowed _ _ _) \<Rightarrow> Ok EligJurisdictionNotAllowed
       | Err (AttestationExpired _ _ _ _) \<Rightarrow> Ok EligAttestationExpired
       | _ \<Rightarrow> Panic))"

section \<open>Supply\<close>

definition supply_after :: "asset \<Rightarrow> nat \<Rightarrow> (rwa_error, nat) result" where
  "supply_after a amount =
    and_then (ok_or (SupplyOverflow (asset_ref_of a)) (checked_add u128_max (total_supply a) amount)) (\<lambda>resulting.
    case max_supply a of
      Some cap \<Rightarrow>
        if cap < resulting then Err (SupplyCapExceeded (asset_ref_of a) cap resulting amount) else Ok resulting
    | None \<Rightarrow> Ok resulting)"

definition apply_issue ::
  "view \<Rightarrow> asset \<Rightarrow> address \<Rightarrow> nat \<Rightarrow> nat \<Rightarrow>
   (rwa_error, asset \<times> account_updates \<times> asset_balance_updates) result" where
  "apply_issue v a sender n amount =
    (if sender \<noteq> issuer a then Err (NotIssuer (issuer a) sender)
     else if issuance_locked a then Err (IssuanceLocked (asset_ref_of a))
     else
      and_then (supply_after a amount) (\<lambda>resulting.
      (let entry = account_of v sender in
       if n \<noteq> nonce entry then Err (RwaInvalidNonce sender (nonce entry) n)
       else
        and_then (add_or_panic u64_max (nonce entry) 1) (\<lambda>n'.
        and_then (asset_credit (asset_ref_of a) (asset_balance v (asset_ref_of a) sender) amount) (\<lambda>b.
        Ok (a\<lparr> total_supply := resulting \<rparr>, bt_insert sender (entry\<lparr> nonce := n' \<rparr>) [],
            bt_insert (asset_ref_of a, sender) b []))))))"

definition apply_issue_to ::
  "view \<Rightarrow> asset \<Rightarrow> address \<Rightarrow> nat \<Rightarrow> nat \<Rightarrow> (rwa_error, asset \<times> asset_balance_updates) result" where
  "apply_issue_to v a to amount current_height =
    (if issuance_locked a then Err (IssuanceLocked (asset_ref_of a))
     else if frozen a then Err (AssetFrozen (asset_ref_of a))
     else
      and_then (check_recipient v a to amount current_height) (\<lambda>existing.
      and_then (supply_after a amount) (\<lambda>resulting.
      and_then (asset_credit (asset_ref_of a) existing amount) (\<lambda>credited.
      Ok (rwa_track_holder (a\<lparr> total_supply := resulting \<rparr>) to existing credited,
          bt_insert (asset_ref_of a, to) credited [])))))"

definition apply_burn ::
  "view \<Rightarrow> asset \<Rightarrow> address \<Rightarrow> nat \<Rightarrow> (rwa_error, asset \<times> asset_balance_updates) result" where
  "apply_burn v a who amount =
    (let bal = asset_balance v (asset_ref_of a) who in
     if bal < amount then Err (BurnExceedsBalance (asset_ref_of a) bal amount)
     else
      and_then (ok_or (BurnExceedsSupply (asset_ref_of a) (total_supply a) amount)
                  (checked_sub (total_supply a) amount)) (\<lambda>rest.
      Ok (a\<lparr> total_supply := rest \<rparr>, bt_insert (asset_ref_of a, who) (bal - amount) [])))"

section \<open>Transfers\<close>

definition apply_forced_transfer ::
  "view \<Rightarrow> asset \<Rightarrow> address \<Rightarrow> address \<Rightarrow> nat \<Rightarrow> (rwa_error, asset \<times> asset_balance_updates) result" where
  "apply_forced_transfer v a from to amount =
    (let from_balance = asset_balance v (asset_ref_of a) from in
     if from_balance < amount then Err (RwaInsufficientBalance (asset_ref_of a) from from_balance amount)
     else if to = from then Ok (a, [])
     else
      (let to_balance = asset_balance v (asset_ref_of a) to in
       and_then (asset_credit (asset_ref_of a) to_balance amount) (\<lambda>to_after.
       Ok (rwa_track_holder (rwa_track_holder a from from_balance (from_balance - amount)) to to_balance to_after,
           bt_insert (asset_ref_of a, to) to_after
             (bt_insert (asset_ref_of a, from) (from_balance - amount) [])))))"

definition check_move ::
  "view \<Rightarrow> asset \<Rightarrow> address \<Rightarrow> address \<Rightarrow> nat \<Rightarrow> nat \<Rightarrow> (rwa_error, unit) result" where
  "check_move v a from to amount current_height =
    (if frozen a then Err (AssetFrozen (asset_ref_of a))
     else
      and_then (check_party v a from current_height) (\<lambda>_.
      and_then (check_recipient v a to amount current_height) (\<lambda>_. Ok ())))"

definition move_checked ::
  "view \<Rightarrow> asset \<Rightarrow> address \<Rightarrow> address \<Rightarrow> nat \<Rightarrow> nat \<Rightarrow> (rwa_error, asset \<times> asset_balance_updates) result" where
  "move_checked v a from to amount current_height =
    (let locked_units = frozen_amount (holder_state_of v a from current_height);
         bal = asset_balance v (asset_ref_of a) from;
         available = saturating_sub bal locked_units
     in
     if 0 < locked_units \<and> available < amount
     then Err (AmountLocked (asset_ref_of a) from bal locked_units available amount)
     else apply_forced_transfer v a from to amount)"

definition apply_compliant_transfer ::
  "view \<Rightarrow> asset \<Rightarrow> address \<Rightarrow> nat \<Rightarrow> address \<Rightarrow> nat \<Rightarrow> nat \<Rightarrow>
   (rwa_error, asset \<times> account_updates \<times> asset_balance_updates) result" where
  "apply_compliant_transfer v a sender n to amount current_height =
    and_then (check_move v a sender to amount current_height) (\<lambda>_.
    (let sender_account = account_of v sender in
     if n \<noteq> nonce sender_account then Err (RwaInvalidNonce sender (nonce sender_account) n)
     else
      and_then (add_or_panic u64_max (nonce sender_account) 1) (\<lambda>n'.
      and_then (move_checked v a sender to amount current_height) (\<lambda>(a, assets).
      Ok (a, bt_insert sender (sender_account\<lparr> nonce := n' \<rparr>) [], assets)))))"

definition apply_compliant_move ::
  "view \<Rightarrow> asset \<Rightarrow> address \<Rightarrow> address \<Rightarrow> nat \<Rightarrow> nat \<Rightarrow> (rwa_error, asset \<times> asset_balance_updates) result" where
  "apply_compliant_move v a from to amount current_height =
    and_then (check_move v a from to amount current_height) (\<lambda>_.
    move_checked v a from to amount current_height)"

text \<open>A checked product divided by a denominator; a denominator of zero panics, as in the source.\<close>

definition checked_share :: "asset_ref \<Rightarrow> nat \<Rightarrow> nat \<Rightarrow> nat \<Rightarrow> (rwa_error, nat) result" where
  "checked_share r x num den =
    (case checked_mul u128_max x num of
       None \<Rightarrow> Err (ShareOverflow r)
     | Some n \<Rightarrow> if den = 0 then Panic else Ok (n div den))"

definition adjusted_lock ::
  "view \<Rightarrow> asset \<Rightarrow> address \<Rightarrow> nat \<Rightarrow> nat \<times> nat \<Rightarrow> nat \<Rightarrow> (rwa_error, holder_state option) result" where
  "adjusted_lock v a holder balance_after ratio current_height =
    (let st = holder_state_of v a holder current_height in
     if frozen_amount st = 0 then Ok None
     else
      and_then (checked_share (asset_ref_of a) (frozen_amount st) (fst ratio) (snd ratio)) (\<lambda>scaled.
      (let locked_units = min scaled balance_after in
       if locked_units = frozen_amount st then Ok None
       else Ok (Some (st\<lparr> frozen_amount := locked_units,
                          lock_expires_at := if locked_units = 0 then None else lock_expires_at st \<rparr>)))))"

definition apply_forced_transfer_with_lock ::
  "view \<Rightarrow> asset \<Rightarrow> address \<Rightarrow> address \<Rightarrow> nat \<Rightarrow> nat \<Rightarrow>
   (rwa_error, asset \<times> asset_balance_updates \<times> holder_state_updates) result" where
  "apply_forced_transfer_with_lock v a from to amount current_height =
    and_then (apply_forced_transfer v a from to amount) (\<lambda>(a, balances).
    case map_of balances (asset_ref_of a, from) of
      None \<Rightarrow> Ok (a, balances, [])
    | Some after \<Rightarrow>
      and_then (adjusted_lock v a from after (1, 1) current_height) (\<lambda>st.
      case st of
        Some st \<Rightarrow> Ok (a, balances, bt_insert (asset_ref_of a, from) st [])
      | None \<Rightarrow> Ok (a, balances, [])))"

section \<open>Freezes, locks and recovery\<close>

definition apply_set_holder_frozen :: "view \<Rightarrow> asset \<Rightarrow> address \<Rightarrow> bool \<Rightarrow> holder_state_updates" where
  "apply_set_holder_frozen v a holder b =
    (let st = unwrap_or default_holder_state (v_asset_holder_state v (asset_ref_of a, holder)) in
     bt_insert (asset_ref_of a, holder) (st\<lparr> hs_frozen := b \<rparr>) [])"

definition apply_lock_amount ::
  "view \<Rightarrow> asset \<Rightarrow> address \<Rightarrow> nat \<Rightarrow> bool \<Rightarrow> nat option \<Rightarrow> nat \<Rightarrow> (rwa_error, holder_state_updates) result" where
  "apply_lock_amount v a holder amount lock until current_height =
    (let st = holder_state_of v a holder current_height in
     and_then
      (if lock then
         (let bal = asset_balance v (asset_ref_of a) holder;
              resulting = saturating_add u128_max (frozen_amount st) amount
          in
          if bal < resulting then Err (LockExceedsBalance (asset_ref_of a) holder bal (frozen_amount st) amount)
          else Ok (st\<lparr> frozen_amount := resulting, lock_expires_at := until \<rparr>))
       else if frozen_amount st < amount
       then Err (UnlockExceedsLocked (asset_ref_of a) holder (frozen_amount st) amount)
       else
         (let rest = frozen_amount st - amount in
          Ok (st\<lparr> frozen_amount := rest, lock_expires_at := if rest = 0 then None else lock_expires_at st \<rparr>)))
      (\<lambda>st. Ok (bt_insert (asset_ref_of a, holder) st [])))"

fun later :: "nat option \<Rightarrow> nat option \<Rightarrow> nat option" where
  "later (Some a) (Some b) = Some (max a b)"
| "later None b = b"
| "later a None = a"

definition apply_recover ::
  "view \<Rightarrow> asset \<Rightarrow> address \<Rightarrow> address \<Rightarrow> nat \<Rightarrow>
   (rwa_error, asset \<times> asset_balance_updates \<times> holder_state_updates) result" where
  "apply_recover v a lost replacement current_height =
    (let lost_balance = asset_balance v (asset_ref_of a) lost in
     and_then (check_recipient v a replacement lost_balance current_height) (\<lambda>replacement_balance.
     (let lost_state = holder_state_of v a lost current_height;
          rs = holder_state_of v a replacement current_height;
          rs = rs\<lparr> frozen_amount := saturating_add u128_max (frozen_amount rs) (frozen_amount lost_state),
                   lock_expires_at := later (lock_expires_at rs) (lock_expires_at lost_state) \<rparr>;
          recovered = saturating_add u128_max replacement_balance lost_balance;
          a = rwa_track_holder a lost lost_balance 0;
          a = rwa_track_holder a replacement replacement_balance recovered;
          rs = rs\<lparr> hs_frozen := (hs_frozen rs \<or> hs_frozen lost_state) \<rparr>;
          r = asset_ref_of a
      in
      Ok (a, bt_insert (r, replacement) recovered (bt_insert (r, lost) 0 []),
          bt_insert (r, replacement) rs (bt_insert (r, lost) default_holder_state [])))))"

section \<open>Corporate actions\<close>

fun snapshot_loop ::
  "view \<Rightarrow> asset \<Rightarrow> address list \<Rightarrow> nat \<Rightarrow> (address \<times> nat) list \<Rightarrow> (rwa_error, nat \<times> (address \<times> nat) list) result" where
  "snapshot_loop v a [] tot hs = Ok (tot, hs)"
| "snapshot_loop v a (holder # rest) tot hs =
    (if holder = issuer a then snapshot_loop v a rest tot hs
     else
      (let bal = asset_balance v (asset_ref_of a) holder in
       if bal = 0 then snapshot_loop v a rest tot hs
       else
        and_then (ok_or (SupplyOverflow (asset_ref_of a)) (checked_add u128_max tot bal)) (\<lambda>tot.
        snapshot_loop v a rest tot (hs @ [(holder, bal)]))))"

definition apply_snapshot :: "view \<Rightarrow> asset \<Rightarrow> nat \<Rightarrow> (rwa_error, asset) result" where
  "apply_snapshot v a current_height =
    and_then (snapshot_loop v a (unwrap_or [] (v_asset_holders v (asset_ref_of a))) 0 []) (\<lambda>(tot, hs).
    Ok (a\<lparr> snapshot := Some \<lparr> ct_height = current_height, ct_total = tot, ct_holders = sort hs \<rparr> \<rparr>))"

definition pro_rata :: "asset_ref \<Rightarrow> cap_table \<Rightarrow> nat \<Rightarrow> nat \<Rightarrow> (rwa_error, nat) result" where
  "pro_rata r tab holding amount = checked_share r holding amount (ct_total tab)"

text \<open>
  The corporate actions stage their balance rows over the view, so that a move sees the ones before it.
\<close>

fun distribution_loop ::
  "view \<Rightarrow> asset \<Rightarrow> address \<Rightarrow> cap_table \<Rightarrow> nat \<Rightarrow> nat \<Rightarrow> (address \<times> nat) list \<Rightarrow> asset_balance_updates \<Rightarrow>
   (rwa_error, asset \<times> asset_balance_updates) result" where
  "distribution_loop v payout who tab amount h [] staged_rows = Ok (payout, staged_rows)"
| "distribution_loop v payout who tab amount h ((holder, holding) # rest) staged_rows =
    and_then (pro_rata (asset_ref_of payout) tab holding amount) (\<lambda>share.
    if share = 0 then distribution_loop v payout who tab amount h rest staged_rows
    else
     (case apply_compliant_move (apply_asset_balances v staged_rows) payout who holder share h of
        Ok (payout, u) \<Rightarrow> distribution_loop v payout who tab amount h rest (bt_extend staged_rows u)
      | Err e \<Rightarrow>
          if ineligible_party e = Some holder then distribution_loop v payout who tab amount h rest staged_rows
          else Err e
      | Panic \<Rightarrow> Panic))"

definition apply_distribution ::
  "view \<Rightarrow> asset \<Rightarrow> address \<Rightarrow> cap_table \<Rightarrow> nat \<Rightarrow> nat \<Rightarrow> (rwa_error, asset \<times> asset_balance_updates) result" where
  "apply_distribution v payout who tab amount current_height =
    distribution_loop v payout who tab amount current_height (ct_holders tab) []"

fun redemption_loop ::
  "view \<Rightarrow> asset \<Rightarrow> address \<Rightarrow> nat \<Rightarrow> (address \<times> nat) list \<Rightarrow> asset_balance_updates \<Rightarrow> holder_state_updates \<Rightarrow>
   (rwa_error, asset \<times> asset_balance_updates \<times> holder_state_updates) result" where
  "redemption_loop v a who h [] staged_rows states = Ok (a, staged_rows, states)"
| "redemption_loop v a who h ((holder, holding) # rest) staged_rows states =
    and_then (apply_forced_transfer (apply_asset_balances v staged_rows) a holder who holding) (\<lambda>(a, u).
    (let staged_rows = bt_extend staged_rows u;
         after = asset_balance (apply_asset_balances v staged_rows) (asset_ref_of a) holder
     in
     and_then (adjusted_lock v a holder after (1, 1) h) (\<lambda>st.
     redemption_loop v a who h rest staged_rows
       (case st of Some st \<Rightarrow> bt_insert (asset_ref_of a, holder) st states | None \<Rightarrow> states))))"

definition apply_redemption ::
  "view \<Rightarrow> asset \<Rightarrow> cap_table \<Rightarrow> nat \<Rightarrow> (rwa_error, asset \<times> asset_balance_updates \<times> holder_state_updates) result" where
  "apply_redemption v a tab current_height =
    and_then (redemption_loop v a (issuer a) current_height (ct_holders tab) [] []) (\<lambda>(a, assets, states).
    Ok (a\<lparr> snapshot := None \<rparr>, assets, states))"

fun split_loop ::
  "view \<Rightarrow> asset \<Rightarrow> address \<Rightarrow> nat \<Rightarrow> nat \<Rightarrow> nat \<Rightarrow> (address \<times> nat) list \<Rightarrow> asset_balance_updates \<Rightarrow>
   holder_state_updates \<Rightarrow> (rwa_error, asset \<times> asset_balance_updates \<times> holder_state_updates) result" where
  "split_loop v a who num den h [] staged_rows states = Ok (a, staged_rows, states)"
| "split_loop v a who num den h ((holder, holding) # rest) staged_rows states =
    and_then (checked_share (asset_ref_of a) holding num den) (\<lambda>scaled.
    and_then (if holding < scaled
              then apply_issue_to (apply_asset_balances v staged_rows) a holder (scaled - holding) h
              else apply_forced_transfer (apply_asset_balances v staged_rows) a holder who (holding - scaled)) (\<lambda>(a, u).
    (let staged_rows = bt_extend staged_rows u;
         after = asset_balance (apply_asset_balances v staged_rows) (asset_ref_of a) holder
     in
     and_then (adjusted_lock v a holder after (num, den) h) (\<lambda>st.
     split_loop v a who num den h rest staged_rows
       (case st of Some st \<Rightarrow> bt_insert (asset_ref_of a, holder) st states | None \<Rightarrow> states)))))"

definition apply_split ::
  "view \<Rightarrow> asset \<Rightarrow> cap_table \<Rightarrow> nat \<Rightarrow> nat \<Rightarrow> nat \<Rightarrow>
   (rwa_error, asset \<times> asset_balance_updates \<times> holder_state_updates) result" where
  "apply_split v a tab num den current_height =
    and_then (split_loop v a (issuer a) num den current_height (ct_holders tab) [] []) (\<lambda>(a, assets, states).
    Ok (a\<lparr> snapshot := None \<rparr>, assets, states))"

section \<open>The holder book of a regulated asset\<close>

text \<open>The issuer is the treasury of the asset and never counts as a holder.\<close>

interpretation rb: holder_book "\<lambda>a who. who \<noteq> issuer a" rwa_track_holder
  by unfold_locales (simp_all add: rwa_track_holder_def)

lemmas rwa_track_keeps = rb.track_keeps

lemma rwa_track_total: "(rwa_track_holder a w b c)\<lparr> total_supply := t \<rparr> = rwa_track_holder (a\<lparr> total_supply := t \<rparr>) w b c"
  by (simp add: rwa_track_holder_def)

lemma rwa_track_issuer [simp]: "rwa_track_holder a (issuer a) b c = a"
  by (simp add: rwa_track_holder_def)

text \<open>A record that differs only in fields the book does not read.\<close>

lemma book_cong:
  "asset_ref_of b = asset_ref_of a \<Longrightarrow> issuer b = issuer a \<Longrightarrow> total_supply b = total_supply a \<Longrightarrow>
   holder_count b = holder_count a \<Longrightarrow> rb.book v b = rb.book v a"
  by (simp add: rb.book_def)

lemma book_view: "v_asset_balance w = v_asset_balance v \<Longrightarrow> rb.book w a = rb.book v a"
  by (simp add: rb.book_def holdings_def outstanding_def holders_def asset_balance_def)

definition capped :: "asset \<Rightarrow> bool" where
  "capped a \<longleftrightarrow> total_supply a \<le> u128_max \<and> (\<forall>cap. max_supply a = Some cap \<longrightarrow> total_supply a \<le> cap)"

definition same_asset :: "asset \<Rightarrow> asset \<Rightarrow> bool" where
  "same_asset a b \<longleftrightarrow> asset_ref_of b = asset_ref_of a \<and> issuer b = issuer a \<and> max_supply b = max_supply a \<and>
     asset_class b = asset_class a"

lemma same_asset_simps [simp]:
  "same_asset a a" "same_asset a (a\<lparr> total_supply := t \<rparr>)" "same_asset a (a\<lparr> snapshot := s \<rparr>)"
  "same_asset a (rwa_track_holder b w x y) = same_asset a b"
  by (simp_all add: same_asset_def rwa_track_keeps)

lemma same_asset_trans: "same_asset a b \<Longrightarrow> same_asset b c \<Longrightarrow> same_asset a c"
  by (simp add: same_asset_def)

lemma supply_after_Ok_iff [simp]:
  "supply_after a x = Ok s \<longleftrightarrow> s = total_supply a + x \<and> s \<le> u128_max \<and> (\<forall>cap. max_supply a = Some cap \<longrightarrow> s \<le> cap)"
  by (auto simp: supply_after_def not_less split: option.splits if_splits)

lemma asset_credit_Ok_iff [simp]: "asset_credit r b x = Ok c \<longleftrightarrow> c = b + x \<and> c \<le> u128_max"
  by (auto simp: asset_credit_def)

lemma check_recipient_OkE:
  assumes "check_recipient v a to amount h = Ok bal"
  shows "check_party v a to h = Ok ()" and "bal = asset_balance v (asset_ref_of a) to"
    and "to \<noteq> issuer a \<Longrightarrow> bal = 0 \<Longrightarrow> 0 < amount \<Longrightarrow> holder_count a < MAX_ASSET_HOLDERS"
    and "to \<noteq> issuer a \<Longrightarrow> max_balance_per_holder a = Some l \<Longrightarrow> bal + amount \<le> l"
  using assms
  by (auto simp: check_recipient_def Let_def not_less not_le split: if_splits option.splits)

subsection \<open>Issuing and burning\<close>

lemma mint_book:
  assumes "rb.book v a" and "holder_count a < u32_max"
    and "w = apply_asset_balances v (bt_insert (asset_ref_of a, to) (asset_balance v (asset_ref_of a) to + x) [])"
  shows "rb.book w (rwa_track_holder (a\<lparr> total_supply := total_supply a + x \<rparr>) to
           (asset_balance v (asset_ref_of a) to) (asset_balance v (asset_ref_of a) to + x))"
  unfolding rwa_track_total [symmetric] assms(3)
  by (rule rb.book_set_balance [OF assms(1) _ assms(2)]) (simp_all add: holdings_insert)

lemma apply_issue_book:
  assumes "rb.book v a" and "holder_count a < u32_max" and "apply_issue v a sender n amount = Ok (a', acc, u)"
  shows "rb.book (apply_asset_balances v u) a' \<and> capped a' \<and> same_asset a a' \<and>
    total_supply a' = total_supply a + amount \<and> holder_count a' = holder_count a \<and> sender = issuer a"
proof -
  from assms(3) have *: "sender = issuer a" "total_supply a + amount \<le> u128_max"
    "\<forall>cap. max_supply a = Some cap \<longrightarrow> total_supply a + amount \<le> cap" "a' = a\<lparr> total_supply := total_supply a + amount \<rparr>"
    "u = bt_insert (asset_ref_of a, issuer a) (asset_balance v (asset_ref_of a) (issuer a) + amount) []"
    by (auto simp: apply_issue_def Let_def split: if_splits)
  from mint_book [OF assms(1,2) refl, of "issuer a" amount] show ?thesis
    using * rwa_track_issuer [of a'] by (simp add: capped_def)
qed

lemma apply_issue_to_book:
  assumes "rb.book v a" and "holder_count a < u32_max" and "apply_issue_to v a to amount h = Ok (a', u)"
  shows "rb.book (apply_asset_balances v u) a' \<and> capped a' \<and> same_asset a a' \<and>
    total_supply a' = total_supply a + amount \<and> holder_count a' \<le> max (holder_count a) MAX_ASSET_HOLDERS \<and> bt_wf u"
proof -
  let ?b = "asset_balance v (asset_ref_of a) to"
  from assms(3) obtain e where e: "check_recipient v a to amount h = Ok e"
    and ok: "total_supply a + amount \<le> u128_max" "\<forall>cap. max_supply a = Some cap \<longrightarrow> total_supply a + amount \<le> cap"
      "a' = rwa_track_holder (a\<lparr> total_supply := total_supply a + amount \<rparr>) to e (e + amount)"
      "u = bt_insert (asset_ref_of a, to) (e + amount) []"
    by (auto simp: apply_issue_to_def split: if_splits)
  note r = check_recipient_OkE [OF e]
  have "holder_count a' \<le> max (holder_count a) MAX_ASSET_HOLDERS"
    using r(2,3) by (auto simp: ok(3) rwa_track_holder_def saturating_add_def saturating_sub_def)
  with mint_book [OF assms(1,2) refl, of to amount] ok r(2) show ?thesis
    by (simp add: capped_def rwa_track_keeps bt_wf_insert)
qed

lemma apply_burn_book:
  assumes "rb.book v a" and "holder_count a < u32_max" and "apply_burn v a (issuer a) amount = Ok (a', u)"
  shows "rb.book (apply_asset_balances v u) a' \<and> same_asset a a' \<and> total_supply a' + amount = total_supply a \<and>
    holder_count a' = holder_count a"
proof -
  let ?b = "asset_balance v (asset_ref_of a) (issuer a)"
  from assms(3) have *: "amount \<le> ?b" "amount \<le> total_supply a" "a' = a\<lparr> total_supply := total_supply a - amount \<rparr>"
    "u = bt_insert (asset_ref_of a, issuer a) (?b - amount) []"
    by (auto simp: apply_burn_def Let_def split: if_splits)
  have "rb.book (apply_asset_balances v u) ((rwa_track_holder a (issuer a) ?b (?b - amount))\<lparr> total_supply := total_supply a - amount \<rparr>)"
    using *(1,2) by (intro rb.book_set_balance [OF assms(1) _ assms(2)]) (simp_all add: *(4) holdings_insert)
  with * show ?thesis by simp
qed

subsection \<open>Moving\<close>

lemma apply_forced_transfer_book:
  assumes "rb.book v a" and "holder_count a < u32_max" and "apply_forced_transfer v a from to amount = Ok (a', u)"
  shows "rb.book (apply_asset_balances v u) a' \<and> same_asset a a' \<and> total_supply a' = total_supply a \<and> bt_wf u \<and>
    amount \<le> asset_balance v (asset_ref_of a) from \<and>
    (to = issuer a \<or> 0 < asset_balance v (asset_ref_of a) to \<or> amount = 0 \<or> holder_count a < MAX_ASSET_HOLDERS \<longrightarrow>
       holder_count a' \<le> max (holder_count a) MAX_ASSET_HOLDERS)"
proof (cases "to = from")
  case True
  then have "a' = a" "u = []" "amount \<le> asset_balance v (asset_ref_of a) from"
    using assms(3) by (auto simp: apply_forced_transfer_def Let_def not_less split: if_splits)
  then show ?thesis using assms(1) by (simp add: apply_asset_balances_def)
next
  case False
  let ?f = "asset_balance v (asset_ref_of a) from" and ?t = "asset_balance v (asset_ref_of a) to"
  from assms(3) False have *: "amount \<le> ?f"
    "a' = rwa_track_holder (rwa_track_holder a from ?f (?f - amount)) to ?t (?t + amount)"
    "u = bt_insert (asset_ref_of a, to) (?t + amount) (bt_insert (asset_ref_of a, from) (?f - amount) [])"
    by (auto simp: apply_forced_transfer_def Let_def split: if_splits)
  have ft: "from \<noteq> to" using False by simp
  have "rb.book (apply_asset_balances v u) a'"
    unfolding *(2) by (rule rb.book_move [OF assms(1) ft *(1) _ assms(2)]) (simp add: *(3) holdings_insert)
  moreover have "holder_count a' \<le> max (holder_count a) MAX_ASSET_HOLDERS"
    if "to = issuer a \<or> 0 < ?t \<or> amount = 0 \<or> holder_count a < MAX_ASSET_HOLDERS"
    using that unfolding *(2) by (auto simp: rwa_track_holder_def saturating_add_def saturating_sub_def)
  ultimately show ?thesis using *(1) by (simp add: *(2,3) rwa_track_keeps bt_wf_insert)
qed

lemma apply_compliant_move_book:
  assumes "rb.book v a" and "holder_count a < u32_max" and "apply_compliant_move v a from to amount h = Ok (a', u)"
  shows "rb.book (apply_asset_balances v u) a' \<and> same_asset a a' \<and> total_supply a' = total_supply a \<and> bt_wf u \<and>
    holder_count a' \<le> max (holder_count a) MAX_ASSET_HOLDERS"
proof -
  from assms(3) obtain bal where bal: "check_recipient v a to amount h = Ok bal"
    and f: "apply_forced_transfer v a from to amount = Ok (a', u)"
    by (auto simp: apply_compliant_move_def check_move_def move_checked_def Let_def split: if_splits)
  note r = check_recipient_OkE [OF bal]
  have "to = issuer a \<or> 0 < asset_balance v (asset_ref_of a) to \<or> amount = 0 \<or> holder_count a < MAX_ASSET_HOLDERS"
    using r(2,3) by auto
  with apply_forced_transfer_book [OF assms(1,2) f] show ?thesis by blast
qed


subsection \<open>Recovery\<close>

lemma apply_recover_book:
  assumes "rb.book v a" and "holder_count a < u32_max" and "total_supply a \<le> u128_max" and "lost \<noteq> replacement"
    and "apply_recover v a lost replacement h = Ok (a', u, states)"
  shows "rb.book (apply_asset_balances v u) a' \<and> same_asset a a' \<and> total_supply a' = total_supply a \<and>
    asset_balance (apply_asset_balances v u) (asset_ref_of a) lost = 0 \<and>
    asset_balance (apply_asset_balances v u) (asset_ref_of a) replacement =
      asset_balance v (asset_ref_of a) replacement + asset_balance v (asset_ref_of a) lost"
proof -
  let ?r = "asset_ref_of a" and ?l = "asset_balance v (asset_ref_of a) lost" and ?b = "asset_balance v (asset_ref_of a) replacement"
  from assms(5) obtain b where b: "check_recipient v a replacement ?l h = Ok b"
    and *: "a' = rwa_track_holder (rwa_track_holder a lost ?l 0) replacement b (saturating_add u128_max b ?l)"
      "u = bt_insert (?r, replacement) (saturating_add u128_max b ?l) (bt_insert (?r, lost) 0 [])"
    by (auto simp: apply_recover_def Let_def rwa_track_keeps)
  have bb: "b = ?b" using check_recipient_OkE(2) [OF b] .
  have fin: "finite (dom (holdings v ?r))" using assms(1) by (simp add: rb.book_def)
  have "?l + ?b \<le> outstanding v ?r"
  proof -
    let ?w = "apply_asset_balances v (bt_insert (?r, lost) 0 [])"
    have w: "holdings ?w ?r = (holdings v ?r)(lost \<mapsto> 0)" by (simp add: holdings_insert)
    have "asset_balance ?w ?r replacement \<le> outstanding ?w ?r"
      by (rule balance_le_outstanding) (simp add: w fin)
    then show ?thesis using outstanding_upd [OF fin w] asset_balance_upd [OF w] assms(4) by simp
  qed
  then have sum: "saturating_add u128_max b ?l = ?b + ?l"
    using assms(1,3) bb by (simp add: rb.book_def saturating_add_def)
  have h: "holdings (apply_asset_balances v u) ?r = (holdings v ?r)(lost \<mapsto> ?l - ?l, replacement \<mapsto> ?b + ?l)"
    by (simp add: *(2) sum holdings_insert)
  have "rb.book (apply_asset_balances v u) a'"
    using rb.book_move [OF assms(1,4) order_refl h assms(2)] by (simp add: *(1) sum [unfolded bb] bb)
  then show ?thesis
    using h assms(4) by (simp add: *(1) rwa_track_keeps asset_balance_holdings)
qed

subsection \<open>Corporate actions\<close>

lemma staged_extend:
  "bt_wf u \<Longrightarrow> apply_asset_balances v (bt_extend s u) = apply_asset_balances (apply_asset_balances v s) u"
  by (simp add: apply_asset_balances_def map_of_bt_extend)

lemma distribution_loop_book:
  assumes "distribution_loop v a who tab amount h hs s = Ok (a', u)"
    and "rb.book (apply_asset_balances v s) a" and "holder_count a < u32_max"
  shows "rb.book (apply_asset_balances v u) a' \<and> same_asset a a' \<and> total_supply a' = total_supply a \<and>
    holder_count a' \<le> max (holder_count a) MAX_ASSET_HOLDERS"
  using assms
proof (induction v a who tab amount h hs s arbitrary: rule: distribution_loop.induct)
  case (2 v a who tab amount h holder holding rest s)
  from "2.prems"(1) obtain share where share: "pro_rata (asset_ref_of a) tab holding amount = Ok share"
    by (auto split: if_splits result.splits)
  show ?case
  proof (cases "share = 0")
    case True
    then show ?thesis using 2 share by simp
  next
    case False
    show ?thesis
    proof (cases "apply_compliant_move (apply_asset_balances v s) a who holder share h")
      case (Ok x)
      obtain b w where x: "x = (b, w)" by (cases x)
      note m = apply_compliant_move_book [OF "2.prems"(2,3) Ok [unfolded x]]
      have lt: "holder_count b < u32_max" using m "2.prems"(3) by (auto simp: MAX_ASSET_HOLDERS_def u32_max_def)
      have "rb.book (apply_asset_balances v (bt_extend s w)) b" using m by (simp add: staged_extend)
      then have "rb.book (apply_asset_balances v u) a' \<and> same_asset b a' \<and> total_supply a' = total_supply b \<and>
          holder_count a' \<le> max (holder_count b) MAX_ASSET_HOLDERS"
        using "2.IH"(2) [OF share False Ok x [symmetric] _ _ lt] "2.prems"(1) share False Ok x by simp
      with m show ?thesis using same_asset_trans by auto
    next
      case (Err e)
      with 2 share False show ?thesis by (auto split: if_splits)
    next
      case Panic
      with 2 share False show ?thesis by simp
    qed
  qed
qed simp

lemma redemption_loop_book:
  assumes "redemption_loop v a (issuer a) h hs s st = Ok (a', u, st')"
    and "rb.book (apply_asset_balances v s) a" and "holder_count a < u32_max"
  shows "rb.book (apply_asset_balances v u) a' \<and> same_asset a a' \<and> total_supply a' = total_supply a \<and>
    holder_count a' \<le> max (holder_count a) MAX_ASSET_HOLDERS"
  using assms
proof (induction hs arbitrary: a s st)
  case (Cons x hs)
  obtain holder holding where x: "x = (holder, holding)" by (cases x)
  from Cons.prems(1) obtain b w st2 where
    f: "apply_forced_transfer (apply_asset_balances v s) a holder (issuer a) holding = Ok (b, w)"
    and rest: "redemption_loop v b (issuer a) h hs (bt_extend s w) st2 = Ok (a', u, st')"
    by (auto simp: x Let_def)
  note m = apply_forced_transfer_book [OF Cons.prems(2,3) f]
  have lt: "holder_count b < u32_max" using m Cons.prems(3) by (auto simp: MAX_ASSET_HOLDERS_def u32_max_def)
  have "issuer b = issuer a" using m by (simp add: same_asset_def)
  with Cons.IH [of b "bt_extend s w" st2] rest m lt have
    "rb.book (apply_asset_balances v u) a' \<and> same_asset b a' \<and> total_supply a' = total_supply b \<and>
     holder_count a' \<le> max (holder_count b) MAX_ASSET_HOLDERS" by (simp add: staged_extend)
  with m show ?case using same_asset_trans by auto
qed simp

lemma split_loop_book:
  assumes "split_loop v a (issuer a) num den h hs s st = Ok (a', u, st')"
    and "rb.book (apply_asset_balances v s) a" and "holder_count a < u32_max" and "capped a"
  shows "rb.book (apply_asset_balances v u) a' \<and> same_asset a a' \<and> capped a' \<and>
    holder_count a' \<le> max (holder_count a) MAX_ASSET_HOLDERS"
  using assms
proof (induction hs arbitrary: a s st)
  case (Cons x hs)
  obtain holder holding where x: "x = (holder, holding)" by (cases x)
  from Cons.prems(1) obtain b w st2 scaled where
    f: "(if holding < scaled then apply_issue_to (apply_asset_balances v s) a holder (scaled - holding) h
         else apply_forced_transfer (apply_asset_balances v s) a holder (issuer a) (holding - scaled)) = Ok (b, w)"
    and rest: "split_loop v b (issuer a) num den h hs (bt_extend s w) st2 = Ok (a', u, st')"
    by (auto simp: x Let_def)
  have m: "rb.book (apply_asset_balances (apply_asset_balances v s) w) b \<and> same_asset a b \<and> capped b \<and>
      holder_count b \<le> max (holder_count a) MAX_ASSET_HOLDERS \<and> bt_wf w"
  proof (cases "holding < scaled")
    case True
    with apply_issue_to_book [OF Cons.prems(2,3)] f show ?thesis by simp
  next
    case False
    with f have "apply_forced_transfer (apply_asset_balances v s) a holder (issuer a) (holding - scaled) = Ok (b, w)" by simp
    from apply_forced_transfer_book [OF Cons.prems(2,3) this] Cons.prems(4) show ?thesis
      by (simp add: capped_def same_asset_def)
  qed
  have lt: "holder_count b < u32_max" using m Cons.prems(3) by (auto simp: MAX_ASSET_HOLDERS_def u32_max_def)
  have "issuer b = issuer a" using m by (simp add: same_asset_def)
  with Cons.IH [of b "bt_extend s w" st2] rest m lt have
    "rb.book (apply_asset_balances v u) a' \<and> same_asset b a' \<and> capped a' \<and>
     holder_count a' \<le> max (holder_count b) MAX_ASSET_HOLDERS" by (simp add: staged_extend)
  with m show ?case using same_asset_trans by auto
qed simp

section \<open>The gates of a transfer\<close>

text \<open>When a party may hold an asset, as a rule rather than a sequence of checks.\<close>

definition claims_proven :: "view \<Rightarrow> asset \<Rightarrow> address \<Rightarrow> nat \<Rightarrow> bool" where
  "claims_proven v a p h \<longleftrightarrow> private_claims a \<and> claim_proof_live v p (v_account v p) (holder_state_of v a p h) h"

definition may_hold :: "view \<Rightarrow> asset \<Rightarrow> address \<Rightarrow> nat \<Rightarrow> bool" where
  "may_hold v a p h \<longleftrightarrow>
     \<not> hs_frozen (holder_state_of v a p h) \<and>
     (claims_proven v a p h \<or>
       (if required_claims a \<noteq> [] then is_attested v p \<and> set (required_claims a) \<subseteq> set (claims (account_of v p))
        else compliance_required a \<longrightarrow> is_attested v p)) \<and>
     (\<forall>m. max_attestation_age a = Some m \<longrightarrow> (\<exists>at. attested_at (account_of v p) = Some at \<and> h - at \<le> m)) \<and>
     (\<forall>cs. allowed_jurisdictions a = Some cs \<longrightarrow> claims_proven v a p h \<or>
        (\<exists>c\<in>set cs. jurisdiction (account_of v p) = Some c))"

lemma entry_reads:
  "(case v_account v p of Some e \<Rightarrow> claims e | None \<Rightarrow> []) = claims (account_of v p)"
  "Option.bind (v_account v p) attested_at = attested_at (account_of v p)"
  "Option.bind (v_account v p) jurisdiction = jurisdiction (account_of v p)"
  by (cases "v_account v p"; simp add: account_of_def default_account_def)+

lemma check_claims_Ok_iff:
  "check_claims v a p (v_account v p) proven = Ok () \<longleftrightarrow>
     proven \<or> (if required_claims a \<noteq> [] then is_attested v p \<and> set (required_claims a) \<subseteq> set (claims (account_of v p))
               else compliance_required a \<longrightarrow> is_attested v p)"
proof -
  let ?f = "List.find (\<lambda>t. t \<notin> set (claims (account_of v p))) (required_claims a)"
  have "?f = None \<longleftrightarrow> set (required_claims a) \<subseteq> set (claims (account_of v p))"
    by (auto simp: find_None_iff)
  then show ?thesis
    unfolding check_claims_def entry_reads Let_def by (cases ?f) simp_all
qed

lemma check_party_Ok_iff: "check_party v a p h = Ok () \<longleftrightarrow> may_hold v a p h"
proof -
  have age: "check_age a p (v_account v p) h = Ok () \<longleftrightarrow>
      (\<forall>m. max_attestation_age a = Some m \<longrightarrow> (\<exists>at. attested_at (account_of v p) = Some at \<and> h - at \<le> m))"
    by (auto simp: check_age_def entry_reads Let_def saturating_sub_def not_less split: option.splits)
  have jur: "check_jurisdiction a p (v_account v p) proven = Ok () \<longleftrightarrow>
      (\<forall>cs. allowed_jurisdictions a = Some cs \<longrightarrow> proven \<or> (\<exists>c\<in>set cs. jurisdiction (account_of v p) = Some c))" for proven
    by (auto simp: check_jurisdiction_def entry_reads Let_def split: option.splits)
  show ?thesis
    unfolding check_party_def Let_def may_hold_def claims_proven_def [symmetric]
    by (simp add: check_claims_Ok_iff age jur claims_proven_def [symmetric]) 
qed

text \<open>No check of a party fails in a way the wallet view does not name.\<close>

lemma check_party_errors:
  assumes "check_party v a p h = Err e"
  shows "ineligible_party e = Some p \<and> (\<forall>r x m. e \<noteq> HolderCapReached r x m) \<and> (\<forall>r x y l. e \<noteq> HolderLimitExceeded r x y l)"
  using assms
  by (auto simp: check_party_def check_claims_def check_age_def check_jurisdiction_def Let_def and_then_Err_iff
      split: if_splits option.splits)

lemma check_party_no_panic: "check_party v a p h \<noteq> Panic"
  by (auto simp: check_party_def check_claims_def check_age_def check_jurisdiction_def Let_def and_then_Panic_iff
      split: if_splits option.splits)

lemma forced_transfer_balances:
  assumes "apply_forced_transfer v a from to amount = Ok (a', u)"
  shows "amount \<le> asset_balance v (asset_ref_of a) from"
    and "from \<noteq> to \<Longrightarrow> asset_balance (apply_asset_balances v u) (asset_ref_of a) p =
      (if p = from then asset_balance v (asset_ref_of a) p - amount
       else if p = to then asset_balance v (asset_ref_of a) p + amount else asset_balance v (asset_ref_of a) p)"
    and "from = to \<Longrightarrow> u = []"
  using assms
  by (auto simp: apply_forced_transfer_def Let_def asset_balance_def split: if_splits)


text \<open>
  C17: a regulated asset only moves between parties that may hold it. When a compliant transfer succeeds the
  asset is not frozen; sender and recipient both satisfy the asset's rules (address freeze, claims or a live
  claim proof, age of the attestation, jurisdiction); locked units stay where they are; a recipient other than
  the issuer stays within the per-holder limit, and a new one is only admitted below the holder cap. Exactly
  the amount moves, nobody else's balance changes, and one nonce is consumed.
\<close>

theorem compliant_transfer_sound:
  assumes "apply_compliant_transfer v a sender n to amount h = Ok (a', accounts, u)"
  shows "\<not> frozen a \<and> may_hold v a sender h \<and> may_hold v a to h \<and>
    amount \<le> asset_balance v (asset_ref_of a) sender - frozen_amount (holder_state_of v a sender h) \<and>
    (to \<noteq> issuer a \<longrightarrow>
       (\<forall>l. max_balance_per_holder a = Some l \<longrightarrow> asset_balance v (asset_ref_of a) to + amount \<le> l) \<and>
       (asset_balance v (asset_ref_of a) to = 0 \<and> 0 < amount \<longrightarrow> holder_count a < MAX_ASSET_HOLDERS)) \<and>
    (\<forall>p. asset_balance (apply_asset_balances v u) (asset_ref_of a) p =
       (if sender = to then asset_balance v (asset_ref_of a) p
        else if p = sender then asset_balance v (asset_ref_of a) p - amount
        else if p = to then asset_balance v (asset_ref_of a) p + amount
        else asset_balance v (asset_ref_of a) p)) \<and>
    n = nonce (account_of v sender) \<and> accounts = bt_insert sender ((account_of v sender)\<lparr> nonce := Suc n \<rparr>) []"
proof -
  from assms obtain bal where "\<not> frozen a" "check_party v a sender h = Ok ()"
    and bal: "check_recipient v a to amount h = Ok bal"
    and f: "apply_forced_transfer v a sender to amount = Ok (a', u)"
    and acc: "n = nonce (account_of v sender)" "accounts = bt_insert sender ((account_of v sender)\<lparr> nonce := Suc n \<rparr>) []"
    and lk: "frozen_amount (holder_state_of v a sender h) = 0 \<or>
      amount \<le> asset_balance v (asset_ref_of a) sender - frozen_amount (holder_state_of v a sender h)"
    by (auto simp: apply_compliant_transfer_def check_move_def move_checked_def Let_def saturating_sub_def
        not_less split: if_splits)
  note r = check_recipient_OkE [OF bal] and b = forced_transfer_balances [OF f]
  have "asset_balance (apply_asset_balances v u) (asset_ref_of a) p = asset_balance v (asset_ref_of a) p" if "sender = to" for p
    using b(3) [OF that] by (simp add: apply_asset_balances_def)
  then show ?thesis
    using \<open>\<not> frozen a\<close> \<open>check_party v a sender h = Ok ()\<close> r b acc lk by (auto simp: check_party_Ok_iff)
qed

definition sample_gold :: asset where
  "sample_gold = (asset_register (AssetRef ''gold'') ''gold'' (Address ''alice'') True
     \<lparr> md_asset_class = Commodity, md_decimals = 0, md_required_claims = [], md_allowed_jurisdictions = None,
       md_max_supply = Some 1000, md_metadata_uri = None, md_symbol = ''GOLD'', md_name = ''Gold'' \<rparr> 1)
     \<lparr> total_supply := 100 \<rparr>"

definition sample_asset_view :: view where
  "sample_asset_view = empty_view\<lparr>
     v_account := [Address ''alice'' \<mapsto> default_account\<lparr> identity_hash := Some ''kyc1'' \<rparr>,
                   Address ''bob'' \<mapsto> default_account\<lparr> identity_hash := Some ''kyc2'' \<rparr>],
     v_asset := [AssetRef ''gold'' \<mapsto> sample_gold],
     v_asset_balance := [(AssetRef ''gold'', Address ''alice'') \<mapsto> 100] \<rparr>"

lemma sample_transfer:
  "\<exists>a' accounts u. apply_compliant_transfer sample_asset_view sample_gold (Address ''alice'') 0 (Address ''bob'') 40 5
     = Ok (a', accounts, u)"
  by (simp add: apply_compliant_transfer_def check_move_def check_party_def check_claims_def check_age_def
      check_jurisdiction_def check_recipient_def move_checked_def apply_forced_transfer_def sample_asset_view_def
      sample_gold_def asset_register_def holder_state_of_def default_holder_state_def is_attested_def account_of_def
      default_account_def asset_balance_def empty_view_def Let_def MAX_ASSET_HOLDERS_def asset_credit_def checked_add_def
      add_or_panic_def expect_def u64_max_def u128_max_def)

theorem compliant_transfer_sound_witness:
  "\<exists>a' accounts u. apply_compliant_transfer sample_asset_view sample_gold (Address ''alice'') 0 (Address ''bob'') 40 5
     = Ok (a', accounts, u) \<and>
     asset_balance (apply_asset_balances sample_asset_view u) (AssetRef ''gold'') (Address ''alice'') = 60 \<and>
     asset_balance (apply_asset_balances sample_asset_view u) (AssetRef ''gold'') (Address ''bob'') = 40"
proof -
  from sample_transfer obtain a' accounts u where
    t: "apply_compliant_transfer sample_asset_view sample_gold (Address ''alice'') 0 (Address ''bob'') 40 5
     = Ok (a', accounts, u)" by blast
  have r: "asset_ref_of sample_gold = AssetRef ''gold''" by (simp add: sample_gold_def asset_register_def)
  have b: "asset_balance sample_asset_view (AssetRef ''gold'') (Address ''alice'') = 100"
    "asset_balance sample_asset_view (AssetRef ''gold'') (Address ''bob'') = 0"
    by (simp_all add: asset_balance_def sample_asset_view_def)
  from compliant_transfer_sound [OF t] t b show ?thesis unfolding r by auto
qed

section \<open>What a distribution pays\<close>

lemma checked_share_Ok_iff [simp]:
  "checked_share r x num den = Ok s \<longleftrightarrow> x * num \<le> u128_max \<and> den \<noteq> 0 \<and> s = x * num div den"
  by (auto simp: checked_share_def split: option.splits if_splits)

lemma distribution_loop_payments:
  assumes "distribution_loop v a who tab amount h hs s = Ok (a', u)"
    and "who \<notin> fst ` set hs" and "distinct (map fst hs)" and "asset_ref_of a = r"
  shows "(\<forall>(p, b)\<in>set hs. \<exists>x\<in>{0, b * amount div ct_total tab}.
            asset_balance (apply_asset_balances v u) r p = asset_balance (apply_asset_balances v s) r p + x) \<and>
    (\<forall>p. p \<noteq> who \<and> p \<notin> fst ` set hs \<longrightarrow>
       asset_balance (apply_asset_balances v u) r p = asset_balance (apply_asset_balances v s) r p) \<and>
    asset_balance (apply_asset_balances v u) r who +
      (\<Sum>(p, b)\<leftarrow>hs. asset_balance (apply_asset_balances v u) r p - asset_balance (apply_asset_balances v s) r p) =
      asset_balance (apply_asset_balances v s) r who"
  using assms
proof (induction v a who tab amount h hs s rule: distribution_loop.induct)
  case (2 v a who tab amount h holder holding rest s)
  let ?B = "\<lambda>s. asset_balance (apply_asset_balances v s) r"
  from "2.prems"(1) obtain share where share: "pro_rata (asset_ref_of a) tab holding amount = Ok share"
    by (auto split: if_splits result.splits)
  then have sh: "share = holding * amount div ct_total tab" by (simp add: pro_rata_def)
  have out: "who \<notin> fst ` set rest" "distinct (map fst rest)" "holder \<notin> fst ` set rest" "holder \<noteq> who"
    using "2.prems"(2,3) by auto
  have skip: ?case if "distribution_loop v a who tab amount h rest s = Ok (a', u)"
    and "(\<forall>(p, b)\<in>set rest. \<exists>x\<in>{0, b * amount div ct_total tab}. ?B u p = ?B s p + x) \<and>
      (\<forall>p. p \<noteq> who \<and> p \<notin> fst ` set rest \<longrightarrow> ?B u p = ?B s p) \<and>
      ?B u who + (\<Sum>(p, b)\<leftarrow>rest. ?B u p - ?B s p) = ?B s who"
    using that out by auto
  show ?case
  proof (cases "share = 0")
    case True
    with 2 share out show ?thesis by (intro skip) auto
  next
    case False
    show ?thesis
    proof (cases "apply_compliant_move (apply_asset_balances v s) a who holder share h")
      case (Ok x)
      obtain b w where x: "x = (b, w)" by (cases x)
      from Ok x have f: "apply_forced_transfer (apply_asset_balances v s) a who holder share = Ok (b, w)"
        by (auto simp: apply_compliant_move_def move_checked_def Let_def split: if_splits)
      have wf: "bt_wf w" and ref: "asset_ref_of b = r"
        using f "2.prems"(4) by (auto simp: apply_forced_transfer_def Let_def rwa_track_keeps bt_wf_insert split: if_splits)
      have mv: "?B (bt_extend s w) p = (if p = who then ?B s p - share else if p = holder then ?B s p + share else ?B s p)"
        and le: "share \<le> ?B s who" for p
        using forced_transfer_balances(1,2) [OF f] out(4) "2.prems"(4) staged_extend [OF wf, of v s] by auto
      have IH: "(\<forall>(p, b)\<in>set rest. \<exists>x\<in>{0, b * amount div ct_total tab}. ?B u p = ?B (bt_extend s w) p + x) \<and>
        (\<forall>p. p \<noteq> who \<and> p \<notin> fst ` set rest \<longrightarrow> ?B u p = ?B (bt_extend s w) p) \<and>
        ?B u who + (\<Sum>(p, b)\<leftarrow>rest. ?B u p - ?B (bt_extend s w) p) = ?B (bt_extend s w) who"
        using "2.IH"(2) [OF share False Ok x [symmetric] _ out(1,2) ref] "2.prems"(1) share False Ok x by simp
      have same: "p \<in> fst ` set rest \<Longrightarrow> ?B (bt_extend s w) p = ?B s p" for p using mv out by auto
      have "?B u holder = ?B s holder + share" using IH out mv [of holder] by auto
      moreover have "(\<Sum>(p, b)\<leftarrow>rest. ?B u p - ?B (bt_extend s w) p) = (\<Sum>(p, b)\<leftarrow>rest. ?B u p - ?B s p)"
        by (intro arg_cong [where f = sum_list] map_cong) (auto simp: same rev_image_eqI)
      ultimately show ?thesis
        using IH mv [of who] le sh same out by (auto simp: rev_image_eqI mv)
    next
      case (Err e)
      with 2 share False out show ?thesis by (intro skip) (auto split: if_splits)
    next
      case Panic
      with 2 share False show ?thesis by simp
    qed
  qed
qed simp

lemma snapshot_loop_table:
  assumes "snapshot_loop v a xs tot hs = Ok (tot', hs')" and "distinct xs"
    and "tot = sum_list (map snd hs)" and "distinct (map fst hs)" and "fst ` set hs \<inter> set xs = {}"
    and "\<forall>(p, b)\<in>set hs. p \<noteq> issuer a \<and> b = asset_balance v (asset_ref_of a) p \<and> 0 < b"
  shows "tot' = sum_list (map snd hs') \<and> distinct (map fst hs') \<and>
    (\<forall>(p, b)\<in>set hs'. p \<noteq> issuer a \<and> b = asset_balance v (asset_ref_of a) p \<and> 0 < b) \<and>
    set hs \<subseteq> set hs' \<and> (\<forall>p\<in>set xs. p \<noteq> issuer a \<and> 0 < asset_balance v (asset_ref_of a) p \<longrightarrow> p \<in> fst ` set hs')"
  using assms
proof (induction xs arbitrary: tot hs)
  case (Cons x xs)
  let ?b = "asset_balance v (asset_ref_of a) x"
  show ?case
  proof (cases "x = issuer a \<or> ?b = 0")
    case True
    then have "snapshot_loop v a xs tot hs = Ok (tot', hs')" using Cons.prems(1) by (auto simp: Let_def split: if_splits)
    from Cons.IH [OF this] Cons.prems True show ?thesis by fastforce
  next
    case False
    then have l: "snapshot_loop v a xs (tot + ?b) (hs @ [(x, ?b)]) = Ok (tot', hs')" using Cons.prems(1) by (auto simp: Let_def)
    have "set (hs @ [(x, ?b)]) \<subseteq> set hs' \<and> tot' = sum_list (map snd hs') \<and> distinct (map fst hs') \<and>
      (\<forall>(p, b)\<in>set hs'. p \<noteq> issuer a \<and> b = asset_balance v (asset_ref_of a) p \<and> 0 < b) \<and>
      (\<forall>p\<in>set xs. p \<noteq> issuer a \<and> 0 < asset_balance v (asset_ref_of a) p \<longrightarrow> p \<in> fst ` set hs')"
      using Cons.IH [OF l] Cons.prems False by auto
    then show ?thesis by (auto simp: rev_image_eqI)
  qed
qed auto

text \<open>The cap table a snapshot records: every other holder the index lists, with its balance and the sum.\<close>

lemma apply_snapshot_table:
  assumes "apply_snapshot v a h = Ok a'" and "snapshot a' = Some tab"
    and "distinct (unwrap_or [] (v_asset_holders v (asset_ref_of a)))"
  shows "ct_total tab = sum_list (map snd (ct_holders tab))" and "distinct (map fst (ct_holders tab))"
    and "issuer a \<notin> fst ` set (ct_holders tab)"
proof -
  from assms(1,2) obtain tot hs where
    l: "snapshot_loop v a (unwrap_or [] (v_asset_holders v (asset_ref_of a))) 0 [] = Ok (tot, hs)"
    and tab: "ct_total tab = tot" "ct_holders tab = sort hs"
    by (auto simp: apply_snapshot_def)
  have t: "tot = sum_list (map snd hs)" "distinct (map fst hs)"
    "\<forall>(p, b)\<in>set hs. p \<noteq> issuer a \<and> b = asset_balance v (asset_ref_of a) p \<and> 0 < b"
    using snapshot_loop_table [OF l assms(3)] by simp_all
  have m: "mset (map f (sort hs)) = mset (map f hs)" for f :: "address \<times> nat \<Rightarrow> 'b" by simp
  have "sum_list (map snd (sort hs)) = sum_list (map snd hs)" using m [of snd] by (metis sum_mset_sum_list)
  then show "ct_total tab = sum_list (map snd (ct_holders tab))" using t(1) tab by simp
  show "distinct (map fst (ct_holders tab))"
    using t(2) mset_eq_imp_distinct_iff [OF m [of fst]] unfolding tab(2) by simp
  show "issuer a \<notin> fst ` set (ct_holders tab)" using t(3) by (auto simp: tab(2))
qed



definition sample_cap_view :: view where
  "sample_cap_view = sample_asset_view\<lparr>
     v_asset_holders := [AssetRef ''gold'' \<mapsto> [Address ''alice'', Address ''bob'', Address ''carol'']],
     v_asset_balance := [(AssetRef ''gold'', Address ''alice'') \<mapsto> 60, (AssetRef ''gold'', Address ''bob'') \<mapsto> 30,
                         (AssetRef ''gold'', Address ''carol'') \<mapsto> 10, (AssetRef ''usd'', Address ''alice'') \<mapsto> 50] \<rparr>"

definition sample_usd :: asset where
  "sample_usd = sample_gold\<lparr> asset_ref_of := AssetRef ''usd'', compliance_required := False, total_supply := 50 \<rparr>"

definition sample_cap_table :: cap_table where
  "sample_cap_table = \<lparr> ct_height = 7, ct_total = 40, ct_holders = [(Address ''bob'', 30), (Address ''carol'', 10)] \<rparr>"

lemma sample_snapshot:
  "apply_snapshot sample_cap_view sample_gold 7 = Ok (sample_gold\<lparr> snapshot := Some sample_cap_table \<rparr>)"
  by (simp add: apply_snapshot_def sample_cap_view_def sample_gold_def asset_register_def asset_balance_def
      sample_cap_table_def checked_add_def u128_max_def less_eq_address_def less_address_def less_eq_prod_def)

lemma sample_distribution:
  "\<exists>a' u. apply_distribution sample_cap_view sample_usd (issuer sample_gold) sample_cap_table 41 8 = Ok (a', u)"
  by (simp add: apply_distribution_def sample_cap_table_def sample_cap_view_def sample_usd_def sample_gold_def
      sample_asset_view_def empty_view_def asset_register_def pro_rata_def checked_share_def checked_mul_def u128_max_def
      apply_compliant_move_def check_move_def check_party_def check_claims_def check_age_def check_jurisdiction_def
      check_recipient_def move_checked_def apply_forced_transfer_def holder_state_of_def default_holder_state_def
      asset_balance_def Let_def MAX_ASSET_HOLDERS_def asset_credit_def checked_add_def rwa_track_holder_def
      bt_extend_def bt_insert.simps apply_asset_balances_def saturating_add_def saturating_sub_def u32_max_def)


end
