(* ===== verification/Runtime_Asset.thy ===== *)
theory Runtime_Asset
  imports Executor Token_Circuit Asset_Circuit
begin

text \<open>
  The handlers of the asset and token actions (\<^verbatim>\<open>src/arxd/runtime/src/asset.rs\<close>, \<^verbatim>\<open>token.rs\<close>): validation of
  what enters the asset record, who may act on it, and the batch each handler hands back. \<open>AssetRef::derive\<close>
  is a SHA-256 digest and \<open>pubkey_bytes\<close> bech32 decoding, both of third-party crates: parameters here.
\<close>

section \<open>Validation\<close>

definition MAX_ASSET_ID_LEN :: nat where "MAX_ASSET_ID_LEN = 64"
definition MAX_SYMBOL_LEN :: nat where "MAX_SYMBOL_LEN = 12"
definition MAX_NAME_LEN :: nat where "MAX_NAME_LEN = 64"
definition MAX_METADATA_URI_LEN :: nat where "MAX_METADATA_URI_LEN = 2048"
definition MAX_DECIMALS :: nat where "MAX_DECIMALS = 18"
definition MAX_REASON_LEN :: nat where "MAX_REASON_LEN = 512"

datatype asset_handler_error =
    BlankReason
  | ReasonTooLong nat
  | InvalidAssetId string
  | InvalidSymbol string
  | InvalidAssetName nat
  | InvalidDecimals nat
  | UriTooLong nat
  | UseTokenCreate
  | CannotDerive address
  | AlreadyRegistered address string
  | UnknownAsset asset_ref
  | IsAToken asset_ref
  | OnlyIssuer address asset_ref address
  | MustBePositive
  | LockExpiryPassed nat nat
  | InvalidNewIssuer address
  | Unholdable
  | NoClaimProofs asset_ref
  | SameReplacement
  | WrongSnapshot asset_ref nat nat
  | NoSnapshot asset_ref
  | NothingToDistribute
  | NothingToRedeem
  | BadSplitRatio
  | AhIdentity identity_error
  | AhRwa rwa_error
  | AhToken token_error

text \<open>
  \<open>str::trim\<close> strips Unicode white space; on the bytes of a UTF-8 string that is the set below, and a string
  trims to nothing exactly when it consists of such sequences.
\<close>

fun blank :: "string \<Rightarrow> bool" where
  "blank [] = True"
| "blank (c # s) =
    (let b = (of_char c :: nat) in
     if (9 \<le> b \<and> b \<le> 13) \<or> b = 32 then blank s
     else
      (case s of
         d # s' \<Rightarrow>
           (let x = (of_char d :: nat) in
            if b = 0xC2 \<and> (x = 0x85 \<or> x = 0xA0) then blank s'
            else
             (case s' of
                e # s'' \<Rightarrow>
                  (let y = (of_char e :: nat) in
                   if (b = 0xE1 \<and> x = 0x9A \<and> y = 0x80) \<or>
                      (b = 0xE2 \<and> x = 0x80 \<and> ((0x80 \<le> y \<and> y \<le> 0x8A) \<or> y = 0xA8 \<or> y = 0xA9 \<or> y = 0xAF)) \<or>
                      (b = 0xE2 \<and> x = 0x81 \<and> y = 0x9F) \<or> (b = 0xE3 \<and> x = 0x80 \<and> y = 0x80)
                   then blank s'' else False)
              | [] \<Rightarrow> False))
       | [] \<Rightarrow> False))"

definition check_reason :: "string \<Rightarrow> (asset_handler_error, unit) result" where
  "check_reason reason =
    (if blank reason then Err BlankReason
     else if MAX_REASON_LEN < length reason then Err (ReasonTooLong (length reason))
     else Ok ())"

definition slug_char :: "char \<Rightarrow> bool" where
  "slug_char c \<longleftrightarrow> ascii_lower c \<or> ascii_digit c \<or> c = CHR ''-'' \<or> c = CHR ''_''"

definition validate_asset_id :: "string \<Rightarrow> (asset_handler_error, unit) result" where
  "validate_asset_id aid =
    (if aid = [] \<or> MAX_ASSET_ID_LEN < length aid \<or> \<not> list_all slug_char aid then Err (InvalidAssetId aid) else Ok ())"

definition validate_symbol :: "string \<Rightarrow> (asset_handler_error, unit) result" where
  "validate_symbol s =
    (if s = [] \<or> MAX_SYMBOL_LEN < length s \<or> \<not> list_all (\<lambda>c. ascii_upper c \<or> ascii_digit c) s
     then Err (InvalidSymbol s) else Ok ())"

definition validate_metadata_uri :: "string option \<Rightarrow> (asset_handler_error, unit) result" where
  "validate_metadata_uri uri =
    (case uri of
       Some u \<Rightarrow> if MAX_METADATA_URI_LEN < length u then Err (UriTooLong (length u)) else Ok ()
     | None \<Rightarrow> Ok ())"

fun validate_codes :: "country_code list \<Rightarrow> (asset_handler_error, unit) result" where
  "validate_codes [] = Ok ()"
| "validate_codes (c # cs) = and_then (map_err AhIdentity (validate_jurisdiction_code c)) (\<lambda>_. validate_codes cs)"

definition validate_metadata :: "asset_metadata \<Rightarrow> (asset_handler_error, unit) result" where
  "validate_metadata m =
    and_then (validate_symbol (md_symbol m)) (\<lambda>_.
    if md_name m = [] \<or> MAX_NAME_LEN < length (md_name m) then Err (InvalidAssetName (length (md_name m)))
    else if MAX_DECIMALS < md_decimals m then Err (InvalidDecimals (md_decimals m))
    else
     and_then (validate_metadata_uri (md_metadata_uri m)) (\<lambda>_.
     validate_codes (unwrap_or [] (md_allowed_jurisdictions m))))"

section \<open>Regulated assets\<close>

definition write_asset :: "asset \<Rightarrow> block_updates" where
  "write_asset a = default_updates\<lparr> bu_asset_registration := Some a \<rparr>"

definition register_asset ::
  "(address \<Rightarrow> string \<Rightarrow> asset_ref option) \<Rightarrow> view \<Rightarrow> 'p action \<Rightarrow> string \<Rightarrow> bool \<Rightarrow> asset_metadata \<Rightarrow> nat \<Rightarrow>
   (asset_handler_error, block_updates) result" where
  "register_asset derive v act aid compliance metadata current_height =
    and_then (validate_asset_id aid) (\<lambda>_.
    and_then (validate_metadata metadata) (\<lambda>_.
    if md_asset_class metadata = Token then Err UseTokenCreate
    else
     and_then (ok_or (CannotDerive (act_sender act)) (derive (act_sender act) aid)) (\<lambda>r.
     if v_asset v r \<noteq> None then Err (AlreadyRegistered (act_sender act) aid)
     else Ok (write_asset (asset_register r aid (act_sender act) compliance metadata current_height)))))"

definition resolve_asset :: "view \<Rightarrow> asset_ref \<Rightarrow> (asset_handler_error, asset) result" where
  "resolve_asset v r =
    and_then (ok_or (UnknownAsset r) (v_asset v r)) (\<lambda>found.
    if asset_class found = Token then Err (IsAToken r) else Ok found)"

definition require_issuer :: "view \<Rightarrow> 'p action \<Rightarrow> asset_ref \<Rightarrow> (asset_handler_error, asset) result" where
  "require_issuer v act r =
    and_then (resolve_asset v r) (\<lambda>a.
    if act_sender act \<noteq> issuer a then Err (OnlyIssuer (issuer a) (asset_ref_of a) (act_sender act)) else Ok a)"

definition issue_asset :: "view \<Rightarrow> 'p action \<Rightarrow> asset_ref \<Rightarrow> nat \<Rightarrow> (asset_handler_error, block_updates) result" where
  "issue_asset v act r amount =
    and_then (resolve_asset v r) (\<lambda>a.
    and_then (map_err AhRwa (apply_issue v a (act_sender act) (act_nonce act) amount)) (\<lambda>(a, accounts, assets).
    Ok ((write_asset a)\<lparr> bu_accounts := accounts, bu_assets := assets \<rparr>)))"

definition transfer_asset ::
  "view \<Rightarrow> 'p action \<Rightarrow> asset_ref \<Rightarrow> address \<Rightarrow> nat \<Rightarrow> nat \<Rightarrow> (asset_handler_error, block_updates) result" where
  "transfer_asset v act r to amount current_height =
    and_then (resolve_asset v r) (\<lambda>a.
    and_then (map_err AhRwa (apply_compliant_transfer v a (act_sender act) (act_nonce act) to amount current_height))
      (\<lambda>(a, accounts, assets).
    Ok ((write_asset a)\<lparr> bu_accounts := accounts, bu_assets := assets \<rparr>)))"

definition set_frozen ::
  "view \<Rightarrow> 'p action \<Rightarrow> asset_ref \<Rightarrow> bool \<Rightarrow> string \<Rightarrow> (asset_handler_error, block_updates) result" where
  "set_frozen v act r b reason =
    and_then (check_reason reason) (\<lambda>_.
    and_then (require_issuer v act r) (\<lambda>a.
    Ok (write_asset (a\<lparr> frozen := b \<rparr>))))"

definition burn_asset :: "view \<Rightarrow> 'p action \<Rightarrow> asset_ref \<Rightarrow> nat \<Rightarrow> (asset_handler_error, block_updates) result" where
  "burn_asset v act r amount =
    and_then (require_issuer v act r) (\<lambda>a.
    if amount = 0 then Err MustBePositive
    else
     and_then (map_err AhRwa (apply_burn v a (act_sender act) amount)) (\<lambda>(a, assets).
     Ok ((write_asset a)\<lparr> bu_assets := assets \<rparr>)))"

definition set_holder_frozen ::
  "view \<Rightarrow> 'p action \<Rightarrow> asset_ref \<Rightarrow> address \<Rightarrow> bool \<Rightarrow> (asset_handler_error, block_updates) result" where
  "set_holder_frozen v act r holder b =
    and_then (require_issuer v act r) (\<lambda>a.
    Ok (default_updates\<lparr> bu_holder_states := apply_set_holder_frozen v a holder b \<rparr>))"

definition lock_holder_amount ::
  "view \<Rightarrow> 'p action \<Rightarrow> asset_ref \<Rightarrow> address \<Rightarrow> nat \<Rightarrow> bool \<Rightarrow> nat option \<Rightarrow> nat \<Rightarrow>
   (asset_handler_error, block_updates) result" where
  "lock_holder_amount v act r holder amount lock until current_height =
    and_then (require_issuer v act r) (\<lambda>a.
    if amount = 0 then Err MustBePositive
    else if (case until of Some t \<Rightarrow> t \<le> current_height | None \<Rightarrow> False)
    then Err (LockExpiryPassed (the until) current_height)
    else
     and_then (map_err AhRwa (apply_lock_amount v a holder amount lock until current_height)) (\<lambda>states.
     Ok (default_updates\<lparr> bu_holder_states := states \<rparr>)))"

definition issuer_forced_transfer ::
  "view \<Rightarrow> 'p action \<Rightarrow> asset_ref \<Rightarrow> address \<Rightarrow> address \<Rightarrow> nat \<Rightarrow> string \<Rightarrow> nat \<Rightarrow>
   (asset_handler_error, block_updates) result" where
  "issuer_forced_transfer v act r from to amount reason current_height =
    and_then (check_reason reason) (\<lambda>_.
    and_then (require_issuer v act r) (\<lambda>a.
    and_then (map_err AhRwa (apply_forced_transfer_with_lock v a from to amount current_height)) (\<lambda>(a, assets, states).
    Ok ((write_asset a)\<lparr> bu_assets := assets, bu_holder_states := states \<rparr>))))"

definition issue_asset_to ::
  "view \<Rightarrow> 'p action \<Rightarrow> asset_ref \<Rightarrow> address \<Rightarrow> nat \<Rightarrow> nat \<Rightarrow> (asset_handler_error, block_updates) result" where
  "issue_asset_to v act r to amount current_height =
    and_then (require_issuer v act r) (\<lambda>a.
    if amount = 0 then Err MustBePositive
    else
     and_then (map_err AhRwa (apply_issue_to v a to amount current_height)) (\<lambda>(a, assets).
     Ok ((write_asset a)\<lparr> bu_assets := assets \<rparr>)))"

definition lock_issuance :: "view \<Rightarrow> 'p action \<Rightarrow> asset_ref \<Rightarrow> (asset_handler_error, block_updates) result" where
  "lock_issuance v act r =
    and_then (require_issuer v act r) (\<lambda>a.
    Ok (write_asset (a\<lparr> issuance_locked := True, max_supply := Some (total_supply a) \<rparr>)))"

definition transfer_issuer ::
  "(address \<Rightarrow> string option) \<Rightarrow> view \<Rightarrow> 'p action \<Rightarrow> asset_ref \<Rightarrow> address \<Rightarrow> (asset_handler_error, block_updates) result" where
  "transfer_issuer pubkey_bytes v act r new_issuer =
    and_then (require_issuer v act r) (\<lambda>a.
    and_then (ok_or (InvalidNewIssuer new_issuer) (pubkey_bytes new_issuer)) (\<lambda>_.
    Ok (write_asset (a\<lparr> issuer := new_issuer \<rparr>))))"

definition set_metadata_uri ::
  "view \<Rightarrow> 'p action \<Rightarrow> asset_ref \<Rightarrow> string option \<Rightarrow> (asset_handler_error, block_updates) result" where
  "set_metadata_uri v act r uri =
    and_then (validate_metadata_uri uri) (\<lambda>_.
    and_then (require_issuer v act r) (\<lambda>a.
    Ok (write_asset (a\<lparr> metadata_uri := uri \<rparr>))))"

definition set_limits ::
  "view \<Rightarrow> 'p action \<Rightarrow> asset_ref \<Rightarrow> nat option \<Rightarrow> nat option \<Rightarrow> nat option \<Rightarrow>
   (asset_handler_error, block_updates) result" where
  "set_limits v act r mh mb ma =
    and_then (require_issuer v act r) (\<lambda>a.
    if mb = Some 0 then Err Unholdable
    else Ok (write_asset (a\<lparr> max_holders := mh, max_balance_per_holder := mb, max_attestation_age := ma \<rparr>)))"

definition set_private_claims :: "view \<Rightarrow> 'p action \<Rightarrow> asset_ref \<Rightarrow> bool \<Rightarrow> (asset_handler_error, block_updates) result" where
  "set_private_claims v act r b =
    and_then (require_issuer v act r) (\<lambda>a.
    Ok (write_asset (a\<lparr> private_claims := b \<rparr>)))"

text \<open>\<open>proves\<close> is \<open>circuit_identity::verify_claim_proof\<close> with its cryptographic parameters applied.\<close>

definition verify_claim_proof_action ::
  "(asset \<Rightarrow> (identity_error, unit) result) \<Rightarrow> view \<Rightarrow> 'p action \<Rightarrow> asset_ref \<Rightarrow> nat \<Rightarrow>
   (asset_handler_error, block_updates) result" where
  "verify_claim_proof_action proves v act r current_height =
    and_then (resolve_asset v r) (\<lambda>a.
    if \<not> private_claims a then Err (NoClaimProofs (asset_ref_of a))
    else
     and_then (map_err AhIdentity (proves a)) (\<lambda>_.
     and_then (map_err AhRwa (apply_record_claim_proof v a (act_sender act) current_height)) (\<lambda>states.
     Ok (default_updates\<lparr> bu_holder_states := states \<rparr>))))"

definition recover_holder ::
  "view \<Rightarrow> 'p action \<Rightarrow> asset_ref \<Rightarrow> address \<Rightarrow> address \<Rightarrow> nat \<Rightarrow> (asset_handler_error, block_updates) result" where
  "recover_holder v act r lost replacement current_height =
    (if lost = replacement then Err SameReplacement
     else
      and_then (require_issuer v act r) (\<lambda>a.
      and_then (map_err AhRwa (apply_recover v a lost replacement current_height)) (\<lambda>(a, assets, states).
      Ok ((write_asset a)\<lparr> bu_assets := assets, bu_holder_states := states \<rparr>))))"

definition snapshot_holders ::
  "view \<Rightarrow> 'p action \<Rightarrow> asset_ref \<Rightarrow> nat \<Rightarrow> (asset_handler_error, block_updates) result" where
  "snapshot_holders v act r current_height =
    and_then (require_issuer v act r) (\<lambda>a.
    and_then (map_err AhRwa (apply_snapshot v a current_height)) (\<lambda>a.
    Ok (write_asset a)))"

definition snapshot_at :: "asset \<Rightarrow> nat \<Rightarrow> (asset_handler_error, cap_table) result" where
  "snapshot_at a height =
    (case snapshot a of
       Some tab \<Rightarrow> if ct_height tab = height then Ok tab else Err (WrongSnapshot (asset_ref_of a) (ct_height tab) height)
     | None \<Rightarrow> Err (NoSnapshot (asset_ref_of a)))"

definition distribute ::
  "view \<Rightarrow> 'p action \<Rightarrow> asset_ref \<Rightarrow> nat \<Rightarrow> asset_ref \<Rightarrow> nat \<Rightarrow> nat \<Rightarrow> (asset_handler_error, block_updates) result" where
  "distribute v act r snapshot_height payout_ref amount current_height =
    and_then (require_issuer v act r) (\<lambda>a.
    and_then (snapshot_at a snapshot_height) (\<lambda>tab.
    if amount = 0 \<or> ct_total tab = 0 then Err NothingToDistribute
    else
     and_then (if payout_ref = asset_ref_of a then Ok a else resolve_asset v payout_ref) (\<lambda>payout.
     and_then (map_err AhRwa (apply_distribution v payout (act_sender act) tab amount current_height)) (\<lambda>(payout, assets).
     Ok ((write_asset payout)\<lparr> bu_assets := assets \<rparr>)))))"

definition redeem ::
  "view \<Rightarrow> 'p action \<Rightarrow> asset_ref \<Rightarrow> nat \<Rightarrow> nat \<Rightarrow> (asset_handler_error, block_updates) result" where
  "redeem v act r snapshot_height current_height =
    and_then (require_issuer v act r) (\<lambda>a.
    and_then (snapshot_at a snapshot_height) (\<lambda>tab.
    if ct_total tab = 0 then Err NothingToRedeem
    else
     and_then (map_err AhRwa (apply_redemption v a tab current_height)) (\<lambda>(a, assets, states).
     Ok ((write_asset a)\<lparr> bu_assets := assets, bu_holder_states := states \<rparr>))))"

definition split_asset ::
  "view \<Rightarrow> 'p action \<Rightarrow> asset_ref \<Rightarrow> nat \<Rightarrow> nat \<Rightarrow> nat \<Rightarrow> nat \<Rightarrow> (asset_handler_error, block_updates) result" where
  "split_asset v act r snapshot_height num den current_height =
    and_then (require_issuer v act r) (\<lambda>a.
    if num = 0 \<or> den = 0 then Err BadSplitRatio
    else
     and_then (snapshot_at a snapshot_height) (\<lambda>tab.
     and_then (map_err AhRwa (apply_split v a tab num den current_height)) (\<lambda>(a, assets, states).
     Ok ((write_asset a)\<lparr> bu_assets := assets, bu_holder_states := states \<rparr>))))"

section \<open>Tokens\<close>

datatype token_action =
    TkCreate string string nat nat "nat option" bool
  | TkMint asset_ref address nat
  | TkTransfer asset_ref address nat
  | TkBurn asset_ref nat
  | TkRenounceMint asset_ref

definition resolve_token :: "view \<Rightarrow> asset_ref \<Rightarrow> (asset_handler_error, asset) result" where
  "resolve_token v r = ok_or (UnknownAsset r) (v_asset v r)"

text \<open>A validated symbol is ASCII, on which \<open>to_lowercase\<close> is the ASCII fold.\<close>

definition create_token ::
  "hasher \<Rightarrow> (address \<Rightarrow> string \<Rightarrow> asset_ref option) \<Rightarrow> view \<Rightarrow> address \<Rightarrow> string \<Rightarrow> string \<Rightarrow> nat \<Rightarrow> nat \<Rightarrow>
   nat option \<Rightarrow> bool \<Rightarrow> nat \<Rightarrow> (asset_handler_error, account_updates \<times> asset_balance_updates \<times> asset) result" where
  "create_token H derive v sender ticker nm decs initial_supply cap mintable current_height =
    (let metadata = \<lparr> md_asset_class = Token, md_decimals = decs, md_required_claims = [],
                      md_allowed_jurisdictions = None, md_max_supply = cap, md_metadata_uri = None,
                      md_symbol = ticker, md_name = nm \<rparr>
     in
     and_then (validate_metadata metadata) (\<lambda>_.
     (let aid = map to_ascii_lowercase ticker in
      and_then (ok_or (CannotDerive sender) (derive sender aid)) (\<lambda>r.
      if v_asset v r \<noteq> None then Err (AlreadyRegistered sender aid)
      else
       (let token = (asset_register r aid sender False metadata current_height)\<lparr> issuance_locked := \<not> mintable \<rparr> in
        and_then (map_err AhToken (apply_create H v token initial_supply (token_create_fee (chain_params_of v))))
          (\<lambda>(token, accounts, assets). Ok (accounts, assets, token)))))))"

definition token_dispatch ::
  "hasher \<Rightarrow> (address \<Rightarrow> string \<Rightarrow> asset_ref option) \<Rightarrow> view \<Rightarrow> 'p action \<Rightarrow> token_action \<Rightarrow> nat \<Rightarrow>
   (asset_handler_error, block_updates) result" where
  "token_dispatch H derive v act ta current_height =
    (let sender = act_sender act in
     and_then
      (case ta of
         TkCreate ticker nm decs initial_supply cap mintable \<Rightarrow>
           create_token H derive v sender ticker nm decs initial_supply cap mintable current_height
       | TkMint r to amount \<Rightarrow>
           and_then (resolve_token v r) (\<lambda>token.
           and_then (map_err AhToken (apply_mint v token sender to amount)) (\<lambda>(token, assets). Ok ([], assets, token)))
       | TkTransfer r to amount \<Rightarrow>
           and_then (resolve_token v r) (\<lambda>token.
           and_then (map_err AhToken (token_transfer v token sender to amount)) (\<lambda>(token, assets). Ok ([], assets, token)))
       | TkBurn r amount \<Rightarrow>
           and_then (resolve_token v r) (\<lambda>token.
           and_then (map_err AhToken (token_burn v token sender amount)) (\<lambda>(token, assets). Ok ([], assets, token)))
       | TkRenounceMint r \<Rightarrow>
           and_then (resolve_token v r) (\<lambda>token.
           and_then (map_err AhToken (apply_renounce_mint token sender)) (\<lambda>token. Ok ([], [], token))))
      (\<lambda>(accounts, assets, record).
      Ok ((write_asset record)\<lparr> bu_accounts := accounts, bu_assets := assets \<rparr>)))"

end
