(* ===== verification/Asset_Invariant.thy ===== *)
theory Asset_Invariant
  imports Runtime_Asset
begin

text \<open>
  The ledger of every asset at once: the record of each registered asset agrees with the balance rows under
  it, whichever action was dispatched last. The circuits' lemmas speak of one asset and its balances; here
  they are lifted to the handlers and the whole view.
\<close>

section \<open>Batches under one asset\<close>

definition only_asset :: "asset_ref \<Rightarrow> asset_balance_updates \<Rightarrow> bool" where
  "only_asset r u \<longleftrightarrow> fst ` dom (map_of u) \<subseteq> {r}"

lemma only_asset_simps [simp]:
  "only_asset r []"
  "only_asset r u \<Longrightarrow> only_asset r (bt_insert (r, who) x u)"
  "only_asset r u \<Longrightarrow> only_asset r w \<Longrightarrow> bt_wf w \<Longrightarrow> only_asset r (bt_extend u w)"
  by (auto simp: only_asset_def map_of_bt_extend image_subset_iff)

lemma holdings_only: "only_asset r u \<Longrightarrow> s \<noteq> r \<Longrightarrow> holdings (apply_asset_balances v u) s = holdings v s"
proof
  fix owner
  assume "only_asset r u" "s \<noteq> r"
  then have "map_of u (s, owner) = None" by (force simp: only_asset_def image_subset_iff dom_def)
  then show "holdings (apply_asset_balances v u) s owner = holdings v s owner"
    by (simp add: holdings_def map_add_def)
qed

lemma apply_no_balances [simp]: "apply_asset_balances v [] = v"
  by (simp add: apply_asset_balances_def)

lemma forced_transfer_only:
  "apply_forced_transfer v a from to amount = Ok (a', u) \<Longrightarrow> only_asset (asset_ref_of a) u"
  by (auto simp: apply_forced_transfer_def Let_def split: if_splits)

lemma compliant_move_only:
  "apply_compliant_move v a from to amount h = Ok (a', u) \<Longrightarrow> only_asset (asset_ref_of a) u"
  by (auto simp: apply_compliant_move_def check_move_def move_checked_def Let_def forced_transfer_only split: if_splits)

lemma issue_to_only: "apply_issue_to v a to amount h = Ok (a', u) \<Longrightarrow> only_asset (asset_ref_of a) u"
  by (auto simp: apply_issue_to_def split: if_splits)

lemma move_ref:
  "apply_forced_transfer v a from to amount = Ok (a', u) \<Longrightarrow> asset_ref_of a' = asset_ref_of a \<and> bt_wf u"
  "apply_issue_to v a to amount h = Ok (a', u) \<Longrightarrow> asset_ref_of a' = asset_ref_of a \<and> bt_wf u"
  "apply_compliant_move v a from to amount h = Ok (a', u) \<Longrightarrow> asset_ref_of a' = asset_ref_of a \<and> bt_wf u"
  by (auto simp: apply_forced_transfer_def apply_issue_to_def apply_compliant_move_def check_move_def
        move_checked_def Let_def rwa_track_keeps bt_wf_insert split: if_splits)

lemma distribution_only:
  "distribution_loop v a who tab amount h hs s = Ok (a', u) \<Longrightarrow> only_asset (asset_ref_of a) s \<Longrightarrow>
   only_asset (asset_ref_of a) u"
proof (induction v a who tab amount h hs s rule: distribution_loop.induct)
  case (2 v a who tab amount h holder holding rest s)
  from "2.prems"(1) obtain share where share: "pro_rata (asset_ref_of a) tab holding amount = Ok share"
    by (auto split: if_splits result.splits)
  show ?case
  proof (cases "share = 0")
    case True
    then show ?thesis using 2 share by simp
  next
    case False
    show ?thesis
    proof (cases "apply_compliant_move (apply_asset_balances v s) a who holder share h")
      case (Ok x)
      obtain b w where x: "x = (b, w)" by (cases x)
      note m = move_ref(3) [OF Ok [unfolded x]] compliant_move_only [OF Ok [unfolded x]]
      have "only_asset (asset_ref_of a) (bt_extend s w)" using m "2.prems"(2) by simp
      then show ?thesis using "2.IH"(2) [OF share False Ok x [symmetric]] "2.prems"(1) share False Ok x m by simp
    next
      case (Err e)
      with 2 share False show ?thesis by (auto split: if_splits)
    next
      case Panic
      with 2 share False show ?thesis by simp
    qed
  qed
qed simp

lemma redemption_only:
  "redemption_loop v a who h hs s st = Ok (a', u, st') \<Longrightarrow> only_asset (asset_ref_of a) s \<Longrightarrow> only_asset (asset_ref_of a) u"
proof (induction hs arbitrary: a s st)
  case (Cons x hs)
  obtain holder holding where x: "x = (holder, holding)" by (cases x)
  from Cons.prems(1) obtain b w st2 where
    f: "apply_forced_transfer (apply_asset_balances v s) a holder who holding = Ok (b, w)"
    and rest: "redemption_loop v b who h hs (bt_extend s w) st2 = Ok (a', u, st')"
    by (auto simp: x Let_def)
  show ?case using Cons.IH [OF rest] move_ref(1) [OF f] forced_transfer_only [OF f] Cons.prems(2) by simp
qed simp

lemma split_only:
  "split_loop v a who num den h hs s st = Ok (a', u, st') \<Longrightarrow> only_asset (asset_ref_of a) s \<Longrightarrow> only_asset (asset_ref_of a) u"
proof (induction hs arbitrary: a s st)
  case (Cons x hs)
  obtain holder holding where x: "x = (holder, holding)" by (cases x)
  from Cons.prems(1) obtain b w st2 scaled where
    f: "(if holding < scaled then apply_issue_to (apply_asset_balances v s) a holder (scaled - holding) h
         else apply_forced_transfer (apply_asset_balances v s) a holder who (holding - scaled)) = Ok (b, w)"
    and rest: "split_loop v b who num den h hs (bt_extend s w) st2 = Ok (a', u, st')"
    by (auto simp: x Let_def)
  have "asset_ref_of b = asset_ref_of a \<and> bt_wf w \<and> only_asset (asset_ref_of a) w"
    using f move_ref(1,2) forced_transfer_only issue_to_only by (auto split: if_splits)
  then show ?case using Cons.IH [OF rest] Cons.prems(2) by simp
qed simp

section \<open>The invariant\<close>

definition asset_entry :: "view \<Rightarrow> asset \<Rightarrow> bool" where
  "asset_entry v a \<longleftrightarrow> capped a \<and> (if asset_class a = Token then tb.book v a else rb.book v a)"

definition asset_ledger :: "view \<Rightarrow> bool" where
  "asset_ledger v \<longleftrightarrow> (\<forall>r. case v_asset v r of
       None \<Rightarrow> holdings v r = Map.empty
     | Some a \<Rightarrow> asset_ref_of a = r \<and> asset_entry v a)"

definition few_holders :: "view \<Rightarrow> bool" where
  "few_holders v \<longleftrightarrow> (\<forall>a\<in>ran (v_asset v). holder_count a < u32_max)"

text \<open>What a handler's batch may do to the asset tables.\<close>

definition asset_batch :: "view \<Rightarrow> block_updates \<Rightarrow> bool" where
  "asset_batch v u \<longleftrightarrow>
    (case bu_asset_registration u of
       None \<Rightarrow> bu_assets u = []
     | Some a \<Rightarrow> only_asset (asset_ref_of a) (bu_assets u) \<and> asset_entry (apply_asset_balances v (bu_assets u)) a)"

lemma asset_entry_view: "holdings w (asset_ref_of a) = holdings v (asset_ref_of a) \<Longrightarrow> asset_entry w a = asset_entry v a"
  by (simp add: asset_entry_def tb.book_def rb.book_def outstanding_def holders_def asset_balance_holdings)

lemma asset_ledgerD:
  "asset_ledger v \<Longrightarrow> v_asset v r = Some a \<Longrightarrow> asset_ref_of a = r \<and> asset_entry v a"
  "asset_ledger v \<Longrightarrow> v_asset v r = None \<Longrightarrow> holdings v r = Map.empty"
proof -
  assume l: "asset_ledger v"
  then have *: "case v_asset v r of None \<Rightarrow> holdings v r = Map.empty | Some a \<Rightarrow> asset_ref_of a = r \<and> asset_entry v a"
    unfolding asset_ledger_def by (rule spec)
  from * show "v_asset v r = Some a \<Longrightarrow> asset_ref_of a = r \<and> asset_entry v a" by simp
  from * show "v_asset v r = None \<Longrightarrow> holdings v r = Map.empty" by simp
qed

lemma governance_asset: "v_asset (apply_governance v ws) = v_asset v"
proof (induction ws arbitrary: v)
  case (Cons w ws)
  then show ?case by (cases w) simp_all
qed simp

lemma batch_parts_assets [simp]:
  "v_asset (apply_accounts v a) = v_asset v" "v_asset (apply_stakes v st) = v_asset v"
  "v_asset (apply_asset_balances v ab) = v_asset v"
  "v_asset (apply_holder_states v hs) = v_asset v" "v_asset_balance (apply_holder_states v hs) = v_asset_balance v"
  "v_asset (apply_operator v op) = v_asset v" "v_asset_balance (apply_operator v op) = v_asset_balance v"
  "v_asset (apply_validator_statuses v vs) = v_asset v"
  "v_asset_balance (apply_validator_statuses v vs) = v_asset_balance v"
  by (simp_all add: apply_holder_states_def apply_operator_def apply_validator_statuses_def apply_stakes_def
        apply_accounts_def apply_asset_balances_def)

lemma registrations_assets [simp]:
  "v_asset (apply_opt apply_bls_key k v) = v_asset v" "v_asset_balance (apply_opt apply_bls_key k v) = v_asset_balance v"
  "v_asset (apply_opt apply_attestor_registration ar v) = v_asset v"
  "v_asset_balance (apply_opt apply_attestor_registration ar v) = v_asset_balance v"
  "v_asset (apply_opt apply_attestor_deregistration ad v) = v_asset v"
  "v_asset_balance (apply_opt apply_attestor_deregistration ad v) = v_asset_balance v"
  "v_asset_balance (apply_opt apply_asset_registration r v) = v_asset_balance v"
  "v_asset (apply_opt apply_asset_registration r v) =
     (case r of None \<Rightarrow> v_asset v | Some a \<Rightarrow> (v_asset v)(asset_ref_of a \<mapsto> a))"
  by (simp_all add: apply_opt_def apply_bls_key_def Let_def apply_attestor_registration_def
        apply_attestor_deregistration_def apply_asset_registration_def split: option.split)

lemma absorb_assets:
  "v_asset_balance (absorb_updates v u) = v_asset_balance (apply_asset_balances v (bu_assets u))"
  "v_asset (absorb_updates v u) =
     (case bu_asset_registration u of None \<Rightarrow> v_asset v | Some a \<Rightarrow> (v_asset v)(asset_ref_of a \<mapsto> a))"
  by (simp_all add: absorb_updates_def Let_def governance_asset cong: option.case_cong)

lemma asset_ledgerI:
  "(\<And>r. v_asset v r = None \<Longrightarrow> holdings v r = Map.empty) \<Longrightarrow>
   (\<And>r a. v_asset v r = Some a \<Longrightarrow> asset_ref_of a = r) \<Longrightarrow>
   (\<And>r a. v_asset v r = Some a \<Longrightarrow> asset_entry v a) \<Longrightarrow> asset_ledger v"
  by (simp add: asset_ledger_def split: option.split)

lemma absorb_asset_batch:
  assumes "asset_ledger v" and "asset_batch v u"
  shows "asset_ledger (absorb_updates v u)"
proof -
  have h: "holdings (absorb_updates v u) r = holdings (apply_asset_balances v (bu_assets u)) r" for r
    by (simp only: holdings_def absorb_assets)
  show ?thesis
  proof (cases "bu_asset_registration u")
    case None
    with assms(2) have e: "bu_assets u = []" by (simp add: asset_batch_def)
    then have same: "holdings (absorb_updates v u) r = holdings v r" for r using h by simp
    have rec: "v_asset (absorb_updates v u) = v_asset v" by (simp add: absorb_assets None)
    show ?thesis
      by (rule asset_ledgerI) (use asset_ledgerD [OF assms(1)] asset_entry_view [OF same] same in \<open>simp_all only: rec\<close>)
  next
    case (Some a)
    let ?r = "asset_ref_of a"
    from assms(2) Some have o: "only_asset ?r (bu_assets u)" and e: "asset_entry (apply_asset_balances v (bu_assets u)) a"
      by (simp_all add: asset_batch_def)
    have rec: "v_asset (absorb_updates v u) s = (if s = ?r then Some a else v_asset v s)" for s
      by (simp add: absorb_assets Some)
    have other: "holdings (absorb_updates v u) s = holdings v s" if "s \<noteq> ?r" for s
      using h holdings_only [OF o that] by simp
    have same: "asset_entry (absorb_updates v u) a" using e asset_entry_view [OF h] by simp
    show ?thesis
    proof (rule asset_ledgerI)
      fix s assume "v_asset (absorb_updates v u) s = None"
      then show "holdings (absorb_updates v u) s = Map.empty"
        using other [of s] asset_ledgerD(2) [OF assms(1), of s] by (simp add: rec split: if_splits)
    next
      fix s b assume *: "v_asset (absorb_updates v u) s = Some b"
      show 1: "asset_ref_of b = s" using * asset_ledgerD(1) [OF assms(1), of s b] by (simp add: rec split: if_splits)
      show "asset_entry (absorb_updates v u) b"
      proof (cases "s = ?r")
        case False
        then have "v_asset v s = Some b" using * by (simp add: rec)
        then show ?thesis using asset_ledgerD(1) [OF assms(1)] asset_entry_view [OF other] False 1 by simp
      qed (use * same in \<open>simp add: rec\<close>)
    qed
  qed
qed

section \<open>The handlers of regulated assets\<close>

lemma resolve_asset_Ok_iff: "resolve_asset v r = Ok a \<longleftrightarrow> v_asset v r = Some a \<and> asset_class a \<noteq> Token"
  by (auto simp: resolve_asset_def)

lemma require_issuer_Ok_iff:
  "require_issuer v act r = Ok a \<longleftrightarrow> v_asset v r = Some a \<and> asset_class a \<noteq> Token \<and> act_sender act = issuer a"
  by (auto simp: require_issuer_def resolve_asset_Ok_iff split: if_splits)

definition tracked :: "view \<Rightarrow> asset \<Rightarrow> bool" where
  "tracked v a \<longleftrightarrow> asset_class a \<noteq> Token \<and> rb.book v a \<and> capped a \<and> holder_count a < u32_max"

lemma trackedI:
  assumes "asset_ledger v" "few_holders v" "v_asset v r = Some a" "asset_class a \<noteq> Token"
  shows "tracked v a"
  using asset_ledgerD(1) [OF assms(1,3)] assms(2-4)
  by (auto simp: tracked_def asset_entry_def few_holders_def intro: ranI)

lemma tracked_batch:
  assumes "tracked v a" "same_asset a a'" "rb.book (apply_asset_balances v u) a'" "capped a'"
    "only_asset (asset_ref_of a) u" "bu_asset_registration w = Some a'" "bu_assets w = u"
  shows "asset_batch v w"
  using assms by (simp add: asset_batch_def asset_entry_def tracked_def same_asset_def)

lemma capped_same: "capped a \<Longrightarrow> same_asset a a' \<Longrightarrow> total_supply a' \<le> total_supply a \<Longrightarrow> capped a'"
  by (auto simp: capped_def same_asset_def)

lemma write_asset_simps [simp]:
  "bu_asset_registration (write_asset a) = Some a" "bu_assets (write_asset a) = []"
  by (simp_all add: write_asset_def default_updates_def)

lemma default_updates_batch [simp]:
  "bu_asset_registration default_updates = None" "bu_assets default_updates = []"
  by (simp_all add: default_updates_def)

text \<open>A change to fields the book does not read.\<close>

lemma record_batch:
  assumes "tracked v a" "same_asset a a'" "total_supply a' = total_supply a" "holder_count a' = holder_count a"
  shows "asset_batch v (write_asset a')"
  using assms book_cong [of a' a v] capped_same [OF _ assms(2)]
  by (intro tracked_batch [OF assms(1,2)]) (simp_all add: tracked_def same_asset_def)

lemma issue_asset_batch:
  assumes "asset_ledger v" "few_holders v" "issue_asset v act r amount = Ok w"
  shows "asset_batch v w"
proof -
  from assms(3) obtain a a' acc u where a: "v_asset v r = Some a" "asset_class a \<noteq> Token"
    and *: "apply_issue v a (act_sender act) (act_nonce act) amount = Ok (a', acc, u)"
    and w: "w = (write_asset a')\<lparr> bu_accounts := acc, bu_assets := u \<rparr>"
    by (auto simp: issue_asset_def resolve_asset_Ok_iff)
  note t = trackedI [OF assms(1,2) a]
  have "only_asset (asset_ref_of a) u" using * by (auto simp: apply_issue_def Let_def split: if_splits)
  with apply_issue_book [OF _ _ *] t show ?thesis by (intro tracked_batch [OF t]) (simp_all add: tracked_def w)
qed

lemma issue_asset_to_batch:
  assumes "asset_ledger v" "few_holders v" "issue_asset_to v act r to amount h = Ok w"
  shows "asset_batch v w"
proof -
  from assms(3) obtain a a' u where a: "v_asset v r = Some a" "asset_class a \<noteq> Token"
    and *: "apply_issue_to v a to amount h = Ok (a', u)" and w: "w = (write_asset a')\<lparr> bu_assets := u \<rparr>"
    by (auto simp: issue_asset_to_def require_issuer_Ok_iff split: if_splits)
  note t = trackedI [OF assms(1,2) a]
  from apply_issue_to_book [OF _ _ *] t issue_to_only [OF *] show ?thesis
    by (intro tracked_batch [OF t]) (simp_all add: tracked_def w)
qed

lemma burn_asset_batch:
  assumes "asset_ledger v" "few_holders v" "burn_asset v act r amount = Ok w"
  shows "asset_batch v w"
proof -
  from assms(3) obtain a a' u where a: "v_asset v r = Some a" "asset_class a \<noteq> Token"
    and *: "apply_burn v a (issuer a) amount = Ok (a', u)" and w: "w = (write_asset a')\<lparr> bu_assets := u \<rparr>"
    by (auto simp: burn_asset_def require_issuer_Ok_iff split: if_splits)
  note t = trackedI [OF assms(1,2) a]
  have "only_asset (asset_ref_of a) u" using * by (auto simp: apply_burn_def Let_def split: if_splits)
  with apply_burn_book [OF _ _ *] t show ?thesis
    by (intro tracked_batch [OF t]) (auto simp: tracked_def w intro: capped_same [of a])
qed

lemma transfer_asset_batch:
  assumes "asset_ledger v" "few_holders v" "transfer_asset v act r to amount h = Ok w"
  shows "asset_batch v w"
proof -
  from assms(3) obtain a a' acc u where a: "v_asset v r = Some a" "asset_class a \<noteq> Token"
    and *: "apply_compliant_transfer v a (act_sender act) (act_nonce act) to amount h = Ok (a', acc, u)"
    and w: "w = (write_asset a')\<lparr> bu_accounts := acc, bu_assets := u \<rparr>"
    by (auto simp: transfer_asset_def resolve_asset_Ok_iff)
  note t = trackedI [OF assms(1,2) a]
  from * have f: "apply_forced_transfer v a (act_sender act) to amount = Ok (a', u)"
    by (auto simp: apply_compliant_transfer_def check_move_def move_checked_def Let_def split: if_splits)
  from apply_forced_transfer_book [OF _ _ f] t forced_transfer_only [OF f] show ?thesis
    by (intro tracked_batch [OF t]) (auto simp: tracked_def w intro: capped_same [of a])
qed

lemma issuer_forced_transfer_batch:
  assumes "asset_ledger v" "few_holders v" "issuer_forced_transfer v act r from to amount reason h = Ok w"
  shows "asset_batch v w"
proof -
  from assms(3) obtain a a' u st where a: "v_asset v r = Some a" "asset_class a \<noteq> Token"
    and *: "apply_forced_transfer_with_lock v a from to amount h = Ok (a', u, st)"
    and w: "w = (write_asset a')\<lparr> bu_assets := u, bu_holder_states := st \<rparr>"
    by (auto simp: issuer_forced_transfer_def require_issuer_Ok_iff)
  note t = trackedI [OF assms(1,2) a]
  from * have f: "apply_forced_transfer v a from to amount = Ok (a', u)"
    by (auto simp: apply_forced_transfer_with_lock_def Let_def split: if_splits option.splits)
  from apply_forced_transfer_book [OF _ _ f] t forced_transfer_only [OF f] show ?thesis
    by (intro tracked_batch [OF t]) (auto simp: tracked_def w intro: capped_same [of a])
qed

lemma recover_holder_batch:
  assumes "asset_ledger v" "few_holders v" "recover_holder v act r lost replacement h = Ok w"
  shows "asset_batch v w"
proof -
  from assms(3) obtain a a' u st where a: "v_asset v r = Some a" "asset_class a \<noteq> Token" and ne: "lost \<noteq> replacement"
    and *: "apply_recover v a lost replacement h = Ok (a', u, st)"
    and w: "w = (write_asset a')\<lparr> bu_assets := u, bu_holder_states := st \<rparr>"
    by (auto simp: recover_holder_def require_issuer_Ok_iff split: if_splits)
  note t = trackedI [OF assms(1,2) a]
  have "only_asset (asset_ref_of a) u" using * by (auto simp: apply_recover_def Let_def rwa_track_keeps split: if_splits)
  with apply_recover_book [OF _ _ _ ne *] t show ?thesis
    by (intro tracked_batch [OF t]) (auto simp: tracked_def capped_def same_asset_def w)
qed

lemma register_asset_batch:
  assumes "asset_ledger v" "register_asset derive v act aid compliance metadata h = Ok w"
  shows "asset_batch v w"
proof -
  from assms(2) obtain r where r: "v_asset v r = None" and c: "md_asset_class metadata \<noteq> Token"
    and w: "w = write_asset (asset_register r aid (act_sender act) compliance metadata h)"
    by (auto simp: register_asset_def split: if_splits)
  have "holdings v r = Map.empty" using asset_ledgerD(2) [OF assms(1) r] .
  then show ?thesis using c
    by (simp add: w asset_batch_def asset_entry_def asset_register_def rb.book_def capped_def outstanding_def holders_def
          asset_balance_holdings opt_val_def u128_max_def)
qed

lemma record_handlers_batch:
  assumes "asset_ledger v" "few_holders v"
  shows "set_frozen v act r b reason = Ok w \<Longrightarrow> asset_batch v w"
    and "set_metadata_uri v act r uri = Ok w \<Longrightarrow> asset_batch v w"
    and "set_limits v act r mh mb ma = Ok w \<Longrightarrow> asset_batch v w"
    and "set_private_claims v act r b = Ok w \<Longrightarrow> asset_batch v w"
    and "snapshot_holders v act r h = Ok w \<Longrightarrow> asset_batch v w"
  using trackedI [OF assms]
  by (auto simp: set_frozen_def set_metadata_uri_def set_limits_def set_private_claims_def snapshot_holders_def
        apply_snapshot_def require_issuer_Ok_iff same_asset_def intro!: record_batch split: if_splits)

lemma holder_handlers_batch:
  shows "set_holder_frozen v act r holder b = Ok w \<Longrightarrow> asset_batch v w"
    and "lock_holder_amount v act r holder amount lock until h = Ok w \<Longrightarrow> asset_batch v w"
    and "verify_claim_proof_action proves v act r h = Ok w \<Longrightarrow> asset_batch v w"
  by (auto simp: set_holder_frozen_def lock_holder_amount_def verify_claim_proof_action_def asset_batch_def split: if_splits)

lemma lock_issuance_batch:
  assumes "asset_ledger v" "few_holders v" "lock_issuance v act r = Ok w"
  shows "asset_batch v w"
proof -
  from assms(3) obtain a where a: "v_asset v r = Some a" "asset_class a \<noteq> Token"
    and w: "w = write_asset (a\<lparr> issuance_locked := True, max_supply := Some (total_supply a) \<rparr>)"
    by (auto simp: lock_issuance_def require_issuer_Ok_iff)
  from trackedI [OF assms(1,2) a] show ?thesis
    by (simp add: w asset_batch_def asset_entry_def tracked_def capped_def rb.book_def)
qed

lemma distribute_batch:
  assumes "asset_ledger v" "few_holders v" "distribute v act r sh payout_ref amount h = Ok w"
  shows "asset_batch v w"
proof -
  from assms(3) obtain q p tab p' u where s: "v_asset v q = Some p" "asset_class p \<noteq> Token"
    and *: "distribution_loop v p (act_sender act) tab amount h (ct_holders tab) [] = Ok (p', u)"
    and w: "w = (write_asset p')\<lparr> bu_assets := u \<rparr>"
    by (auto simp: distribute_def apply_distribution_def require_issuer_Ok_iff resolve_asset_Ok_iff split: if_splits)
  note t = trackedI [OF assms(1,2) s]
  from distribution_loop_book [OF *] t distribution_only [OF *] show ?thesis
    by (intro tracked_batch [OF t]) (auto simp: tracked_def w intro: capped_same [of p])
qed

lemma redeem_batch:
  assumes "asset_ledger v" "few_holders v" "redeem v act r sh h = Ok w"
  shows "asset_batch v w"
proof -
  from assms(3) obtain a tab a' u st where a: "v_asset v r = Some a" "asset_class a \<noteq> Token"
    and ok: "apply_redemption v a tab h = Ok (a', u, st)"
    and w: "w = (write_asset a')\<lparr> bu_assets := u, bu_holder_states := st \<rparr>"
    by (auto simp: redeem_def require_issuer_Ok_iff split: if_splits)
  from ok obtain b where *: "redemption_loop v a (issuer a) h (ct_holders tab) [] [] = Ok (b, u, st)"
    and b: "a' = b\<lparr> snapshot := None \<rparr>"
    by (auto simp: apply_redemption_def)
  note t = trackedI [OF assms(1,2) a]
  from redemption_loop_book [OF *] t have "rb.book (apply_asset_balances v u) b" "same_asset a b" "capped b"
    by (auto simp: tracked_def intro: capped_same [of a])
  then show ?thesis using redemption_only [OF *] book_cong [of "b\<lparr> snapshot := None \<rparr>" b]
    by (intro tracked_batch [OF t]) (simp_all add: w b same_asset_def capped_def)
qed

lemma split_asset_batch:
  assumes "asset_ledger v" "few_holders v" "split_asset v act r sh num den h = Ok w"
  shows "asset_batch v w"
proof -
  from assms(3) obtain a tab a' u st where a: "v_asset v r = Some a" "asset_class a \<noteq> Token"
    and ok: "apply_split v a tab num den h = Ok (a', u, st)"
    and w: "w = (write_asset a')\<lparr> bu_assets := u, bu_holder_states := st \<rparr>"
    by (auto simp: split_asset_def require_issuer_Ok_iff split: if_splits)
  from ok obtain b where *: "split_loop v a (issuer a) num den h (ct_holders tab) [] [] = Ok (b, u, st)"
    and b: "a' = b\<lparr> snapshot := None \<rparr>"
    by (auto simp: apply_split_def)
  note t = trackedI [OF assms(1,2) a]
  from split_loop_book [OF *] t have "rb.book (apply_asset_balances v u) b" "same_asset a b" "capped b"
    by (auto simp: tracked_def)
  then show ?thesis using split_only [OF *] book_cong [of "b\<lparr> snapshot := None \<rparr>" b]
    by (intro tracked_batch [OF t]) (simp_all add: w b same_asset_def capped_def)
qed

section \<open>The handler of token actions\<close>

lemma token_batch:
  assumes "asset_class a' = Token" "tb.book (apply_asset_balances v u) a'" "capped a'" "only_asset (asset_ref_of a') u"
    "bu_asset_registration w = Some a'" "bu_assets w = u"
  shows "asset_batch v w"
  using assms by (simp add: asset_batch_def asset_entry_def)

lemma require_token_Ok_iff [simp]: "require_token a = Ok () \<longleftrightarrow> asset_class a = Token"
  by (simp add: require_token_def)

lemma token_entry:
  assumes "asset_ledger v" "few_holders v" "v_asset v r = Some a" "asset_class a = Token"
  shows "tb.book v a" "capped a" "holder_count a < u32_max"
  using asset_ledgerD(1) [OF assms(1,3)] assms(2-4) by (auto simp: asset_entry_def few_holders_def intro: ranI)

lemma mint_into_batch:
  assumes "tb.book v a" "holder_count a < u32_max" "asset_class a = Token" "mint_into v a to amount = Ok (a', u)"
  shows "asset_class a' = Token \<and> tb.book (apply_asset_balances v u) a' \<and> capped a' \<and> only_asset (asset_ref_of a') u"
  using assms(4)
proof (cases rule: mint_into_OkE)
  case 1
  with mint_into_book [OF assms(1,4,2)] show ?thesis using assms(3) tb.track_keeps [of a] by (simp add: capped_def)
qed

lemma create_token_batch:
  assumes "asset_ledger v" "create_token H derive v sender sy nm decs initial cap mintable h = Ok (acc, u, a)"
  shows "asset_class a = Token \<and> tb.book (apply_asset_balances v u) a \<and> capped a \<and> only_asset (asset_ref_of a) u"
proof -
  from assms(2) obtain r md aid where r: "v_asset v r = None" and md: "md_asset_class md = Token"
    and *: "apply_create H v ((asset_register r aid sender False md h)\<lparr> issuance_locked := \<not> mintable \<rparr>) initial
      (token_create_fee (chain_params_of v)) = Ok (a, acc, u)"
    by (force simp: create_token_def Let_def split: if_splits)
  let ?t = "(asset_register r aid sender False md h)\<lparr> issuance_locked := \<not> mintable \<rparr>"
  from * have m: "(if 0 < initial then mint_into v ?t (issuer ?t) initial else Ok (?t, [])) = Ok (a, u)"
    by (auto simp: apply_create_def Let_def split: if_splits)
  have c: "asset_class ?t = Token" by (simp add: asset_register_def md)
  have b: "tb.book v ?t" "capped ?t" "holder_count ?t < u32_max" using asset_ledgerD(2) [OF assms(1) r]
    by (simp_all add: asset_register_def tb.book_def capped_def outstanding_def holders_def asset_balance_holdings
          opt_val_def u32_max_def u128_max_def)
  show ?thesis
  proof (cases "0 < initial")
    case True
    with m mint_into_batch [OF b(1,3) c, of "issuer ?t" initial a u] show ?thesis by simp
  next
    case False
    with m b c show ?thesis by auto
  qed
qed

lemma token_moves_batch:
  assumes "tb.book v a" "capped a" "holder_count a < u32_max"
  shows "token_transfer v a from to amount = Ok (a', u) \<Longrightarrow>
      asset_class a' = Token \<and> tb.book (apply_asset_balances v u) a' \<and> capped a' \<and> only_asset (asset_ref_of a') u"
    and "token_burn v a holder amount = Ok (a', u) \<Longrightarrow>
      asset_class a' = Token \<and> tb.book (apply_asset_balances v u) a' \<and> capped a' \<and> only_asset (asset_ref_of a') u"
proof -
  assume t: "token_transfer v a from to amount = Ok (a', u)"
  have "asset_class a' = Token \<and> max_supply a' = max_supply a \<and> only_asset (asset_ref_of a') u"
    using t by (auto simp: token_transfer_def Let_def token_track_holder_def split: if_splits)
  with token_transfer_book [OF assms(1) t assms(3)] assms(2) show
    "asset_class a' = Token \<and> tb.book (apply_asset_balances v u) a' \<and> capped a' \<and> only_asset (asset_ref_of a') u"
    by (simp add: capped_def)
next
  assume t: "token_burn v a holder amount = Ok (a', u)"
  have "asset_class a' = Token \<and> max_supply a' = max_supply a \<and> only_asset (asset_ref_of a') u"
    using t by (auto simp: token_burn_def Let_def token_track_holder_def split: if_splits)
  with token_burn_book [OF assms(1) t assms(3)] assms(2) show
    "asset_class a' = Token \<and> tb.book (apply_asset_balances v u) a' \<and> capped a' \<and> only_asset (asset_ref_of a') u"
    by (auto simp: capped_def)
qed

lemma resolve_token_Ok_iff [simp]: "resolve_token v r = Ok a \<longleftrightarrow> v_asset v r = Some a"
  by (auto simp: resolve_token_def)

lemma token_mint_batch:
  assumes "asset_ledger v" "few_holders v" "v_asset v r = Some a" "apply_mint v a sender to amount = Ok (a', u)"
  shows "asset_class a' = Token \<and> tb.book (apply_asset_balances v u) a' \<and> capped a' \<and> only_asset (asset_ref_of a') u"
proof -
  from assms(4) have "asset_class a = Token" "mint_into v a to amount = Ok (a', u)"
    by (auto simp: apply_mint_def split: if_splits)
  with mint_into_batch token_entry [OF assms(1-3)] show ?thesis by blast
qed

lemma token_dispatch_batch:
  assumes "asset_ledger v" "few_holders v" "token_dispatch H derive v act ta h = Ok w"
  shows "asset_batch v w"
proof -
  from assms(3) obtain acc u a' where w: "w = (write_asset a')\<lparr> bu_accounts := acc, bu_assets := u \<rparr>"
    and *: "case ta of
         TkCreate ticker nm decs initial_supply cap mintable \<Rightarrow>
           create_token H derive v (act_sender act) ticker nm decs initial_supply cap mintable h = Ok (acc, u, a')
       | TkMint r to amount \<Rightarrow> \<exists>a. v_asset v r = Some a \<and> apply_mint v a (act_sender act) to amount = Ok (a', u)
       | TkTransfer r to amount \<Rightarrow>
           \<exists>a. v_asset v r = Some a \<and> token_transfer v a (act_sender act) to amount = Ok (a', u)
       | TkBurn r amount \<Rightarrow> \<exists>a. v_asset v r = Some a \<and> token_burn v a (act_sender act) amount = Ok (a', u)
       | TkRenounceMint r \<Rightarrow> \<exists>a. v_asset v r = Some a \<and> apply_renounce_mint a (act_sender act) = Ok a' \<and> u = []"
    by (cases ta) (auto simp: token_dispatch_def Let_def)
  have "asset_class a' = Token \<and> tb.book (apply_asset_balances v u) a' \<and> capped a' \<and> only_asset (asset_ref_of a') u"
  proof (cases ta)
    case TkCreate
    with * create_token_batch [OF assms(1)] show ?thesis by simp
  next
    case TkMint
    with * token_mint_batch [OF assms(1,2)] show ?thesis by auto
  next
    case (TkTransfer r to amount)
    with * obtain a where a: "v_asset v r = Some a" "token_transfer v a (act_sender act) to amount = Ok (a', u)" by auto
    then have "asset_class a = Token" by (simp add: token_transfer_def)
    with a token_moves_batch(1) token_entry [OF assms(1,2)] show ?thesis by blast
  next
    case (TkBurn r amount)
    with * obtain a where a: "v_asset v r = Some a" "token_burn v a (act_sender act) amount = Ok (a', u)" by auto
    then have "asset_class a = Token" by (simp add: token_burn_def)
    with a token_moves_batch(2) token_entry [OF assms(1,2)] show ?thesis by blast
  next
    case (TkRenounceMint r)
    with * obtain a where a: "v_asset v r = Some a" "asset_class a = Token" "a' = a\<lparr> issuance_locked := True \<rparr>" "u = []"
      by (auto simp: apply_renounce_mint_def)
    with token_entry [OF assms(1,2) a(1,2)] show ?thesis by (simp add: tb.book_def capped_def)
  qed
  then show ?thesis by (intro token_batch [of a' v u]) (simp_all add: w)
qed

section \<open>Two ways the record drifts\<close>

text \<open>
  C34: Handing an asset to a new issuer leaves \<open>holder_count\<close> as it was, although the count leaves out the issuer: when
  the new issuer already holds units and the old one holds none, the record counts one holder more than there are,
  and the ledger invariant that every other action keeps is lost.
\<close>

theorem transfer_issuer_miscounts_holders:
  assumes "asset_ledger v" and "v_asset v r = Some a" and "transfer_issuer derive v act r new_issuer = Ok w"
    and "0 < asset_balance v r new_issuer" and "asset_balance v r (issuer a) = 0"
  shows "\<exists>a'. v_asset (absorb_updates v w) r = Some a' \<and> issuer a' = new_issuer \<and>
    holder_count a' = Suc (card {owner \<in> holders (absorb_updates v w) r. owner \<noteq> issuer a'}) \<and>
    \<not> asset_ledger (absorb_updates v w)"
proof -
  from assms(2,3) have c: "asset_class a \<noteq> Token" and w: "w = write_asset (a\<lparr> issuer := new_issuer \<rparr>)"
    by (auto simp: transfer_issuer_def require_issuer_Ok_iff)
  have ref: "asset_ref_of a = r" and b: "rb.book v a"
    using asset_ledgerD(1) [OF assms(1,2)] c by (simp_all add: asset_entry_def)
  let ?v = "absorb_updates v w" and ?a = "a\<lparr> issuer := new_issuer \<rparr>"
  have h: "holdings ?v r = holdings v r" by (simp only: holdings_def absorb_assets) (simp add: w)
  have hs: "holders ?v r = holders v r" by (simp add: holders_def asset_balance_holdings h)
  have new: "v_asset ?v r = Some ?a" by (simp add: absorb_assets w ref)
  have fin: "finite (holders v r)" using b ref finite_holders by (simp add: rb.book_def)
  have "{owner \<in> holders v r. owner \<noteq> issuer a} = insert new_issuer {owner \<in> holders v r. owner \<noteq> new_issuer}"
    using assms(4,5) by (auto simp: holders_def)
  then have n: "holder_count a = Suc (card {owner \<in> holders v r. owner \<noteq> new_issuer})"
    using b fin by (simp add: rb.book_def ref)
  have "\<not> asset_entry ?v ?a"
    using n hs c ref by (simp add: asset_entry_def rb.book_def)
  then have "\<not> asset_ledger ?v" using asset_ledgerD(1) new by blast
  then show ?thesis using new n hs by simp
qed

definition sample_silver :: asset where
  "sample_silver = (asset_register (AssetRef ''silver'') ''silver'' (Address ''iss'') False
     \<lparr> md_asset_class = Commodity, md_decimals = 0, md_required_claims = [], md_allowed_jurisdictions = None,
       md_max_supply = None, md_metadata_uri = None, md_symbol = ''AG'', md_name = ''Silver'' \<rparr> 1)
     \<lparr> total_supply := 15, holder_count := 2 \<rparr>"

definition sample_silver_view :: view where
  "sample_silver_view = empty_view\<lparr> v_asset := [AssetRef ''silver'' \<mapsto> sample_silver],
     v_asset_balance := [(AssetRef ''silver'', Address ''bob'') \<mapsto> 5, (AssetRef ''silver'', Address ''eve'') \<mapsto> 10],
     v_asset_holder_state :=
       [(AssetRef ''silver'', Address ''eve'') \<mapsto> default_holder_state\<lparr> frozen_amount := 10 \<rparr>,
        (AssetRef ''silver'', Address ''bob'') \<mapsto> default_holder_state\<lparr> frozen_amount := 1, lock_expires_at := Some 7 \<rparr>] \<rparr>"

lemma sample_silver_holdings:
  "holdings sample_silver_view (AssetRef ''silver'') = [Address ''bob'' \<mapsto> 5, Address ''eve'' \<mapsto> 10]"
  "r \<noteq> AssetRef ''silver'' \<Longrightarrow> holdings sample_silver_view r = Map.empty"
  by (auto simp: holdings_def sample_silver_view_def empty_view_def fun_eq_iff)

lemma sample_silver_ledger: "asset_ledger sample_silver_view"
proof -
  have hs: "holders sample_silver_view (AssetRef ''silver'') = {Address ''bob'', Address ''eve''}"
    by (auto simp: holders_def asset_balance_holdings sample_silver_holdings opt_val_def)
  have "{owner \<in> {Address ''bob'', Address ''eve''}. owner \<noteq> Address ''iss''} = {Address ''bob'', Address ''eve''}" by auto
  then have "rb.book sample_silver_view sample_silver"
    by (simp add: rb.book_def sample_silver_def asset_register_def hs outstanding_def sample_silver_holdings msum_def)
  then have "asset_entry sample_silver_view sample_silver"
    by (simp add: asset_entry_def) (simp add: sample_silver_def asset_register_def capped_def u128_max_def)
  moreover have "v_asset sample_silver_view r = (if r = AssetRef ''silver'' then Some sample_silver else None)" for r
    by (simp add: sample_silver_view_def empty_view_def)
  moreover have "asset_ref_of sample_silver = AssetRef ''silver''" by (simp add: sample_silver_def asset_register_def)
  ultimately show ?thesis using sample_silver_holdings(2) by (intro asset_ledgerI) (auto split: if_splits)
qed

theorem transfer_issuer_miscounts_holders_witness:
  "\<exists>w a'. transfer_issuer (\<lambda>a. Some ''key'') sample_silver_view
      \<lparr> act_sender = Address ''iss'', act_nonce = 0, act_signature = None, act_payload = () \<rparr>
      (AssetRef ''silver'') (Address ''bob'') = Ok w \<and>
     v_asset (absorb_updates sample_silver_view w) (AssetRef ''silver'') = Some a' \<and> holder_count a' = 2 \<and>
     card {owner \<in> holders (absorb_updates sample_silver_view w) (AssetRef ''silver''). owner \<noteq> issuer a'} = 1"
proof -
  let ?act = "\<lparr> act_sender = Address ''iss'', act_nonce = 0, act_signature = None, act_payload = () \<rparr> :: unit action"
  let ?w = "write_asset (sample_silver\<lparr> issuer := Address ''bob'' \<rparr>)"
  have a: "v_asset sample_silver_view (AssetRef ''silver'') = Some sample_silver" by (simp add: sample_silver_view_def)
  have i: "issuer sample_silver = Address ''iss''" "asset_class sample_silver \<noteq> Token" "holder_count sample_silver = 2"
    by (simp_all add: sample_silver_def asset_register_def)
  have w: "transfer_issuer (\<lambda>a. Some ''key'') sample_silver_view ?act (AssetRef ''silver'') (Address ''bob'') = Ok ?w"
    by (simp add: transfer_issuer_def require_issuer_def resolve_asset_def a i)
  have b: "0 < asset_balance sample_silver_view (AssetRef ''silver'') (Address ''bob'')"
    "asset_balance sample_silver_view (AssetRef ''silver'') (issuer sample_silver) = 0"
    by (simp_all add: asset_balance_holdings sample_silver_holdings i)
  from transfer_issuer_miscounts_holders [OF sample_silver_ledger a w b] obtain a' where
    a': "v_asset (absorb_updates sample_silver_view ?w) (AssetRef ''silver'') = Some a'"
    "holder_count a' = Suc (card {owner \<in> holders (absorb_updates sample_silver_view ?w) (AssetRef ''silver''). owner \<noteq> issuer a'})"
    by blast
  moreover have "holder_count a' = 2"
    using a'(1) by (auto simp: absorb_assets sample_silver_def asset_register_def)
  ultimately show ?thesis using w by auto
qed

text \<open>
  C35: A recovery can shorten a lock although its comment says that it never does: when the lost wallet's units are
  locked without an expiry and the replacement has a lock that expires, the merged lock takes that expiry, and from
  that height on nothing of the recovered holding is locked.
\<close>

theorem recovery_ends_open_lock:
  assumes "apply_recover v a lost replacement h = Ok (a', u, states)" and "lost \<noteq> replacement"
    and "lock_expires_at (holder_state_of v a lost h) = None" and "0 < frozen_amount (holder_state_of v a lost h)"
    and "lock_expires_at (holder_state_of v a replacement h) = Some t" and "t \<le> h'"
  shows "asset_balance (apply_asset_balances v u) (asset_ref_of a) replacement =
      min u128_max (asset_balance v (asset_ref_of a) replacement + asset_balance v (asset_ref_of a) lost) \<and>
    frozen_amount (holder_state_of (apply_holder_states v states) a' replacement h') = 0"
proof -
  let ?r = "asset_ref_of a"
  from assms(1) obtain b where b: "check_recipient v a replacement (asset_balance v ?r lost) h = Ok b"
    and u: "u = bt_insert (?r, replacement) (saturating_add u128_max b (asset_balance v ?r lost)) (bt_insert (?r, lost) 0 [])"
    and a': "asset_ref_of a' = ?r"
    and st: "map_of states (?r, replacement) = Some (let rs = holder_state_of v a replacement h; ls = holder_state_of v a lost h in
       rs\<lparr> frozen_amount := saturating_add u128_max (frozen_amount rs) (frozen_amount ls),
           lock_expires_at := later (lock_expires_at rs) (lock_expires_at ls), hs_frozen := (hs_frozen rs \<or> hs_frozen ls) \<rparr>)"
    by (auto simp: apply_recover_def Let_def rwa_track_keeps)
  have "b = asset_balance v ?r replacement" using check_recipient_OkE(2) [OF b] .
  then have "asset_balance (apply_asset_balances v u) ?r replacement =
      min u128_max (asset_balance v ?r replacement + asset_balance v ?r lost)"
    by (simp add: u asset_balance_holdings holdings_insert saturating_add_def)
  moreover have "frozen_amount (holder_state_of (apply_holder_states v states) a' replacement h') = 0"
  proof -
    have "v_asset_holder_state (apply_holder_states v states) (asset_ref_of a', replacement) = map_of states (?r, replacement)"
      using st by (simp add: apply_holder_states_def a')
    then show ?thesis using st assms(3,5,6) unfolding holder_state_of_def [of "apply_holder_states v states"] by (simp add: Let_def)
  qed
  ultimately show ?thesis ..
qed

theorem recovery_ends_open_lock_witness:
  "\<exists>a' u states. apply_recover sample_silver_view sample_silver (Address ''eve'') (Address ''bob'') 5 = Ok (a', u, states) \<and>
     asset_balance (apply_asset_balances sample_silver_view u) (AssetRef ''silver'') (Address ''bob'') = 15 \<and>
     frozen_amount (holder_state_of (apply_holder_states sample_silver_view states) a' (Address ''bob'') 7) = 0"
proof -
  have hs: "holder_state_of sample_silver_view sample_silver (Address ''eve'') 5 = default_holder_state\<lparr> frozen_amount := 10 \<rparr>"
    "holder_state_of sample_silver_view sample_silver (Address ''bob'') 5 =
       default_holder_state\<lparr> frozen_amount := 1, lock_expires_at := Some 7 \<rparr>"
    by (simp_all add: holder_state_of_def sample_silver_view_def sample_silver_def asset_register_def default_holder_state_def Let_def)
  have "check_party sample_silver_view sample_silver (Address ''bob'') 5 = Ok ()"
    unfolding check_party_def Let_def hs
    by (simp add: sample_silver_def asset_register_def default_holder_state_def check_claims_def check_age_def check_jurisdiction_def)
  then have "check_recipient sample_silver_view sample_silver (Address ''bob'')
      (asset_balance sample_silver_view (AssetRef ''silver'') (Address ''eve'')) 5 = Ok 5"
    by (simp add: check_recipient_def Let_def sample_silver_def asset_register_def asset_balance_holdings sample_silver_holdings)
  then have "\<exists>a' u states. apply_recover sample_silver_view sample_silver (Address ''eve'') (Address ''bob'') 5 = Ok (a', u, states)"
    by (simp add: apply_recover_def Let_def sample_silver_def asset_register_def)
  then obtain a' u states where *: "apply_recover sample_silver_view sample_silver (Address ''eve'') (Address ''bob'') 5 = Ok (a', u, states)"
    by blast
  have r: "asset_ref_of sample_silver = AssetRef ''silver''" by (simp add: sample_silver_def asset_register_def)
  have b: "asset_balance sample_silver_view (AssetRef ''silver'') (Address ''bob'') = 5"
    "asset_balance sample_silver_view (AssetRef ''silver'') (Address ''eve'') = 10"
    by (simp_all add: asset_balance_holdings sample_silver_holdings)
  from recovery_ends_open_lock [OF *, of 7 7] * show ?thesis by (auto simp: hs b r default_holder_state_def u128_max_def)
qed

end
