(* ===== verification/Multisig.thy ===== *)
theory Multisig
  imports Evidence
begin

text \<open>
  Action signatures (\<^verbatim>\<open>src/core/primitives/src/action.rs\<close>): a single Ed25519 key, or a threshold of the members
  an address commits to. Bytes are characters, a byte string a \<open>string\<close>.

  The crates the source calls are the fields of \<open>crypto\<close>: SHA-256, hex, bech32 (decoding gives the
  human-readable part in lower case, as the crate compares it), Ed25519 (\<open>from_bytes\<close> followed by \<open>verify_strict\<close>;
  key decoding; \<open>is_weak\<close>) and the bincode encoding of what an action's signature covers. Addresses and asset
  references (\<^verbatim>\<open>address.rs\<close>, \<^verbatim>\<open>asset_ref.rs\<close>) are bech32 renderings of the bytes they stand for.
\<close>

section \<open>Addresses and asset references\<close>

record 'p crypto =
  cr_sha256 :: "string \<Rightarrow> string"
  cr_hex_encode :: "string \<Rightarrow> string"
  cr_hex_decode :: "string \<Rightarrow> string option"
  cr_bech32_encode :: "string \<Rightarrow> string \<Rightarrow> string option"
  cr_bech32_decode :: "string \<Rightarrow> (string \<times> string) option"
  cr_ed_verify :: "pubkey \<Rightarrow> string \<Rightarrow> string \<Rightarrow> bool"
  cr_ed_key :: "pubkey \<Rightarrow> bool"
  cr_ed_weak :: "pubkey \<Rightarrow> bool"
  cr_encode_signing :: "string \<Rightarrow> address \<Rightarrow> nat \<Rightarrow> 'p \<Rightarrow> string"

datatype address_error = MissingPrefix | InvalidEncoding | RefWrongLength nat

definition ADDRESS_HRP :: string where "ADDRESS_HRP = ''arx''"
definition ASSET_HRP :: string where "ASSET_HRP = ''arxasset''"
definition ASSET_DOMAIN :: string where "ASSET_DOMAIN = ''arxium/asset/v1''"

definition addr_from_pubkey_bytes :: "'p crypto \<Rightarrow> string \<Rightarrow> (address_error, address) result" where
  "addr_from_pubkey_bytes cr bytes =
    and_then (ok_or InvalidEncoding (cr_bech32_encode cr ADDRESS_HRP bytes)) (\<lambda>encoded. Ok (Address encoded))"

definition addr_parse :: "'p crypto \<Rightarrow> string \<Rightarrow> (address_error, address) result" where
  "addr_parse cr s =
    and_then (ok_or InvalidEncoding (cr_bech32_decode cr s)) (\<lambda>(hrp, data).
    if hrp \<noteq> ADDRESS_HRP then Err MissingPrefix else Ok (Address s))"

definition addr_pubkey_bytes :: "'p crypto \<Rightarrow> address \<Rightarrow> (address_error, string) result" where
  "addr_pubkey_bytes cr a =
    and_then (ok_or InvalidEncoding (cr_bech32_decode cr (addr_str a))) (\<lambda>(hrp, data).
    if hrp \<noteq> ADDRESS_HRP then Err MissingPrefix else Ok data)"

text \<open>The two \<open>expect\<close>s of the source are panics.\<close>

definition ref_from_bytes :: "'p crypto \<Rightarrow> string \<Rightarrow> (address_error, asset_ref) result" where
  "ref_from_bytes cr bytes =
    (case cr_bech32_encode cr ASSET_HRP bytes of Some s \<Rightarrow> Ok (AssetRef s) | None \<Rightarrow> Panic)"

definition ref_derive :: "'p crypto \<Rightarrow> address \<Rightarrow> string \<Rightarrow> (address_error, asset_ref) result" where
  "ref_derive cr iss aid =
    and_then (addr_pubkey_bytes cr iss) (\<lambda>key.
    ref_from_bytes cr (cr_sha256 cr (ASSET_DOMAIN @ key @ [char_of (0 :: nat)] @ aid)))"

definition ref_parse :: "'p crypto \<Rightarrow> string \<Rightarrow> (address_error, asset_ref) result" where
  "ref_parse cr s =
    and_then (ok_or InvalidEncoding (cr_bech32_decode cr s)) (\<lambda>(hrp, data).
    if hrp \<noteq> ASSET_HRP then Err MissingPrefix
    else if length data \<noteq> 32 then Err (RefWrongLength (length data))
    else Ok (AssetRef s))"

definition ref_bytes :: "'p crypto \<Rightarrow> asset_ref \<Rightarrow> (address_error, string) result" where
  "ref_bytes cr r =
    (case cr_bech32_decode cr (ref_str r) of
       Some (hrp, data) \<Rightarrow> if length data = 32 then Ok data else Panic
     | None \<Rightarrow> Panic)"

section \<open>Signatures\<close>

definition MULTISIG_TAG :: nat where "MULTISIG_TAG = 1"
definition MAX_MULTISIG_MEMBERS :: nat where "MAX_MULTISIG_MEMBERS = 16"
definition MULTISIG_DOMAIN :: string where "MULTISIG_DOMAIN = ''arxium-multisig-v1''"

abbreviation byte :: "nat \<Rightarrow> char" where
  "byte n \<equiv> char_of n"

definition signing_bytes :: "'p crypto \<Rightarrow> string \<Rightarrow> 'p action \<Rightarrow> string" where
  "signing_bytes cr genesis act = cr_encode_signing cr genesis (act_sender act) (act_nonce act) (act_payload act)"

definition verify_one :: "'p crypto \<Rightarrow> string \<Rightarrow> string \<Rightarrow> string \<Rightarrow> (signature_error, unit) result" where
  "verify_one cr key sig message =
    (if length sig \<noteq> 64 then Err (WrongLength (length sig))
     else if length key \<noteq> 32 then Err (WrongLength (length key))
     else ensure (cr_ed_verify cr key message sig) Invalid)"

text \<open>\<open>windows(2).any(w[0] >= w[1])\<close>, negated.\<close>

fun ascending :: "'a::linorder list \<Rightarrow> bool" where
  "ascending (x # y # zs) \<longleftrightarrow> x < y \<and> ascending (y # zs)"
| "ascending _ \<longleftrightarrow> True"

definition policy_hash :: "'p crypto \<Rightarrow> nat \<Rightarrow> pubkey list \<Rightarrow> (signature_error, string) result" where
  "policy_hash cr thr ms =
    (if ms = [] \<or> MAX_MULTISIG_MEMBERS < length ms then Err (BadMultisig ''member count must be 1..=16'')
     else if thr = 0 \<or> length ms < thr then Err (BadMultisig ''threshold must be 1..=members'')
     else if \<not> ascending ms then Err (BadMultisig ''members must be unique and ascending'')
     else Ok (cr_sha256 cr (MULTISIG_DOMAIN @ [byte thr, byte (length ms)] @ concat ms)))"

definition multisig_address :: "'p crypto \<Rightarrow> nat \<Rightarrow> pubkey list \<Rightarrow> (signature_error, address) result" where
  "multisig_address cr thr ms =
    and_then (policy_hash cr thr (sort ms)) (\<lambda>hash.
    map_err (\<lambda>_. BadPubkey) (addr_from_pubkey_bytes cr (byte MULTISIG_TAG # hash)))"

fun position :: "('a \<Rightarrow> bool) \<Rightarrow> 'a list \<Rightarrow> nat option" where
  "position P [] = None"
| "position P (x # xs) = (if P x then Some 0 else map_option Suc (position P xs))"

fun index_signatures ::
  "pubkey list \<Rightarrow> (pubkey \<times> string) list \<Rightarrow> (signature_error, (nat \<times> string) list) result" where
  "index_signatures ms [] = Ok []"
| "index_signatures ms ((pk, sig) # sigs) =
    and_then (ok_or (BadMultisig ''signer is not a member'') (position (\<lambda>m. m = pk) ms)) (\<lambda>i.
    and_then (index_signatures ms sigs) (\<lambda>rest. Ok ((i mod 256, sig) # rest)))"

text \<open>
  The sort is unstable and by index; the indices of distinct signers are distinct, and for those the stable
  sort gives the same list.
\<close>

definition multisig_signature ::
  "'p crypto \<Rightarrow> nat \<Rightarrow> pubkey list \<Rightarrow> (pubkey \<times> string) list \<Rightarrow> (signature_error, string) result" where
  "multisig_signature cr thr ms signatures =
    (let ms = sort ms in
     and_then (policy_hash cr thr ms) (\<lambda>_.
     and_then (index_signatures ms signatures) (\<lambda>indexed.
     Ok (cr_hex_encode cr ([byte thr, byte (length ms)] @ concat ms @
          concat (map (\<lambda>(i, sig). byte i # sig) (sort_key fst indexed)))))))"

function chunks_exact :: "nat \<Rightarrow> string \<Rightarrow> string list" where
  "chunks_exact k xs = (if k = 0 \<or> length xs < k then [] else take k xs # chunks_exact k (drop k xs))"
  by pat_completeness auto
termination by (relation "measure (\<lambda>(k, xs). length xs)") auto

declare chunks_exact.simps [simp del]

fun check_signers ::
  "'p crypto \<Rightarrow> pubkey list \<Rightarrow> string \<Rightarrow> nat option \<Rightarrow> string list \<Rightarrow> (signature_error, unit) result" where
  "check_signers cr ms message prev [] = Ok ()"
| "check_signers cr ms message prev (entry # rest) =
    (let i = of_char (hd entry) in
     if length ms \<le> i \<or> (case prev of Some l \<Rightarrow> i \<le> l | None \<Rightarrow> False)
     then Err (BadMultisig ''signer indices must be ascending members'')
     else and_then (verify_one cr (ms ! i) (tl entry) message) (\<lambda>_. check_signers cr ms message (Some i) rest))"

fun verify_multisig :: "'p crypto \<Rightarrow> string \<Rightarrow> string \<Rightarrow> string \<Rightarrow> (signature_error, unit) result" where
  "verify_multisig cr pol (th # nb # rest) message =
    (let t = of_char th; n = of_char nb in
     if length rest \<noteq> 32 * n + 65 * t then Err (BadMultisig ''witness length does not match its policy'')
     else
      (let ms = chunks_exact 32 (take (32 * n) rest) in
       and_then (policy_hash cr t ms) (\<lambda>hash.
       if hash \<noteq> pol then Err (BadMultisig ''policy does not match sender address'')
       else check_signers cr ms message None (chunks_exact 65 (drop (32 * n) rest)))))"
| "verify_multisig cr pol _ message = Err (BadMultisig ''witness too short'')"

definition verify_signature :: "'p crypto \<Rightarrow> string \<Rightarrow> 'p action \<Rightarrow> (signature_error, unit) result" where
  "verify_signature cr genesis act =
    and_then (ok_or Missing (act_signature act)) (\<lambda>sig_hex.
    and_then (ok_or InvalidHex (cr_hex_decode cr sig_hex)) (\<lambda>sig_bytes.
    and_then (map_err (\<lambda>_. BadPubkey) (addr_pubkey_bytes cr (act_sender act))) (\<lambda>sender_bytes.
    if length sender_bytes = 33 \<and> of_char (hd sender_bytes) = MULTISIG_TAG
    then verify_multisig cr (tl sender_bytes) sig_bytes (signing_bytes cr genesis act)
    else verify_one cr sender_bytes sig_bytes (signing_bytes cr genesis act))))"

section \<open>Witnesses\<close>

lemma chunks_exact_concat:
  "0 < k \<Longrightarrow> \<forall>x\<in>set xs. length x = k \<Longrightarrow> chunks_exact k (concat xs) = xs"
proof (induction xs)
  case Nil
  then show ?case by (simp add: chunks_exact.simps)
next
  case (Cons x xs)
  then show ?case by (subst chunks_exact.simps) simp
qed

lemma chunks_exact_parts:
  "0 < k \<Longrightarrow> length xs = k * n \<Longrightarrow>
   concat (chunks_exact k xs) = xs \<and> length (chunks_exact k xs) = n \<and> (\<forall>c\<in>set (chunks_exact k xs). length c = k)"
proof (induction n arbitrary: xs)
  case 0
  then show ?case by (simp add: chunks_exact.simps)
next
  case (Suc n)
  from Suc.IH [of "drop k xs"] Suc.prems show ?case by (subst (1 2 3) chunks_exact.simps) simp
qed

lemma concat_same_length_inj:
  "concat xs = concat ys \<Longrightarrow> length xs = length ys \<Longrightarrow> \<forall>x\<in>set xs. length x = k \<Longrightarrow> \<forall>y\<in>set ys. length y = k \<Longrightarrow> xs = ys"
proof (induction xs ys rule: list_induct2')
  case (4 x xs y ys)
  then have "length x = length y" by simp
  with 4 show ?case by (simp add: append_eq_append_conv)
qed simp_all

lemma ascending_iff: "ascending xs \<longleftrightarrow> sorted_wrt (<) (xs :: 'a::linorder list)"
proof (induction xs rule: ascending.induct)
  case (1 x y zs)
  then show ?case by (auto intro: less_trans)
qed simp_all

lemma length_concat_const: "\<forall>x\<in>set xs. length x = k \<Longrightarrow> length (concat xs) = k * length xs"
  by (induction xs) simp_all

definition signer :: "string \<Rightarrow> nat" where
  "signer entry = of_char (hd entry)"

lemma check_signers_Ok_iff:
  "check_signers cr ms message prev es = Ok () \<longleftrightarrow>
   sorted_wrt (<) (map signer es) \<and> (\<forall>e\<in>set es. signer e < length ms \<and> (\<forall>l. prev = Some l \<longrightarrow> l < signer e) \<and>
     verify_one cr (ms ! signer e) (tl e) message = Ok ())"
proof (induction es arbitrary: prev)
  case (Cons e es)
  show ?case
    by (cases prev) (auto simp: Let_def signer_def [symmetric] Cons.IH not_le)
qed simp

lemma policy_hash_OkE:
  assumes "policy_hash cr thr ms = Ok pol"
  shows "ms \<noteq> []" "length ms \<le> 16" "0 < thr" "thr \<le> length ms" "ascending ms"
    "pol = cr_sha256 cr (MULTISIG_DOMAIN @ [byte thr, byte (length ms)] @ concat ms)"
  using assms by (auto simp: policy_hash_def MAX_MULTISIG_MEMBERS_def split: if_splits)

lemma byte_inj: "m < 256 \<Longrightarrow> n < 256 \<Longrightarrow> byte m = byte n \<longleftrightarrow> m = n"
  by (metis mod_less of_char_of)

text \<open>Two policies with the same hash are the same policy.\<close>

lemma policy_hash_inj:
  assumes "inj (cr_sha256 cr)" "policy_hash cr t ms = Ok pol" "policy_hash cr t' ms' = Ok pol"
    and "\<forall>k\<in>set ms. length k = 32" "\<forall>k\<in>set ms'. length k = 32"
  shows "t' = t \<and> ms' = ms"
proof -
  note p = policy_hash_OkE [OF assms(2)] and q = policy_hash_OkE [OF assms(3)]
  have "cr_sha256 cr (MULTISIG_DOMAIN @ [byte t, byte (length ms)] @ concat ms) =
      cr_sha256 cr (MULTISIG_DOMAIN @ [byte t', byte (length ms')] @ concat ms')" using p(6) q(6) by (rule subst)
  from injD [OF assms(1) this] have *: "byte t = byte t'" "byte (length ms) = byte (length ms')" "concat ms = concat ms'"
    by (simp_all del: char_of_eq_iff)
  have "t = t'" "length ms = length ms'" using *(1,2) p(2,4) q(2,4) byte_inj [of t t'] byte_inj [of "length ms" "length ms'"] by simp_all
  then show ?thesis using concat_same_length_inj [of ms ms' 32] assms(4,5) *(3) by simp
qed

text \<open>What a witness that verifies consists of.\<close>

lemma verify_multisig_OkE:
  assumes "verify_multisig cr pol w message = Ok ()"
  obtains t ms es where "w = [byte t, byte (length ms)] @ concat ms @ concat es" "policy_hash cr t ms = Ok pol"
    "length es = t" "\<forall>k\<in>set ms. length k = 32" "\<forall>e\<in>set es. length e = 65"
    "check_signers cr ms message None es = Ok ()"
proof -
  from assms obtain th nb rest where w: "w = th # nb # rest"
    by (cases "(cr, pol, w, message)" rule: verify_multisig.cases) auto
  define t n ms es where d: "t = (of_char th :: nat)" "n = (of_char nb :: nat)"
    "ms = chunks_exact 32 (take (32 * n) rest)" "es = chunks_exact 65 (drop (32 * n) rest)"
  from assms have l: "length rest = 32 * n + 65 * t" and h: "policy_hash cr t ms = Ok pol"
    and c: "check_signers cr ms message None es = Ok ()"
    by (auto simp: w d Let_def split: if_splits)
  have m: "concat ms = take (32 * n) rest" "length ms = n" "\<forall>k\<in>set ms. length k = 32"
    using chunks_exact_parts [of 32 "take (32 * n) rest" n] l by (auto simp: d)
  have e: "concat es = drop (32 * n) rest" "length es = t" "\<forall>k\<in>set es. length k = 65"
    using chunks_exact_parts [of 65 "drop (32 * n) rest" t] l by (auto simp: d)
  have "w = [byte t, byte (length ms)] @ concat ms @ concat es" using m e by (simp add: w d(1,2))
  with that h c m e show thesis by blast
qed

lemma verify_multisigI:
  assumes "policy_hash cr t ms = Ok pol" "length es = t" "\<forall>k\<in>set ms. length k = 32" "\<forall>e\<in>set es. length e = 65"
    "check_signers cr ms message None es = Ok ()"
  shows "verify_multisig cr pol ([byte t, byte (length ms)] @ concat ms @ concat es) message = Ok ()"
proof -
  note p = policy_hash_OkE [OF assms(1)]
  have n: "t mod 256 = t" "length ms mod 256 = length ms" using p(2,4) by simp_all
  have l: "length (concat ms) = 32 * length ms" "length (concat es) = 65 * t"
    using assms(2) length_concat_const [OF assms(3)] length_concat_const [OF assms(4)] by simp_all
  show ?thesis
    using assms l chunks_exact_concat [of 32 ms] chunks_exact_concat [of 65 es] by (simp add: n Let_def)
qed

lemma position_member: "pk \<in> set ms \<Longrightarrow> \<exists>i. position (\<lambda>m. m = pk) ms = Some i \<and> i < length ms \<and> ms ! i = pk"
  by (induction ms) auto

definition index_of :: "pubkey list \<Rightarrow> pubkey \<Rightarrow> nat" where
  "index_of ms pk = the (position (\<lambda>m. m = pk) ms)"

lemma index_of_nth: "pk \<in> set ms \<Longrightarrow> index_of ms pk < length ms \<and> ms ! index_of ms pk = pk"
  using position_member [of pk ms] by (auto simp: index_of_def)

lemma index_of_inj: "pk \<in> set ms \<Longrightarrow> pk' \<in> set ms \<Longrightarrow> index_of ms pk = index_of ms pk' \<longleftrightarrow> pk = pk'"
  using index_of_nth [of pk ms] index_of_nth [of pk' ms] by metis

lemma index_signatures_eq:
  "\<forall>x\<in>set sigs. fst x \<in> set ms \<Longrightarrow> length ms \<le> 16 \<Longrightarrow>
   index_signatures ms sigs = Ok (map (\<lambda>x. (index_of ms (fst x), snd x)) sigs)"
proof (induction sigs)
  case (Cons x sigs)
  obtain pk sig where x: "x = (pk, sig)" by (cases x)
  then have "pk \<in> set ms" using Cons.prems(1) by simp
  from position_member [OF this] obtain i where i: "position (\<lambda>m. m = pk) ms = Some i" "i < length ms" by auto
  have m: "index_of ms pk = i" using i(1) by (simp add: index_of_def)
  have "i < 256" using i(2) Cons.prems(2) by linarith
  have "index_signatures ms sigs = Ok (map (\<lambda>x. (index_of ms (fst x), snd x)) sigs)"
    by (rule Cons.IH) (use Cons.prems in simp_all)
  with \<open>i < 256\<close> show ?case by (simp add: x i(1) m)
qed simp

lemma sort_key_strict: "distinct (map f xs) \<Longrightarrow> sorted_wrt (<) (map f (sort_key f xs) :: nat list)"
proof -
  assume "distinct (map f xs)"
  then have "distinct (map f (sort_key f xs))" by (simp add: distinct_map)
  then show ?thesis using sorted_sort_key [of f xs] by (simp add: strict_sorted_iff)
qed

text \<open>The witness of a threshold of distinct members verifies.\<close>

lemma witness_verifies:
  assumes "policy_hash cr thr (sort ms) = Ok pol" and "\<forall>k\<in>set ms. length k = 32"
    and "length sigs = thr" and "distinct (map fst sigs)"
    and signs: "\<forall>x\<in>set sigs. fst x \<in> set ms \<and> length (snd x) = 64 \<and> cr_ed_verify cr (fst x) message (snd x)"
  shows "\<exists>w. multisig_signature cr thr ms sigs = Ok (cr_hex_encode cr w) \<and> verify_multisig cr pol w message = Ok ()"
proof -
  let ?ms = "sort ms"
  define ix where "ix = map (\<lambda>x. (index_of ?ms (fst x), snd x)) sigs"
  define es where "es = map (\<lambda>(i, sig). byte i # sig) (sort_key fst ix)"
  note p = policy_hash_OkE [OF assms(1)]
  have "index_signatures ?ms sigs = Ok ix" unfolding ix_def by (rule index_signatures_eq) (use signs p(2) in auto)
  then have w: "multisig_signature cr thr ms sigs =
      Ok (cr_hex_encode cr ([byte thr, byte (length ?ms)] @ concat ?ms @ concat es))"
    using assms(1) by (simp add: multisig_signature_def Let_def es_def)
  have mem: "i < length ?ms \<and> length sig = 64 \<and> cr_ed_verify cr (?ms ! i) message sig" if "(i, sig) \<in> set ix" for i sig
    using that signs index_of_nth [of _ ?ms] by (auto simp: ix_def)
  have "distinct (map fst ix)"
    using assms(4) signs index_of_inj [of _ ?ms] by (auto simp: ix_def distinct_map inj_on_def)
  then have srt: "sorted_wrt (<) (map fst (sort_key fst ix))" by (rule sort_key_strict)
  have idx: "signer (byte i # sig) = i" if "(i, sig) \<in> set ix" for i sig
    using mem [OF that] p(2) by (simp add: signer_def)
  have "map signer es = map fst (sort_key fst ix)" using idx by (auto simp: es_def)
  moreover have "\<forall>e\<in>set es. signer e < length ?ms \<and> verify_one cr (?ms ! signer e) (tl e) message = Ok ()"
  proof
    fix e assume "e \<in> set es"
    then obtain i sig where e: "e = byte i # sig" "(i, sig) \<in> set ix" by (auto simp: es_def)
    then have "length (?ms ! i) = 32" using mem assms(2) by (metis nth_mem set_sort)
    with e show "signer e < length ?ms \<and> verify_one cr (?ms ! signer e) (tl e) message = Ok ()"
      using mem [OF e(2)] idx [OF e(2)] by (simp add: verify_one_def)
  qed
  ultimately have "check_signers cr ?ms message None es = Ok ()" using srt by (simp add: check_signers_Ok_iff)
  moreover have "length es = thr" using assms(3) by (simp add: es_def ix_def)
  moreover have "\<forall>e\<in>set es. length e = 65" using mem by (auto simp: es_def)
  ultimately have "verify_multisig cr pol ([byte thr, byte (length ?ms)] @ concat ?ms @ concat es) message = Ok ()"
    by (intro verify_multisigI [OF assms(1)]) (use assms(2) in simp_all)
  with w show ?thesis by blast
qed

text \<open>The signature entries a witness carries.\<close>

definition witness_entries :: "string \<Rightarrow> string list" where
  "witness_entries w = chunks_exact 65 (drop (2 + 32 * of_char (w ! 1)) w)"

lemma witness_entries_eq:
  assumes "w = [byte t, byte (length ms)] @ concat ms @ concat es" "policy_hash cr t ms = Ok pol"
    "\<forall>k\<in>set ms. length k = 32" "\<forall>e\<in>set es. length e = 65"
  shows "witness_entries w = es"
proof -
  have "length ms mod 256 = length ms" using policy_hash_OkE(2) [OF assms(2)] by simp
  then show ?thesis using length_concat_const [OF assms(3)] chunks_exact_concat [of 65 es] assms(1,4)
    by (simp add: witness_entries_def)
qed

lemma strict_map_unique:
  fixes f :: "'a \<Rightarrow> nat"
  assumes "sorted_wrt (<) (map f xs)" "sorted_wrt (<) (map f ys)" "set xs = set ys"
  shows "xs = ys"
proof -
  have d: "sorted (map f xs)" "distinct (map f xs)" "sorted (map f ys)" "distinct (map f ys)"
    using assms(1,2) strict_sorted_iff by blast+
  have "set (map f xs) = set (map f ys)" using assms(3) by simp
  then have "map f xs = map f ys" using d sorted_distinct_set_unique by blast
  moreover have "inj_on f (set xs \<union> set ys)" using d(2) assms(3) by (simp add: distinct_map)
  ultimately show ?thesis by (rule map_inj_on)
qed

section \<open>Properties\<close>

text \<open>
  The signature that \<open>multisig_signature\<close> assembles from a threshold of distinct members' signatures over an
  action verifies on that action, whose sender is the multisig address of these members. The hypotheses on the
  crates are round trips: decoding undoes encoding, for hex and for bech32.
\<close>

theorem multisig_signature_roundtrip:
  assumes "\<forall>w. cr_hex_decode cr (cr_hex_encode cr w) = Some w"
    and "\<forall>h b s. cr_bech32_encode cr h b = Some s \<longrightarrow> cr_bech32_decode cr s = Some (h, b)"
    and "\<forall>x. length (cr_sha256 cr x) = 32"
    and "multisig_address cr thr ms = Ok (act_sender act)" and "\<forall>k\<in>set ms. length k = 32"
    and "length sigs = thr" and "distinct (map fst sigs)"
    and "\<forall>x\<in>set sigs. fst x \<in> set ms \<and> length (snd x) = 64 \<and>
           cr_ed_verify cr (fst x) (signing_bytes cr genesis act) (snd x)"
  shows "\<exists>sg. multisig_signature cr thr ms sigs = Ok sg \<and>
           verify_signature cr genesis (act\<lparr> act_signature := Some sg \<rparr>) = Ok ()"
proof -
  from assms(4) obtain pol s where pol: "policy_hash cr thr (sort ms) = Ok pol"
    and enc: "cr_bech32_encode cr ADDRESS_HRP (byte MULTISIG_TAG # pol) = Some s" and snd: "Address s = act_sender act"
    by (auto simp: multisig_address_def addr_from_pubkey_bytes_def)
  have adr: "addr_str (act_sender act) = s" using snd [symmetric] by simp
  from witness_verifies [OF pol assms(5-8)] obtain w where
    w: "multisig_signature cr thr ms sigs = Ok (cr_hex_encode cr w)"
       "verify_multisig cr pol w (signing_bytes cr genesis act) = Ok ()" by blast
  have "cr_bech32_decode cr (addr_str (act_sender act)) = Some (ADDRESS_HRP, byte MULTISIG_TAG # pol)" using enc assms(2) adr by simp
  moreover have "length pol = 32" using policy_hash_OkE(6) [OF pol] assms(3) by simp
  ultimately have "verify_signature cr genesis (act\<lparr> act_signature := Some (cr_hex_encode cr w) \<rparr>) = Ok ()"
    using w(2) assms(1) by (simp add: verify_signature_def signing_bytes_def addr_pubkey_bytes_def MULTISIG_TAG_def)
  with w(1) show ?thesis by blast
qed

definition sample_crypto :: "(string \<Rightarrow> string) \<Rightarrow> nat crypto" where
  "sample_crypto sha =
    \<lparr> cr_sha256 = sha, cr_hex_encode = (\<lambda>w. w), cr_hex_decode = Some, cr_bech32_encode = (\<lambda>h b. if CHR ''1'' \<in> set h then None else Some (h @ CHR ''1'' # b)),
      cr_bech32_decode = (\<lambda>s. let h = takeWhile (\<lambda>c. c \<noteq> CHR ''1'') s in Some (h, drop (Suc (length h)) s)), cr_ed_verify = (\<lambda>k m sg. sg = replicate 64 (hd k)),
      cr_ed_key = (\<lambda>k. True), cr_ed_weak = (\<lambda>k. False), cr_encode_signing = (\<lambda>g a n p. g) \<rparr>"

definition sample_member :: "char \<Rightarrow> pubkey" where
  "sample_member c = replicate 32 c"

definition sample_members :: "pubkey list" where
  "sample_members = [sample_member CHR ''c'', sample_member CHR ''a'', sample_member CHR ''b'']"

definition sample_signatures :: "(pubkey \<times> string) list" where
  "sample_signatures =
    [(sample_member CHR ''c'', replicate 64 CHR ''c''), (sample_member CHR ''a'', replicate 64 CHR ''a'')]"

lemma sample_member_simps [simp]:
  "length (sample_member c) = 32" "hd (sample_member c) = c" "sample_member c = sample_member d \<longleftrightarrow> c = d"
  "sample_member c \<le> sample_member d \<longleftrightarrow> c \<le> d" "sample_member c < sample_member d \<longleftrightarrow> c < d"
  by (auto simp: sample_member_def numeral_eq_Suc)

lemma sample_bech32:
  "cr_bech32_encode (sample_crypto sha) h b = Some s \<Longrightarrow> cr_bech32_decode (sample_crypto sha) s = Some (h, b)"
proof -
  assume "cr_bech32_encode (sample_crypto sha) h b = Some s"
  then have s: "s = h @ CHR ''1'' # b" and h: "CHR ''1'' \<notin> set h" by (auto simp: sample_crypto_def split: if_splits)
  have "takeWhile (\<lambda>c. c \<noteq> CHR ''1'') (h @ CHR ''1'' # b) = h" using h by (induction h) auto
  then show ?thesis by (simp add: s sample_crypto_def)
qed

lemma sample_sorted: "sort sample_members = [sample_member CHR ''a'', sample_member CHR ''b'', sample_member CHR ''c'']"
  by (simp add: sample_members_def)

lemma sample_policy:
  "policy_hash (sample_crypto sha) 2 ([sample_member CHR ''a'', sample_member CHR ''b'', sample_member CHR ''c'']) =
   Ok (sha (MULTISIG_DOMAIN @ [byte 2, byte 3] @ concat ([sample_member CHR ''a'', sample_member CHR ''b'', sample_member CHR ''c''])))"
  by (simp add: policy_hash_def sample_crypto_def MAX_MULTISIG_MEMBERS_def numeral_3_eq_3)

theorem multisig_signature_roundtrip_witness:
  "\<exists>sg act. multisig_signature (sample_crypto (\<lambda>x. replicate 32 CHR ''h'')) 2 sample_members sample_signatures = Ok sg \<and>
     verify_signature (sample_crypto (\<lambda>x. replicate 32 CHR ''h'')) ''genesis'' (act\<lparr> act_signature := Some sg \<rparr>) = Ok ()"
proof -
  let ?cr = "sample_crypto (\<lambda>x. replicate 32 CHR ''h'')"
  let ?act = "\<lparr> act_sender = Address (''arx1'' @ byte 1 # replicate 32 CHR ''h''), act_nonce = 0, act_signature = None, act_payload = 0 \<rparr> :: nat action"
  have "multisig_address ?cr 2 sample_members = Ok (act_sender ?act)"
    by (simp add: multisig_address_def sample_sorted sample_policy) (simp add: sample_crypto_def addr_from_pubkey_bytes_def ADDRESS_HRP_def MULTISIG_TAG_def)
  with multisig_signature_roundtrip [of ?cr 2 sample_members ?act sample_signatures "''genesis''"]
  have "\<exists>sg. multisig_signature ?cr 2 sample_members sample_signatures = Ok sg \<and>
      verify_signature ?cr ''genesis'' (?act\<lparr> act_signature := Some sg \<rparr>) = Ok ()"
    by (simp add: sample_bech32) (simp add: sample_crypto_def sample_members_def sample_signatures_def)
  then show ?thesis by blast
qed

text \<open>
  C32: A witness that verifies against a policy carries valid signatures of at least as many distinct members of
  that policy as its threshold, whatever bytes the sender supplied; SHA-256 is taken to have no collision.
\<close>

theorem multisig_needs_threshold:
  assumes "inj (cr_sha256 cr)" and "policy_hash cr thr ms = Ok pol" and "\<forall>k\<in>set ms. length k = 32"
    and "verify_multisig cr pol w message = Ok ()"
  shows "\<exists>S \<subseteq> set ms. card S = thr \<and> (\<forall>k\<in>S. \<exists>sig. length sig = 64 \<and> cr_ed_verify cr k message sig)"
  using assms(4)
proof (cases rule: verify_multisig_OkE)
  case (1 t ms' es)
  have same: "t = thr" "ms' = ms" using policy_hash_inj [OF assms(1,2) 1(2) assms(3) 1(4)] by simp_all
  note c = 1(6) [unfolded check_signers_Ok_iff same]
  have asc: "sorted_wrt (<) ms" using policy_hash_OkE(5) [OF assms(2)] by (simp add: ascending_iff)
  let ?S = "(\<lambda>e. ms ! signer e) ` set es"
  have d: "distinct (map signer es)" using c strict_sorted_iff by blast
  have "distinct ms" using asc strict_sorted_iff by blast
  then have "inj_on (\<lambda>e. ms ! signer e) (set es)"
    using c d by (auto simp: inj_on_def distinct_map nth_eq_iff_index_eq)
  then have "card ?S = card (set es)" by (rule card_image)
  also have "card (set es) = thr" using d 1(3) same(1) by (simp add: distinct_map distinct_card)
  finally have "card ?S = thr" .
  moreover have "\<forall>k\<in>?S. \<exists>sig. length sig = 64 \<and> cr_ed_verify cr k message sig"
  proof
    fix k assume "k \<in> ?S"
    then obtain e where "e \<in> set es" "k = ms ! signer e" by blast
    with c show "\<exists>sig. length sig = 64 \<and> cr_ed_verify cr k message sig"
      by (intro exI [of _ "tl e"]) (auto simp: verify_one_def split: if_splits)
  qed
  moreover have "?S \<subseteq> set ms" using c by auto
  ultimately show ?thesis by blast
qed

lemma sample_witness:
  "\<exists>w pol. policy_hash (sample_crypto (\<lambda>x. x)) 2 (sort sample_members) = Ok pol \<and>
     verify_multisig (sample_crypto (\<lambda>x. x)) pol w message = Ok ()"
proof -
  obtain pol where pol: "policy_hash (sample_crypto (\<lambda>x. x)) 2 (sort sample_members) = Ok pol"
    by (simp add: sample_sorted sample_policy)
  from witness_verifies [OF pol, of sample_signatures message] pol show ?thesis
    by (auto simp: sample_crypto_def sample_members_def sample_signatures_def)
qed

theorem multisig_needs_threshold_witness:
  "\<exists>w pol S. verify_multisig (sample_crypto (\<lambda>x. x)) pol w ''m'' = Ok () \<and> S \<subseteq> set (sort sample_members) \<and> card S = 2"
proof -
  obtain w pol where w: "policy_hash (sample_crypto (\<lambda>x. x)) 2 (sort sample_members) = Ok pol"
    "verify_multisig (sample_crypto (\<lambda>x. x)) pol w ''m'' = Ok ()" using sample_witness by blast
  have "inj (cr_sha256 (sample_crypto (\<lambda>x. x)))" by (simp add: sample_crypto_def)
  from multisig_needs_threshold [OF this w(1) _ w(2)] w(2) show ?thesis by (auto simp: sample_members_def)
qed

text \<open>
  A witness cannot be padded or reordered into a second one: two witnesses that verify against the same
  policy and carry the same signatures of the same members are the same bytes.
\<close>

theorem multisig_witness_unique:
  assumes "inj (cr_sha256 cr)"
    and "verify_multisig cr pol w message = Ok ()" and "verify_multisig cr pol w' message' = Ok ()"
    and "set (witness_entries w) = set (witness_entries w')"
  shows "w = w'"
proof -
  from assms(2) obtain t ms es where a: "w = [byte t, byte (length ms)] @ concat ms @ concat es"
    "policy_hash cr t ms = Ok pol" "\<forall>k\<in>set ms. length k = 32" "\<forall>e\<in>set es. length e = 65"
    "check_signers cr ms message None es = Ok ()" by (rule verify_multisig_OkE)
  from assms(3) obtain t' ms' es' where b: "w' = [byte t', byte (length ms')] @ concat ms' @ concat es'"
    "policy_hash cr t' ms' = Ok pol" "\<forall>k\<in>set ms'. length k = 32" "\<forall>e\<in>set es'. length e = 65"
    "check_signers cr ms' message' None es' = Ok ()" by (rule verify_multisig_OkE)
  have same: "t' = t" "ms' = ms" using policy_hash_inj [OF assms(1) a(2) b(2) a(3) b(3)] by simp_all
  have "set es = set es'"
    using assms(4) witness_entries_eq [OF a(1-4)] witness_entries_eq [OF b(1-4)] by simp
  then have "es = es'" using a(5) b(5) by (intro strict_map_unique [of signer]) (simp_all add: check_signers_Ok_iff)
  then show ?thesis using a(1) b(1) same by simp
qed

theorem multisig_witness_unique_witness:
  "\<exists>w w' pol. verify_multisig (sample_crypto (\<lambda>x. x)) pol w ''m'' = Ok () \<and>
     verify_multisig (sample_crypto (\<lambda>x. x)) pol w' ''n'' = Ok () \<and> w = w'"
proof -
  obtain w pol where w: "verify_multisig (sample_crypto (\<lambda>x. x)) pol w ''m'' = Ok ()" using sample_witness by blast
  then have n: "verify_multisig (sample_crypto (\<lambda>x. x)) pol w ''n'' = Ok ()"
  proof (cases rule: verify_multisig_OkE)
    case (1 t ms es)
    show ?thesis unfolding 1(1)
      by (rule verify_multisigI [OF 1(2-5)]) (use 1(6) in \<open>simp add: check_signers_Ok_iff verify_one_def sample_crypto_def\<close>)
  qed
  have "inj (cr_sha256 (sample_crypto (\<lambda>x. x)))" by (simp add: sample_crypto_def)
  from multisig_witness_unique [OF this w n refl] w n show ?thesis by blast
qed

end
