(* ===== verification/Account_Policy.thy ===== *)
theory Account_Policy
  imports Multisig Ledger_View
begin

text \<open>
  Programmable accounts: the fixed menu of an account's policy and its validation
  (\<^verbatim>\<open>src/core/primitives/src/policy.rs\<close>), the stateful signature check (\<^verbatim>\<open>action.rs\<close>), and the circuit that
  administers a policy and enforces its spending limits (\<^verbatim>\<open>src/circuits/account/src/policy.rs\<close>). The circuit's
  functions take the account or its policy state by mutable reference and return the new one.
\<close>

section \<open>Validation\<close>

definition MAX_POLICY_RECIPIENTS :: nat where "MAX_POLICY_RECIPIENTS = 64"
definition MAX_POLICY_LIMITS :: nat where "MAX_POLICY_LIMITS = 16"
definition MAX_SESSION_KEYS :: nat where "MAX_SESSION_KEYS = 16"

datatype account_policy_action =
    SetPolicy account_policy
  | RotateMembers threshold_policy
  | AddSession session_key
  | RevokeSession pubkey
  | StartRecovery threshold_policy
  | CancelRecovery
  | ExecuteRecovery

datatype policy_authorization = Owner | Session nat | Guardian

definition validate_account_address :: "'p crypto \<Rightarrow> address \<Rightarrow> (signature_error, unit) result" where
  "validate_account_address cr a =
    (if length (addr_str a) \<noteq> 62 \<and> length (addr_str a) \<noteq> 63
     then Err (BadMultisig ''account address has invalid length'')
     else
      and_then (map_err (\<lambda>_. BadPubkey) (addr_pubkey_bytes cr a)) (\<lambda>bytes.
      if \<not> (length bytes = 32 \<or> length bytes = 33 \<and> of_char (hd bytes) = (1 :: nat))
      then Err (BadMultisig ''account address must be canonical'')
      else
       and_then (map_err (\<lambda>_. BadPubkey) (addr_from_pubkey_bytes cr bytes)) (\<lambda>b.
       if b \<noteq> a then Err (BadMultisig ''account address must be canonical'') else Ok ())))"

fun validate_keys :: "'p crypto \<Rightarrow> pubkey list \<Rightarrow> (signature_error, unit) result" where
  "validate_keys cr [] = Ok ()"
| "validate_keys cr (m # ms) =
    (if \<not> cr_ed_key cr m then Err Invalid else if cr_ed_weak cr m then Err Invalid else validate_keys cr ms)"

definition threshold_validate :: "'p crypto \<Rightarrow> threshold_policy \<Rightarrow> (signature_error, unit) result" where
  "threshold_validate cr tp =
    (if \<not> ascending (members tp) then Err (BadMultisig ''members must be unique and ascending'')
     else
      and_then (multisig_address cr (threshold tp) (members tp)) (\<lambda>_.
      validate_keys cr (members tp)))"

fun spend_asset_validate :: "'p crypto \<Rightarrow> spend_asset \<Rightarrow> (signature_error, unit) result" where
  "spend_asset_validate cr Native = Ok ()"
| "spend_asset_validate cr (SpendAsset r) =
    (if length (ref_str r) \<noteq> 67 then Err (BadMultisig ''asset ref has invalid length'')
     else
      and_then (map_err (\<lambda>_. BadMultisig ''invalid spending asset ref'') (ref_parse cr (ref_str r))) (\<lambda>parsed.
      and_then (map_err (\<lambda>_. BadPubkey) (and_then (ref_bytes cr parsed) (ref_from_bytes cr))) (\<lambda>canonical.
      if canonical \<noteq> r then Err (BadMultisig ''asset ref must be canonical'') else Ok ())))"

fun validate_limits :: "'p crypto \<Rightarrow> spending_limit list \<Rightarrow> spending_limit list \<Rightarrow> (signature_error, unit) result" where
  "validate_limits cr before [] = Ok ()"
| "validate_limits cr before (l # ls) =
    and_then (spend_asset_validate cr (limit_asset l)) (\<lambda>_.
    if period_blocks l = 0 \<or> list_ex (\<lambda>b. limit_asset b = limit_asset l) before
    then Err (BadMultisig ''invalid or duplicate spending limit'')
    else validate_limits cr (before @ [l]) ls)"

fun validate_addresses :: "'p crypto \<Rightarrow> address list \<Rightarrow> (signature_error, unit) result" where
  "validate_addresses cr [] = Ok ()"
| "validate_addresses cr (a # as) = and_then (validate_account_address cr a) (\<lambda>_. validate_addresses cr as)"

definition validate_recipients :: "'p crypto \<Rightarrow> address list \<Rightarrow> (signature_error, unit) result" where
  "validate_recipients cr v =
    (if MAX_POLICY_RECIPIENTS < length v \<or> \<not> ascending v
     then Err (BadMultisig ''recipients must be bounded, unique and ascending'')
     else validate_addresses cr v)"

fun validate_sessions :: "'p crypto \<Rightarrow> session_key list \<Rightarrow> session_key list \<Rightarrow> (signature_error, unit) result" where
  "validate_sessions cr before [] = Ok ()"
| "validate_sessions cr before (s # ss) =
    and_then (spend_asset_validate cr (session_asset s)) (\<lambda>_.
    and_then (validate_recipients cr (session_recipients s)) (\<lambda>_.
    and_then (threshold_validate cr \<lparr> threshold = 1, members = [public_key s] \<rparr>) (\<lambda>_.
    if list_ex (\<lambda>b. public_key b = public_key s) before then Err (BadMultisig ''duplicate session key'')
    else validate_sessions cr (before @ [s]) ss)))"

definition policy_validate :: "'p crypto \<Rightarrow> account_policy \<Rightarrow> (signature_error, unit) result" where
  "policy_validate cr pol =
    and_then (threshold_validate cr (owners pol)) (\<lambda>_.
    if MAX_POLICY_LIMITS < length (limits pol) \<or> MAX_SESSION_KEYS < length (sessions pol)
    then Err (BadMultisig ''policy exceeds bounded menu'')
    else
     and_then (validate_limits cr [] (limits pol)) (\<lambda>_.
     and_then (case recipients pol of Some v \<Rightarrow> validate_recipients cr v | None \<Rightarrow> Ok ()) (\<lambda>_.
     and_then (validate_sessions cr [] (sessions pol)) (\<lambda>_.
     if sessions pol \<noteq> [] \<and> \<not> list_ex (\<lambda>l. limit_asset l = Native) (limits pol)
     then Err (BadMultisig ''session keys require a native spending limit to bound fees'')
     else
      (case recovery pol of
         Some rec \<Rightarrow>
           and_then (threshold_validate cr (guardians rec)) (\<lambda>_.
           if delay_blocks rec = 0 then Err (BadMultisig ''recovery delay must be positive'') else Ok ())
       | None \<Rightarrow> Ok ())))))"

section \<open>The stateful signature check\<close>

definition verify_threshold ::
  "'p crypto \<Rightarrow> string \<Rightarrow> string \<Rightarrow> threshold_policy \<Rightarrow> (signature_error, unit) result" where
  "verify_threshold cr wit message tp =
    and_then (multisig_address cr (threshold tp) (members tp)) (\<lambda>a.
    and_then (map_err (\<lambda>_. BadPubkey) (addr_pubkey_bytes cr a)) (\<lambda>bytes.
    if bytes = [] then Panic else verify_multisig cr (tl bytes) wit message))"

definition verify_account_signature ::
  "'p crypto \<Rightarrow> programmable_account option \<Rightarrow> string \<Rightarrow> 'p action \<Rightarrow> (signature_error, policy_authorization) result" where
  "verify_account_signature cr account genesis act =
    (case account of
       None \<Rightarrow> and_then (verify_signature cr genesis act) (\<lambda>_. Ok Owner)
     | Some account \<Rightarrow>
         and_then (policy_validate cr (policy account)) (\<lambda>_.
         and_then (validate_account_address cr (act_sender act)) (\<lambda>_.
         and_then (ok_or Missing (act_signature act)) (\<lambda>sig_hex.
         and_then (ok_or InvalidHex (cr_hex_decode cr sig_hex)) (\<lambda>bytes.
         (case bytes of
            tag # mode # wit \<Rightarrow>
              if of_char tag \<noteq> (0xa7 :: nat) then Err Invalid
              else
               (let message = signing_bytes cr genesis act; m = (of_char mode :: nat) in
                if m = 0 then and_then (verify_threshold cr wit message (owners (policy account))) (\<lambda>_. Ok Owner)
                else if m = 1 then
                  (if length wit \<noteq> 96 then Err Invalid
                   else
                    and_then (ok_or Invalid (position (\<lambda>s. public_key s = take 32 wit) (sessions (policy account)))) (\<lambda>i.
                    and_then (verify_one cr (take 32 wit) (drop 32 wit) message) (\<lambda>_. Ok (Session i))))
                else if m = 2 then
                  and_then (ok_or Invalid (recovery (policy account))) (\<lambda>rec.
                  and_then (verify_threshold cr wit message (guardians rec)) (\<lambda>_. Ok Guardian))
                else Err Invalid)
          | _ \<Rightarrow> Err Invalid))))))"

definition policy_signature :: "'p crypto \<Rightarrow> nat \<Rightarrow> string \<Rightarrow> (signature_error, string) result" where
  "policy_signature cr mode wit_hex =
    (if 2 < mode then Err Invalid
     else
      and_then (ok_or InvalidHex (cr_hex_decode cr wit_hex)) (\<lambda>bytes.
      Ok (''a70'' @ [char_of (48 + mode)] @ cr_hex_encode cr bytes)))"

section \<open>Administering a policy\<close>

definition manages :: "policy_authorization \<Rightarrow> account_policy_action \<Rightarrow> bool" where
  "manages auth act \<longleftrightarrow> auth = Owner \<or>
     auth = Guardian \<and> (case act of StartRecovery _ \<Rightarrow> True | ExecuteRecovery \<Rightarrow> True | _ \<Rightarrow> False)"

definition kept_counters :: "account_entry \<Rightarrow> account_policy \<Rightarrow> spend_counter list" where
  "kept_counters account pol =
    filter (\<lambda>c. case programmable account of
        Some old \<Rightarrow> list_ex (\<lambda>l. limit_asset l = counter_asset c \<and> list_ex (\<lambda>n. n = l) (limits pol)) (limits (policy old))
      | None \<Rightarrow> False)
     (case programmable account of Some a \<Rightarrow> counters a | None \<Rightarrow> [])"

fun policy_step ::
  "'p crypto \<Rightarrow> programmable_account \<Rightarrow> account_policy_action \<Rightarrow> policy_authorization \<Rightarrow> nat \<Rightarrow>
   (signature_error, programmable_account) result" where
  "policy_step cr st (RotateMembers ow) auth height =
    and_then (threshold_validate cr ow) (\<lambda>_.
    Ok (st\<lparr> policy := (policy st)\<lparr> owners := ow, sessions := [] \<rparr>, pending_recovery := None \<rparr>))"
| "policy_step cr st (AddSession s) auth height =
    (if expires_at s \<le> height then Err (BadMultisig ''session already expired'')
     else if list_ex (\<lambda>x. public_key x = public_key s) (sessions (policy st))
     then Err (BadMultisig ''session already exists; revoke before replacing'')
     else
      (let pol = (policy st)\<lparr> sessions := sessions (policy st) @ [s] \<rparr> in
       and_then (policy_validate cr pol) (\<lambda>_. Ok (st\<lparr> policy := pol \<rparr>))))"
| "policy_step cr st (RevokeSession pk) auth height =
    Ok (st\<lparr> policy := (policy st)\<lparr> sessions := filter (\<lambda>s. public_key s \<noteq> pk) (sessions (policy st)) \<rparr> \<rparr>)"
| "policy_step cr st (StartRecovery ow) auth height =
    (if auth \<noteq> Guardian then Err (BadMultisig ''recovery requires guardians'')
     else
      and_then (threshold_validate cr ow) (\<lambda>_.
      if pending_recovery st \<noteq> None then Err (BadMultisig ''recovery already pending'')
      else
       and_then (ok_or (BadMultisig ''recovery disabled'') (recovery (policy st))) (\<lambda>rec.
       and_then (ok_or (BadMultisig ''recovery height overflow'') (checked_add u64_max height (delay_blocks rec))) (\<lambda>after.
       Ok (st\<lparr> pending_recovery := Some \<lparr> pending_owners = ow, execute_after = after \<rparr> \<rparr>)))))"
| "policy_step cr st CancelRecovery auth height = Ok (st\<lparr> pending_recovery := None \<rparr>)"
| "policy_step cr st ExecuteRecovery auth height =
    (if auth \<noteq> Guardian then Err (BadMultisig ''recovery requires guardians'')
     else
      and_then (ok_or (BadMultisig ''no pending recovery'') (pending_recovery st)) (\<lambda>pending.
      if height < execute_after pending then Err (BadMultisig ''recovery timelock has not elapsed'')
      else Ok (st\<lparr> policy := (policy st)\<lparr> owners := pending_owners pending, sessions := [] \<rparr>,
                   pending_recovery := None \<rparr>)))"
| "policy_step cr st (SetPolicy pol) auth height = Panic"

definition apply_policy_action ::
  "'p crypto \<Rightarrow> account_entry \<Rightarrow> account_policy_action \<Rightarrow> policy_authorization \<Rightarrow> nat \<Rightarrow>
   (signature_error, account_entry) result" where
  "apply_policy_action cr account act auth height =
    (if \<not> manages auth act then Err (BadMultisig ''capability cannot manage account policy'')
     else
      (case act of
         SetPolicy pol \<Rightarrow>
           if auth \<noteq> Owner then Err (BadMultisig ''only owners may set policy'')
           else
            and_then (policy_validate cr pol) (\<lambda>_.
            Ok (account\<lparr> programmable :=
                  Some \<lparr> policy = pol, counters = kept_counters account pol, pending_recovery = None \<rparr> \<rparr>))
       | _ \<Rightarrow>
           and_then (ok_or (BadMultisig ''account has no policy'') (programmable account)) (\<lambda>st.
           and_then (policy_step cr st act auth height) (\<lambda>st.
           Ok (account\<lparr> programmable := Some st \<rparr>)))))"

section \<open>Spending limits\<close>

fun checked_total :: "spend_asset \<Rightarrow> (spend_asset \<times> nat) list \<Rightarrow> nat \<Rightarrow> nat option" where
  "checked_total a [] tot = Some tot"
| "checked_total a ((b, x) # spends) tot =
    (if b = a then Option.bind (checked_add u128_max tot x) (checked_total a spends) else checked_total a spends tot)"

fun enforce_limits ::
  "spending_limit list \<Rightarrow> nat \<Rightarrow> (spend_asset \<times> nat) list \<Rightarrow> spend_counter list \<Rightarrow>
   (signature_error, spend_counter list) result" where
  "enforce_limits [] height spends cs = Ok cs"
| "enforce_limits (l # ls) height spends cs =
    and_then (ok_or (BadMultisig ''spending amount overflow'') (checked_total (limit_asset l) spends 0)) (\<lambda>amount.
    if period_blocks l = 0 then Panic
    else
     (let w = height div period_blocks l;
          (i, cs) = (case position (\<lambda>c. counter_asset c = limit_asset l) cs of
                       Some i \<Rightarrow> (i, cs)
                     | None \<Rightarrow> (length cs, cs @ [\<lparr> counter_asset = limit_asset l, window = w, spent = 0 \<rparr>]));
          c = cs ! i
      in
      if w < window c then Err (BadMultisig ''spending clock moved backwards'')
      else
       (let c = (if window c \<noteq> w then c\<lparr> window := w, spent := 0 \<rparr> else c) in
        and_then (ok_or (BadMultisig ''spending counter overflow'') (checked_add u128_max (spent c) amount)) (\<lambda>s.
        if limit_amount l < s then Err (BadMultisig ''period spending limit exceeded'')
        else enforce_limits ls height spends (cs[i := c\<lparr> spent := s \<rparr>])))))"

definition enforce_spending ::
  "programmable_account \<Rightarrow> policy_authorization \<Rightarrow> nat \<Rightarrow> (spend_asset \<times> nat) list \<Rightarrow> address list \<Rightarrow>
   (spend_asset \<times> address \<times> nat) option \<Rightarrow> (signature_error, programmable_account) result" where
  "enforce_spending st auth height spends rcpts session_transfer =
    (if auth = Guardian then Err (BadMultisig ''guardians cannot authorize spending'')
     else if (case recipients (policy st) of Some allow \<Rightarrow> list_ex (\<lambda>to. to \<notin> set allow) rcpts | None \<Rightarrow> False)
     then Err (BadMultisig ''recipient is not allowed by account policy'')
     else
      and_then (enforce_limits (limits (policy st)) height spends (counters st)) (\<lambda>cs.
      (let st = st\<lparr> counters := cs \<rparr> in
       (case auth of
          Session i \<Rightarrow>
            and_then (ok_or (BadMultisig ''sessions are transfer-only'') session_transfer) (\<lambda>(a, to, amount).
            if length (sessions (policy st)) \<le> i then Err (BadMultisig ''session revoked'')
            else
             (let s = sessions (policy st) ! i in
              if expires_at s \<le> height \<or> a \<noteq> session_asset s \<or> to \<notin> set (session_recipients s)
              then Err (BadMultisig ''session expired or transfer outside scope'')
              else
               and_then (ok_or (BadMultisig ''session allowance exceeded'') (checked_sub (allowance s) amount)) (\<lambda>rest.
               Ok (st\<lparr> policy := (policy st)\<lparr> sessions := (sessions (policy st))[i := s\<lparr> allowance := rest \<rparr>] \<rparr> \<rparr>))))
        | _ \<Rightarrow> Ok st))))"

section \<open>What a spending counter records\<close>

definition spend_total :: "spend_asset \<Rightarrow> (spend_asset \<times> nat) list \<Rightarrow> nat" where
  "spend_total a spends = sum_list (map snd (filter (\<lambda>x. fst x = a) spends))"

definition counter :: "spend_counter list \<Rightarrow> spend_asset \<Rightarrow> spend_counter option" where
  "counter cs a = find (\<lambda>c. counter_asset c = a) cs"

text \<open>What is already booked against a limit in a window.\<close>

definition booked :: "spend_counter list \<Rightarrow> spending_limit \<Rightarrow> nat \<Rightarrow> nat" where
  "booked cs l w = (case counter cs (limit_asset l) of Some c \<Rightarrow> if window c = w then spent c else 0 | None \<Rightarrow> 0)"

lemma checked_total_Some: "checked_total a spends t = Some r \<Longrightarrow> r = t + spend_total a spends"
proof (induction a spends t rule: checked_total.induct)
  case (2 a b x spends tot)
  then show ?case
    by (cases "b = a") (auto simp: spend_total_def checked_add_def bind_eq_Some_conv split: if_splits)
qed (simp add: spend_total_def)

lemma position_find:
  "position P xs = Some i \<Longrightarrow> i < length xs \<and> P (xs ! i) \<and> find P xs = Some (xs ! i)"
  "position P xs = None \<Longrightarrow> find P xs = None"
  by (induction xs arbitrary: i) (auto split: if_splits)

lemma find_update:
  "position P xs = Some i \<Longrightarrow> P y \<Longrightarrow> find P (xs[i := y]) = Some y"
  "position P xs = Some i \<Longrightarrow> \<not> Q (xs ! i) \<Longrightarrow> \<not> Q y \<Longrightarrow> find Q (xs[i := y]) = find Q xs"
  by (induction xs arbitrary: i) (auto split: if_splits nat.splits)

lemma find_append: "find P (xs @ ys) = (case find P xs of Some x \<Rightarrow> Some x | None \<Rightarrow> find P ys)"
  by (induction xs) auto

lemma position_append_None: "position P xs = None \<Longrightarrow> P y \<Longrightarrow> position P (xs @ [y]) = Some (length xs)"
  by (induction xs) (auto split: if_splits)

text \<open>One limit: its counter moves to the current window and takes the batch's total.\<close>

lemma enforce_limit_step:
  assumes "enforce_limits (l # ls) height spends cs = Ok cs'"
  obtains cs1 where "enforce_limits ls height spends cs1 = Ok cs'" "period_blocks l \<noteq> 0"
    "\<And>c. counter cs (limit_asset l) = Some c \<Longrightarrow> window c \<le> height div period_blocks l"
    "counter cs1 (limit_asset l) = Some \<lparr> counter_asset = limit_asset l, window = height div period_blocks l,
       spent = booked cs l (height div period_blocks l) + spend_total (limit_asset l) spends \<rparr>"
    "booked cs l (height div period_blocks l) + spend_total (limit_asset l) spends \<le> limit_amount l"
    "\<And>a. a \<noteq> limit_asset l \<Longrightarrow> counter cs1 a = counter cs a"
proof -
  let ?P = "\<lambda>c. counter_asset c = limit_asset l" and ?w = "height div period_blocks l"
  define ics where "ics = (case position ?P cs of Some i \<Rightarrow> (i, cs)
    | None \<Rightarrow> (length cs, cs @ [\<lparr> counter_asset = limit_asset l, window = ?w, spent = 0 \<rparr>]))"
  obtain i ds where ics: "ics = (i, ds)" by (cases ics)
  have pos: "position ?P ds = Some i"
    using ics position_append_None [of ?P cs] by (auto simp: ics_def split: option.splits)
  note f = position_find(1) [OF pos]
  then have asset: "counter_asset (ds ! i) = limit_asset l" by simp
  define c where "c = (if window (ds ! i) \<noteq> ?w then (ds ! i)\<lparr> window := ?w, spent := 0 \<rparr> else ds ! i)"
  from assms obtain amount s where nz: "period_blocks l \<noteq> 0" and tot: "checked_total (limit_asset l) spends 0 = Some amount"
    and le: "\<not> ?w < window (ds ! i)" and s: "s = spent c + amount" "s \<le> limit_amount l"
    and rest: "enforce_limits ls height spends (ds[i := c\<lparr> spent := s \<rparr>]) = Ok cs'"
    by (auto simp: Let_def ics_def [symmetric] ics c_def split: if_splits)
  have am: "amount = spend_total (limit_asset l) spends" using checked_total_Some [OF tot] by simp
  have old: "counter cs (limit_asset l) = Some x \<Longrightarrow> x = ds ! i" for x
    using ics f position_find(2) [of ?P cs] by (auto simp: ics_def counter_def split: option.splits)
  have new: "counter cs (limit_asset l) = None \<Longrightarrow> ds ! i = \<lparr> counter_asset = limit_asset l, window = ?w, spent = 0 \<rparr>"
    using ics position_find(1) [of ?P cs] by (auto simp: ics_def counter_def split: option.splits)
  have sp: "spent c = booked cs l ?w"
    using old new by (cases "counter cs (limit_asset l)") (auto simp: booked_def c_def)
  have cc: "c\<lparr> spent := s \<rparr> = \<lparr> counter_asset = limit_asset l, window = ?w, spent = s \<rparr>"
    using asset by (cases "ds ! i") (auto simp: c_def)
  have other: "counter (ds[i := c\<lparr> spent := s \<rparr>]) a = counter cs a" if "a \<noteq> limit_asset l" for a
  proof -
    have "find (\<lambda>c. counter_asset c = a) (ds[i := c\<lparr> spent := s \<rparr>]) = find (\<lambda>c. counter_asset c = a) ds"
      using that asset by (intro find_update(2) [OF pos]) (auto simp: cc)
    also have "\<dots> = find (\<lambda>c. counter_asset c = a) cs"
      using that ics by (auto simp: ics_def find_append split: option.splits)
    finally show ?thesis by (simp add: counter_def)
  qed
  show thesis
  proof (rule that [OF rest nz])
    show "window x \<le> ?w" if "counter cs (limit_asset l) = Some x" for x using le old [OF that] by simp
    show "counter (ds[i := c\<lparr> spent := s \<rparr>]) (limit_asset l) = Some \<lparr> counter_asset = limit_asset l, window = ?w,
        spent = booked cs l ?w + spend_total (limit_asset l) spends \<rparr>"
      unfolding counter_def cc using find_update(1) [OF pos] by (simp add: s(1) sp am)
    show "booked cs l ?w + spend_total (limit_asset l) spends \<le> limit_amount l" using s sp am by simp
  qed (rule other)
qed

text \<open>All limits of a policy that limits each asset once.\<close>

lemma enforce_limits_counters:
  assumes "enforce_limits ls height spends cs = Ok cs'" "distinct (map limit_asset ls)" "l \<in> set ls"
  shows "counter cs' (limit_asset l) = Some \<lparr> counter_asset = limit_asset l, window = height div period_blocks l,
           spent = booked cs l (height div period_blocks l) + spend_total (limit_asset l) spends \<rparr> \<and>
         booked cs l (height div period_blocks l) + spend_total (limit_asset l) spends \<le> limit_amount l \<and>
         (\<forall>c. counter cs (limit_asset l) = Some c \<longrightarrow> window c \<le> height div period_blocks l)"
proof -
  have keep: "counter cs' a = counter cs a"
    if "enforce_limits ls height spends cs = Ok cs'" "a \<notin> set (map limit_asset ls)" for ls cs a
    using that
  proof (induction ls arbitrary: cs)
    case (Cons k ls)
    from Cons.prems(1) show ?case
    proof (cases rule: enforce_limit_step)
      case (1 cs1)
      with Cons show ?thesis by simp
    qed
  qed simp
  show ?thesis using assms
  proof (induction ls arbitrary: cs)
    case (Cons k ls)
    from Cons.prems(1) show ?case
    proof (cases rule: enforce_limit_step)
      case (1 cs1)
      show ?thesis
      proof (cases "l = k")
        case True
        then show ?thesis using 1 keep [OF 1(1), of "limit_asset k"] Cons.prems(2) by simp
      next
        case False
        then have l: "l \<in> set ls" using Cons.prems(3) by simp
        then have ne: "limit_asset l \<noteq> limit_asset k" using Cons.prems(2) by (simp, metis imageI)
        have "counter cs1 (limit_asset l) = counter cs (limit_asset l)" using 1(6) ne .
        then show ?thesis using Cons.IH [OF 1(1) _ l] Cons.prems(2) by (simp add: booked_def)
      qed
    qed
  qed simp
qed

lemma enforce_limits_booked:
  assumes "enforce_limits ls height spends cs = Ok cs'" "distinct (map limit_asset ls)" "l \<in> set ls"
  shows "booked cs' l w = (if height div period_blocks l = w then booked cs l w + spend_total (limit_asset l) spends else 0)"
    and "booked cs' l w \<le> limit_amount l"
  using enforce_limits_counters [OF assms] by (auto simp: booked_def)

lemma validate_limits_distinct:
  "validate_limits cr before ls = Ok () \<Longrightarrow> distinct (map limit_asset before) \<Longrightarrow>
   distinct (map limit_asset (before @ ls)) \<and> (\<forall>l\<in>set ls. 0 < period_blocks l)"
proof (induction cr before ls rule: validate_limits.induct)
  case (2 cr before l ls)
  from "2.prems"(1) have nb: "\<not> (period_blocks l = 0 \<or> list_ex (\<lambda>b. limit_asset b = limit_asset l) before)"
    and v: "spend_asset_validate cr (limit_asset l) = Ok ()" and rest: "validate_limits cr (before @ [l]) ls = Ok ()"
    by (auto split: if_splits)
  then have "distinct (map limit_asset (before @ [l]))" using "2.prems"(2) by (auto simp: list_ex_iff)
  with "2.IH" [OF v nb rest] nb show ?case by simp
qed simp

lemma policy_validate_limits:
  "policy_validate cr pol = Ok () \<Longrightarrow> distinct (map limit_asset (limits pol)) \<and> (\<forall>l\<in>set (limits pol). 0 < period_blocks l)"
  using validate_limits_distinct [of cr "[]" "limits pol"] by (auto simp: policy_validate_def split: if_splits)

section \<open>Sequences of spending\<close>

record spending =
  sp_auth :: policy_authorization
  sp_height :: nat
  sp_spends :: "(spend_asset \<times> nat) list"
  sp_recipients :: "address list"
  sp_transfer :: "(spend_asset \<times> address \<times> nat) option"

fun spend_all :: "programmable_account \<Rightarrow> spending list \<Rightarrow> (signature_error, programmable_account) result" where
  "spend_all st [] = Ok st"
| "spend_all st (x # xs) =
    and_then (enforce_spending st (sp_auth x) (sp_height x) (sp_spends x) (sp_recipients x) (sp_transfer x)) (\<lambda>st.
    spend_all st xs)"

definition spent_in_window :: "spending_limit \<Rightarrow> nat \<Rightarrow> spending list \<Rightarrow> nat" where
  "spent_in_window l w xs =
    sum_list (map (\<lambda>x. if sp_height x div period_blocks l = w then spend_total (limit_asset l) (sp_spends x) else 0) xs)"

lemma enforce_spending_OkE:
  assumes "enforce_spending st auth height spends rcpts tr = Ok st'"
  shows "enforce_limits (limits (policy st)) height spends (counters st) = Ok (counters st')"
    and "limits (policy st') = limits (policy st)" and "recipients (policy st') = recipients (policy st)"
    and "length (sessions (policy st')) = length (sessions (policy st))"
  using assms by (cases auth; auto simp: enforce_spending_def Let_def split: if_splits)+

lemma spend_all_window:
  assumes "spend_all st xs = Ok st'" "distinct (map limit_asset (limits (policy st)))" "l \<in> set (limits (policy st))"
  shows "(spent_in_window l w xs = 0 \<or> booked (counters st) l w + spent_in_window l w xs \<le> limit_amount l) \<and>
    (\<forall>c. counter (counters st) (limit_asset l) = Some c \<longrightarrow> w < window c \<longrightarrow> spent_in_window l w xs = 0)"
  using assms
proof (induction xs arbitrary: st)
  case (Cons x xs)
  from Cons.prems(1) obtain s1 where
    x: "enforce_spending st (sp_auth x) (sp_height x) (sp_spends x) (sp_recipients x) (sp_transfer x) = Ok s1"
    and xs: "spend_all s1 xs = Ok st'" by auto
  note e = enforce_spending_OkE [OF x]
  note c = enforce_limits_counters [OF e(1) Cons.prems(2,3)]
  note b = enforce_limits_booked [OF e(1) Cons.prems(2,3), of w]
  have ih: "(spent_in_window l w xs = 0 \<or> booked (counters s1) l w + spent_in_window l w xs \<le> limit_amount l) \<and>
    (w < sp_height x div period_blocks l \<longrightarrow> spent_in_window l w xs = 0)"
    using Cons.IH [OF xs] Cons.prems(2,3) e(2) c by simp
  have old: "booked (counters st) l w = 0" if "sp_height x div period_blocks l < w"
    using c that by (auto simp: booked_def split: option.splits)
  have sum: "spent_in_window l w (x # xs) =
      (if sp_height x div period_blocks l = w then spend_total (limit_asset l) (sp_spends x) else 0) + spent_in_window l w xs"
    by (simp add: spent_in_window_def)
  show ?case
  proof (cases "sp_height x div period_blocks l" w rule: linorder_cases)
    case less
    then show ?thesis using ih old sum c by fastforce
  next
    case equal
    then show ?thesis using ih b sum c by fastforce
  next
    case greater
    then show ?thesis using ih sum by simp
  qed
qed (simp add: spent_in_window_def)


definition session_amount :: "nat \<Rightarrow> spending \<Rightarrow> nat" where
  "session_amount i x =
    (case (sp_auth x, sp_transfer x) of (Session j, Some (a, to, amount)) \<Rightarrow> if j = i then amount else 0 | _ \<Rightarrow> 0)"

lemma enforce_spending_session:
  assumes "enforce_spending st (sp_auth x) (sp_height x) (sp_spends x) (sp_recipients x) (sp_transfer x) = Ok st'"
    and "i < length (sessions (policy st))"
  shows "allowance (sessions (policy st') ! i) + session_amount i x = allowance (sessions (policy st) ! i)"
    and "expires_at (sessions (policy st') ! i) = expires_at (sessions (policy st) ! i)"
    and "session_recipients (sessions (policy st') ! i) = session_recipients (sessions (policy st) ! i)"
    and "sp_auth x = Session i \<Longrightarrow> sp_height x < expires_at (sessions (policy st) ! i)"
    and "sp_auth x = Session i \<Longrightarrow> \<exists>a to amount. sp_transfer x = Some (a, to, amount) \<and>
           to \<in> set (session_recipients (sessions (policy st) ! i))"
  using assms
  by (cases "sp_auth x"; auto simp: enforce_spending_def session_amount_def Let_def nth_list_update split: if_splits)+

text \<open>
  A session key spends at most its allowance: over any sequence of spendings, what transfers signed by the
  session moved and what is left of its allowance add up to the allowance it was given; each such transfer came
  before the session's expiry and went to one of its recipients.
\<close>

theorem session_allowance_spent_once:
  assumes "spend_all st xs = Ok st'" and "i < length (sessions (policy st))"
  shows "allowance (sessions (policy st') ! i) + sum_list (map (session_amount i) xs) = allowance (sessions (policy st) ! i) \<and>
    list_all (\<lambda>x. sp_auth x = Session i \<longrightarrow> sp_height x < expires_at (sessions (policy st) ! i) \<and>
      (\<exists>a to amount. sp_transfer x = Some (a, to, amount) \<and>
        to \<in> set (session_recipients (sessions (policy st) ! i)))) xs"
  using assms
proof (induction xs arbitrary: st)
  case (Cons x xs)
  from Cons.prems(1) obtain s1 where
    x: "enforce_spending st (sp_auth x) (sp_height x) (sp_spends x) (sp_recipients x) (sp_transfer x) = Ok s1"
    and xs: "spend_all s1 xs = Ok st'" by auto
  note e = enforce_spending_session [OF x Cons.prems(2)]
  have "i < length (sessions (policy s1))" using Cons.prems(2) enforce_spending_OkE(4) [OF x] by simp
  note ih = Cons.IH [OF xs this, unfolded e(2,3)]
  show ?case using ih e(1) e(4,5) by auto
qed simp

section \<open>Recovery\<close>

type_synonym managed = "account_policy_action \<times> policy_authorization \<times> nat"

fun manage_all :: "'p crypto \<Rightarrow> account_entry \<Rightarrow> managed list \<Rightarrow> (signature_error, account_entry) result" where
  "manage_all cr account [] = Ok account"
| "manage_all cr account ((act, auth, height) # xs) =
    and_then (apply_policy_action cr account act auth height) (\<lambda>account. manage_all cr account xs)"

definition pending_of :: "account_entry \<Rightarrow> pending_recovery_rec option" where
  "pending_of account = Option.bind (programmable account) pending_recovery"

fun ends_recovery :: "account_policy_action \<Rightarrow> bool" where
  "ends_recovery (AddSession _) = False"
| "ends_recovery (RevokeSession _) = False"
| "ends_recovery _ = True"

text \<open>A pending recovery was started by guardians and nothing has ended it since.\<close>

definition started :: "managed list \<Rightarrow> account_entry \<Rightarrow> bool" where
  "started xs account \<longleftrightarrow> (\<forall>p. pending_of account = Some p \<longrightarrow>
     (\<exists>ys zs h0 st rec. xs = ys @ (StartRecovery (pending_owners p), Guardian, h0) # zs \<and>
        list_all (\<lambda>(act, auth, h). \<not> ends_recovery act) zs \<and> programmable account = Some st \<and>
        recovery (policy st) = Some rec \<and> execute_after p = h0 + delay_blocks rec))"

lemma started_step:
  assumes "started xs account" "apply_policy_action cr account act auth h = Ok account'"
  shows "started (xs @ [(act, auth, h)]) account'"
proof (cases "ends_recovery act")
  case True
  show ?thesis
  proof (cases "\<exists>ow. act = StartRecovery ow")
    case True
    then obtain ow where act: "act = StartRecovery ow" by blast
    from assms(2) obtain st rec where st: "programmable account = Some st" "recovery (policy st) = Some rec" "auth = Guardian"
      and new: "account' = account\<lparr> programmable := Some (st\<lparr> pending_recovery :=
        Some \<lparr> pending_owners = ow, execute_after = h + delay_blocks rec \<rparr> \<rparr>) \<rparr>"
      by (auto simp: apply_policy_action_def act split: if_splits)
    then show ?thesis unfolding started_def by (simp add: act pending_of_def) (rule exI [of _ xs], rule exI [of _ "[]"], simp)
  next
    case False
    then have "pending_of account' = None" using assms(2) True
      by (cases act) (auto simp: apply_policy_action_def pending_of_def split: if_splits)
    then show ?thesis by (simp add: started_def)
  qed
next
  case False
  from assms(2) False obtain st where st: "programmable account = Some st"
    by (cases act) (auto simp: apply_policy_action_def split: if_splits)
  have new: "pending_of account' = pending_of account" "\<exists>st'. programmable account' = Some st' \<and> recovery (policy st') = recovery (policy st)"
    using assms(2) False st by (cases act; auto simp: apply_policy_action_def pending_of_def Let_def split: if_splits)+
  show ?thesis unfolding started_def
  proof (intro allI impI)
    fix p assume "pending_of account' = Some p"
    then have "pending_of account = Some p" using new(1) by simp
    with assms(1) st obtain ys zs h0 rec where *: "xs = ys @ (StartRecovery (pending_owners p), Guardian, h0) # zs"
      "list_all (\<lambda>(act, auth, h). \<not> ends_recovery act) zs" "recovery (policy st) = Some rec" "execute_after p = h0 + delay_blocks rec"
      by (auto simp: started_def)
    then have "xs @ [(act, auth, h)] = ys @ (StartRecovery (pending_owners p), Guardian, h0) # (zs @ [(act, auth, h)])"
      "list_all (\<lambda>(act, auth, h). \<not> ends_recovery act) (zs @ [(act, auth, h)])" using False by simp_all
    with *(3,4) new(2) show "\<exists>ys zs h0 st rec. xs @ [(act, auth, h)] = ys @ (StartRecovery (pending_owners p), Guardian, h0) # zs \<and>
        list_all (\<lambda>(act, auth, h). \<not> ends_recovery act) zs \<and> programmable account' = Some st \<and>
        recovery (policy st) = Some rec \<and> execute_after p = h0 + delay_blocks rec" by metis
  qed
qed

lemma manage_all_started:
  "manage_all cr account xs = Ok account' \<Longrightarrow> started ws account \<Longrightarrow> started (ws @ xs) account'"
proof (induction cr account xs arbitrary: ws rule: manage_all.induct)
  case (2 cr account act auth height xs)
  then obtain mid where m: "apply_policy_action cr account act auth height = Ok mid" "manage_all cr mid xs = Ok account'" by auto
  from "2.IH" [OF m started_step [OF "2.prems"(2) m(1)]] show ?case by simp
qed simp

text \<open>
  The owners of an account are replaced by recovery only after the delay: when \<open>ExecuteRecovery\<close> succeeds, it is
  authorized by the guardians, an earlier action of the guardians named exactly these owners at least
  \<open>delay_blocks\<close> before, and no owner has since set a policy, rotated the members or cancelled; the sessions are gone.
\<close>

theorem recovery_waits_for_timelock:
  assumes "pending_of account = None" and "manage_all cr account xs = Ok before"
    and "apply_policy_action cr before ExecuteRecovery auth height = Ok after"
  shows "\<exists>ys zs h0 ow st st' rec. xs = ys @ (StartRecovery ow, Guardian, h0) # zs \<and> auth = Guardian \<and>
    list_all (\<lambda>(act, au, h). \<not> ends_recovery act) zs \<and> programmable before = Some st \<and> recovery (policy st) = Some rec \<and>
    h0 + delay_blocks rec \<le> height \<and> programmable after = Some st' \<and> owners (policy st') = ow \<and> sessions (policy st') = []"
proof -
  have "started [] account" using assms(1) by (simp add: started_def)
  from manage_all_started [OF assms(2) this] have s: "started xs before" by simp
  from assms(3) obtain st p where st: "programmable before = Some st" "pending_recovery st = Some p" "auth = Guardian"
    "execute_after p \<le> height"
    and new: "programmable after = Some (st\<lparr> policy := (policy st)\<lparr> owners := pending_owners p, sessions := [] \<rparr>, pending_recovery := None \<rparr>)"
    by (auto simp: apply_policy_action_def not_less split: if_splits)
  have "pending_of before = Some p" using st by (simp add: pending_of_def)
  with s obtain ys zs h0 rec where *: "xs = ys @ (StartRecovery (pending_owners p), Guardian, h0) # zs"
    "list_all (\<lambda>(act, auth, h). \<not> ends_recovery act) zs" "recovery (policy st) = Some rec" "execute_after p = h0 + delay_blocks rec"
    using st(1) by (auto simp: started_def)
  show ?thesis
    by (rule exI [of _ ys], rule exI [of _ zs], rule exI [of _ h0], rule exI [of _ "pending_owners p"], rule exI [of _ st],
        rule exI [of _ "the (programmable after)"], rule exI [of _ rec]) (use * st new in simp)
qed

section \<open>Samples\<close>

definition sample_policy_menu :: account_policy where
  "sample_policy_menu =
    \<lparr> owners = \<lparr> threshold = 1, members = [sample_member CHR ''a''] \<rparr>,
      limits = [\<lparr> limit_asset = Native, period_blocks = 10, limit_amount = 100 \<rparr>], recipients = None,
      sessions = [\<lparr> public_key = sample_member CHR ''s'', expires_at = 50, session_asset = Native, allowance = 70,
                    session_recipients = [] \<rparr>],
      recovery = Some \<lparr> guardians = \<lparr> threshold = 1, members = [sample_member CHR ''g''] \<rparr>, delay_blocks = 20 \<rparr> \<rparr>"

abbreviation (input) sample_cr :: "nat crypto" where
  "sample_cr \<equiv> sample_crypto (\<lambda>x. replicate 32 CHR ''h'')"

lemma sample_threshold: "threshold_validate sample_cr \<lparr> threshold = Suc 0, members = [sample_member c] \<rparr> = Ok ()"
  by (simp add: threshold_validate_def multisig_address_def policy_hash_def sample_crypto_def MAX_MULTISIG_MEMBERS_def
        addr_from_pubkey_bytes_def ADDRESS_HRP_def)

lemma sample_menu_valid: "policy_validate sample_cr sample_policy_menu = Ok ()"
  by (simp add: policy_validate_def sample_policy_menu_def sample_threshold MAX_POLICY_LIMITS_def MAX_SESSION_KEYS_def
        validate_recipients_def)

definition sample_account :: programmable_account where
  "sample_account = \<lparr> policy = sample_policy_menu, counters = [], pending_recovery = None \<rparr>"

definition sample_spendings :: "spending list" where
  "sample_spendings =
    [\<lparr> sp_auth = Owner, sp_height = 3, sp_spends = [(Native, 60)], sp_recipients = [], sp_transfer = None \<rparr>,
     \<lparr> sp_auth = Owner, sp_height = 8, sp_spends = [(Native, 40)], sp_recipients = [], sp_transfer = None \<rparr>,
     \<lparr> sp_auth = Owner, sp_height = 12, sp_spends = [(Native, 90)], sp_recipients = [], sp_transfer = None \<rparr>]"


definition sample_session_spending :: "spending list" where
  "sample_session_spending =
    [\<lparr> sp_auth = Session 0, sp_height = 3, sp_spends = [(Native, 25)], sp_recipients = [],
       sp_transfer = Some (Native, Address ''bob'', 20) \<rparr>]"

definition sample_session_account :: programmable_account where
  "sample_session_account = sample_account\<lparr> policy := sample_policy_menu\<lparr> sessions :=
    [\<lparr> public_key = sample_member CHR ''s'', expires_at = 50, session_asset = Native, allowance = 70,
       session_recipients = [Address ''bob''] \<rparr>] \<rparr> \<rparr>"

theorem session_allowance_spent_once_witness:
  "\<exists>st'. spend_all sample_session_account sample_session_spending = Ok st' \<and>
     allowance (sessions (policy st') ! 0) + 20 = 70"
proof -
  have "\<exists>st'. spend_all sample_session_account sample_session_spending = Ok st'"
    by (simp add: sample_session_account_def sample_account_def sample_session_spending_def sample_policy_menu_def
          enforce_spending_def Let_def checked_add_def checked_sub_def u128_max_def)
  then obtain st' where st': "spend_all sample_session_account sample_session_spending = Ok st'" by blast
  from session_allowance_spent_once [OF st', of 0] st' show ?thesis
    by (auto simp: sample_session_account_def sample_session_spending_def session_amount_def)
qed

theorem recovery_waits_for_timelock_witness:
  "\<exists>account xs before after. manage_all sample_cr account xs = Ok before \<and>
     apply_policy_action sample_cr before ExecuteRecovery Guardian 25 = Ok after \<and> xs \<noteq> []"
proof -
  let ?ow = "\<lparr> threshold = 1, members = [sample_member CHR ''n''] \<rparr> :: threshold_policy"
  let ?account = "default_account\<lparr> programmable := Some sample_account \<rparr>"
  let ?xs = "[(StartRecovery ?ow, Guardian, 5)]"
  have "\<exists>before. manage_all sample_cr ?account ?xs = Ok before \<and>
      (\<exists>after. apply_policy_action sample_cr before ExecuteRecovery Guardian 25 = Ok after)"
    by (simp add: apply_policy_action_def manages_def sample_account_def sample_threshold sample_policy_menu_def
          checked_add_def u64_max_def)
  then obtain before after where *: "manage_all sample_cr ?account ?xs = Ok before"
    "apply_policy_action sample_cr before ExecuteRecovery Guardian 25 = Ok after" by blast
  have "pending_of ?account = None" by (simp add: pending_of_def sample_account_def)
  from recovery_waits_for_timelock [OF this *] * show ?thesis by blast
qed

end
