(* ===== verification/State_Trie.thy ===== *)
theory State_Trie
  imports Proposer
begin

text \<open>
  Proof of execution (\<^verbatim>\<open>src/core/poe/src/lib.rs\<close>): the Merkle root over a block's actions and the sparse Merkle trie
  behind the state root, with its inclusion proofs and the trie rebuilt from proofs alone.

  The hash is SHA-256, a third-party crate. The functions take the four operations they use of it as a record
  \<open>trie_hash\<close> over abstract types of keys and hashes (both \<open>[u8; 32]\<close> in the source); \<open>sha_trie\<close> is the instance of the
  source, over byte strings. What the theorems about roots need of the hash is the idealization \<open>collision_free\<close>: two
  different leaves or inner nodes never share a hash, and neither is the all-zero sentinel.
\<close>

section \<open>Hashing\<close>

record ('k, 'h) trie_hash =
  th_leaf :: "'k \<Rightarrow> string \<Rightarrow> 'h"
  th_node :: "'h \<Rightarrow> 'h \<Rightarrow> 'h"
  th_empty :: 'h
  th_bit :: "'k \<Rightarrow> nat \<Rightarrow> bool"

definition leaf_hash :: "(string \<Rightarrow> string) \<Rightarrow> string \<Rightarrow> string \<Rightarrow> string" where
  "leaf_hash sha key_hash val = sha (char_of (0 :: nat) # key_hash @ val)"

definition internal_hash :: "(string \<Rightarrow> string) \<Rightarrow> string \<Rightarrow> string \<Rightarrow> string" where
  "internal_hash sha left right = sha (char_of (1 :: nat) # left @ right)"

definition bit_at :: "string \<Rightarrow> nat \<Rightarrow> bool" where
  "bit_at hash level = bit (of_char (hash ! (level div 8)) :: nat) (7 - level mod 8)"

definition sha_trie :: "(string \<Rightarrow> string) \<Rightarrow> (string, string) trie_hash" where
  "sha_trie sha =
    \<lparr> th_leaf = leaf_hash sha, th_node = internal_hash sha, th_empty = replicate 32 (char_of (0 :: nat)), th_bit = bit_at \<rparr>"

definition collision_free :: "('k, 'h) trie_hash \<Rightarrow> bool" where
  "collision_free th \<longleftrightarrow>
     (\<forall>l r l' r'. th_node th l r = th_node th l' r' \<longrightarrow> l = l' \<and> r = r') \<and>
     (\<forall>k x k' x'. th_leaf th k x = th_leaf th k' x' \<longrightarrow> k = k' \<and> x = x') \<and>
     (\<forall>k x l r. th_leaf th k x \<noteq> th_node th l r) \<and>
     (\<forall>k x. th_leaf th k x \<noteq> th_empty th) \<and> (\<forall>l r. th_node th l r \<noteq> th_empty th)"

section \<open>The trie\<close>

fun default_hash :: "('k, 'h) trie_hash \<Rightarrow> nat \<Rightarrow> 'h" where
  "default_hash th 0 = th_empty th"
| "default_hash th (Suc d) = th_node th (default_hash th d) (default_hash th d)"

text \<open>\<open>d\<close> levels remain below the node; the level of the node is \<open>256 - d\<close>.\<close>

fun descend ::
  "('k, 'h) trie_hash \<Rightarrow> ('h \<Rightarrow> ('e, 'h \<times> 'h) result) \<Rightarrow> 'k \<Rightarrow> nat \<Rightarrow> 'h \<Rightarrow> ('e, 'h list \<times> 'h) result" where
  "descend th children key 0 node = Ok ([], node)"
| "descend th children key (Suc d) node =
    (if node = default_hash th (Suc d)
     then and_then (descend th children key d (default_hash th d)) (\<lambda>(ss, leaf). Ok (default_hash th d # ss, leaf))
     else
      and_then (children node) (\<lambda>(left, right).
      (let (child, sibling) = (if \<not> th_bit th key (255 - d) then (left, right) else (right, left)) in
       and_then (descend th children key d child) (\<lambda>(ss, leaf). Ok (sibling # ss, leaf)))))"

text \<open>The way back up: \<open>ss\<close> are the siblings from \<open>level\<close> down to the leaf.\<close>

fun climb :: "('k, 'h) trie_hash \<Rightarrow> 'k \<Rightarrow> nat \<Rightarrow> 'h list \<Rightarrow> 'h \<Rightarrow> 'h" where
  "climb th key level [] cur = cur"
| "climb th key level (sibling # ss) cur =
    (let cur = climb th key (Suc level) ss cur;
         (left, right) = (if \<not> th_bit th key level then (cur, sibling) else (sibling, cur))
     in th_node th left right)"

fun subtree_root :: "('k, 'h) trie_hash \<Rightarrow> nat \<Rightarrow> ('k \<times> 'h) list \<Rightarrow> (never, 'h) result" where
  "subtree_root th d [] = Ok (default_hash th d)"
| "subtree_root th 0 [(k, leaf)] = Ok leaf"
| "subtree_root th 0 (x # y # zs) = Panic"
| "subtree_root th (Suc d) (x # xs) =
    (let zero = (\<lambda>(k, leaf). \<not> th_bit th k (255 - d)) in
     and_then (subtree_root th d (takeWhile zero (x # xs))) (\<lambda>left.
     and_then (subtree_root th d (dropWhile zero (x # xs))) (\<lambda>right.
     Ok (th_node th left right))))"

definition root_of :: "('k, 'h) trie_hash \<Rightarrow> ('k \<times> string) list \<Rightarrow> (never, 'h) result" where
  "root_of th leaves = subtree_root th 256 (map (\<lambda>(k, x). (k, th_leaf th k x)) leaves)"

section \<open>Proofs\<close>

record ('k, 'h) inclusion_proof =
  ip_key_hash :: 'k
  ip_value :: "string option"
  ip_siblings :: "'h list"

definition leaf_node :: "('k, 'h) trie_hash \<Rightarrow> 'k \<Rightarrow> string option \<Rightarrow> 'h" where
  "leaf_node th key val = (case val of Some x \<Rightarrow> th_leaf th key x | None \<Rightarrow> th_empty th)"

definition verify_proof :: "('k, 'h) trie_hash \<Rightarrow> 'h \<Rightarrow> ('k, 'h) inclusion_proof \<Rightarrow> bool" where
  "verify_proof th root p \<longleftrightarrow>
     length (ip_siblings p) = 256 \<and>
     climb th (ip_key_hash p) 0 (ip_siblings p) (leaf_node th (ip_key_hash p) (ip_value p)) = root"

definition set_bit_at :: "string \<Rightarrow> nat \<Rightarrow> string" where
  "set_bit_at bitmap level =
    bitmap[level div 8 := char_of (or (of_char (bitmap ! (level div 8)) :: nat) (2 ^ (7 - level mod 8)))]"

fun compress_levels ::
  "('k, 'h) trie_hash \<Rightarrow> nat \<Rightarrow> 'h list \<Rightarrow> string \<times> 'h list \<Rightarrow> string \<times> 'h list" where
  "compress_levels th level [] acc = acc"
| "compress_levels th level (sibling # ss) (bitmap, non_default) =
    (if sibling \<noteq> default_hash th (255 - level)
     then compress_levels th (Suc level) ss (set_bit_at bitmap level, non_default @ [sibling])
     else compress_levels th (Suc level) ss (bitmap, non_default))"

definition compress :: "('k, 'h) trie_hash \<Rightarrow> ('k, 'h) inclusion_proof \<Rightarrow> string \<times> 'h list" where
  "compress th p = compress_levels th 0 (ip_siblings p) (replicate 32 (char_of (0 :: nat)), [])"

datatype unproven = UnprovenKey

record 'h proof_backed_trie =
  pt_root :: 'h
  pt_nodes :: "'h \<rightharpoonup> 'h \<times> 'h"
  pt_leaves :: "'h \<rightharpoonup> string"

definition note_leaf :: "('k, 'h) trie_hash \<Rightarrow> 'k \<Rightarrow> string option \<Rightarrow> 'h proof_backed_trie \<Rightarrow> 'h proof_backed_trie" where
  "note_leaf th key val t =
    (case val of Some x \<Rightarrow> t\<lparr> pt_leaves := (pt_leaves t)(th_leaf th key x \<mapsto> x) \<rparr> | None \<Rightarrow> t)"

fun note_path ::
  "('k, 'h) trie_hash \<Rightarrow> 'k \<Rightarrow> nat \<Rightarrow> 'h list \<Rightarrow> 'h \<Rightarrow> ('h \<rightharpoonup> 'h \<times> 'h) \<Rightarrow> 'h \<times> ('h \<rightharpoonup> 'h \<times> 'h)" where
  "note_path th key level [] cur nodes = (cur, nodes)"
| "note_path th key level (sibling # ss) cur nodes =
    (let (cur, nodes) = note_path th key (Suc level) ss cur nodes;
         (left, right) = (if \<not> th_bit th key level then (cur, sibling) else (sibling, cur));
         parent = th_node th left right
     in (parent, nodes(parent \<mapsto> (left, right))))"

definition record_path ::
  "('k, 'h) trie_hash \<Rightarrow> ('k, 'h) inclusion_proof \<Rightarrow> 'h proof_backed_trie \<Rightarrow> 'h proof_backed_trie" where
  "record_path th p t =
    (let t = note_leaf th (ip_key_hash p) (ip_value p) t;
         (_, nodes) = note_path th (ip_key_hash p) 0 (ip_siblings p) (leaf_node th (ip_key_hash p) (ip_value p)) (pt_nodes t)
     in t\<lparr> pt_nodes := nodes \<rparr>)"

fun import_proofs ::
  "('k, 'h) trie_hash \<Rightarrow> ('k, 'h) inclusion_proof list \<Rightarrow> 'h proof_backed_trie \<Rightarrow>
   (unproven, 'h proof_backed_trie) result" where
  "import_proofs th [] t = Ok t"
| "import_proofs th (p # ps) t =
    (if \<not> verify_proof th (pt_root t) p then Err UnprovenKey else import_proofs th ps (record_path th p t))"

definition from_proofs ::
  "('k, 'h) trie_hash \<Rightarrow> 'h \<Rightarrow> ('k, 'h) inclusion_proof list \<Rightarrow> (unproven, 'h proof_backed_trie) result" where
  "from_proofs th root ps = import_proofs th ps \<lparr> pt_root = root, pt_nodes = Map.empty, pt_leaves = Map.empty \<rparr>"

definition pt_children :: "'h proof_backed_trie \<Rightarrow> 'h \<Rightarrow> (unproven, 'h \<times> 'h) result" where
  "pt_children t hash = ok_or UnprovenKey (pt_nodes t hash)"

definition pt_descend :: "('k, 'h) trie_hash \<Rightarrow> 'h proof_backed_trie \<Rightarrow> 'k \<Rightarrow> (unproven, 'h list \<times> 'h) result" where
  "pt_descend th t key = descend th (pt_children t) key 256 (pt_root t)"

definition pt_get :: "('k, 'h) trie_hash \<Rightarrow> 'h proof_backed_trie \<Rightarrow> 'k \<Rightarrow> (unproven, string option) result" where
  "pt_get th t key =
    and_then (pt_descend th t key) (\<lambda>(_, leaf).
    if leaf = th_empty th then Ok None
    else and_then (ok_or UnprovenKey (pt_leaves t leaf)) (\<lambda>x. Ok (Some x)))"

definition pt_apply ::
  "('k, 'h) trie_hash \<Rightarrow> 'h proof_backed_trie \<Rightarrow> 'k \<Rightarrow> string option \<Rightarrow> (unproven, 'h proof_backed_trie) result" where
  "pt_apply th t key new_value =
    and_then (pt_descend th t key) (\<lambda>(ss, _).
    (let t = note_leaf th key new_value t;
         (root, nodes) = note_path th key 0 ss (leaf_node th key new_value) (pt_nodes t)
     in Ok (t\<lparr> pt_nodes := nodes, pt_root := root \<rparr>)))"

section \<open>The root over a block's actions\<close>

text \<open>The length prefix of every hashed field is 8 bytes, little-endian.\<close>

definition execution_proof :: "(string \<Rightarrow> 'h) \<Rightarrow> string \<Rightarrow> string \<Rightarrow> string \<Rightarrow> nat \<Rightarrow> 'h" where
  "execution_proof sha pre_state_root tx post_state_root resources_used =
    sha (push_field (push_field (push_field (push_field [] pre_state_root) tx) post_state_root)
      (to_le_bytes 8 resources_used))"

fun pair_up :: "('h \<Rightarrow> 'h \<Rightarrow> 'h) \<Rightarrow> 'h list \<Rightarrow> 'h list" where
  "pair_up node (x # y # zs) = node x y # pair_up node zs"
| "pair_up node [x] = [x]"
| "pair_up node [] = []"

lemma length_pair_up: "length (pair_up node xs) = (Suc (length xs)) div 2"
  by (induction node xs rule: pair_up.induct) simp_all

function merkle_levels :: "('h \<Rightarrow> 'h \<Rightarrow> 'h) \<Rightarrow> 'h list \<Rightarrow> 'h list" where
  "merkle_levels node level = (if length level > 1 then merkle_levels node (pair_up node level) else level)"
  by pat_completeness auto
termination by (relation "measure (\<lambda>(node, level). length level)") (auto simp: length_pair_up)

declare merkle_levels.simps [simp del]

text \<open>The two hashes of the actions' tree, kept apart by their first byte.\<close>

definition action_leaf_hash :: "(string \<Rightarrow> 'h) \<Rightarrow> string \<Rightarrow> 'h" where
  "action_leaf_hash sha data = sha (char_of (0 :: nat) # data)"

definition action_node_hash :: "(string \<Rightarrow> 'h) \<Rightarrow> string \<Rightarrow> string \<Rightarrow> 'h" where
  "action_node_hash sha left right = sha (char_of (1 :: nat) # left @ right)"

text \<open>\<open>encode\<close> is the bincode encoding of an action, \<open>None\<close> where it fails.\<close>

definition action_hash :: "(string \<Rightarrow> 'h) \<Rightarrow> ('a \<Rightarrow> string option) \<Rightarrow> 'a \<Rightarrow> 'h option" where
  "action_hash leaf encode act = map_option leaf (encode act)"

definition tx_root ::
  "(string \<Rightarrow> 'h) \<Rightarrow> ('h \<Rightarrow> 'h \<Rightarrow> 'h) \<Rightarrow> 'h \<Rightarrow> ('a \<Rightarrow> string option) \<Rightarrow> 'a list \<Rightarrow> 'h option" where
  "tx_root leaf node zero encode actions =
    Option.bind (those (map (action_hash leaf encode) actions)) (\<lambda>level.
    if level = [] then Some zero else Some (hd (merkle_levels node level)))"

section \<open>The tree a root stands for\<close>

text \<open>
  The reference: a full binary tree with a leaf node at every path of 256 bits. \<open>merkle th f d p\<close> hashes its subtree at
  path \<open>p\<close>, \<open>d\<close> levels above the leaves.
\<close>

fun merkle :: "('k, 'h) trie_hash \<Rightarrow> (bool list \<Rightarrow> 'h) \<Rightarrow> nat \<Rightarrow> bool list \<Rightarrow> 'h" where
  "merkle th f 0 p = f p"
| "merkle th f (Suc d) p = th_node th (merkle th f d (p @ [False])) (merkle th f d (p @ [True]))"

definition key_path :: "('k, 'h) trie_hash \<Rightarrow> 'k \<Rightarrow> bool list" where
  "key_path th key = map (th_bit th key) [0..<256]"

definition state_root_of :: "('k, 'h) trie_hash \<Rightarrow> (bool list \<Rightarrow> 'h) \<Rightarrow> 'h" where
  "state_root_of th f = merkle th f 256 []"

lemma length_key_path [simp]: "length (key_path th key) = 256"
  by (simp add: key_path_def)

lemma key_path_nth: "i < 256 \<Longrightarrow> key_path th key ! i = th_bit th key i"
  by (simp add: key_path_def)

lemma collision_freeD:
  "collision_free th \<Longrightarrow> th_node th l r = th_node th l' r' \<longleftrightarrow> l = l' \<and> r = r'"
  "collision_free th \<Longrightarrow> th_leaf th k x = th_leaf th k' x' \<longleftrightarrow> k = k' \<and> x = x'"
  "collision_free th \<Longrightarrow> th_leaf th k x \<noteq> th_empty th"
  unfolding collision_free_def by blast+

lemma leaf_node_inj: "collision_free th \<Longrightarrow> leaf_node th k x = leaf_node th k y \<longleftrightarrow> x = y"
proof -
  assume c: "collision_free th"
  note d = collision_freeD(2) [OF c, of k _ k] collision_freeD(3) [OF c, of k] not_sym [OF collision_freeD(3) [OF c, of k]]
  show ?thesis by (cases x; cases y) (simp_all add: leaf_node_def d)
qed

text \<open>Under a path that is not on the way to \<open>q\<close>, nothing depends on the leaf at \<open>q\<close>.\<close>

lemma merkle_off_path: "take (length p) q \<noteq> p \<Longrightarrow> length q = length p + d \<Longrightarrow> merkle th (f(q := x)) d p = merkle th f d p"
proof (induction d arbitrary: p)
  case (Suc d)
  have "take (length (p @ [b])) q \<noteq> p @ [b]" for b
  proof
    assume a: "take (length (p @ [b])) q = p @ [b]"
    have "take (length p) q = take (length p) (take (length (p @ [b])) q)" by simp
    also have "\<dots> = p" unfolding a by simp
    finally show False using Suc.prems(1) by simp
  qed
  then show ?case using Suc.IH [of "p @ [False]"] Suc.IH [of "p @ [True]"] Suc.prems(2) by simp
qed auto

text \<open>The siblings on the way down to a leaf.\<close>

fun siblings_of :: "('k, 'h) trie_hash \<Rightarrow> (bool list \<Rightarrow> 'h) \<Rightarrow> nat \<Rightarrow> bool list \<Rightarrow> bool list \<Rightarrow> 'h list" where
  "siblings_of th f 0 p q = []"
| "siblings_of th f (Suc d) p q =
    merkle th f d (p @ [\<not> hd q]) # siblings_of th f d (p @ [hd q]) (tl q)"

lemma length_siblings_of [simp]: "length (siblings_of th f d p q) = d"
  by (induction d arbitrary: p q) simp_all

text \<open>Climbing from a new leaf through these siblings gives the root with that leaf replaced.\<close>

lemma climb_siblings:
  assumes "d \<le> 256" "p = take (256 - d) (key_path th key)" "q = drop (256 - d) (key_path th key)"
  shows "climb th key (256 - d) (siblings_of th f d p q) x = merkle th (f(key_path th key := x)) d p"
  using assms
proof (induction d arbitrary: p q)
  case 0
  then show ?case by simp
next
  case (Suc d)
  let ?k = "key_path th key" and ?l = "255 - d"
  have l: "256 - Suc d = ?l" "Suc ?l = 256 - d" "?l < 256" using Suc.prems(1) by simp_all
  have hq: "hd q = th_bit th key ?l" using Suc.prems(3) l by (simp add: hd_drop_conv_nth key_path_nth)
  have p': "p @ [hd q] = take (256 - d) ?k"
    using Suc.prems(2) hq l take_Suc_conv_app_nth [of ?l ?k] by (simp add: key_path_nth)
  have q': "tl q = drop (256 - d) ?k" using Suc.prems(3) l by (simp add: tl_drop drop_Suc flip: l(2))
  have ih: "climb th key (256 - d) (siblings_of th f d (p @ [hd q]) (tl q)) x = merkle th (f(?k := x)) d (p @ [hd q])"
    by (rule Suc.IH) (use Suc.prems(1) p' q' in simp_all)
  have off: "merkle th (f(?k := x)) d (p @ [\<not> hd q]) = merkle th f d (p @ [\<not> hd q])"
  proof (rule merkle_off_path)
    have "length (p @ [\<not> hd q]) = 256 - d" using Suc.prems(1,2) by simp
    then have "take (length (p @ [\<not> hd q])) ?k = p @ [hd q]" using p' by simp
    then show "take (length (p @ [\<not> hd q])) ?k \<noteq> p @ [\<not> hd q]" by simp
    show "length ?k = length (p @ [\<not> hd q]) + d" using Suc.prems(1,2) by simp
  qed
  show ?case unfolding l(1) using ih off hq l by (cases "th_bit th key ?l") (simp_all add: Let_def del: fun_upd_apply)
qed

lemma climb_inj:
  "collision_free th \<Longrightarrow> length ss = length ss' \<Longrightarrow> climb th key level ss x = climb th key level ss' x' \<Longrightarrow> ss = ss' \<and> x = x'"
proof (induction ss ss' arbitrary: level rule: list_induct2')
  case (4 s ss s' ss')
  note n = collision_freeD(1) [OF "4.prems"(1)]
  have "climb th key (Suc level) ss x = climb th key (Suc level) ss' x' \<and> s = s'"
    using "4.prems"(3) by (cases "th_bit th key level") (auto simp: Let_def n)
  then show ?case using "4.IH" [OF "4.prems"(1)] "4.prems"(2) by auto
qed auto

lemma climb_own:
  "climb th key 0 (siblings_of th f 256 [] (key_path th key)) (f (key_path th key)) = state_root_of th f"
  using climb_siblings [of 256 "[]" th key "key_path th key" f "f (key_path th key)"] by (simp add: state_root_of_def)

lemma climb_update:
  "climb th key 0 (siblings_of th f 256 [] (key_path th key)) x = state_root_of th (f(key_path th key := x))"
  using climb_siblings [of 256 "[]" th key "key_path th key" f x] by (simp add: state_root_of_def del: fun_upd_apply)

text \<open>What a proof against the root of a state shows.\<close>

lemma verify_proof_iff:
  assumes "collision_free th"
  shows "verify_proof th (state_root_of th f) p \<longleftrightarrow>
    f (key_path th (ip_key_hash p)) = leaf_node th (ip_key_hash p) (ip_value p) \<and>
    ip_siblings p = siblings_of th f 256 [] (key_path th (ip_key_hash p))"
proof -
  let ?k = "ip_key_hash p" and ?x = "leaf_node th (ip_key_hash p) (ip_value p)"
  let ?s = "siblings_of th f 256 [] (key_path th ?k)"
  have "verify_proof th (state_root_of th f) p \<longleftrightarrow> length (ip_siblings p) = length ?s \<and>
      climb th ?k 0 (ip_siblings p) ?x = climb th ?k 0 ?s (f (key_path th ?k))"
    by (simp add: verify_proof_def climb_own)
  also have "\<dots> \<longleftrightarrow> ip_siblings p = ?s \<and> ?x = f (key_path th ?k)" using climb_inj [OF assms] by metis
  finally show ?thesis by auto
qed

section \<open>A trie rebuilt from proofs\<close>

lemma descend_merkle:
  assumes "collision_free th" and "\<And>h l r. children h = Ok (l, r) \<Longrightarrow> h = th_node th l r"
    and "d \<le> 256" "p = take (256 - d) (key_path th key)" "q = drop (256 - d) (key_path th key)"
    and "descend th children key d (merkle th f d p) = Ok (ss, leaf)"
  shows "ss = siblings_of th f d p q \<and> leaf = f (key_path th key)"
  using assms(3-)
proof (induction d arbitrary: p q ss)
  case 0
  then show ?case by simp
next
  case (Suc d)
  let ?k = "key_path th key" and ?l = "255 - d"
  have l: "Suc ?l = 256 - d" "?l < 256" using Suc.prems(1) by simp_all
  have hq: "hd q = th_bit th key ?l" using Suc.prems(3) l by (simp add: hd_drop_conv_nth key_path_nth)
  have p': "p @ [hd q] = take (256 - d) ?k"
    using Suc.prems(2) hq l take_Suc_conv_app_nth [of ?l ?k] by (simp add: key_path_nth)
  have q': "tl q = drop (256 - d) ?k" using Suc.prems(3) l by (simp add: tl_drop drop_Suc flip: l(1))
  note n = collision_freeD(1) [OF assms(1)]
  have step: "\<exists>ss'. ss = merkle th f d (p @ [\<not> hd q]) # ss' \<and>
      descend th children key d (merkle th f d (p @ [hd q])) = Ok (ss', leaf)"
  proof (cases "merkle th f (Suc d) p = default_hash th (Suc d)")
    case True
    then have "merkle th f d (p @ [b]) = default_hash th d" for b by (cases b) (simp_all add: n)
    then show ?thesis using Suc.prems(4) True by auto
  next
    case False
    then obtain lr where lr: "children (merkle th f (Suc d) p) = Ok lr" using Suc.prems(4) by auto
    obtain left right where e: "lr = (left, right)" by (cases lr)
    from assms(2) [OF lr [unfolded e]] have "left = merkle th f d (p @ [False])" "right = merkle th f d (p @ [True])"
      by (simp_all add: n)
    then show ?thesis using Suc.prems(4) False lr e hq by (cases "th_bit th key ?l") (auto simp: Let_def)
  qed
  then obtain ss' where "ss = merkle th f d (p @ [\<not> hd q]) # ss'"
    "descend th children key d (merkle th f d (p @ [hd q])) = Ok (ss', leaf)" by blast
  with Suc.IH [OF _ p' q'] Suc.prems(1) show ?case by simp
qed

text \<open>What the maps of a rebuilt trie may hold.\<close>

definition trie_sound :: "('k, 'h) trie_hash \<Rightarrow> 'h proof_backed_trie \<Rightarrow> bool" where
  "trie_sound th t \<longleftrightarrow> (\<forall>h l r. pt_nodes t h = Some (l, r) \<longrightarrow> h = th_node th l r) \<and>
     (\<forall>h x. pt_leaves t h = Some x \<longrightarrow> (\<exists>k. h = th_leaf th k x))"

lemma note_path_climb: "fst (note_path th key level ss x nodes) = climb th key level ss x"
  by (induction ss arbitrary: level) (simp_all add: Let_def case_prod_beta)

lemma note_path_sound:
  "(\<And>h l r. nodes h = Some (l, r) \<Longrightarrow> h = th_node th l r) \<Longrightarrow>
   snd (note_path th key level ss x nodes) h = Some (l, r) \<Longrightarrow> h = th_node th l r"
proof (induction ss arbitrary: level h l r)
  case (Cons s ss)
  let ?n = "note_path th key (Suc level) ss x nodes"
  show ?case
    using Cons.prems(2) Cons.IH [OF Cons.prems(1), of "Suc level" h l r]
    by (cases "th_bit th key level") (simp_all add: Let_def case_prod_beta split: if_splits)
qed simp

lemma note_leaf_sound: "trie_sound th t \<Longrightarrow> trie_sound th (note_leaf th key val t)"
  by (auto simp: trie_sound_def note_leaf_def split: option.splits)

lemma note_leaf_keeps [simp]: "pt_root (note_leaf th key val t) = pt_root t" "pt_nodes (note_leaf th key val t) = pt_nodes t"
  by (simp_all add: note_leaf_def split: option.split)

lemma with_path_sound:
  assumes "trie_sound th t"
  shows "trie_sound th (t\<lparr> pt_nodes := snd (note_path th key level ss x (pt_nodes t)) \<rparr>)"
proof -
  have n: "\<And>h l r. pt_nodes t h = Some (l, r) \<Longrightarrow> h = th_node th l r" using assms unfolding trie_sound_def by blast
  have "\<forall>h l r. snd (note_path th key level ss x (pt_nodes t)) h = Some (l, r) \<longrightarrow> h = th_node th l r"
    by (intro allI impI, rule note_path_sound [OF n])
  then show ?thesis using assms unfolding trie_sound_def by simp
qed

lemma record_path_sound:
  assumes "trie_sound th t"
  shows "trie_sound th (record_path th p t) \<and> pt_root (record_path th p t) = pt_root t"
  using with_path_sound [OF note_leaf_sound [OF assms, of "ip_key_hash p" "ip_value p"], of "ip_key_hash p" 0 "ip_siblings p"]
  by (simp add: record_path_def Let_def case_prod_beta)

lemma import_proofs_sound:
  "import_proofs th ps t = Ok t' \<Longrightarrow> trie_sound th t \<Longrightarrow> trie_sound th t' \<and> pt_root t' = pt_root t"
  by (induction th ps t rule: import_proofs.induct) (auto simp: record_path_sound split: if_splits)

lemma from_proofs_sound: "from_proofs th root ps = Ok t \<Longrightarrow> trie_sound th t \<and> pt_root t = root"
  using import_proofs_sound [of th ps "\<lparr> pt_root = root, pt_nodes = Map.empty, pt_leaves = Map.empty \<rparr>" t]
  by (simp add: from_proofs_def trie_sound_def)

subsection \<open>What a path knows\<close>

lemma note_path_mono: "dom nodes \<subseteq> dom (snd (note_path th key level ss x nodes))"
  by (induction ss arbitrary: level) (auto simp: Let_def case_prod_beta)

lemma note_path_has:
  "i < length ss \<Longrightarrow> climb th key (level + i) (drop i ss) x \<in> dom (snd (note_path th key level ss x nodes))"
proof (induction ss arbitrary: level i)
  case (Cons s ss)
  let ?n = "note_path th key (Suc level) ss x nodes"
  have c: "fst ?n = climb th key (Suc level) ss x" by (rule note_path_climb)
  show ?case
  proof (cases i)
    case 0
    then show ?thesis by (cases "th_bit th key level") (simp_all add: Let_def case_prod_beta c dom_def)
  next
    case (Suc j)
    then have "climb th key (level + i) (drop i (s # ss)) x \<in> dom (snd ?n)" using Cons.IH [of j "Suc level"] Cons.prems by simp
    then show ?thesis by (auto simp: Let_def case_prod_beta)
  qed
qed simp

lemma drop_siblings_of: "i \<le> d \<Longrightarrow> i \<le> length q \<Longrightarrow> drop i (siblings_of th f d p q) = siblings_of th f (d - i) (p @ take i q) (drop i q)"
proof (induction i arbitrary: d p q)
  case (Suc i)
  then obtain e b r where "d = Suc e" "q = b # r" by (cases d; cases q) auto
  with Suc show ?case by simp
qed simp

text \<open>The nodes on a key's path are known, or empty subtrees.\<close>

definition path_known :: "('k, 'h) trie_hash \<Rightarrow> (bool list \<Rightarrow> 'h) \<Rightarrow> ('h \<rightharpoonup> 'h \<times> 'h) \<Rightarrow> 'k \<Rightarrow> bool" where
  "path_known th f nodes key \<longleftrightarrow>
    (\<forall>i<256. merkle th f (256 - i) (take i (key_path th key)) \<in> insert (default_hash th (256 - i)) (dom nodes))"

lemma path_noted:
  assumes "i < 256"
  shows "merkle th (f(key_path th key := x)) (256 - i) (take i (key_path th key)) \<in>
    dom (snd (note_path th key 0 (siblings_of th f 256 [] (key_path th key)) x nodes))"
proof -
  let ?k = "key_path th key"
  have "drop i (siblings_of th f 256 [] ?k) = siblings_of th f (256 - i) (take i ?k) (drop i ?k)"
    using assms drop_siblings_of [of i 256 ?k th f "[]"] by simp
  moreover have "climb th key i (siblings_of th f (256 - i) (take i ?k) (drop i ?k)) x =
      merkle th (f(?k := x)) (256 - i) (take i ?k)"
    using climb_siblings [of "256 - i" "take i ?k" th key "drop i ?k" f x] assms by simp
  ultimately show ?thesis
    using note_path_has [of i "siblings_of th f 256 [] ?k" th key 0 x nodes] assms by simp
qed

lemma descend_known:
  assumes "collision_free th" and "\<And>h l r. pt_nodes t h = Some (l, r) \<Longrightarrow> h = th_node th l r"
    and "path_known th f (pt_nodes t) key" and "d \<le> 256" and "p = take (256 - d) (key_path th key)"
  shows "\<exists>ss leaf. descend th (pt_children t) key d (merkle th f d p) = Ok (ss, leaf)"
  using assms(4,5)
proof (induction d arbitrary: p)
  case (Suc d)
  let ?k = "key_path th key" and ?l = "255 - d"
  have l: "Suc ?l = 256 - d" "?l < 256" "256 - ?l = Suc d" using Suc.prems(1) by simp_all
  have p': "p @ [th_bit th key ?l] = take (256 - d) ?k"
    using Suc.prems(2) l take_Suc_conv_app_nth [of ?l ?k] by (simp add: key_path_nth)
  note n = collision_freeD(1) [OF assms(1)]
  from Suc.IH [OF _ p'] Suc.prems(1) obtain ss leaf where
    ih: "descend th (pt_children t) key d (merkle th f d (p @ [th_bit th key ?l])) = Ok (ss, leaf)" by auto
  show ?case
  proof (cases "merkle th f (Suc d) p = default_hash th (Suc d)")
    case True
    then have "merkle th f d (p @ [b]) = default_hash th d" for b by (cases b) (simp_all add: n)
    then show ?thesis using True ih by simp
  next
    case False
    have "merkle th f (256 - ?l) (take ?l ?k) \<in> insert (default_hash th (256 - ?l)) (dom (pt_nodes t))"
      using assms(3) l(2) unfolding path_known_def by blast
    then have "merkle th f (Suc d) p \<in> dom (pt_nodes t)" using False Suc.prems(2) unfolding l(3) by simp
    then obtain lr where lr: "pt_nodes t (merkle th f (Suc d) p) = Some lr" by auto
    obtain left right where e: "lr = (left, right)" by (cases lr)
    from assms(2) [OF lr [unfolded e]] have "left = merkle th f d (p @ [False])" "right = merkle th f d (p @ [True])"
      by (simp_all add: n)
    then have "pt_children t (merkle th f (Suc d) p) = Ok (merkle th f d (p @ [False]), merkle th f d (p @ [True]))"
      using lr e by (simp add: pt_children_def)
    then show ?thesis using False ih by (cases "th_bit th key ?l") (simp_all add: Let_def)
  qed
qed simp


subsection \<open>The state behind the leaves\<close>

definition leaf_layer :: "('k, 'h) trie_hash \<Rightarrow> ('k \<rightharpoonup> string) \<Rightarrow> bool list \<Rightarrow> 'h" where
  "leaf_layer th m p =
    (if p \<in> range (key_path th) then leaf_node th (inv (key_path th) p) (m (inv (key_path th) p)) else th_empty th)"

definition state_root :: "('k, 'h) trie_hash \<Rightarrow> ('k \<rightharpoonup> string) \<Rightarrow> 'h" where
  "state_root th m = state_root_of th (leaf_layer th m)"

lemma leaf_layer_key [simp]: "inj (key_path th) \<Longrightarrow> leaf_layer th m (key_path th k) = leaf_node th k (m k)"
  by (simp add: leaf_layer_def inv_f_f)

lemma leaf_layer_upd:
  assumes "inj (key_path th)"
  shows "leaf_layer th (m(k := x)) = (leaf_layer th m)(key_path th k := leaf_node th k x)"
proof
  fix p
  show "leaf_layer th (m(k := x)) p = ((leaf_layer th m)(key_path th k := leaf_node th k x)) p"
    using assms by (auto simp: leaf_layer_def inv_f_f inj_eq)
qed

text \<open>The state of a rebuilt trie: it holds the root of \<open>m\<close>, and knows the path and the value of every key of \<open>K\<close>.\<close>

definition trie_holds :: "('k, 'h) trie_hash \<Rightarrow> ('k \<rightharpoonup> string) \<Rightarrow> 'k set \<Rightarrow> 'h proof_backed_trie \<Rightarrow> bool" where
  "trie_holds th m K t \<longleftrightarrow> trie_sound th t \<and> pt_root t = state_root th m \<and>
     (\<forall>k\<in>K. path_known th (leaf_layer th m) (pt_nodes t) k \<and>
        (\<forall>x. m k = Some x \<longrightarrow> pt_leaves t (th_leaf th k x) = Some x))"

lemma trie_sound_children: "trie_sound th t \<Longrightarrow> pt_children t h = Ok (l, r) \<Longrightarrow> h = th_node th l r"
  by (auto simp: trie_sound_def pt_children_def ok_or_def split: option.splits)

lemma pt_descend_sound:
  assumes "collision_free th" "trie_sound th t" "pt_root t = state_root_of th f" "pt_descend th t key = Ok (ss, leaf)"
  shows "ss = siblings_of th f 256 [] (key_path th key)" "leaf = f (key_path th key)"
proof -
  have "descend th (pt_children t) key 256 (merkle th f 256 []) = Ok (ss, leaf)"
    using assms(3,4) by (simp add: pt_descend_def state_root_of_def)
  from descend_merkle [OF assms(1) trie_sound_children [OF assms(2)] _ _ _ this, of "key_path th key"]
  show "ss = siblings_of th f 256 [] (key_path th key)" "leaf = f (key_path th key)" by simp_all
qed

lemma pt_descend_known:
  assumes "collision_free th" "trie_sound th t" "pt_root t = state_root_of th f" "path_known th f (pt_nodes t) key"
  shows "pt_descend th t key = Ok (siblings_of th f 256 [] (key_path th key), f (key_path th key))"
proof -
  have n: "\<And>h l r. pt_nodes t h = Some (l, r) \<Longrightarrow> h = th_node th l r" using assms(2) unfolding trie_sound_def by blast
  from descend_known [OF assms(1) n assms(4), of 256 "[]"] obtain ss leaf where
    r: "pt_descend th t key = Ok (ss, leaf)"
    using assms(3) by (auto simp: pt_descend_def state_root_of_def)
  from pt_descend_sound [OF assms(1,2,3) r] show ?thesis using r by simp
qed


lemma pt_get_sound_at:
  assumes c: "collision_free th" "inj (key_path th)" and t: "trie_sound th t" "pt_root t = state_root th m"
    and get: "pt_get th t key = Ok v"
  shows "v = m key"
proof -
  obtain ss leaf where d: "pt_descend th t key = Ok (ss, leaf)" using get by (auto simp: pt_get_def)
  have l: "leaf = leaf_node th key (m key)"
    using pt_descend_sound(2) [OF c(1) t(1) _ d] t(2) c(2) by (simp add: state_root_def)
  note n = collision_freeD(2,3) [OF c(1)]
  show ?thesis
  proof (cases "m key")
    case None
    then show ?thesis using get d l by (simp add: pt_get_def leaf_node_def)
  next
    case (Some x)
    then have e: "leaf = th_leaf th key x" using l by (simp add: leaf_node_def)
    then obtain y where y: "pt_leaves t leaf = Some y" "v = Some y" using get d n by (auto simp: pt_get_def)
    then obtain k where "leaf = th_leaf th k y" using t(1) unfolding trie_sound_def by blast
    then show ?thesis using e y(2) Some by (simp add: n)
  qed
qed

lemma pt_get_held:
  assumes "collision_free th" "inj (key_path th)" "trie_holds th m K t" "key \<in> K"
  shows "pt_get th t key = Ok (m key)"
proof -
  have t: "trie_sound th t" "pt_root t = state_root_of th (leaf_layer th m)"
    "path_known th (leaf_layer th m) (pt_nodes t) key" "\<And>x. m key = Some x \<Longrightarrow> pt_leaves t (th_leaf th key x) = Some x"
    using assms(3,4) unfolding trie_holds_def state_root_def by blast+
  from pt_descend_known [OF assms(1) t(1-3)] show ?thesis
    using t(4) collision_freeD(3) [OF assms(1)] assms(2)
    by (cases "m key") (simp_all add: pt_get_def leaf_node_def)
qed

lemma path_known_mono: "path_known th f nodes k \<Longrightarrow> dom nodes \<subseteq> dom nodes' \<Longrightarrow> path_known th f nodes' k"
  unfolding path_known_def by blast

text \<open>Noting a path keeps what is known of every other path, with the leaf at the end of the noted one replaced.\<close>

lemma path_known_note:
  assumes "k = key \<or> path_known th f nodes k"
  shows "path_known th (f(key_path th key := x)) (snd (note_path th key 0 (siblings_of th f 256 [] (key_path th key)) x nodes)) k"
    (is "path_known th ?f ?nodes k")
  unfolding path_known_def
proof (intro allI impI)
  fix i :: nat assume i: "i < 256"
  let ?p = "take i (key_path th k)"
  show "merkle th ?f (256 - i) ?p \<in> insert (default_hash th (256 - i)) (dom ?nodes)"
  proof (cases "take i (key_path th key) = ?p")
    case True
    then show ?thesis using path_noted [OF i, of th f key x nodes] by simp
  next
    case False
    then have "merkle th ?f (256 - i) ?p = merkle th f (256 - i) ?p" using i by (intro merkle_off_path) simp_all
    moreover have "k \<noteq> key" using False by auto
    ultimately show ?thesis using assms i note_path_mono [of nodes th key 0 "siblings_of th f 256 [] (key_path th key)" x]
      unfolding path_known_def by (auto simp del: fun_upd_apply)
  qed
qed

lemma note_leaf_leaves:
  "collision_free th \<Longrightarrow> pt_leaves (note_leaf th key val t) (th_leaf th k x) =
    (if val = Some x \<and> k = key then Some x else pt_leaves t (th_leaf th k x))"
  using collision_freeD(2) [of th] by (auto simp: note_leaf_def split: option.splits)

lemma record_path_holds:
  assumes c: "collision_free th" "inj (key_path th)" and h: "trie_holds th m K t" and v: "verify_proof th (pt_root t) p"
  shows "trie_holds th m (insert (ip_key_hash p) K) (record_path th p t) \<and> ip_value p = m (ip_key_hash p)"
proof -
  let ?f = "leaf_layer th m" and ?k = "ip_key_hash p"
  let ?x = "leaf_node th ?k (ip_value p)" and ?s = "siblings_of th ?f 256 [] (key_path th ?k)"
  have t: "trie_sound th t" "pt_root t = state_root_of th ?f" using h by (simp_all add: trie_holds_def state_root_def)
  from v have iff: "?f (key_path th ?k) = ?x" "ip_siblings p = ?s" unfolding t(2) verify_proof_iff [OF c(1)] by blast+
  then have val: "ip_value p = m ?k" using c(2) by (simp add: leaf_node_inj [OF c(1)])
  have r: "record_path th p t = (note_leaf th ?k (ip_value p) t)\<lparr> pt_nodes := snd (note_path th ?k 0 ?s ?x (pt_nodes t)) \<rparr>"
    by (simp add: record_path_def Let_def case_prod_beta iff(2))
  have "path_known th ?f (pt_nodes (record_path th p t)) k \<and>
      (\<forall>x. m k = Some x \<longrightarrow> pt_leaves (record_path th p t) (th_leaf th k x) = Some x)" if "k \<in> insert ?k K" for k
  proof
    have "k = ?k \<or> path_known th ?f (pt_nodes t) k" using that h by (auto simp: trie_holds_def)
    from path_known_note [OF this, of ?x] show "path_known th ?f (pt_nodes (record_path th p t)) k"
      unfolding r using iff(1) by (simp del: fun_upd_apply add: fun_upd_idem)
    show "\<forall>x. m k = Some x \<longrightarrow> pt_leaves (record_path th p t) (th_leaf th k x) = Some x"
      using that h val by (auto simp: r note_leaf_leaves [OF c(1)] trie_holds_def)
  qed
  then show ?thesis using val record_path_sound [OF t(1), of p] t(2) by (simp add: trie_holds_def state_root_def)
qed

lemma import_proofs_holds:
  assumes "collision_free th" "inj (key_path th)"
  shows "import_proofs th ps t = Ok t' \<Longrightarrow> trie_holds th m K t \<Longrightarrow> trie_holds th m (ip_key_hash ` set ps \<union> K) t'"
proof (induction ps arbitrary: t K)
  case (Cons p ps)
  from Cons.prems(1) have v: "verify_proof th (pt_root t) p" "import_proofs th ps (record_path th p t) = Ok t'"
    by (auto split: if_splits)
  from Cons.IH [OF v(2) conjunct1 [OF record_path_holds [OF assms Cons.prems(2) v(1)]]] show ?case by simp
qed simp

lemma from_proofs_holds:
  assumes "collision_free th" "inj (key_path th)" "from_proofs th (state_root th m) ps = Ok t"
  shows "trie_holds th m (ip_key_hash ` set ps) t"
proof -
  have "trie_holds th m {} \<lparr> pt_root = state_root th m, pt_nodes = Map.empty, pt_leaves = Map.empty \<rparr>"
    by (simp add: trie_holds_def trie_sound_def)
  from import_proofs_holds [OF assms(1,2) assms(3) [unfolded from_proofs_def] this] show ?thesis by simp
qed

text \<open>A write to a key whose path is known is the write to the state.\<close>

lemma pt_apply_holds:
  assumes c: "collision_free th" "inj (key_path th)" and h: "trie_holds th m K t" and k: "key \<in> K"
  shows "\<exists>t'. pt_apply th t key val = Ok t' \<and> trie_holds th (m(key := val)) K t'"
proof -
  let ?f = "leaf_layer th m" and ?x = "leaf_node th key val"
  let ?s = "siblings_of th ?f 256 [] (key_path th key)"
  have t: "trie_sound th t" "pt_root t = state_root_of th ?f" "path_known th ?f (pt_nodes t) key"
    using h k by (simp_all add: trie_holds_def state_root_def)
  note d = pt_descend_known [OF c(1) t]
  define t' where "t' = (note_leaf th key val t)\<lparr> pt_nodes := snd (note_path th key 0 ?s ?x (pt_nodes t)),
    pt_root := climb th key 0 ?s ?x \<rparr>"
  have a: "pt_apply th t key val = Ok t'"
    by (simp add: pt_apply_def d Let_def case_prod_beta note_path_climb t'_def)
  have f': "leaf_layer th (m(key := val)) = ?f(key_path th key := ?x)" by (rule leaf_layer_upd [OF c(2)])
  have root: "pt_root t' = state_root th (m(key := val))"
    unfolding state_root_def f' climb_update [symmetric] by (simp add: t'_def)
  have "trie_sound th t'"
    using with_path_sound [OF note_leaf_sound [OF t(1), of key val], of key 0 ?s ?x] by (simp add: t'_def trie_sound_def)
  moreover have "path_known th (leaf_layer th (m(key := val))) (pt_nodes t') k \<and>
      (\<forall>x. (m(key := val)) k = Some x \<longrightarrow> pt_leaves t' (th_leaf th k x) = Some x)" if "k \<in> K" for k
  proof
    have "k = key \<or> path_known th ?f (pt_nodes t) k" using that h by (auto simp: trie_holds_def)
    from path_known_note [OF this, of ?x] show "path_known th (leaf_layer th (m(key := val))) (pt_nodes t') k"
      unfolding f' by (simp add: t'_def del: fun_upd_apply)
    show "\<forall>x. (m(key := val)) k = Some x \<longrightarrow> pt_leaves t' (th_leaf th k x) = Some x"
      using that h by (auto simp: t'_def note_leaf_leaves [OF c(1)] trie_holds_def)
  qed
  ultimately show ?thesis using a root by (simp add: trie_holds_def)
qed

text \<open>An update nobody proved is refused or right: it never gives a wrong root.\<close>

lemma pt_apply_root:
  assumes c: "collision_free th" "inj (key_path th)" and t: "trie_sound th t" "pt_root t = state_root th m"
    and a: "pt_apply th t key val = Ok t'"
  shows "pt_root t' = state_root th (m(key := val)) \<and> trie_sound th t'"
proof -
  obtain ss leaf where d: "pt_descend th t key = Ok (ss, leaf)" using a by (auto simp: pt_apply_def)
  have ss: "ss = siblings_of th (leaf_layer th m) 256 [] (key_path th key)"
    using pt_descend_sound(1) [OF c(1) t(1) _ d] t(2) by (simp add: state_root_def)
  have t': "t' = (note_leaf th key val t)\<lparr> pt_nodes := snd (note_path th key 0 ss (leaf_node th key val) (pt_nodes t)),
      pt_root := climb th key 0 ss (leaf_node th key val) \<rparr>"
    using a d by (simp add: pt_apply_def Let_def case_prod_beta note_path_climb)
  then have "pt_root t' = state_root th (m(key := val))"
    by (simp add: ss climb_update state_root_def leaf_layer_upd [OF c(2)] del: fun_upd_apply)
  moreover have "trie_sound th t'"
    using with_path_sound [OF note_leaf_sound [OF t(1), of key val], of key 0 ss] by (simp add: t' trie_sound_def)
  ultimately show ?thesis by blast
qed


text \<open>A sequence of writes, as a replay of an execution makes them.\<close>

fun pt_apply_all ::
  "('k, 'h) trie_hash \<Rightarrow> ('k \<times> string option) list \<Rightarrow> 'h proof_backed_trie \<Rightarrow> (unproven, 'h proof_backed_trie) result" where
  "pt_apply_all th [] t = Ok t"
| "pt_apply_all th ((k, x) # ws) t = and_then (pt_apply th t k x) (pt_apply_all th ws)"

definition write_all :: "('k \<times> 'v option) list \<Rightarrow> ('k \<rightharpoonup> 'v) \<Rightarrow> ('k \<rightharpoonup> 'v)" where
  "write_all ws m = fold (\<lambda>(k, x) m. m(k := x)) ws m"

lemma write_all_simps [simp]: "write_all [] m = m" "write_all ((k, x) # ws) m = write_all ws (m(k := x))"
  by (simp_all add: write_all_def)

lemma pt_apply_all_holds:
  assumes "collision_free th" "inj (key_path th)"
  shows "trie_holds th m K t \<Longrightarrow> fst ` set ws \<subseteq> K \<Longrightarrow>
    \<exists>t'. pt_apply_all th ws t = Ok t' \<and> trie_holds th (write_all ws m) K t'"
proof (induction ws arbitrary: m t)
  case (Cons w ws)
  obtain k x where w: "w = (k, x)" by (cases w)
  have "k \<in> K" using Cons.prems(2) w by simp
  from pt_apply_holds [OF assms Cons.prems(1) this, of x] obtain t1 where
    "pt_apply th t k x = Ok t1" "trie_holds th (m(k := x)) K t1" by blast
  with Cons.IH [of "m(k := x)" t1] Cons.prems(2) w show ?case by (simp del: fun_upd_apply)
qed simp

lemma pt_apply_all_root:
  assumes "collision_free th" "inj (key_path th)"
  shows "trie_sound th t \<Longrightarrow> pt_root t = state_root th m \<Longrightarrow> pt_apply_all th ws t = Ok t' \<Longrightarrow>
    trie_sound th t' \<and> pt_root t' = state_root th (write_all ws m)"
proof (induction ws arbitrary: m t)
  case (Cons w ws)
  obtain k x where w: "w = (k, x)" by (cases w)
  from Cons.prems(3) w obtain t1 where t1: "pt_apply th t k x = Ok t1" "pt_apply_all th ws t1 = Ok t'" by auto
  from pt_apply_root [OF assms Cons.prems(1,2) t1(1)] Cons.IH [OF _ _ t1(2)] show ?case by (simp add: w)
qed simp

section \<open>The root of a whole state\<close>

text \<open>The entries under a path, and the leaf they leave there.\<close>

lemma merkle_cong: "(\<And>q. length q = length p + d \<Longrightarrow> take (length p) q = p \<Longrightarrow> f q = g q) \<Longrightarrow> merkle th f d p = merkle th g d p"
proof (induction d arbitrary: p)
  case (Suc d)
  have "merkle th f d (p @ [b]) = merkle th g d (p @ [b])" for b
  proof (rule Suc.IH)
    fix q assume q: "length q = length (p @ [b]) + d" "take (length (p @ [b])) q = p @ [b]"
    have "take (length p) q = take (length p) (take (length (p @ [b])) q)" by simp
    also have "\<dots> = p" unfolding q(2) by simp
    finally show "f q = g q" using q(1) by (intro Suc.prems) simp_all
  qed
  then show ?case by simp
qed simp

lemma merkle_empty: "(\<And>q. length q = length p + d \<Longrightarrow> take (length p) q = p \<Longrightarrow> f q = th_empty th) \<Longrightarrow> merkle th f d p = default_hash th d"
proof -
  assume "\<And>q. length q = length p + d \<Longrightarrow> take (length p) q = p \<Longrightarrow> f q = th_empty th"
  then have "merkle th f d p = merkle th (\<lambda>_. th_empty th) d p" by (intro merkle_cong) simp
  also have "\<dots> = default_hash th d" by (induction d arbitrary: p) simp_all
  finally show ?thesis .
qed

definition entry_leaf :: "('k, 'h) trie_hash \<Rightarrow> ('k \<times> 'h) list \<Rightarrow> bool list \<Rightarrow> 'h" where
  "entry_leaf th es q = (case map_of (map (\<lambda>(k, h). (key_path th k, h)) es) q of Some h \<Rightarrow> h | None \<Rightarrow> th_empty th)"

definition path_sorted :: "('k, 'h) trie_hash \<Rightarrow> ('k \<times> 'v) list \<Rightarrow> bool" where
  "path_sorted th es \<longleftrightarrow> sorted_wrt (\<lambda>x y. key_path th (fst x) < key_path th (fst y)) es"

lemma split_at_change:
  "sorted_wrt (\<lambda>x y. P y \<longrightarrow> P x) xs \<Longrightarrow> takeWhile P xs = filter P xs \<and> dropWhile P xs = filter (\<lambda>x. \<not> P x) xs"
proof (induction xs)
  case (Cons x xs)
  then show ?case by (cases "P x") (auto simp: filter_empty_conv)
qed simp

lemma append_less_append: "(p @ u :: 'a :: order list) < p @ v \<longleftrightarrow> u < v"
  by (induction p) simp_all

lemma less_bit:
  fixes u v :: "bool list"
  assumes "u < v" "take l u = take l v" "l < length u" "l < length v" "u ! l"
  shows "v ! l"
proof -
  have "u = take l u @ u ! l # drop (Suc l) u" "v = take l u @ v ! l # drop (Suc l) v"
    using id_take_nth_drop [OF assms(3)] id_take_nth_drop [OF assms(4)] assms(2) by simp_all
  then have "u ! l # drop (Suc l) u < v ! l # drop (Suc l) v" using assms(1) append_less_append by metis
  then show ?thesis using assms(5) by (cases "v ! l") simp_all
qed

lemma path_split:
  assumes "path_sorted th es" "l < 256" "\<And>k h. (k, h) \<in> set es \<Longrightarrow> take l (key_path th k) = p"
  defines "zero \<equiv> (\<lambda>(k, h). \<not> th_bit th k l)"
  shows "takeWhile zero es = filter zero es" "dropWhile zero es = filter (\<lambda>x. \<not> zero x) es"
proof -
  have "sorted_wrt (\<lambda>x y. zero y \<longrightarrow> zero x) es"
  proof (rule sorted_wrt_mono_rel [OF _ assms(1) [unfolded path_sorted_def]])
    fix x y assume xy: "x \<in> set es" "y \<in> set es" "key_path th (fst x) < key_path th (fst y)"
    then have "take l (key_path th (fst x)) = take l (key_path th (fst y))"
      using assms(3) [of "fst x" "snd x"] assms(3) [of "fst y" "snd y"] by simp
    from less_bit [OF xy(3) this] show "zero y \<longrightarrow> zero x"
      using assms(2) by (auto simp: zero_def key_path_nth split_beta)
  qed
  from split_at_change [OF this] show "takeWhile zero es = filter zero es" "dropWhile zero es = filter (\<lambda>x. \<not> zero x) es"
    by blast+
qed

lemma entry_leaf_filter:
  "(\<And>k h. (k, h) \<in> set es \<Longrightarrow> key_path th k = q \<Longrightarrow> P (k, h)) \<Longrightarrow> entry_leaf th (filter P es) q = entry_leaf th es q"
proof -
  assume a: "\<And>k h. (k, h) \<in> set es \<Longrightarrow> key_path th k = q \<Longrightarrow> P (k, h)"
  have "map_of (map (\<lambda>(k, h). (key_path th k, h)) (filter P es)) q = map_of (map (\<lambda>(k, h). (key_path th k, h)) es) q"
    using a by (induction es) auto
  then show ?thesis by (simp add: entry_leaf_def)
qed

text \<open>Half of the entries of a sorted block lie under each child.\<close>

lemma subtree_half:
  assumes "\<And>k h. (k, h) \<in> set es \<Longrightarrow> take l (key_path th k) = p" "l < 256"
  shows "(k, h) \<in> set (filter (\<lambda>(k, h). th_bit th k l = b) es) \<Longrightarrow> take (Suc l) (key_path th k) = p @ [b]"
  using assms by (auto simp: take_Suc_conv_app_nth key_path_nth)

lemma merkle_half:
  assumes "\<And>k h. (k, h) \<in> set es \<Longrightarrow> take l (key_path th k) = p" "l < 256" "length p = l"
  shows "merkle th (entry_leaf th (filter (\<lambda>(k, h). th_bit th k l = b) es)) d (p @ [b]) = merkle th (entry_leaf th es) d (p @ [b])"
proof (rule merkle_cong, rule entry_leaf_filter)
  fix q k h assume q: "take (length (p @ [b])) q = p @ [b]" "key_path th k = q"
  have "q ! l = take (Suc l) q ! l" by simp
  also have "\<dots> = b" using q(1) assms(3) by (simp add: nth_append)
  finally show "case (k, h) of (k, h) \<Rightarrow> th_bit th k l = b" using q(2) assms(2) key_path_nth [of l th k] by auto
qed

lemma subtree_root_merkle:
  assumes "d \<le> 256" "length p = 256 - d" "path_sorted th es"
    and "\<And>k h. (k, h) \<in> set es \<Longrightarrow> take (256 - d) (key_path th k) = p"
  shows "subtree_root th d es = Ok (merkle th (entry_leaf th es) d p)"
  using assms
proof (induction d arbitrary: p es)
  case 0
  show ?case
  proof (cases es)
    case Nil
    then show ?thesis by (simp add: entry_leaf_def)
  next
    case (Cons e es')
    obtain k h where e: "e = (k, h)" by (cases e)
    have kp: "key_path th k = p" using "0.prems"(4) [of k h] Cons e by simp
    have "es' = []"
    proof (cases es')
      case (Cons e' es'')
      then have "key_path th (fst e') = p" using "0.prems"(4) [of "fst e'" "snd e'"] \<open>es = e # es'\<close> by simp
      then show ?thesis using "0.prems"(3) \<open>es = e # es'\<close> Cons e kp by (simp add: path_sorted_def)
    qed simp
    then show ?thesis using Cons e kp by (simp add: entry_leaf_def)
  qed
next
  case (Suc d)
  let ?l = "255 - d" and ?half = "\<lambda>b. filter (\<lambda>(k, h). th_bit th k (255 - d) = b) es"
  have l: "256 - Suc d = ?l" "Suc ?l = 256 - d" "?l < 256" using Suc.prems(1) by simp_all
  note pre = Suc.prems(4) [unfolded l(1)]
  show ?case
  proof (cases es)
    case Nil
    have "merkle th (entry_leaf th []) (Suc d) p = default_hash th (Suc d)" by (rule merkle_empty) (simp add: entry_leaf_def)
    then show ?thesis using Nil by simp
  next
    case (Cons e es')
    let ?zero = "\<lambda>(k, leaf). \<not> th_bit th k ?l"
    have e: "filter (\<lambda>x. \<not> ?zero x) es = ?half True" by (rule filter_cong) auto
    have halves: "takeWhile ?zero es = ?half False" "dropWhile ?zero es = ?half True"
      using path_split(1) [OF Suc.prems(3) l(3) pre] trans [OF path_split(2) [OF Suc.prems(3) l(3) pre] e] by simp_all
    have half: "subtree_root th d (?half b) = Ok (merkle th (entry_leaf th es) d (p @ [b]))" for b
    proof -
      have "subtree_root th d (?half b) = Ok (merkle th (entry_leaf th (?half b)) d (p @ [b]))"
      proof (rule Suc.IH)
        show "path_sorted th (?half b)" using Suc.prems(3) by (simp add: path_sorted_def sorted_wrt_filter)
        show "take (256 - d) (key_path th k) = p @ [b]" if "(k, h) \<in> set (?half b)" for k h
          using subtree_half [OF pre l(3) that] l(2) by simp
      qed (use Suc.prems(1,2) in simp_all)
      moreover have "merkle th (entry_leaf th (?half b)) d (p @ [b]) = merkle th (entry_leaf th es) d (p @ [b])"
        by (rule merkle_half) (use pre l Suc.prems(2) in auto)
      ultimately show ?thesis by simp
    qed
    have "subtree_root th (Suc d) es = and_then (subtree_root th d (takeWhile ?zero es)) (\<lambda>left.
        and_then (subtree_root th d (dropWhile ?zero es)) (\<lambda>right. Ok (th_node th left right)))"
      unfolding Cons by (simp add: Let_def del: takeWhile.simps dropWhile.simps)
    then show ?thesis unfolding halves using half [of False] half [of True] by simp
  qed
qed


lemma entry_leaf_state:
  assumes "inj (key_path th)"
  shows "entry_leaf th (map (\<lambda>(k, x). (k, th_leaf th k x)) leaves) = leaf_layer th (map_of leaves)"
proof
  fix q
  show "entry_leaf th (map (\<lambda>(k, x). (k, th_leaf th k x)) leaves) q = leaf_layer th (map_of leaves) q"
  proof (cases "q \<in> range (key_path th)")
    case True
    then obtain k where q: "q = key_path th k" by blast
    have "map_of (map (\<lambda>(k, h). (key_path th k, h)) (map (\<lambda>(k, x). (k, th_leaf th k x)) leaves)) (key_path th k) =
        map_option (th_leaf th k) (map_of leaves k)"
      using assms by (induction leaves) (auto simp: inj_eq)
    then show ?thesis using assms by (simp add: q entry_leaf_def leaf_node_def split: option.split)
  next
    case False
    then have "map_of (map (\<lambda>(k, h). (key_path th k, h)) (map (\<lambda>(k, x). (k, th_leaf th k x)) leaves)) q = None"
      by (auto simp: map_of_eq_None_iff)
    then show ?thesis using False by (simp add: entry_leaf_def leaf_layer_def)
  qed
qed

lemma root_of_state:
  assumes "inj (key_path th)" "path_sorted th leaves"
  shows "root_of th leaves = Ok (state_root th (map_of leaves))"
proof -
  have "path_sorted th (map (\<lambda>(k, x). (k, th_leaf th k x)) leaves)"
    using assms(2) by (simp add: path_sorted_def sorted_wrt_map case_prod_beta)
  from subtree_root_merkle [OF _ _ this, of 256 "[]"] show ?thesis
    by (simp add: root_of_def state_root_def state_root_of_def entry_leaf_state [OF assms(1)])
qed


section \<open>The tree of a block's actions\<close>

datatype 'h mtree = MLeaf 'h | MNode "'h mtree" "'h mtree"

primrec mhash :: "('h \<Rightarrow> 'h \<Rightarrow> 'h) \<Rightarrow> 'h mtree \<Rightarrow> 'h" where
  "mhash node (MLeaf h) = h"
| "mhash node (MNode l r) = node (mhash node l) (mhash node r)"

primrec fringe :: "'h mtree \<Rightarrow> 'h list" where
  "fringe (MLeaf h) = [h]"
| "fringe (MNode l r) = fringe l @ fringe r"

lemma pair_up_mhash:
  fixes ts :: "'h mtree list"
  shows "pair_up node (map (mhash node) ts) = map (mhash node) (pair_up MNode ts)"
  by (induction "MNode :: 'h mtree \<Rightarrow> 'h mtree \<Rightarrow> 'h mtree" ts rule: pair_up.induct) simp_all

lemma merkle_levels_mhash: "merkle_levels node (map (mhash node) ts) = map (mhash node) (merkle_levels MNode ts)"
proof (induction "length ts" arbitrary: ts rule: less_induct)
  case less
  show ?case
  proof (cases "length ts > 1")
    case True
    then have "length (pair_up MNode ts) < length ts" by (simp add: length_pair_up)
    from less [OF this] show ?thesis
      using True by (subst (1 2) merkle_levels.simps) (simp add: pair_up_mhash)
  next
    case False
    then show ?thesis by (subst (1 2) merkle_levels.simps) simp
  qed
qed

lemma pair_up_fringe:
  fixes ts :: "'h mtree list"
  shows "concat (map fringe (pair_up MNode ts)) = concat (map fringe ts)"
  by (induction "MNode :: 'h mtree \<Rightarrow> 'h mtree \<Rightarrow> 'h mtree" ts rule: pair_up.induct) simp_all

lemma merkle_levels_one: "xs \<noteq> [] \<Longrightarrow> \<exists>x. merkle_levels node xs = [x]"
proof (induction "length xs" arbitrary: xs rule: less_induct)
  case less
  show ?case
  proof (cases "length xs > 1")
    case True
    then have "length (pair_up node xs) < length xs" "pair_up node xs \<noteq> []"
      using length_pair_up [of node xs] by (auto simp flip: length_greater_0_conv)
    from less(1) [OF this] show ?thesis using True by (subst merkle_levels.simps) simp
  next
    case False
    then obtain x where "xs = [x]" using less.prems by (cases xs) auto
    then show ?thesis by (subst merkle_levels.simps) simp
  qed
qed

lemma merkle_levels_fringe: "concat (map fringe (merkle_levels MNode ts)) = concat (map fringe ts)"
proof (induction "length ts" arbitrary: ts rule: less_induct)
  case less
  show ?case
  proof (cases "length ts > 1")
    case True
    then have "length (pair_up MNode ts) < length ts" by (simp add: length_pair_up)
    from less [OF this] show ?thesis using True by (subst merkle_levels.simps) (simp add: pair_up_fringe)
  qed (subst merkle_levels.simps, simp)
qed

lemma mhash_inj:
  assumes "\<And>l r l' r'. node l r = node l' r' \<Longrightarrow> l = l' \<and> r = r'" and "\<And>x l r. leaf x \<noteq> node l r"
  shows "set (fringe s) \<subseteq> range leaf \<Longrightarrow> set (fringe t) \<subseteq> range leaf \<Longrightarrow> mhash node s = mhash node t \<Longrightarrow> s = t"
proof (induction s arbitrary: t)
  case (MLeaf h)
  then obtain x where x: "h = leaf x" by auto
  show ?case using MLeaf.prems(3) assms(2) [of x] unfolding x by (cases t) simp_all
next
  case (MNode l r)
  obtain l' r' where t: "t = MNode l' r'"
  proof (cases t)
    case (MLeaf h)
    then obtain x where "h = leaf x" using MNode.prems(2) by auto
    then show ?thesis using MNode.prems(3) MLeaf assms(2) by (metis mhash.simps)
  qed
  have "mhash node l = mhash node l' \<and> mhash node r = mhash node r'" using MNode.prems(3) unfolding t by (intro assms(1)) simp
  then show ?case using MNode.IH [of l'] MNode.IH(2) [of r'] MNode.prems(1,2) by (simp add: t)
qed

text \<open>The tree over a list of leaves.\<close>

lemma merkle_levels_tree:
  assumes "xs \<noteq> []"
  shows "\<exists>t. fringe t = xs \<and> hd (merkle_levels node xs) = mhash node t"
proof -
  have ne: "map MLeaf xs \<noteq> []" using assms by simp
  obtain t where t: "merkle_levels MNode (map MLeaf xs) = [t]" using merkle_levels_one [OF ne] by blast
  have "fringe t = xs" using merkle_levels_fringe [of "map MLeaf xs"] by (simp add: t comp_def)
  moreover have "map (mhash node) (map MLeaf xs) = xs" by (simp add: comp_def)
  then have "hd (merkle_levels node xs) = mhash node t"
    using merkle_levels_mhash [of node "map MLeaf xs"] by (simp add: t)
  ultimately show ?thesis by blast
qed

lemma merkle_levels_inj:
  assumes "\<And>l r l' r'. node l r = node l' r' \<Longrightarrow> l = l' \<and> r = r'" and "\<And>x l r. leaf x \<noteq> node l r"
    and "set xs \<subseteq> range leaf" "set ys \<subseteq> range leaf" "xs \<noteq> []" "ys \<noteq> []"
    and "hd (merkle_levels node xs) = hd (merkle_levels node ys)"
  shows "xs = ys"
proof -
  obtain s where s: "fringe s = xs" "hd (merkle_levels node xs) = mhash node s" using merkle_levels_tree [OF assms(5)] by blast
  obtain t where t: "fringe t = ys" "hd (merkle_levels node ys) = mhash node t" using merkle_levels_tree [OF assms(6)] by blast
  have "s = t" by (rule mhash_inj [OF assms(1,2)]) (use assms(3,4,7) s t in auto)
  then show ?thesis using s(1) t(1) by simp
qed


lemma those_map_Some: "those (map f xs) = Some ys \<Longrightarrow> map f xs = map Some ys"
  by (induction xs arbitrary: ys) (auto split: option.splits)

lemma action_hashes_leaf: "those (map (action_hash leaf encode) xs) = Some hs \<Longrightarrow> set hs \<subseteq> range leaf \<and> (hs = [] \<longleftrightarrow> xs = [])"
proof
  assume h: "those (map (action_hash leaf encode) xs) = Some hs"
  then have e: "map (action_hash leaf encode) xs = map Some hs" by (rule those_map_Some)
  show "hs = [] \<longleftrightarrow> xs = []" using arg_cong [OF e, of length] by auto
  show "set hs \<subseteq> range leaf"
  proof
    fix y assume "y \<in> set hs"
    then have "Some y \<in> set (map (action_hash leaf encode) xs)" unfolding e by simp
    then obtain x where "Some y = map_option leaf (encode x)" by (auto simp: action_hash_def)
    then show "y \<in> range leaf" by (cases "encode x") auto
  qed
qed

lemma action_hashes_inj:
  assumes "\<And>x y. leaf x = leaf y \<Longrightarrow> x = y" "\<And>x y e. encode x = Some e \<Longrightarrow> encode y = Some e \<Longrightarrow> x = y"
  shows "those (map (action_hash leaf encode) xs) = Some hs \<Longrightarrow> those (map (action_hash leaf encode) ys) = Some hs \<Longrightarrow> xs = ys"
proof (induction xs arbitrary: ys hs)
  case Nil
  then show ?case using action_hashes_leaf [of leaf encode ys hs] by simp
next
  case (Cons x xs)
  then obtain h hs' where hs: "hs = h # hs'" "action_hash leaf encode x = Some h" "those (map (action_hash leaf encode) xs) = Some hs'"
    by (auto split: option.splits)
  with Cons.prems(2) obtain y ys' where ys: "ys = y # ys'" using action_hashes_leaf [of leaf encode ys hs] by (cases ys) auto
  with Cons.prems(2) hs(1) have y: "action_hash leaf encode y = Some h" "those (map (action_hash leaf encode) ys') = Some hs'"
    by (auto split: option.splits)
  from hs(2) y(1) have "x = y" using assms by (auto simp: action_hash_def)
  then show ?case using ys Cons.IH [OF hs(3) y(2)] by simp
qed

section \<open>Compressed proofs\<close>

fun expand_siblings :: "('k, 'h) trie_hash \<Rightarrow> (nat \<Rightarrow> bool) \<Rightarrow> nat \<Rightarrow> nat \<Rightarrow> 'h list \<Rightarrow> 'h list option" where
  "expand_siblings th bits level 0 rest = (if rest = [] then Some [] else None)"
| "expand_siblings th bits level (Suc n) rest =
    (if bits level
     then (case rest of [] \<Rightarrow> None | s # rest \<Rightarrow> map_option (Cons s) (expand_siblings th bits (Suc level) n rest))
     else map_option (Cons (default_hash th (255 - level))) (expand_siblings th bits (Suc level) n rest))"

fun real_siblings :: "('k, 'h) trie_hash \<Rightarrow> nat \<Rightarrow> 'h list \<Rightarrow> 'h list" where
  "real_siblings th level [] = []"
| "real_siblings th level (s # ss) =
    (if s \<noteq> default_hash th (255 - level) then s # real_siblings th (Suc level) ss else real_siblings th (Suc level) ss)"

lemma bit_byte: "j < 8 \<Longrightarrow> bit (n mod 256 :: nat) j \<longleftrightarrow> bit n j"
  using bit_take_bit_iff [of 8 n j] by (simp add: take_bit_eq_mod)

lemma bit_set_bit_at:
  assumes "length bitmap = 32" "level < 256" "l < 256"
  shows "bit_at (set_bit_at bitmap level) l \<longleftrightarrow> l = level \<or> bit_at bitmap l"
proof -
  have b: "l div 8 < 32" using assms(3) by linarith
  have eq: "l = level \<longleftrightarrow> l div 8 = level div 8 \<and> 7 - l mod 8 = 7 - level mod 8"
  proof
    assume a: "l div 8 = level div 8 \<and> 7 - l mod 8 = 7 - level mod 8"
    have "l mod 8 < 8" "level mod 8 < 8" by simp_all
    with a have "l mod 8 = level mod 8" by linarith
    with a have "l div 8 * 8 + l mod 8 = level div 8 * 8 + level mod 8" by (simp only:)
    then show "l = level" by (simp only: div_mult_mod_eq)
  qed (simp only: simp_thms)
  show ?thesis
  proof (cases "l div 8 = level div 8")
    case True
    let ?old = "of_char (bitmap ! (l div 8)) :: nat"
    have "bit_at (set_bit_at bitmap level) l \<longleftrightarrow> bit (or ?old (2 ^ (7 - level mod 8))) (7 - l mod 8)"
      using b assms(1) unfolding bit_at_def set_bit_at_def True by (simp add: bit_byte)
    also have "\<dots> \<longleftrightarrow> bit ?old (7 - l mod 8) \<or> 7 - level mod 8 = 7 - l mod 8" by (simp only: bit_or_iff bit_exp_iff) auto
    finally show ?thesis using eq True by (simp only: bit_at_def) metis
  next
    case False
    then have "set_bit_at bitmap level ! (l div 8) = bitmap ! (l div 8)" by (simp add: set_bit_at_def)
    then show ?thesis using False eq unfolding bit_at_def by presburger
  qed
qed

lemma length_set_bit_at [simp]: "length (set_bit_at bitmap level) = length bitmap"
  by (simp add: set_bit_at_def)

lemma compress_levels_spec:
  "length bitmap = 32 \<Longrightarrow> level + length ss \<le> 256 \<Longrightarrow>
   compress_levels th level ss (bitmap, nd) = (bitmap', nd') \<Longrightarrow>
   length bitmap' = 32 \<and> nd' = nd @ real_siblings th level ss \<and>
   (\<forall>l<256. bit_at bitmap' l \<longleftrightarrow>
      bit_at bitmap l \<or> level \<le> l \<and> l < level + length ss \<and> ss ! (l - level) \<noteq> default_hash th (255 - l))"
proof (induction ss arbitrary: level bitmap nd)
  case (Cons s ss)
  let ?bm = "if s \<noteq> default_hash th (255 - level) then set_bit_at bitmap level else bitmap"
  let ?nd = "if s \<noteq> default_hash th (255 - level) then nd @ [s] else nd"
  have r: "compress_levels th (Suc level) ss (?bm, ?nd) = (bitmap', nd')" using Cons.prems(3) by (auto split: if_splits)
  have l: "length ?bm = 32" "Suc level + length ss \<le> 256" "level < 256" using Cons.prems(1,2) by simp_all
  have bm: "bit_at ?bm l \<longleftrightarrow> bit_at bitmap l \<or> l = level \<and> s \<noteq> default_hash th (255 - level)" if "l < 256" for l
    using bit_set_bit_at [OF Cons.prems(1) l(3) that] by auto
  have "bit_at bitmap' l \<longleftrightarrow> bit_at bitmap l \<or> level \<le> l \<and> l < level + length (s # ss) \<and>
      (s # ss) ! (l - level) \<noteq> default_hash th (255 - l)" if "l < 256" for l
  proof -
    have "bit_at bitmap' l \<longleftrightarrow> bit_at ?bm l \<or> Suc level \<le> l \<and> l < Suc level + length ss \<and>
        ss ! (l - Suc level) \<noteq> default_hash th (255 - l)"
      using Cons.IH [OF l(1,2) r] that by blast
    moreover have "(s # ss) ! (l - level) = ss ! (l - Suc level)" if "level < l" using that by (simp add: nth_Cons')
    ultimately show ?thesis unfolding bm [OF that] by (cases "level < l"; cases "l = level") auto
  qed
  then show ?case using Cons.IH [OF l(1,2) r] by auto
qed auto

lemma expand_real_siblings:
  "(\<And>i. i < length ss \<Longrightarrow> bits (level + i) \<longleftrightarrow> ss ! i \<noteq> default_hash th (255 - (level + i))) \<Longrightarrow>
   expand_siblings th bits level (length ss) (real_siblings th level ss) = Some ss"
proof (induction ss arbitrary: level)
  case (Cons s ss)
  have "expand_siblings th bits (Suc level) (length ss) (real_siblings th (Suc level) ss) = Some ss"
    by (rule Cons.IH) (use Cons.prems [of "Suc _"] in simp)
  then show ?case using Cons.prems [of 0] by auto
qed simp

lemma bit_at_zero: "l < 256 \<Longrightarrow> \<not> bit_at (replicate 32 (char_of (0 :: nat))) l"
  by (simp add: bit_at_def)

lemma compress_expand:
  assumes "length (ip_siblings p) = 256" "compress th p = (bitmap, nd)"
  shows "length bitmap = 32 \<and> expand_siblings th (bit_at bitmap) 0 256 nd = Some (ip_siblings p)"
proof -
  from compress_levels_spec [OF _ _ assms(2) [unfolded compress_def]] assms(1)
  have c: "length bitmap = 32" "nd = real_siblings th 0 (ip_siblings p)"
    "\<And>l. l < 256 \<Longrightarrow> bit_at bitmap l \<longleftrightarrow> ip_siblings p ! l \<noteq> default_hash th (255 - l)"
    using bit_at_zero by auto
  have "expand_siblings th (bit_at bitmap) 0 (length (ip_siblings p)) (real_siblings th 0 (ip_siblings p)) = Some (ip_siblings p)"
    by (rule expand_real_siblings) (use c(3) assms(1) in simp)
  then show ?thesis using c(1,2) assms(1) by simp
qed


section \<open>Properties\<close>

text \<open>The proof that a full trie gives for a key, and a hash without collisions to state witnesses with.\<close>

definition prove_key :: "('k, 'h) trie_hash \<Rightarrow> ('k \<rightharpoonup> string) \<Rightarrow> 'k \<Rightarrow> ('k, 'h) inclusion_proof" where
  "prove_key th m k =
    \<lparr> ip_key_hash = k, ip_value = m k, ip_siblings = siblings_of th (leaf_layer th m) 256 [] (key_path th k) \<rparr>"

datatype term_hash = TEmpty | TLeaf bool string | TNode term_hash term_hash

definition term_trie :: "(bool, term_hash) trie_hash" where
  "term_trie = \<lparr> th_leaf = TLeaf, th_node = TNode, th_empty = TEmpty, th_bit = (\<lambda>k i. i = 0 \<and> k) \<rparr>"

lemma term_trie_ideal: "collision_free term_trie" "inj (key_path term_trie)"
proof -
  show "collision_free term_trie" by (simp add: collision_free_def term_trie_def)
  show "inj (key_path term_trie)"
  proof (rule injI)
    fix a b assume "key_path term_trie a = key_path term_trie b"
    then have "key_path term_trie a ! 0 = key_path term_trie b ! 0" by simp
    then show "a = b" by (simp add: key_path_nth term_trie_def)
  qed
qed

lemma prove_key_verifies:
  assumes "collision_free th" "inj (key_path th)"
  shows "verify_proof th (state_root th m) (prove_key th m k)"
  using assms by (simp add: state_root_def verify_proof_iff prove_key_def)

lemma from_proofs_one:
  "collision_free th \<Longrightarrow> inj (key_path th) \<Longrightarrow> \<exists>t. from_proofs th (state_root th m) [prove_key th m k] = Ok t"
  using prove_key_verifies [of th m k] by (simp add: from_proofs_def)

text \<open>
  C12: a proof says exactly what the state says. Against the root of a state, a proof verifies if and only if its value
  (or its absence) is what the state holds under the key, with the siblings of the key's path.
\<close>

theorem proof_states_the_value:
  assumes "collision_free th" "inj (key_path th)"
  shows "verify_proof th (state_root th m) p \<longleftrightarrow>
    ip_value p = m (ip_key_hash p) \<and> ip_siblings p = siblings_of th (leaf_layer th m) 256 [] (key_path th (ip_key_hash p))"
  unfolding state_root_def verify_proof_iff [OF assms(1)] using leaf_node_inj [OF assms(1)] assms(2) by auto

theorem proof_states_the_value_witness:
  "verify_proof term_trie (state_root term_trie [True \<mapsto> ''v'']) (prove_key term_trie [True \<mapsto> ''v''] False) \<and>
   \<not> verify_proof term_trie (state_root term_trie [True \<mapsto> ''v''])
       ((prove_key term_trie [True \<mapsto> ''v''] True)\<lparr> ip_value := Some ''w'' \<rparr>)"
  unfolding proof_states_the_value [OF term_trie_ideal] by (simp add: prove_key_def)

text \<open>
  C13: a trie rebuilt from proofs replays writes as the full state does. Writes to keys the proofs cover succeed, give the
  root of the updated state, and leave every covered key readable with its updated value.
\<close>

theorem proof_backed_replay:
  assumes "collision_free th" "inj (key_path th)" "from_proofs th (state_root th m) ps = Ok t"
    and "fst ` set ws \<subseteq> ip_key_hash ` set ps"
  shows "\<exists>t'. pt_apply_all th ws t = Ok t' \<and> pt_root t' = state_root th (write_all ws m) \<and>
    (\<forall>p\<in>set ps. pt_get th t' (ip_key_hash p) = Ok (write_all ws m (ip_key_hash p)))"
proof -
  from pt_apply_all_holds [OF assms(1,2) from_proofs_holds [OF assms(1-3)] assms(4)] obtain t' where
    t': "pt_apply_all th ws t = Ok t'" "trie_holds th (write_all ws m) (ip_key_hash ` set ps) t'" by blast
  have "\<forall>p\<in>set ps. pt_get th t' (ip_key_hash p) = Ok (write_all ws m (ip_key_hash p))"
    using pt_get_held [OF assms(1,2) t'(2)] by blast
  then show ?thesis using t' by (auto simp: trie_holds_def)
qed

theorem proof_backed_replay_witness:
  "\<exists>t t'. from_proofs term_trie (state_root term_trie [True \<mapsto> ''v'']) [prove_key term_trie [True \<mapsto> ''v''] True] = Ok t \<and>
     pt_apply_all term_trie [(True, None), (True, Some ''w'')] t = Ok t' \<and>
     pt_root t' = state_root term_trie [True \<mapsto> ''w''] \<and> pt_get term_trie t' True = Ok (Some ''w'')"
proof -
  obtain t where t: "from_proofs term_trie (state_root term_trie [True \<mapsto> ''v'']) [prove_key term_trie [True \<mapsto> ''v''] True] = Ok t"
    using from_proofs_one [OF term_trie_ideal] by blast
  have w: "write_all [(True, None), (True, Some ''w'')] [True \<mapsto> ''v''] = [True \<mapsto> ''w'']" by (simp add: fun_eq_iff)
  from proof_backed_replay [OF term_trie_ideal t, of "[(True, None), (True, Some ''w'')]"] t show ?thesis
    unfolding w by (auto simp: prove_key_def)
qed

text \<open>
  A rebuilt trie fails closed. Whatever proofs it was built from and whatever is written to it, a root it reports is
  the root of the updated state, and a read it answers is the state's value: what is not proved is refused, never guessed.
\<close>

theorem proof_backed_fails_closed:
  assumes "collision_free th" "inj (key_path th)" "from_proofs th (state_root th m) ps = Ok t"
    and "pt_apply_all th ws t = Ok t'"
  shows "pt_root t' = state_root th (write_all ws m) \<and> (\<forall>k v. pt_get th t' k = Ok v \<longrightarrow> v = write_all ws m k)"
proof -
  have "trie_sound th t" "pt_root t = state_root th m" using from_proofs_sound [OF assms(3)] by simp_all
  from pt_apply_all_root [OF assms(1,2) this assms(4)] have t': "trie_sound th t'" "pt_root t' = state_root th (write_all ws m)" by simp_all
  then show ?thesis using pt_get_sound_at [OF assms(1,2) t'] by blast
qed

theorem proof_backed_fails_closed_witness:
  "\<exists>t. from_proofs term_trie (state_root term_trie [True \<mapsto> ''v'']) [prove_key term_trie [True \<mapsto> ''v''] True] = Ok t \<and>
     pt_root t = state_root term_trie [True \<mapsto> ''v''] \<and> pt_get term_trie t False \<noteq> Ok (Some ''v'')"
proof -
  obtain t where t: "from_proofs term_trie (state_root term_trie [True \<mapsto> ''v'']) [prove_key term_trie [True \<mapsto> ''v''] True] = Ok t"
    using from_proofs_one [OF term_trie_ideal] by blast
  from proof_backed_fails_closed [OF term_trie_ideal t, of "[]" t]
  have "pt_root t = state_root term_trie [True \<mapsto> ''v'']" "pt_get term_trie t False = Ok v \<Longrightarrow> v = None" for v by force+
  from this(1) this(2) [of "Some ''v''"] t show ?thesis by auto
qed

lemma state_root_empty: "state_root th Map.empty = default_hash th 256"
  unfolding state_root_def state_root_of_def by (rule merkle_empty) (simp add: leaf_layer_def leaf_node_def)

lemma write_all_leaves:
  "distinct (map fst leaves) \<Longrightarrow> write_all (map (\<lambda>(k, x). (k, Some x)) leaves) m = m ++ map_of leaves"
proof (induction leaves arbitrary: m)
  case (Cons l ls)
  obtain k x where l: "l = (k, x)" by (cases l)
  have "map_of ls k = None" using Cons.prems l by (simp add: map_of_eq_None_iff)
  then have "m(k \<mapsto> x) ++ map_of ls = (m ++ map_of ls)(k \<mapsto> x)"
    by (auto simp: fun_eq_iff map_add_def split: option.split)
  then show ?case using Cons.IH [of "m(k \<mapsto> x)"] Cons.prems l by (simp del: fun_upd_apply)
qed simp

lemma path_sorted_distinct: "path_sorted th leaves \<Longrightarrow> distinct (map fst leaves)"
  by (induction leaves) (auto simp: path_sorted_def)

text \<open>
  One root, two routes. The root computed at once over a whole sorted state is the root that writing its leaves one
  by one into an empty trie ends with.
\<close>

theorem root_of_is_incremental:
  assumes "collision_free th" "inj (key_path th)" "path_sorted th leaves"
    and "from_proofs th (default_hash th 256) ps = Ok t" "pt_apply_all th (map (\<lambda>(k, x). (k, Some x)) leaves) t = Ok t'"
  shows "root_of th leaves = Ok (pt_root t')"
proof -
  note e = state_root_empty [of th]
  note d = path_sorted_distinct [OF assms(3)]
  have w: "write_all (map (\<lambda>(k, x). (k, Some x)) leaves) m = m ++ map_of leaves" for m by (rule write_all_leaves [OF d])
  have "trie_sound th t" "pt_root t = state_root th Map.empty" using from_proofs_sound [OF assms(4)] e by simp_all
  from pt_apply_all_root [OF assms(1,2) this assms(5)] root_of_state [OF assms(2,3)] w [of Map.empty] show ?thesis by simp
qed


theorem root_of_is_incremental_witness:
  "\<exists>t t'. from_proofs term_trie (default_hash term_trie 256) [prove_key term_trie Map.empty True] = Ok t \<and>
     pt_apply_all term_trie [(True, Some ''v'')] t = Ok t' \<and> root_of term_trie [(True, ''v'')] = Ok (pt_root t')"
proof -
  have e: "state_root term_trie Map.empty = default_hash term_trie 256" by (rule state_root_empty)
  obtain t where t: "from_proofs term_trie (state_root term_trie Map.empty) [prove_key term_trie Map.empty True] = Ok t"
    using from_proofs_one [OF term_trie_ideal] by blast
  obtain t' where t': "pt_apply_all term_trie [(True, Some ''v'')] t = Ok t'"
    using pt_apply_all_holds [OF term_trie_ideal from_proofs_holds [OF term_trie_ideal t], of "[(True, Some ''v'')]"]
    by (auto simp: prove_key_def)
  have "root_of term_trie [(True, ''v'')] = Ok (pt_root t')"
    by (rule root_of_is_incremental [OF term_trie_ideal _ t [unfolded e]]) (use t' in \<open>simp_all add: path_sorted_def\<close>)
  then show ?thesis using t t' e by auto
qed

text \<open>
  The root over a block's actions commits to the whole list: two lists of actions with one root are the same list, in
  the same order. No action can be repeated at the end or moved without changing the root.
\<close>

theorem tx_root_binds_actions:
  assumes "\<And>x y. leaf x = leaf y \<Longrightarrow> x = y" "\<And>l r l' r'. node l r = node l' r' \<Longrightarrow> l = l' \<and> r = r'"
    and "\<And>x l r. leaf x \<noteq> node l r" "\<And>x. leaf x \<noteq> zero" "\<And>l r. node l r \<noteq> zero"
    and "\<And>x y e. encode x = Some e \<Longrightarrow> encode y = Some e \<Longrightarrow> x = y"
    and "tx_root leaf node zero encode xs = Some root" "tx_root leaf node zero encode ys = Some root"
  shows "xs = ys"
proof -
  obtain hs where hs: "those (map (action_hash leaf encode) xs) = Some hs" using assms(7) by (auto simp: tx_root_def bind_eq_Some_conv)
  obtain hs' where hs': "those (map (action_hash leaf encode) ys) = Some hs'" using assms(8) by (auto simp: tx_root_def bind_eq_Some_conv)
  have r: "root = (if hs = [] then zero else hd (merkle_levels node hs))" using assms(7) hs by (auto simp: tx_root_def)
  have r': "root = (if hs' = [] then zero else hd (merkle_levels node hs'))" using assms(8) hs' by (auto simp: tx_root_def)
  have l: "set hs \<subseteq> range leaf" "set hs' \<subseteq> range leaf" using action_hashes_leaf [OF hs] action_hashes_leaf [OF hs'] by simp_all
  have nz: "hd (merkle_levels node zs) \<noteq> zero" if z: "zs \<noteq> []" "set zs \<subseteq> range leaf" for zs
  proof -
    obtain t where t: "fringe t = zs" "hd (merkle_levels node zs) = mhash node t" using merkle_levels_tree [OF z(1)] by blast
    then show ?thesis using z(2) assms(4,5) by (cases t) auto
  qed
  have "hs = hs'"
  proof (cases "hs = [] \<or> hs' = []")
    case True
    then show ?thesis using r r' nz [OF _ l(1)] nz [OF _ l(2)] by metis
  next
    case False
    then have "hd (merkle_levels node hs) = hd (merkle_levels node hs')" using r r' by simp
    show ?thesis
    proof (rule merkle_levels_inj [where node = node and leaf = leaf])
      show "l = l' \<and> r = r'" if "node l r = node l' r'" for l r l' r' using that by (rule assms(2))
      show "leaf x \<noteq> node l r" for x l r by (rule assms(3))
    qed (use l False \<open>hd (merkle_levels node hs) = hd (merkle_levels node hs')\<close> in simp_all)
  qed
  then show ?thesis using action_hashes_inj [OF assms(1,6) hs] hs' by simp
qed

theorem tx_root_binds_actions_witness:
  "tx_root (TLeaf True) TNode TEmpty Some [''a'', ''b'', ''c''] \<noteq>
   tx_root (TLeaf True) TNode TEmpty Some [''a'', ''b'', ''c'', ''c'']"
proof
  assume e: "tx_root (TLeaf True) TNode TEmpty Some [''a'', ''b'', ''c''] =
    tx_root (TLeaf True) TNode TEmpty Some [''a'', ''b'', ''c'', ''c'']"
  have s: "tx_root (TLeaf True) TNode TEmpty Some [''a'', ''b'', ''c''] = Some (hd (merkle_levels TNode (map (TLeaf True) [''a'', ''b'', ''c''])))"
    by (simp add: tx_root_def action_hash_def)
  have "[''a'', ''b'', ''c''] = [''a'', ''b'', ''c'', ''c'']"
    by (rule tx_root_binds_actions [where leaf = "TLeaf True" and node = TNode and zero = TEmpty and encode = Some,
        OF _ _ _ _ _ _ s trans [OF e [symmetric] s]]) simp_all
  then show False by simp
qed

end
