(* ===== verification/Chain_Db.thy ===== *)
theory Chain_Db
  imports Evidence Ledger_View
begin

text \<open>
  The rows of the node's database that consensus reads and writes (\<^verbatim>\<open>src/core/storage/src/lib.rs\<close>, \<^verbatim>\<open>batch.rs\<close>): blocks and
  their index, the history of validator sets and BLS keys, finality certificates, locks, round certificates, pending votes
  and dissents, with the batch that commits a block, the undo record it leaves, the advance of the finalized watermark and
  the unwinding of the chain.

  The rows the runtime executes on, which the state root covers, are one \<open>view\<close>: a block's batch writes them as a whole, and
  the undo record keeps the whole view, where the source keeps the rows the batch touches.

  A column family is a \<open>btree\<close> under the typed key whose zero-padded text is the key of the source, so iteration order is
  key order. The row of the Merkle root holds its hex text. A read that RocksDB itself fails is not modelled.
\<close>

section \<open>Records\<close>

record finality_record =
  fr_height :: nat
  fr_round :: nat
  fr_block_hash :: string
  fr_signers :: "address list"
  fr_aggregate_signature :: string
  fr_ep :: string

record pol_record =
  pl_height :: nat
  pl_round :: nat
  pl_block_hash :: string
  pl_signers :: "address list"
  pl_aggregate_signature :: string

record precommit_vote_record =
  pv_height :: nat
  pv_round :: nat
  pv_block_hash :: string
  pv_voter :: address
  pv_signature :: string
  pv_ep :: string

record round_timeout_vote_record =
  rv_height :: nat
  rv_round :: nat
  rv_voter :: address
  rv_signature :: string

record dissent_record =
  dr_height :: nat
  dr_block_hash :: string
  dr_state_root :: string
  dr_ep :: string
  dr_reason :: string
  dr_voter :: address
  dr_signature :: string
  dr_header_commitment :: string

text \<open>A row a block's batch writes, \<open>None\<close> to delete it; an undo record is a list of such rows with their prior values.\<close>

datatype 'p db_row =
    BlockRow nat "'p block option"
  | BlockHashRow string "nat option"
  | TipRow "nat option"
  | ValidatorSetRow nat "validator_set option"
  | BlsHistoryRow "address \<times> nat" "string option"
  | WeightRow nat "nat option"
  | StateRow view
  | RootRow string

record 'p chain_db =
  cd_genesis :: string
  cd_blocks :: "(nat, 'p block) btree"
  cd_hash_index :: "(string, nat) btree"
  cd_tip :: "nat option"
  cd_validator_sets :: "(nat, validator_set) btree"
  cd_bls_history :: "(address \<times> nat, string) btree"
  cd_weights :: "(nat, nat) btree"
  cd_root :: string
  cd_undo :: "(nat, 'p db_row list) btree"
  cd_state :: view
  cd_watermark :: nat
  cd_finality :: "(nat, finality_record) btree"
  cd_pols :: "(nat \<times> nat, pol_record) btree"
  cd_round_certs :: "(nat \<times> nat, round_certificate) btree"
  cd_precommits :: "(nat \<times> nat \<times> string \<times> address, precommit_vote_record) btree"
  cd_round_timeouts :: "(nat \<times> nat \<times> address, round_timeout_vote_record) btree"
  cd_dissents :: "(nat \<times> address, dissent_record) btree"

section \<open>Reads\<close>

text \<open>The reverse seek: the value of the greatest key that passes.\<close>

definition last_row :: "('k \<Rightarrow> bool) \<Rightarrow> ('k, 'v) btree \<Rightarrow> 'v option" where
  "last_row P m = (case filter (\<lambda>(k, _). P k) m of [] \<Rightarrow> None | rows \<Rightarrow> Some (snd (last rows)))"

definition get_validator_set_at :: "'p chain_db \<Rightarrow> nat \<Rightarrow> validator_set" where
  "get_validator_set_at db height = unwrap_or [] (last_row (\<lambda>k. k \<le> height) (cd_validator_sets db))"

definition get_bls_pubkey_at :: "'p chain_db \<Rightarrow> address \<Rightarrow> nat \<Rightarrow> string option" where
  "get_bls_pubkey_at db who height = last_row (\<lambda>(a, k). a = who \<and> k \<le> height) (cd_bls_history db)"

definition current_round :: "'p chain_db \<Rightarrow> nat \<Rightarrow> (never, nat) result" where
  "current_round db height =
    (case map (\<lambda>((_, r), _). r) (filter (\<lambda>((h, _), _). h = height) (cd_round_certs db)) of
      [] \<Rightarrow> Ok 0
    | r # rs \<Rightarrow> add_or_panic u32_max (fold max rs r) 1)"

definition get_round_certificate :: "'p chain_db \<Rightarrow> nat \<Rightarrow> nat \<Rightarrow> round_certificate option" where
  "get_round_certificate db height round = map_of (cd_round_certs db) (height, round)"

definition get_highest_pol :: "'p chain_db \<Rightarrow> nat \<Rightarrow> pol_record option" where
  "get_highest_pol db height = last_row (\<lambda>(h, _). h = height) (cd_pols db)"

definition get_finality_record :: "'p chain_db \<Rightarrow> nat \<Rightarrow> finality_record option" where
  "get_finality_record db height = map_of (cd_finality db) height"

definition get_block :: "'p chain_db \<Rightarrow> nat \<Rightarrow> 'p block option" where
  "get_block db height = map_of (cd_blocks db) height"

definition get_block_height_by_hash :: "'p chain_db \<Rightarrow> string \<Rightarrow> nat option" where
  "get_block_height_by_hash db hash = map_of (cd_hash_index db) hash"

definition get_block_weight :: "'p chain_db \<Rightarrow> nat \<Rightarrow> nat" where
  "get_block_weight db height = unwrap_or 0 (map_of (cd_weights db) height)"

definition get_precommit_votes_from :: "'p chain_db \<Rightarrow> nat \<Rightarrow> precommit_vote_record list" where
  "get_precommit_votes_from db cutoff = map snd (filter (\<lambda>((h, _), _). cutoff \<le> h) (cd_precommits db))"

definition get_round_timeout_votes_from :: "'p chain_db \<Rightarrow> nat \<Rightarrow> round_timeout_vote_record list" where
  "get_round_timeout_votes_from db cutoff = map snd (filter (\<lambda>((h, _), _). cutoff \<le> h) (cd_round_timeouts db))"

definition get_dissent :: "'p chain_db \<Rightarrow> nat \<Rightarrow> address \<Rightarrow> dissent_record option" where
  "get_dissent db height voter = map_of (cd_dissents db) (height, voter)"

definition get_dissents_from :: "'p chain_db \<Rightarrow> nat \<Rightarrow> dissent_record list" where
  "get_dissents_from db cutoff = map snd (filter (\<lambda>((h, _), _). cutoff \<le> h) (cd_dissents db))"

section \<open>Writes of single records\<close>

definition write_pol :: "pol_record \<Rightarrow> 'p chain_db \<Rightarrow> 'p chain_db" where
  "write_pol p db = db\<lparr> cd_pols := bt_insert (pl_height p, pl_round p) p (cd_pols db) \<rparr>"

definition write_round_certificate :: "round_certificate \<Rightarrow> 'p chain_db \<Rightarrow> 'p chain_db" where
  "write_round_certificate c db = db\<lparr> cd_round_certs := bt_insert (rc_height c, rc_round c) c (cd_round_certs db) \<rparr>"

definition write_precommit_vote :: "precommit_vote_record \<Rightarrow> 'p chain_db \<Rightarrow> 'p chain_db" where
  "write_precommit_vote v db =
    db\<lparr> cd_precommits := bt_insert (pv_height v, pv_round v, pv_block_hash v, pv_voter v) v (cd_precommits db) \<rparr>"

definition write_round_timeout_vote :: "round_timeout_vote_record \<Rightarrow> 'p chain_db \<Rightarrow> 'p chain_db" where
  "write_round_timeout_vote v db =
    db\<lparr> cd_round_timeouts := bt_insert (rv_height v, rv_round v, rv_voter v) v (cd_round_timeouts db) \<rparr>"

definition write_dissent :: "dissent_record \<Rightarrow> 'p chain_db \<Rightarrow> 'p chain_db" where
  "write_dissent d db = db\<lparr> cd_dissents := bt_insert (dr_height d, dr_voter d) d (cd_dissents db) \<rparr>"

definition delete_pols_through :: "nat \<Rightarrow> 'p chain_db \<Rightarrow> 'p chain_db" where
  "delete_pols_through height db = db\<lparr> cd_pols := filter (\<lambda>((h, _), _). height < h) (cd_pols db) \<rparr>"

definition delete_precommit_votes :: "nat \<Rightarrow> 'p chain_db \<Rightarrow> 'p chain_db" where
  "delete_precommit_votes height db = db\<lparr> cd_precommits := filter (\<lambda>((h, _), _). h \<noteq> height) (cd_precommits db) \<rparr>"

definition delete_round_timeout_votes :: "nat \<Rightarrow> nat \<Rightarrow> 'p chain_db \<Rightarrow> 'p chain_db" where
  "delete_round_timeout_votes height round db =
    db\<lparr> cd_round_timeouts := filter (\<lambda>((h, r, _), _). \<not> (h = height \<and> r = round)) (cd_round_timeouts db) \<rparr>"

definition delete_round_timeout_votes_through :: "nat \<Rightarrow> 'p chain_db \<Rightarrow> 'p chain_db" where
  "delete_round_timeout_votes_through height db =
    db\<lparr> cd_round_timeouts := filter (\<lambda>((h, _), _). height < h) (cd_round_timeouts db) \<rparr>"

section \<open>The finalized watermark\<close>

definition UNDO_RETAIN :: nat where "UNDO_RETAIN = 5000"

definition certified_at :: "'p chain_db \<Rightarrow> (nat, string) btree \<Rightarrow> nat \<Rightarrow> string option" where
  "certified_at db incoming height =
    (case map_of incoming height of Some hash \<Rightarrow> Some hash
     | None \<Rightarrow> map_option fr_block_hash (get_finality_record db height))"

text \<open>Every turn of the loop passes a certificate that is stored or incoming, and there are finitely many.\<close>

lemma certified_at_key: "certified_at db incoming h = Some x \<Longrightarrow> h \<in> fst ` set incoming \<union> fst ` set (cd_finality db)"
  by (force simp: certified_at_def get_finality_record_def dest: map_of_SomeD split: option.splits)

function advance_watermark :: "'p chain_db \<Rightarrow> (nat, string) btree \<Rightarrow> nat \<Rightarrow> nat" where
  "advance_watermark db incoming watermark =
    (case certified_at db incoming (Suc watermark) of
      None \<Rightarrow> watermark
    | Some certified \<Rightarrow>
        if get_block_height_by_hash db certified \<noteq> Some (Suc watermark) then watermark
        else advance_watermark db incoming (Suc watermark))"
  by pat_completeness auto

termination
proof (relation "measure (\<lambda>(db, incoming, w). card {h \<in> fst ` set incoming \<union> fst ` set (cd_finality db). w < h})", simp)
  fix db :: "'p chain_db" and incoming :: "(nat, string) btree" and w x
  assume "certified_at db incoming (Suc w) = Some x"
  then have k: "Suc w \<in> fst ` set incoming \<union> fst ` set (cd_finality db)" by (rule certified_at_key)
  have "{h \<in> fst ` set incoming \<union> fst ` set (cd_finality db). Suc w < h} \<subset>
      {h \<in> fst ` set incoming \<union> fst ` set (cd_finality db). w < h}"
    using k by (intro psubsetI subsetI) auto
  then show "((db, incoming, Suc w), db, incoming, w) \<in>
      measure (\<lambda>(db, incoming, w). card {h \<in> fst ` set incoming \<union> fst ` set (cd_finality db). w < h})"
    by (simp add: psubset_card_mono)
qed

declare advance_watermark.simps [simp del]

text \<open>
  The watermark and the undo rows it makes unreachable, decided on what is on disk before the batch is written:
  \<open>db\<close> is the database before, \<open>db'\<close> the one with the batch's own rows.
\<close>

definition stage_watermark_advance :: "'p chain_db \<Rightarrow> (nat, string) btree \<Rightarrow> 'p chain_db \<Rightarrow> 'p chain_db" where
  "stage_watermark_advance db incoming db' =
    (let start = cd_watermark db; watermark = advance_watermark db incoming start in
     if watermark = start then db'
     else
      let retain = saturating_add u64_max (challenge_window_blocks (chain_params_of (cd_state db))) UNDO_RETAIN;
          from = saturating_sub start retain; upto = saturating_sub watermark retain
      in db'\<lparr> cd_watermark := watermark, cd_undo := filter (\<lambda>(h, _). \<not> (from < h \<and> h \<le> upto)) (cd_undo db') \<rparr>)"

definition write_finality_record :: "finality_record \<Rightarrow> 'p chain_db \<Rightarrow> 'p chain_db" where
  "write_finality_record r db =
    stage_watermark_advance db [(fr_height r, fr_block_hash r)]
      (db\<lparr> cd_finality := bt_insert (fr_height r) r (cd_finality db) \<rparr>)"

section \<open>Committing a block, and unwinding\<close>

definition bt_put :: "'k::linorder \<Rightarrow> 'v option \<Rightarrow> ('k, 'v) btree \<Rightarrow> ('k, 'v) btree" where
  "bt_put k x m = (case x of Some v \<Rightarrow> bt_insert k v m | None \<Rightarrow> bt_remove k m)"

fun put_row :: "'p db_row \<Rightarrow> 'p chain_db \<Rightarrow> 'p chain_db" where
  "put_row (BlockRow h x) db = db\<lparr> cd_blocks := bt_put h x (cd_blocks db) \<rparr>"
| "put_row (BlockHashRow k x) db = db\<lparr> cd_hash_index := bt_put k x (cd_hash_index db) \<rparr>"
| "put_row (TipRow x) db = db\<lparr> cd_tip := x \<rparr>"
| "put_row (ValidatorSetRow h x) db = db\<lparr> cd_validator_sets := bt_put h x (cd_validator_sets db) \<rparr>"
| "put_row (BlsHistoryRow k x) db = db\<lparr> cd_bls_history := bt_put k x (cd_bls_history db) \<rparr>"
| "put_row (WeightRow h x) db = db\<lparr> cd_weights := bt_put h x (cd_weights db) \<rparr>"
| "put_row (StateRow v) db = db\<lparr> cd_state := v \<rparr>"
| "put_row (RootRow r) db = db\<lparr> cd_root := r \<rparr>"

fun prior_row :: "'p chain_db \<Rightarrow> 'p db_row \<Rightarrow> 'p db_row" where
  "prior_row db (BlockRow h _) = BlockRow h (map_of (cd_blocks db) h)"
| "prior_row db (BlockHashRow k _) = BlockHashRow k (map_of (cd_hash_index db) k)"
| "prior_row db (TipRow _) = TipRow (cd_tip db)"
| "prior_row db (ValidatorSetRow h _) = ValidatorSetRow h (map_of (cd_validator_sets db) h)"
| "prior_row db (BlsHistoryRow k _) = BlsHistoryRow k (map_of (cd_bls_history db) k)"
| "prior_row db (WeightRow h _) = WeightRow h (map_of (cd_weights db) h)"
| "prior_row db (StateRow _) = StateRow (cd_state db)"
| "prior_row db (RootRow _) = RootRow (cd_root db)"

text \<open>The batch of a block: its rows, the undo record of their prior values and of the root, and the watermark.\<close>

definition write_block_batches :: "nat \<Rightarrow> 'p db_row list \<Rightarrow> 'p chain_db \<Rightarrow> 'p chain_db" where
  "write_block_batches height rows db =
    (let undo = map (prior_row db) rows @ [RootRow (cd_root db)];
         db' = fold put_row rows db
     in stage_watermark_advance db [] (db'\<lparr> cd_undo := bt_insert height undo (cd_undo db') \<rparr>))"

datatype storage_error =
    RevertBelowWatermark nat nat
  | MissingBlock nat
  | MissingUndoRecord nat
  | RevertRootMismatch nat string string

fun undo_blocks :: "nat list \<Rightarrow> 'p chain_db \<Rightarrow> (storage_error, 'p chain_db) result" where
  "undo_blocks [] db = Ok db"
| "undo_blocks (h # hs) db =
    and_then (ok_or (MissingUndoRecord h) (map_of (cd_undo db) h)) (\<lambda>rows.
    undo_blocks hs ((fold put_row rows db)\<lparr> cd_undo := bt_remove h (cd_undo db) \<rparr>))"

definition drop_votes_above :: "nat \<Rightarrow> 'p chain_db \<Rightarrow> 'p chain_db" where
  "drop_votes_above height db =
    db\<lparr> cd_precommits := filter (\<lambda>((h, _), _). h < height + 2) (cd_precommits db),
        cd_round_certs := filter (\<lambda>((h, _), _). h < height + 2) (cd_round_certs db),
        cd_round_timeouts := filter (\<lambda>((h, _), _). h < height + 2) (cd_round_timeouts db),
        cd_pols := filter (\<lambda>((h, _), _). h < height + 2) (cd_pols db) \<rparr>"

definition revert_to :: "nat \<Rightarrow> 'p chain_db \<Rightarrow> (storage_error, 'p chain_db) result" where
  "revert_to height db =
    (let tip = unwrap_or 0 (cd_tip db) in
     if tip \<le> height then Ok db
     else if height < cd_watermark db then Err (RevertBelowWatermark height (cd_watermark db))
     else
      and_then (ok_or (MissingBlock height) (get_block db height)) (\<lambda>target.
      and_then (undo_blocks (rev [Suc height..<Suc tip]) db) (\<lambda>db'.
      if cd_root db' \<noteq> b_state_root target
      then Err (RevertRootMismatch height (b_state_root target) (cd_root db'))
      else Ok (drop_votes_above height db'))))"


section \<open>Rows as a whole\<close>

text \<open>
  Every row of the chain is read back by \<open>prior_row\<close> under its key, so one lemma about writing a row speaks about all the
  tables.
\<close>

fun row_key :: "'p db_row \<Rightarrow> 'p db_row" where
  "row_key (BlockRow h _) = BlockRow h None"
| "row_key (BlockHashRow k _) = BlockHashRow k None"
| "row_key (TipRow _) = TipRow None"
| "row_key (ValidatorSetRow h _) = ValidatorSetRow h None"
| "row_key (BlsHistoryRow k _) = BlsHistoryRow k None"
| "row_key (WeightRow h _) = WeightRow h None"
| "row_key (StateRow _) = StateRow empty_view"
| "row_key (RootRow _) = RootRow []"

lemma map_of_bt_put [simp]: "map_of (bt_put k x m) = (map_of m)(k := x)"
  by (cases x) (simp_all add: bt_put_def)

lemma bt_wf_put: "bt_wf m \<Longrightarrow> bt_wf (bt_put k x m)"
  by (simp add: bt_put_def bt_wf_insert bt_wf_remove split: option.split)

lemma prior_put_row: "prior_row (put_row w db) r = (if row_key w = row_key r then w else prior_row db r)"
  by (cases w; cases r) auto

lemma row_key_prior [simp]: "row_key (prior_row db r) = row_key r"
  by (cases r) simp_all

lemma prior_row_key: "row_key w = row_key r \<Longrightarrow> prior_row db w = prior_row db r"
  by (cases w; cases r) simp_all

lemma prior_fold_other: "row_key r \<notin> row_key ` set ws \<Longrightarrow> prior_row (fold put_row ws db) r = prior_row db r"
proof (induction ws arbitrary: db)
  case (Cons w ws)
  then show ?case using prior_put_row [of w db r] by auto
qed simp

lemma prior_fold_restore:
  "row_key r \<in> row_key ` set rows \<Longrightarrow> prior_row (fold put_row (map (prior_row db0) rows) db) r = prior_row db0 r"
proof (induction rows arbitrary: db)
  case (Cons w rows)
  show ?case
  proof (cases "row_key r \<in> row_key ` set rows")
    case True
    then show ?thesis using Cons.IH by simp
  next
    case False
    then have "row_key r \<notin> row_key ` set (map (prior_row db0) rows)" by (auto simp: image_image)
    then have "prior_row (fold put_row (map (prior_row db0) rows) (put_row (prior_row db0 w) db)) r =
        prior_row (put_row (prior_row db0 w) db) r" by (rule prior_fold_other)
    moreover have w: "row_key w = row_key r" using Cons.prems False by auto
    ultimately show ?thesis using prior_row_key [OF w, of db0] by (simp add: prior_put_row)
  qed
qed simp

definition chain_wf :: "'p chain_db \<Rightarrow> bool" where
  "chain_wf db \<longleftrightarrow> bt_wf (cd_blocks db) \<and> bt_wf (cd_hash_index db) \<and> bt_wf (cd_validator_sets db) \<and>
     bt_wf (cd_bls_history db) \<and> bt_wf (cd_weights db) \<and> bt_wf (cd_undo db)"

lemma put_row_wf: "chain_wf db \<Longrightarrow> chain_wf (put_row w db)"
  by (cases w) (simp_all add: chain_wf_def bt_wf_put)

lemma put_rows_wf: "chain_wf db \<Longrightarrow> chain_wf (fold put_row ws db)"
  by (induction ws arbitrary: db) (simp_all add: put_row_wf)

lemma bt_wf_ext: "bt_wf m \<Longrightarrow> bt_wf n \<Longrightarrow> map_of m = map_of n \<Longrightarrow> m = n"
proof -
  assume a: "bt_wf m" "bt_wf n" "map_of m = map_of n"
  have "fst ` set m = fst ` set n" using arg_cong [OF a(3), of dom] by (simp add: dom_map_of_conv_image_fst)
  then have k: "map fst m = map fst n"
    using a(1,2) by (intro sorted_distinct_set_unique) (simp_all add: bt_wf_def strict_sorted_iff)
  moreover have "map snd m = map snd n"
  proof (rule nth_equalityI)
    show l: "length (map snd m) = length (map snd n)" using arg_cong [OF k, of length] by simp
    fix i assume i: "i < length (map snd m)"
    have "map_of m (fst (m ! i)) = Some (snd (m ! i))" using i a(1) by (intro map_of_is_SomeI bt_wf_distinct) simp_all
    moreover have "map_of n (fst (n ! i)) = Some (snd (n ! i))" using i l a(2) by (intro map_of_is_SomeI bt_wf_distinct) simp_all
    moreover have "fst (m ! i) = fst (n ! i)" using arg_cong [OF k, of "\<lambda>xs. xs ! i"] i l by simp
    ultimately show "map snd m ! i = map snd n ! i" using a(3) i l by simp
  qed
  ultimately show ?thesis by (metis pair_list_eqI)
qed

text \<open>The chain rows of two databases agree.\<close>

definition same_chain :: "'p chain_db \<Rightarrow> 'p chain_db \<Rightarrow> bool" where
  "same_chain a b \<longleftrightarrow> cd_blocks a = cd_blocks b \<and> cd_hash_index a = cd_hash_index b \<and> cd_tip a = cd_tip b \<and>
     cd_validator_sets a = cd_validator_sets b \<and> cd_bls_history a = cd_bls_history b \<and> cd_weights a = cd_weights b \<and>
     cd_state a = cd_state b \<and> cd_root a = cd_root b"

lemma same_chain_rows:
  assumes "chain_wf a" "chain_wf b" "\<And>r. prior_row a r = prior_row b r"
  shows "same_chain a b"
proof -
  have "map_of (cd_blocks a) k = map_of (cd_blocks b) k" for k using assms(3) [of "BlockRow k None"] by simp
  moreover have "map_of (cd_hash_index a) h = map_of (cd_hash_index b) h" for h using assms(3) [of "BlockHashRow h None"] by simp
  moreover have "map_of (cd_validator_sets a) k = map_of (cd_validator_sets b) k" for k using assms(3) [of "ValidatorSetRow k None"] by simp
  moreover have "map_of (cd_bls_history a) k = map_of (cd_bls_history b) k" for k using assms(3) [of "BlsHistoryRow k None"] by simp
  moreover have "map_of (cd_weights a) k = map_of (cd_weights b) k" for k using assms(3) [of "WeightRow k None"] by simp
  moreover have "cd_tip a = cd_tip b" using assms(3) [of "TipRow None"] by simp
  moreover have "cd_state a = cd_state b" using assms(3) [of "StateRow empty_view"] by simp
  moreover have "cd_root a = cd_root b" using assms(3) [of "RootRow []"] by simp
  ultimately show ?thesis using assms(1,2) by (auto simp: same_chain_def chain_wf_def intro!: bt_wf_ext ext)
qed


section \<open>The watermark\<close>

lemma advance_watermark_ge: "w \<le> advance_watermark db incoming w"
proof (induction db incoming w rule: advance_watermark.induct)
  case (1 db incoming w)
  then show ?case by (subst advance_watermark.simps) (fastforce split: option.splits)
qed

lemma advance_watermark_passes:
  "w < k \<Longrightarrow> k \<le> advance_watermark db incoming w \<Longrightarrow>
   \<exists>x. certified_at db incoming k = Some x \<and> get_block_height_by_hash db x = Some k"
proof (induction db incoming w rule: advance_watermark.induct)
  case (1 db incoming w)
  show ?case
  proof (cases "\<exists>x. certified_at db incoming (Suc w) = Some x \<and> get_block_height_by_hash db x = Some (Suc w)")
    case True
    then obtain x where x: "certified_at db incoming (Suc w) = Some x" "get_block_height_by_hash db x = Some (Suc w)" by blast
    then have "k \<le> advance_watermark db incoming (Suc w)"
      using "1.prems"(2) by (subst (asm) advance_watermark.simps) simp
    then show ?thesis using "1.IH" [OF x(1)] x "1.prems"(1) by (cases "k = Suc w") auto
  next
    case False
    then have "advance_watermark db incoming w = w" by (subst advance_watermark.simps) (auto split: option.splits)
    then show ?thesis using "1.prems" by simp
  qed
qed

lemma advance_watermark_stops:
  "certified_at db incoming (Suc (advance_watermark db incoming w)) = Some x \<Longrightarrow>
   get_block_height_by_hash db x \<noteq> Some (Suc (advance_watermark db incoming w))"
proof (induction db incoming w rule: advance_watermark.induct)
  case (1 db incoming w)
  show ?case
  proof (cases "\<exists>x. certified_at db incoming (Suc w) = Some x \<and> get_block_height_by_hash db x = Some (Suc w)")
    case True
    then obtain y where y: "certified_at db incoming (Suc w) = Some y" "get_block_height_by_hash db y = Some (Suc w)" by blast
    have e: "advance_watermark db incoming w = advance_watermark db incoming (Suc w)"
      using y by (subst advance_watermark.simps) simp
    show ?thesis using "1.IH" [OF y(1)] y(2) "1.prems" unfolding e by simp
  next
    case False
    then have "advance_watermark db incoming w = w" by (subst advance_watermark.simps) (auto split: option.splits)
    then show ?thesis using False "1.prems" by simp
  qed
qed

lemma advance_watermark_le:
  assumes "\<And>x n. map_of (cd_hash_index db) x = Some n \<Longrightarrow> n \<le> h" "w \<le> h"
  shows "advance_watermark db incoming w \<le> h"
proof (rule ccontr)
  assume n: "\<not> advance_watermark db incoming w \<le> h"
  then have "w < advance_watermark db incoming w" using assms(2) by simp
  from advance_watermark_passes [OF this order_refl] n show False
    using assms(1) by (fastforce simp: get_block_height_by_hash_def)
qed

lemma stage_watermark_fields [simp]:
  "cd_blocks (stage_watermark_advance db i db') = cd_blocks db'" "cd_hash_index (stage_watermark_advance db i db') = cd_hash_index db'"
  "cd_tip (stage_watermark_advance db i db') = cd_tip db'" "cd_validator_sets (stage_watermark_advance db i db') = cd_validator_sets db'"
  "cd_bls_history (stage_watermark_advance db i db') = cd_bls_history db'" "cd_weights (stage_watermark_advance db i db') = cd_weights db'"
  "cd_state (stage_watermark_advance db i db') = cd_state db'" "cd_root (stage_watermark_advance db i db') = cd_root db'" "cd_pols (stage_watermark_advance db i db') = cd_pols db'"
  "cd_finality (stage_watermark_advance db i db') = cd_finality db'" "cd_precommits (stage_watermark_advance db i db') = cd_precommits db'"
  "cd_round_certs (stage_watermark_advance db i db') = cd_round_certs db'" "cd_genesis (stage_watermark_advance db i db') = cd_genesis db'"
  "cd_dissents (stage_watermark_advance db i db') = cd_dissents db'" "cd_round_timeouts (stage_watermark_advance db i db') = cd_round_timeouts db'"
  by (simp_all add: stage_watermark_advance_def Let_def)

lemma put_row_keeps [simp]:
  "cd_watermark (put_row w db) = cd_watermark db" "cd_undo (put_row w db) = cd_undo db" "cd_pols (put_row w db) = cd_pols db"
  "cd_finality (put_row w db) = cd_finality db" "cd_precommits (put_row w db) = cd_precommits db"
  "cd_genesis (put_row w db) = cd_genesis db" 
  "cd_dissents (put_row w db) = cd_dissents db"
  by (cases w; simp)+

lemma put_rows_keep [simp]:
  "cd_watermark (fold put_row ws db) = cd_watermark db" "cd_undo (fold put_row ws db) = cd_undo db"
  "cd_pols (fold put_row ws db) = cd_pols db" "cd_finality (fold put_row ws db) = cd_finality db"
  "cd_precommits (fold put_row ws db) = cd_precommits db" "cd_genesis (fold put_row ws db) = cd_genesis db"
  "cd_dissents (fold put_row ws db) = cd_dissents db"
  by (induction ws arbitrary: db) simp_all

lemma map_of_filter_keep: "P k \<Longrightarrow> map_of (filter (\<lambda>(k, v). P k) m) k = map_of m k"
  by (induction m) auto

lemma undo_kept:
  fixes db :: "'p chain_db"
  assumes "h \<ge> advance_watermark db i (cd_watermark db)"
  shows "map_of (cd_undo (stage_watermark_advance db i db')) (Suc h) = map_of (cd_undo db') (Suc h)"
proof -
  have "saturating_sub (advance_watermark db i (cd_watermark db)) r < Suc h" for r
    using assms saturating_sub_le [of "advance_watermark db i (cd_watermark db)" r] by linarith
  then have "map_of (filter (\<lambda>(k, _). lo < k \<longrightarrow> \<not> k \<le> saturating_sub (advance_watermark db i (cd_watermark db)) r) m) (Suc h) =
      map_of m (Suc h)" for lo r and m :: "(nat, 'p db_row list) btree"
    by (intro map_of_filter_keep) (simp add: not_le)
  then show ?thesis by (simp add: stage_watermark_advance_def Let_def)
qed

lemma cd_watermark_stage:
  "cd_watermark db' = cd_watermark db \<Longrightarrow> cd_watermark (stage_watermark_advance db i db') = advance_watermark db i (cd_watermark db)"
  by (simp add: stage_watermark_advance_def Let_def)

section \<open>Unwinding\<close>

lemma undo_restores:
  assumes "chain_wf db"
  shows "same_chain (fold put_row (map (prior_row db) rows @ [RootRow (cd_root db)]) (fold put_row rows db)) db"
proof (rule same_chain_rows [OF _ assms])
  let ?undo = "map (prior_row db) rows @ [RootRow (cd_root db)]"
  show "chain_wf (fold put_row ?undo (fold put_row rows db))" using assms by (intro put_rows_wf)
  fix r
  have u: "?undo = map (prior_row db) (rows @ [RootRow []])" by simp
  show "prior_row (fold put_row ?undo (fold put_row rows db)) r = prior_row db r"
  proof (cases "row_key r \<in> row_key ` set (rows @ [RootRow []])")
    case True
    show ?thesis unfolding u by (rule prior_fold_restore [OF True])
  next
    case False
    then have "row_key r \<notin> row_key ` set ?undo" "row_key r \<notin> row_key ` set rows" by (auto simp: image_image)
    then show ?thesis using prior_fold_other [of r ?undo "fold put_row rows db"] prior_fold_other [of r rows db] by simp
  qed
qed

lemma same_chain_cong:
  "same_chain (stage_watermark_advance db i a) b \<longleftrightarrow> same_chain a b" "same_chain (drop_votes_above h a) b \<longleftrightarrow> same_chain a b"
  "same_chain (a\<lparr> cd_undo := u \<rparr>) b \<longleftrightarrow> same_chain a b"
  by (simp_all add: same_chain_def drop_votes_above_def)

text \<open>Writing rows does not depend on the fields a block's batch leaves alone.\<close>

lemma put_row_stage: "put_row w (stage_watermark_advance db i db') = stage_watermark_advance db i (put_row w db')"
  by (cases w) (simp_all add: stage_watermark_advance_def Let_def)

lemma put_row_undo: "put_row w (db\<lparr> cd_undo := u \<rparr>) = (put_row w db)\<lparr> cd_undo := u \<rparr>"
  by (cases w) simp_all

lemma put_rows_stage: "fold put_row ws (stage_watermark_advance db i db') = stage_watermark_advance db i (fold put_row ws db')"
  by (induction ws arbitrary: db') (simp_all add: put_row_stage)

lemma put_rows_undo: "fold put_row ws (db\<lparr> cd_undo := u \<rparr>) = (fold put_row ws db)\<lparr> cd_undo := u \<rparr>"
  by (induction ws arbitrary: db) (simp_all add: put_row_undo)

lemma revert_one:
  assumes "cd_tip d = Some (Suc h)" "cd_watermark d \<le> h" "get_block d h = Some target"
    and undone: "undo_blocks [Suc h] d = Ok d1" and "cd_root d1 = b_state_root target"
  shows "revert_to h d = Ok (drop_votes_above h d1)"
proof -
  have "rev [Suc h..<Suc (Suc h)] = [Suc h]" by simp
  then show ?thesis using assms unfolding revert_to_def Let_def by (simp del: undo_blocks.simps upt_Suc)
qed

text \<open>
  C15: unwinding a block restores the chain exactly. Committing a block on the tip and unwinding it again gives back every
  block, index, validator set, BLS key, weight, state row and root of before, whatever rows the block wrote.
\<close>

theorem revert_restores_chain:
  assumes "chain_wf db" "cd_tip db = Some h" "get_block db h = Some target" "b_state_root target = cd_root db"
    and "cd_watermark db \<le> h" "\<And>x n. map_of (cd_hash_index db) x = Some n \<Longrightarrow> n \<le> h"
    and "cd_tip (fold put_row rows db) = Some (Suc h)" "BlockRow h None \<notin> row_key ` set rows"
  shows "\<exists>db'. revert_to h (write_block_batches (Suc h) rows db) = Ok db' \<and> same_chain db' db"
proof -
  let ?undo = "map (prior_row db) rows @ [RootRow (cd_root db)]"
  let ?rows = "(fold put_row rows db)\<lparr> cd_undo := bt_insert (Suc h) ?undo (cd_undo db) \<rparr>"
  let ?db = "stage_watermark_advance db [] ?rows"
  have w: "write_block_batches (Suc h) rows db = ?db" by (simp add: write_block_batches_def Let_def)
  have adv: "advance_watermark db [] (cd_watermark db) \<le> h" by (rule advance_watermark_le) (use assms(5,6) in auto)
  have wm: "cd_watermark ?db \<le> h" using adv by (subst cd_watermark_stage) simp_all
  have undo: "map_of (cd_undo ?db) (Suc h) = Some ?undo" by (subst undo_kept [OF adv]) simp
  have blk: "get_block ?db h = Some target"
    using prior_fold_other [of "BlockRow h None" rows db] assms(3,8) by (simp add: get_block_def)
  define db1 where "db1 = (fold put_row ?undo ?db)\<lparr> cd_undo := bt_remove (Suc h) (cd_undo ?db) \<rparr>"
  have undone: "undo_blocks [Suc h] ?db = Ok db1" by (simp add: undo db1_def)
  have same: "same_chain db1 db"
    unfolding db1_def using undo_restores [OF assms(1), of rows]
    by (simp only: put_rows_stage put_rows_undo same_chain_cong)
  then have "cd_root db1 = b_state_root target" using assms(4) by (simp add: same_chain_def)
  moreover have "cd_tip ?db = Some (Suc h)" using assms(7) by simp
  ultimately have "revert_to h ?db = Ok (drop_votes_above h db1)" using wm blk undone by (intro revert_one)
  then show ?thesis using same by (auto simp: w same_chain_cong)
qed

definition sample_block :: "nat \<Rightarrow> string \<Rightarrow> nat block" where
  "sample_block h root =
    \<lparr> b_height = h, b_parent_hash = ''p'', b_timestamp = 0, b_actions = [], b_tx_root = [], b_proposer = None, b_signature = None,
      b_parent_state_root = [], b_state_root = root, b_round = 0, b_round_certificate = None, b_build_id = [] \<rparr>"

definition sample_db :: "nat chain_db" where
  "sample_db =
    \<lparr> cd_genesis = ''g'', cd_blocks = [(0, sample_block 0 ''r0'')], cd_hash_index = [(''b0'', 0)], cd_tip = Some 0,
      cd_validator_sets = [(0, [(Address ''a'', 10000)])], cd_bls_history = [((Address ''a'', 0), ''k'')], cd_weights = [],
      cd_root = ''r0'', cd_undo = [], cd_state = empty_view, cd_watermark = 0, cd_finality = [], cd_pols = [],
      cd_round_certs = [], cd_precommits = [], cd_round_timeouts = [], cd_dissents = [] \<rparr>"

definition sample_rows :: "nat db_row list" where
  "sample_rows =
    [BlockRow 1 (Some (sample_block 1 ''r1'')), BlockHashRow ''b1'' (Some 1), TipRow (Some 1), RootRow ''r1'',
     StateRow (empty_view\<lparr> v_next_proposal_id := Some 3 \<rparr>), ValidatorSetRow 2 (Some [(Address ''b'', 10000)]), BlsHistoryRow (Address ''a'', 2) (Some ''k2''), WeightRow 1 (Some 7)]"

theorem revert_restores_chain_witness:
  "\<exists>db'. revert_to 0 (write_block_batches (Suc 0) sample_rows sample_db) = Ok db' \<and> same_chain db' sample_db"
  by (rule revert_restores_chain [where target = "sample_block 0 ''r0''"])
    (auto simp: sample_db_def sample_rows_def sample_block_def chain_wf_def bt_wf_def get_block_def split: if_splits)

text \<open>
  C30: the watermark is exact and the loop that advances it ends. It moves up to the highest height such that every height
  passed carries a certificate for the block this node holds there, and stops at the first that does not.
\<close>

theorem watermark_advance_exact:
  "cd_watermark db \<le> advance_watermark db incoming (cd_watermark db) \<and>
   (\<forall>k. cd_watermark db < k \<and> k \<le> advance_watermark db incoming (cd_watermark db) \<longrightarrow>
      (\<exists>x. certified_at db incoming k = Some x \<and> get_block_height_by_hash db x = Some k)) \<and>
   \<not> (\<exists>x. certified_at db incoming (Suc (advance_watermark db incoming (cd_watermark db))) = Some x \<and>
        get_block_height_by_hash db x = Some (Suc (advance_watermark db incoming (cd_watermark db))))"
  using advance_watermark_ge [of "cd_watermark db" db incoming] advance_watermark_passes [of "cd_watermark db" _ db incoming]
    advance_watermark_stops [of db incoming "cd_watermark db"] by blast

definition sample_finality :: "nat \<Rightarrow> string \<Rightarrow> finality_record" where
  "sample_finality h x =
    \<lparr> fr_height = h, fr_round = 0, fr_block_hash = x, fr_signers = [], fr_aggregate_signature = [], fr_ep = [] \<rparr>"

theorem watermark_advance_exact_witness:
  "\<exists>x. certified_at (write_block_batches 1 sample_rows sample_db) [(1, ''b1'')] 1 = Some x \<and>
     get_block_height_by_hash (write_block_batches 1 sample_rows sample_db) x = Some 1"
proof -
  let ?db = "write_block_batches 1 sample_rows sample_db"
  have "advance_watermark sample_db [] 0 = 0"
    by (subst advance_watermark.simps) (simp add: certified_at_def get_finality_record_def sample_db_def)
  then have w: "cd_watermark ?db = 0"
    by (simp add: write_block_batches_def Let_def stage_watermark_advance_def) (simp add: sample_db_def)
  have "advance_watermark ?db [(1, ''b1'')] 0 = 1"
    by (subst advance_watermark.simps, subst advance_watermark.simps)
      (simp add: certified_at_def get_finality_record_def get_block_height_by_hash_def write_block_batches_def Let_def
        sample_rows_def sample_db_def)
  then show ?thesis using watermark_advance_exact [of ?db "[(1, ''b1'')]"] w by simp
qed

end
