(* ===== verification/Signed_Votes.thy ===== *)
theory Signed_Votes
  imports Proposer
begin

text \<open>
  Slashing protection for a validator's finality votes (\<^verbatim>\<open>src/arxd/finality/src/signed_votes.rs\<close>): the record of every
  vote signed, the rules a vote must pass before it is signed, and the text file the record is kept in.

  Whether a write to disk succeeds is the argument \<open>durable\<close>. Error messages become the constructors of \<open>vote_refusal\<close>.
  Text is ASCII: a character is white space when Rust's \<open>split_whitespace\<close> says so of an ASCII character.
\<close>

section \<open>The record\<close>

datatype vote_kind = Prevote | Precommit | Timeout

record vote_entry =
  ve_kind :: vote_kind
  ve_height :: nat
  ve_round :: nat
  ve_hash :: string

record signed_votes =
  sv_genesis :: string
  sv_floor :: nat
  sv_entries :: "vote_entry list"

datatype vote_refusal = Locked nat string | BelowFloor nat | Conflict string | RoundLeft | WriteFailed

text \<open>\<open>max_by_key\<close> keeps the later of two equal maxima.\<close>

definition max_by_round :: "vote_entry list \<Rightarrow> vote_entry option" where
  "max_by_round es =
    fold (\<lambda>e m. case m of None \<Rightarrow> Some e | Some x \<Rightarrow> if ve_round e < ve_round x then Some x else Some e) es None"

definition lock :: "signed_votes \<Rightarrow> nat \<Rightarrow> (nat \<times> string) option" where
  "lock sv height =
    map_option (\<lambda>e. (ve_round e, ve_hash e))
      (max_by_round (filter (\<lambda>e. ve_height e = height \<and> ve_kind e = Precommit) (sv_entries sv)))"

definition claim ::
  "bool \<Rightarrow> signed_votes \<Rightarrow> vote_kind \<Rightarrow> nat \<Rightarrow> nat \<Rightarrow> string \<Rightarrow> (vote_refusal, signed_votes) result" where
  "claim durable sv kind height round hash =
    (if height \<le> sv_floor sv then Err (BelowFloor (sv_floor sv))
     else
      case find (\<lambda>e. ve_height e = height \<and> ve_round e = round \<and> ve_kind e = kind) (sv_entries sv) of
        Some e \<Rightarrow> if ve_hash e \<noteq> hash then Err (Conflict (ve_hash e)) else Ok sv
      | None \<Rightarrow>
          if kind \<noteq> Timeout \<and>
             list_ex (\<lambda>e. ve_height e = height \<and> (round < ve_round e \<or> ve_round e = round \<and> ve_kind e = Timeout)) (sv_entries sv)
          then Err RoundLeft
          else if \<not> durable then Err WriteFailed
          else Ok (sv\<lparr> sv_entries := sv_entries sv @
            [\<lparr> ve_kind = kind, ve_height = height, ve_round = round, ve_hash = hash \<rparr>] \<rparr>))"

definition claim_prevote ::
  "bool \<Rightarrow> signed_votes \<Rightarrow> nat \<Rightarrow> nat \<Rightarrow> string \<Rightarrow> nat option \<Rightarrow> (vote_refusal, signed_votes) result" where
  "claim_prevote durable sv height round hash pol_round =
    (case lock sv height of
      Some (locked_round, locked) \<Rightarrow>
        if locked \<noteq> hash \<and> \<not> (case pol_round of Some pol \<Rightarrow> locked_round \<le> pol \<and> pol \<le> round | None \<Rightarrow> False)
        then Err (Locked locked_round locked)
        else claim durable sv Prevote height round hash
    | None \<Rightarrow> claim durable sv Prevote height round hash)"

definition claim_precommit ::
  "bool \<Rightarrow> signed_votes \<Rightarrow> nat \<Rightarrow> nat \<Rightarrow> string \<Rightarrow> (vote_refusal, signed_votes) result" where
  "claim_precommit durable sv height round hash = claim durable sv Precommit height round hash"

definition claim_timeout ::
  "bool \<Rightarrow> signed_votes \<Rightarrow> nat \<Rightarrow> nat \<Rightarrow> string \<Rightarrow> (vote_refusal, signed_votes) result" where
  "claim_timeout durable sv height round parent_hash = claim durable sv Timeout height round parent_hash"

text \<open>Pruning changes the record in memory even when the file cannot be written.\<close>

definition prune_below :: "signed_votes \<Rightarrow> nat \<Rightarrow> signed_votes" where
  "prune_below sv cutoff =
    (let floor = saturating_sub cutoff 1 in
     if floor \<le> sv_floor sv then sv
     else sv\<lparr> sv_floor := floor, sv_entries := filter (\<lambda>e. floor < ve_height e) (sv_entries sv) \<rparr>)"

section \<open>The file\<close>

fun show_digits :: "nat \<Rightarrow> string" where
  "show_digits n = (if n < 10 then [char_of (48 + n)] else show_digits (n div 10) @ [char_of (48 + n mod 10)])"

declare show_digits.simps [simp del]

fun kind_tag :: "vote_kind \<Rightarrow> string" where
  "kind_tag Prevote = ''v''"
| "kind_tag Precommit = ''p''"
| "kind_tag Timeout = ''t''"

definition newline :: char where "newline = CHR 0x0A"

definition entry_line :: "vote_entry \<Rightarrow> string" where
  "entry_line e =
    kind_tag (ve_kind e) @ '' '' @ show_digits (ve_height e) @ '' '' @ show_digits (ve_round e) @ '' '' @ ve_hash e @ [newline]"

definition persist_text :: "signed_votes \<Rightarrow> string" where
  "persist_text sv =
    sv_genesis sv @ '' '' @ show_digits (sv_floor sv) @ [newline] @ concat (map entry_line (sv_entries sv))"

definition is_space :: "char \<Rightarrow> bool" where
  "is_space c \<longleftrightarrow> of_char c \<in> {9 :: nat, 10, 11, 12, 13, 32}"

fun split_on :: "(char \<Rightarrow> bool) \<Rightarrow> string \<Rightarrow> string list" where
  "split_on P [] = [[]]"
| "split_on P (c # cs) = (if P c then [] # split_on P cs else (c # hd (split_on P cs)) # tl (split_on P cs))"

definition split_whitespace :: "string \<Rightarrow> string list" where
  "split_whitespace s = filter (\<lambda>w. w \<noteq> []) (split_on is_space s)"

text \<open>\<open>lines\<close>: split at newlines, without a last empty piece, each without one trailing carriage return.\<close>

definition strip_cr :: "string \<Rightarrow> string" where
  "strip_cr s = (if s \<noteq> [] \<and> of_char (last s) = (13 :: nat) then butlast s else s)"

definition text_lines :: "string \<Rightarrow> string list" where
  "text_lines s =
    (let ps = split_on (\<lambda>c. c = newline) s in
     map strip_cr (if last ps = [] then butlast ps else ps))"

definition is_digit :: "char \<Rightarrow> bool" where
  "is_digit c \<longleftrightarrow> 48 \<le> (of_char c :: nat) \<and> of_char c \<le> (57 :: nat)"

definition parse_uint :: "nat \<Rightarrow> string \<Rightarrow> nat option" where
  "parse_uint limit s =
    (let ds = (case s of c # cs \<Rightarrow> if of_char c = (43 :: nat) then cs else s | [] \<Rightarrow> []) in
     if ds = [] \<or> \<not> list_all is_digit ds then None
     else let n = foldl (\<lambda>n c. 10 * n + (of_char c - 48)) 0 ds in if limit < n then None else Some n)"

datatype load_error = Malformed

fun parse_kind :: "string \<Rightarrow> (load_error, vote_kind) result" where
  "parse_kind s =
    (if s = ''v'' then Ok Prevote else if s = ''p'' then Ok Precommit else if s = ''t'' then Ok Timeout else Err Malformed)"

definition parse_entry :: "string \<Rightarrow> (load_error, vote_entry) result" where
  "parse_entry line =
    (case split_whitespace line of
      [kind, height, round, hash] \<Rightarrow>
        and_then (parse_kind kind) (\<lambda>k.
        and_then (ok_or Malformed (parse_uint u64_max height)) (\<lambda>h.
        and_then (ok_or Malformed (parse_uint u32_max round)) (\<lambda>r.
        Ok \<lparr> ve_kind = k, ve_height = h, ve_round = r, ve_hash = hash \<rparr>)))
    | _ \<Rightarrow> Err Malformed)"

fun parse_entries :: "string list \<Rightarrow> (load_error, vote_entry list) result" where
  "parse_entries [] = Ok []"
| "parse_entries (l # ls) = and_then (parse_entry l) (\<lambda>e. and_then (parse_entries ls) (\<lambda>es. Ok (e # es)))"

text \<open>\<open>None\<close> is a file that does not exist.\<close>

definition load_votes :: "string option \<Rightarrow> string \<Rightarrow> (load_error, signed_votes) result" where
  "load_votes text genesis_hex =
    (let empty = \<lparr> sv_genesis = genesis_hex, sv_floor = 0, sv_entries = [] \<rparr> in
     case text of None \<Rightarrow> Ok empty
     | Some text \<Rightarrow>
        (let ls = text_lines text in
         case split_whitespace (case ls of [] \<Rightarrow> [] | l # _ \<Rightarrow> l) of
           [genesis, floor] \<Rightarrow>
             if genesis \<noteq> genesis_hex then Ok empty
             else
              and_then (ok_or Malformed (parse_uint u64_max floor)) (\<lambda>f.
              and_then (parse_entries (tl ls)) (\<lambda>es.
              Ok (empty\<lparr> sv_floor := f, sv_entries := es \<rparr>)))
         | _ \<Rightarrow> Err Malformed))"


section \<open>The rules\<close>

lemma max_by_round_fold:
  "fold (\<lambda>e m. case m of None \<Rightarrow> Some e | Some x \<Rightarrow> if ve_round e < ve_round x then Some x else Some e) es m = Some e \<Longrightarrow>
   (e \<in> set es \<or> m = Some e) \<and> (\<forall>x\<in>set es. ve_round x \<le> ve_round e) \<and> (\<forall>x. m = Some x \<longrightarrow> ve_round x \<le> ve_round e)"
proof (induction es arbitrary: m)
  case (Cons a es)
  let ?m = "case m of None \<Rightarrow> Some a | Some x \<Rightarrow> if ve_round a < ve_round x then Some x else Some a"
  have ih: "(e \<in> set es \<or> ?m = Some e) \<and> (\<forall>x\<in>set es. ve_round x \<le> ve_round e) \<and> (\<forall>x. ?m = Some x \<longrightarrow> ve_round x \<le> ve_round e)"
    using Cons.prems by (intro Cons.IH) simp
  then show ?case by (cases m) (auto split: if_splits)
qed simp

lemma max_by_round_Some:
  "max_by_round es = Some e \<Longrightarrow> e \<in> set es \<and> (\<forall>x\<in>set es. ve_round x \<le> ve_round e)"
  using max_by_round_fold [of es None e] by (simp add: max_by_round_def)

lemma max_by_round_None: "max_by_round es = None \<longleftrightarrow> es = []"
proof -
  have "fold (\<lambda>e m. case m of None \<Rightarrow> Some e | Some x \<Rightarrow> if ve_round e < ve_round x then Some x else Some e) es (Some y) \<noteq> None" for y es
    by (induction es arbitrary: y) auto
  then show ?thesis by (cases es) (simp_all add: max_by_round_def)
qed

lemma lock_Some:
  assumes "lock sv h = Some (lr, lv)"
  shows "\<exists>e\<in>set (sv_entries sv). ve_kind e = Precommit \<and> ve_height e = h \<and> ve_round e = lr \<and> ve_hash e = lv"
    and "\<And>e. e \<in> set (sv_entries sv) \<Longrightarrow> ve_kind e = Precommit \<Longrightarrow> ve_height e = h \<Longrightarrow> ve_round e \<le> lr"
proof -
  obtain e where e: "max_by_round (filter (\<lambda>e. ve_height e = h \<and> ve_kind e = Precommit) (sv_entries sv)) = Some e"
    "ve_round e = lr" "ve_hash e = lv" using assms by (auto simp: lock_def)
  from max_by_round_Some [OF e(1)] e(2,3)
  show "\<exists>e\<in>set (sv_entries sv). ve_kind e = Precommit \<and> ve_height e = h \<and> ve_round e = lr \<and> ve_hash e = lv"
    and "\<And>e. e \<in> set (sv_entries sv) \<Longrightarrow> ve_kind e = Precommit \<Longrightarrow> ve_height e = h \<Longrightarrow> ve_round e \<le> lr" by auto
qed

lemma lock_None:
  "lock sv h = None \<longleftrightarrow> (\<forall>e\<in>set (sv_entries sv). \<not> (ve_kind e = Precommit \<and> ve_height e = h))"
  by (auto simp: lock_def max_by_round_None filter_empty_conv)

text \<open>One vote of a kind in a round, and none in a round that was left.\<close>

definition one_vote_per_round :: "signed_votes \<Rightarrow> bool" where
  "one_vote_per_round sv \<longleftrightarrow>
    (\<forall>e\<in>set (sv_entries sv). \<forall>e'\<in>set (sv_entries sv).
       ve_kind e = ve_kind e' \<and> ve_height e = ve_height e' \<and> ve_round e = ve_round e' \<longrightarrow> ve_hash e = ve_hash e')"

lemma one_vote_per_roundD:
  "one_vote_per_round sv \<Longrightarrow> e \<in> set (sv_entries sv) \<Longrightarrow> e' \<in> set (sv_entries sv) \<Longrightarrow> ve_kind e = ve_kind e' \<Longrightarrow>
   ve_height e = ve_height e' \<Longrightarrow> ve_round e = ve_round e' \<Longrightarrow> ve_hash e = ve_hash e'"
  unfolding one_vote_per_round_def by blast

text \<open>What a claim that succeeded says about the record before and after it.\<close>

lemma claim_Ok:
  assumes "claim durable sv kind h r x = Ok sv'"
  shows "sv_floor sv < h" and "sv_floor sv' = sv_floor sv" and "sv_genesis sv' = sv_genesis sv"
    and "\<exists>e\<in>set (sv_entries sv'). ve_kind e = kind \<and> ve_height e = h \<and> ve_round e = r \<and> ve_hash e = x"
    and "sv' = sv \<or> sv_entries sv' = sv_entries sv @ [\<lparr> ve_kind = kind, ve_height = h, ve_round = r, ve_hash = x \<rparr>]"
  using assms by (auto simp: claim_def find_Some_iff split: if_splits option.splits)

text \<open>A vote that was not in the record yet is in a round no later vote left.\<close>

lemma claim_new_round:
  assumes "claim durable sv kind h r x = Ok sv'" "kind \<noteq> Timeout"
    and "e \<in> set (sv_entries sv)" "ve_height e = h" "r < ve_round e"
  shows "\<exists>e\<in>set (sv_entries sv). ve_kind e = kind \<and> ve_height e = h \<and> ve_round e = r \<and> ve_hash e = x"
proof (cases "find (\<lambda>e. ve_height e = h \<and> ve_round e = r \<and> ve_kind e = kind) (sv_entries sv)")
  case None
  then show ?thesis using assms by (auto simp: claim_def list_ex_iff split: if_splits)
next
  case (Some e')
  then have "e' \<in> set (sv_entries sv)" "ve_height e' = h" "ve_round e' = r" "ve_kind e' = kind"
    by (auto simp: find_Some_iff)
  moreover have "ve_hash e' = x" using assms(1) Some by (auto simp: claim_def split: if_splits)
  ultimately show ?thesis by blast
qed

lemma claim_one_vote:
  assumes "one_vote_per_round sv" "claim durable sv kind h r x = Ok sv'"
  shows "one_vote_per_round sv'"
proof (cases "sv' = sv")
  case False
  have none: "find (\<lambda>e. ve_height e = h \<and> ve_round e = r \<and> ve_kind e = kind) (sv_entries sv) = None"
    using assms(2) False by (auto simp: claim_def split: if_splits option.splits)
  have "sv_entries sv' = sv_entries sv @ [\<lparr> ve_kind = kind, ve_height = h, ve_round = r, ve_hash = x \<rparr>]"
    using claim_Ok(5) [OF assms(2)] False by blast
  then have in_new: "e \<in> set (sv_entries sv) \<or> e = \<lparr> ve_kind = kind, ve_height = h, ve_round = r, ve_hash = x \<rparr>"
    if "e \<in> set (sv_entries sv')" for e using that by auto
  have old: "\<not> (ve_kind e = kind \<and> ve_height e = h \<and> ve_round e = r)" if "e \<in> set (sv_entries sv)" for e
    using none that unfolding find_None_iff by blast
  show ?thesis unfolding one_vote_per_round_def
  proof (intro ballI impI)
    fix e e' assume m: "e \<in> set (sv_entries sv')" "e' \<in> set (sv_entries sv')"
      and k: "ve_kind e = ve_kind e' \<and> ve_height e = ve_height e' \<and> ve_round e = ve_round e'"
    show "ve_hash e = ve_hash e'"
    proof (cases "e \<in> set (sv_entries sv)")
      case True
      then have "e' \<in> set (sv_entries sv)" using in_new [OF m(2)] old [OF True] k by auto
      then show ?thesis using one_vote_per_roundD [OF assms(1) True] k by blast
    next
      case False
      then have e: "e = \<lparr> ve_kind = kind, ve_height = h, ve_round = r, ve_hash = x \<rparr>" using in_new [OF m(1)] by blast
      then have "e' \<notin> set (sv_entries sv)" using old [of e'] k by auto
      then show ?thesis using in_new [OF m(2)] e by blast
    qed
  qed
qed (use assms in simp)

lemma prune_below_entries: "set (sv_entries (prune_below sv c)) \<subseteq> set (sv_entries sv)"
  by (auto simp: prune_below_def Let_def)

lemma prune_below_keeps:
  "e \<in> set (sv_entries sv) \<Longrightarrow> sv_floor (prune_below sv c) < ve_height e \<Longrightarrow> e \<in> set (sv_entries (prune_below sv c))"
  by (auto simp: prune_below_def Let_def split: if_splits)

lemma prune_below_floor: "sv_floor sv \<le> sv_floor (prune_below sv c)"
  by (simp add: prune_below_def Let_def)

lemma prune_one_vote: "one_vote_per_round sv \<Longrightarrow> one_vote_per_round (prune_below sv c)"
  using prune_below_entries [of sv c] unfolding one_vote_per_round_def by blast

section \<open>Reading the file back\<close>

definition token :: "string \<Rightarrow> bool" where
  "token s \<longleftrightarrow> s \<noteq> [] \<and> list_all (\<lambda>c. \<not> is_space c) s"

lemma split_on_app: "list_all (\<lambda>c. \<not> P c) a \<Longrightarrow> P c \<Longrightarrow> split_on P (a @ c # b) = a # split_on P b"
  by (induction a) simp_all

lemma split_on_all: "list_all (\<lambda>c. \<not> P c) a \<Longrightarrow> split_on P a = [a]"
  by (induction a) simp_all

lemma split_on_not_Nil [simp]: "split_on P s \<noteq> []"
  by (cases s) simp_all

lemma split_whitespace_token: "token a \<Longrightarrow> split_whitespace a = [a]"
  by (simp add: split_whitespace_def token_def split_on_all)

lemma split_whitespace_app: "token a \<Longrightarrow> split_whitespace (a @ CHR '' '' # b) = a # split_whitespace b"
  by (simp add: split_whitespace_def token_def split_on_app is_space_def)

lemma digit_char: "(n :: nat) < 10 \<Longrightarrow> is_digit (char_of (48 + n))"
  by (simp add: is_digit_def)

lemma show_digits_digit: "list_all is_digit (show_digits n) \<and> show_digits n \<noteq> []"
proof (induction n rule: show_digits.induct)
  case (1 n)
  show ?case
  proof (cases "n < 10")
    case True
    then show ?thesis using digit_char [of n] by (subst (1 2) show_digits.simps) simp
  next
    case False
    then show ?thesis using 1 digit_char [of "n mod 10"] by (subst (1 2) show_digits.simps) simp
  qed
qed

lemma digit_not_space: "is_digit c \<Longrightarrow> \<not> is_space c"
  by (auto simp: is_digit_def is_space_def)

lemma token_digits [simp]: "token (show_digits n)"
  using show_digits_digit [of n] digit_not_space by (auto simp: token_def list_all_iff)

lemma foldl_digits: "foldl (\<lambda>n c. 10 * n + (of_char c - 48)) 0 (show_digits n) = n"
proof (induction n rule: show_digits.induct)
  case (1 n)
  show ?case
  proof (cases "n < 10")
    case True
    then show ?thesis by (subst show_digits.simps) simp
  next
    case False
    then show ?thesis using 1 by (subst show_digits.simps) simp
  qed
qed

lemma parse_show_digits: "n \<le> limit \<Longrightarrow> parse_uint limit (show_digits n) = Some n"
proof -
  assume n: "n \<le> limit"
  obtain c cs where s: "show_digits n = c # cs" using show_digits_digit [of n] by (cases "show_digits n") auto
  have "(of_char c :: nat) \<noteq> 43" using show_digits_digit [of n] s by (auto simp: is_digit_def)
  then show ?thesis using show_digits_digit [of n] foldl_digits [of n] n by (simp add: parse_uint_def s Let_def)
qed


text \<open>Hashes and the genesis hash are hex text; heights and rounds fit their types.\<close>

definition votes_writable :: "signed_votes \<Rightarrow> bool" where
  "votes_writable sv \<longleftrightarrow> token (sv_genesis sv) \<and> sv_floor sv \<le> u64_max \<and>
     list_all (\<lambda>e. token (ve_hash e) \<and> ve_height e \<le> u64_max \<and> ve_round e \<le> u32_max) (sv_entries sv)"

lemma token_kind_tag [simp]: "token (kind_tag k)"
  by (cases k) (simp_all add: token_def is_space_def)

lemma parse_kind_tag [simp]: "parse_kind (kind_tag k) = Ok k"
  by (cases k) simp_all

declare parse_kind.simps [simp del]

definition entry_body :: "vote_entry \<Rightarrow> string" where
  "entry_body e = kind_tag (ve_kind e) @ '' '' @ show_digits (ve_height e) @ '' '' @ show_digits (ve_round e) @ '' '' @ ve_hash e"

lemma parse_entry_body:
  "token (ve_hash e) \<Longrightarrow> ve_height e \<le> u64_max \<Longrightarrow> ve_round e \<le> u32_max \<Longrightarrow> parse_entry (entry_body e) = Ok e"
  by (simp add: parse_entry_def entry_body_def split_whitespace_app split_whitespace_token parse_show_digits)

text \<open>A line ends in a token, so it holds no newline and no carriage return is stripped.\<close>

lemma token_line:
  assumes "token w"
  shows "newline \<notin> set w" "strip_cr (p @ w) = p @ w"
proof -
  show "newline \<notin> set w" using assms by (auto simp: token_def is_space_def newline_def list_all_iff)
  have "\<not> is_space (last w)" "w \<noteq> []" using assms by (auto simp: token_def list_all_iff)
  then show "strip_cr (p @ w) = p @ w" by (auto simp: strip_cr_def is_space_def)
qed

lemma text_lines_Nil [simp]: "text_lines [] = []"
  by (simp add: text_lines_def)

lemma text_lines_app: "newline \<notin> set a \<Longrightarrow> text_lines (a @ newline # b) = strip_cr a # text_lines b"
proof -
  assume "newline \<notin> set a"
  then have "split_on (\<lambda>c. c = newline) (a @ newline # b) = a # split_on (\<lambda>c. c = newline) b"
    by (intro split_on_app) (auto simp: list_all_iff)
  then show ?thesis by (simp add: text_lines_def Let_def)
qed

lemma token_no_newline: "token w \<Longrightarrow> newline \<notin> set w"
  by (rule token_line)

lemma space_not_newline [simp]: "newline \<noteq> CHR '' ''" "CHR '' '' \<noteq> newline"
  by (simp_all add: newline_def)

lemma text_lines_entries:
  "list_all (\<lambda>e. token (ve_hash e)) es \<Longrightarrow> text_lines (concat (map entry_line es)) = map entry_body es"
proof (induction es)
  case (Cons e es)
  then have t: "token (ve_hash e)" by simp
  have "entry_line e @ rest = entry_body e @ newline # rest" for rest by (simp add: entry_line_def entry_body_def)
  moreover have "newline \<notin> set (entry_body e)"
    using t by (simp add: entry_body_def token_no_newline)
  moreover have "strip_cr (entry_body e) = entry_body e"
    using token_line(2) [OF t, of "kind_tag (ve_kind e) @ '' '' @ show_digits (ve_height e) @ '' '' @ show_digits (ve_round e) @ '' ''"]
    by (simp add: entry_body_def)
  ultimately show ?case using Cons by (simp add: text_lines_app)
qed simp

lemma parse_entries_bodies:
  "list_all (\<lambda>e. token (ve_hash e) \<and> ve_height e \<le> u64_max \<and> ve_round e \<le> u32_max) es \<Longrightarrow> parse_entries (map entry_body es) = Ok es"
  by (induction es) (simp_all add: parse_entry_body)

lemma text_lines_persist:
  assumes "votes_writable sv"
  shows "text_lines (persist_text sv) = (sv_genesis sv @ '' '' @ show_digits (sv_floor sv)) # map entry_body (sv_entries sv)"
proof -
  have t: "token (sv_genesis sv)" "list_all (\<lambda>e. token (ve_hash e)) (sv_entries sv)"
    using assms by (auto simp: votes_writable_def list_all_iff)
  have "newline \<notin> set (sv_genesis sv @ '' '' @ show_digits (sv_floor sv))" using t by (simp add: token_no_newline)
  moreover have "strip_cr (sv_genesis sv @ '' '' @ show_digits (sv_floor sv)) = sv_genesis sv @ '' '' @ show_digits (sv_floor sv)"
    using token_line(2) [OF token_digits, of "sv_genesis sv @ '' ''" "sv_floor sv"] by simp
  ultimately show ?thesis
    using text_lines_app [of "sv_genesis sv @ '' '' @ show_digits (sv_floor sv)"] text_lines_entries [OF t(2)]
    by (simp add: persist_text_def)
qed

text \<open>
  C29: the vote file round trip. Reading back the text a vote record was written as gives the same record, floor and every
  entry in order, for any record of this chain whose numbers fit their widths and whose hashes are words.
\<close>

theorem vote_file_roundtrip:
  assumes "votes_writable sv"
  shows "load_votes (Some (persist_text sv)) (sv_genesis sv) = Ok sv"
proof -
  have t: "token (sv_genesis sv)" "sv_floor sv \<le> u64_max"
    "list_all (\<lambda>e. token (ve_hash e) \<and> ve_height e \<le> u64_max \<and> ve_round e \<le> u32_max) (sv_entries sv)"
    using assms by (auto simp: votes_writable_def)
  then show ?thesis
    by (simp add: load_votes_def text_lines_persist [OF assms] Let_def split_whitespace_app split_whitespace_token parse_show_digits parse_entries_bodies)
qed

theorem vote_file_roundtrip_witness:
  "load_votes (Some (persist_text \<lparr> sv_genesis = ''a1'', sv_floor = 7,
      sv_entries = [\<lparr> ve_kind = Prevote, ve_height = 12, ve_round = 0, ve_hash = ''f0'' \<rparr>, \<lparr> ve_kind = Timeout, ve_height = 12, ve_round = 1, ve_hash = ''f1'' \<rparr>] \<rparr>)) ''a1'' =
    Ok \<lparr> sv_genesis = ''a1'', sv_floor = 7,
      sv_entries = [\<lparr> ve_kind = Prevote, ve_height = 12, ve_round = 0, ve_hash = ''f0'' \<rparr>, \<lparr> ve_kind = Timeout, ve_height = 12, ve_round = 1, ve_hash = ''f1'' \<rparr>] \<rparr>"
  using vote_file_roundtrip [of "\<lparr> sv_genesis = ''a1'', sv_floor = 7,
      sv_entries = [\<lparr> ve_kind = Prevote, ve_height = 12, ve_round = 0, ve_hash = ''f0'' \<rparr>, \<lparr> ve_kind = Timeout, ve_height = 12, ve_round = 1, ve_hash = ''f1'' \<rparr>] \<rparr>"]
  by (simp add: votes_writable_def token_def is_space_def u64_max_def u32_max_def)

end
