(* ===== verification/Finality.thy ===== *)
theory Finality
  imports Chain_Db Signed_Votes State_Trie
begin

text \<open>
  The finality gadget (\<^verbatim>\<open>src/arxd/finality/src/lib.rs\<close>): the bytes each vote signs, the tallies of prevotes, precommits and
  round timeouts, the certificates they form, and the engine that decides what this validator signs next.

  Parameters (the record \<open>fin_env\<close>): BLS signing, verification and aggregation of the \<open>xc_bls\<close> library over blst, the hash of
  a block (SHA-256 of its bincode bytes, as the text of \<open>Hash32\<close>) and SHA-256. A \<open>HashMap\<close> is a \<open>btree\<close>: its iteration order,
  which the source leaves open, is key order here and decides only the order of signers in a certificate. Channels are lists
  of what was sent, \<open>en_open\<close> says which still have a receiver; the clock is an argument in milliseconds, and \<open>durable\<close> says
  whether the vote file can be written when a vote of a kind is claimed. Builds with the \<open>fault-injection\<close> feature are not modelled.
\<close>

section \<open>What is signed\<close>

definition DOMAIN_PREVOTE :: bytes where "DOMAIN_PREVOTE = ''arxium/prevote/v1''"

definition DOMAIN_PRECOMMIT :: bytes where "DOMAIN_PRECOMMIT = ''arxium/precommit/v3''"

definition DOMAIN_DISSENT :: bytes where "DOMAIN_DISSENT = ''arxium/dissent/v3''"

definition prevote_signing_bytes :: "bytes \<Rightarrow> nat \<Rightarrow> nat \<Rightarrow> string \<Rightarrow> bytes" where
  "prevote_signing_bytes genesis height round block_hash =
    (let buf = push_field [] DOMAIN_PREVOTE;
         buf = push_field buf genesis;
         buf = push_field buf (to_le_bytes 8 height);
         buf = push_field buf (to_le_bytes 4 round)
     in push_field buf block_hash)"

definition precommit_signing_bytes :: "bytes \<Rightarrow> nat \<Rightarrow> nat \<Rightarrow> string \<Rightarrow> bytes \<Rightarrow> bytes" where
  "precommit_signing_bytes genesis height round block_hash ep =
    (let buf = push_field [] DOMAIN_PRECOMMIT;
         buf = push_field buf genesis;
         buf = push_field buf (to_le_bytes 8 height);
         buf = push_field buf (to_le_bytes 4 round);
         buf = push_field buf block_hash
     in push_field buf ep)"

definition dissent_signing_bytes ::
  "bytes \<Rightarrow> nat \<Rightarrow> string \<Rightarrow> string \<Rightarrow> bytes \<Rightarrow> bytes \<Rightarrow> string \<Rightarrow> bytes" where
  "dissent_signing_bytes genesis height block_hash sroot header_commit ep reason =
    (let buf = push_field [] DOMAIN_DISSENT;
         buf = push_field buf genesis;
         buf = push_field buf (to_le_bytes 8 height);
         buf = push_field buf block_hash;
         buf = push_field buf sroot;
         buf = push_field buf header_commit;
         buf = push_field buf ep
     in push_field buf reason)"

section \<open>Votes and events\<close>

datatype dissent_reason = StateRootMismatch | ActionMismatch

fun reason_str :: "dissent_reason \<Rightarrow> string" where
  "reason_str StateRootMismatch = ''state_root_mismatch''"
| "reason_str ActionMismatch = ''action_mismatch''"

record dissent =
  di_height :: nat
  di_block_hash :: string
  di_state_root :: string
  di_header_commitment :: string
  di_ep :: string
  di_reason :: dissent_reason
  di_voter :: address
  di_signature :: string

record prevote_vote =
  vt_height :: nat
  vt_round :: nat
  vt_block_hash :: string
  vt_voter :: address
  vt_signature :: string

record precommit_vote =
  pc_height :: nat
  pc_round :: nat
  pc_block_hash :: string
  pc_voter :: address
  pc_signature :: string
  pc_ep :: string

record round_timeout_vote =
  rt_height :: nat
  rt_round :: nat
  rt_voter :: address
  rt_signature :: string

datatype equivocation =
    PrevoteEquivocation prevote_vote prevote_vote
  | PrecommitEquivocation precommit_vote precommit_vote

datatype 'p finality_event =
    BlockObserved "'p block"
  | PrevoteObserved prevote_vote
  | VoteObserved precommit_vote
  | DissentObserved dissent
  | RoundTimeoutObserved round_timeout_vote

record 'p fin_env =
  fe_verify :: "bytes \<Rightarrow> string \<Rightarrow> string \<Rightarrow> bool"
  fe_aggregate :: "string list \<Rightarrow> string option"
  fe_verify_aggregate :: "bytes \<Rightarrow> string list \<Rightarrow> string \<Rightarrow> bool"
  fe_sign :: "string \<Rightarrow> bytes \<Rightarrow> string"
  fe_block_hash :: "'p block \<Rightarrow> string"
  fe_sha :: "bytes \<Rightarrow> bytes"

type_synonym signers = "(address, string) btree"
type_synonym vote_tallies = "(nat \<times> nat, (string \<times> string, signers) btree) btree"
type_synonym prevote_tallies = "(nat \<times> nat, (string, signers) btree) btree"
type_synonym timeout_tallies = "(nat \<times> nat, signers) btree"

section \<open>Certificates\<close>

definition verify_finality_record :: "'p fin_env \<Rightarrow> 'p chain_db \<Rightarrow> finality_record \<Rightarrow> bool" where
  "verify_finality_record env db r \<longleftrightarrow>
    (let validators = get_validator_set_at db (fr_height r);
         pubkeys = map (\<lambda>a. get_bls_pubkey_at db a (fr_height r)) (fr_signers r)
     in distinct (fr_signers r) \<and>
        list_all (\<lambda>a. map_of validators a \<noteq> None) (fr_signers r) \<and>
        quorum_reached validators (fr_signers r) \<and>
        None \<notin> set pubkeys \<and>
        fe_verify_aggregate env
          (precommit_signing_bytes (cd_genesis db) (fr_height r) (fr_round r) (fr_block_hash r) (fr_ep r))
          (map the pubkeys) (fr_aggregate_signature r))"

text \<open>The aggregate over a tally's signatures, where it verifies.\<close>

definition aggregate_signers :: "'p fin_env \<Rightarrow> 'p chain_db \<Rightarrow> nat \<Rightarrow> bytes \<Rightarrow> signers \<Rightarrow> string option" where
  "aggregate_signers env db height msg signers =
    (let pubkeys = List.map_filter (\<lambda>a. get_bls_pubkey_at db a height) (bt_keys signers) in
     case fe_aggregate env (map snd signers) of
       None \<Rightarrow> None
     | Some agg \<Rightarrow> if fe_verify_aggregate env msg pubkeys agg then Some agg else None)"

text \<open>A signature of a member of the height's set over \<open>msg\<close>.\<close>

definition vote_admitted :: "'p fin_env \<Rightarrow> 'p chain_db \<Rightarrow> nat \<Rightarrow> address \<Rightarrow> bytes \<Rightarrow> string \<Rightarrow> bool" where
  "vote_admitted env db height voter msg signature \<longleftrightarrow>
    (case get_bls_pubkey_at db voter height of
      None \<Rightarrow> False
    | Some pubkey \<Rightarrow> fe_verify env msg pubkey signature \<and> map_of (get_validator_set_at db height) voter \<noteq> None)"

definition prior_prevote :: "(string, signers) btree \<Rightarrow> prevote_vote \<Rightarrow> (string \<times> string) option" where
  "prior_prevote round_tally vote =
    (case List.map_filter (\<lambda>(hash, signers).
        if hash \<noteq> vt_block_hash vote then map_option (Pair hash) (map_of signers (vt_voter vote)) else None) round_tally of
      [] \<Rightarrow> None
    | p # _ \<Rightarrow> Some p)"

definition tally_prevote ::
  "'p fin_env \<Rightarrow> 'p chain_db \<Rightarrow> prevote_tallies \<Rightarrow> prevote_vote \<Rightarrow> 'p chain_db \<times> prevote_tallies \<times> equivocation list" where
  "tally_prevote env db tallies vote =
    (let h = vt_height vote; r = vt_round vote;
         msg = prevote_signing_bytes (cd_genesis db) h r (vt_block_hash vote)
     in
     if get_finality_record db h \<noteq> None \<or> \<not> vote_admitted env db h (vt_voter vote) msg (vt_signature vote)
     then (db, tallies, [])
     else
      let round_tally = unwrap_or [] (map_of tallies (h, r));
          equivs = (case prior_prevote round_tally vote of
              None \<Rightarrow> []
            | Some (prior_hash, prior_signature) \<Rightarrow>
                [PrevoteEquivocation (vote\<lparr> vt_block_hash := prior_hash, vt_signature := prior_signature \<rparr>) vote]);
          signers = bt_insert (vt_voter vote) (vt_signature vote) (unwrap_or [] (map_of round_tally (vt_block_hash vote)));
          tallies = bt_insert (h, r) (bt_insert (vt_block_hash vote) signers round_tally) tallies
      in
      if \<not> quorum_reached (get_validator_set_at db h) (bt_keys signers) then (db, tallies, equivs)
      else if (case get_highest_pol db h of Some pol \<Rightarrow> r \<le> pl_round pol | None \<Rightarrow> False) then (db, tallies, equivs)
      else
       case aggregate_signers env db h msg signers of
         None \<Rightarrow> (db, tallies, equivs)
       | Some agg \<Rightarrow>
           (write_pol \<lparr> pl_height = h, pl_round = r, pl_block_hash = vt_block_hash vote, pl_signers = bt_keys signers,
              pl_aggregate_signature = agg \<rparr> db, tallies, equivs))"

text \<open>Acting on a certificate: the chain gives way to it.\<close>

definition revert_or_keep :: "nat \<Rightarrow> 'p chain_db \<Rightarrow> 'p chain_db" where
  "revert_or_keep height db = (case revert_to height db of Ok db' \<Rightarrow> db' | _ \<Rightarrow> db)"

definition enforce_certificate :: "'p fin_env \<Rightarrow> finality_record \<Rightarrow> 'p chain_db \<Rightarrow> 'p chain_db" where
  "enforce_certificate env r db =
    (case get_block db (fr_height r) of
      None \<Rightarrow> db
    | Some local \<Rightarrow>
        if fe_block_hash env local = fr_block_hash r then db
        else revert_or_keep (saturating_sub (fr_height r) 1) db)"

definition unwind_dead_tip :: "'p fin_env \<Rightarrow> round_certificate \<Rightarrow> 'p chain_db \<Rightarrow> 'p chain_db" where
  "unwind_dead_tip env cert db =
    (if cd_tip db \<noteq> Some (rc_height cert) then db
     else if get_finality_record db (rc_height cert) \<noteq> None then db
     else
      case get_block db (rc_height cert) of
        None \<Rightarrow> db
      | Some tip \<Rightarrow>
          if b_round tip \<noteq> rc_round cert then db
          else if (case get_highest_pol db (rc_height cert) of Some pol \<Rightarrow> pl_block_hash pol = fe_block_hash env tip | None \<Rightarrow> False)
          then db
          else revert_or_keep (saturating_sub (rc_height cert) 1) db)"

definition prior_precommit :: "vote_tallies \<Rightarrow> precommit_vote \<Rightarrow> ((string \<times> string) \<times> string) option" where
  "prior_precommit tallies vote =
    (case map_of tallies (pc_height vote, pc_round vote) of
      None \<Rightarrow> None
    | Some by_key \<Rightarrow>
       (case List.map_filter (\<lambda>(key, signers).
           if key \<noteq> (pc_block_hash vote, pc_ep vote) then map_option (Pair key) (map_of signers (pc_voter vote)) else None) by_key of
         [] \<Rightarrow> None
       | p # _ \<Rightarrow> Some p))"

definition tally_vote ::
  "'p fin_env \<Rightarrow> 'p chain_db \<Rightarrow> vote_tallies \<Rightarrow> (nat \<times> nat, precommit_vote) btree \<Rightarrow> precommit_vote \<Rightarrow>
   'p chain_db \<times> vote_tallies \<times> (nat \<times> nat, precommit_vote) btree \<times> equivocation list" where
  "tally_vote env db tallies my_votes vote =
    (let h = pc_height vote; r = pc_round vote;
         msg = precommit_signing_bytes (cd_genesis db) h r (pc_block_hash vote) (pc_ep vote)
     in
     if get_finality_record db h \<noteq> None \<or> \<not> vote_admitted env db h (pc_voter vote) msg (pc_signature vote)
     then (db, tallies, my_votes, [])
     else
      let equivs = (case prior_precommit tallies vote of
              None \<Rightarrow> []
            | Some ((prior_hash, prior_ep), prior_signature) \<Rightarrow>
                [PrecommitEquivocation (vote\<lparr> pc_block_hash := prior_hash, pc_signature := prior_signature, pc_ep := prior_ep \<rparr>) vote]);
          round_tally = unwrap_or [] (map_of tallies (h, r));
          signers = bt_insert (pc_voter vote) (pc_signature vote)
            (unwrap_or [] (map_of round_tally (pc_block_hash vote, pc_ep vote)));
          tallies = bt_insert (h, r) (bt_insert (pc_block_hash vote, pc_ep vote) signers round_tally) tallies;
          db = write_precommit_vote \<lparr> pv_height = h, pv_round = r, pv_block_hash = pc_block_hash vote, pv_voter = pc_voter vote,
            pv_signature = pc_signature vote, pv_ep = pc_ep vote \<rparr> db
      in
      if \<not> quorum_reached (get_validator_set_at db h) (bt_keys signers) then (db, tallies, my_votes, equivs)
      else
       case aggregate_signers env db h msg signers of
         None \<Rightarrow> (db, tallies, my_votes, equivs)
       | Some agg \<Rightarrow>
          (let record = \<lparr> fr_height = h, fr_round = r, fr_block_hash = pc_block_hash vote, fr_signers = bt_keys signers,
                 fr_aggregate_signature = agg, fr_ep = pc_ep vote \<rparr>;
               db = delete_precommit_votes h (write_finality_record record db)
           in (enforce_certificate env record db, filter (\<lambda>((k, _), _). k \<noteq> h) tallies,
               filter (\<lambda>((k, _), _). k \<noteq> h) my_votes, equivs)))"

definition tally_round_timeout ::
  "'p fin_env \<Rightarrow> 'p chain_db \<Rightarrow> timeout_tallies \<Rightarrow> round_timeout_vote \<Rightarrow> 'p chain_db \<times> timeout_tallies" where
  "tally_round_timeout env db tallies vote =
    (let h = rt_height vote; r = rt_round vote in
     if get_round_certificate db h r \<noteq> None then (db, tallies)
     else
      case get_block db (saturating_sub h 1) of
        None \<Rightarrow> (db, tallies)
      | Some parent \<Rightarrow>
         (let msg = round_timeout_signing_bytes (cd_genesis db) h r (fe_block_hash env parent) in
          if \<not> vote_admitted env db h (rt_voter vote) msg (rt_signature vote) then (db, tallies)
          else
           let signers = bt_insert (rt_voter vote) (rt_signature vote) (unwrap_or [] (map_of tallies (h, r)));
               tallies = bt_insert (h, r) signers tallies;
               db = write_round_timeout_vote \<lparr> rv_height = h, rv_round = r, rv_voter = rt_voter vote,
                 rv_signature = rt_signature vote \<rparr> db
           in
           if \<not> quorum_reached (get_validator_set_at db h) (bt_keys signers) then (db, tallies)
           else
            case aggregate_signers env db h msg signers of
              None \<Rightarrow> (db, tallies)
            | Some agg \<Rightarrow>
               (let cert = \<lparr> rc_height = h, rc_round = r, rc_signers = bt_keys signers, rc_aggregate_signature = agg \<rparr> in
                (unwind_dead_tip env cert (write_round_certificate cert db), bt_remove (h, r) tallies))))"

definition handle_dissent :: "'p fin_env \<Rightarrow> 'p chain_db \<Rightarrow> dissent \<Rightarrow> 'p chain_db \<times> dissent_record list" where
  "handle_dissent env db d =
    (let h = di_height d; reason = reason_str (di_reason d);
         msg = dissent_signing_bytes (cd_genesis db) h (di_block_hash d) (di_state_root d) (di_header_commitment d) (di_ep d) reason
     in
     if get_finality_record db h \<noteq> None \<or> \<not> vote_admitted env db h (di_voter d) msg (di_signature d) \<or>
        get_dissent db h (di_voter d) \<noteq> None
     then (db, [])
     else
      let record = \<lparr> dr_height = h, dr_block_hash = di_block_hash d, dr_state_root = di_state_root d, dr_ep = di_ep d,
            dr_reason = reason, dr_voter = di_voter d, dr_signature = di_signature d,
            dr_header_commitment = di_header_commitment d \<rparr>
      in (write_dissent record db, [record]))"


section \<open>The engine\<close>

definition TALLY_RETENTION_HEIGHTS :: nat where "TALLY_RETENTION_HEIGHTS = 500"

definition ROUND_TIMEOUT :: nat where "ROUND_TIMEOUT = 8000"

definition MAX_ROUND_BACKOFF :: nat where "MAX_ROUND_BACKOFF = 4"

definition timeout_for :: "nat \<Rightarrow> nat" where
  "timeout_for round = ROUND_TIMEOUT * (1 + min round MAX_ROUND_BACKOFF)"

record 'p engine =
  en_db :: "'p chain_db"
  en_genesis :: bytes
  en_identity :: "(address \<times> string \<times> signed_votes) option"
  en_tallies :: vote_tallies
  en_my_votes :: "(nat \<times> nat, precommit_vote) btree"
  en_prevote_tallies :: prevote_tallies
  en_my_prevotes :: "(nat \<times> nat, prevote_vote) btree"
  en_timeout_tallies :: timeout_tallies
  en_my_timeouts :: "(nat \<times> nat, round_timeout_vote) btree"
  en_refused :: "(vote_kind \<times> nat \<times> nat) set"
  en_round_clock :: "(nat \<times> nat \<times> nat) option"
  en_highest_seen :: nat
  en_pols_pruned_through :: nat
  en_open :: "vote_kind \<Rightarrow> bool"
  en_sent_prevotes :: "prevote_vote list"
  en_sent_votes :: "precommit_vote list"
  en_sent_timeouts :: "round_timeout_vote list"
  en_dissents :: "dissent_record list"
  en_equivocations :: "equivocation list"

subsection \<open>Restart\<close>

definition is_own :: "'p engine \<Rightarrow> address \<Rightarrow> bool" where
  "is_own en voter \<longleftrightarrow> (case en_identity en of Some (me, _, _) \<Rightarrow> me = voter | None \<Rightarrow> False)"

definition reload_own_precommit :: "precommit_vote_record \<Rightarrow> 'p engine \<Rightarrow> 'p engine" where
  "reload_own_precommit r en =
    (if is_own en (pv_voter r)
     then en\<lparr> en_my_votes := bt_insert (pv_height r, pv_round r)
       \<lparr> pc_height = pv_height r, pc_round = pv_round r, pc_block_hash = pv_block_hash r, pc_voter = pv_voter r,
         pc_signature = pv_signature r, pc_ep = pv_ep r \<rparr> (en_my_votes en) \<rparr>
     else en)"

definition reload_own_timeout :: "round_timeout_vote_record \<Rightarrow> 'p engine \<Rightarrow> 'p engine" where
  "reload_own_timeout r en =
    (if is_own en (rv_voter r)
     then en\<lparr> en_my_timeouts := bt_insert (rv_height r, rv_round r)
       \<lparr> rt_height = rv_height r, rt_round = rv_round r, rt_voter = rv_voter r, rt_signature = rv_signature r \<rparr>
       (en_my_timeouts en) \<rparr>
     else en)"

definition tally_reloaded_vote :: "precommit_vote_record \<Rightarrow> 'p engine \<Rightarrow> 'p engine" where
  "tally_reloaded_vote r en =
    (let round_tally = unwrap_or [] (map_of (en_tallies en) (pv_height r, pv_round r));
         signers = bt_insert (pv_voter r) (pv_signature r) (unwrap_or [] (map_of round_tally (pv_block_hash r, pv_ep r)))
     in en\<lparr> en_tallies := bt_insert (pv_height r, pv_round r) (bt_insert (pv_block_hash r, pv_ep r) signers round_tally)
       (en_tallies en) \<rparr>)"

definition tally_reloaded_timeout :: "round_timeout_vote_record \<Rightarrow> 'p engine \<Rightarrow> 'p engine" where
  "tally_reloaded_timeout r en =
    en\<lparr> en_timeout_tallies := bt_insert (rv_height r, rv_round r)
      (bt_insert (rv_voter r) (rv_signature r) (unwrap_or [] (map_of (en_timeout_tallies en) (rv_height r, rv_round r))))
      (en_timeout_tallies en) \<rparr>"

definition highest_of :: "nat list \<Rightarrow> nat" where
  "highest_of hs = fold max hs 0"

definition reload_precommits :: "'p engine \<Rightarrow> 'p engine" where
  "reload_precommits en =
    (let records = get_precommit_votes_from (en_db en) 0;
         en = en\<lparr> en_highest_seen := highest_of (map pv_height records) \<rparr>;
         cutoff = saturating_sub (en_highest_seen en) TALLY_RETENTION_HEIGHTS
     in fold (\<lambda>r en. if pv_height r < cutoff then en else tally_reloaded_vote r (reload_own_precommit r en)) records en)"

definition reload_dissents :: "'p engine \<Rightarrow> 'p engine" where
  "reload_dissents en =
    en\<lparr> en_highest_seen := max (en_highest_seen en) (highest_of (map dr_height (get_dissents_from (en_db en) 0))) \<rparr>"

definition reload_timeouts :: "'p engine \<Rightarrow> 'p engine" where
  "reload_timeouts en =
    (let records = get_round_timeout_votes_from (en_db en) 0;
         en = en\<lparr> en_highest_seen := max (en_highest_seen en) (highest_of (map rv_height records)) \<rparr>;
         cutoff = saturating_sub (en_highest_seen en) TALLY_RETENTION_HEIGHTS
     in fold (\<lambda>r en. if rv_height r < cutoff then en else tally_reloaded_timeout r (reload_own_timeout r en)) records en)"

definition reload :: "'p engine \<Rightarrow> 'p engine" where
  "reload en = reload_timeouts (reload_dissents (reload_precommits en))"

text \<open>The engine \<open>spawn_finality\<close> builds before it reloads.\<close>

definition fresh_engine :: "'p chain_db \<Rightarrow> (address \<times> string \<times> signed_votes) option \<Rightarrow> 'p engine" where
  "fresh_engine db ident =
    \<lparr> en_db = db, en_genesis = cd_genesis db, en_identity = ident, en_tallies = [], en_my_votes = [], en_prevote_tallies = [],
      en_my_prevotes = [], en_timeout_tallies = [], en_my_timeouts = [], en_refused = {}, en_round_clock = None,
      en_highest_seen = 0, en_pols_pruned_through = 0, en_open = (\<lambda>_. True), en_sent_prevotes = [], en_sent_votes = [],
      en_sent_timeouts = [], en_dissents = [], en_equivocations = [] \<rparr>"

subsection \<open>Events\<close>

definition prune_engine :: "'p engine \<Rightarrow> 'p engine" where
  "prune_engine en =
    (let cutoff = saturating_sub (en_highest_seen en) TALLY_RETENTION_HEIGHTS;
         stale = filter (\<lambda>h. h < cutoff) (map (\<lambda>((h, _), _). h) (en_tallies en));
         db = fold delete_precommit_votes stale (en_db en);
         finalized = cd_watermark db;
         prune_locks = en_pols_pruned_through en < finalized;
         db = (if prune_locks then delete_round_timeout_votes_through finalized (delete_pols_through finalized db) else db);
         db = fold (\<lambda>(h, r). delete_round_timeout_votes h r) (filter (\<lambda>(h, _). h < cutoff) (map fst (en_timeout_tallies en))) db
     in en\<lparr> en_db := db,
       en_tallies := filter (\<lambda>((h, _), _). cutoff \<le> h) (en_tallies en),
       en_my_votes := filter (\<lambda>((h, _), _). cutoff \<le> h) (en_my_votes en),
       en_pols_pruned_through := (if prune_locks then finalized else en_pols_pruned_through en),
       en_prevote_tallies := filter (\<lambda>((h, _), _). cutoff \<le> h \<and> finalized < h) (en_prevote_tallies en),
       en_my_prevotes := filter (\<lambda>((h, _), _). cutoff \<le> h \<and> finalized < h) (en_my_prevotes en),
       en_refused := {(k, h, r) \<in> en_refused en. cutoff \<le> h \<and> finalized < h},
       en_timeout_tallies := filter (\<lambda>((h, _), _). cutoff \<le> h) (en_timeout_tallies en),
       en_my_timeouts := filter (\<lambda>((h, _), _). cutoff \<le> h \<and> finalized < h) (en_my_timeouts en),
       en_identity := map_option (\<lambda>(me, key, signed). (me, key, prune_below signed cutoff)) (en_identity en) \<rparr>)"

fun handle_event :: "'p fin_env \<Rightarrow> 'p finality_event \<Rightarrow> 'p engine \<Rightarrow> 'p engine" where
  "handle_event env (BlockObserved b) en = prune_engine (en\<lparr> en_highest_seen := max (en_highest_seen en) (b_height b) \<rparr>)"
| "handle_event env (PrevoteObserved vote) en =
    (let en = prune_engine en; (db, tallies, equivs) = tally_prevote env (en_db en) (en_prevote_tallies en) vote
     in en\<lparr> en_db := db, en_prevote_tallies := tallies, en_equivocations := en_equivocations en @ equivs \<rparr>)"
| "handle_event env (VoteObserved vote) en =
    (let en = prune_engine en; (db, tallies, mine, equivs) = tally_vote env (en_db en) (en_tallies en) (en_my_votes en) vote
     in en\<lparr> en_db := db, en_tallies := tallies, en_my_votes := mine, en_equivocations := en_equivocations en @ equivs \<rparr>)"
| "handle_event env (DissentObserved d) en =
    (let en = prune_engine en; (db, records) = handle_dissent env (en_db en) d
     in en\<lparr> en_db := db, en_dissents := en_dissents en @ records \<rparr>)"
| "handle_event env (RoundTimeoutObserved vote) en =
    (let en = prune_engine en; (db, tallies) = tally_round_timeout env (en_db en) (en_timeout_tallies en) vote
     in en\<lparr> en_db := db, en_timeout_tallies := tallies \<rparr>)"

subsection \<open>Voting\<close>

datatype step_error = Stop | StepStorage storage_error

text \<open>A call of the engine leaves its state changed also where it fails.\<close>

type_synonym 'p stepped = "'p engine \<times> (step_error, bool) result"

definition block_ep :: "'p fin_env \<Rightarrow> 'p chain_db \<Rightarrow> 'p block \<Rightarrow> bytes" where
  "block_ep env db b =
    (let parent_state_root = (case get_block db (saturating_sub (b_height b) 1) of Some parent \<Rightarrow> b_state_root parent | None \<Rightarrow> [])
     in execution_proof (fe_sha env) parent_state_root (b_tx_root b) (b_state_root b) (get_block_weight db (b_height b)))"

definition prevote :: "'p fin_env \<Rightarrow> (vote_kind \<Rightarrow> bool) \<Rightarrow> nat \<Rightarrow> nat \<Rightarrow> string \<Rightarrow> nat option \<Rightarrow> 'p engine \<Rightarrow> 'p stepped" where
  "prevote env durable height round hash pol_round en =
    (if map_of (en_my_prevotes en) (height, round) \<noteq> None \<or> (Prevote, height, round) \<in> en_refused en then (en, Ok False)
     else
      case en_identity en of None \<Rightarrow> (en, Ok False)
      | Some (me, key, signed) \<Rightarrow>
         (case claim_prevote (durable Prevote) signed height round hash pol_round of
           Ok signed \<Rightarrow>
            (let msg = prevote_signing_bytes (en_genesis en) height round hash;
                 vote = \<lparr> vt_height = height, vt_round = round, vt_block_hash = hash, vt_voter = me, vt_signature = fe_sign env key msg \<rparr>;
                 (db, tallies, equivs) = tally_prevote env (en_db en) (en_prevote_tallies en) vote;
                 en = en\<lparr> en_identity := Some (me, key, signed),
                   en_my_prevotes := bt_insert (height, round) vote (en_my_prevotes en),
                   en_db := db, en_prevote_tallies := tallies, en_equivocations := en_equivocations en @ equivs \<rparr>
             in if en_open en Prevote then (en\<lparr> en_sent_prevotes := en_sent_prevotes en @ [vote] \<rparr>, Ok True) else (en, Err Stop))
         | _ \<Rightarrow> (en\<lparr> en_refused := insert (Prevote, height, round) (en_refused en) \<rparr>, Ok False)))"

definition precommit :: "'p fin_env \<Rightarrow> (vote_kind \<Rightarrow> bool) \<Rightarrow> 'p block \<Rightarrow> nat \<Rightarrow> 'p engine \<Rightarrow> 'p stepped" where
  "precommit env durable b round en =
    (let height = b_height b; hash = fe_block_hash env b in
     if map_of (en_my_votes en) (height, round) \<noteq> None \<or> (Precommit, height, round) \<in> en_refused en then (en, Ok False)
     else
      case en_identity en of None \<Rightarrow> (en, Ok False)
      | Some (me, key, signed) \<Rightarrow>
         (case claim_precommit (durable Precommit) signed height round hash of
           Ok signed \<Rightarrow>
            (let ep = block_ep env (en_db en) b;
                 msg = precommit_signing_bytes (en_genesis en) height round hash ep;
                 vote = \<lparr> pc_height = height, pc_round = round, pc_block_hash = hash, pc_voter = me,
                   pc_signature = fe_sign env key msg, pc_ep = ep \<rparr>;
                 (db, tallies, mine, equivs) = tally_vote env (en_db en) (en_tallies en)
                   (bt_insert (height, round) vote (en_my_votes en)) vote;
                 en = en\<lparr> en_identity := Some (me, key, signed), en_my_votes := mine, en_db := db, en_tallies := tallies,
                   en_equivocations := en_equivocations en @ equivs \<rparr>
             in if en_open en Precommit then (en\<lparr> en_sent_votes := en_sent_votes en @ [vote] \<rparr>, Ok True) else (en, Err Stop))
         | _ \<Rightarrow> (en\<lparr> en_refused := insert (Precommit, height, round) (en_refused en) \<rparr>, Ok False)))"

definition timeout :: "'p fin_env \<Rightarrow> (vote_kind \<Rightarrow> bool) \<Rightarrow> nat \<Rightarrow> nat \<Rightarrow> string \<Rightarrow> 'p engine \<Rightarrow> 'p stepped" where
  "timeout env durable height round parent_hash en =
    (if map_of (en_my_timeouts en) (height, round) \<noteq> None \<or> (Timeout, height, round) \<in> en_refused en then (en, Ok False)
     else
      case en_identity en of None \<Rightarrow> (en, Ok False)
      | Some (me, key, signed) \<Rightarrow>
         (case claim_timeout (durable Timeout) signed height round parent_hash of
           Ok signed \<Rightarrow>
            (let msg = round_timeout_signing_bytes (en_genesis en) height round parent_hash;
                 vote = \<lparr> rt_height = height, rt_round = round, rt_voter = me, rt_signature = fe_sign env key msg \<rparr>;
                 (db, tallies) = tally_round_timeout env (en_db en) (en_timeout_tallies en) vote;
                 en = en\<lparr> en_identity := Some (me, key, signed),
                   en_my_timeouts := bt_insert (height, round) vote (en_my_timeouts en), en_db := db, en_timeout_tallies := tallies \<rparr>
             in if en_open en Timeout then (en\<lparr> en_sent_timeouts := en_sent_timeouts en @ [vote] \<rparr>, Ok True) else (en, Err Stop))
         | _ \<Rightarrow> (en\<lparr> en_refused := insert (Timeout, height, round) (en_refused en) \<rparr>, Ok False)))"

text \<open>\<open>signed |= call?\<close>: an error ends the step with the state reached.\<close>

definition also_sign :: "('p engine \<Rightarrow> 'p stepped) \<Rightarrow> 'p stepped \<Rightarrow> 'p stepped" where
  "also_sign call st =
    (case st of (en, Ok signed) \<Rightarrow>
        (case call en of (en, Ok s) \<Rightarrow> (en, Ok (signed \<or> s)) | (en, e) \<Rightarrow> (en, e))
     | _ \<Rightarrow> st)"

text \<open>The round in force: a held block of a later round brings its certificate.\<close>

definition adopt_round :: "'p block option \<Rightarrow> nat \<Rightarrow> 'p chain_db \<Rightarrow> 'p chain_db \<times> nat" where
  "adopt_round held round db =
    (case held of
      Some b \<Rightarrow>
        (case b_round_certificate b of
          Some cert \<Rightarrow> if round < b_round b then (write_round_certificate cert db, b_round b) else (db, round)
        | None \<Rightarrow> (db, round))
    | None \<Rightarrow> (db, round))"

definition swap_for_locked ::
  "'p fin_env \<Rightarrow> nat \<Rightarrow> pol_record option \<Rightarrow> 'p block option \<Rightarrow> 'p chain_db \<Rightarrow> (storage_error, 'p chain_db \<times> 'p block option) result" where
  "swap_for_locked env h pol held db =
    (case (pol, held) of
      (Some p, Some b) \<Rightarrow>
        if fe_block_hash env b = pl_block_hash p then Ok (db, held)
        else if cd_tip db = Some h \<and> get_finality_record db h = None
        then and_then (revert_to (h - 1) db) (\<lambda>db. Ok (db, None))
        else Ok (db, None)
    | _ \<Rightarrow> Ok (db, held))"

definition round_start :: "'p engine \<Rightarrow> nat \<Rightarrow> nat \<Rightarrow> nat \<Rightarrow> nat" where
  "round_start en h round now =
    (case en_round_clock en of Some (ch, cr, at) \<Rightarrow> if (ch, cr) = (h, round) then at else now | None \<Rightarrow> now)"

definition sign_votes ::
  "'p fin_env \<Rightarrow> (vote_kind \<Rightarrow> bool) \<Rightarrow> nat \<Rightarrow> nat \<Rightarrow> pol_record option \<Rightarrow> 'p block option \<Rightarrow> 'p engine \<Rightarrow> 'p stepped" where
  "sign_votes env durable h round pol held en =
    (case held of None \<Rightarrow> (en, Ok False)
     | Some b \<Rightarrow>
        (let hash = fe_block_hash env b;
             st = (case pol of Some p \<Rightarrow> if pl_block_hash p = hash then precommit env durable b (pl_round p) en else (en, Ok False)
                   | None \<Rightarrow> (en, Ok False))
         in if pol \<noteq> None \<or> b_round b = round
            then also_sign (prevote env durable h round hash (map_option pl_round pol)) st else st))"

definition try_step :: "'p fin_env \<Rightarrow> (vote_kind \<Rightarrow> bool) \<Rightarrow> nat \<Rightarrow> 'p engine \<Rightarrow> 'p stepped" where
  "try_step env durable now en =
    (let db = en_db en; h = cd_watermark db + 1 in
     if h < unwrap_or 0 (cd_tip db) \<or> get_finality_record db h \<noteq> None then (en, Ok False)
     else
      case get_block db (h - 1) of None \<Rightarrow> (en, Ok False)
      | Some parent \<Rightarrow>
         (case current_round db h of
           Ok round \<Rightarrow>
            (let held = get_block db h;
                 (db, round) = adopt_round held round db;
                 started = round_start en h round now;
                 en = en\<lparr> en_db := db, en_round_clock := Some (h, round, started) \<rparr>;
                 pol = get_highest_pol db h
             in case swap_for_locked env h pol held db of
                  Ok (db, held) \<Rightarrow>
                    also_sign (\<lambda>en.
                      if timeout_for round \<le> now - started \<and> get_round_certificate (en_db en) h round = None
                      then timeout env durable h round (fe_block_hash env parent) en else (en, Ok False))
                    (sign_votes env durable h round pol held (en\<lparr> en_db := db \<rparr>))
                | Err e \<Rightarrow> (en, Err (StepStorage e))
                | Panic \<Rightarrow> (en, Panic))
         | _ \<Rightarrow> (en, Panic)))"

fun step_loop :: "nat \<Rightarrow> 'p fin_env \<Rightarrow> (vote_kind \<Rightarrow> bool) \<Rightarrow> nat \<Rightarrow> 'p engine \<Rightarrow> 'p engine \<times> (step_error, unit) result" where
  "step_loop 0 env durable now en = (en, Ok ())"
| "step_loop (Suc n) env durable now en =
    (case try_step env durable now en of
      (en, Ok True) \<Rightarrow> step_loop n env durable now en
    | (en, Ok False) \<Rightarrow> (en, Ok ())
    | (en, Err Stop) \<Rightarrow> (en, Err Stop)
    | (en, Err (StepStorage e)) \<Rightarrow> (en, Ok ())
    | (en, Panic) \<Rightarrow> (en, Panic))"

definition engine_step :: "'p fin_env \<Rightarrow> (vote_kind \<Rightarrow> bool) \<Rightarrow> nat \<Rightarrow> 'p engine \<Rightarrow> 'p engine \<times> (step_error, unit) result" where
  "engine_step env durable now en = (if en_identity en = None then (en, Ok ()) else step_loop 3 env durable now en)"

definition rebroadcast :: "'p engine \<Rightarrow> 'p engine \<times> (step_error, unit) result" where
  "rebroadcast en =
    (if en_my_prevotes en \<noteq> [] \<and> \<not> en_open en Prevote then (en, Err Stop)
     else
      let en = en\<lparr> en_sent_prevotes := en_sent_prevotes en @ map snd (en_my_prevotes en) \<rparr> in
      if en_my_votes en \<noteq> [] \<and> \<not> en_open en Precommit then (en, Err Stop)
      else
       let en = en\<lparr> en_sent_votes := en_sent_votes en @ map snd (en_my_votes en) \<rparr> in
       if en_my_timeouts en \<noteq> [] \<and> \<not> en_open en Timeout then (en, Err Stop)
       else (en\<lparr> en_sent_timeouts := en_sent_timeouts en @ map snd (en_my_timeouts en) \<rparr>, Ok ()))"


section \<open>What the tallies and certificates hold\<close>

text \<open>
  \<open>A a h r x\<close> says of a signer that it voted for \<open>x\<close> at height \<open>h\<close> and round \<open>r\<close>. Every signature in a tally, a lock or a
  certificate satisfies it once every admitted vote does.
\<close>

lemma set_bt_insert: "set (bt_insert k v m) \<subseteq> insert (k, v) (set m)"
  by (induction m) (auto simp: bt_insert.simps)

lemma bt_insert_cases: "e \<in> set (bt_insert k v m) \<Longrightarrow> e = (k, v) \<or> e \<in> set m"
  using set_bt_insert by fast

lemma last_row_mem: "last_row P m = Some v \<Longrightarrow> \<exists>k. (k, v) \<in> set m \<and> P k"
proof -
  let ?rows = "filter (\<lambda>(k, _). P k) m"
  assume a: "last_row P m = Some v"
  have ne: "?rows \<noteq> []" using a by (auto simp only: last_row_def list.case option.simps)
  have v: "v = snd (last ?rows)" using a ne unfolding last_row_def by (cases ?rows) (simp_all only: list.case option.inject simp_thms)
  have "last ?rows \<in> set ?rows" using ne by (rule last_in_set)
  then have "last ?rows \<in> set m" "P (fst (last ?rows))" by (simp_all only: set_filter mem_Collect_eq split_beta)
  then show ?thesis unfolding v by (metis prod.collapse)
qed

type_synonym voted = "address \<Rightarrow> nat \<Rightarrow> nat \<Rightarrow> string \<Rightarrow> bool"

definition tally_sound :: "(address \<Rightarrow> nat \<Rightarrow> nat \<Rightarrow> 'k \<Rightarrow> bool) \<Rightarrow> (nat \<times> nat, ('k, signers) btree) btree \<Rightarrow> bool" where
  "tally_sound A t \<longleftrightarrow> (\<forall>((h, r), rt)\<in>set t. \<forall>(x, ss)\<in>set rt. \<forall>(a, _)\<in>set ss. A a h r x)"

definition votes_sound :: "voted \<Rightarrow> vote_tallies \<Rightarrow> bool" where
  "votes_sound A t \<longleftrightarrow> tally_sound (\<lambda>a h r k. A a h r (fst k)) t"

definition pols_sound :: "voted \<Rightarrow> 'p chain_db \<Rightarrow> bool" where
  "pols_sound A db \<longleftrightarrow> (\<forall>(k, p)\<in>set (cd_pols db). k = (pl_height p, pl_round p) \<and>
     (\<forall>a\<in>set (pl_signers p). A a (pl_height p) (pl_round p) (pl_block_hash p)))"

definition finality_sound :: "voted \<Rightarrow> 'p chain_db \<Rightarrow> bool" where
  "finality_sound A db \<longleftrightarrow> (\<forall>(h, f)\<in>set (cd_finality db). h = fr_height f \<and>
     (\<forall>a\<in>set (fr_signers f). A a (fr_height f) (fr_round f) (fr_block_hash f)))"

definition rows_sound :: "voted \<Rightarrow> 'p chain_db \<Rightarrow> bool" where
  "rows_sound A db \<longleftrightarrow> (\<forall>(_, v)\<in>set (cd_precommits db). A (pv_voter v) (pv_height v) (pv_round v) (pv_block_hash v))"

definition blocks_filed :: "'p chain_db \<Rightarrow> bool" where
  "blocks_filed db \<longleftrightarrow> (\<forall>(h, b)\<in>set (cd_blocks db). b_height b = h) \<and>
     (\<forall>(_, rows)\<in>set (cd_undo db). \<forall>h b. BlockRow h (Some b) \<in> set rows \<longrightarrow> b_height b = h)"

lemma tally_soundD:
  "tally_sound A t \<Longrightarrow> map_of t (h, r) = Some rt \<Longrightarrow> map_of rt x = Some ss \<Longrightarrow> (a, sg) \<in> set ss \<Longrightarrow> A a h r x"
  unfolding tally_sound_def by (drule map_of_SomeD)+ fastforce

lemma unwrap_map_of: "e \<in> set (unwrap_or [] (map_of t k)) \<Longrightarrow> \<exists>v. (k, v) \<in> set t \<and> map_of t k = Some v \<and> e \<in> set v"
  by (cases "map_of t k") (auto dest: map_of_SomeD)

text \<open>Adding one vote to a tally.\<close>

lemma signers_sound_insert:
  assumes "tally_sound A t" "A a h r x"
    and "(b, sg) \<in> set (bt_insert a s (unwrap_or [] (map_of (unwrap_or [] (map_of t (h, r))) x)))"
  shows "A b h r x"
  using bt_insert_cases [OF assms(3)]
proof
  assume "(b, sg) \<in> set (unwrap_or [] (map_of (unwrap_or [] (map_of t (h, r))) x))"
  from unwrap_map_of [OF this] obtain ss where
    ss: "map_of (unwrap_or [] (map_of t (h, r))) x = Some ss" "(b, sg) \<in> set ss" by blast
  then obtain rt where rt: "map_of t (h, r) = Some rt" "map_of rt x = Some ss" by (cases "map_of t (h, r)") simp_all
  show ?thesis by (rule tally_soundD [OF assms(1) rt ss(2)])
qed (use assms(2) in simp)

lemma tally_sound_rowD: "tally_sound A t \<Longrightarrow> ((h, r), rt) \<in> set t \<Longrightarrow> (x, ss) \<in> set rt \<Longrightarrow> (a, sg) \<in> set ss \<Longrightarrow> A a h r x"
  unfolding tally_sound_def by fastforce

lemma tally_soundI:
  "(\<And>h r rt x ss a sg. ((h, r), rt) \<in> set t \<Longrightarrow> (x, ss) \<in> set rt \<Longrightarrow> (a, sg) \<in> set ss \<Longrightarrow> A a h r x) \<Longrightarrow> tally_sound A t"
  unfolding tally_sound_def by fastforce

lemma tally_sound_insert:
  assumes s: "tally_sound A t" and "A a h r x"
  shows "tally_sound A (bt_insert (h, r) (bt_insert x
    (bt_insert a sg (unwrap_or [] (map_of (unwrap_or [] (map_of t (h, r))) x))) (unwrap_or [] (map_of t (h, r)))) t)"
proof (rule tally_soundI)
  fix h' r' rt x' ss b sb
  let ?rt = "unwrap_or [] (map_of t (h, r))"
  let ?ss = "bt_insert a sg (unwrap_or [] (map_of ?rt x))"
  assume m: "((h', r'), rt) \<in> set (bt_insert (h, r) (bt_insert x ?ss ?rt) t)" "(x', ss) \<in> set rt" "(b, sb) \<in> set ss"
  from bt_insert_cases [OF m(1)] show "A b h' r' x'"
  proof
    assume "((h', r'), rt) \<in> set t"
    then show ?thesis by (rule tally_sound_rowD [OF s _ m(2,3)])
  next
    assume "((h', r'), rt) = ((h, r), bt_insert x ?ss ?rt)"
    then have e: "h' = h" "r' = r" "rt = bt_insert x ?ss ?rt" by (simp_all only: prod.inject)
    from bt_insert_cases [OF m(2) [unfolded e(3)]] show ?thesis
    proof
      assume "(x', ss) \<in> set ?rt"
      from unwrap_map_of [OF this] obtain v where v: "((h, r), v) \<in> set t" "(x', ss) \<in> set v" by blast
      show ?thesis unfolding e by (rule tally_sound_rowD [OF s v m(3)])
    next
      assume "(x', ss) = (x, ?ss)"
      then have x: "x' = x" "ss = ?ss" by (simp_all only: prod.inject)
      show ?thesis unfolding e x by (rule signers_sound_insert [OF assms m(3) [unfolded x]])
    qed
  qed
qed


text \<open>What tallying one vote does to the rows the argument rests on.\<close>

lemma tally_prevote_frame:
  "tally_prevote env db t vote = (db', t', eq) \<Longrightarrow>
   cd_finality db' = cd_finality db \<and> cd_precommits db' = cd_precommits db \<and> cd_blocks db' = cd_blocks db \<and> cd_undo db' = cd_undo db"
  by (auto simp: tally_prevote_def Let_def write_pol_def split: if_splits option.splits)

lemma pols_sound_write:
  assumes "pols_sound A db" "\<And>a. a \<in> set (pl_signers p) \<Longrightarrow> A a (pl_height p) (pl_round p) (pl_block_hash p)"
  shows "pols_sound A (write_pol p db)"
  unfolding pols_sound_def
proof
  fix e assume "e \<in> set (cd_pols (write_pol p db))"
  then have "e \<in> set (bt_insert (pl_height p, pl_round p) p (cd_pols db))" by (simp add: write_pol_def)
  from bt_insert_cases [OF this] show "case e of (k, p) \<Rightarrow> k = (pl_height p, pl_round p) \<and> (\<forall>a\<in>set (pl_signers p). A a (pl_height p) (pl_round p) (pl_block_hash p))"
    using assms unfolding pols_sound_def by blast
qed

definition prevote_backed :: "'p fin_env \<Rightarrow> voted \<Rightarrow> 'p chain_db \<Rightarrow> prevote_vote \<Rightarrow> bool" where
  "prevote_backed env A db vote \<longleftrightarrow>
    (vote_admitted env db (vt_height vote) (vt_voter vote)
       (prevote_signing_bytes (cd_genesis db) (vt_height vote) (vt_round vote) (vt_block_hash vote)) (vt_signature vote) \<longrightarrow>
     A (vt_voter vote) (vt_height vote) (vt_round vote) (vt_block_hash vote))"

definition precommit_backed :: "'p fin_env \<Rightarrow> voted \<Rightarrow> 'p chain_db \<Rightarrow> precommit_vote \<Rightarrow> bool" where
  "precommit_backed env A db vote \<longleftrightarrow>
    (vote_admitted env db (pc_height vote) (pc_voter vote)
       (precommit_signing_bytes (cd_genesis db) (pc_height vote) (pc_round vote) (pc_block_hash vote) (pc_ep vote)) (pc_signature vote) \<longrightarrow>
     A (pc_voter vote) (pc_height vote) (pc_round vote) (pc_block_hash vote))"

lemma tally_prevote_sound:
  assumes t: "tally_prevote env db t vote = (db', t', eq)" and s: "tally_sound A t" "pols_sound A db" "prevote_backed env A db vote"
  shows "tally_sound A t' \<and> pols_sound A db'"
proof (cases "get_finality_record db (vt_height vote) \<noteq> None \<or> \<not> vote_admitted env db (vt_height vote) (vt_voter vote)
    (prevote_signing_bytes (cd_genesis db) (vt_height vote) (vt_round vote) (vt_block_hash vote)) (vt_signature vote)")
  case True
  then show ?thesis using t s by (auto simp: tally_prevote_def Let_def)
next
  case False
  let ?h = "vt_height vote" and ?r = "vt_round vote" and ?x = "vt_block_hash vote"
  let ?rt = "unwrap_or [] (map_of t (?h, ?r))"
  let ?ss = "bt_insert (vt_voter vote) (vt_signature vote) (unwrap_or [] (map_of ?rt ?x))"
  have A: "A (vt_voter vote) ?h ?r ?x" using False s(3) by (simp add: prevote_backed_def)
  have t': "t' = bt_insert (?h, ?r) (bt_insert ?x ?ss ?rt) t" and
    db': "db' = db \<or> (\<exists>agg. db' = write_pol \<lparr> pl_height = ?h, pl_round = ?r, pl_block_hash = ?x, pl_signers = bt_keys ?ss,
        pl_aggregate_signature = agg \<rparr> db)"
    using t False unfolding tally_prevote_def Let_def by (auto split: if_splits option.splits)
  have "tally_sound A t'" unfolding t' by (rule tally_sound_insert [OF s(1) A])
  moreover have "A a ?h ?r ?x" if "a \<in> set (bt_keys ?ss)" for a
    using that signers_sound_insert [OF s(1) A] by (auto simp: bt_keys_def)
  then have "pols_sound A (write_pol \<lparr> pl_height = ?h, pl_round = ?r, pl_block_hash = ?x, pl_signers = bt_keys ?ss,
        pl_aggregate_signature = agg \<rparr> db)" for agg
    by (intro pols_sound_write s(2)) simp
  then have "pols_sound A db'" using db' s(2) by blast
  ultimately show ?thesis by blast
qed

text \<open>Unwinding keeps certificates and takes locks and pending votes away only.\<close>

lemma undo_blocks_frame:
  "undo_blocks hs db = Ok db' \<Longrightarrow>
   cd_finality db' = cd_finality db \<and> cd_pols db' = cd_pols db \<and> cd_precommits db' = cd_precommits db \<and> cd_genesis db' = cd_genesis db"
  by (induction hs db rule: undo_blocks.induct) auto

lemma set_bt_put: "e \<in> set (bt_put k x m) \<Longrightarrow> e \<in> set m \<or> (\<exists>v. x = Some v \<and> e = (k, v))"
  by (auto simp: bt_put_def bt_remove_def split: option.splits dest: bt_insert_cases)

lemma put_row_blocks: "(h, b) \<in> set (cd_blocks (put_row w db)) \<Longrightarrow> (h, b) \<in> set (cd_blocks db) \<or> w = BlockRow h (Some b)"
  by (cases w) (auto dest: set_bt_put)

lemma put_rows_blocks: "(h, b) \<in> set (cd_blocks (fold put_row ws db)) \<Longrightarrow> (h, b) \<in> set (cd_blocks db) \<or> BlockRow h (Some b) \<in> set ws"
proof (induction ws arbitrary: db)
  case (Cons w ws)
  then show ?case using put_row_blocks [of h b w db] by auto
qed simp

lemma undo_blocks_filed: "undo_blocks hs db = Ok db' \<Longrightarrow> blocks_filed db \<Longrightarrow> blocks_filed db'"
proof (induction hs arbitrary: db)
  case (Cons h hs)
  from Cons.prems(1) obtain rows where rows: "map_of (cd_undo db) h = Some rows"
    "undo_blocks hs ((fold put_row rows db)\<lparr> cd_undo := bt_remove h (cd_undo db) \<rparr>) = Ok db'" by auto
  have "b_height b = k" if m: "(k, b) \<in> set (cd_blocks (fold put_row rows db))" for k b
    using put_rows_blocks [OF m]
  proof
    assume "BlockRow k (Some b) \<in> set rows"
    then show ?thesis using Cons.prems(2) map_of_SomeD [OF rows(1)] unfolding blocks_filed_def by blast
  qed (use Cons.prems(2) in \<open>auto simp: blocks_filed_def\<close>)
  moreover have "b_height b = k" if "(j, us) \<in> set (bt_remove h (cd_undo db))" "BlockRow k (Some b) \<in> set us" for j us k b
    using that Cons.prems(2) unfolding blocks_filed_def bt_remove_def by auto
  ultimately have "blocks_filed ((fold put_row rows db)\<lparr> cd_undo := bt_remove h (cd_undo db) \<rparr>)"
    unfolding blocks_filed_def by auto
  from Cons.IH [OF rows(2) this] show ?case .
qed simp

lemma revert_cases:
  assumes "revert_to h db = Ok db'"
  shows "db' = db \<or> (\<exists>hs db1. undo_blocks hs db = Ok db1 \<and> db' = drop_votes_above h db1)"
proof -
  define hs where "hs = rev [Suc h..<Suc (unwrap_or 0 (cd_tip db))]"
  show ?thesis using assms unfolding revert_to_def Let_def hs_def [symmetric] by (auto split: if_splits)
qed

lemma revert_frame:
  assumes "revert_to h db = Ok db'"
  shows "cd_finality db' = cd_finality db" "set (cd_pols db') \<subseteq> set (cd_pols db)" "set (cd_precommits db') \<subseteq> set (cd_precommits db)"
    "cd_genesis db' = cd_genesis db" "blocks_filed db \<Longrightarrow> blocks_filed db'"
proof -
  consider "db' = db" | hs db1 where "undo_blocks hs db = Ok db1" "db' = drop_votes_above h db1" using revert_cases [OF assms] by blast
  then have "cd_finality db' = cd_finality db \<and> set (cd_pols db') \<subseteq> set (cd_pols db) \<and> set (cd_precommits db') \<subseteq> set (cd_precommits db) \<and>
      cd_genesis db' = cd_genesis db \<and> (blocks_filed db \<longrightarrow> blocks_filed db')"
  proof cases
    case 2
    have "blocks_filed db1 \<Longrightarrow> blocks_filed db'" by (simp add: 2(2) blocks_filed_def drop_votes_above_def)
    then show ?thesis using undo_blocks_frame [OF 2(1)] undo_blocks_filed [OF 2(1)] by (auto simp: 2(2) drop_votes_above_def)
  qed simp
  then show "cd_finality db' = cd_finality db" "set (cd_pols db') \<subseteq> set (cd_pols db)" "set (cd_precommits db') \<subseteq> set (cd_precommits db)"
    "cd_genesis db' = cd_genesis db" "blocks_filed db \<Longrightarrow> blocks_filed db'" by blast+
qed


definition db_sound :: "voted \<Rightarrow> voted \<Rightarrow> 'p chain_db \<Rightarrow> bool" where
  "db_sound V C db \<longleftrightarrow> pols_sound V db \<and> finality_sound C db \<and> rows_sound C db \<and> blocks_filed db"

lemma db_sound_sub:
  "db_sound V C db \<Longrightarrow> set (cd_pols db') \<subseteq> set (cd_pols db) \<Longrightarrow> set (cd_finality db') \<subseteq> set (cd_finality db) \<Longrightarrow>
   set (cd_precommits db') \<subseteq> set (cd_precommits db) \<Longrightarrow> blocks_filed db' \<Longrightarrow> db_sound V C db'"
  unfolding db_sound_def pols_sound_def finality_sound_def rows_sound_def by blast

lemma blocks_filed_cong: "cd_blocks db' = cd_blocks db \<Longrightarrow> cd_undo db' = cd_undo db \<Longrightarrow> blocks_filed db' \<longleftrightarrow> blocks_filed db"
  by (simp add: blocks_filed_def)

text \<open>The rows the argument does not rest on may change freely.\<close>

lemma db_sound_cong:
  "cd_pols db' = cd_pols db \<Longrightarrow> cd_finality db' = cd_finality db \<Longrightarrow> cd_precommits db' = cd_precommits db \<Longrightarrow>
   cd_blocks db' = cd_blocks db \<Longrightarrow> cd_undo db' = cd_undo db \<Longrightarrow> db_sound V C db' \<longleftrightarrow> db_sound V C db"
  by (simp add: db_sound_def pols_sound_def finality_sound_def rows_sound_def blocks_filed_def)

lemma db_sound_writes [simp]:
  "db_sound V C (write_round_certificate cert db) \<longleftrightarrow> db_sound V C db"
  "db_sound V C (write_round_timeout_vote rv db) \<longleftrightarrow> db_sound V C db"
  "db_sound V C (write_dissent d db) \<longleftrightarrow> db_sound V C db"
  "db_sound V C (delete_round_timeout_votes h r db) \<longleftrightarrow> db_sound V C db"
  "db_sound V C (delete_round_timeout_votes_through h db) \<longleftrightarrow> db_sound V C db"
  by (rule db_sound_cong; simp add: write_round_certificate_def write_round_timeout_vote_def write_dissent_def
      delete_round_timeout_votes_def delete_round_timeout_votes_through_def)+

lemma db_sound_deletes:
  assumes "db_sound V C db"
  shows "db_sound V C (delete_pols_through h db)" "db_sound V C (delete_precommit_votes h db)"
proof -
  have b: "blocks_filed db" using assms by (simp add: db_sound_def)
  show "db_sound V C (delete_pols_through h db)"
    by (rule db_sound_sub [OF assms]) (use b in \<open>auto simp: delete_pols_through_def blocks_filed_def\<close>)
  show "db_sound V C (delete_precommit_votes h db)"
    by (rule db_sound_sub [OF assms]) (use b in \<open>auto simp: delete_precommit_votes_def blocks_filed_def\<close>)
qed

lemma db_sound_revert: "db_sound V C db \<Longrightarrow> db_sound V C (revert_or_keep h db)"
proof (cases "revert_to h db")
  case (Ok db')
  assume s: "db_sound V C db"
  have "db_sound V C db'"
    by (rule db_sound_sub [OF s]) (use revert_frame [OF Ok] s in \<open>auto simp: db_sound_def\<close>)
  then show ?thesis using Ok by (simp add: revert_or_keep_def)
qed (simp_all add: revert_or_keep_def)

lemma db_sound_enforce: "db_sound V C db \<Longrightarrow> db_sound V C (enforce_certificate env f db)"
  by (simp add: enforce_certificate_def db_sound_revert split: option.split)

lemma db_sound_unwind: "db_sound V C db \<Longrightarrow> db_sound V C (unwind_dead_tip env cert db)"
  by (simp add: unwind_dead_tip_def db_sound_revert split: option.split)

lemma db_sound_precommit_row:
  assumes "db_sound V C db" "C (pv_voter v) (pv_height v) (pv_round v) (pv_block_hash v)"
  shows "db_sound V C (write_precommit_vote v db)"
proof -
  have "rows_sound C (write_precommit_vote v db)"
    unfolding rows_sound_def
  proof
    fix e assume "e \<in> set (cd_precommits (write_precommit_vote v db))"
    then have "e \<in> set (bt_insert (pv_height v, pv_round v, pv_block_hash v, pv_voter v) v (cd_precommits db))"
      by (simp add: write_precommit_vote_def)
    from bt_insert_cases [OF this] show "case e of (_, v) \<Rightarrow> C (pv_voter v) (pv_height v) (pv_round v) (pv_block_hash v)"
      using assms unfolding db_sound_def rows_sound_def by blast
  qed
  then show ?thesis using assms(1) by (simp add: db_sound_def pols_sound_def finality_sound_def blocks_filed_def write_precommit_vote_def)
qed

lemma stage_undo_sub: "set (cd_undo (stage_watermark_advance db i db')) \<subseteq> set (cd_undo db')"
  by (auto simp: stage_watermark_advance_def Let_def)

lemma db_sound_finality:
  assumes "db_sound V C db" "\<And>a. a \<in> set (fr_signers f) \<Longrightarrow> C a (fr_height f) (fr_round f) (fr_block_hash f)"
  shows "db_sound V C (write_finality_record f db)"
proof -
  have "finality_sound C (write_finality_record f db)"
    unfolding finality_sound_def
  proof
    fix e assume "e \<in> set (cd_finality (write_finality_record f db))"
    then have "e \<in> set (bt_insert (fr_height f) f (cd_finality db))" by (simp add: write_finality_record_def)
    from bt_insert_cases [OF this] show "case e of (h, f) \<Rightarrow> h = fr_height f \<and>
        (\<forall>a\<in>set (fr_signers f). C a (fr_height f) (fr_round f) (fr_block_hash f))"
      using assms unfolding db_sound_def finality_sound_def by blast
  qed
  moreover have "blocks_filed (write_finality_record f db)"
    using assms(1) stage_undo_sub [of db "[(fr_height f, fr_block_hash f)]" "db\<lparr> cd_finality := bt_insert (fr_height f) f (cd_finality db) \<rparr>"]
    unfolding db_sound_def blocks_filed_def write_finality_record_def by (simp add: subset_iff) blast
  ultimately show ?thesis using assms(1) by (simp add: db_sound_def pols_sound_def rows_sound_def write_finality_record_def)
qed


lemma tally_prevote_db:
  assumes "tally_prevote env db t vote = (db', t', eq)" "tally_sound V t" "db_sound V C db" "prevote_backed env V db vote"
  shows "tally_sound V t' \<and> db_sound V C db'"
  using tally_prevote_sound [OF assms(1,2) _ assms(4)] tally_prevote_frame [OF assms(1)] assms(3)
  by (simp add: db_sound_def finality_sound_def rows_sound_def blocks_filed_def)

lemma signers_votes_insert:
  assumes "votes_sound C t" "C a h r x" "b \<in> set (bt_keys (bt_insert a s (unwrap_or [] (map_of (unwrap_or [] (map_of t (h, r))) (x, ep)))))"
  shows "C b h r x"
proof -
  obtain sg where m: "(b, sg) \<in> set (bt_insert a s (unwrap_or [] (map_of (unwrap_or [] (map_of t (h, r))) (x, ep))))"
    using assms(3) unfolding bt_keys_def by auto
  have "(\<lambda>a h r k. C a h r (fst k)) b h r (x, ep)"
    by (rule signers_sound_insert [OF assms(1) [unfolded votes_sound_def] _ m]) (simp add: assms(2))
  then show ?thesis by simp
qed

lemma votes_sound_insert:
  assumes "votes_sound C t" "C a h r x"
  shows "votes_sound C (bt_insert (h, r) (bt_insert (x, ep)
    (bt_insert a sg (unwrap_or [] (map_of (unwrap_or [] (map_of t (h, r))) (x, ep)))) (unwrap_or [] (map_of t (h, r)))) t)"
  unfolding votes_sound_def
  by (rule tally_sound_insert [OF assms(1) [unfolded votes_sound_def]]) (simp add: assms(2))

lemma votes_sound_filter: "votes_sound C t \<Longrightarrow> votes_sound C (filter P t)"
  unfolding votes_sound_def tally_sound_def by auto

lemma tally_sound_filter: "tally_sound C t \<Longrightarrow> tally_sound C (filter P t)"
  unfolding tally_sound_def by auto

lemma tally_vote_db:
  assumes t: "tally_vote env db t mine vote = (db', t', mine', eq)"
    and s: "votes_sound C t" "db_sound V C db" "precommit_backed env C db vote"
  shows "votes_sound C t' \<and> db_sound V C db'"
proof (cases "get_finality_record db (pc_height vote) \<noteq> None \<or> \<not> vote_admitted env db (pc_height vote) (pc_voter vote)
    (precommit_signing_bytes (cd_genesis db) (pc_height vote) (pc_round vote) (pc_block_hash vote) (pc_ep vote)) (pc_signature vote)")
  case True
  then show ?thesis using t s by (auto simp: tally_vote_def Let_def)
next
  case False
  let ?h = "pc_height vote" and ?r = "pc_round vote" and ?x = "pc_block_hash vote" and ?ep = "pc_ep vote"
  let ?rt = "unwrap_or [] (map_of t (?h, ?r))"
  let ?ss = "bt_insert (pc_voter vote) (pc_signature vote) (unwrap_or [] (map_of ?rt (?x, ?ep)))"
  let ?t = "bt_insert (?h, ?r) (bt_insert (?x, ?ep) ?ss ?rt) t"
  let ?db = "write_precommit_vote \<lparr> pv_height = ?h, pv_round = ?r, pv_block_hash = ?x, pv_voter = pc_voter vote,
            pv_signature = pc_signature vote, pv_ep = ?ep \<rparr> db"
  let ?f = "\<lambda>agg. \<lparr> fr_height = ?h, fr_round = ?r, fr_block_hash = ?x, fr_signers = bt_keys ?ss, fr_aggregate_signature = agg, fr_ep = ?ep \<rparr>"
  have A: "C (pc_voter vote) ?h ?r ?x" using False s(3) by (simp add: precommit_backed_def)
  have t0: "votes_sound C ?t" by (rule votes_sound_insert [OF s(1) A])
  have db0: "db_sound V C ?db" by (rule db_sound_precommit_row [OF s(2)]) (simp add: A)
  have "db_sound V C (write_finality_record (?f agg) ?db)" for agg
    by (rule db_sound_finality [OF db0]) (use signers_votes_insert [OF s(1) A] in simp)
  then have db1: "db_sound V C (enforce_certificate env (?f agg) (delete_precommit_votes ?h (write_finality_record (?f agg) ?db)))" for agg
    by (intro db_sound_enforce db_sound_deletes)
  have "(t' = ?t \<or> t' = filter (\<lambda>((k, _), _). k \<noteq> ?h) ?t) \<and>
      (db' = ?db \<or> (\<exists>agg. db' = enforce_certificate env (?f agg) (delete_precommit_votes ?h (write_finality_record (?f agg) ?db))))"
    using t False unfolding tally_vote_def Let_def by (auto split: if_splits option.splits)
  then show ?thesis using t0 votes_sound_filter [OF t0] db0 db1 by blast
qed

lemma tally_round_timeout_db:
  "tally_round_timeout env db t vote = (db', t') \<Longrightarrow> db_sound V C db \<Longrightarrow> db_sound V C db'"
  unfolding tally_round_timeout_def Let_def
  by (auto split: if_splits option.splits intro!: db_sound_unwind)

lemma handle_dissent_db: "handle_dissent env db d = (db', rs) \<Longrightarrow> db_sound V C db \<Longrightarrow> db_sound V C db'"
  by (auto simp: handle_dissent_def Let_def split: if_splits)

end
