(* ===== verification/Vote_Log.thy ===== *)
theory Vote_Log
  imports Finality
begin

text \<open>
  Why the votes of the engine are safe: what an honest validator signs, in order, as a log (\<open>vote_log\<close>, a history variable
  the engine never reads), the four voting rules of \<^verbatim>\<open>src/docs/consensus-safety.md\<close> as a property of the log, the agreement
  argument over such a log, and the lemmas that every call of theory \<open>Finality\<close> that signs keeps to the rules. Theory
  \<open>Agreement\<close> puts the nodes together.
\<close>

section \<open>The log of honest votes\<close>

type_synonym vote_log = "(address \<times> vote_entry) list"

definition voted_in :: "address set \<Rightarrow> vote_log \<Rightarrow> vote_kind \<Rightarrow> voted" where
  "voted_in honest log kind a h r x \<longleftrightarrow>
    (a \<in> honest \<longrightarrow> (a, \<lparr> ve_kind = kind, ve_height = h, ve_round = r, ve_hash = x \<rparr>) \<in> set log)"

text \<open>A quorum of the height's set that, as far as its honest members go, voted for a block.\<close>

definition quorum_for :: "(nat \<Rightarrow> validator_set) \<Rightarrow> address set \<Rightarrow> vote_log \<Rightarrow> vote_kind \<Rightarrow> nat \<Rightarrow> nat \<Rightarrow> string \<Rightarrow> bool" where
  "quorum_for vals honest log kind h r x \<longleftrightarrow>
    (\<exists>signers. quorum_reached (vals h) signers \<and> (\<forall>a\<in>set signers. voted_in honest log kind a h r x))"

text \<open>What an honest validator's next vote respects: rules V1 to V4.\<close>

definition vote_follows :: "(nat \<Rightarrow> validator_set) \<Rightarrow> address set \<Rightarrow> vote_log \<Rightarrow> address \<Rightarrow> vote_entry \<Rightarrow> bool" where
  "vote_follows vals honest log v e \<longleftrightarrow>
    (\<forall>e'. (v, e') \<in> set log \<and> ve_height e' = ve_height e \<longrightarrow>
       \<not> (ve_kind e' = ve_kind e \<and> ve_round e' = ve_round e) \<and> (ve_kind e \<noteq> Timeout \<longrightarrow> ve_round e' \<le> ve_round e)) \<and>
    (ve_kind e = Precommit \<longrightarrow> quorum_for vals honest log Prevote (ve_height e) (ve_round e) (ve_hash e)) \<and>
    (ve_kind e = Prevote \<longrightarrow>
      (\<forall>e'. (v, e') \<in> set log \<and> ve_kind e' = Precommit \<and> ve_height e' = ve_height e \<and> ve_hash e' \<noteq> ve_hash e \<longrightarrow>
        (\<exists>vr. ve_round e' \<le> vr \<and> vr \<le> ve_round e \<and> quorum_for vals honest log Prevote (ve_height e) vr (ve_hash e))))"

definition good_log :: "(nat \<Rightarrow> validator_set) \<Rightarrow> address set \<Rightarrow> vote_log \<Rightarrow> bool" where
  "good_log vals honest log \<longleftrightarrow> (\<forall>l1 v e l2. log = l1 @ (v, e) # l2 \<and> v \<in> honest \<longrightarrow> vote_follows vals honest l1 v e)"

lemma good_log_Nil [simp]: "good_log vals honest []"
  by (simp add: good_log_def)

lemma good_log_snoc:
  "good_log vals honest log \<Longrightarrow> (v \<in> honest \<Longrightarrow> vote_follows vals honest log v e) \<Longrightarrow> good_log vals honest (log @ [(v, e)])"
  unfolding good_log_def
proof (intro allI impI)
  fix l1 w d l2
  assume g: "\<forall>l1 v e l2. log = l1 @ (v, e) # l2 \<and> v \<in> honest \<longrightarrow> vote_follows vals honest l1 v e"
    and f: "v \<in> honest \<Longrightarrow> vote_follows vals honest log v e"
    and s: "log @ [(v, e)] = l1 @ (w, d) # l2 \<and> w \<in> honest"
  show "vote_follows vals honest l1 w d"
  proof (cases l2 rule: rev_cases)
    case Nil
    then show ?thesis using s f by simp
  next
    case (snoc l2' y)
    then have "log = l1 @ (w, d) # l2'" using s by simp
    then show ?thesis using g s by blast
  qed
qed

lemma voted_in_mono: "set log \<subseteq> set log' \<Longrightarrow> voted_in honest log kind a h r x \<Longrightarrow> voted_in honest log' kind a h r x"
  unfolding voted_in_def by blast

lemma quorum_for_mono: "set log \<subseteq> set log' \<Longrightarrow> quorum_for vals honest log kind h r x \<Longrightarrow> quorum_for vals honest log' kind h r x"
  unfolding quorum_for_def using voted_in_mono by blast

text \<open>Any two quorums of a height share an honest validator, as long as the others hold at most 3,333 of the 10,000 units.\<close>

definition few_faulty :: "(nat \<Rightarrow> validator_set) \<Rightarrow> address set \<Rightarrow> nat \<Rightarrow> bool" where
  "few_faulty vals honest h \<longleftrightarrow>
    full_set (vals h) \<and> signed_power (vals h) (filter (\<lambda>a. a \<notin> honest) (bt_keys (vals h))) \<le> 3333"

lemma quorums_share_honest:
  assumes "few_faulty vals honest h" "quorum_reached (vals h) xs" "quorum_reached (vals h) ys"
  shows "\<exists>a\<in>honest. a \<in> set xs \<and> a \<in> set ys"
proof (rule ccontr)
  assume none: "\<not> ?thesis"
  let ?both = "filter (\<lambda>a. a \<in> set ys) xs" and ?bad = "filter (\<lambda>a. a \<notin> honest) (bt_keys (vals h))"
  have f: "full_set (vals h)" using assms(1) by (simp add: few_faulty_def)
  have "signed_power (vals h) xs + signed_power (vals h) ys \<le> TOTAL_VOTING_POWER + signed_power (vals h) ?both"
    by (rule vq.power_overlap [OF f]) auto
  moreover have "signed_power (vals h) ?both \<le> signed_power (vals h) ?bad"
    by (rule vq.power_mono [OF f]) (use none in \<open>auto simp: bt_keys_def dom_map_of_conv_image_fst\<close>)
  ultimately show False using assms by (simp add: few_faulty_def quorum_reached_def)
qed

lemma quorum_forD: "quorum_for vals honest log kind h r x \<Longrightarrow> \<exists>xs. quorum_reached (vals h) xs \<and>
    (\<forall>a\<in>set xs \<inter> honest. (a, \<lparr> ve_kind = kind, ve_height = h, ve_round = r, ve_hash = x \<rparr>) \<in> set log)"
  unfolding quorum_for_def voted_in_def by blast

lemma quorums_honest_voter:
  assumes "few_faulty vals honest h" "quorum_for vals honest log k h r x" "quorum_for vals honest log' k' h r' x'"
  shows "\<exists>a\<in>honest. (a, \<lparr> ve_kind = k, ve_height = h, ve_round = r, ve_hash = x \<rparr>) \<in> set log \<and>
    (a, \<lparr> ve_kind = k', ve_height = h, ve_round = r', ve_hash = x' \<rparr>) \<in> set log'"
proof -
  from quorum_forD [OF assms(2)] obtain xs where xs: "quorum_reached (vals h) xs"
    "\<And>a. a \<in> set xs \<Longrightarrow> a \<in> honest \<Longrightarrow> (a, \<lparr> ve_kind = k, ve_height = h, ve_round = r, ve_hash = x \<rparr>) \<in> set log" by blast
  from quorum_forD [OF assms(3)] obtain ys where ys: "quorum_reached (vals h) ys"
    "\<And>a. a \<in> set ys \<Longrightarrow> a \<in> honest \<Longrightarrow> (a, \<lparr> ve_kind = k', ve_height = h, ve_round = r', ve_hash = x' \<rparr>) \<in> set log'" by blast
  from quorums_share_honest [OF assms(1) xs(1) ys(1)] show ?thesis using xs(2) ys(2) by blast
qed


section \<open>A final block excludes every other lock\<close>

lemma good_logD: "good_log vals honest (l1 @ (v, e) # l2) \<Longrightarrow> v \<in> honest \<Longrightarrow> vote_follows vals honest l1 v e"
  unfolding good_log_def by blast

text \<open>A vote at a later round never precedes a vote other than a timeout.\<close>

lemma vote_order:
  assumes "good_log vals honest (l1 @ (v, e) # l2)" "v \<in> honest" "(v, e') \<in> set l1" "ve_height e' = ve_height e" "ve_kind e \<noteq> Timeout"
  shows "ve_round e' \<le> ve_round e"
  using good_logD [OF assms(1,2)] assms(3-5) unfolding vote_follows_def by blast

lemma vote_unique:
  assumes g: "good_log vals honest log" and v: "v \<in> honest" and m: "(v, e) \<in> set log" "(v, e') \<in> set log"
    and k: "ve_kind e = ve_kind e'" "ve_height e = ve_height e'" "ve_round e = ve_round e'"
  shows "e = e'"
proof (rule ccontr)
  assume ne: "e \<noteq> e'"
  from m(1) obtain l1 l2 where l: "log = l1 @ (v, e) # l2" by (meson split_list)
  have not: "\<not> (\<exists>d. (v, d) \<in> set l1 \<and> ve_height d = ve_height e \<and> ve_kind d = ve_kind e \<and> ve_round d = ve_round e)"
    using good_logD [OF g [unfolded l] v] unfolding vote_follows_def by blast
  then have "(v, e') \<in> set l2" using m(2) ne k unfolding l by auto
  then obtain m1 m2 where "l2 = m1 @ (v, e') # m2" by (meson split_list)
  then have "log = (l1 @ (v, e) # m1) @ (v, e') # m2" using l by simp
  then have "vote_follows vals honest (l1 @ (v, e) # m1) v e'" using g v good_logD by blast
  then show False using k unfolding vote_follows_def by (auto dest: spec [of _ e])
qed

lemma precommit_has_lock:
  assumes "good_log vals honest log" "v \<in> honest"
    and "(v, \<lparr> ve_kind = Precommit, ve_height = h, ve_round = r, ve_hash = x \<rparr>) \<in> set log"
  shows "quorum_for vals honest log Prevote h r x"
proof -
  from assms(3) obtain l1 l2 where l: "log = l1 @ (v, \<lparr> ve_kind = Precommit, ve_height = h, ve_round = r, ve_hash = x \<rparr>) # l2"
    by (meson split_list)
  have "quorum_for vals honest l1 Prevote h r x"
    using good_logD [OF assms(1) [unfolded l] assms(2)] unfolding vote_follows_def by simp
  then show ?thesis by (rule quorum_for_mono [rotated]) (auto simp: l)
qed

lemma first_prefix: "P log \<Longrightarrow> \<not> P [] \<Longrightarrow> \<exists>l0 y l2. log = l0 @ y # l2 \<and> \<not> P l0 \<and> P (l0 @ [y])"
proof (induction log rule: rev_induct)
  case (snoc y log)
  then show ?case
  proof (cases "P log")
    case True
    then obtain l0 z l2 where "log = l0 @ z # l2" "\<not> P l0" "P (l0 @ [z])" using snoc by blast
    then show ?thesis by (intro exI [of _ l0] exI [of _ z] exI [of _ "l2 @ [y]"]) simp
  qed blast
qed simp

lemma quorum_for_Nil: "few_faulty vals honest h \<Longrightarrow> \<not> quorum_for vals honest [] kind h r x"
  using quorums_honest_voter [of vals honest h "[]" kind r x "[]" kind r x] by auto

lemma prefix_before_last:
  assumes "l0 @ [y] = m1 @ z # m2"
  shows "set m1 \<subseteq> set l0"
proof (cases m2 rule: rev_cases)
  case (snoc m2' w)
  then have "l0 = m1 @ z # m2'" using assms by simp
  then show ?thesis by auto
qed (use assms in auto)

text \<open>
  The honest members of a precommit quorum for \<open>B\<close> at \<open>r\<close> are locked. One that prevotes \<open>C\<close> later held a lock for \<open>C\<close>
  already, so no quorum of prevotes for \<open>C\<close> is ever the first.
\<close>

lemma later_prevote_was_locked:
  assumes g: "good_log vals honest (l @ rest)" and a: "a \<in> honest"
    and pre: "(a, \<lparr> ve_kind = Precommit, ve_height = h, ve_round = r, ve_hash = B \<rparr>) \<in> set (l @ rest)"
    and pv: "(a, \<lparr> ve_kind = Prevote, ve_height = h, ve_round = r', ve_hash = C \<rparr>) \<in> set l" and "r < r'" "B \<noteq> C"
  shows "\<exists>m1 z m2 vr. l = m1 @ z # m2 \<and> r \<le> vr \<and> vr \<le> r' \<and> quorum_for vals honest m1 Prevote h vr C"
proof -
  let ?pre = "\<lparr> ve_kind = Precommit, ve_height = h, ve_round = r, ve_hash = B \<rparr>"
  let ?pv = "\<lparr> ve_kind = Prevote, ve_height = h, ve_round = r', ve_hash = C \<rparr>"
  from pv obtain m1 m2 where l: "l = m1 @ (a, ?pv) # m2" by (meson split_list)
  have "(a, ?pre) \<in> set m1"
  proof (rule ccontr)
    assume "(a, ?pre) \<notin> set m1"
    then have "(a, ?pre) \<in> set (m2 @ rest)" using pre l by auto
    then obtain n1 n2 where n: "m2 @ rest = n1 @ (a, ?pre) # n2" by (meson split_list)
    have "l @ rest = (m1 @ (a, ?pv) # n1) @ (a, ?pre) # n2" using l n by simp
    from vote_order [OF g [unfolded this] a, of ?pv] show False using assms(5) by simp
  qed
  moreover have "vote_follows vals honest m1 a ?pv"
    by (rule good_logD [of _ _ m1 a ?pv "m2 @ rest"]) (use g a l in simp_all)
  ultimately have "\<exists>vr. r \<le> vr \<and> vr \<le> r' \<and> quorum_for vals honest m1 Prevote h vr C"
    using assms(6) unfolding vote_follows_def by fastforce
  then show ?thesis using l by blast
qed

lemma final_excludes_lock:
  assumes f: "few_faulty vals honest h" and g: "good_log vals honest log" and q: "quorum_for vals honest log Precommit h r B"
  shows "r \<le> r' \<Longrightarrow> C \<noteq> B \<Longrightarrow> \<not> quorum_for vals honest log Prevote h r' C"
proof (induction r' rule: less_induct)
  case (less r')
  show ?case
  proof
    assume c: "quorum_for vals honest log Prevote h r' C"
    show False
    proof (cases "r' = r")
      case True
      from quorums_honest_voter [OF f q q] obtain b where "b \<in> honest"
        "(b, \<lparr> ve_kind = Precommit, ve_height = h, ve_round = r, ve_hash = B \<rparr>) \<in> set log" by blast
      then have "quorum_for vals honest log Prevote h r B" by (rule precommit_has_lock [OF g])
      from quorums_honest_voter [OF f this c [unfolded True]] obtain a where a: "a \<in> honest"
        "(a, \<lparr> ve_kind = Prevote, ve_height = h, ve_round = r, ve_hash = B \<rparr>) \<in> set log"
        "(a, \<lparr> ve_kind = Prevote, ve_height = h, ve_round = r, ve_hash = C \<rparr>) \<in> set log" by blast
      from vote_unique [OF g a] less.prems(2) show False by simp
    next
      case False
      from first_prefix [where P = "\<lambda>l. quorum_for vals honest l Prevote h r' C", OF c quorum_for_Nil [OF f]]
      obtain l0 y l2 where l: "log = l0 @ y # l2" "\<not> quorum_for vals honest l0 Prevote h r' C"
        "quorum_for vals honest (l0 @ [y]) Prevote h r' C" by blast
      from quorums_honest_voter [OF f q l(3)] obtain a where a: "a \<in> honest"
        "(a, \<lparr> ve_kind = Precommit, ve_height = h, ve_round = r, ve_hash = B \<rparr>) \<in> set log"
        "(a, \<lparr> ve_kind = Prevote, ve_height = h, ve_round = r', ve_hash = C \<rparr>) \<in> set (l0 @ [y])" by blast
      have e: "log = (l0 @ [y]) @ l2" using l(1) by simp
      from later_prevote_was_locked [OF g [unfolded e] a(1) a(2) [unfolded e] a(3)] obtain m1 z m2 vr where
        m: "l0 @ [y] = m1 @ z # m2" "r \<le> vr" "vr \<le> r'" "quorum_for vals honest m1 Prevote h vr C"
        using False less.prems by auto
      have sub: "set m1 \<subseteq> set l0" by (rule prefix_before_last [OF m(1)])
      show False
      proof (cases "vr = r'")
        case True
        then show False using l(2) quorum_for_mono [OF sub m(4)] by simp
      next
        case False
        then have "vr < r'" using m(3) by simp
        moreover have "quorum_for vals honest log Prevote h vr C"
          by (rule quorum_for_mono [OF _ m(4)]) (use sub l(1) in auto)
        ultimately show False using less.IH m(2) less.prems(2) by blast
      qed
    qed
  qed
qed

lemma log_agreement:
  assumes f: "few_faulty vals honest h" and g: "good_log vals honest log"
    and "quorum_for vals honest log Precommit h r B" "quorum_for vals honest log Precommit h r' C"
  shows "B = C"
proof -
  have lock: "quorum_for vals honest log Prevote h r x" if q: "quorum_for vals honest log Precommit h r x" for r x
  proof -
    from quorums_honest_voter [OF f q q] obtain a where "a \<in> honest"
      "(a, \<lparr> ve_kind = Precommit, ve_height = h, ve_round = r, ve_hash = x \<rparr>) \<in> set log" by blast
    then show ?thesis by (rule precommit_has_lock [OF g])
  qed
  show ?thesis
    using final_excludes_lock [OF f g assms(3), of r' C] lock [OF assms(4)] final_excludes_lock [OF f g assms(4), of r B] lock [OF assms(3)]
    by (cases "r \<le> r'") auto
qed


section \<open>The vote record follows the rules\<close>

text \<open>A record speaks for everything its validator logged above its floor, and for nothing else.\<close>

definition record_ok :: "address \<Rightarrow> vote_log \<Rightarrow> signed_votes \<Rightarrow> bool" where
  "record_ok v log sv \<longleftrightarrow> one_vote_per_round sv \<and> (\<forall>e\<in>set (sv_entries sv). (v, e) \<in> set log) \<and>
     (\<forall>e. (v, e) \<in> set log \<and> sv_floor sv < ve_height e \<longrightarrow> e \<in> set (sv_entries sv))"

lemma record_ok_entry: "record_ok v log sv \<Longrightarrow> (v, e) \<in> set log \<Longrightarrow> sv_floor sv < ve_height e \<Longrightarrow> e \<in> set (sv_entries sv)"
  unfolding record_ok_def by blast

lemma record_ok_prune: "record_ok v log sv \<Longrightarrow> record_ok v log (prune_below sv c)"
  using prune_below_entries [of sv c] prune_below_floor [of sv c] prune_below_keeps [of _ sv c] prune_one_vote [of sv c]
  unfolding record_ok_def by (meson le_less_trans subsetD)

text \<open>A claim either finds its vote recorded, or logs one that obeys V1 and V2.\<close>

lemma claim_logs:
  assumes r: "record_ok v log sv" and c: "claim durable sv kind h rd x = Ok sv'"
  defines "e \<equiv> \<lparr> ve_kind = kind, ve_height = h, ve_round = rd, ve_hash = x \<rparr>"
  shows "sv' = sv \<and> (v, e) \<in> set log \<or>
    sv_entries sv' = sv_entries sv @ [e] \<and> record_ok v (log @ [(v, e)]) sv' \<and>
    (\<forall>e'. (v, e') \<in> set log \<and> ve_height e' = h \<longrightarrow>
       \<not> (ve_kind e' = kind \<and> ve_round e' = rd) \<and> (kind \<noteq> Timeout \<longrightarrow> ve_round e' \<le> rd))"
proof (cases "find (\<lambda>e. ve_height e = h \<and> ve_round e = rd \<and> ve_kind e = kind) (sv_entries sv)")
  case (Some d)
  then have d: "d \<in> set (sv_entries sv)" "ve_height d = h" "ve_round d = rd" "ve_kind d = kind" by (auto simp: find_Some_iff)
  have s: "ve_hash d = x" "sv' = sv" using c Some by (auto simp: claim_def split: if_splits)
  have "d = e" using d s by (simp add: e_def)
  then show ?thesis using d(1) r s(2) unfolding record_ok_def by blast
next
  case None
  have fl: "sv_floor sv < h" by (rule claim_Ok [OF c])
  have left: "kind = Timeout \<or> \<not> list_ex (\<lambda>e. ve_height e = h \<and> (rd < ve_round e \<or> ve_round e = rd \<and> ve_kind e = Timeout)) (sv_entries sv)"
    and sv': "sv' = sv\<lparr> sv_entries := sv_entries sv @ [e] \<rparr>"
    using c None by (auto simp: claim_def e_def split: if_splits)
  have old: "\<not> (ve_kind d = kind \<and> ve_round d = rd) \<and> (kind \<noteq> Timeout \<longrightarrow> ve_round d \<le> rd)"
    if "(v, d) \<in> set log" "ve_height d = h" for d
  proof -
    have "d \<in> set (sv_entries sv)" using record_ok_entry [OF r that(1)] that(2) fl by simp
    then show ?thesis using None left that(2) unfolding find_None_iff list_ex_iff by force
  qed
  have "one_vote_per_round sv'" using claim_one_vote [OF _ c] r by (simp add: record_ok_def)
  then have "record_ok v (log @ [(v, e)]) sv'" using r unfolding record_ok_def sv' by auto
  then show ?thesis using old sv' by auto
qed

text \<open>A recorded prevote against the lock has a quorum behind it: rule V3.\<close>

lemma claim_prevote_lock:
  assumes r: "record_ok v log sv" and g: "good_log vals honest log" and v: "v \<in> honest"
    and c: "claim_prevote durable sv h rd x pol = Ok sv'"
    and pol: "\<And>vr. pol = Some vr \<Longrightarrow> quorum_for vals honest log Prevote h vr x"
    and pre: "(v, e) \<in> set log" "ve_kind e = Precommit" "ve_height e = h" "ve_hash e \<noteq> x"
    and new: "\<And>e'. (v, e') \<in> set log \<Longrightarrow> ve_height e' = h \<Longrightarrow> ve_round e' \<le> rd"
  shows "\<exists>vr. ve_round e \<le> vr \<and> vr \<le> rd \<and> quorum_for vals honest log Prevote h vr x"
proof -
  have cl: "claim durable sv Prevote h rd x = Ok sv'" using c by (auto simp: claim_prevote_def split: option.splits if_splits)
  have e: "e \<in> set (sv_entries sv)" using record_ok_entry [OF r pre(1)] claim_Ok(1) [OF cl] pre(3) by simp
  then have "lock sv h \<noteq> None" using pre(2,3) unfolding lock_None by blast
  then obtain lr lv where l: "lock sv h = Some (lr, lv)" by auto
  from lock_Some(1) [OF l] obtain d where d: "d \<in> set (sv_entries sv)" "ve_kind d = Precommit" "ve_height d = h" "ve_round d = lr" "ve_hash d = lv"
    by blast
  have le: "ve_round e \<le> lr" by (rule lock_Some(2) [OF l e pre(2,3)])
  have dl: "(v, d) \<in> set log" using r d(1) unfolding record_ok_def by blast
  show ?thesis
  proof (cases "lv = x")
    case True
    have "d = \<lparr> ve_kind = Precommit, ve_height = h, ve_round = lr, ve_hash = x \<rparr>" using d True by simp
    then have "quorum_for vals honest log Prevote h lr x" using precommit_has_lock [OF g v] dl by blast
    then show ?thesis using le new [OF dl d(3)] d(4) by auto
  next
    case False
    then obtain vr where vr: "pol = Some vr" "lr \<le> vr" "vr \<le> rd"
      using c l by (auto simp: claim_prevote_def split: option.splits if_splits)
    have "ve_round e \<le> vr" using le vr(2) by simp
    then show ?thesis using pol [OF vr(1)] vr(3) by blast
  qed
qed


section \<open>A node and the log\<close>

lemma tally_sound_mono: "tally_sound A t \<Longrightarrow> (\<And>a h r x. A a h r x \<Longrightarrow> B a h r x) \<Longrightarrow> tally_sound B t"
  unfolding tally_sound_def by fast

lemma db_sound_mono:
  "db_sound V C db \<Longrightarrow> (\<And>a h r x. V a h r x \<Longrightarrow> V' a h r x) \<Longrightarrow> (\<And>a h r x. C a h r x \<Longrightarrow> C' a h r x) \<Longrightarrow> db_sound V' C' db"
  unfolding db_sound_def pols_sound_def finality_sound_def rows_sound_def by fast

definition log_sound :: "address set \<Rightarrow> vote_log \<Rightarrow> 'p engine \<Rightarrow> bool" where
  "log_sound honest log en \<longleftrightarrow>
    tally_sound (voted_in honest log Prevote) (en_prevote_tallies en) \<and> votes_sound (voted_in honest log Precommit) (en_tallies en) \<and>
    db_sound (voted_in honest log Prevote) (voted_in honest log Precommit) (en_db en)"

lemma log_sound_mono: "log_sound honest log en \<Longrightarrow> set log \<subseteq> set log' \<Longrightarrow> log_sound honest log' en"
proof -
  assume s: "log_sound honest log en" and sub: "set log \<subseteq> set log'"
  note m = voted_in_mono [OF sub, of honest]
  show ?thesis unfolding log_sound_def votes_sound_def
  proof (intro conjI)
    show "tally_sound (voted_in honest log' Prevote) (en_prevote_tallies en)"
      by (rule tally_sound_mono [OF _ m]) (use s in \<open>simp_all add: log_sound_def\<close>)
    show "tally_sound (\<lambda>a h r k. voted_in honest log' Precommit a h r (fst k)) (en_tallies en)"
      by (rule tally_sound_mono [OF _ m]) (use s in \<open>simp_all add: log_sound_def votes_sound_def\<close>)
    show "db_sound (voted_in honest log' Prevote) (voted_in honest log' Precommit) (en_db en)"
      by (rule db_sound_mono [OF _ m m]) (use s in \<open>simp_all add: log_sound_def\<close>)
  qed
qed

definition signed_of :: "'p engine \<Rightarrow> signed_votes" where
  "signed_of en = (case en_identity en of Some (_, _, sv) \<Rightarrow> sv | None \<Rightarrow> \<lparr> sv_genesis = [], sv_floor = 0, sv_entries = [] \<rparr>)"

definition node_ok :: "address set \<Rightarrow> vote_log \<Rightarrow> address \<Rightarrow> 'p engine \<Rightarrow> bool" where
  "node_ok honest log v en \<longleftrightarrow>
    (\<exists>key. en_identity en = Some (v, key, signed_of en)) \<and> record_ok v log (signed_of en) \<and> log_sound honest log en"

text \<open>What a call of an honest node's engine leaves: its new votes logged in order, and log and node in good state.\<close>

definition new_votes :: "address \<Rightarrow> 'p engine \<Rightarrow> 'p engine \<Rightarrow> vote_log" where
  "new_votes v en en' = map (Pair v) (drop (length (sv_entries (signed_of en))) (sv_entries (signed_of en')))"

definition votes_well :: "(nat \<Rightarrow> validator_set) \<Rightarrow> address set \<Rightarrow> address \<Rightarrow> vote_log \<Rightarrow> 'p engine \<Rightarrow> 'p engine \<Rightarrow> bool" where
  "votes_well vals honest v log en en' \<longleftrightarrow>
    (\<exists>new. sv_entries (signed_of en') = sv_entries (signed_of en) @ new) \<and>
    good_log vals honest (log @ new_votes v en en') \<and> node_ok honest (log @ new_votes v en en') v en'"

lemma votes_well_refl: "good_log vals honest log \<Longrightarrow> node_ok honest log v en \<Longrightarrow> votes_well vals honest v log en en"
  by (simp add: votes_well_def new_votes_def)

lemma votes_well_trans:
  assumes "votes_well vals honest v log en en1" "votes_well vals honest v (log @ new_votes v en en1) en1 en2"
  shows "votes_well vals honest v log en en2"
proof -
  obtain n1 where n1: "sv_entries (signed_of en1) = sv_entries (signed_of en) @ n1" using assms(1) by (auto simp: votes_well_def)
  obtain n2 where n2: "sv_entries (signed_of en2) = sv_entries (signed_of en1) @ n2" using assms(2) by (auto simp: votes_well_def)
  have "new_votes v en en2 = new_votes v en en1 @ new_votes v en1 en2" by (simp add: new_votes_def n1 n2)
  then show ?thesis using assms(2) n1 n2 by (auto simp: votes_well_def)
qed

text \<open>A change of the engine that leaves the record and what the log must back alone.\<close>

lemma votes_well_update:
  assumes "votes_well vals honest v log en en'" "en_identity en'' = en_identity en'"
    and "en_prevote_tallies en'' = en_prevote_tallies en'" "en_tallies en'' = en_tallies en'" "en_db en'' = en_db en'"
  shows "votes_well vals honest v log en en''"
  using assms by (simp add: votes_well_def new_votes_def node_ok_def log_sound_def signed_of_def)

text \<open>An engine whose record took one claim, with everything backed by the log with that vote.\<close>

lemma votes_well_claim:
  assumes g: "good_log vals honest log" and n: "node_ok honest log v en" and v: "v \<in> honest"
    and c: "claim d (signed_of en) kind h r x = Ok sv'"
    and id: "en_identity en' = Some (v, key, sv')"
    and f: "sv' \<noteq> signed_of en \<Longrightarrow> vote_follows vals honest log v \<lparr> ve_kind = kind, ve_height = h, ve_round = r, ve_hash = x \<rparr>"
    and s: "\<And>log'. set log \<subseteq> set log' \<Longrightarrow> (v, \<lparr> ve_kind = kind, ve_height = h, ve_round = r, ve_hash = x \<rparr>) \<in> set log' \<Longrightarrow>
        log_sound honest log' en'"
  shows "votes_well vals honest v log en en'"
proof -
  let ?e = "\<lparr> ve_kind = kind, ve_height = h, ve_round = r, ve_hash = x \<rparr>"
  have rec: "record_ok v log (signed_of en)" using n by (simp add: node_ok_def)
  have sv: "signed_of en' = sv'" by (simp add: signed_of_def id)
  from claim_logs [OF rec c] consider "sv' = signed_of en" "(v, ?e) \<in> set log" |
      "sv_entries sv' = sv_entries (signed_of en) @ [?e]" "record_ok v (log @ [(v, ?e)]) sv'" by blast
  then show ?thesis
  proof cases
    case 1
    have "log_sound honest log en'" by (rule s) (use 1 in simp_all)
    then show ?thesis using 1 g rec by (simp add: votes_well_def new_votes_def node_ok_def sv id)
  next
    case 2
    have nv: "new_votes v en en' = [(v, ?e)]" by (simp add: new_votes_def sv 2(1))
    have "sv' \<noteq> signed_of en" using 2(1) by auto
    then have "good_log vals honest (log @ [(v, ?e)])" by (intro good_log_snoc g f)
    moreover have "log_sound honest (log @ [(v, ?e)]) en'" by (rule s) auto
    ultimately show ?thesis using 2 by (auto simp: votes_well_def nv node_ok_def sv id)
  qed
qed


lemma claim_prevote_claim: "claim_prevote d sv h r x pol = Ok sv' \<Longrightarrow> claim d sv Prevote h r x = Ok sv'"
  by (auto simp: claim_prevote_def split: option.splits if_splits)

lemma voted_inI: "(a, \<lparr> ve_kind = k, ve_height = h, ve_round = r, ve_hash = x \<rparr>) \<in> set log \<Longrightarrow> voted_in honest log k a h r x"
  by (simp add: voted_in_def)

text \<open>What a call that signed looks like.\<close>

lemma prevote_cases:
  assumes "prevote env durable h r x pol en = (en', res)" "en_identity en = Some (v, key, sv)"
  obtains "en' = en" | "en' = en\<lparr> en_refused := insert (Prevote, h, r) (en_refused en) \<rparr>" |
    sv' vote db t eq where "claim_prevote (durable Prevote) sv h r x pol = Ok sv'"
      "vt_height vote = h" "vt_round vote = r" "vt_block_hash vote = x" "vt_voter vote = v"
      "tally_prevote env (en_db en) (en_prevote_tallies en) vote = (db, t, eq)"
      "en_identity en' = Some (v, key, sv')" "en_db en' = db" "en_prevote_tallies en' = t" "en_tallies en' = en_tallies en"
proof (cases "map_of (en_my_prevotes en) (h, r) \<noteq> None \<or> (Prevote, h, r) \<in> en_refused en")
  case True
  then show ?thesis using assms that(1) by (auto simp: prevote_def)
next
  case False
  show ?thesis
  proof (cases "claim_prevote (durable Prevote) sv h r x pol")
    case (Ok sv')
    let ?vote = "\<lparr> vt_height = h, vt_round = r, vt_block_hash = x, vt_voter = v,
      vt_signature = fe_sign env key (prevote_signing_bytes (en_genesis en) h r x) \<rparr>"
    obtain db t eq where t: "tally_prevote env (en_db en) (en_prevote_tallies en) ?vote = (db, t, eq)" by (metis prod_cases3)
    show ?thesis
      by (rule that(3) [OF Ok, of ?vote db t eq])
        (use assms False Ok t in \<open>auto simp: prevote_def Let_def split: if_splits\<close>)
  qed (use assms False that(2) in \<open>auto simp: prevote_def\<close>)
qed

lemma prevote_well:
  assumes g: "good_log vals honest log" and n: "node_ok honest log v en" and v: "v \<in> honest"
    and p: "prevote env durable h r x pol en = (en', res)"
    and pol: "\<And>vr. pol = Some vr \<Longrightarrow> quorum_for vals honest log Prevote h vr x"
  shows "votes_well vals honest v log en en'"
proof -
  obtain key where id: "en_identity en = Some (v, key, signed_of en)" and rec: "record_ok v log (signed_of en)"
    and ls: "log_sound honest log en" using n by (auto simp: node_ok_def)
  note refl = votes_well_refl [OF g n]
  from p id show ?thesis
  proof (cases rule: prevote_cases)
    case 1
    then show ?thesis using refl by simp
  next
    case 2
    show ?thesis by (rule votes_well_update [OF refl]) (simp_all add: 2)
  next
    case (3 sv' vote db t eq)
    have c: "claim (durable Prevote) (signed_of en) Prevote h r x = Ok sv'" by (rule claim_prevote_claim [OF 3(1)])
    show ?thesis
    proof (rule votes_well_claim [OF g n v c 3(7)])
      assume "sv' \<noteq> signed_of en"
      then have new: "\<And>e'. (v, e') \<in> set log \<Longrightarrow> ve_height e' = h \<Longrightarrow> \<not> (ve_kind e' = Prevote \<and> ve_round e' = r) \<and> ve_round e' \<le> r"
        using claim_logs [OF rec c] by auto
      have "\<exists>vr. ve_round e' \<le> vr \<and> vr \<le> r \<and> quorum_for vals honest log Prevote h vr x"
        if "(v, e') \<in> set log" "ve_kind e' = Precommit" "ve_height e' = h" "ve_hash e' \<noteq> x" for e'
        using claim_prevote_lock [OF rec g v 3(1) pol that] new by blast
      then show "vote_follows vals honest log v \<lparr> ve_kind = Prevote, ve_height = h, ve_round = r, ve_hash = x \<rparr>"
        unfolding vote_follows_def using new by auto
    next
      fix log' assume l: "set log \<subseteq> set log'" "(v, \<lparr> ve_kind = Prevote, ve_height = h, ve_round = r, ve_hash = x \<rparr>) \<in> set log'"
      have s: "log_sound honest log' en" by (rule log_sound_mono [OF ls l(1)])
      have "prevote_backed env (voted_in honest log' Prevote) (en_db en) vote"
        using voted_inI [OF l(2)] by (simp add: prevote_backed_def 3(2-5))
      from tally_prevote_db [OF 3(6) _ _ this, where C = "voted_in honest log' Precommit"] s show "log_sound honest log' en'"
        by (simp add: log_sound_def 3(8-10))
    qed
  qed
qed

lemma precommit_cases:
  assumes "precommit env durable b r en = (en', res)" "en_identity en = Some (v, key, sv)"
  obtains "en' = en" | "en' = en\<lparr> en_refused := insert (Precommit, b_height b, r) (en_refused en) \<rparr>" |
    sv' vote db t mine mine' eq where "claim_precommit (durable Precommit) sv (b_height b) r (fe_block_hash env b) = Ok sv'"
      "pc_height vote = b_height b" "pc_round vote = r" "pc_block_hash vote = fe_block_hash env b" "pc_voter vote = v"
      "tally_vote env (en_db en) (en_tallies en) mine vote = (db, t, mine', eq)"
      "en_identity en' = Some (v, key, sv')" "en_db en' = db" "en_tallies en' = t" "en_prevote_tallies en' = en_prevote_tallies en"
proof (cases "map_of (en_my_votes en) (b_height b, r) \<noteq> None \<or> (Precommit, b_height b, r) \<in> en_refused en")
  case True
  then show ?thesis using assms that(1) by (auto simp: precommit_def Let_def)
next
  case False
  show ?thesis
  proof (cases "claim_precommit (durable Precommit) sv (b_height b) r (fe_block_hash env b)")
    case (Ok sv')
    let ?ep = "block_ep env (en_db en) b"
    let ?vote = "\<lparr> pc_height = b_height b, pc_round = r, pc_block_hash = fe_block_hash env b, pc_voter = v,
      pc_signature = fe_sign env key (precommit_signing_bytes (en_genesis en) (b_height b) r (fe_block_hash env b) ?ep), pc_ep = ?ep \<rparr>"
    obtain db t mine' eq where t: "tally_vote env (en_db en) (en_tallies en) (bt_insert (b_height b, r) ?vote (en_my_votes en)) ?vote = (db, t, mine', eq)"
      by (metis prod_cases4)
    show ?thesis
      by (rule that(3) [OF Ok, of ?vote _ db t mine' eq, OF _ _ _ _ t])
        (use assms False Ok t in \<open>auto simp: precommit_def Let_def split: if_splits\<close>)
  qed (use assms False that(2) in \<open>auto simp: precommit_def Let_def\<close>)
qed

lemma precommit_well:
  assumes g: "good_log vals honest log" and n: "node_ok honest log v en" and v: "v \<in> honest"
    and p: "precommit env durable b r en = (en', res)"
    and q: "quorum_for vals honest log Prevote (b_height b) r (fe_block_hash env b)"
  shows "votes_well vals honest v log en en'"
proof -
  obtain key where id: "en_identity en = Some (v, key, signed_of en)" and rec: "record_ok v log (signed_of en)"
    and ls: "log_sound honest log en" using n by (auto simp: node_ok_def)
  note refl = votes_well_refl [OF g n]
  from p id show ?thesis
  proof (cases rule: precommit_cases)
    case 1
    then show ?thesis using refl by simp
  next
    case 2
    show ?thesis by (rule votes_well_update [OF refl]) (simp_all add: 2)
  next
    case (3 sv' vote db t mine mine' eq)
    note c = 3(1) [unfolded claim_precommit_def]
    show ?thesis
    proof (rule votes_well_claim [OF g n v c 3(7)])
      assume "sv' \<noteq> signed_of en"
      then show "vote_follows vals honest log v \<lparr> ve_kind = Precommit, ve_height = b_height b, ve_round = r, ve_hash = fe_block_hash env b \<rparr>"
        using claim_logs [OF rec c] q unfolding vote_follows_def by auto
    next
      fix log' assume l: "set log \<subseteq> set log'"
        "(v, \<lparr> ve_kind = Precommit, ve_height = b_height b, ve_round = r, ve_hash = fe_block_hash env b \<rparr>) \<in> set log'"
      have s: "log_sound honest log' en" by (rule log_sound_mono [OF ls l(1)])
      have "precommit_backed env (voted_in honest log' Precommit) (en_db en) vote"
        using voted_inI [OF l(2)] by (simp add: precommit_backed_def 3(2-5))
      from tally_vote_db [OF 3(6) _ _ this, where V = "voted_in honest log' Prevote"] s show "log_sound honest log' en'"
        by (simp add: log_sound_def 3(8-10))
    qed
  qed
qed


lemma timeout_cases:
  assumes "timeout env durable h r x en = (en', res)" "en_identity en = Some (v, key, sv)"
  obtains "en' = en" | "en' = en\<lparr> en_refused := insert (Timeout, h, r) (en_refused en) \<rparr>" |
    sv' vote db t where "claim_timeout (durable Timeout) sv h r x = Ok sv'"
      "tally_round_timeout env (en_db en) (en_timeout_tallies en) vote = (db, t)"
      "en_identity en' = Some (v, key, sv')" "en_db en' = db" "en_prevote_tallies en' = en_prevote_tallies en" "en_tallies en' = en_tallies en"
proof (cases "map_of (en_my_timeouts en) (h, r) \<noteq> None \<or> (Timeout, h, r) \<in> en_refused en")
  case True
  then show ?thesis using assms that(1) by (auto simp: timeout_def)
next
  case False
  show ?thesis
  proof (cases "claim_timeout (durable Timeout) sv h r x")
    case (Ok sv')
    let ?vote = "\<lparr> rt_height = h, rt_round = r, rt_voter = v,
      rt_signature = fe_sign env key (round_timeout_signing_bytes (en_genesis en) h r x) \<rparr>"
    obtain db t where t: "tally_round_timeout env (en_db en) (en_timeout_tallies en) ?vote = (db, t)" by (metis prod.exhaust)
    show ?thesis
      by (rule that(3) [OF Ok t]) (use assms False Ok t in \<open>auto simp: timeout_def Let_def split: if_splits\<close>)
  qed (use assms False that(2) in \<open>auto simp: timeout_def\<close>)
qed

lemma timeout_well:
  assumes g: "good_log vals honest log" and n: "node_ok honest log v en" and v: "v \<in> honest"
    and p: "timeout env durable h r x en = (en', res)"
  shows "votes_well vals honest v log en en'"
proof -
  obtain key where id: "en_identity en = Some (v, key, signed_of en)" and rec: "record_ok v log (signed_of en)"
    and ls: "log_sound honest log en" using n by (auto simp: node_ok_def)
  note refl = votes_well_refl [OF g n]
  from p id show ?thesis
  proof (cases rule: timeout_cases)
    case 1
    then show ?thesis using refl by simp
  next
    case 2
    show ?thesis by (rule votes_well_update [OF refl]) (simp_all add: 2)
  next
    case (3 sv' vote db t)
    note c = 3(1) [unfolded claim_timeout_def]
    show ?thesis
    proof (rule votes_well_claim [OF g n v c 3(3)])
      assume "sv' \<noteq> signed_of en"
      then show "vote_follows vals honest log v \<lparr> ve_kind = Timeout, ve_height = h, ve_round = r, ve_hash = x \<rparr>"
        using claim_logs [OF rec c] unfolding vote_follows_def by auto
    next
      fix log' assume l: "set log \<subseteq> set log'" "(v, \<lparr> ve_kind = Timeout, ve_height = h, ve_round = r, ve_hash = x \<rparr>) \<in> set log'"
      have s: "log_sound honest log' en" by (rule log_sound_mono [OF ls l(1)])
      then show "log_sound honest log' en'"
        using tally_round_timeout_db [OF 3(2), of "voted_in honest log' Prevote" "voted_in honest log' Precommit"]
        by (simp add: log_sound_def 3(4-6))
    qed
  qed
qed

lemma also_sign_well:
  assumes "votes_well vals honest v log en (fst st)"
    and "\<And>en1 en2 res. en1 = fst st \<Longrightarrow> good_log vals honest (log @ new_votes v en en1) \<Longrightarrow> node_ok honest (log @ new_votes v en en1) v en1 \<Longrightarrow>
      call en1 = (en2, res) \<Longrightarrow> votes_well vals honest v (log @ new_votes v en en1) en1 en2"
  shows "votes_well vals honest v log en (fst (also_sign call st))"
proof -
  obtain en1 r1 where st: "st = (en1, r1)" by (cases st)
  obtain en2 r2 where c: "call en1 = (en2, r2)" by (cases "call en1")
  have w1: "votes_well vals honest v log en en1" using assms(1) st by simp
  have "votes_well vals honest v (log @ new_votes v en en1) en1 en2"
    by (rule assms(2) [OF _ _ _ c]) (use w1 st in \<open>simp_all add: votes_well_def\<close>)
  then have w2: "votes_well vals honest v log en en2" by (rule votes_well_trans [OF w1])
  show ?thesis using w1 w2 st c by (cases r1; cases r2) (simp_all add: also_sign_def)
qed

text \<open>A stored lock is a quorum of prevotes.\<close>

definition certified_by :: "(nat \<Rightarrow> validator_set) \<Rightarrow> 'p chain_db \<Rightarrow> bool" where
  "certified_by vals db \<longleftrightarrow>
    (\<forall>(_, p)\<in>set (cd_pols db). quorum_reached (vals (pl_height p)) (pl_signers p)) \<and>
    (\<forall>(_, f)\<in>set (cd_finality db). quorum_reached (vals (fr_height f)) (fr_signers f))"

lemma stored_lock:
  assumes "db_sound (voted_in honest log Prevote) C db" "certified_by vals db" "get_highest_pol db h = Some p"
  shows "pl_height p = h \<and> quorum_for vals honest log Prevote h (pl_round p) (pl_block_hash p)"
proof -
  from last_row_mem [OF assms(3) [unfolded get_highest_pol_def]] obtain k where k: "(k, p) \<in> set (cd_pols db)" "fst k = h"
    by (auto simp: case_prod_beta)
  have q: "quorum_reached (vals (pl_height p)) (pl_signers p)" using assms(2) k(1) unfolding certified_by_def by blast
  have "k = (pl_height p, pl_round p)" "\<forall>a\<in>set (pl_signers p). voted_in honest log Prevote a (pl_height p) (pl_round p) (pl_block_hash p)"
    using assms(1) k(1) unfolding db_sound_def pols_sound_def by blast+
  then show ?thesis using q k(2) unfolding quorum_for_def by auto
qed


lemma sign_votes_well:
  assumes g: "good_log vals honest log" and n: "node_ok honest log v en" and v: "v \<in> honest"
    and held: "\<And>b. held = Some b \<Longrightarrow> b_height b = h" "\<And>b p. held = Some b \<Longrightarrow> pol = Some p \<Longrightarrow> fe_block_hash env b = pl_block_hash p"
    and pol: "\<And>p. pol = Some p \<Longrightarrow> quorum_for vals honest log Prevote h (pl_round p) (pl_block_hash p)"
  shows "votes_well vals honest v log en (fst (sign_votes env durable h round pol held en))"
proof (cases held)
  case None
  then show ?thesis using votes_well_refl [OF g n] by (simp add: sign_votes_def)
next
  case (Some b)
  define st where "st = (case pol of Some p \<Rightarrow> if pl_block_hash p = fe_block_hash env b then precommit env durable b (pl_round p) en else (en, Ok False)
                   | None \<Rightarrow> (en, Ok False))"
  have st: "votes_well vals honest v log en (fst st)"
  proof (cases pol)
    case (Some p)
    then have st: "st = precommit env durable b (pl_round p) en" using held(2) \<open>held = Some b\<close> by (simp add: st_def)
    obtain en1 r1 where c: "precommit env durable b (pl_round p) en = (en1, r1)" by (cases "precommit env durable b (pl_round p) en")
    have "votes_well vals honest v log en en1"
      by (rule precommit_well [OF g n v c]) (use pol [OF Some] held \<open>held = Some b\<close> Some in simp)
    then show ?thesis using st c by simp
  qed (simp add: st_def votes_well_refl [OF g n])
  show ?thesis
  proof (cases "pol \<noteq> None \<or> b_round b = round")
    case True
    have "votes_well vals honest v log en
        (fst (also_sign (prevote env durable h round (fe_block_hash env b) (map_option pl_round pol)) st))"
    proof (rule also_sign_well [OF st])
      fix en1 en2 res
      assume a: "good_log vals honest (log @ new_votes v en en1)" "node_ok honest (log @ new_votes v en en1) v en1"
        and c: "prevote env durable h round (fe_block_hash env b) (map_option pl_round pol) en1 = (en2, res)"
      show "votes_well vals honest v (log @ new_votes v en en1) en1 en2"
      proof (rule prevote_well [OF a v c])
        fix vr assume "map_option pl_round pol = Some vr"
        then obtain p where p: "pol = Some p" "pl_round p = vr" by auto
        then have "quorum_for vals honest log Prevote h vr (fe_block_hash env b)" using pol held(2) [OF Some p(1)] by auto
        then show "quorum_for vals honest (log @ new_votes v en en1) Prevote h vr (fe_block_hash env b)"
          by (rule quorum_for_mono [rotated]) simp
      qed
    qed
    then show ?thesis using True Some by (simp add: sign_votes_def Let_def st_def)
  next
    case False
    then show ?thesis using st Some by (simp add: sign_votes_def Let_def st_def)
  qed
qed

lemma adopt_round_db:
  assumes "adopt_round held round db = (db', round')"
  shows "(db_sound V C db' \<longleftrightarrow> db_sound V C db) \<and> cd_pols db' = cd_pols db \<and> cd_finality db' = cd_finality db \<and>
    (\<forall>h. get_validator_set_at db' h = get_validator_set_at db h)"
proof -
  have "db' = db \<or> (\<exists>cert. db' = write_round_certificate cert db)"
    using assms by (auto simp: adopt_round_def split: option.splits if_splits)
  moreover have "cd_pols (write_round_certificate cert db) = cd_pols db \<and> cd_finality (write_round_certificate cert db) = cd_finality db \<and>
      (\<forall>h. get_validator_set_at (write_round_certificate cert db) h = get_validator_set_at db h)" for cert
    by (simp add: write_round_certificate_def get_validator_set_at_def)
  ultimately show ?thesis by auto
qed

lemma filed_height: "db_sound V C db \<Longrightarrow> get_block db h = Some b \<Longrightarrow> b_height b = h"
  unfolding db_sound_def blocks_filed_def get_block_def by (drule map_of_SomeD) fast

lemma swap_for_locked_Ok:
  assumes "swap_for_locked env h pol held db = Ok (db', held')" "db_sound V C db"
  shows "db_sound V C db' \<and> (held' = None \<or> held' = held) \<and>
    (\<forall>b p. held' = Some b \<and> pol = Some p \<longrightarrow> fe_block_hash env b = pl_block_hash p)"
proof -
  have "db_sound V C db'" if "revert_to (h - 1) db = Ok db'"
    using db_sound_revert [OF assms(2), of "h - 1"] that by (simp add: revert_or_keep_def)
  then show ?thesis using assms by (auto simp: swap_for_locked_def split: option.splits if_splits)
qed

lemma node_ok_db:
  assumes "node_ok honest log v en" "db_sound (voted_in honest log Prevote) (voted_in honest log Precommit) db"
    and "en_identity en' = en_identity en" "en_prevote_tallies en' = en_prevote_tallies en" "en_tallies en' = en_tallies en" "en_db en' = db"
  shows "node_ok honest log v en'"
  using assms by (simp add: node_ok_def log_sound_def signed_of_def)

lemma votes_well_from:
  assumes "votes_well vals honest v log en1 en'" "en_identity en1 = en_identity en"
  shows "votes_well vals honest v log en en'"
  using assms by (simp add: votes_well_def new_votes_def signed_of_def)

text \<open>A step does nothing, or takes the round in force and votes from the state it left.\<close>

definition step_votes :: "'p fin_env \<Rightarrow> (vote_kind \<Rightarrow> bool) \<Rightarrow> nat \<Rightarrow> nat \<Rightarrow> nat \<Rightarrow> string \<Rightarrow> pol_record option \<Rightarrow> 'p block option \<Rightarrow>
    'p engine \<Rightarrow> 'p stepped" where
  "step_votes env durable wait h rd parent_hash pol held en =
    also_sign (\<lambda>en. if timeout_for rd \<le> wait \<and> get_round_certificate (en_db en) h rd = None
        then timeout env durable h rd parent_hash en else (en, Ok False))
      (sign_votes env durable h rd pol held en)"

lemma try_step_cases:
  fixes en :: "'p engine"
  obtains "fst (try_step env durable now en) = en" |
    rd0 db1 rd start db2 held parent where
      "adopt_round (get_block (en_db en) (Suc (cd_watermark (en_db en)))) rd0 (en_db en) = (db1, rd)"
      "fst (try_step env durable now en) = en\<lparr> en_db := db1, en_round_clock := Some (Suc (cd_watermark (en_db en)), rd, start) \<rparr> \<or>
       swap_for_locked env (Suc (cd_watermark (en_db en))) (get_highest_pol db1 (Suc (cd_watermark (en_db en))))
         (get_block (en_db en) (Suc (cd_watermark (en_db en)))) db1 = Ok (db2, held) \<and>
       try_step env durable now en =
         step_votes env durable (now - start) (Suc (cd_watermark (en_db en))) rd parent (get_highest_pol db1 (Suc (cd_watermark (en_db en)))) held
           (en\<lparr> en_round_clock := Some (Suc (cd_watermark (en_db en)), rd, start), en_db := db2 \<rparr>)"
proof -
  let ?h = "Suc (cd_watermark (en_db en))" let ?held = "get_block (en_db en) ?h"
  show thesis
  proof (cases "?h < unwrap_or 0 (cd_tip (en_db en)) \<or> get_finality_record (en_db en) ?h \<noteq> None \<or>
      get_block (en_db en) (?h - 1) = None \<or> (\<forall>r. current_round (en_db en) ?h \<noteq> Ok r)")
    case True
    then have "fst (try_step env durable now en) = en"
      by (auto simp: try_step_def Let_def split: option.splits result.splits)
    then show thesis by (rule that(1))
  next
    case False
    then obtain parent rd0 where p: "get_block (en_db en) (?h - 1) = Some parent" "current_round (en_db en) ?h = Ok rd0" by auto
    obtain db1 rd where ad: "adopt_round ?held rd0 (en_db en) = (db1, rd)" by (cases "adopt_round ?held rd0 (en_db en)")
    let ?start = "round_start en ?h rd now" let ?pol = "get_highest_pol db1 ?h"
    show thesis
    proof (cases "swap_for_locked env ?h ?pol ?held db1")
      case (Ok x)
      obtain db2 held where x: "x = (db2, held)" by (cases x)
      show thesis
        by (rule that(2) [OF ad, of ?start db2 held "fe_block_hash env parent"])
          (use False p ad Ok x in \<open>simp add: try_step_def Let_def step_votes_def\<close>)
    qed (rule that(2) [OF ad, of ?start], use False p ad in \<open>simp add: try_step_def Let_def\<close>)+
  qed
qed

lemma step_votes_well:
  assumes "good_log vals honest log" "node_ok honest log v en" and v: "v \<in> honest"
    and "\<And>b. held = Some b \<Longrightarrow> b_height b = h" "\<And>b p. held = Some b \<Longrightarrow> pol = Some p \<Longrightarrow> fe_block_hash env b = pl_block_hash p"
    and "\<And>p. pol = Some p \<Longrightarrow> quorum_for vals honest log Prevote h (pl_round p) (pl_block_hash p)"
  shows "votes_well vals honest v log en (fst (step_votes env durable wait h rd x pol held en))"
  unfolding step_votes_def
proof (rule also_sign_well)
  show "votes_well vals honest v log en (fst (sign_votes env durable h rd pol held en))" by (rule sign_votes_well [OF assms])
next
  fix en3 en4 res
  assume a: "good_log vals honest (log @ new_votes v en en3)" "node_ok honest (log @ new_votes v en en3) v en3"
    and c: "(if timeout_for rd \<le> wait \<and> get_round_certificate (en_db en3) h rd = None
         then timeout env durable h rd x en3 else (en3, Ok False)) = (en4, res)"
  show "votes_well vals honest v (log @ new_votes v en en3) en3 en4"
    using c timeout_well [OF a v] votes_well_refl [OF a] by (auto split: if_splits)
qed

lemma try_step_well:
  assumes g: "good_log vals honest log" and n: "node_ok honest log v en" and v: "v \<in> honest" and cert: "certified_by vals (en_db en)"
  shows "votes_well vals honest v log en (fst (try_step env durable now en))"
proof (cases rule: try_step_cases [of env durable now en])
  case 1
  then show ?thesis using votes_well_refl [OF g n] by simp
next
  case (2 rd0 db1 rd start db2 held parent)
  let ?V = "voted_in honest log Prevote" and ?C = "voted_in honest log Precommit" and ?h = "Suc (cd_watermark (en_db en))"
  let ?en1 = "en\<lparr> en_db := db1, en_round_clock := Some (?h, rd, start) \<rparr>"
    and ?en2 = "en\<lparr> en_round_clock := Some (?h, rd, start), en_db := db2 \<rparr>"
  have db: "db_sound ?V ?C (en_db en)" using n by (simp add: node_ok_def log_sound_def)
  have db1: "db_sound ?V ?C db1" "certified_by vals db1" using adopt_round_db [OF 2(1)] db cert by (auto simp: certified_by_def)
  have n1: "node_ok honest log v ?en1" by (rule node_ok_db [OF n db1(1)]) simp_all
  from 2(2) show ?thesis
  proof
    assume "fst (try_step env durable now en) = ?en1"
    then show ?thesis using votes_well_from [OF votes_well_refl [OF g n1], of en] by simp
  next
    assume "swap_for_locked env ?h (get_highest_pol db1 ?h) (get_block (en_db en) ?h) db1 = Ok (db2, held) \<and>
       try_step env durable now en = step_votes env durable (now - start) ?h rd parent (get_highest_pol db1 ?h) held ?en2"
    then have sw: "swap_for_locked env ?h (get_highest_pol db1 ?h) (get_block (en_db en) ?h) db1 = Ok (db2, held)"
      and ts: "try_step env durable now en = step_votes env durable (now - start) ?h rd parent (get_highest_pol db1 ?h) held ?en2"
      by blast+
    note sw = swap_for_locked_Ok [OF sw db1(1)]
    have filed: "b_height b = ?h" if "held = Some b" for b using sw that filed_height [OF db] by auto
    have n2: "node_ok honest log v ?en2" by (rule node_ok_db [OF n, of db2]) (use sw in simp_all)
    have "votes_well vals honest v log ?en2 (fst (try_step env durable now en))"
      unfolding ts by (rule step_votes_well [OF g n2 v filed]) (use sw stored_lock [OF db1] in auto)
    then show ?thesis by (rule votes_well_from) simp
  qed
qed

end
