(* ===== verification/Agreement.thy ===== *)
theory Agreement
  imports Vote_Log
begin

text \<open>
  Agreement: two different blocks are never final at one height (\<^verbatim>\<open>src/docs/consensus-safety.md\<close>, section 3), proved of the
  engine of theory \<open>Finality\<close> and the vote record of theory \<open>Signed_Votes\<close>.

  The network is a step relation over the nodes of the honest validators. A step delivers any event to a node, lets a node
  run \<open>try_step\<close>, replaces a node's database by any other whose certificates are genuine (blocks accepted, certificates
  synced, a backup restored), or restarts a node from its vote file. The other validators do not appear: they may sign
  anything, so their signatures are there whenever a message needs them. Two things are assumed of a run, as guards of its
  steps: a signature of an honest validator that verifies is over a vote it recorded (BLS signatures are not forged, and the
  engine records before it signs), and an honest node that counts a vote has the validator set of that height, \<open>vals\<close>.
\<close>

section \<open>Certificates carry a quorum\<close>

lemma certified_by_sub:
  "certified_by vals db \<Longrightarrow> set (cd_pols db') \<subseteq> set (cd_pols db) \<Longrightarrow> set (cd_finality db') \<subseteq> set (cd_finality db) \<Longrightarrow> certified_by vals db'"
  unfolding certified_by_def by blast

lemma certified_by_cong:
  "cd_pols db' = cd_pols db \<Longrightarrow> cd_finality db' = cd_finality db \<Longrightarrow> certified_by vals db' \<longleftrightarrow> certified_by vals db"
  unfolding certified_by_def by simp

lemma certified_by_pol:
  assumes "certified_by vals db" "quorum_reached (vals (pl_height p)) (pl_signers p)"
  shows "certified_by vals (write_pol p db)"
proof -
  have "case e of (_, p) \<Rightarrow> quorum_reached (vals (pl_height p)) (pl_signers p)" if "e \<in> set (cd_pols (write_pol p db))" for e
    using bt_insert_cases [of e "(pl_height p, pl_round p)" p "cd_pols db"] that assms
    unfolding write_pol_def certified_by_def by auto
  then show ?thesis using assms(1) by (simp add: certified_by_def write_pol_def)
qed

lemma certified_by_finality:
  assumes "certified_by vals db" "quorum_reached (vals (fr_height f)) (fr_signers f)"
  shows "certified_by vals (write_finality_record f db)"
proof -
  have "case e of (_, f) \<Rightarrow> quorum_reached (vals (fr_height f)) (fr_signers f)" if "e \<in> set (cd_finality (write_finality_record f db))" for e
    using bt_insert_cases [of e "fr_height f" f "cd_finality db"] that assms
    unfolding write_finality_record_def certified_by_def by auto
  then show ?thesis using assms(1) by (simp add: certified_by_def write_finality_record_def)
qed

lemma certified_by_revert: "certified_by vals db \<Longrightarrow> certified_by vals (revert_or_keep h db)"
proof (cases "revert_to h db")
  case (Ok db')
  assume "certified_by vals db"
  then have "certified_by vals db'" by (rule certified_by_sub) (use revert_frame [OF Ok] in auto)
  then show ?thesis using Ok by (simp add: revert_or_keep_def)
qed (simp_all add: revert_or_keep_def)

lemma certified_by_enforce: "certified_by vals db \<Longrightarrow> certified_by vals (enforce_certificate env f db)"
  by (simp add: enforce_certificate_def certified_by_revert split: option.split)

lemma certified_by_unwind: "certified_by vals db \<Longrightarrow> certified_by vals (unwind_dead_tip env cert db)"
  by (simp add: unwind_dead_tip_def certified_by_revert split: option.split)

lemma certified_by_rows [simp]:
  "certified_by vals (write_round_certificate cert db) \<longleftrightarrow> certified_by vals db"
  "certified_by vals (write_round_timeout_vote rv db) \<longleftrightarrow> certified_by vals db"
  "certified_by vals (write_dissent d db) \<longleftrightarrow> certified_by vals db"
  "certified_by vals (write_precommit_vote v db) \<longleftrightarrow> certified_by vals db"
  "certified_by vals (delete_precommit_votes h db) \<longleftrightarrow> certified_by vals db"
  "certified_by vals (delete_round_timeout_votes h r db) \<longleftrightarrow> certified_by vals db"
  "certified_by vals (delete_round_timeout_votes_through h db) \<longleftrightarrow> certified_by vals db"
  by (rule certified_by_cong; simp add: write_round_certificate_def write_round_timeout_vote_def write_dissent_def write_precommit_vote_def
      delete_precommit_votes_def delete_round_timeout_votes_def delete_round_timeout_votes_through_def)+

lemma certified_by_delete_pols: "certified_by vals db \<Longrightarrow> certified_by vals (delete_pols_through h db)"
  by (erule certified_by_sub) (auto simp: delete_pols_through_def)

text \<open>Tallying with the set of the height certifies nothing that lacks a quorum of it.\<close>

lemma tally_prevote_certified:
  assumes "tally_prevote env db t vote = (db', t', eq)" "certified_by vals db"
    and "get_finality_record db (vt_height vote) = None \<Longrightarrow> get_validator_set_at db (vt_height vote) = vals (vt_height vote)"
  shows "certified_by vals db'"
  using assms unfolding tally_prevote_def Let_def
  by (auto split: if_splits option.splits intro!: certified_by_pol)

lemma tally_timeout_certified:
  assumes "tally_round_timeout env db t vote = (db', t')" "certified_by vals db"
  shows "certified_by vals db'"
  using assms unfolding tally_round_timeout_def Let_def
  by (auto split: if_splits option.splits intro!: certified_by_unwind)

lemma handle_dissent_certified: "handle_dissent env db d = (db', rs) \<Longrightarrow> certified_by vals db \<Longrightarrow> certified_by vals db'"
  by (auto simp: handle_dissent_def Let_def split: if_splits)

text \<open>After a precommit is tallied the height is final, or the validator sets are what they were.\<close>

lemma revert_or_keep_finality: "cd_finality (revert_or_keep h db) = cd_finality db"
  by (cases "revert_to h db") (simp_all add: revert_or_keep_def revert_frame)

lemma enforce_finality: "cd_finality (enforce_certificate env f db) = cd_finality db"
  by (simp add: enforce_certificate_def revert_or_keep_finality split: option.split)

lemma enforced_record:
  "fr_height f = k \<Longrightarrow> get_finality_record (enforce_certificate env f (delete_precommit_votes h (write_finality_record f d))) k = Some f"
  by (auto simp: get_finality_record_def enforce_finality delete_precommit_votes_def write_finality_record_def)

lemma precommit_row_reads [simp]:
  "cd_validator_sets (write_precommit_vote v db) = cd_validator_sets db"
  "get_validator_set_at (write_precommit_vote v db) = get_validator_set_at db"
  "get_bls_pubkey_at (write_precommit_vote v db) = get_bls_pubkey_at db"
  by (simp_all add: fun_eq_iff write_precommit_vote_def get_validator_set_at_def get_bls_pubkey_at_def)

lemma tally_vote_sets:
  "tally_vote env db t mine vote = (db', t', mine', eq) \<Longrightarrow>
   get_finality_record db' (pc_height vote) \<noteq> None \<or> cd_validator_sets db' = cd_validator_sets db"
  unfolding tally_vote_def Let_def by (auto simp: enforced_record split: if_splits option.splits)

lemma tally_vote_certified:
  assumes "tally_vote env db t mine vote = (db', t', mine', eq)" "certified_by vals db"
    and "get_finality_record db (pc_height vote) = None \<Longrightarrow> get_validator_set_at db (pc_height vote) = vals (pc_height vote)"
  shows "certified_by vals db'"
  using assms unfolding tally_vote_def Let_def
  by (auto split: if_splits option.splits intro!: certified_by_enforce certified_by_finality)

text \<open>The three calls that sign, at a height whose set the node has.\<close>

lemma set_at_cong: "cd_validator_sets db' = cd_validator_sets db \<Longrightarrow> get_validator_set_at db' h = get_validator_set_at db h"
  by (simp add: get_validator_set_at_def)

lemma precommit_certified:
  assumes "precommit env durable b r en = (en', res)" "en_identity en = Some (v, key, sv)" "certified_by vals (en_db en)"
    and set: "get_validator_set_at (en_db en) (b_height b) = vals (b_height b)"
  shows "certified_by vals (en_db en') \<and>
    (get_finality_record (en_db en') (b_height b) \<noteq> None \<or> cd_validator_sets (en_db en') = cd_validator_sets (en_db en))"
  using assms(1,2)
proof (cases rule: precommit_cases)
  case (3 sv' vote db t mine mine' eq)
  show ?thesis using tally_vote_certified [OF 3(6) assms(3)] tally_vote_sets [OF 3(6)] set by (simp add: 3(2,8))
qed (use assms(3) in simp_all)

lemma prevote_certified:
  assumes "prevote env durable h r x pol en = (en', res)" "en_identity en = Some (v, key, sv)" "certified_by vals (en_db en)"
    and "get_finality_record (en_db en) h \<noteq> None \<or> get_validator_set_at (en_db en) h = vals h"
  shows "certified_by vals (en_db en')"
  using assms(1,2)
proof (cases rule: prevote_cases)
  case (3 sv' vote db t eq)
  show ?thesis using tally_prevote_certified [OF 3(6) assms(3)] assms(4) by (auto simp: 3(2,8))
qed (use assms(3) in simp_all)

lemma timeout_certified:
  assumes "timeout env durable h r x en = (en', res)" "en_identity en = Some (v, key, sv)" "certified_by vals (en_db en)"
  shows "certified_by vals (en_db en')"
  using assms(1,2)
proof (cases rule: timeout_cases)
  case (3 sv' vote db t)
  show ?thesis using tally_timeout_certified [OF 3(2) assms(3)] by (simp add: 3(4))
qed (use assms(3) in simp_all)

text \<open>A call keeps the validator's identity.\<close>

definition has_identity :: "address \<Rightarrow> 'p engine \<Rightarrow> bool" where
  "has_identity v en \<longleftrightarrow> (\<exists>key sv. en_identity en = Some (v, key, sv))"

lemma signing_keeps_identity:
  "prevote env durable h r x pol en = (en', res) \<Longrightarrow> has_identity v en \<Longrightarrow> has_identity v en'"
  "precommit env durable b r en = (en', res) \<Longrightarrow> has_identity v en \<Longrightarrow> has_identity v en'"
  "timeout env durable h r x en = (en', res) \<Longrightarrow> has_identity v en \<Longrightarrow> has_identity v en'"
  unfolding has_identity_def
  by (elim exE, erule prevote_cases, assumption, simp_all)
    (elim exE, erule precommit_cases, assumption, simp_all,
     elim exE, erule timeout_cases, assumption, simp_all)

lemma also_sign_certified:
  assumes "certified_by vals (en_db (fst st)) \<and> has_identity v (fst st)"
    and "\<And>en' res. call (fst st) = (en', res) \<Longrightarrow> certified_by vals (en_db en') \<and> has_identity v en'"
  shows "certified_by vals (en_db (fst (also_sign call st))) \<and> has_identity v (fst (also_sign call st))"
proof -
  obtain en1 r1 where st: "st = (en1, r1)" by (cases st)
  obtain en2 r2 where c: "call en1 = (en2, r2)" by (cases "call en1")
  show ?thesis using assms(1) assms(2) [of en2 r2] st c by (cases r1; cases r2) (simp_all add: also_sign_def)
qed

lemma sign_votes_certified:
  assumes c: "certified_by vals (en_db en)" and i: "has_identity v en"
    and held: "\<And>b. held = Some b \<Longrightarrow> b_height b = h \<and> get_validator_set_at (en_db en) h = vals h"
  shows "certified_by vals (en_db (fst (sign_votes env durable h round pol held en))) \<and>
    has_identity v (fst (sign_votes env durable h round pol held en))"
proof (cases held)
  case None
  then show ?thesis using c i by (simp add: sign_votes_def)
next
  case (Some b)
  define st where "st = (case pol of Some p \<Rightarrow> if pl_block_hash p = fe_block_hash env b then precommit env durable b (pl_round p) en else (en, Ok False)
                   | None \<Rightarrow> (en, Ok False))"
  obtain key sv where id: "en_identity en = Some (v, key, sv)" using i by (auto simp: has_identity_def)
  note b = held [OF Some]
  obtain en1 r1 where st1: "st = (en1, r1)" by (cases st)
  have st: "certified_by vals (en_db en1) \<and> has_identity v en1 \<and>
      (get_finality_record (en_db en1) h \<noteq> None \<or> cd_validator_sets (en_db en1) = cd_validator_sets (en_db en))"
  proof (cases "\<exists>p. pol = Some p \<and> pl_block_hash p = fe_block_hash env b")
    case True
    then obtain p where "pol = Some p" "pl_block_hash p = fe_block_hash env b" by blast
    then have "precommit env durable b (pl_round p) en = (en1, r1)" using st1 by (simp add: st_def)
    from precommit_certified [OF this id c] signing_keeps_identity(2) [OF this i] show ?thesis using b by auto
  next
    case False
    then have "en1 = en" using st1 by (auto simp: st_def split: option.splits if_splits)
    then show ?thesis using c i by simp
  qed
  have "certified_by vals (en_db en2) \<and> has_identity v en2"
    if p: "prevote env durable h round (fe_block_hash env b) (map_option pl_round pol) en1 = (en2, res)" for en2 res
  proof -
    obtain key1 sv1 where "en_identity en1 = Some (v, key1, sv1)" using st by (auto simp: has_identity_def)
    then have "certified_by vals (en_db en2)"
      by (rule prevote_certified [OF p]) (use st b set_at_cong [of "en_db en1" "en_db en" h] in auto)
    then show ?thesis using signing_keeps_identity(1) [OF p] st by blast
  qed
  then have "certified_by vals (en_db (fst (also_sign (prevote env durable h round (fe_block_hash env b) (map_option pl_round pol)) st))) \<and>
      has_identity v (fst (also_sign (prevote env durable h round (fe_block_hash env b) (map_option pl_round pol)) st))"
    by (intro also_sign_certified) (use st st1 in auto)
  then show ?thesis using st st1 Some by (auto simp: sign_votes_def Let_def st_def)
qed

lemma step_votes_certified:
  assumes "certified_by vals (en_db en)" "has_identity v en"
    and "\<And>b. held = Some b \<Longrightarrow> b_height b = h \<and> get_validator_set_at (en_db en) h = vals h"
  shows "certified_by vals (en_db (fst (step_votes env durable wait h rd x pol held en)))"
proof -
  let ?st = "sign_votes env durable h rd pol held en"
  note st = sign_votes_certified [OF assms, where env = env and durable = durable and round = rd and pol = pol and held = held]
  have "certified_by vals (en_db en') \<and> has_identity v en'"
    if c: "(if timeout_for rd \<le> wait \<and> get_round_certificate (en_db (fst ?st)) h rd = None
        then timeout env durable h rd x (fst ?st) else (fst ?st, Ok False)) = (en', res)" for en' res
  proof (cases "timeout_for rd \<le> wait \<and> get_round_certificate (en_db (fst ?st)) h rd = None")
    case True
    then have t: "timeout env durable h rd x (fst ?st) = (en', res)" using c by simp
    obtain key sv where "en_identity (fst ?st) = Some (v, key, sv)" using st by (auto simp: has_identity_def)
    from timeout_certified [OF t this] signing_keeps_identity(3) [OF t] st show ?thesis by blast
  qed (use c st in auto)
  then have "certified_by vals (en_db (fst (step_votes env durable wait h rd x pol held en))) \<and>
      has_identity v (fst (step_votes env durable wait h rd x pol held en))"
    unfolding step_votes_def by (intro also_sign_certified st)
  then show ?thesis by blast
qed

lemma swap_for_locked_certified:
  assumes "swap_for_locked env h pol held db = Ok (db', held')" "certified_by vals db"
  shows "certified_by vals db' \<and> (db' = db \<or> held' = None)"
proof -
  have "certified_by vals db'" if "revert_to (h - 1) db = Ok db'"
    using certified_by_revert [OF assms(2), of "h - 1"] that by (simp add: revert_or_keep_def)
  then show ?thesis using assms by (auto simp: swap_for_locked_def split: option.splits if_splits)
qed

lemma try_step_certified:
  assumes i: "has_identity v en" and c: "certified_by vals (en_db en)" and s: "db_sound V C (en_db en)"
    and set: "get_validator_set_at (en_db en) (Suc (cd_watermark (en_db en))) = vals (Suc (cd_watermark (en_db en)))"
  shows "certified_by vals (en_db (fst (try_step env durable now en)))"
proof (cases rule: try_step_cases [of env durable now en])
  case (2 rd0 db1 rd start db2 held parent)
  let ?h = "Suc (cd_watermark (en_db en))"
  let ?en2 = "en\<lparr> en_round_clock := Some (?h, rd, start), en_db := db2 \<rparr>"
  have ad: "cd_pols db1 = cd_pols (en_db en)" "cd_finality db1 = cd_finality (en_db en)" "get_validator_set_at db1 ?h = get_validator_set_at (en_db en) ?h"
    "db_sound V C db1" using adopt_round_db [OF 2(1)] s by auto
  have c1: "certified_by vals db1" using c certified_by_cong [OF ad(1,2)] by simp
  from 2(2) show ?thesis
  proof
    assume "swap_for_locked env ?h (get_highest_pol db1 ?h) (get_block (en_db en) ?h) db1 = Ok (db2, held) \<and>
       try_step env durable now en = step_votes env durable (now - start) ?h rd parent (get_highest_pol db1 ?h) held ?en2"
    then have sw: "swap_for_locked env ?h (get_highest_pol db1 ?h) (get_block (en_db en) ?h) db1 = Ok (db2, held)"
      and ts: "try_step env durable now en = step_votes env durable (now - start) ?h rd parent (get_highest_pol db1 ?h) held ?en2"
      by blast+
    note sc = swap_for_locked_certified [OF sw c1] and so = swap_for_locked_Ok [OF sw ad(4)]
    have held: "b_height b = ?h \<and> get_validator_set_at (en_db ?en2) ?h = vals ?h" if "held = Some b" for b
      using that sc so filed_height [OF s] ad(3) set by auto
    show ?thesis unfolding ts
      by (rule step_votes_certified [where v = v]) (use sc i held in \<open>auto simp: has_identity_def\<close>)
  qed (use c1 in simp)
qed (use c in simp)

section \<open>Events, pruning and restarts\<close>

lemma fold_keeps: "(\<And>x d. x \<in> set xs \<Longrightarrow> P d \<Longrightarrow> P (f x d)) \<Longrightarrow> P d \<Longrightarrow> P (fold f xs d)"
  by (induction xs arbitrary: d) auto

definition genuine :: "(nat \<Rightarrow> validator_set) \<Rightarrow> address set \<Rightarrow> vote_log \<Rightarrow> 'p chain_db \<Rightarrow> bool" where
  "genuine vals honest log db \<longleftrightarrow> db_sound (voted_in honest log Prevote) (voted_in honest log Precommit) db \<and> certified_by vals db"

text \<open>What an event brings: an admitted vote is one its voter cast, and the node has the height's validator set.\<close>

fun event_ok :: "'p fin_env \<Rightarrow> (nat \<Rightarrow> validator_set) \<Rightarrow> address set \<Rightarrow> vote_log \<Rightarrow> 'p chain_db \<Rightarrow> 'p finality_event \<Rightarrow> bool" where
  "event_ok env vals honest log db (PrevoteObserved vote) \<longleftrightarrow>
    prevote_backed env (voted_in honest log Prevote) db vote \<and> get_validator_set_at db (vt_height vote) = vals (vt_height vote)"
| "event_ok env vals honest log db (VoteObserved vote) \<longleftrightarrow>
    precommit_backed env (voted_in honest log Precommit) db vote \<and> get_validator_set_at db (pc_height vote) = vals (pc_height vote)"
| "event_ok env vals honest log db _ \<longleftrightarrow> True"

text \<open>Pruning only takes rows of votes and locks away.\<close>

definition prunes_to :: "'p chain_db \<Rightarrow> 'p chain_db \<Rightarrow> bool" where
  "prunes_to db db' \<longleftrightarrow> set (cd_pols db') \<subseteq> set (cd_pols db) \<and> set (cd_precommits db') \<subseteq> set (cd_precommits db) \<and>
    cd_finality db' = cd_finality db \<and> cd_blocks db' = cd_blocks db \<and> cd_undo db' = cd_undo db \<and> cd_genesis db' = cd_genesis db \<and>
    cd_validator_sets db' = cd_validator_sets db \<and> cd_bls_history db' = cd_bls_history db"

lemma prunes_to_refl: "prunes_to db db"
  by (simp add: prunes_to_def)

lemma prunes_to_deletes:
  "prunes_to db d \<Longrightarrow> prunes_to db (delete_precommit_votes h d)"
  "prunes_to db d \<Longrightarrow> prunes_to db (delete_round_timeout_votes h r d)"
  "prunes_to db d \<Longrightarrow> prunes_to db (delete_round_timeout_votes_through h d)"
  "prunes_to db d \<Longrightarrow> prunes_to db (delete_pols_through h d)"
  by (auto simp: prunes_to_def delete_precommit_votes_def delete_round_timeout_votes_def delete_round_timeout_votes_through_def delete_pols_through_def)

lemma prune_engine_db: "prunes_to (en_db en) (en_db (prune_engine en))"
proof -
  let ?stale = "fold delete_precommit_votes (filter (\<lambda>h. h < saturating_sub (en_highest_seen en) TALLY_RETENTION_HEIGHTS)
      (map (\<lambda>((h, _), _). h) (en_tallies en))) (en_db en)"
  have "prunes_to (en_db en) ?stale" by (rule fold_keeps) (auto intro: prunes_to_deletes prunes_to_refl)
  then show ?thesis unfolding prune_engine_def Let_def
    by (auto intro!: fold_keeps [where P = "prunes_to (en_db en)"] prunes_to_deletes)
qed

lemma genuine_prunes: "genuine vals honest log db \<Longrightarrow> prunes_to db db' \<Longrightarrow> genuine vals honest log db'"
proof -
  assume g: "genuine vals honest log db" and p: "prunes_to db db'"
  have "db_sound (voted_in honest log Prevote) (voted_in honest log Precommit) db'"
    by (rule db_sound_sub [where db = db]) (use g p blocks_filed_cong [of db' db] in \<open>auto simp: genuine_def prunes_to_def db_sound_def\<close>)
  moreover have "certified_by vals db'"
    by (rule certified_by_sub [where db = db]) (use g p in \<open>auto simp: genuine_def prunes_to_def\<close>)
  ultimately show ?thesis by (simp add: genuine_def)
qed

lemma event_ok_prunes: "event_ok env vals honest log db ev \<Longrightarrow> prunes_to db db' \<Longrightarrow> event_ok env vals honest log db' ev"
proof -
  assume e: "event_ok env vals honest log db ev" and p: "prunes_to db db'"
  have "get_validator_set_at db' = get_validator_set_at db" "get_bls_pubkey_at db' = get_bls_pubkey_at db" "cd_genesis db' = cd_genesis db"
    using p by (simp_all add: fun_eq_iff prunes_to_def get_bls_pubkey_at_def get_validator_set_at_def)
  note eqs = this
  have "vote_admitted env db' = vote_admitted env db" by (simp add: fun_eq_iff vote_admitted_def eqs split: option.split)
  then show ?thesis using e eqs by (cases ev) (simp_all add: prevote_backed_def precommit_backed_def)
qed

definition node_good :: "(nat \<Rightarrow> validator_set) \<Rightarrow> address set \<Rightarrow> vote_log \<Rightarrow> address \<Rightarrow> 'p engine \<Rightarrow> bool" where
  "node_good vals honest log v en \<longleftrightarrow> node_ok honest log v en \<and> certified_by vals (en_db en)"

lemma node_good_genuine:
  "node_good vals honest log v en \<longleftrightarrow>
    (\<exists>key. en_identity en = Some (v, key, signed_of en)) \<and> record_ok v log (signed_of en) \<and>
    tally_sound (voted_in honest log Prevote) (en_prevote_tallies en) \<and> votes_sound (voted_in honest log Precommit) (en_tallies en) \<and>
    genuine vals honest log (en_db en)"
  by (auto simp: node_good_def node_ok_def log_sound_def genuine_def)

lemma prune_engine_good:
  assumes "node_good vals honest log v en"
  shows "node_good vals honest log v (prune_engine en)"
    "signed_of (prune_engine en) = prune_below (signed_of en) (saturating_sub (en_highest_seen en) TALLY_RETENTION_HEIGHTS)"
proof -
  let ?c = "saturating_sub (en_highest_seen en) TALLY_RETENTION_HEIGHTS"
  obtain key where id: "en_identity en = Some (v, key, signed_of en)" using assms by (auto simp: node_good_genuine)
  have id': "en_identity (prune_engine en) = Some (v, key, prune_below (signed_of en) ?c)" by (simp add: prune_engine_def Let_def id)
  then show sg: "signed_of (prune_engine en) = prune_below (signed_of en) ?c" by (simp add: signed_of_def)
  have t: "en_tallies (prune_engine en) = filter (\<lambda>((h, _), _). ?c \<le> h) (en_tallies en)" by (simp add: prune_engine_def Let_def)
  have "\<exists>P. en_prevote_tallies (prune_engine en) = filter P (en_prevote_tallies en)" by (auto simp: prune_engine_def Let_def)
  then have pt: "tally_sound (voted_in honest log Prevote) (en_prevote_tallies (prune_engine en))"
    using assms tally_sound_filter by (auto simp: node_good_genuine)
  have "genuine vals honest log (en_db (prune_engine en))"
    using assms by (intro genuine_prunes [OF _ prune_engine_db]) (simp add: node_good_genuine)
  then show "node_good vals honest log v (prune_engine en)"
    unfolding node_good_genuine using assms id' sg record_ok_prune votes_sound_filter pt by (simp add: node_good_genuine t)
qed

lemma handle_event_good:
  assumes n: "node_good vals honest log v en" and e: "event_ok env vals honest log (en_db en) ev"
  shows "node_good vals honest log v (handle_event env ev en)"
proof -
  let ?en = "prune_engine en"
  note g = prune_engine_good(1) [OF n] and ev = event_ok_prunes [OF e prune_engine_db]
  have keep: "node_good vals honest log v en'" if "en_identity en' = en_identity ?en" "tally_sound (voted_in honest log Prevote) (en_prevote_tallies en')"
    "votes_sound (voted_in honest log Precommit) (en_tallies en')" "genuine vals honest log (en_db en')" for en'
    using g that by (auto simp: node_good_genuine signed_of_def)
  have gs: "tally_sound (voted_in honest log Prevote) (en_prevote_tallies ?en)" "votes_sound (voted_in honest log Precommit) (en_tallies ?en)"
    "db_sound (voted_in honest log Prevote) (voted_in honest log Precommit) (en_db ?en)" "certified_by vals (en_db ?en)"
    using g by (simp_all add: node_good_genuine genuine_def)
  show ?thesis
  proof (cases ev)
    case (BlockObserved b)
    have "node_good vals honest log v (en\<lparr> en_highest_seen := max (en_highest_seen en) (b_height b) \<rparr>)"
      using n by (auto simp: node_good_genuine signed_of_def)
    then show ?thesis using BlockObserved prune_engine_good(1) by simp
  next
    case (PrevoteObserved vote)
    obtain db t eq where t: "tally_prevote env (en_db ?en) (en_prevote_tallies ?en) vote = (db, t, eq)" by (metis prod_cases3)
    have "tally_sound (voted_in honest log Prevote) t \<and> genuine vals honest log db"
      using tally_prevote_db [OF t gs(1,3)] tally_prevote_certified [OF t gs(4)] ev by (simp add: PrevoteObserved genuine_def)
    then show ?thesis using t gs by (intro keep) (simp_all add: PrevoteObserved Let_def)
  next
    case (VoteObserved vote)
    obtain db t mine eq where t: "tally_vote env (en_db ?en) (en_tallies ?en) (en_my_votes ?en) vote = (db, t, mine, eq)" by (metis prod_cases4)
    have "votes_sound (voted_in honest log Precommit) t \<and> genuine vals honest log db"
      using tally_vote_db [OF t gs(2,3)] tally_vote_certified [OF t gs(4)] ev by (simp add: VoteObserved genuine_def)
    then show ?thesis using t gs by (intro keep) (simp_all add: VoteObserved Let_def)
  next
    case (DissentObserved d)
    obtain db rs where t: "handle_dissent env (en_db ?en) d = (db, rs)" by fastforce
    have "genuine vals honest log db"
      using handle_dissent_db [OF t gs(3)] handle_dissent_certified [OF t gs(4)] by (simp add: genuine_def)
    then show ?thesis using t gs by (intro keep) (simp_all add: DissentObserved Let_def)
  next
    case (RoundTimeoutObserved vote)
    obtain db t' where t: "tally_round_timeout env (en_db ?en) (en_timeout_tallies ?en) vote = (db, t')" by fastforce
    have "genuine vals honest log db"
      using tally_round_timeout_db [OF t gs(3)] tally_timeout_certified [OF t gs(4)] by (simp add: genuine_def)
    then show ?thesis using t gs by (intro keep) (simp_all add: RoundTimeoutObserved Let_def)
  qed
qed

text \<open>A restart tallies what the database kept and takes the record from the file.\<close>

lemma reload_precommits_good:
  assumes "rows_sound C (en_db en)" "en_tallies en = []"
  shows "votes_sound C (en_tallies (reload_precommits en)) \<and> en_db (reload_precommits en) = en_db en \<and>
    en_identity (reload_precommits en) = en_identity en \<and> en_prevote_tallies (reload_precommits en) = en_prevote_tallies en"
proof -
  define rs where "rs = get_precommit_votes_from (en_db en) 0"
  let ?P = "\<lambda>e. votes_sound C (en_tallies e) \<and> en_db e = en_db en \<and> en_identity e = en_identity en \<and> en_prevote_tallies e = en_prevote_tallies en"
  have rs: "C (pv_voter r) (pv_height r) (pv_round r) (pv_block_hash r)" if "r \<in> set rs" for r
    using that assms(1) unfolding rs_def get_precommit_votes_from_def rows_sound_def by auto
  have "?P (tally_reloaded_vote r (reload_own_precommit r e))" if "r \<in> set rs" "?P e" for r e
    using that votes_sound_insert [of C _ "pv_voter r", OF _ rs [OF that(1)]] by (simp add: tally_reloaded_vote_def reload_own_precommit_def Let_def)
  moreover have "?P (en\<lparr> en_highest_seen := k \<rparr>)" for k using assms(2) by (simp add: votes_sound_def tally_sound_def)
  ultimately show ?thesis unfolding reload_precommits_def Let_def rs_def [symmetric]
    by (intro fold_keeps [where P = ?P]) simp_all
qed

lemma reload_timeouts_frame:
  "en_tallies (reload_timeouts en) = en_tallies en \<and> en_db (reload_timeouts en) = en_db en \<and>
   en_identity (reload_timeouts en) = en_identity en \<and> en_prevote_tallies (reload_timeouts en) = en_prevote_tallies en"
proof -
  let ?P = "\<lambda>e. en_tallies e = en_tallies en \<and> en_db e = en_db en \<and> en_identity e = en_identity en \<and> en_prevote_tallies e = en_prevote_tallies en"
  show ?thesis unfolding reload_timeouts_def Let_def
    by (rule fold_keeps [where P = ?P]) (simp_all add: tally_reloaded_timeout_def reload_own_timeout_def)
qed

lemma reload_good:
  assumes "genuine vals honest log db" "record_ok v log sv"
  shows "node_good vals honest log v (reload (fresh_engine db (Some (v, key, sv))))"
    "signed_of (reload (fresh_engine db (Some (v, key, sv)))) = sv"
proof -
  let ?en = "fresh_engine db (Some (v, key, sv))" let ?e1 = "reload_precommits ?en"
  have r: "votes_sound (voted_in honest log Precommit) (en_tallies ?e1) \<and> en_db ?e1 = en_db ?en \<and> en_identity ?e1 = en_identity ?en \<and>
      en_prevote_tallies ?e1 = en_prevote_tallies ?en"
    by (rule reload_precommits_good) (use assms(1) in \<open>simp_all add: fresh_engine_def genuine_def db_sound_def\<close>)
  have f: "en_tallies (reload ?en) = en_tallies ?e1 \<and> en_db (reload ?en) = db \<and> en_identity (reload ?en) = Some (v, key, sv) \<and>
      en_prevote_tallies (reload ?en) = []"
    using r reload_timeouts_frame [of "reload_dissents ?e1"] by (simp add: reload_def reload_dissents_def fresh_engine_def)
  then show s: "signed_of (reload ?en) = sv" by (simp add: signed_of_def)
  show "node_good vals honest log v (reload ?en)"
    unfolding node_good_genuine using assms r f s by (simp add: tally_sound_def)
qed

section \<open>The network\<close>

record 'p node =
  nd_engine :: "'p engine"
  nd_disk :: signed_votes

record 'p net =
  nt_log :: vote_log
  nt_nodes :: "address \<Rightarrow> 'p node"

abbreviation node_db :: "'p net \<Rightarrow> address \<Rightarrow> 'p chain_db" where
  "node_db s v \<equiv> en_db (nd_engine (nt_nodes s v))"

definition set_node :: "'p net \<Rightarrow> address \<Rightarrow> 'p engine \<Rightarrow> signed_votes \<Rightarrow> 'p net" where
  "set_node s v en disk = s\<lparr> nt_nodes := (nt_nodes s)(v := \<lparr> nd_engine = en, nd_disk = disk \<rparr>) \<rparr>"

text \<open>
  The start: empty vote files and databases without votes. An event prunes the record, and the file follows or, where it
  cannot be written, does not. A step that claimed a vote wrote the file. A database is replaced, or a node restarted on
  one, only by a database whose certificates and pending votes are genuine.
\<close>

definition node_start :: "address \<Rightarrow> 'p chain_db \<Rightarrow> string \<Rightarrow> string \<Rightarrow> 'p node" where
  "node_start v db key genesis =
    (let sv = \<lparr> sv_genesis = genesis, sv_floor = 0, sv_entries = [] \<rparr>
     in \<lparr> nd_engine = reload (fresh_engine db (Some (v, key, sv))), nd_disk = sv \<rparr>)"

definition no_votes :: "'p chain_db \<Rightarrow> bool" where
  "no_votes db \<longleftrightarrow> cd_pols db = [] \<and> cd_finality db = [] \<and> cd_precommits db = [] \<and> blocks_filed db"

definition net_start :: "address set \<Rightarrow> 'p net \<Rightarrow> bool" where
  "net_start honest s \<longleftrightarrow> nt_log s = [] \<and> (\<forall>v\<in>honest. \<exists>db key genesis. no_votes db \<and> nt_nodes s v = node_start v db key genesis)"

inductive net_step :: "'p fin_env \<Rightarrow> (nat \<Rightarrow> validator_set) \<Rightarrow> address set \<Rightarrow> 'p net \<Rightarrow> 'p net \<Rightarrow> bool"
  for env :: "'p fin_env" and vals :: "nat \<Rightarrow> validator_set" and honest :: "address set" where
  Deliver: "v \<in> honest \<Longrightarrow> event_ok env vals honest (nt_log s) (node_db s v) ev \<Longrightarrow>
    en = handle_event env ev (nd_engine (nt_nodes s v)) \<Longrightarrow> disk = signed_of en \<or> disk = nd_disk (nt_nodes s v) \<Longrightarrow>
    net_step env vals honest s (set_node s v en disk)"
| Vote: "v \<in> honest \<Longrightarrow>
    get_validator_set_at (node_db s v) (Suc (cd_watermark (node_db s v))) = vals (Suc (cd_watermark (node_db s v))) \<Longrightarrow>
    en = fst (try_step env durable now (nd_engine (nt_nodes s v))) \<Longrightarrow> new = new_votes v (nd_engine (nt_nodes s v)) en \<Longrightarrow>
    disk = (if new = [] then nd_disk (nt_nodes s v) else signed_of en) \<Longrightarrow>
    net_step env vals honest s (set_node (s\<lparr> nt_log := nt_log s @ new \<rparr>) v en disk)"
| Replace: "v \<in> honest \<Longrightarrow> genuine vals honest (nt_log s) db \<Longrightarrow>
    net_step env vals honest s (set_node s v ((nd_engine (nt_nodes s v))\<lparr> en_db := db \<rparr>) (nd_disk (nt_nodes s v)))"
| Restart: "v \<in> honest \<Longrightarrow> genuine vals honest (nt_log s) db \<Longrightarrow>
    net_step env vals honest s (set_node s v (reload (fresh_engine db (Some (v, key, nd_disk (nt_nodes s v))))) (nd_disk (nt_nodes s v)))"

inductive_cases net_stepE: "net_step env vals honest s s'"

inductive net_run :: "'p fin_env \<Rightarrow> (nat \<Rightarrow> validator_set) \<Rightarrow> address set \<Rightarrow> 'p net \<Rightarrow> bool"
  for env :: "'p fin_env" and vals :: "nat \<Rightarrow> validator_set" and honest :: "address set" where
  Start: "net_start honest s \<Longrightarrow> net_run env vals honest s"
| Step: "net_run env vals honest s \<Longrightarrow> net_step env vals honest s s' \<Longrightarrow> net_run env vals honest s'"

definition net_ok :: "(nat \<Rightarrow> validator_set) \<Rightarrow> address set \<Rightarrow> 'p net \<Rightarrow> bool" where
  "net_ok vals honest s \<longleftrightarrow> good_log vals honest (nt_log s) \<and>
    (\<forall>v\<in>honest. node_good vals honest (nt_log s) v (nd_engine (nt_nodes s v)) \<and> record_ok v (nt_log s) (nd_disk (nt_nodes s v)))"

text \<open>Votes of one validator leave the records of the others as they are.\<close>

lemma record_ok_others: "record_ok w log sv \<Longrightarrow> w \<noteq> v \<Longrightarrow> record_ok w (log @ map (Pair v) es) sv"
  unfolding record_ok_def by auto

lemma node_good_others:
  assumes "node_good vals honest log w en" "w \<noteq> v"
  shows "node_good vals honest (log @ map (Pair v) es) w en"
  using assms log_sound_mono [of honest log en "log @ map (Pair v) es"] record_ok_others
  unfolding node_good_def node_ok_def by auto

lemma net_ok_set:
  assumes "net_ok vals honest s" "good_log vals honest (nt_log s @ map (Pair v) es)"
    and "node_good vals honest (nt_log s @ map (Pair v) es) v en" "record_ok v (nt_log s @ map (Pair v) es) disk"
  shows "net_ok vals honest (set_node (s\<lparr> nt_log := nt_log s @ map (Pair v) es \<rparr>) v en disk)"
proof -
  have "node_good vals honest (nt_log s @ map (Pair v) es) w (nd_engine (nt_nodes s w))"
    "record_ok w (nt_log s @ map (Pair v) es) (nd_disk (nt_nodes s w))" if "w \<in> honest" "w \<noteq> v" for w
    using assms(1) that by (auto simp: net_ok_def intro: node_good_others record_ok_others)
  then show ?thesis using assms(2-4) by (simp add: net_ok_def set_node_def)
qed

lemma net_ok_set_node:
  assumes "net_ok vals honest s" "node_good vals honest (nt_log s) v en" "record_ok v (nt_log s) disk"
  shows "net_ok vals honest (set_node s v en disk)"
  using assms by (simp add: net_ok_def set_node_def)

lemma record_ok_disk: "record_ok v log sv \<Longrightarrow> record_ok v log disk \<Longrightarrow> d = sv \<or> d = disk \<Longrightarrow> record_ok v log d"
  by blast

lemma net_step_ok: "net_step env vals honest s s' \<Longrightarrow> net_ok vals honest s \<Longrightarrow> net_ok vals honest s'"
proof (induction rule: net_step.induct)
  case (Deliver v s ev en disk)
  have n: "node_good vals honest (nt_log s) v (nd_engine (nt_nodes s v))" "record_ok v (nt_log s) (nd_disk (nt_nodes s v))"
    using Deliver by (simp_all add: net_ok_def)
  have g: "node_good vals honest (nt_log s) v en" using handle_event_good [OF n(1) Deliver(2)] Deliver(3) by simp
  then have "record_ok v (nt_log s) disk" using Deliver(4) n(2) by (auto simp: node_good_genuine)
  then show ?case by (rule net_ok_set_node [OF Deliver.prems g])
next
  case (Vote v s en durable now new disk)
  let ?en = "nd_engine (nt_nodes s v)"
  have n: "node_ok honest (nt_log s) v ?en" "certified_by vals (en_db ?en)" "record_ok v (nt_log s) (nd_disk (nt_nodes s v))"
    and g: "good_log vals honest (nt_log s)" using Vote by (simp_all add: net_ok_def node_good_def)
  have w: "votes_well vals honest v (nt_log s) ?en en" unfolding Vote(3) by (rule try_step_well [OF g n(1) Vote(1) n(2)])
  have c: "certified_by vals (en_db en)" unfolding Vote(3)
    by (rule try_step_certified [OF _ n(2) _ Vote(2)]) (use n(1) in \<open>auto simp: has_identity_def node_ok_def log_sound_def\<close>)
  obtain es where es: "new = map (Pair v) es" using Vote(4) by (simp add: new_votes_def)
  have wl: "good_log vals honest (nt_log s @ new)" "node_ok honest (nt_log s @ new) v en" using w Vote(4) by (simp_all add: votes_well_def)
  have "record_ok v (nt_log s @ new) disk" using wl(2) n(3) Vote(5) by (auto simp: node_ok_def)
  then show ?case using net_ok_set [OF Vote.prems wl(1) [unfolded es]] wl(2) c es by (simp add: node_good_def)
next
  case (Replace v s db)
  have "node_good vals honest (nt_log s) v (nd_engine (nt_nodes s v))" "record_ok v (nt_log s) (nd_disk (nt_nodes s v))"
    using Replace by (simp_all add: net_ok_def)
  then show ?case using Replace by (intro net_ok_set_node) (auto simp: node_good_genuine signed_of_def)
next
  case (Restart v s db key)
  have "record_ok v (nt_log s) (nd_disk (nt_nodes s v))" using Restart by (simp add: net_ok_def)
  then show ?case using Restart reload_good(1) by (intro net_ok_set_node)
qed

lemma net_start_ok: "net_start honest s \<Longrightarrow> net_ok vals honest s"
proof -
  assume s: "net_start honest s"
  have "node_good vals honest (nt_log s) v (nd_engine (nt_nodes s v)) \<and> record_ok v (nt_log s) (nd_disk (nt_nodes s v))" if v: "v \<in> honest" for v
  proof -
    obtain db key genesis where d: "no_votes db" "nt_nodes s v = node_start v db key genesis" "nt_log s = []"
      using s v unfolding net_start_def by blast
    have "genuine vals honest (nt_log s) db"
      using d(1) by (simp add: no_votes_def genuine_def db_sound_def pols_sound_def finality_sound_def rows_sound_def certified_by_def)
    moreover have "record_ok v (nt_log s) \<lparr> sv_genesis = genesis, sv_floor = 0, sv_entries = [] \<rparr>"
      using d(3) by (simp add: record_ok_def one_vote_per_round_def)
    ultimately show ?thesis using reload_good(1) by (simp add: d(2) node_start_def Let_def)
  qed
  then show ?thesis using s by (simp add: net_ok_def net_start_def)
qed

lemma net_run_ok: "net_run env vals honest s \<Longrightarrow> net_ok vals honest s"
  by (induction rule: net_run.induct) (auto intro: net_start_ok net_step_ok)

lemma node_final_quorum:
  assumes "net_ok vals honest s" "v \<in> honest" "get_finality_record (node_db s v) h = Some f"
  shows "quorum_for vals honest (nt_log s) Precommit h (fr_round f) (fr_block_hash f)"
proof -
  have g: "genuine vals honest (nt_log s) (node_db s v)" using assms(1,2) by (simp add: net_ok_def node_good_genuine)
  have m: "(h, f) \<in> set (cd_finality (node_db s v))" using assms(3) unfolding get_finality_record_def by (rule map_of_SomeD)
  then have "h = fr_height f \<and> (\<forall>a\<in>set (fr_signers f). voted_in honest (nt_log s) Precommit a (fr_height f) (fr_round f) (fr_block_hash f))"
    using g unfolding genuine_def db_sound_def finality_sound_def by blast
  moreover have "quorum_reached (vals (fr_height f)) (fr_signers f)" using g m unfolding genuine_def certified_by_def by blast
  ultimately show ?thesis unfolding quorum_for_def by blast
qed

section \<open>A concrete run\<close>

definition demo_env :: "unit fin_env" where
  "demo_env = \<lparr> fe_verify = \<lambda>_ _ _. True, fe_aggregate = \<lambda>_. Some ''agg'', fe_verify_aggregate = \<lambda>_ _ _. True, fe_sign = \<lambda>_ _. ''sig'',
     fe_block_hash = b_state_root, fe_sha = id \<rparr>"

definition demo_block :: "nat \<Rightarrow> string \<Rightarrow> unit block" where
  "demo_block h x = \<lparr> b_height = h, b_parent_hash = [], b_timestamp = 0, b_actions = [], b_tx_root = [], b_proposer = None, b_signature = None,
     b_parent_state_root = [], b_state_root = x, b_round = 0, b_round_certificate = None, b_build_id = [] \<rparr>"

definition demo_db :: "unit chain_db" where
  "demo_db = \<lparr> cd_genesis = ''gen'', cd_blocks = [(0, demo_block 0 ''b0''), (1, demo_block 1 ''b1'')], cd_hash_index = [(''b0'', 0), (''b1'', 1)],
     cd_tip = Some 1, cd_validator_sets = [(0, [(Address ''a'', 10000)])], cd_bls_history = [((Address ''a'', 0), ''pk'')], cd_weights = [],
     cd_root = [], cd_undo = [], cd_state = empty_view, cd_watermark = 0, cd_finality = [], cd_pols = [], cd_round_certs = [],
     cd_precommits = [], cd_round_timeouts = [], cd_dissents = [] \<rparr>"

definition demo_engine :: "unit engine" where
  "demo_engine = nd_engine (node_start (Address ''a'') demo_db ''k'' ''gen'')"

definition demo_step :: "unit engine \<Rightarrow> unit engine" where
  "demo_step en = fst (try_step demo_env (\<lambda>_. True) 0 en)"

lemma demo_engine:
  "demo_engine = fresh_engine demo_db (Some (Address ''a'', ''k'', \<lparr> sv_genesis = ''gen'', sv_floor = 0, sv_entries = [] \<rparr>))"
  by (simp add: demo_engine_def node_start_def Let_def fresh_engine_def reload_def reload_timeouts_def reload_dissents_def reload_precommits_def
    demo_db_def get_precommit_votes_from_def get_round_timeout_votes_from_def get_dissents_from_def highest_of_def)

lemma demo_a: "current_round demo_db (Suc 0) = Ok 0" "get_block demo_db 0 = Some (demo_block 0 ''b0'')" "get_block demo_db (Suc 0) = Some (demo_block 1 ''b1'')"
  "get_highest_pol demo_db (Suc 0) = None" "get_finality_record demo_db h = None" "get_validator_set_at demo_db (Suc 0) = [(Address ''a'', 10000)]"
  "get_bls_pubkey_at demo_db (Address ''a'') (Suc 0) = Some ''pk''"
  "get_round_certificate demo_db (Suc 0) 0 = None" "cd_watermark demo_db = 0" "cd_tip demo_db = Some 1" "cd_genesis demo_db = ''gen''"
  by (simp_all add: demo_db_def current_round_def last_row_def get_block_def get_highest_pol_def get_finality_record_def
    get_validator_set_at_def get_bls_pubkey_at_def get_round_certificate_def)

definition demo_db1 :: "unit chain_db" where
  "demo_db1 = demo_db\<lparr> cd_pols := [((1, 0), \<lparr> pl_height = 1, pl_round = 0, pl_block_hash = ''b1'', pl_signers = [Address ''a''],
     pl_aggregate_signature = ''agg'' \<rparr>)] \<rparr>"

lemma demo_db1:
  "demo_db\<lparr> cd_pols := bt_insert (Suc 0, 0) \<lparr> pl_height = Suc 0, pl_round = 0, pl_block_hash = ''b1'', pl_signers = [Address ''a''],
     pl_aggregate_signature = ''agg'' \<rparr> (cd_pols demo_db) \<rparr> = demo_db1"
  by (simp add: demo_db1_def demo_db_def bt_insert.simps)

lemma demo_b: "current_round demo_db1 (Suc 0) = Ok 0" "get_block demo_db1 0 = Some (demo_block 0 ''b0'')" "get_block demo_db1 (Suc 0) = Some (demo_block 1 ''b1'')"
  "get_highest_pol demo_db1 (Suc 0) = Some \<lparr> pl_height = 1, pl_round = 0, pl_block_hash = ''b1'', pl_signers = [Address ''a''], pl_aggregate_signature = ''agg'' \<rparr>"
  "get_finality_record demo_db1 h = None" "get_validator_set_at demo_db1 (Suc 0) = [(Address ''a'', 10000)]"
  "get_bls_pubkey_at demo_db1 (Address ''a'') (Suc 0) = Some ''pk''" "get_block_weight demo_db1 h = 0"
  "get_round_certificate demo_db1 (Suc 0) 0 = None" "cd_watermark demo_db1 = 0" "cd_tip demo_db1 = Some 1" "cd_genesis demo_db1 = ''gen''"
  by (simp_all add: demo_db1_def demo_db_def current_round_def last_row_def get_block_def get_highest_pol_def get_finality_record_def
    get_validator_set_at_def get_bls_pubkey_at_def get_round_certificate_def get_block_weight_def)

lemmas step_eval = try_step_def Let_def adopt_round_def swap_for_locked_def sign_votes_def also_sign_def
    demo_block_def demo_env_def round_start_def prevote_def precommit_def claim_prevote_def claim_precommit_def claim_def lock_def max_by_round_def
    tally_prevote_def tally_vote_def vote_admitted_def prior_prevote_def prior_precommit_def List.map_filter_simps aggregate_signers_def
    quorum_reached_def signed_power_def bt_keys_def timeout_for_def first_seen.simps bt_insert.simps QUORUM_POWER_def ROUND_TIMEOUT_def write_pol_def

lemma demo_first: "demo_step demo_engine =
   demo_engine\<lparr> en_db := demo_db1,
     en_identity := Some (Address ''a'', ''k'', \<lparr> sv_genesis = ''gen'', sv_floor = 0,
       sv_entries = [\<lparr> ve_kind = Prevote, ve_height = 1, ve_round = 0, ve_hash = ''b1'' \<rparr>] \<rparr>),
     en_prevote_tallies := [((1, 0), [(''b1'', [(Address ''a'', ''sig'')])])],
     en_my_prevotes := [((1, 0), \<lparr> vt_height = 1, vt_round = 0, vt_block_hash = ''b1'', vt_voter = Address ''a'', vt_signature = ''sig'' \<rparr>)],
     en_round_clock := Some (1, 0, 0),
     en_sent_prevotes := [\<lparr> vt_height = 1, vt_round = 0, vt_block_hash = ''b1'', vt_voter = Address ''a'', vt_signature = ''sig'' \<rparr>] \<rparr>"
  by (simp add: demo_step_def demo_engine fresh_engine_def demo_a step_eval demo_db1)

lemma demo_second:
  "\<exists>f. get_finality_record (en_db (demo_step (demo_step demo_engine))) 1 = Some f"
  unfolding demo_first unfolding demo_engine
  by (simp add: demo_step_def fresh_engine_def demo_b step_eval enforced_record)

definition demo_vals :: "nat \<Rightarrow> validator_set" where
  "demo_vals h = [(Address ''a'', 10000)]"

definition demo_net :: "unit net" where
  "demo_net = \<lparr> nt_log = [], nt_nodes = \<lambda>v. node_start v demo_db ''k'' ''gen'' \<rparr>"

lemma demo_start: "net_start {Address ''a'', Address ''b''} demo_net"
proof -
  have "no_votes demo_db" by (simp add: no_votes_def blocks_filed_def demo_db_def demo_block_def)
  then show ?thesis unfolding net_start_def by (auto simp: demo_net_def)
qed

lemma demo_faulty: "few_faulty demo_vals {Address ''a'', Address ''b''} 1"
  by (simp add: few_faulty_def full_set_def demo_vals_def bt_wf_def bt_keys_def signed_power_def List.map_filter_simps TOTAL_VOTING_POWER_def)

text \<open>Validator \<open>a\<close>, with all the power, prevotes and precommits block 1; validator \<open>b\<close> then syncs its database.\<close>

lemma demo_run:
  "\<exists>s. net_run demo_env demo_vals {Address ''a'', Address ''b''} s \<and>
    (Address ''a'', \<lparr> ve_kind = Prevote, ve_height = 1, ve_round = 0, ve_hash = ''b1'' \<rparr>) \<in> set (nt_log s) \<and>
    (\<exists>f. get_finality_record (node_db s (Address ''a'')) 1 = Some f \<and> get_finality_record (node_db s (Address ''b'')) 1 = Some f)"
proof -
  let ?a = "Address ''a''" and ?b = "Address ''b''"
  define e1 where "e1 = demo_step demo_engine"
  define e2 where "e2 = demo_step e1"
  define n1 where "n1 = new_votes ?a demo_engine e1"
  define s1 where "s1 = set_node (demo_net\<lparr> nt_log := nt_log demo_net @ n1 \<rparr>) ?a e1 (if n1 = [] then nd_disk (nt_nodes demo_net ?a) else signed_of e1)"
  define n2 where "n2 = new_votes ?a e1 e2"
  define s2 where "s2 = set_node (s1\<lparr> nt_log := nt_log s1 @ n2 \<rparr>) ?a e2 (if n2 = [] then nd_disk (nt_nodes s1 ?a) else signed_of e2)"
  define s3 where "s3 = set_node s2 ?b ((nd_engine (nt_nodes s2 ?b))\<lparr> en_db := node_db s2 ?a \<rparr>) (nd_disk (nt_nodes s2 ?b))"
  have r0: "net_run demo_env demo_vals {?a, ?b} demo_net" by (rule net_run.Start [OF demo_start])
  have E0: "nd_engine (nt_nodes demo_net ?a) = demo_engine" by (simp add: demo_net_def demo_engine_def)
  have E1: "nd_engine (nt_nodes s1 ?a) = e1" by (simp add: s1_def set_node_def)
  have db1: "en_db e1 = demo_db1" by (simp add: e1_def demo_first)
  have db0: "en_db demo_engine = demo_db" by (simp add: demo_engine fresh_engine_def)
  have "net_step demo_env demo_vals {?a, ?b} demo_net s1"
    unfolding s1_def by (rule net_step.Vote [where durable = "\<lambda>_. True" and now = 0])
      (simp_all add: E0 db0 demo_a demo_vals_def e1_def demo_step_def n1_def)
  then have r1: "net_run demo_env demo_vals {?a, ?b} s1" by (rule net_run.Step [OF r0])
  have "net_step demo_env demo_vals {?a, ?b} s1 s2"
    unfolding s2_def by (rule net_step.Vote [where durable = "\<lambda>_. True" and now = 0])
      (simp_all add: E1 db1 demo_b demo_vals_def e2_def demo_step_def n2_def)
  then have r2: "net_run demo_env demo_vals {?a, ?b} s2" by (rule net_run.Step [OF r1])
  have "genuine demo_vals {?a, ?b} (nt_log s2) (node_db s2 ?a)"
    using net_run_ok [OF r2] by (simp add: net_ok_def node_good_genuine)
  then have "net_step demo_env demo_vals {?a, ?b} s2 s3" unfolding s3_def by (intro net_step.Replace) simp_all
  then have r3: "net_run demo_env demo_vals {?a, ?b} s3" by (rule net_run.Step [OF r2])
  have "n1 = [(?a, \<lparr> ve_kind = Prevote, ve_height = 1, ve_round = 0, ve_hash = ''b1'' \<rparr>)]"
    unfolding n1_def e1_def demo_first by (simp add: new_votes_def signed_of_def demo_engine fresh_engine_def)
  then have "(?a, \<lparr> ve_kind = Prevote, ve_height = 1, ve_round = 0, ve_hash = ''b1'' \<rparr>) \<in> set (nt_log s3)"
    by (simp add: s3_def s2_def s1_def set_node_def)
  moreover have "node_db s3 ?a = en_db e2" "node_db s3 ?b = en_db e2" by (simp_all add: s3_def s2_def set_node_def)
  ultimately show ?thesis using r3 demo_second by (auto simp: e2_def e1_def)
qed

lemma singleton_of_unique: "P x \<Longrightarrow> (\<And>y. P y \<Longrightarrow> y = x) \<Longrightarrow> {y. P y} = {x}"
  by blast

section \<open>Agreement\<close>

text \<open>
  C1: agreement. In every run of the network of honest nodes (any events, any interleaving, restarts from the vote file with
  any genuine database, any behaviour of the other validators), two honest nodes that hold a finality certificate for the
  same height hold it for the same block, as long as the dishonest validators of the height have at most 3,333 of the 10,000
  units of voting power.
\<close>

theorem finality_agreement:
  assumes "net_run env vals honest s" "v \<in> honest" "w \<in> honest" "few_faulty vals honest h"
    and "get_finality_record (node_db s v) h = Some f" "get_finality_record (node_db s w) h = Some g"
  shows "fr_block_hash f = fr_block_hash g"
proof -
  have ok: "net_ok vals honest s" by (rule net_run_ok [OF assms(1)])
  then have "good_log vals honest (nt_log s)" by (simp add: net_ok_def)
  from log_agreement [OF assms(4) this node_final_quorum [OF ok assms(2,5)] node_final_quorum [OF ok assms(3,6)]] show ?thesis .
qed

theorem finality_agreement_witness:
  "\<exists>s f g. net_run demo_env demo_vals {Address ''a'', Address ''b''} s \<and>
    get_finality_record (node_db s (Address ''a'')) 1 = Some f \<and> get_finality_record (node_db s (Address ''b'')) 1 = Some g \<and>
    fr_block_hash f = fr_block_hash g"
proof -
  obtain s f g where s: "net_run demo_env demo_vals {Address ''a'', Address ''b''} s"
    "get_finality_record (node_db s (Address ''a'')) 1 = Some f" "get_finality_record (node_db s (Address ''b'')) 1 = Some g"
    using demo_run by blast
  have "fr_block_hash f = fr_block_hash g" by (rule finality_agreement [OF s(1) _ _ demo_faulty s(2,3)]) simp_all
  with s show ?thesis by (intro exI conjI)
qed



section \<open>A vote from the far future\<close>

lemma highest_of_ge: "h \<in> set hs \<Longrightarrow> h \<le> highest_of hs"
proof -
  have ge: "h \<in> set hs \<or> h \<le> m \<Longrightarrow> h \<le> fold max hs m" for m
    by (induction hs arbitrary: m) (auto simp: le_max_iff_disj)
  assume "h \<in> set hs"
  then show ?thesis using ge [of 0] by (simp add: highest_of_def)
qed

lemma fold_seen:
  "(\<And>x e. en_highest_seen (f x e) = en_highest_seen e) \<Longrightarrow> en_highest_seen (fold f xs e) = en_highest_seen e"
  by (induction xs arbitrary: e) simp_all

lemma reload_highest_seen: "(k, r) \<in> set (cd_precommits db) \<Longrightarrow> pv_height r \<le> en_highest_seen (reload (fresh_engine db ident))"
proof -
  assume k: "(k, r) \<in> set (cd_precommits db)"
  let ?en = "fresh_engine db ident"
  have "en_highest_seen (reload_precommits ?en) = highest_of (map pv_height (get_precommit_votes_from db 0))"
    unfolding reload_precommits_def Let_def
    by (subst fold_seen) (simp_all add: tally_reloaded_vote_def reload_own_precommit_def Let_def fresh_engine_def)
  moreover have "r \<in> set (get_precommit_votes_from db 0)" using k by (force simp: get_precommit_votes_from_def)
  ultimately have "pv_height r \<le> en_highest_seen (reload_precommits ?en)" by (auto intro: highest_of_ge)
  moreover have "en_highest_seen (reload_timeouts e) = max (en_highest_seen e) (highest_of (map rv_height (get_round_timeout_votes_from (en_db e) 0)))"
    for e :: "'a engine" unfolding reload_timeouts_def Let_def
    by (subst fold_seen) (simp_all add: tally_reloaded_timeout_def reload_own_timeout_def)
  ultimately show ?thesis by (simp add: reload_def reload_dissents_def le_max_iff_disj)
qed

lemma reload_identity: "en_identity (reload (fresh_engine db ident)) = ident"
proof -
  have "en_identity (reload_precommits (fresh_engine db ident)) = ident"
    unfolding reload_precommits_def Let_def
    by (rule fold_keeps [where P = "\<lambda>e. en_identity e = ident"]) (simp_all add: tally_reloaded_vote_def reload_own_precommit_def fresh_engine_def Let_def)
  then show ?thesis by (simp add: reload_def reload_dissents_def reload_timeouts_frame)
qed

lemma prune_below_floor_ge: "c \<le> Suc (sv_floor (prune_below sv c))"
  by (auto simp: prune_below_def Let_def saturating_sub_def)

text \<open>
  C28: one vote from the far future silences a validator that restarts. The comment on \<open>highest_seen\<close> says that the pruning
  watermark is only raised from locally validated chain state. A precommit for any height \<open>H\<close> signed by one member of the
  newest validator set is stored, though; a restart takes \<open>highest_seen\<close> from it, and the first block observed prunes the
  vote record with it, so that every vote at a height up to \<open>H - 501\<close> is refused from then on.
\<close>

theorem far_future_vote_silences_restart:
  assumes "get_finality_record db (pc_height vote) = None"
    and "vote_admitted env db (pc_height vote) (pc_voter vote)
      (precommit_signing_bytes (cd_genesis db) (pc_height vote) (pc_round vote) (pc_block_hash vote) (pc_ep vote)) (pc_signature vote)"
    and "\<not> quorum_reached (get_validator_set_at db (pc_height vote)) [pc_voter vote]"
    and "tally_vote env db [] mine vote = (db', t', mine', eqs)"
    and "en = handle_event env (BlockObserved b) (reload (fresh_engine db' (Some (v, key, sv))))"
    and "h + 501 \<le> pc_height vote"
  shows "\<exists>floor. claim durable (signed_of en) kind h r x = Err (BelowFloor floor)"
proof -
  let ?row = "\<lparr> pv_height = pc_height vote, pv_round = pc_round vote, pv_block_hash = pc_block_hash vote, pv_voter = pc_voter vote,
    pv_signature = pc_signature vote, pv_ep = pc_ep vote \<rparr>"
  let ?re = "reload (fresh_engine db' (Some (v, key, sv)))" let ?seen = "max (en_highest_seen ?re) (b_height b)"
  have db': "db' = write_precommit_vote ?row db"
    using assms(1-4) by (simp add: tally_vote_def Let_def bt_insert.simps bt_keys_def)
  have "map_of (cd_precommits db') (pc_height vote, pc_round vote, pc_block_hash vote, pc_voter vote) = Some ?row"
    by (simp add: db' write_precommit_vote_def)
  from reload_highest_seen [OF map_of_SomeD [OF this]] have seen: "pc_height vote \<le> ?seen" by (simp add: le_max_iff_disj)
  have "signed_of en = prune_below sv (saturating_sub ?seen TALLY_RETENTION_HEIGHTS)"
    by (simp add: assms(5) signed_of_def prune_engine_def Let_def reload_identity)
  then have "?seen - 500 \<le> Suc (sv_floor (signed_of en))"
    using prune_below_floor_ge [of "?seen - 500" sv] by (simp add: saturating_sub_def TALLY_RETENTION_HEIGHTS_def)
  then have "h \<le> sv_floor (signed_of en)" using seen assms(6) by simp
  then show ?thesis by (simp add: claim_def)
qed

theorem far_future_vote_silences_restart_witness:
  "\<exists>db (vote :: precommit_vote) db' t' mine' eqs floor. pc_height vote = 1000000 \<and> tally_vote demo_env db [] [] vote = (db', t', mine', eqs) \<and>
    claim True (signed_of (handle_event demo_env (BlockObserved (demo_block 2 ''b2''))
      (reload (fresh_engine db' (Some (Address ''b'', ''k'', \<lparr> sv_genesis = ''gen'', sv_floor = 0, sv_entries = [] \<rparr>))))))
      Prevote 3 0 ''b3'' = Err (BelowFloor floor)"
proof -
  define db where "db = demo_db\<lparr> cd_validator_sets := [(0, [(Address ''a'', 5000), (Address ''b'', 5000)])] \<rparr>"
  define vote where "vote = \<lparr> pc_height = 1000000, pc_round = 0, pc_block_hash = ''x'', pc_voter = Address ''a'', pc_signature = ''sig'', pc_ep = [] \<rparr>"
  obtain db' t' mine' eqs where t: "tally_vote demo_env db [] [] vote = (db', t', mine', eqs)" by (metis prod_cases4)
  have reads: "get_finality_record db h = None" "get_validator_set_at db 1000000 = [(Address ''a'', 5000), (Address ''b'', 5000)]"
    "get_bls_pubkey_at db (Address ''a'') 1000000 = Some ''pk''" for h
    by (simp_all add: db_def demo_db_def get_finality_record_def get_validator_set_at_def get_bls_pubkey_at_def last_row_def)
  have "\<exists>floor. claim True (signed_of (handle_event demo_env (BlockObserved (demo_block 2 ''b2''))
      (reload (fresh_engine db' (Some (Address ''b'', ''k'', \<lparr> sv_genesis = ''gen'', sv_floor = 0, sv_entries = [] \<rparr>))))))
      Prevote 3 0 ''b3'' = Err (BelowFloor floor)"
    by (rule far_future_vote_silences_restart [OF _ _ _ t refl])
      (simp_all add: vote_def reads vote_admitted_def demo_env_def quorum_reached_def signed_power_def QUORUM_POWER_def List.map_filter_simps)
  moreover have "pc_height vote = 1000000" by (simp add: vote_def)
  ultimately show ?thesis using t by blast
qed

end
