(* ===== verification/Artifact.thy ===== *)
theory Artifact
  imports Finality Multisig
begin

text \<open>
  Evidence artifacts (\<^verbatim>\<open>src/core/artifact/src/lib.rs\<close>): the standalone documents a fault is reported with, and \<open>verify\<close>,
  which checks one without the chain's database and without decoding an action. The crate repeats the signing bytes of the
  finality gadget and the hashes of the state trie; the lemmas show that the copies agree with the originals.

  Third-party code is the record \<open>art_env\<close>: SHA-256, hex decoding, Ed25519 key decoding and \<open>verify_strict\<close>, BLS verification
  (over blst) and the bincode encoding of a signed header. The field \<open>human_readable\<close>, which nothing reads, is left out.
\<close>

section \<open>Documents\<close>

definition ARTIFACT_VERSION :: nat where "ARTIFACT_VERSION = 6"

record canonical_header =
  ch_height :: nat
  ch_parent_hash :: string
  ch_timestamp :: nat
  ch_tx_root :: string
  ch_proposer :: string
  ch_parent_state_root :: string
  ch_state_root :: string
  ch_round :: nat
  ch_build_id :: string

record block_attestation =
  ba_header :: canonical_header
  ba_signature :: string

record dissent_attestation =
  da_height :: nat
  da_block_hash :: string
  da_state_root :: string
  da_header_commitment :: string
  da_ep :: string
  da_reason :: string
  da_voter :: string
  da_voter_pubkey :: string
  da_signature :: string

record precommit_attestation =
  pa_height :: nat
  pa_round :: nat
  pa_block_hash :: string
  pa_ep :: string
  pa_signature :: string

record prevote_attestation =
  va_height :: nat
  va_round :: nat
  va_block_hash :: string
  va_signature :: string

record state_proof =
  sp_key_hash :: string
  sp_value :: "string option"
  sp_siblings_bitmap :: string
  sp_siblings :: "string list"

record block_dissent_claim =
  bd_computed_state_root :: string
  bd_proofs :: "state_proof list"
  bd_signature :: string

record action_claim =
  ac_pre_state_root :: string
  ac_post_state_root :: string
  ac_proofs :: "state_proof list"
  ac_signature :: string

datatype fault =
    FaultEquivocation string nat block_attestation block_attestation
  | FaultExecutionDisagreement string nat block_attestation dissent_attestation
  | FaultActionDivergence string string nat nat string action_claim action_claim
  | FaultBlockDivergence string string nat block_attestation "string list" block_dissent_claim
  | FaultPrecommitEquivocation string nat precommit_attestation precommit_attestation
  | FaultPrevoteEquivocation string nat prevote_attestation prevote_attestation

record evidence_artifact =
  ea_version :: nat
  ea_genesis_hash :: string
  ea_fault :: fault

datatype verify_error =
    UnsupportedVersion nat
  | VeBadHex string
  | BadTxRootLength nat
  | BadPubkeyLength nat
  | VeBadPubkey
  | BadSignatureLength nat
  | VeHeightMismatch nat nat
  | FaultHeightMismatch nat nat
  | VeRoundMismatch nat nat
  | VeSameBlock
  | SignatureInvalid nat
  | DisagreementHeightMismatch nat nat
  | ProposedSignatureInvalid
  | BadBlsPubkeyLength nat
  | BadBlsSignatureLength nat
  | BadEpLength nat
  | BadHeaderCommitmentLength nat
  | DissentSignatureInvalid
  | NoDisagreement
  | DissentTargetsDifferentBlock
  | BadFixedLength string nat
  | BadProofShape
  | StateProofDoesNotVerify
  | ActionClaimsDisagreeOnPreState
  | ActionClaimsAgreeOnPostState
  | ProposedClaimSignatureInvalid
  | DissentClaimSignatureInvalid
  | BlockDivergenceHeightMismatch nat nat
  | BlockAttestationSignatureInvalid
  | BlockDissentSignatureInvalid
  | BlockDivergenceNoDisagreement
  | VoteSignatureInvalid nat
  | SameVote
  | VoteRoundMismatch nat nat

datatype verdict =
    Culpable string string
  | Disagreement string "string list"

record art_env =
  ae_sha :: "string \<Rightarrow> string"
  ae_hex_decode :: "string \<Rightarrow> string option"
  ae_ed_key :: "string \<Rightarrow> bool"
  ae_ed_verify :: "string \<Rightarrow> bytes \<Rightarrow> string \<Rightarrow> bool"
  ae_bls_verify :: "bytes \<Rightarrow> string \<Rightarrow> string \<Rightarrow> bool"
  ae_encode_header :: "block_signing_payload \<Rightarrow> bytes"

section \<open>Decoding\<close>

definition strip_0x :: "string \<Rightarrow> string" where
  "strip_0x s = (if take 2 s = ''0x'' then drop 2 s else s)"

definition art_decode_hex :: "art_env \<Rightarrow> string \<Rightarrow> string \<Rightarrow> (verify_error, string) result" where
  "art_decode_hex env field s = ok_or (VeBadHex field) (ae_hex_decode env (strip_0x s))"

text \<open>\<open>try_into\<close> an array of \<open>n\<close> bytes.\<close>

definition sized :: "nat \<Rightarrow> (nat \<Rightarrow> verify_error) \<Rightarrow> string \<Rightarrow> (verify_error, string) result" where
  "sized n err bytes = (if length bytes = n then Ok bytes else Err (err (length bytes)))"

definition decode_hex_32 :: "art_env \<Rightarrow> string \<Rightarrow> string \<Rightarrow> (verify_error, string) result" where
  "decode_hex_32 env field s = and_then (art_decode_hex env field s) (sized 32 (BadFixedLength field))"

definition verifying_key :: "art_env \<Rightarrow> string \<Rightarrow> string \<Rightarrow> (verify_error, string) result" where
  "verifying_key env field hex =
    and_then (art_decode_hex env field hex) (\<lambda>bytes.
    and_then (sized 32 BadPubkeyLength bytes) (\<lambda>bytes.
    if ae_ed_key env bytes then Ok bytes else Err VeBadPubkey))"

definition check_sig :: "art_env \<Rightarrow> string \<Rightarrow> string \<Rightarrow> bytes \<Rightarrow> verify_error \<Rightarrow> (verify_error, unit) result" where
  "check_sig env key sig_hex message invalid =
    and_then (art_decode_hex env ''signature'' sig_hex) (\<lambda>bytes.
    and_then (sized 64 BadSignatureLength bytes) (\<lambda>sig_bytes.
    if ae_ed_verify env key message sig_bytes then Ok () else Err invalid))"

text \<open>Decoding a BLS key and checking a BLS signature, written out at every use in the source.\<close>

definition bls_key :: "art_env \<Rightarrow> string \<Rightarrow> (verify_error, string) result" where
  "bls_key env hex = and_then (art_decode_hex env ''voter_pubkey'' hex) (sized 48 BadBlsPubkeyLength)"

definition check_bls ::
  "art_env \<Rightarrow> string \<Rightarrow> string \<Rightarrow> string \<Rightarrow> bytes \<Rightarrow> verify_error \<Rightarrow> (verify_error, unit) result" where
  "check_bls env field key sig_hex message invalid =
    and_then (art_decode_hex env field sig_hex) (\<lambda>bytes.
    and_then (sized 96 BadBlsSignatureLength bytes) (\<lambda>sig_bytes.
    if ae_bls_verify env message key sig_bytes then Ok () else Err invalid))"

section \<open>Signing bytes\<close>

definition signing_bytes_for :: "art_env \<Rightarrow> bytes \<Rightarrow> canonical_header \<Rightarrow> (verify_error, bytes) result" where
  "signing_bytes_for env genesis h =
    and_then (art_decode_hex env ''tx_root'' (ch_tx_root h)) (\<lambda>bytes.
    and_then (sized 32 BadTxRootLength bytes) (\<lambda>tx.
    Ok (ae_encode_header env
      \<lparr> sp_genesis_hash = genesis, sp_height = ch_height h, sp_parent_hash = ch_parent_hash h,
        sp_timestamp = ch_timestamp h, sp_tx_root = tx, sp_proposer = Address (ch_proposer h),
        sp_parent_state_root = ch_parent_state_root h, sp_state_root = ch_state_root h,
        sp_round = ch_round h, sp_build_id = ch_build_id h \<rparr>)))"

definition art_dissent_signing_bytes ::
  "bytes \<Rightarrow> nat \<Rightarrow> string \<Rightarrow> string \<Rightarrow> bytes \<Rightarrow> bytes \<Rightarrow> string \<Rightarrow> bytes" where
  "art_dissent_signing_bytes genesis height block_hash sroot header_commit ep reason =
    (let buf = push_field [] ''arxium/dissent/v3'';
         buf = push_field buf genesis;
         buf = push_field buf (to_le_bytes 8 height);
         buf = push_field buf block_hash;
         buf = push_field buf sroot;
         buf = push_field buf header_commit;
         buf = push_field buf ep
     in push_field buf reason)"

definition art_precommit_signing_bytes :: "bytes \<Rightarrow> nat \<Rightarrow> nat \<Rightarrow> string \<Rightarrow> bytes \<Rightarrow> bytes" where
  "art_precommit_signing_bytes genesis height round block_hash ep =
    (let buf = push_field [] ''arxium/precommit/v3'';
         buf = push_field buf genesis;
         buf = push_field buf (to_le_bytes 8 height);
         buf = push_field buf (to_le_bytes 4 round);
         buf = push_field buf block_hash
     in push_field buf ep)"

definition art_prevote_signing_bytes :: "bytes \<Rightarrow> nat \<Rightarrow> nat \<Rightarrow> string \<Rightarrow> bytes" where
  "art_prevote_signing_bytes genesis height round block_hash =
    (let buf = push_field [] ''arxium/prevote/v1'';
         buf = push_field buf genesis;
         buf = push_field buf (to_le_bytes 8 height);
         buf = push_field buf (to_le_bytes 4 round)
     in push_field buf block_hash)"

definition block_divergence_signing_bytes :: "bytes \<Rightarrow> nat \<Rightarrow> bytes \<Rightarrow> string \<Rightarrow> string \<Rightarrow> bytes" where
  "block_divergence_signing_bytes genesis height header_commit parent_sroot computed_sroot =
    (let buf = push_field [] ''arxium/block_divergence/v2'';
         buf = push_field buf genesis;
         buf = push_field buf (to_le_bytes 8 height);
         buf = push_field buf header_commit;
         buf = push_field buf parent_sroot
     in push_field buf computed_sroot)"

definition action_claim_signing_bytes ::
  "bytes \<Rightarrow> nat \<Rightarrow> nat \<Rightarrow> bytes \<Rightarrow> string \<Rightarrow> string \<Rightarrow> bytes" where
  "action_claim_signing_bytes genesis height action_index action_bytes_hash pre_sroot post_sroot =
    (let buf = push_field [] ''arxium/action_claim/v2'';
         buf = push_field buf genesis;
         buf = push_field buf (to_le_bytes 8 height);
         buf = push_field buf (to_le_bytes 8 action_index);
         buf = push_field buf action_bytes_hash;
         buf = push_field buf pre_sroot
     in push_field buf post_sroot)"

section \<open>State proofs on the wire\<close>

definition sibling_leaf_hash :: "art_env \<Rightarrow> string \<Rightarrow> string \<Rightarrow> string" where
  "sibling_leaf_hash env key_hash val = ae_sha env ([char_of (0 :: nat)] @ key_hash @ val)"

definition sibling_internal_hash :: "art_env \<Rightarrow> string \<Rightarrow> string \<Rightarrow> string" where
  "sibling_internal_hash env left right = ae_sha env ([char_of (1 :: nat)] @ left @ right)"

definition sibling_bit_at :: "string \<Rightarrow> nat \<Rightarrow> nat" where
  "sibling_bit_at hash level =
    and (drop_bit (7 - level mod 8) (of_char (hash ! (level div 8)) :: nat)) 1"

primrec art_default_hash :: "art_env \<Rightarrow> nat \<Rightarrow> string" where
  "art_default_hash env 0 = replicate 32 (char_of (0 :: nat))"
| "art_default_hash env (Suc depth) = sibling_internal_hash env (art_default_hash env depth) (art_default_hash env depth)"

text \<open>The loop over the levels; what is left of \<open>non_default\<close> at the end is one sibling too many.\<close>

fun wire_siblings :: "art_env \<Rightarrow> string \<Rightarrow> nat \<Rightarrow> nat \<Rightarrow> string list \<Rightarrow> (verify_error, string list) result" where
  "wire_siblings env bitmap level 0 non_default = (if non_default = [] then Ok [] else Err BadProofShape)"
| "wire_siblings env bitmap level (Suc n) non_default =
    (if sibling_bit_at bitmap level = 1
     then (case non_default of
             [] \<Rightarrow> Err BadProofShape
           | s # rest \<Rightarrow>
               and_then (decode_hex_32 env ''proof sibling'' s) (\<lambda>s.
               and_then (wire_siblings env bitmap (Suc level) n rest) (\<lambda>ss. Ok (s # ss))))
     else and_then (wire_siblings env bitmap (Suc level) n non_default) (\<lambda>ss.
          Ok (art_default_hash env (255 - level) # ss)))"

fun fold_levels :: "art_env \<Rightarrow> string \<Rightarrow> (nat \<times> string) list \<Rightarrow> string \<Rightarrow> string" where
  "fold_levels env key_hash [] current = current"
| "fold_levels env key_hash ((level, sibling) # up) current =
    (let (left, right) = (if sibling_bit_at key_hash level = 0 then (current, sibling) else (sibling, current)) in
     fold_levels env key_hash up (sibling_internal_hash env left right))"

definition verify_state_proof :: "art_env \<Rightarrow> string \<Rightarrow> state_proof \<Rightarrow> (verify_error, unit) result" where
  "verify_state_proof env root p =
    and_then (decode_hex_32 env ''key_hash'' (sp_key_hash p)) (\<lambda>key_hash.
    and_then (decode_hex_32 env ''siblings_bitmap'' (sp_siblings_bitmap p)) (\<lambda>bitmap.
    and_then (wire_siblings env bitmap 0 256 (sp_siblings p)) (\<lambda>siblings.
    and_then (case sp_value p of
                Some val \<Rightarrow> and_then (art_decode_hex env ''proof value'' val) (\<lambda>x. Ok (sibling_leaf_hash env key_hash x))
              | None \<Rightarrow> Ok (replicate 32 (char_of (0 :: nat)))) (\<lambda>leaf.
    if fold_levels env key_hash (rev (zip [0..<256] siblings)) leaf = root then Ok ()
    else Err StateProofDoesNotVerify))))"

fun verify_state_proofs :: "art_env \<Rightarrow> string \<Rightarrow> state_proof list \<Rightarrow> (verify_error, unit) result" where
  "verify_state_proofs env root [] = Ok ()"
| "verify_state_proofs env root (p # ps) =
    and_then (verify_state_proof env root p) (\<lambda>_. verify_state_proofs env root ps)"

text \<open>How a node writes a proof of its trie into an artifact (\<^verbatim>\<open>InclusionProof::into_state_proof\<close>).\<close>

definition into_state_proof ::
  "(string \<Rightarrow> string) \<Rightarrow> (string, string) trie_hash \<Rightarrow> (string, string) inclusion_proof \<Rightarrow> state_proof" where
  "into_state_proof hex_encode th p =
    (case compress th p of
       (bitmap, siblings) \<Rightarrow>
         \<lparr> sp_key_hash = ''0x'' @ hex_encode (ip_key_hash p),
           sp_value = map_option (\<lambda>x. ''0x'' @ hex_encode x) (ip_value p),
           sp_siblings_bitmap = ''0x'' @ hex_encode bitmap,
           sp_siblings = map (\<lambda>s. ''0x'' @ hex_encode s) siblings \<rparr>)"

section \<open>The checks\<close>

definition art_verify_equivocation ::
  "art_env \<Rightarrow> bytes \<Rightarrow> string \<Rightarrow> nat \<Rightarrow> block_attestation \<Rightarrow> block_attestation \<Rightarrow> (verify_error, verdict) result" where
  "art_verify_equivocation env genesis proposer_pubkey height a b =
    and_then (verifying_key env ''proposer_pubkey'' proposer_pubkey) (\<lambda>key.
    if ch_height (ba_header a) \<noteq> ch_height (ba_header b)
    then Err (VeHeightMismatch (ch_height (ba_header a)) (ch_height (ba_header b)))
    else if ch_height (ba_header a) \<noteq> height then Err (FaultHeightMismatch height (ch_height (ba_header a)))
    else if ch_round (ba_header a) \<noteq> ch_round (ba_header b)
    then Err (VeRoundMismatch (ch_round (ba_header a)) (ch_round (ba_header b)))
    else
     and_then (signing_bytes_for env genesis (ba_header a)) (\<lambda>bytes_a.
     and_then (check_sig env key (ba_signature a) bytes_a (SignatureInvalid 0)) (\<lambda>_.
     and_then (signing_bytes_for env genesis (ba_header b)) (\<lambda>bytes_b.
     and_then (check_sig env key (ba_signature b) bytes_b (SignatureInvalid 1)) (\<lambda>_.
     if bytes_a = bytes_b then Err VeSameBlock
     else Ok (Culpable ''equivocation'' proposer_pubkey))))))"

definition verify_execution_disagreement ::
  "art_env \<Rightarrow> bytes \<Rightarrow> string \<Rightarrow> nat \<Rightarrow> block_attestation \<Rightarrow> dissent_attestation \<Rightarrow> (verify_error, verdict) result" where
  "verify_execution_disagreement env genesis proposer_pubkey height proposed d =
    and_then (verifying_key env ''proposer_pubkey'' proposer_pubkey) (\<lambda>key.
    if ch_height (ba_header proposed) \<noteq> height
    then Err (FaultHeightMismatch height (ch_height (ba_header proposed)))
    else if da_height d \<noteq> height then Err (DisagreementHeightMismatch (da_height d) height)
    else
     and_then (signing_bytes_for env genesis (ba_header proposed)) (\<lambda>bytes.
     and_then (check_sig env key (ba_signature proposed) bytes ProposedSignatureInvalid) (\<lambda>_.
     and_then (art_decode_hex env ''header_commitment'' (da_header_commitment d)) (\<lambda>hc.
     and_then (sized 32 BadHeaderCommitmentLength hc) (\<lambda>hc.
     if ae_sha env bytes \<noteq> hc then Err DissentTargetsDifferentBlock
     else
      and_then (decode_hex_32 env ''state_root'' (ch_state_root (ba_header proposed))) (\<lambda>proposed_root.
      and_then (decode_hex_32 env ''state_root'' (da_state_root d)) (\<lambda>dissent_root.
      if proposed_root = dissent_root then Err NoDisagreement
      else
       and_then (bls_key env (da_voter_pubkey d)) (\<lambda>voter.
       and_then (art_decode_hex env ''signature'' (da_signature d)) (\<lambda>sig_bytes.
       and_then (sized 96 BadBlsSignatureLength sig_bytes) (\<lambda>sig_bytes.
       and_then (art_decode_hex env ''ep'' (da_ep d)) (\<lambda>ep.
       and_then (sized 32 BadEpLength ep) (\<lambda>ep.
       if ae_bls_verify env
            (art_dissent_signing_bytes genesis (da_height d) (da_block_hash d) (da_state_root d) hc ep (da_reason d))
            voter sig_bytes
       then Ok (Disagreement ''execution_disagreement'' [proposer_pubkey, da_voter_pubkey d])
       else Err DissentSignatureInvalid))))))))))))"

type_synonym cited_vote = "nat \<times> nat \<times> bytes \<times> string"

definition verify_vote_equivocation ::
  "art_env \<Rightarrow> string \<Rightarrow> string \<Rightarrow> nat \<Rightarrow> cited_vote \<Rightarrow> cited_vote \<Rightarrow> (verify_error, verdict) result" where
  "verify_vote_equivocation env kind voter_pubkey height a b =
    (case (a, b) of ((height_a, round_a, bytes_a, sig_a), (height_b, round_b, bytes_b, sig_b)) \<Rightarrow>
     and_then (bls_key env voter_pubkey) (\<lambda>voter.
     if height_a \<noteq> height_b then Err (VeHeightMismatch height_a height_b)
     else if height_a \<noteq> height then Err (FaultHeightMismatch height height_a)
     else if round_a \<noteq> round_b then Err (VoteRoundMismatch round_a round_b)
     else
      and_then (check_bls env ''signature'' voter sig_a bytes_a (VoteSignatureInvalid 0)) (\<lambda>_.
      and_then (check_bls env ''signature'' voter sig_b bytes_b (VoteSignatureInvalid 1)) (\<lambda>_.
      if bytes_a = bytes_b then Err SameVote else Ok (Culpable kind voter_pubkey)))))"

definition cited_precommit :: "art_env \<Rightarrow> bytes \<Rightarrow> precommit_attestation \<Rightarrow> (verify_error, cited_vote) result" where
  "cited_precommit env genesis v =
    and_then (art_decode_hex env ''ep'' (pa_ep v)) (\<lambda>ep.
    and_then (sized 32 BadEpLength ep) (\<lambda>ep.
    Ok (pa_height v, pa_round v,
        art_precommit_signing_bytes genesis (pa_height v) (pa_round v) (pa_block_hash v) ep, pa_signature v)))"

definition verify_precommit_equivocation ::
  "art_env \<Rightarrow> bytes \<Rightarrow> string \<Rightarrow> nat \<Rightarrow> precommit_attestation \<Rightarrow> precommit_attestation \<Rightarrow>
   (verify_error, verdict) result" where
  "verify_precommit_equivocation env genesis voter_pubkey height a b =
    and_then (cited_precommit env genesis a) (\<lambda>a.
    and_then (cited_precommit env genesis b) (\<lambda>b.
    verify_vote_equivocation env ''precommit_equivocation'' voter_pubkey height a b))"

definition cited_prevote :: "bytes \<Rightarrow> prevote_attestation \<Rightarrow> cited_vote" where
  "cited_prevote genesis v =
    (va_height v, va_round v, art_prevote_signing_bytes genesis (va_height v) (va_round v) (va_block_hash v),
     va_signature v)"

definition verify_action_divergence ::
  "art_env \<Rightarrow> bytes \<Rightarrow> string \<Rightarrow> string \<Rightarrow> nat \<Rightarrow> nat \<Rightarrow> string \<Rightarrow> action_claim \<Rightarrow> action_claim \<Rightarrow>
   (verify_error, verdict) result" where
  "verify_action_divergence env genesis proposer_pubkey voter_pubkey height action_index action_bytes proposed d =
    and_then (verifying_key env ''proposer_pubkey'' proposer_pubkey) (\<lambda>key.
    and_then (bls_key env voter_pubkey) (\<lambda>voter.
    and_then (art_decode_hex env ''action_bytes'' action_bytes) (\<lambda>raw.
    (let hash = ae_sha env raw in
     if ac_pre_state_root proposed \<noteq> ac_pre_state_root d then Err ActionClaimsDisagreeOnPreState
     else if ac_post_state_root proposed = ac_post_state_root d then Err ActionClaimsAgreeOnPostState
     else
      and_then (check_sig env key (ac_signature proposed)
        (action_claim_signing_bytes genesis height action_index hash (ac_pre_state_root proposed) (ac_post_state_root proposed))
        ProposedClaimSignatureInvalid) (\<lambda>_.
      and_then (check_bls env ''dissent_claim signature'' voter (ac_signature d)
        (action_claim_signing_bytes genesis height action_index hash (ac_pre_state_root d) (ac_post_state_root d))
        DissentClaimSignatureInvalid) (\<lambda>_.
      and_then (decode_hex_32 env ''proposed_claim.pre_state_root'' (ac_pre_state_root proposed)) (\<lambda>root.
      and_then (verify_state_proofs env root (ac_proofs proposed)) (\<lambda>_.
      and_then (decode_hex_32 env ''dissent_claim.pre_state_root'' (ac_pre_state_root d)) (\<lambda>root.
      and_then (verify_state_proofs env root (ac_proofs d)) (\<lambda>_.
      Ok (Disagreement ''action_divergence'' [proposer_pubkey, voter_pubkey])))))))))))"

definition verify_block_divergence ::
  "art_env \<Rightarrow> bytes \<Rightarrow> string \<Rightarrow> string \<Rightarrow> nat \<Rightarrow> block_attestation \<Rightarrow> block_dissent_claim \<Rightarrow>
   (verify_error, verdict) result" where
  "verify_block_divergence env genesis proposer_pubkey voter_pubkey height att d =
    (let h = ba_header att in
     and_then (verifying_key env ''proposer_pubkey'' proposer_pubkey) (\<lambda>key.
     and_then (bls_key env voter_pubkey) (\<lambda>voter.
     if ch_height h \<noteq> height then Err (BlockDivergenceHeightMismatch height (ch_height h))
     else
      and_then (signing_bytes_for env genesis h) (\<lambda>header_bytes.
      and_then (check_sig env key (ba_signature att) header_bytes BlockAttestationSignatureInvalid) (\<lambda>_.
      if ch_state_root h = bd_computed_state_root d then Err BlockDivergenceNoDisagreement
      else
       and_then (check_bls env ''dissent_claim signature'' voter (bd_signature d)
         (block_divergence_signing_bytes genesis height (ae_sha env header_bytes) (ch_parent_state_root h) (bd_computed_state_root d))
         BlockDissentSignatureInvalid) (\<lambda>_.
       and_then (decode_hex_32 env ''parent_state_root'' (ch_parent_state_root h)) (\<lambda>root.
       and_then (verify_state_proofs env root (bd_proofs d)) (\<lambda>_.
       Ok (Disagreement ''block_divergence'' [proposer_pubkey, voter_pubkey]))))))))) "

definition art_verify :: "art_env \<Rightarrow> evidence_artifact \<Rightarrow> (verify_error, verdict) result" where
  "art_verify env art =
    (if ea_version art \<noteq> ARTIFACT_VERSION then Err (UnsupportedVersion (ea_version art))
     else
      and_then (decode_hex_32 env ''genesis_hash'' (ea_genesis_hash art)) (\<lambda>genesis.
      (case ea_fault art of
         FaultEquivocation pk height a b \<Rightarrow> art_verify_equivocation env genesis pk height a b
       | FaultExecutionDisagreement pk height proposed d \<Rightarrow> verify_execution_disagreement env genesis pk height proposed d
       | FaultPrecommitEquivocation pk height a b \<Rightarrow> verify_precommit_equivocation env genesis pk height a b
       | FaultPrevoteEquivocation pk height a b \<Rightarrow>
           verify_vote_equivocation env ''prevote_equivocation'' pk height (cited_prevote genesis a) (cited_prevote genesis b)
       | FaultActionDivergence pk voter height index raw proposed d \<Rightarrow>
           verify_action_divergence env genesis pk voter height index raw proposed d
       | FaultBlockDivergence pk voter height att actions d \<Rightarrow>
           verify_block_divergence env genesis pk voter height att d)))"

section \<open>The copies agree with the originals\<close>

lemma art_signing_bytes:
  "art_prevote_signing_bytes = prevote_signing_bytes"
  "art_precommit_signing_bytes = precommit_signing_bytes"
  "art_dissent_signing_bytes = dissent_signing_bytes"
  by (intro ext; simp add: art_prevote_signing_bytes_def prevote_signing_bytes_def DOMAIN_PREVOTE_def
      art_precommit_signing_bytes_def precommit_signing_bytes_def DOMAIN_PRECOMMIT_def
      art_dissent_signing_bytes_def dissent_signing_bytes_def DOMAIN_DISSENT_def)+

lemma sibling_hashes:
  "sibling_leaf_hash env = leaf_hash (ae_sha env)"
  "sibling_internal_hash env = internal_hash (ae_sha env)"
  by (intro ext; simp add: sibling_leaf_hash_def leaf_hash_def sibling_internal_hash_def internal_hash_def)+

lemma sibling_bit_at_bit_at: "sibling_bit_at hash level = (if bit_at hash level then 1 else 0)"
  by (simp add: sibling_bit_at_def bit_at_def bit_iff_odd_drop_bit and_one_eq odd_iff_mod_2_eq_one)

abbreviation art_trie :: "art_env \<Rightarrow> (string, string) trie_hash" where
  "art_trie env \<equiv> sha_trie (ae_sha env)"

lemma art_trie_sel:
  "th_leaf (sha_trie sha) = leaf_hash sha" "th_node (sha_trie sha) = internal_hash sha"
  "th_empty (sha_trie sha) = replicate 32 (char_of (0 :: nat))" "th_bit (sha_trie sha) = bit_at"
  by (simp_all add: sha_trie_def)

lemma art_default_hash_default: "art_default_hash env d = default_hash (art_trie env) d"
  by (induction d) (simp_all add: art_trie_sel sibling_hashes)

lemma fold_levels_append:
  "fold_levels env key (xs @ ys) cur = fold_levels env key ys (fold_levels env key xs cur)"
  by (induction xs arbitrary: cur) (auto simp: Let_def)

lemma fold_levels_climb:
  "fold_levels env key (rev (zip [level..<level + length ss] ss)) cur = climb (art_trie env) key level ss cur"
proof (induction ss arbitrary: level)
  case (Cons s ss)
  have z: "zip [level..<level + length (s # ss)] (s # ss) = (level, s) # zip [Suc level..<Suc level + length ss] ss"
    by (simp add: upt_conv_Cons del: upt_Suc)
  show ?case
    unfolding z by (simp add: fold_levels_append Cons.IH [of "Suc level", unfolded add_Suc] art_trie_sel sibling_hashes
        sibling_bit_at_bit_at del: upt_Suc)
qed simp

text \<open>Decoding a field that the hex codec of the node wrote.\<close>

lemma art_decode_written:
  "ae_hex_decode env (enc x) = Some x \<Longrightarrow> art_decode_hex env field (CHR ''0'' # CHR ''x'' # enc x) = Ok x"
  by (simp add: art_decode_hex_def strip_0x_def ok_or_def)

lemma decode_32_written:
  "ae_hex_decode env (enc x) = Some x \<Longrightarrow> length x = 32 \<Longrightarrow> decode_hex_32 env field (CHR ''0'' # CHR ''x'' # enc x) = Ok x"
  by (simp add: decode_hex_32_def art_decode_written sized_def)

lemma wire_siblings_expand:
  assumes hex: "\<And>x. ae_hex_decode env (enc x) = Some x"
    and "\<forall>s\<in>set nd. length s = 32"
  shows "wire_siblings env bitmap level n (map (\<lambda>s. CHR ''0'' # CHR ''x'' # enc s) nd) =
    ok_or BadProofShape (expand_siblings (art_trie env) (bit_at bitmap) level n nd)"
  using assms(2)
proof (induction n arbitrary: level nd)
  case (Suc n)
  show ?case
  proof (cases "bit_at bitmap level")
    case True
    then show ?thesis
      using Suc by (cases nd) (auto simp: sibling_bit_at_bit_at decode_32_written hex ok_or_def split: option.splits)
  next
    case False
    then show ?thesis
      using Suc.IH [OF Suc.prems, of "Suc level"]
      by (auto simp: sibling_bit_at_bit_at art_default_hash_default ok_or_def split: option.splits)
  qed
qed (simp add: ok_or_def)

lemma real_siblings_subset: "set (real_siblings th level ss) \<subseteq> set ss"
  by (induction ss arbitrary: level) auto

text \<open>
  C36: the artifact crate's copy of the proof check decides as the trie does: a proof of the state trie, written to the wire
  in its compressed form and read back, verifies against a root exactly when the trie's own check accepts it.
\<close>

theorem wire_proof_matches_trie:
  assumes "\<And>x. ae_hex_decode env (enc x) = Some x"
    and "length (ip_key_hash p) = 32" and "length (ip_siblings p) = 256" and "\<forall>s\<in>set (ip_siblings p). length s = 32"
  shows "verify_state_proof env root (into_state_proof enc (art_trie env) p) = Ok () \<longleftrightarrow>
    verify_proof (art_trie env) root p"
proof -
  obtain bitmap nd where c: "compress (art_trie env) p = (bitmap, nd)" by (cases "compress (art_trie env) p")
  from compress_expand [OF assms(3) c] have b: "length bitmap = 32"
    and e: "expand_siblings (art_trie env) (bit_at bitmap) 0 256 nd = Some (ip_siblings p)" by blast+
  have "nd = [] @ real_siblings (art_trie env) 0 (ip_siblings p)"
    by (rule compress_levels_spec [OF _ _ c [unfolded compress_def], THEN conjunct2, THEN conjunct1])
       (rule length_replicate, simp only: assms(3) add_0)
  then have "set nd \<subseteq> set (ip_siblings p)" by (simp only: append_Nil real_siblings_subset)
  with assms(4) have nd: "\<forall>s\<in>set nd. length s = 32" by (meson subsetD)
  have w: "wire_siblings env bitmap 0 256 (map (\<lambda>s. CHR ''0'' # CHR ''x'' # enc s) nd) = Ok (ip_siblings p)"
    by (simp only: wire_siblings_expand [OF assms(1) nd] e ok_or_def option.case)
  have f: "fold_levels env (ip_key_hash p) (rev (zip [0..<256] (ip_siblings p))) cur =
      climb (art_trie env) (ip_key_hash p) 0 (ip_siblings p) cur" for cur
    using fold_levels_climb [of env "ip_key_hash p" 0 "ip_siblings p" cur] unfolding assms(3) add_0 .
  note steps = verify_state_proof_def into_state_proof_def c decode_32_written art_decode_written assms(1-3) b w
    verify_proof_def leaf_node_def art_trie_sel sibling_hashes
  show ?thesis
    by (cases "ip_value p") (simp_all add: steps f del: upt_rec_numeral)
qed

definition sample_art_env :: art_env where
  "sample_art_env =
    \<lparr> ae_sha = (\<lambda>x. replicate 32 (CHR ''h'')), ae_hex_decode = Some, ae_ed_key = (\<lambda>_. True),
      ae_ed_verify = (\<lambda>key msg sig. True), ae_bls_verify = (\<lambda>msg key sig. True),
      ae_encode_header = (\<lambda>p. sp_parent_hash p) \<rparr>"

definition sample_inclusion :: "(string, string) inclusion_proof" where
  "sample_inclusion = \<lparr> ip_key_hash = replicate 32 (CHR ''k''), ip_value = Some ''x'',
     ip_siblings = replicate 256 (replicate 32 (CHR ''s'')) \<rparr>"

theorem wire_proof_matches_trie_witness:
  "\<exists>root. verify_state_proof sample_art_env root (into_state_proof id (art_trie sample_art_env) sample_inclusion) = Ok ()"
proof -
  let ?root = "climb (art_trie sample_art_env) (ip_key_hash sample_inclusion) 0 (ip_siblings sample_inclusion)
    (leaf_node (art_trie sample_art_env) (ip_key_hash sample_inclusion) (ip_value sample_inclusion))"
  have l: "length (ip_siblings sample_inclusion) = 256" "length (ip_key_hash sample_inclusion) = 32"
    "set (ip_siblings sample_inclusion) \<subseteq> {replicate 32 (CHR ''s'')}"
    by (simp_all only: sample_inclusion_def inclusion_proof.select_convs length_replicate) auto
  have h: "ae_hex_decode sample_art_env (id x) = Some x" for x by (simp add: sample_art_env_def)
  have s: "\<forall>s\<in>set (ip_siblings sample_inclusion). length s = 32" using l(3) by auto
  have "verify_proof (art_trie sample_art_env) ?root sample_inclusion" by (simp only: verify_proof_def l simp_thms)
  with wire_proof_matches_trie [of sample_art_env id, OF h l(2,1) s] show ?thesis by blast
qed

end
