(* ===== verification/Conviction.thy ===== *)
theory Conviction
  imports Agreement Artifact
begin

text \<open>
  Who can be convicted by votes: the finality gadget's record of what it signed (\<^verbatim>\<open>signed_votes.rs\<close>) against the vote
  equivocation artifacts (\<^verbatim>\<open>src/core/artifact/src/lib.rs\<close>) that a validator is slashed for.
\<close>

section \<open>Signed bytes determine the vote\<close>

lemma prevote_bytes_fields:
  "prevote_signing_bytes g h r x =
   concat (map (push_field []) [DOMAIN_PREVOTE, g, to_le_bytes 8 h, to_le_bytes 4 r, x])"
  by (simp add: prevote_signing_bytes_def push_field_def Let_def)

lemma precommit_bytes_fields:
  "precommit_signing_bytes g h r x ep =
   concat (map (push_field []) [DOMAIN_PRECOMMIT, g, to_le_bytes 8 h, to_le_bytes 4 r, x, ep])"
  by (simp add: precommit_signing_bytes_def push_field_def Let_def)

lemmas vote_bytes_fields = prevote_bytes_fields precommit_bytes_fields signing_bytes_fields

text \<open>The widths of a vote's fields: \<open>u64\<close>, \<open>u32\<close>, and texts and arrays below \<open>2^64\<close> bytes.\<close>

definition vote_fits :: "bytes \<Rightarrow> vote_entry \<Rightarrow> bool" where
  "vote_fits ep e \<longleftrightarrow> ve_height e < 2 ^ 64 \<and> ve_round e < 2 ^ 32 \<and> length (ve_hash e) < 2 ^ 64 \<and> length ep < 2 ^ 64"

text \<open>What a validator signs for a vote of its log, with the execution proof its precommits carry.\<close>

fun vote_message :: "bytes \<Rightarrow> (nat \<Rightarrow> string \<Rightarrow> bytes) \<Rightarrow> vote_entry \<Rightarrow> bytes" where
  "vote_message g ep e =
    (case ve_kind e of
       Prevote \<Rightarrow> prevote_signing_bytes g (ve_height e) (ve_round e) (ve_hash e)
     | Precommit \<Rightarrow> precommit_signing_bytes g (ve_height e) (ve_round e) (ve_hash e) (ep (ve_height e) (ve_hash e))
     | Timeout \<Rightarrow> round_timeout_signing_bytes g (ve_height e) (ve_round e) (ve_hash e))"

lemma first_field:
  assumes "concat (map (push_field []) (d # fs)) = concat (map (push_field []) (d' # fs'))"
    and "length d < 2 ^ 64" "length d' < 2 ^ 64"
  shows "d = d'"
  using push_field_prefix_free [of d d' "concat (map (push_field []) fs)" "concat (map (push_field []) fs')"] assms by simp

lemma vote_bytes_kinds:
  "prevote_signing_bytes g h r x \<noteq> precommit_signing_bytes g' h' r' x' ep"
  "prevote_signing_bytes g h r x \<noteq> round_timeout_signing_bytes g' h' r' x'"
  "precommit_signing_bytes g h r x ep \<noteq> round_timeout_signing_bytes g' h' r' x'"
  unfolding vote_bytes_fields
  by (auto dest!: first_field simp: DOMAIN_PREVOTE_def DOMAIN_PRECOMMIT_def DOMAIN_ROUND_TIMEOUT_def simp del: list.map concat.simps)

lemma prevote_bytes_inj:
  assumes "prevote_signing_bytes g h r x = prevote_signing_bytes g h' r' x'" "length g = 32"
    and "h < 2 ^ 64" "h' < 2 ^ 64" "r < 2 ^ 32" "r' < 2 ^ 32" "length x < 2 ^ 64" "length x' < 2 ^ 64"
  shows "h = h' \<and> r = r' \<and> x = x'"
proof -
  have "[DOMAIN_PREVOTE, g, to_le_bytes 8 h, to_le_bytes 4 r, x] = [DOMAIN_PREVOTE, g, to_le_bytes 8 h', to_le_bytes 4 r', x']"
    using assms unfolding vote_bytes_fields by (intro pf.fields_inj) (simp_all add: DOMAIN_PREVOTE_def)
  then show ?thesis using assms to_le_bytes_inj [of h 8 h'] to_le_bytes_inj [of r 4 r'] by simp
qed

lemma precommit_bytes_inj:
  assumes "precommit_signing_bytes g h r x ep = precommit_signing_bytes g h' r' x' ep'" "length g = 32"
    and "h < 2 ^ 64" "h' < 2 ^ 64" "r < 2 ^ 32" "r' < 2 ^ 32" "length x < 2 ^ 64" "length x' < 2 ^ 64"
    and "length ep < 2 ^ 64" "length ep' < 2 ^ 64"
  shows "h = h' \<and> r = r' \<and> x = x' \<and> ep = ep'"
proof -
  have "[DOMAIN_PRECOMMIT, g, to_le_bytes 8 h, to_le_bytes 4 r, x, ep] = [DOMAIN_PRECOMMIT, g, to_le_bytes 8 h', to_le_bytes 4 r', x', ep']"
    using assms unfolding vote_bytes_fields by (intro pf.fields_inj) (simp_all add: DOMAIN_PRECOMMIT_def)
  then show ?thesis using assms to_le_bytes_inj [of h 8 h'] to_le_bytes_inj [of r 4 r'] by simp
qed

text \<open>The key's other messages (dissents, divergence claims) open with another domain tag.\<close>

definition other_message :: "bytes \<Rightarrow> bool" where
  "other_message msg \<longleftrightarrow> (\<exists>d fs. msg = concat (map (push_field []) (d # fs)) \<and> length d < 2 ^ 64 \<and>
     d \<notin> {DOMAIN_PREVOTE, DOMAIN_PRECOMMIT, DOMAIN_ROUND_TIMEOUT})"

lemma dissent_is_other: "other_message (dissent_signing_bytes g h x sr hc ep reason)"
proof -
  have "dissent_signing_bytes g h x sr hc ep reason =
      concat (map (push_field []) [DOMAIN_DISSENT, g, to_le_bytes 8 h, x, sr, hc, ep, reason])"
    by (simp add: dissent_signing_bytes_def push_field_def Let_def)
  moreover have "DOMAIN_DISSENT \<notin> {DOMAIN_PREVOTE, DOMAIN_PRECOMMIT, DOMAIN_ROUND_TIMEOUT}" "length DOMAIN_DISSENT < 2 ^ 64"
    by (simp_all add: DOMAIN_DISSENT_def DOMAIN_PREVOTE_def DOMAIN_PRECOMMIT_def DOMAIN_ROUND_TIMEOUT_def)
  ultimately show ?thesis unfolding other_message_def by blast
qed

lemma other_message_no_vote:
  "\<not> other_message (prevote_signing_bytes g h r x)" "\<not> other_message (precommit_signing_bytes g h r x ep)"
  unfolding other_message_def vote_bytes_fields
  by (auto dest!: first_field simp: DOMAIN_PREVOTE_def DOMAIN_PRECOMMIT_def simp del: list.map concat.simps)

text \<open>A key that signs nothing but its validator's logged votes and messages of other kinds.\<close>

definition signs_log ::
  "(bytes \<Rightarrow> string \<Rightarrow> bool) \<Rightarrow> bytes \<Rightarrow> (nat \<Rightarrow> string \<Rightarrow> bytes) \<Rightarrow> vote_entry set \<Rightarrow> bool" where
  "signs_log verifies genesis ep votes \<longleftrightarrow>
    (\<forall>msg sig. verifies msg sig \<longrightarrow>
       (\<exists>e\<in>votes. vote_fits (ep (ve_height e) (ve_hash e)) e \<and> msg = vote_message genesis ep e) \<or> other_message msg)"

lemma signs_log_prevote:
  assumes "signs_log verifies g ep votes" "verifies (prevote_signing_bytes g h r x) sig"
    and "length g = 32" "h < 2 ^ 64" "r < 2 ^ 32" "length x < 2 ^ 64"
  shows "\<lparr> ve_kind = Prevote, ve_height = h, ve_round = r, ve_hash = x \<rparr> \<in> votes"
proof -
  obtain e where e: "e \<in> votes" "vote_fits (ep (ve_height e) (ve_hash e)) e" "prevote_signing_bytes g h r x = vote_message g ep e"
    using assms(1,2) other_message_no_vote(1) unfolding signs_log_def by blast
  have k: "ve_kind e = Prevote" using e(3) vote_bytes_kinds(1,2) by (cases "ve_kind e") simp_all
  have "prevote_signing_bytes g h r x = prevote_signing_bytes g (ve_height e) (ve_round e) (ve_hash e)" using e(3) k by simp
  from prevote_bytes_inj [OF this] assms(3-6) e(2) k have "e = \<lparr> ve_kind = Prevote, ve_height = h, ve_round = r, ve_hash = x \<rparr>"
    by (simp add: vote_fits_def)
  then show ?thesis using e(1) by simp
qed

lemma signs_log_precommit:
  assumes "signs_log verifies g ep votes" "verifies (precommit_signing_bytes g h r x p) sig"
    and "length g = 32" "h < 2 ^ 64" "r < 2 ^ 32" "length x < 2 ^ 64" "length p < 2 ^ 64"
  shows "\<lparr> ve_kind = Precommit, ve_height = h, ve_round = r, ve_hash = x \<rparr> \<in> votes \<and> p = ep h x"
proof -
  obtain e where e: "e \<in> votes" "vote_fits (ep (ve_height e) (ve_hash e)) e" "precommit_signing_bytes g h r x p = vote_message g ep e"
    using assms(1,2) other_message_no_vote(2) unfolding signs_log_def by blast
  have k: "ve_kind e = Precommit" using e(3) vote_bytes_kinds(1) [symmetric] vote_bytes_kinds(3) by (cases "ve_kind e") simp_all
  have "precommit_signing_bytes g h r x p = precommit_signing_bytes g (ve_height e) (ve_round e) (ve_hash e) (ep (ve_height e) (ve_hash e))"
    using e(3) k by simp
  from precommit_bytes_inj [OF this] assms(3-7) e(2) k
  have *: "h = ve_height e \<and> r = ve_round e \<and> x = ve_hash e \<and> p = ep (ve_height e) (ve_hash e)" by (simp add: vote_fits_def)
  then have "e = \<lparr> ve_kind = Precommit, ve_height = h, ve_round = r, ve_hash = x \<rparr>" using k by simp
  then show ?thesis using e(1) * by simp
qed

section \<open>What a vote artifact proves\<close>

lemma check_bls_Ok: "check_bls env field key sig_hex msg invalid = Ok () \<Longrightarrow> \<exists>sig. ae_bls_verify env msg key sig"
  by (auto simp: check_bls_def split: if_splits)

lemma vote_equivocation_signed:
  assumes "verify_vote_equivocation env kind pk height (ha, ra, ba, sa) (hb, rb, bb, sb) = Ok w"
  shows "\<exists>key sig sig'. bls_key env pk = Ok key \<and> ha = hb \<and> ra = rb \<and> ba \<noteq> bb \<and>
    ae_bls_verify env ba key sig \<and> ae_bls_verify env bb key sig'"
  using assms by (auto simp: verify_vote_equivocation_def split: if_splits dest!: check_bls_Ok)

definition prevote_fits :: "prevote_attestation \<Rightarrow> bool" where
  "prevote_fits a \<longleftrightarrow> va_height a < 2 ^ 64 \<and> va_round a < 2 ^ 32 \<and> length (va_block_hash a) < 2 ^ 64"

definition precommit_fits :: "precommit_attestation \<Rightarrow> bool" where
  "precommit_fits a \<longleftrightarrow> pa_height a < 2 ^ 64 \<and> pa_round a < 2 ^ 32 \<and> length (pa_block_hash a) < 2 ^ 64"

fun vote_fault_against :: "string \<Rightarrow> fault \<Rightarrow> bool" where
  "vote_fault_against pk (FaultPrevoteEquivocation pk' h a b) \<longleftrightarrow> pk' = pk \<and> prevote_fits a \<and> prevote_fits b"
| "vote_fault_against pk (FaultPrecommitEquivocation pk' h a b) \<longleftrightarrow> pk' = pk \<and> precommit_fits a \<and> precommit_fits b"
| "vote_fault_against pk _ \<longleftrightarrow> False"

lemma cited_precommit_Ok:
  "cited_precommit env g a = Ok c \<Longrightarrow>
   \<exists>ep. length ep = 32 \<and> c = (pa_height a, pa_round a, precommit_signing_bytes g (pa_height a) (pa_round a) (pa_block_hash a) ep, pa_signature a)"
  by (auto simp: cited_precommit_def sized_def art_signing_bytes split: if_splits)

lemma log_votes_never_equivocate:
  assumes log: "signs_log (\<lambda>msg sig. ae_bls_verify env msg key sig) genesis ep votes"
    and uniq: "\<And>e e'. e \<in> votes \<Longrightarrow> e' \<in> votes \<Longrightarrow> ve_kind e = ve_kind e' \<Longrightarrow> ve_height e = ve_height e' \<Longrightarrow>
      ve_round e = ve_round e' \<Longrightarrow> e = e'"
    and g: "decode_hex_32 env ''genesis_hash'' (ea_genesis_hash art) = Ok genesis"
    and k: "bls_key env pk = Ok key" and f: "vote_fault_against pk (ea_fault art)"
  shows "art_verify env art \<noteq> Ok w"
proof
  assume ok: "art_verify env art = Ok w"
  have len: "length genesis = 32" using g by (auto simp: decode_hex_32_def sized_def split: if_splits)
  show False
  proof (cases "ea_fault art")
    case (FaultPrevoteEquivocation pk' h a b)
    with ok g have "verify_vote_equivocation env ''prevote_equivocation'' pk h (cited_prevote genesis a) (cited_prevote genesis b) = Ok w"
      using f by (simp add: art_verify_def split: if_splits)
    from vote_equivocation_signed [OF this [unfolded cited_prevote_def art_signing_bytes]] k
    obtain sig sig' where s: "va_height a = va_height b" "va_round a = va_round b"
      "prevote_signing_bytes genesis (va_height a) (va_round a) (va_block_hash a) \<noteq>
       prevote_signing_bytes genesis (va_height b) (va_round b) (va_block_hash b)"
      "ae_bls_verify env (prevote_signing_bytes genesis (va_height a) (va_round a) (va_block_hash a)) key sig"
      "ae_bls_verify env (prevote_signing_bytes genesis (va_height b) (va_round b) (va_block_hash b)) key sig'" by auto
    have fits: "prevote_fits a" "prevote_fits b" using f FaultPrevoteEquivocation by simp_all
    from uniq [OF signs_log_prevote [OF log s(4) len] signs_log_prevote [OF log s(5) len]] fits s(1-3)
    show False by (simp add: prevote_fits_def)
  next
    case (FaultPrecommitEquivocation pk' h a b)
    with ok g obtain ca cb where c: "cited_precommit env genesis a = Ok ca" "cited_precommit env genesis b = Ok cb"
      "verify_vote_equivocation env ''precommit_equivocation'' pk h ca cb = Ok w"
      using f by (auto simp: art_verify_def verify_precommit_equivocation_def split: if_splits)
    from cited_precommit_Ok [OF c(1)] cited_precommit_Ok [OF c(2)] obtain p q where pq: "length p = 32" "length q = 32"
      "ca = (pa_height a, pa_round a, precommit_signing_bytes genesis (pa_height a) (pa_round a) (pa_block_hash a) p, pa_signature a)"
      "cb = (pa_height b, pa_round b, precommit_signing_bytes genesis (pa_height b) (pa_round b) (pa_block_hash b) q, pa_signature b)"
      by blast
    from vote_equivocation_signed [OF c(3) [unfolded pq]] k
    obtain sig sig' where s: "pa_height a = pa_height b" "pa_round a = pa_round b"
      "precommit_signing_bytes genesis (pa_height a) (pa_round a) (pa_block_hash a) p \<noteq>
       precommit_signing_bytes genesis (pa_height b) (pa_round b) (pa_block_hash b) q"
      "ae_bls_verify env (precommit_signing_bytes genesis (pa_height a) (pa_round a) (pa_block_hash a) p) key sig"
      "ae_bls_verify env (precommit_signing_bytes genesis (pa_height b) (pa_round b) (pa_block_hash b) q) key sig'" by auto
    have fits: "precommit_fits a" "precommit_fits b" using f FaultPrecommitEquivocation by simp_all
    from signs_log_precommit [OF log s(4) len] signs_log_precommit [OF log s(5) len] fits pq(1,2)
    have v: "\<lparr> ve_kind = Precommit, ve_height = pa_height a, ve_round = pa_round a, ve_hash = pa_block_hash a \<rparr> \<in> votes"
      "\<lparr> ve_kind = Precommit, ve_height = pa_height b, ve_round = pa_round b, ve_hash = pa_block_hash b \<rparr> \<in> votes"
      "p = ep (pa_height a) (pa_block_hash a)" "q = ep (pa_height b) (pa_block_hash b)" by (simp_all add: precommit_fits_def)
    from uniq [OF v(1,2)] s(1-3) v(3,4) show False by simp
  qed (use f in simp_all)
qed

section \<open>Properties\<close>


definition demo_vote :: vote_entry where
  "demo_vote = \<lparr> ve_kind = Prevote, ve_height = 1, ve_round = 0, ve_hash = ''b1'' \<rparr>"

definition demo_genesis :: bytes where "demo_genesis = replicate 32 CHR ''g''"

definition demo_art_env :: art_env where
  "demo_art_env = sample_art_env\<lparr> ae_bls_verify := (\<lambda>msg key sig. msg = vote_message demo_genesis (\<lambda>_ _. []) demo_vote) \<rparr>"

definition demo_artifact :: evidence_artifact where
  "demo_artifact =
    \<lparr> ea_version = ARTIFACT_VERSION, ea_genesis_hash = demo_genesis,
      ea_fault = FaultPrevoteEquivocation (replicate 48 CHR ''k'') 1
        \<lparr> va_height = 1, va_round = 0, va_block_hash = ''b1'', va_signature = replicate 96 CHR ''s'' \<rparr>
        \<lparr> va_height = 1, va_round = 0, va_block_hash = ''b2'', va_signature = replicate 96 CHR ''s'' \<rparr> \<rparr>"


end
