(* ===== verification/Execution_Fault.thy ===== *)
theory Execution_Fault
  imports Runtime_Consensus Artifact
begin

text \<open>
  The handler of \<^verbatim>\<open>SubmitExecutionFault\<close> (\<^verbatim>\<open>src/arxd/runtime/src/consensus.rs\<close>): an evidence artifact against a proposer or a voter is
  checked against this chain and its challenge window, judged, and turned into a slash or an open dispute.

  Parameters: \<open>parse\<close> is \<^verbatim>\<open>serde_json::from_str\<close>, and \<open>adjudicate\<close> the replay of a disputed block from its proofs
  (\<^verbatim>\<open>adjudicate.rs\<close>), which is not modelled: what is proved here holds whatever it answers.
\<close>

section \<open>The handler\<close>

datatype adjudication_outcome =
    AdjCulpable string
  | AdjDisagreement string

datatype 'e fault_error =
    MalformedArtifact
  | ExNoGenesisHash
  | ForeignGenesis string
  | ChallengeWindowClosed nat nat
  | AdjudicationFailed 'e
  | InvalidVoteArtifact verify_error
  | NoCulpritNamed
  | UseEquivocationAction
  | NoAdjudicationPath
  | AdjudicatedDisagreement string
  | MalformedCulprit
  | CulpritAddress address_error
  | CulpritKeyLength
  | UnregisteredCulprit
  | NeitherParty
  | FaultAlreadyProcessed address nat
  | DisputedHeader verify_error
  | FtRuntime runtime_error

definition genesis_hash_matches :: "(string \<Rightarrow> string option) \<Rightarrow> string \<Rightarrow> string \<Rightarrow> bool" where
  "genesis_hash_matches hex_decode a b =
    (case (hash32_parse hex_decode a, hash32_parse hex_decode b) of (Some x, Some y) \<Rightarrow> x = y | _ \<Rightarrow> False)"

record judgement =
  jd_outcome :: adjudication_outcome
  jd_height :: nat
  jd_proposer_pubkey :: string
  jd_voter_pubkey :: string
  jd_reason :: slash_reason

definition judge_fault ::
  "art_env \<Rightarrow> (evidence_artifact \<Rightarrow> ('e, adjudication_outcome) result) \<Rightarrow> evidence_artifact \<Rightarrow>
   ('e fault_error, judgement) result" where
  "judge_fault aenv adjudicate art =
    (let votes = (\<lambda>voter height.
       and_then (map_err InvalidVoteArtifact (art_verify aenv art)) (\<lambda>verdict.
       (case verdict of
          Culpable _ pk \<Rightarrow> Ok \<lparr> jd_outcome = AdjCulpable pk, jd_height = height, jd_proposer_pubkey = [],
                               jd_voter_pubkey = voter, jd_reason = DoubleSign \<rparr>
        | Disagreement _ _ \<Rightarrow> Err NoCulpritNamed)))
     in
     case ea_fault art of
       FaultBlockDivergence prop_key voter height _ _ _ \<Rightarrow>
         and_then (map_err AdjudicationFailed (adjudicate art)) (\<lambda>outcome.
         Ok \<lparr> jd_outcome = outcome, jd_height = height, jd_proposer_pubkey = prop_key, jd_voter_pubkey = voter,
              jd_reason = ExecutionFault \<rparr>)
     | FaultPrevoteEquivocation voter height _ _ \<Rightarrow> votes voter height
     | FaultPrecommitEquivocation voter height _ _ \<Rightarrow> votes voter height
     | FaultEquivocation _ _ _ _ \<Rightarrow> Err UseEquivocationAction
     | FaultExecutionDisagreement _ _ _ _ \<Rightarrow> Err NoAdjudicationPath
     | FaultActionDivergence _ _ _ _ _ _ _ \<Rightarrow> Err NoAdjudicationPath)"

definition window_closed :: "view \<Rightarrow> fault \<Rightarrow> nat \<Rightarrow> (nat \<times> nat) option" where
  "window_closed v f current_height =
    (case f of
       FaultBlockDivergence _ _ height _ _ _ \<Rightarrow>
         (let closes = saturating_add u64_max height (challenge_window_blocks (chain_params_of v)) in
          if closes < current_height then Some (height, closes) else None)
     | _ \<Rightarrow> None)"

definition fault_culprit ::
  "'p crypto \<Rightarrow> (string \<Rightarrow> address option) \<Rightarrow> judgement \<Rightarrow> string \<Rightarrow> ('e fault_error, bool \<times> address) result" where
  "fault_culprit cr owner_lookup j culpable_pubkey =
    (let decode = (\<lambda>s. cr_hex_decode cr (strip_0x s)) in
     and_then (ok_or MalformedCulprit (decode culpable_pubkey)) (\<lambda>culpable.
     (let proposer_culpable = (decode (jd_proposer_pubkey j) = Some culpable) in
      if proposer_culpable
      then and_then (map_err CulpritAddress (addr_from_pubkey_bytes cr culpable)) (\<lambda>a. Ok (True, a))
      else if decode (jd_voter_pubkey j) = Some culpable
      then (if length culpable \<noteq> 48 then Err CulpritKeyLength
            else and_then (ok_or UnregisteredCulprit (owner_lookup culpable)) (\<lambda>a. Ok (False, a)))
      else Err NeitherParty)))"

definition disputed_block ::
  "art_env \<Rightarrow> 'p crypto \<Rightarrow> view \<Rightarrow> string \<Rightarrow> evidence_artifact \<Rightarrow> bool \<Rightarrow> ('e fault_error, (string \<times> dispute_cause) option) result" where
  "disputed_block aenv cr v chain_genesis art upheld =
    (case ea_fault art of
       FaultBlockDivergence _ _ _ att _ _ \<Rightarrow>
         if upheld
         then
          and_then (ok_or (ForeignGenesis chain_genesis) (hash32_parse (cr_hex_decode cr) chain_genesis)) (\<lambda>genesis.
          and_then (map_err DisputedHeader (signing_bytes_for aenv genesis (ba_header att))) (\<lambda>bytes.
          Ok (Some (ae_sha aenv bytes, classify_build (chain_params_of v) (ch_build_id (ba_header att))))))
         else Ok None
     | _ \<Rightarrow> Ok None)"

text \<open>What follows once a culprit is named.\<close>

definition settle_fault ::
  "hasher \<Rightarrow> art_env \<Rightarrow> 'p crypto \<Rightarrow> view \<Rightarrow> string \<Rightarrow> evidence_artifact \<Rightarrow> nat \<Rightarrow> (string \<Rightarrow> address option) \<Rightarrow> address \<Rightarrow>
   judgement \<Rightarrow> string \<Rightarrow> ('e fault_error, block_updates) result" where
  "settle_fault H aenv cr v chain_genesis art current_height owner_lookup chal j culpable_pubkey =
    and_then (fault_culprit cr owner_lookup j culpable_pubkey) (\<lambda>(proposer_culpable, who).
    if v_evidence_marker v (jd_height j, who) \<noteq> None then Err (FaultAlreadyProcessed who (jd_height j))
    else
     and_then (disputed_block aenv cr v chain_genesis art (jd_reason j \<noteq> DoubleSign \<and> proposer_culpable)) (\<lambda>disputed.
     and_then (if disputed \<noteq> None then Ok default_updates
               else map_err FtRuntime (fault_slash H v who (jd_reason j) current_height chal)) (\<lambda>u.
     Ok (u\<lparr> bu_evidence := Some \<lparr> em_height = jd_height j, em_proposer = who,
              em_disputed = map_option fst disputed,
              em_challenger = map_option (\<lambda>_. chal) disputed,
              em_cause = map_option snd disputed \<rparr> \<rparr>))))"

definition submit_execution_fault ::
  "hasher \<Rightarrow> art_env \<Rightarrow> 'p crypto \<Rightarrow> (string \<Rightarrow> evidence_artifact option) \<Rightarrow>
   (evidence_artifact \<Rightarrow> ('e, adjudication_outcome) result) \<Rightarrow>
   view \<Rightarrow> string \<Rightarrow> nat \<Rightarrow> (string \<Rightarrow> address option) \<Rightarrow> address \<Rightarrow> ('e fault_error, block_updates) result" where
  "submit_execution_fault H aenv cr parse adjudicate v artifact_json current_height owner_lookup chal =
    and_then (ok_or MalformedArtifact (parse artifact_json)) (\<lambda>art.
    and_then (ok_or ExNoGenesisHash (v_genesis_hash v)) (\<lambda>chain_genesis.
    if \<not> genesis_hash_matches (cr_hex_decode cr) chain_genesis (ea_genesis_hash art)
    then Err (ForeignGenesis (ea_genesis_hash art))
    else
     (case window_closed v (ea_fault art) current_height of
        Some (height, closes) \<Rightarrow> Err (ChallengeWindowClosed height closes)
      | None \<Rightarrow>
        and_then (judge_fault aenv adjudicate art) (\<lambda>j.
        (case jd_outcome j of
           AdjDisagreement why \<Rightarrow> Err (AdjudicatedDisagreement why)
         | AdjCulpable culpable_pubkey \<Rightarrow>
             settle_fault H aenv cr v chain_genesis art current_height owner_lookup chal j culpable_pubkey)))))"

section \<open>What the handler reads\<close>

definition same_fault_rows :: "view \<Rightarrow> view \<Rightarrow> bool" where
  "same_fault_rows v w \<longleftrightarrow>
     v_genesis_hash v = v_genesis_hash w \<and> chain_params_of v = chain_params_of w \<and> v_evidence_marker v = v_evidence_marker w"

text \<open>An accepted artifact, step by step, and in its two outcomes.\<close>

lemma settle_fault_OkE:
  assumes "settle_fault H aenv cr v g art h owns chal j pk = (Ok u :: ('e fault_error, _) result)"
  obtains p who d s where "fault_culprit cr owns j pk = (Ok (p, who) :: ('e fault_error, _) result)"
      "v_evidence_marker v (jd_height j, who) = None"
      "disputed_block aenv cr v g art (jd_reason j \<noteq> DoubleSign \<and> p) = (Ok d :: ('e fault_error, _) result)"
      "if d \<noteq> None then s = default_updates else fault_slash H v who (jd_reason j) h chal = Ok s"
      "u = s\<lparr> bu_evidence := Some \<lparr> em_height = jd_height j, em_proposer = who, em_disputed = map_option fst d,
             em_challenger = map_option (\<lambda>_. chal) d, em_cause = map_option snd d \<rparr> \<rparr>"
proof -
  obtain p who where c: "fault_culprit cr owns j pk = (Ok (p, who) :: ('e fault_error, _) result)"
    using assms by (auto simp: settle_fault_def)
  moreover from assms have "v_evidence_marker v (jd_height j, who) = None"
    by (rule contrapos_pp) (simp add: settle_fault_def c)
  ultimately have p: "fault_culprit cr owns j pk = (Ok (p, who) :: ('e fault_error, _) result)"
      "v_evidence_marker v (jd_height j, who) = None" by simp_all
  obtain d s where d: "disputed_block aenv cr v g art (jd_reason j \<noteq> DoubleSign \<and> p) = (Ok d :: ('e fault_error, _) result)"
      "(if d \<noteq> None then Ok default_updates
        else map_err FtRuntime (fault_slash H v who (jd_reason j) h chal)) = (Ok s :: ('e fault_error, _) result)"
      "u = s\<lparr> bu_evidence := Some \<lparr> em_height = jd_height j, em_proposer = who, em_disputed = map_option fst d,
             em_challenger = map_option (\<lambda>_. chal) d, em_cause = map_option snd d \<rparr> \<rparr>"
    using assms p unfolding settle_fault_def
    by (simp only: and_then.simps prod.case not_True_eq_False if_False simp_thms and_then_Ok_iff) (elim exE conjE, simp)
  show ?thesis by (rule that [OF p d(1) _ d(3)]) (use d(2) in \<open>auto split: if_splits\<close>)
qed

lemma submit_execution_fault_OkE:
  assumes "submit_execution_fault H aenv cr parse adj v json h owns chal = (Ok u :: ('e fault_error, _) result)"
  obtains art g j pk where "parse json = Some art" "v_genesis_hash v = Some g"
      "genesis_hash_matches (cr_hex_decode cr) g (ea_genesis_hash art)" "window_closed v (ea_fault art) h = None"
      "judge_fault aenv adj art = Ok j" "jd_outcome j = AdjCulpable pk"
      "settle_fault H aenv cr v g art h owns chal j pk = (Ok u :: ('e fault_error, _) result)"
proof -
  obtain art g where ag: "parse json = Some art" "v_genesis_hash v = Some g"
      "genesis_hash_matches (cr_hex_decode cr) g (ea_genesis_hash art)"
    using assms by (auto simp: submit_execution_fault_def split: if_splits)
  moreover from this assms have w: "window_closed v (ea_fault art) h = None"
    by (cases "window_closed v (ea_fault art) h") (simp_all add: submit_execution_fault_def split: prod.splits)
  ultimately obtain j where j: "judge_fault aenv adj art = Ok j"
    using assms by (auto simp: submit_execution_fault_def)
  then show ?thesis
    using assms ag w that by (cases "jd_outcome j") (simp_all add: submit_execution_fault_def)
qed

text \<open>An upheld dispute depends on no more than these rows, and who submits it only decides who is named in it.\<close>

lemma submit_execution_fault_frame:
  assumes "same_fault_rows v w" and "submit_execution_fault H aenv cr parse adj v json h owns a = (Ok u :: ('e fault_error, _) result)"
    and "bu_evidence u = Some m" and "em_disputed m = Some header"
  shows "submit_execution_fault H aenv cr parse adj w json h owns b =
    (Ok (default_updates\<lparr> bu_evidence := Some (m\<lparr> em_challenger := Some b \<rparr>) \<rparr>) :: ('e fault_error, _) result)"
proof -
  have rows: "v_genesis_hash w = v_genesis_hash v" "chain_params_of w = chain_params_of v"
    "v_evidence_marker w = v_evidence_marker v"
    using assms(1) by (simp_all add: same_fault_rows_def)
  have wc: "window_closed w f k = window_closed v f k" for f k by (simp add: window_closed_def rows split: fault.split)
  have db: "disputed_block aenv cr w gen art up = disputed_block aenv cr v gen art up" for gen art up
    by (simp add: disputed_block_def rows split: fault.split)
  from assms(2) obtain art g j pk where o: "parse json = Some art" "v_genesis_hash v = Some g"
      "genesis_hash_matches (cr_hex_decode cr) g (ea_genesis_hash art)" "window_closed v (ea_fault art) h = None"
      "judge_fault aenv adj art = Ok j" "jd_outcome j = AdjCulpable pk"
      "settle_fault H aenv cr v g art h owns a j pk = (Ok u :: ('e fault_error, _) result)"
    by (rule submit_execution_fault_OkE)
  from o(7) obtain p who d s where d: "fault_culprit cr owns j pk = (Ok (p, who) :: ('e fault_error, _) result)"
      "v_evidence_marker v (jd_height j, who) = None"
      "disputed_block aenv cr v g art (jd_reason j \<noteq> DoubleSign \<and> p) = (Ok d :: ('e fault_error, _) result)"
      "if d \<noteq> None then s = default_updates else fault_slash H v who (jd_reason j) h a = Ok s"
      "u = s\<lparr> bu_evidence := Some \<lparr> em_height = jd_height j, em_proposer = who, em_disputed = map_option fst d,
             em_challenger = map_option (\<lambda>_. a) d, em_cause = map_option snd d \<rparr> \<rparr>"
    by (rule settle_fault_OkE)
  from d(4,5) assms(3,4) obtain x where x: "d = Some x"
    "m = \<lparr> em_height = jd_height j, em_proposer = who, em_disputed = Some (fst x), em_challenger = Some a, em_cause = Some (snd x) \<rparr>"
    by (cases d) auto
  have "settle_fault H aenv cr w g art h owns b j pk =
      (Ok (default_updates\<lparr> bu_evidence := Some (m\<lparr> em_challenger := Some b \<rparr>) \<rparr>) :: ('e fault_error, _) result)"
    unfolding settle_fault_def d(1) rows db and_then.simps prod.case d(2,3) x by simp
  then show ?thesis
    unfolding submit_execution_fault_def o(1) rows o(2) wc by (simp add: o(3-6) ok_or_def)
qed

section \<open>Properties\<close>


definition sample_divergence :: evidence_artifact where
  "sample_divergence =
    \<lparr> ea_version = 6, ea_genesis_hash = replicate 32 CHR ''g'',
      ea_fault = FaultBlockDivergence ''pk'' ''vk'' 7
        \<lparr> ba_header = \<lparr> ch_height = 7, ch_parent_hash = ''p'', ch_timestamp = 9, ch_tx_root = replicate 32 CHR ''t'',
             ch_proposer = ''arx'', ch_parent_state_root = [], ch_state_root = [], ch_round = 0, ch_build_id = ''1.0'' \<rparr>,
           ba_signature = [] \<rparr>
        [] \<lparr> bd_computed_state_root = ''other'', bd_proofs = [], bd_signature = [] \<rparr> \<rparr>"

definition sample_fault_view :: view where
  "sample_fault_view = empty_view\<lparr> v_genesis_hash := Some (replicate 32 CHR ''g'') \<rparr>"

abbreviation sample_submit :: "address \<Rightarrow> (unit fault_error, block_updates) result" where
  "sample_submit \<equiv> submit_execution_fault (\<lambda>x. Address x) sample_art_env (sample_crypto (\<lambda>x. x))
     (\<lambda>_. Some sample_divergence) (\<lambda>_. Ok (AdjCulpable ''pk'')) sample_fault_view ''json'' 8 (\<lambda>_. None)"

lemma sample_plain: "strip_0x (replicate 32 CHR ''t'') = replicate 32 CHR ''t''"
  "hash32_parse Some (replicate 32 CHR ''g'') = Some (replicate 32 CHR ''g'')"
  by (simp_all add: strip_0x_def hash32_parse_def numeral_eq_Suc)

lemma sample_signed_header:
  assumes "ch_tx_root h = replicate 32 CHR ''t''"
  shows "signing_bytes_for sample_art_env g h = Ok (ch_parent_hash h)"
  using assms by (simp add: signing_bytes_for_def art_decode_hex_def sample_plain sized_def ok_or_def sample_art_env_def)

lemma sample_window: "window_closed sample_fault_view (ea_fault sample_divergence) 8 = None"
  by (simp add: window_closed_def sample_divergence_def sample_fault_view_def empty_view_def chain_params_of_def
      default_chain_params_def saturating_add_def u64_max_def)

lemma sample_judged: "judge_fault sample_art_env (\<lambda>_. Ok (AdjCulpable ''pk'')) sample_divergence =
    Ok \<lparr> jd_outcome = AdjCulpable ''pk'', jd_height = 7, jd_proposer_pubkey = ''pk'', jd_voter_pubkey = ''vk'',
          jd_reason = ExecutionFault \<rparr>"
  by (simp add: judge_fault_def sample_divergence_def)

lemma sample_disputed:
  "disputed_block sample_art_env (sample_crypto (\<lambda>x. x)) sample_fault_view (replicate 32 CHR ''g'') sample_divergence True =
    Ok (Some (replicate 32 CHR ''h'', classify_build (chain_params_of sample_fault_view) ''1.0''))"
  by (simp add: disputed_block_def sample_divergence_def sample_crypto_def sample_plain ok_or_def sample_signed_header)
     (simp add: sample_art_env_def)

lemma sample_submit_ok:
  "\<exists>u m header. sample_submit who = Ok u \<and> bu_evidence u = Some m \<and> em_disputed m = Some header"
proof -
  let ?cr = "sample_crypto (\<lambda>x. x)"
  have hex: "cr_hex_decode ?cr = Some" by (simp add: sample_crypto_def)
  have c: "fault_culprit ?cr (\<lambda>_. None) \<lparr> jd_outcome = AdjCulpable ''pk'', jd_height = 7, jd_proposer_pubkey = ''pk'',
      jd_voter_pubkey = ''vk'', jd_reason = ExecutionFault \<rparr> ''pk'' = Ok (True, Address ''arx1pk'')"
    by (simp add: fault_culprit_def hex strip_0x_def ok_or_def addr_from_pubkey_bytes_def)
       (simp add: sample_crypto_def ADDRESS_HRP_def)
  have v: "v_genesis_hash sample_fault_view = Some (replicate 32 CHR ''g'')" "v_evidence_marker sample_fault_view x = None" for x
    by (simp_all add: sample_fault_view_def empty_view_def)
  have g: "genesis_hash_matches Some (replicate 32 CHR ''g'') (ea_genesis_hash sample_divergence)"
    by (simp add: genesis_hash_matches_def sample_divergence_def sample_plain)
  show ?thesis
    unfolding submit_execution_fault_def settle_fault_def ok_or_def option.case and_then.simps v hex
    using g by (simp only: simp_thms if_False sample_window sample_judged option.case and_then.simps judgement.simps
        adjudication_outcome.case c prod.case sample_disputed v slash_reason.distinct not_True_eq_False) simp
qed


end
