(* ===== verification/Dispatch.thy ===== *)
theory Dispatch
  imports Execution_Fault Asset_Invariant Account_Policy Epoch_Seal Account_Circuit
begin

text \<open>
  CoreChain's state transition function: the payload of an action (\<^verbatim>\<open>src/arxd/runtime/src/payload.rs\<close>), its weight and fee
  (\<^verbatim>\<open>metering.rs\<close>), the authorization and the spending rules of a programmable sender (\<^verbatim>\<open>account_policy.rs\<close>), and
  \<open>dispatch\<close> (\<^verbatim>\<open>lib.rs\<close>), which routes an action to its handler, consumes its nonce and charges its fee.

  Third-party code is the record \<open>runtime_env\<close>: hashing, encodings and signatures (\<open>crypto\<close>, \<open>art_env\<close>), BLS proofs of
  possession, the Ed25519 check of a block, its digest, the length of an action's bincode bytes, the Groth16 verifiers with
  the parsing of their inputs, and the JSON of an evidence artifact. \<open>re_adjudicate\<close> is the replay of a disputed block
  (\<^verbatim>\<open>adjudicate.rs\<close>). The blocks of equivocation evidence carry payloads of a type of their own, \<open>'q\<close>: only their digest is taken.
\<close>

section \<open>Payloads\<close>

datatype 'q action_payload =
    ActTransfer address nat
  | ActJoinValidator address nat string string
  | ActLeaveValidator address
  | ActStake address nat
  | ActUnstake address nat
  | ActSubmitEquivocationEvidence "'q block" "'q block"
  | ActRegisterBlsKey address string string
  | ActVerifyIdentityCredential string
  | ActAuthorizeOperator address
  | ActRevokeOperator
  | ActGrantAttestation address string "claim_topic list" "string option"
  | ActRevokeAttestation address
  | ActRegisterAsset string bool asset_metadata
  | ActIssueAsset asset_ref nat
  | ActTransferAsset asset_ref address nat
  | ActSubmitExecutionFault string
  | ActFreezeAsset asset_ref string
  | ActUnfreezeAsset asset_ref string
  | ActBurnAsset asset_ref nat
  | ActSetHolderFrozen asset_ref address bool
  | ActLockHolderAmount asset_ref address nat
  | ActUnlockHolderAmount asset_ref address nat
  | ActIssuerForcedTransfer asset_ref address address nat string
  | ActRecoverHolder asset_ref address address
  | ActIssueAssetTo asset_ref address nat
  | ActLockIssuance asset_ref
  | ActTransferIssuer asset_ref address
  | ActSetAssetMetadataUri asset_ref "string option"
  | ActSetAssetLimits asset_ref "nat option" "nat option" "nat option"
  | ActLockHolderAmountUntil asset_ref address nat nat
  | ActSubmitProposal governance_action string
  | ActVoteProposal nat bool
  | ActExecuteProposal nat
  | ActSnapshotHolders asset_ref
  | ActDistributeToHolders asset_ref nat asset_ref nat
  | ActRedeemHolders asset_ref nat
  | ActSplitAsset asset_ref nat nat nat
  | ActVerifyClaimProof asset_ref string nat string
  | ActSetPrivateClaims asset_ref bool
  | ActToken token_action
  | ActAccountPolicy account_policy_action
  | ActApplyAttestor string "address list" nat string string
  | ActBlockAttestor

type_synonym 'q chain_action = "'q action_payload action"

record ('q, 'f, 'z, 'x) runtime_env =
  re_hasher :: hasher
  re_crypto :: "'q action_payload crypto"
  re_art :: art_env
  re_possession :: "string \<Rightarrow> string \<Rightarrow> bool + unit"
  re_verifies :: "string \<Rightarrow> block_signing_payload \<Rightarrow> string \<Rightarrow> bool"
  re_digest :: "'q block \<Rightarrow> string"
  re_encoded_len :: "'q chain_action \<Rightarrow> nat option"
  re_field_of :: "string \<Rightarrow> 'f option"
  re_proof_of :: "string \<Rightarrow> 'z option"
  re_verify_credential :: "'f \<Rightarrow> string \<Rightarrow> 'z \<Rightarrow> bool"
  re_country_set :: "string list \<Rightarrow> nat list option"
  re_verify_predicate :: "'f \<Rightarrow> string \<Rightarrow> string \<Rightarrow> nat \<Rightarrow> nat list \<Rightarrow> 'f \<Rightarrow> nat \<Rightarrow> 'z \<Rightarrow> bool"
  re_parse_artifact :: "string \<Rightarrow> evidence_artifact option"
  re_adjudicate :: "evidence_artifact \<Rightarrow> ('x, adjudication_outcome) result"

datatype 'x dispatch_error =
    ErrRuntime runtime_error
  | ErrConsensus consensus_error
  | ErrFault "'x fault_error"
  | ErrAsset asset_handler_error
  | ErrAccount account_error
  | ErrSignature signature_error
  | NotActivated
  | GuardianScope
  | SessionsTransferOnly
  | SessionScope
  | MissingSenderUpdate
  | OverweightAction nat nat
  | HeightOverflow

text \<open>What the circuits take of the address and multisig code.\<close>

definition ok_option :: "('e, 'a) result \<Rightarrow> 'a option" where
  "ok_option r = (case r of Ok x \<Rightarrow> Some x | _ \<Rightarrow> None)"

definition pubkey_of :: "'p crypto \<Rightarrow> address \<Rightarrow> string option" where
  "pubkey_of cr a = ok_option (addr_pubkey_bytes cr a)"

definition single_key_of :: "'p crypto \<Rightarrow> address \<Rightarrow> pubkey option" where
  "single_key_of cr a = Option.bind (pubkey_of cr a) (\<lambda>b. if length b = 32 then Some b else None)"

definition derive_of :: "'p crypto \<Rightarrow> address \<Rightarrow> string \<Rightarrow> asset_ref option" where
  "derive_of cr a aid = ok_option (ref_derive cr a aid)"

definition multisig_of :: "'p crypto \<Rightarrow> nat \<Rightarrow> pubkey list \<Rightarrow> address option" where
  "multisig_of cr t ks = ok_option (multisig_address cr t ks)"

section \<open>Weight\<close>

definition WEIGHT_PER_BYTE :: nat where "WEIGHT_PER_BYTE = 1"
definition POLICY_AUTHORIZATION_WEIGHT :: nat where "POLICY_AUTHORIZATION_WEIGHT = 5000"

definition base_weight :: "'q action_payload \<Rightarrow> nat" where
  "base_weight p =
    (case p of
       ActTransfer _ _ \<Rightarrow> 50
     | ActStake _ _ \<Rightarrow> 100 | ActUnstake _ _ \<Rightarrow> 100
     | ActJoinValidator _ _ _ _ \<Rightarrow> 1500 | ActRegisterBlsKey _ _ _ \<Rightarrow> 1500
     | ActLeaveValidator _ \<Rightarrow> 150
     | ActAuthorizeOperator _ \<Rightarrow> 100 | ActRevokeOperator \<Rightarrow> 100
     | ActVerifyIdentityCredential _ \<Rightarrow> 5000 | ActVerifyClaimProof _ _ _ _ \<Rightarrow> 5000
     | ActGrantAttestation _ _ _ _ \<Rightarrow> 100 | ActRevokeAttestation _ \<Rightarrow> 100
     | ActApplyAttestor _ _ _ _ _ \<Rightarrow> 150 | ActBlockAttestor \<Rightarrow> 150
     | ActRegisterAsset _ _ _ \<Rightarrow> 150
     | ActIssueAsset _ _ \<Rightarrow> 150 | ActIssueAssetTo _ _ _ \<Rightarrow> 150 | ActTransferAsset _ _ _ \<Rightarrow> 150
     | ActIssuerForcedTransfer _ _ _ _ _ \<Rightarrow> 150 | ActBurnAsset _ _ \<Rightarrow> 150 | ActRecoverHolder _ _ _ \<Rightarrow> 150
     | ActFreezeAsset _ _ \<Rightarrow> 100 | ActUnfreezeAsset _ _ \<Rightarrow> 100 | ActSetHolderFrozen _ _ _ \<Rightarrow> 100
     | ActLockHolderAmount _ _ _ \<Rightarrow> 100 | ActLockHolderAmountUntil _ _ _ _ \<Rightarrow> 100
     | ActUnlockHolderAmount _ _ _ \<Rightarrow> 100 | ActSetAssetLimits _ _ _ _ \<Rightarrow> 100 | ActSetPrivateClaims _ _ \<Rightarrow> 100
     | ActLockIssuance _ \<Rightarrow> 100 | ActTransferIssuer _ _ \<Rightarrow> 100 | ActSetAssetMetadataUri _ _ \<Rightarrow> 100
     | ActSnapshotHolders _ \<Rightarrow> 2000
     | ActDistributeToHolders _ _ _ _ \<Rightarrow> 15000
     | ActRedeemHolders _ _ \<Rightarrow> 10000 | ActSplitAsset _ _ _ _ \<Rightarrow> 10000
     | ActSubmitProposal _ _ \<Rightarrow> 150 | ActVoteProposal _ _ \<Rightarrow> 150 | ActExecuteProposal _ \<Rightarrow> 150
     | ActSubmitEquivocationEvidence _ _ \<Rightarrow> 2000
     | ActSubmitExecutionFault _ \<Rightarrow> 500000
     | ActToken ta \<Rightarrow> (case ta of TkCreate _ _ _ _ _ _ \<Rightarrow> 150 | _ \<Rightarrow> 100)
     | ActAccountPolicy _ \<Rightarrow> 1000)"

definition policy_witness :: "string \<Rightarrow> bool" where
  "policy_witness signature \<longleftrightarrow> 128 < length signature \<and>
     map to_ascii_lowercase (take 4 signature) \<in> {''a700'', ''a701'', ''a702''}"

definition action_weight :: "('q, 'f, 'z, 'x) runtime_env \<Rightarrow> 'q chain_action \<Rightarrow> nat" where
  "action_weight env act =
    (let bytes = (case re_encoded_len env act of Some n \<Rightarrow> n | None \<Rightarrow> u64_max div max WEIGHT_PER_BYTE 1);
         policy_weight = (case act_signature act of
                            Some signature \<Rightarrow> if policy_witness signature then POLICY_AUTHORIZATION_WEIGHT else 0
                          | None \<Rightarrow> 0)
     in saturating_add u64_max (saturating_add u64_max (base_weight (act_payload act)) policy_weight)
          (min u64_max (bytes * WEIGHT_PER_BYTE)))"

section \<open>Programmable senders\<close>

definition transfer_of :: "'q action_payload \<Rightarrow> (spend_asset \<times> address \<times> nat) option" where
  "transfer_of p =
    (case p of
       ActTransfer to amount \<Rightarrow> Some (Native, to, amount)
     | ActTransferAsset r to amount \<Rightarrow> Some (SpendAsset r, to, amount)
     | ActToken (TkTransfer r to amount) \<Rightarrow> Some (SpendAsset r, to, amount)
     | _ \<Rightarrow> None)"

fun recovery_or_session :: "account_policy_action \<Rightarrow> bool" where
  "recovery_or_session (AddSession _) = True"
| "recovery_or_session (StartRecovery _) = True"
| "recovery_or_session ExecuteRecovery = True"
| "recovery_or_session _ = False"

definition guardian_payload :: "'q action_payload \<Rightarrow> bool" where
  "guardian_payload p =
    (case p of ActAccountPolicy pa \<Rightarrow> (case pa of StartRecovery _ \<Rightarrow> True | ExecuteRecovery \<Rightarrow> True | _ \<Rightarrow> False) | _ \<Rightarrow> False)"

definition check_set_policy :: "'q action_payload crypto \<Rightarrow> bool \<Rightarrow> 'q action_payload \<Rightarrow> ('x dispatch_error, unit) result" where
  "check_set_policy cr extensions p =
    (case p of
       ActAccountPolicy (SetPolicy pol) \<Rightarrow>
         and_then (map_err ErrSignature (policy_validate cr pol)) (\<lambda>_.
         if \<not> extensions \<and> (sessions pol \<noteq> [] \<or> recovery pol \<noteq> None) then Err NotActivated else Ok ())
     | _ \<Rightarrow> Ok ())"

text \<open>What the capability that signed allows; an index beyond the sessions is a panic.\<close>

definition check_capability ::
  "programmable_account \<Rightarrow> 'q action_payload \<Rightarrow> nat \<Rightarrow> policy_authorization \<Rightarrow> ('x dispatch_error, policy_authorization) result" where
  "check_capability st p height auth =
    (case auth of
       Guardian \<Rightarrow> if guardian_payload p then Ok auth else Err GuardianScope
     | Session i \<Rightarrow>
         if length (sessions (policy st)) \<le> i then Panic
         else
          (let s = sessions (policy st) ! i in
           and_then (ok_or SessionsTransferOnly (transfer_of p)) (\<lambda>(a, to, amount).
           if expires_at s \<le> height \<or> session_asset s \<noteq> a \<or> to \<notin> set (session_recipients s) \<or> allowance s < amount
           then Err SessionScope else Ok auth))
     | Owner \<Rightarrow> Ok auth)"

definition policy_authorize ::
  "('q, 'f, 'z, 'x) runtime_env \<Rightarrow> 'q chain_action \<Rightarrow> view \<Rightarrow> nat \<Rightarrow> string \<Rightarrow> ('x dispatch_error, policy_authorization) result" where
  "policy_authorize env act v height genesis =
    (let cr = re_crypto env; extensions = account_extensions_enabled (chain_params_of v) in
     if \<not> extensions \<and> (case act_payload act of ActAccountPolicy pa \<Rightarrow> recovery_or_session pa | _ \<Rightarrow> False)
     then Err NotActivated
     else
      and_then (check_set_policy cr extensions (act_payload act)) (\<lambda>_.
      (case programmable (account_of v (act_sender act)) of
         None \<Rightarrow> Ok Owner
       | Some st \<Rightarrow>
           and_then (map_err ErrSignature (verify_account_signature cr (Some st) genesis act)) (\<lambda>auth.
           if \<not> extensions \<and> auth \<noteq> Owner then Err NotActivated
           else check_capability st (act_payload act) height auth))))"

definition policy_precheck ::
  "('q, 'f, 'z, 'x) runtime_env \<Rightarrow> 'q chain_action \<Rightarrow> view \<Rightarrow> nat \<Rightarrow> string \<Rightarrow> ('x dispatch_error, unit) result" where
  "policy_precheck env act v height genesis =
    and_then (policy_authorize env act v height genesis) (\<lambda>_.
    (case act_payload act of
       ActAccountPolicy (SetPolicy pol) \<Rightarrow> map_err ErrSignature (policy_validate (re_crypto env) pol)
     | _ \<Rightarrow> Ok ()))"

definition policy_apply ::
  "('q, 'f, 'z, 'x) runtime_env \<Rightarrow> 'q chain_action \<Rightarrow> view \<Rightarrow> account_policy_action \<Rightarrow> nat \<Rightarrow> string \<Rightarrow>
   ('x dispatch_error, block_updates) result" where
  "policy_apply env act v pa height genesis =
    and_then (policy_authorize env act v height genesis) (\<lambda>auth.
    (let entry = account_of v (act_sender act) in
     and_then (if programmable entry = None
               then map_err ErrSignature (verify_signature (re_crypto env) genesis act) else Ok ()) (\<lambda>_.
     and_then (map_err ErrSignature (apply_policy_action (re_crypto env) entry pa auth height)) (\<lambda>entry.
     Ok (default_updates\<lparr> bu_accounts := bt_insert (act_sender act) entry [] \<rparr>)))))"

text \<open>What the batch takes from the sender, and who is credited by it.\<close>

definition action_spends :: "view \<Rightarrow> address \<Rightarrow> nat \<Rightarrow> account_entry \<Rightarrow> asset_balance_updates \<Rightarrow> (spend_asset \<times> nat) list" where
  "action_spends v sender fee after assets =
    (Native, max (balance (account_of v sender) - balance after) fee) #
    map (\<lambda>((r, _), b). (SpendAsset r, asset_balance v r sender - b)) (filter (\<lambda>((_, who), _). who = sender) assets)"

definition credited :: "view \<Rightarrow> address \<Rightarrow> account_updates \<Rightarrow> asset_balance_updates \<Rightarrow> address list" where
  "credited v sender accounts assets =
    map fst (filter (\<lambda>(a, e). a \<noteq> sender \<and> balance (account_of v a) < balance e) accounts) @
    map (\<lambda>((_, who), _). who) (filter (\<lambda>((r, who), b). who \<noteq> sender \<and> asset_balance v r who < b) assets)"

definition policy_enforce ::
  "('q, 'f, 'z, 'x) runtime_env \<Rightarrow> 'q chain_action \<Rightarrow> view \<Rightarrow> nat \<Rightarrow> policy_authorization \<Rightarrow> block_updates \<Rightarrow>
   ('x dispatch_error, block_updates) result" where
  "policy_enforce env act v height auth u =
    (let sender = act_sender act in
     case programmable (account_of v sender) of
       None \<Rightarrow> Ok u
     | Some st \<Rightarrow>
       if (case act_payload act of ActAccountPolicy _ \<Rightarrow> True | _ \<Rightarrow> False) then Ok u
       else
        and_then (ok_or MissingSenderUpdate (map_of (bu_accounts u) sender)) (\<lambda>after.
        (let fee = action_fee_for (chain_params_of v) (action_weight env act);
             moved = transfer_of (act_payload act)
         in
         and_then (map_err ErrSignature
           (enforce_spending st auth height (action_spends v sender fee after (bu_assets u))
             (credited v sender (bu_accounts u) (bu_assets u) @ (case moved of Some (_, to, _) \<Rightarrow> [to] | None \<Rightarrow> []))
             moved)) (\<lambda>st.
         Ok (u\<lparr> bu_accounts := bt_insert sender (after\<lparr> programmable := Some st \<rparr>) (bu_accounts u) \<rparr>)))))"

section \<open>The handlers that are one call\<close>

definition account_transfer :: "view \<Rightarrow> 'p action \<Rightarrow> address \<Rightarrow> nat \<Rightarrow> ('x dispatch_error, block_updates) result" where
  "account_transfer v act to amount =
    and_then (map_err ErrAccount (apply_transfer v (act_sender act) (act_nonce act) to amount)) (\<lambda>accounts.
    Ok (default_updates\<lparr> bu_accounts := accounts \<rparr>))"

definition verify_identity_credential ::
  "('q, 'f, 'z, 'x) runtime_env \<Rightarrow> view \<Rightarrow> 'p action \<Rightarrow> string \<Rightarrow> ('x dispatch_error, block_updates) result" where
  "verify_identity_credential env v act proof_bytes =
    and_then (map_err (\<lambda>e. ErrRuntime (RtIdentity e))
      (apply_verify_credential (re_field_of env) (re_proof_of env) (pubkey_of (re_crypto env)) (re_verify_credential env)
         v (act_sender act) proof_bytes)) (\<lambda>accounts.
    Ok (default_updates\<lparr> bu_accounts := accounts \<rparr>))"

definition gov_submit ::
  "('q, 'f, 'z, 'x) runtime_env \<Rightarrow> view \<Rightarrow> 'p action \<Rightarrow> governance_action \<Rightarrow> string \<Rightarrow> nat \<Rightarrow> ('x dispatch_error, block_updates) result" where
  "gov_submit env v act proposed descr current_height =
    and_then (map_err ErrAsset (check_reason descr)) (\<lambda>_.
    and_then (map_err (\<lambda>e. ErrRuntime (RtGovernance e))
      (apply_submit (re_hasher env) (\<lambda>a. pubkey_of (re_crypto env) a \<noteq> None) (single_key_of (re_crypto env))
         (multisig_of (re_crypto env)) v (act_sender act) proposed descr current_height)) (\<lambda>(_, governance).
    Ok (default_updates\<lparr> bu_governance := governance \<rparr>)))"

section \<open>Dispatch\<close>

text \<open>The arguments of \<open>dispatch\<close> that come from the block: two operator lookups, the validator set, height, key owners, timestamp, chain.\<close>

record dispatch_ctx =
  dc_operator :: "address \<Rightarrow> address option"
  dc_operator_validators :: "address \<Rightarrow> address list"
  dc_validators :: "address list"
  dc_height :: nat
  dc_bls_owner :: "string \<Rightarrow> address option"
  dc_timestamp :: nat
  dc_genesis :: string

definition dispatch_inner ::
  "('q, 'f, 'z, 'x) runtime_env \<Rightarrow> dispatch_ctx \<Rightarrow> 'q chain_action \<Rightarrow> view \<Rightarrow> ('x dispatch_error, block_updates) result" where
  "dispatch_inner env ctx act v =
    (let H = re_hasher env; cr = re_crypto env; h = dc_height ctx; rt = map_err ErrRuntime; ah = map_err ErrAsset in
     case act_payload act of
       ActAccountPolicy pa \<Rightarrow> policy_apply env act v pa h (dc_genesis ctx)
     | ActTransfer to amount \<Rightarrow> account_transfer v act to amount
     | ActJoinValidator validator amount pk pop \<Rightarrow>
         rt (join_validator H (re_possession env) act v validator amount pk pop (dc_operator ctx) (dc_bls_owner ctx) h)
     | ActLeaveValidator validator \<Rightarrow> rt (leave_validator act v validator (dc_operator ctx) (dc_validators ctx) h)
     | ActStake validator amount \<Rightarrow> rt (stake H v act validator amount (dc_operator ctx) h)
     | ActUnstake validator amount \<Rightarrow> rt (unstake v act validator amount h)
     | ActSubmitEquivocationEvidence a b \<Rightarrow>
         map_err ErrConsensus
           (submit_equivocation_evidence H (cr_hex_decode cr) (pubkey_of cr) (re_verifies env) (re_digest env)
              v a b h (act_sender act))
     | ActRegisterBlsKey validator pk pop \<Rightarrow>
         rt (register_bls_key (re_possession env) act v validator pk pop h (dc_operator ctx) (dc_bls_owner ctx))
     | ActVerifyIdentityCredential p \<Rightarrow> verify_identity_credential env v act p
     | ActAuthorizeOperator op \<Rightarrow> rt (authorize_operator act op (dc_operator ctx) (dc_operator_validators ctx))
     | ActRevokeOperator \<Rightarrow> rt (revoke_operator act (dc_operator ctx) (dc_operator_validators ctx))
     | ActGrantAttestation subject hash topics juris \<Rightarrow> rt (grant_attestation v act subject hash topics juris h)
     | ActRevokeAttestation subject \<Rightarrow> rt (revoke_attestation v act subject)
     | ActRegisterAsset aid compliance metadata \<Rightarrow> ah (register_asset (derive_of cr) v act aid compliance metadata h)
     | ActIssueAsset r amount \<Rightarrow> ah (issue_asset v act r amount)
     | ActFreezeAsset r reason \<Rightarrow> ah (set_frozen v act r True reason)
     | ActUnfreezeAsset r reason \<Rightarrow> ah (set_frozen v act r False reason)
     | ActBurnAsset r amount \<Rightarrow> ah (burn_asset v act r amount)
     | ActLockIssuance r \<Rightarrow> ah (lock_issuance v act r)
     | ActTransferIssuer r new_issuer \<Rightarrow> ah (transfer_issuer (pubkey_of cr) v act r new_issuer)
     | ActSetAssetMetadataUri r uri \<Rightarrow> ah (set_metadata_uri v act r uri)
     | ActSetHolderFrozen r holder b \<Rightarrow> ah (set_holder_frozen v act r holder b)
     | ActLockHolderAmount r holder amount \<Rightarrow> ah (lock_holder_amount v act r holder amount True None h)
     | ActLockHolderAmountUntil r holder amount until \<Rightarrow> ah (lock_holder_amount v act r holder amount True (Some until) h)
     | ActVerifyClaimProof r sub today_days p \<Rightarrow>
         ah (verify_claim_proof_action
               (\<lambda>a. verify_claim_proof (re_field_of env) (re_proof_of env) (pubkey_of cr) (re_country_set env)
                      (re_verify_predicate env) v (act_sender act) a sub today_days (dc_timestamp ctx) p) v act r h)
     | ActSetPrivateClaims r b \<Rightarrow> ah (set_private_claims v act r b)
     | ActSetAssetLimits r mh mb ma \<Rightarrow> ah (set_limits v act r mh mb ma)
     | ActUnlockHolderAmount r holder amount \<Rightarrow> ah (lock_holder_amount v act r holder amount False None h)
     | ActIssuerForcedTransfer r src dst amount reason \<Rightarrow> ah (issuer_forced_transfer v act r src dst amount reason h)
     | ActRecoverHolder r lost replacement \<Rightarrow> ah (recover_holder v act r lost replacement h)
     | ActIssueAssetTo r to amount \<Rightarrow> ah (issue_asset_to v act r to amount h)
     | ActTransferAsset r to amount \<Rightarrow> ah (transfer_asset v act r to amount h)
     | ActSubmitProposal proposed descr \<Rightarrow> gov_submit env v act proposed descr h
     | ActVoteProposal n approve \<Rightarrow> rt (gov_vote v act n approve h)
     | ActApplyAttestor name ownrs thr evidence_hash evidence_uri \<Rightarrow>
         rt (gov_apply_attestor H (\<lambda>a. pubkey_of cr a \<noteq> None) (single_key_of cr) (multisig_of cr)
               v act name ownrs thr evidence_hash evidence_uri h)
     | ActBlockAttestor \<Rightarrow> rt (block_attestor v act)
     | ActExecuteProposal n \<Rightarrow> rt (gov_execute H (single_key_of cr) (multisig_of cr) v n h)
     | ActSnapshotHolders r \<Rightarrow> ah (snapshot_holders v act r h)
     | ActDistributeToHolders r sh payout amount \<Rightarrow> ah (distribute v act r sh payout amount h)
     | ActRedeemHolders r sh \<Rightarrow> ah (redeem v act r sh h)
     | ActSplitAsset r sh num den \<Rightarrow> ah (split_asset v act r sh num den h)
     | ActSubmitExecutionFault json \<Rightarrow>
         map_err ErrFault (submit_execution_fault H (re_art env) cr (re_parse_artifact env) (re_adjudicate env)
           v json h (dc_bls_owner ctx) (act_sender act))
     | ActToken ta \<Rightarrow> ah (token_dispatch H (derive_of cr) v act ta h))"

definition dispatch ::
  "('q, 'f, 'z, 'x) runtime_env \<Rightarrow> dispatch_ctx \<Rightarrow> 'q chain_action \<Rightarrow> view \<Rightarrow> ('x dispatch_error, block_updates) result" where
  "dispatch env ctx act v =
    and_then (policy_authorize env act v (dc_height ctx) (dc_genesis ctx)) (\<lambda>auth.
    and_then (dispatch_inner env ctx act v) (\<lambda>u.
    and_then (map_err ErrRuntime (consume_nonce act v u)) (\<lambda>u.
    and_then (map_err ErrRuntime (charge_action_fee (action_weight env act) act v u)) (\<lambda>u.
    policy_enforce env act v (dc_height ctx) auth u))))"

text \<open>\<open>ChainRuntime::dispatch\<close> as a block executes it: every lookup reads the block's view.\<close>

definition view_ctx :: "view \<Rightarrow> address list \<Rightarrow> nat \<Rightarrow> nat \<Rightarrow> string \<Rightarrow> dispatch_ctx" where
  "view_ctx v validators height ts genesis =
    \<lparr> dc_operator = v_operator v, dc_operator_validators = (\<lambda>op. unwrap_or [] (v_operator_index v op)),
      dc_validators = validators, dc_height = height, dc_bls_owner = v_bls_pubkey_owner v,
      dc_timestamp = ts, dc_genesis = genesis \<rparr>"

definition runtime_dispatch ::
  "('q, 'f, 'z, 'x) runtime_env \<Rightarrow> address list \<Rightarrow> nat \<Rightarrow> nat \<Rightarrow> string \<Rightarrow> 'q chain_action \<Rightarrow> view \<Rightarrow>
   ('x dispatch_error, block_updates) result" where
  "runtime_dispatch env validators height ts genesis act v =
    dispatch env (view_ctx v validators height ts genesis) act v"

section \<open>Admission\<close>

definition check_bls_admission ::
  "('q, 'f, 'z, 'x) runtime_env \<Rightarrow> view \<Rightarrow> address \<Rightarrow> string \<Rightarrow> string \<Rightarrow> ('x dispatch_error, unit) result" where
  "check_bls_admission env db validator pk pop =
    and_then (map_err ErrRuntime (validated_bls_pubkey (re_possession env) pk pop)) (\<lambda>bytes.
    map_err ErrRuntime (bls_key_free (v_bls_pubkey_owner db) bytes validator))"

text \<open>\<open>tip\<close> is the height of the last block, \<open>validators\<close> the set in force there.\<close>

definition admission_precheck ::
  "('q, 'f, 'z, 'x) runtime_env \<Rightarrow> 'q chain_action \<Rightarrow> view \<Rightarrow> nat option \<Rightarrow> validator_set \<Rightarrow> string \<Rightarrow>
   ('x dispatch_error, unit) result" where
  "admission_precheck env act db tip validators genesis =
    and_then (ok_or HeightOverflow (checked_add u64_max (unwrap_or 0 tip) 1)) (\<lambda>height.
    and_then (policy_precheck env act db height genesis) (\<lambda>_.
    (let sender = act_sender act; weight = action_weight env act; params = chain_params_of db;
         fee = action_fee_for params weight
     in
     if max_block_weight params < weight then Err (OverweightAction weight (max_block_weight params))
     else if balance (account_of db sender) < fee then Err (ErrRuntime (CannotPayFee fee))
     else
      (case act_payload act of
         ActJoinValidator validator amount pk pop \<Rightarrow>
           if \<not> is_authorized sender validator (v_operator db) then Err (ErrRuntime (NotAuthorized sender validator))
           else
            and_then (map_err ErrRuntime (check_join_admission db validator)) (\<lambda>_.
            and_then (check_bls_admission env db validator pk pop) (\<lambda>_.
            (let existing = (case v_stake db (sender, validator) of Some a \<Rightarrow> active_amount a | None \<Rightarrow> 0) in
             if saturating_add u128_max existing amount < min_validator_stake params
             then Err (ErrRuntime (BelowMinimumStake amount (min_validator_stake params))) else Ok ())))
       | ActLeaveValidator validator \<Rightarrow>
           if \<not> is_authorized sender validator (v_operator db) then Err (ErrRuntime (NotAuthorized sender validator))
           else if map_of validators validator = None then Err (ErrRuntime (NotCurrentValidator validator))
           else if length validators \<le> 1 then Err (ErrRuntime LastValidator)
           else Ok ()
       | ActStake validator _ \<Rightarrow> map_err ErrRuntime (check_stake_consent db sender validator (v_operator db))
       | ActRegisterBlsKey validator pk pop \<Rightarrow>
           if \<not> is_authorized sender validator (v_operator db) then Err (ErrRuntime (NotAuthorized sender validator))
           else check_bls_admission env db validator pk pop
       | _ \<Rightarrow> Ok ()))))"

end
