(* ===== verification/Dispatch_Nonces.thy ===== *)
theory Dispatch_Nonces
  imports Dispatch
begin

text \<open>
  What a dispatched action does to nonces. Every handler keeps the nonces of the rows it writes, the sender's aside, which
  some circuits advance themselves; \<open>consume_nonce\<close> advances it for the others. Over a block this makes the applied actions
  of an account consecutive, which is the replay protection of the chain.
\<close>

section \<open>Handlers that leave accounts and stakes alone\<close>

text \<open>Actions whose handler writes neither accounts nor stakes.\<close>

definition quiet :: "'q action_payload \<Rightarrow> bool" where
  "quiet p =
    (case p of
       ActAccountPolicy _ \<Rightarrow> False | ActTransfer _ _ \<Rightarrow> False | ActJoinValidator _ _ _ _ \<Rightarrow> False
     | ActLeaveValidator _ \<Rightarrow> False | ActStake _ _ \<Rightarrow> False | ActUnstake _ _ \<Rightarrow> False
     | ActSubmitEquivocationEvidence _ _ \<Rightarrow> False | ActVerifyIdentityCredential _ \<Rightarrow> False
     | ActGrantAttestation _ _ _ _ \<Rightarrow> False | ActRevokeAttestation _ \<Rightarrow> False | ActIssueAsset _ _ \<Rightarrow> False
     | ActTransferAsset _ _ _ \<Rightarrow> False | ActSubmitExecutionFault _ \<Rightarrow> False | ActToken _ \<Rightarrow> False
     | ActApplyAttestor _ _ _ _ _ \<Rightarrow> False | ActExecuteProposal _ \<Rightarrow> False | _ \<Rightarrow> True)"

abbreviation untouched :: "block_updates \<Rightarrow> bool" where
  "untouched u \<equiv> bu_accounts u = [] \<and> bu_stakes u = no_stakes"

lemma quiet_staking:
  "register_bls_key vp act v validator pk pop h opl owner = Ok u \<Longrightarrow> untouched u"
  "authorize_operator act op opl idx = Ok u \<Longrightarrow> untouched u"
  "revoke_operator act opl idx = Ok u \<Longrightarrow> untouched u"
  "block_attestor v act = Ok u \<Longrightarrow> untouched u"
  "gov_vote v act n approve h = Ok u \<Longrightarrow> untouched u"
  "gov_submit env v act proposed descr h = Ok u \<Longrightarrow> untouched u"
  subgoal by (auto simp: register_bls_key_def Let_def split: if_splits)
  subgoal by (auto simp: authorize_operator_def Let_def split: if_splits)
  subgoal by (auto simp: revoke_operator_def Let_def split: if_splits)
  subgoal by (auto simp: block_attestor_def Let_def split: if_splits)
  subgoal by (auto simp: gov_vote_def Let_def split: if_splits)
  subgoal by (auto simp: gov_submit_def Let_def split: if_splits)
  done

lemma write_asset_untouched [simp]: "bu_accounts (write_asset a) = []" "bu_stakes (write_asset a) = no_stakes"
  by (simp_all add: write_asset_def)

lemma quiet_asset:
  "register_asset derive v act aid compliance metadata h = Ok u \<Longrightarrow> untouched u"
  "set_frozen v act r b reason = Ok u \<Longrightarrow> untouched u"
  "burn_asset v act r amount = Ok u \<Longrightarrow> untouched u"
  "lock_issuance v act r = Ok u \<Longrightarrow> untouched u"
  "transfer_issuer pk v act r new_issuer = Ok u \<Longrightarrow> untouched u"
  "set_metadata_uri v act r uri = Ok u \<Longrightarrow> untouched u"
  "set_holder_frozen v act r holder b = Ok u \<Longrightarrow> untouched u"
  "lock_holder_amount v act r holder amount b until h = Ok u \<Longrightarrow> untouched u"
  "verify_claim_proof_action check v act r h = Ok u \<Longrightarrow> untouched u"
  "set_private_claims v act r b = Ok u \<Longrightarrow> untouched u"
  "set_limits v act r mh mb ma = Ok u \<Longrightarrow> untouched u"
  "issuer_forced_transfer v act r src dst amount reason h = Ok u \<Longrightarrow> untouched u"
  "recover_holder v act r lost replacement h = Ok u \<Longrightarrow> untouched u"
  "issue_asset_to v act r to amount h = Ok u \<Longrightarrow> untouched u"
  "snapshot_holders v act r h = Ok u \<Longrightarrow> untouched u"
  "distribute v act r sh payout amount h = Ok u \<Longrightarrow> untouched u"
  "redeem v act r sh h = Ok u \<Longrightarrow> untouched u"
  "split_asset v act r sh num den h = Ok u \<Longrightarrow> untouched u"
  subgoal by (auto simp: register_asset_def Let_def split: if_splits)
  subgoal by (auto simp: set_frozen_def Let_def split: if_splits)
  subgoal by (auto simp: burn_asset_def Let_def split: if_splits)
  subgoal by (auto simp: lock_issuance_def Let_def split: if_splits)
  subgoal by (auto simp: transfer_issuer_def Let_def split: if_splits)
  subgoal by (auto simp: set_metadata_uri_def Let_def split: if_splits)
  subgoal by (auto simp: set_holder_frozen_def Let_def split: if_splits)
  subgoal by (auto simp: lock_holder_amount_def Let_def split: if_splits)
  subgoal by (auto simp: verify_claim_proof_action_def Let_def split: if_splits)
  subgoal by (auto simp: set_private_claims_def Let_def split: if_splits)
  subgoal by (auto simp: set_limits_def Let_def split: if_splits)
  subgoal by (auto simp: issuer_forced_transfer_def Let_def split: if_splits)
  subgoal by (auto simp: recover_holder_def Let_def split: if_splits)
  subgoal by (auto simp: issue_asset_to_def Let_def split: if_splits)
  subgoal by (auto simp: snapshot_holders_def Let_def split: if_splits)
  subgoal by (auto simp: distribute_def Let_def split: if_splits)
  subgoal by (auto simp: redeem_def Let_def split: if_splits)
  subgoal by (auto simp: split_asset_def Let_def split: if_splits)
  done

lemma quiet_dispatch:
  assumes "dispatch_inner env ctx act v = Ok u" "quiet (act_payload act)"
  shows "untouched u"
  using assms
  by (cases "act_payload act")
     (simp_all add: dispatch_inner_def quiet_def Let_def map_err_Ok_iff quiet_staking quiet_asset)


section \<open>Nonces\<close>

text \<open>A row keeps its nonce, or it is the sender's row and the action's nonce was the next one.\<close>

definition nonce_row :: "view \<Rightarrow> 'p action \<Rightarrow> address \<Rightarrow> account_entry \<Rightarrow> bool" where
  "nonce_row v act a e \<longleftrightarrow>
     nonce e = nonce (account_of v a) \<or>
     a = act_sender act \<and> act_nonce act = nonce (account_of v a) \<and> nonce e = Suc (act_nonce act)"

definition nonce_batch :: "view \<Rightarrow> 'p action \<Rightarrow> account_updates \<Rightarrow> bool" where
  "nonce_batch v act accounts \<longleftrightarrow> (\<forall>a e. map_of accounts a = Some e \<longrightarrow> nonce_row v act a e)"

lemma nonce_batch_simps [simp]:
  "nonce_batch v act []"
  "nonce_batch v act accounts \<Longrightarrow> nonce_row v act a e \<Longrightarrow> nonce_batch v act (bt_insert a e accounts)"
  "nonce_batch v act accounts \<Longrightarrow> nonce_batch v act (bt_remove a accounts)"
  by (auto simp: nonce_batch_def)

lemma nonce_row_same [simp]: "nonce e = nonce (account_of v a) \<Longrightarrow> nonce_row v act a e"
  by (simp add: nonce_row_def)

lemma nonce_row_next [simp]:
  "act_nonce act = nonce (account_of v (act_sender act)) \<Longrightarrow> nonce e = Suc (nonce (account_of v (act_sender act))) \<Longrightarrow>
   nonce_row v act (act_sender act) e"
  by (simp add: nonce_row_def)

lemma nonce_batchD: "nonce_batch v act accounts \<Longrightarrow> map_of accounts a = Some e \<Longrightarrow> nonce_row v act a e"
  by (simp add: nonce_batch_def)

lemma nonce_stake:
  "apply_stake H v (act_sender act) (act_nonce act) validator amount h = Ok (accounts, stakes) \<Longrightarrow>
   nonce_batch v act accounts"
  by (erule apply_stake_OkE) auto

lemma nonce_unstake:
  "apply_unstake v m n validator amount h blocks = Ok (accounts, stakes) \<Longrightarrow> m = act_sender act \<Longrightarrow> n = act_nonce act \<Longrightarrow>
   nonce_batch v act accounts"
  by (erule apply_unstake_OkE) auto

lemma nonce_leave: "leave_validator act v validator opl validators h = Ok u \<Longrightarrow> nonce_batch v act (bu_accounts u)"
proof (erule leave_validator_OkE)
  fix m e accounts stakes n
  assume *: "apply_unstake v m n validator (active_amount e) h (unbonding_blocks (chain_params_of v)) = Ok (accounts, stakes)"
    "m = act_sender act \<longrightarrow> n = act_nonce act"
    and u: "u = default_updates\<lparr> bu_accounts := (if m = act_sender act then accounts else bt_remove m accounts),
           bu_stakes := stakes,
           bu_validator_statuses := bt_insert validator
             (Some (Leaving (epoch_of h (epoch_length (chain_params_of v)) + 1))) [] \<rparr>"
  from *(1) obtain x where "accounts = bt_insert m x []" by (cases rule: apply_unstake_OkE) auto
  then show ?thesis using u * nonce_unstake [OF *(1), of act] by (cases "m = act_sender act") (simp_all add: nonce_batch_def)
qed

lemma nonce_slash:
  assumes "fault_slash H v who reason h chal = Ok u"
  shows "nonce_batch v act (bu_accounts u)"
proof (cases "v_validator_status v who = Some Tombstoned")
  case True
  then show ?thesis using assms by (simp add: fault_slash_def)
next
  case False
  with assms show ?thesis
  proof (cases rule: fault_slash_OkE)
    case (1 m ms e accounts stakes pool_entry accounts')
    have b: "nonce_batch v act accounts" using 1(3) by (cases rule: apply_slash_OkE) simp
    have "nonce pool_entry = nonce (account_of v (reward_pool_account H))"
      using 1(3,4) by (cases rule: apply_slash_OkE) auto
    moreover have "nonce x = nonce (account_of v a)" if "map_of accounts a = Some x" for a x
      using 1(3) that by (cases rule: apply_slash_OkE) (auto split: if_splits)
    ultimately show ?thesis
      using 1(5) b by (auto simp: 1(6) pay_challenger_def Let_def split: if_splits option.splits)
  qed
qed

lemma nonce_corrections:
  assumes "nonce_batch v act accounts" "\<forall>a e. map_of accounts a = Some e \<longrightarrow> nonce e = nonce (account_of v a)"
  shows "nonce_batch v act (apply_corrections v cs accounts)"
  using assms
proof (induction cs arbitrary: accounts)
  case (Cons c cs)
  obtain who b where c: "c = (who, b)" by (cases c)
  let ?e = "(case map_of accounts who of Some e \<Rightarrow> e | None \<Rightarrow> account_of v who)\<lparr> balance := b \<rparr>"
  have "nonce ?e = nonce (account_of v who)" using Cons.prems(2) by (auto split: option.split)
  then show ?case
    using Cons.IH [of "bt_insert who ?e accounts"] Cons.prems by (simp add: apply_corrections_def c)
qed (simp add: apply_corrections_def)

lemma nonce_execute_action:
  assumes "execute_action H sk ms v p h ga = Some (ws, accounts, slash, attestors)"
  shows "nonce_batch v act accounts"
proof (cases ga)
  case (ResolveDispute height header res cs verdict bounty)
  with assms show ?thesis
    by (auto simp: resolve_dispute_def Let_def intro!: nonce_corrections split: option.splits if_splits)
qed (use assms in \<open>auto simp: Let_def refund_bond_def split: if_splits result.splits\<close>)

lemma gov_execute_OkE:
  assumes "gov_execute H sk ms v n h = Ok u"
  obtains (plain) ws slash attestors where "apply_execute H sk ms v n h = Ok (ws, bu_accounts u, slash, attestors)"
      "bu_stakes u = no_stakes"
    | (slash) d s ws accounts attestors where "apply_execute H sk ms v n h = Ok (ws, accounts, Some d, attestors)"
      "fault_slash H v (culprit d) ExecutionFault h (challenger d) = Ok s"
      "bu_accounts u = bu_accounts s" "bu_stakes u = bu_stakes s"
proof -
  from assms obtain ws accounts sl attestors where eff: "apply_execute H sk ms v n h = Ok (ws, accounts, sl, attestors)"
    by (auto simp: gov_execute_def)
  show ?thesis
  proof (cases sl)
    case None
    then show ?thesis using assms eff by (intro plain [of ws None attestors]) (auto simp: gov_execute_def Let_def)
  next
    case (Some d)
    show ?thesis
    proof (cases "fault_slash H v (culprit d) ExecutionFault h (challenger d)")
      case (Ok s)
      then show ?thesis using assms eff Some by (intro slash [of ws accounts d attestors s]) (auto simp: gov_execute_def Let_def)
    next
      case (Err e)
      then show ?thesis using assms eff Some by (intro plain [of ws sl attestors]) (auto simp: gov_execute_def Let_def)
    qed (use assms eff Some in \<open>simp add: gov_execute_def Let_def\<close>)
  qed
qed

lemma nonce_gov_execute:
  assumes "gov_execute H sk ms v n h = Ok u"
  shows "nonce_batch v act (bu_accounts u)"
  using assms
proof (cases rule: gov_execute_OkE)
  case (plain ws slash attestors)
  from plain(1) show ?thesis by (cases rule: apply_execute_Ok) (auto intro: nonce_execute_action)
next
  case slash
  then show ?thesis using nonce_slash by simp
qed

lemma nonce_apply_attestor:
  "gov_apply_attestor H ok sk ms v act name ownrs thr eh eu h = Ok u \<Longrightarrow> nonce_batch v act (bu_accounts u)"
  by (auto simp: gov_apply_attestor_def apply_attestor_application_def Let_def)

lemma nonce_token:
  "token_dispatch H derive v act ta h = Ok u \<Longrightarrow> nonce_batch v act (bu_accounts u)"
  by (cases ta) (auto simp: token_dispatch_def create_token_def apply_create_def Let_def asset_register_def split: if_splits)

lemma nonce_assets:
  "issue_asset v act r amount = Ok u \<Longrightarrow> nonce_batch v act (bu_accounts u)"
  "transfer_asset v act r to amount h = Ok u \<Longrightarrow> nonce_batch v act (bu_accounts u)"
  subgoal by (auto simp: issue_asset_def apply_issue_def nonce_row_def Let_def split: if_splits)
  subgoal by (auto simp: transfer_asset_def apply_compliant_transfer_def Let_def split: if_splits)
  done

lemma apply_policy_action_keeps:
  "apply_policy_action cr e pa auth h = Ok e' \<Longrightarrow> nonce e' = nonce e \<and> balance e' = balance e"
  by (cases pa) (auto simp: apply_policy_action_def split: if_splits)

lemma nonce_accounts:
  "account_transfer v act to amount = Ok u \<Longrightarrow> nonce_batch v act (bu_accounts u)"
  "policy_apply env qact v pa h g = Ok u \<Longrightarrow> nonce_batch v qact (bu_accounts u)"
  "verify_identity_credential env v act pb = Ok u \<Longrightarrow> nonce_batch v act (bu_accounts u)"
  "grant_attestation v act subject hash topics juris h = Ok u \<Longrightarrow> nonce_batch v act (bu_accounts u)"
  "revoke_attestation v act subject = Ok u \<Longrightarrow> nonce_batch v act (bu_accounts u)"
  subgoal by (auto simp: account_transfer_def elim!: apply_transfer_OkE)
  subgoal by (auto simp: policy_apply_def Let_def dest!: apply_policy_action_keeps)
  subgoal by (auto simp: verify_identity_credential_def apply_verify_credential_def account_of_def split: if_splits)
  subgoal by (auto simp: grant_attestation_def apply_grant_attestation_def Let_def split: if_splits)
  subgoal by (auto simp: revoke_attestation_def apply_revoke_attestation_def account_of_def)
  done

lemma nonce_staking:
  "join_validator H vp act v validator amount pk pop opl owner h = Ok u \<Longrightarrow> nonce_batch v act (bu_accounts u)"
  "stake H v act validator amount opl h = Ok u \<Longrightarrow> nonce_batch v act (bu_accounts u)"
  "unstake v act validator amount h = Ok u \<Longrightarrow> nonce_batch v act (bu_accounts u)"
  subgoal by (erule join_validator_OkE) (simp add: nonce_stake)
  subgoal by (auto simp: stake_def nonce_stake)
  subgoal by (erule unstake_OkE) (simp add: nonce_unstake)
  done

text \<open>Evidence moves coins only through one slash.\<close>

lemma evidence_slashes:
  "submit_equivocation_evidence H hex pk vf dg v a b h chal = Ok u \<Longrightarrow>
     \<exists>who reason s. fault_slash H v who reason h chal = Ok s \<and> bu_accounts u = bu_accounts s \<and> bu_stakes u = bu_stakes s"
  "submit_execution_fault H aenv cr parse adj v json h owner chal = Ok u \<Longrightarrow>
     untouched u \<or>
     (\<exists>who reason s. fault_slash H v who reason h chal = Ok s \<and> bu_accounts u = bu_accounts s \<and> bu_stakes u = bu_stakes s)"
  subgoal by (fastforce simp: submit_equivocation_evidence_def split: if_splits)
  subgoal by (erule submit_execution_fault_OkE, erule settle_fault_OkE) (fastforce split: if_splits)
  done

lemma nonce_evidence:
  "submit_equivocation_evidence H hex pk vf dg v a b h chal = Ok u \<Longrightarrow> nonce_batch v act (bu_accounts u)"
  "submit_execution_fault H aenv cr parse adj v json h owner chal = Ok u \<Longrightarrow> nonce_batch v act (bu_accounts u)"
  by (auto dest!: evidence_slashes nonce_slash)

lemma nonce_inner:
  assumes "dispatch_inner env ctx act v = Ok u"
  shows "nonce_batch v act (bu_accounts u)"
proof (cases "quiet (act_payload act)")
  case True
  then show ?thesis using quiet_dispatch [OF assms] by simp
next
  case False
  with assms show ?thesis
    by (cases "act_payload act")
       (simp_all add: dispatch_inner_def quiet_def Let_def nonce_accounts nonce_staking nonce_leave nonce_evidence
         nonce_assets nonce_token nonce_apply_attestor nonce_gov_execute)
qed

text \<open>The three steps after the handler: what they write.\<close>

lemma consume_nonce_OkE:
  assumes "consume_nonce act v u = Ok w" and "nonce_batch v act (bu_accounts u)"
  obtains e where "w = u\<lparr> bu_accounts := bt_insert (act_sender act) e (bu_accounts u) \<rparr> \<or>
      w = u \<and> map_of (bu_accounts u) (act_sender act) = Some e"
    "act_nonce act = nonce (account_of v (act_sender act))" "nonce e = Suc (act_nonce act)"
    "balance e = balance (account_of (absorb_updates v u) (act_sender act))"
proof -
  let ?s = "act_sender act"
  let ?e = "case map_of (bu_accounts u) ?s of Some e \<Rightarrow> e | None \<Rightarrow> account_of v ?s"
  have cur: "(case v_account v ?s of Some e \<Rightarrow> nonce e | None \<Rightarrow> 0) = nonce (account_of v ?s)"
    by (simp add: account_of_def default_account_def split: option.split)
  have bal: "account_of (absorb_updates v u) ?s = ?e"
    by (simp add: account_of_def absorb_updates_rows map_add_def split: option.split)
  show ?thesis
  proof (cases "nonce ?e = nonce (account_of v ?s)")
    case True
    then show ?thesis
      using assms(1) bal by (intro that [of "?e\<lparr> nonce := Suc (nonce (account_of v ?s)) \<rparr>"])
        (auto simp: consume_nonce_def cur Let_def split: if_splits)
  next
    case False
    then obtain e where e: "map_of (bu_accounts u) ?s = Some e" by (cases "map_of (bu_accounts u) ?s") auto
    then show ?thesis
      using assms(1) False bal nonce_batchD [OF assms(2) e]
      by (intro that [of e]) (auto simp: consume_nonce_def cur Let_def nonce_row_def)
  qed
qed

lemma charge_action_fee_OkE:
  assumes "charge_action_fee weight act v u = Ok w" and "map_of (bu_accounts u) (act_sender act) = Some e"
  shows "action_fee_for (chain_params_of v) weight \<le> balance e"
    and "w = u\<lparr> bu_accounts := bt_insert (act_sender act)
               (e\<lparr> balance := balance e - action_fee_for (chain_params_of v) weight \<rparr>) (bu_accounts u) \<rparr>"
  using assms by (auto simp: charge_action_fee_def Let_def)

lemma policy_enforce_OkE:
  assumes "policy_enforce env act v h auth u = Ok w" and "map_of (bu_accounts u) (act_sender act) = Some e"
  obtains pr where "w = u\<lparr> bu_accounts := bt_insert (act_sender act) (e\<lparr> programmable := pr \<rparr>) (bu_accounts u) \<rparr> \<or> w = u"
  using assms
  by (auto simp: policy_enforce_def Let_def split: option.splits if_splits)

lemma bt_insert_twice [simp]: "bt_insert k x (bt_insert k y t) = bt_insert k x t"
  by (induction t) (auto simp: bt_insert.simps)

text \<open>A dispatched action: the handler's batch, with one row of the sender put on top.\<close>

lemma dispatch_OkE:
  assumes "dispatch env ctx act v = Ok w"
  obtains auth u e where "policy_authorize env act v (dc_height ctx) (dc_genesis ctx) = Ok auth"
    "dispatch_inner env ctx act v = Ok u"
    "w = u\<lparr> bu_accounts := bt_insert (act_sender act) e (bu_accounts u) \<rparr>"
    "act_nonce act = nonce (account_of v (act_sender act))" "nonce e = Suc (act_nonce act)"
    "action_fee_for (chain_params_of v) (action_weight env act) \<le> balance (account_of (absorb_updates v u) (act_sender act))"
    "balance e = balance (account_of (absorb_updates v u) (act_sender act)) -
       action_fee_for (chain_params_of v) (action_weight env act)"
proof -
  from assms obtain auth u u1 u2 where d: "policy_authorize env act v (dc_height ctx) (dc_genesis ctx) = Ok auth"
      "dispatch_inner env ctx act v = Ok u" "consume_nonce act v u = Ok u1"
      "charge_action_fee (action_weight env act) act v u1 = Ok u2"
      "policy_enforce env act v (dc_height ctx) auth u2 = Ok w"
    by (auto simp: dispatch_def)
  from d(3) nonce_inner [OF d(2)] obtain e where
    e: "u1 = u\<lparr> bu_accounts := bt_insert (act_sender act) e (bu_accounts u) \<rparr> \<or>
      u1 = u \<and> map_of (bu_accounts u) (act_sender act) = Some e"
    "act_nonce act = nonce (account_of v (act_sender act))" "nonce e = Suc (act_nonce act)"
    "balance e = balance (account_of (absorb_updates v u) (act_sender act))"
    by (rule consume_nonce_OkE)
  from e(1) have e': "map_of (bu_accounts u1) (act_sender act) = Some e" by auto
  note c = charge_action_fee_OkE [OF d(4) e']
  let ?f = "e\<lparr> balance := balance e - action_fee_for (chain_params_of v) (action_weight env act) \<rparr>"
  have f: "map_of (bu_accounts u2) (act_sender act) = Some ?f" by (simp add: c(2))
  from d(5) f obtain pr where
    "w = u2\<lparr> bu_accounts := bt_insert (act_sender act) (?f\<lparr> programmable := pr \<rparr>) (bu_accounts u2) \<rparr> \<or> w = u2"
    by (rule policy_enforce_OkE)
  then obtain g where "w = u\<lparr> bu_accounts := bt_insert (act_sender act) g (bu_accounts u) \<rparr>"
      "nonce g = nonce e" "balance g = balance ?f"
    using e(1) by (auto simp: c(2))
  then show ?thesis using that [OF d(1,2)] e c(1) by simp
qed

lemma account_of_absorb:
  "account_of (absorb_updates v u) a = (case map_of (bu_accounts u) a of Some e \<Rightarrow> e | None \<Rightarrow> account_of v a)"
  by (simp add: account_of_def absorb_updates_rows map_add_def split: option.split)

lemma dispatch_nonces:
  assumes "dispatch env ctx act v = Ok w"
  shows "act_nonce act = nonce (account_of v (act_sender act))"
    and "nonce (account_of (absorb_updates v w) a) =
      (if a = act_sender act then Suc (act_nonce act) else nonce (account_of v a))"
  using assms
proof (atomize (full), cases rule: dispatch_OkE)
  case (1 auth u e)
  have "a \<noteq> act_sender act \<Longrightarrow> nonce (account_of (absorb_updates v w) a) = nonce (account_of v a)"
    using nonce_inner [OF 1(2)] by (auto simp: account_of_absorb 1(3) nonce_batch_def nonce_row_def split: option.split)
  then show "act_nonce act = nonce (account_of v (act_sender act)) \<and>
     nonce (account_of (absorb_updates v w) a) = (if a = act_sender act then Suc (act_nonce act) else nonce (account_of v a))"
    using 1 by (auto simp: account_of_absorb)
qed

section \<open>What every action keeps, a block keeps\<close>

text \<open>
  A dispatcher whose accepted actions keep a property of the view, stated with the actions applied so far. The executor
  then keeps it over a whole block, whatever it drops or defers.
\<close>

locale dispatch_invariant =
  fixes disp :: "'p action \<Rightarrow> view \<Rightarrow> ('e, block_updates) result"
    and inv :: "'p action list \<Rightarrow> view \<Rightarrow> bool"
  assumes step: "inv done v \<Longrightarrow> disp act v = Ok u \<Longrightarrow> inv (done @ [act]) (absorb_updates v u)"
begin

lemma loop:
  assumes "execute_loop presigned policy_signed disp meter M actions v out = Ok (v', out')" and "inv (applied out) v"
  shows "inv (applied out') v'"
  using assms
proof (induction actions arbitrary: v out)
  case (Cons act actions)
  from Cons.prems(1) show ?case
  proof (cases rule: execute_loop_ConsE)
    case (go u)
    then show ?thesis using Cons.IH step [OF Cons.prems(2)] by (fastforce simp: extend_outcome_def)
  qed (use Cons in \<open>auto\<close>)
qed simp

lemma block:
  assumes "execute_actions presigned policy_signed disp meter db actions seed = Ok (v, out)"
    and "inv [] (seeded_view db seed)"
  shows "inv (applied out) v"
  using assms loop unfolding execute_actions_def by (fastforce simp: seeded_outcome_def)

end

definition nonces_of :: "'p action list \<Rightarrow> address \<Rightarrow> nat list" where
  "nonces_of acts a = map act_nonce (filter (\<lambda>x. act_sender x = a) acts)"

definition nonce_run :: "view \<Rightarrow> 'p action list \<Rightarrow> view \<Rightarrow> bool" where
  "nonce_run v0 acts v \<longleftrightarrow>
     (\<forall>a. nonce (account_of v0 a) \<le> nonce (account_of v a) \<and>
          nonces_of acts a = [nonce (account_of v0 a)..<nonce (account_of v a)])"

interpretation nr: dispatch_invariant "runtime_dispatch env validators height ts genesis" "nonce_run v0"
  for env validators height ts genesis v0
proof (unfold_locales, goal_cases)
  case (1 acts v act u)
  note n = dispatch_nonces [OF 1(2) [unfolded runtime_dispatch_def]]
  show ?case
    using 1(1) n(1) by (auto simp: nonce_run_def n(2) nonces_of_def le_Suc_eq)
qed

end
