(* ===== verification/Dispatch_Shape.thy ===== *)
theory Dispatch_Shape
  imports Dispatch_Nonces
begin

text \<open>
  The shape of the batches \<open>dispatch\<close> returns: their maps are ordered, as the \<open>BTreeMap\<close>s of the source are, and only the
  execution of a proposal writes the chain parameters.
\<close>

section \<open>The shape of a batch\<close>

text \<open>
  The maps of a batch are ordered, and its governance rows leave the chain parameters alone: only executing a proposal
  writes those.
\<close>

fun keeps_params :: "gov_write \<Rightarrow> bool" where
  "keeps_params (PutChainParams _) = False"
| "keeps_params _ = True"

definition tidy :: "block_updates \<Rightarrow> bool" where
  "tidy u \<longleftrightarrow> wf_updates u \<and> list_all keeps_params (bu_governance u)"

lemmas tidy_simps = tidy_def wf_updates_def no_stakes_def no_operators_def bt_wf_insert bt_wf_remove bt_wf_extend

lemma side_write_keeps_params: "side_write g \<Longrightarrow> keeps_params g"
  by (cases g) simp_all

lemma side_writes_keep_params: "list_all side_write gs \<Longrightarrow> list_all keeps_params gs"
  by (auto simp: list_all_iff side_write_keeps_params)

lemma tidy_default [simp]: "tidy default_updates"
  by (simp add: tidy_simps)

lemma tidy_write_asset [simp]: "tidy (write_asset a)"
  by (simp add: tidy_simps write_asset_def)

lemma tidy_parts [simp]:
  "tidy u \<Longrightarrow> bt_wf accounts \<Longrightarrow> tidy (u\<lparr> bu_accounts := accounts \<rparr>)"
  "tidy u \<Longrightarrow> bt_wf assets \<Longrightarrow> tidy (u\<lparr> bu_assets := assets \<rparr>)"
  "tidy u \<Longrightarrow> bt_wf states \<Longrightarrow> tidy (u\<lparr> bu_holder_states := states \<rparr>)"
  "tidy u \<Longrightarrow> bt_wf statuses \<Longrightarrow> tidy (u\<lparr> bu_validator_statuses := statuses \<rparr>)"
  "tidy u \<Longrightarrow> list_all keeps_params gs \<Longrightarrow> tidy (u\<lparr> bu_governance := gs \<rparr>)"
  "tidy u \<Longrightarrow> bt_wf (allocations s) \<Longrightarrow> bt_wf (validator_index s) \<Longrightarrow> tidy (u\<lparr> bu_stakes := s \<rparr>)"
  "tidy u \<Longrightarrow> bt_wf (authorization opu) \<Longrightarrow> bt_wf (operator_index opu) \<Longrightarrow> tidy (u\<lparr> bu_operator := opu \<rparr>)"
  "tidy u \<Longrightarrow> tidy (u\<lparr> bu_evidence := ev \<rparr>)" "tidy u \<Longrightarrow> tidy (u\<lparr> bu_bls_key := key \<rparr>)"
  "tidy u \<Longrightarrow> tidy (u\<lparr> bu_attestor_registration := reg \<rparr>)" "tidy u \<Longrightarrow> tidy (u\<lparr> bu_attestor_deregistration := dereg \<rparr>)"
  by (simp_all add: tidy_def wf_updates_def)

lemmas bt_wf_row [simp] = bt_wf_insert bt_wf_remove bt_wf_extend

text \<open>Rows of the asset circuits.\<close>

lemma wf_forced: "apply_forced_transfer v a src dst amount = Ok (a', u) \<Longrightarrow> bt_wf u"
  by (auto simp: apply_forced_transfer_def Let_def split: if_splits)

lemma wf_moves:
  "apply_issue_to v a to amount h = Ok (a', u) \<Longrightarrow> bt_wf u"
  "apply_compliant_move v a src dst amount h = Ok (a', u) \<Longrightarrow> bt_wf u"
  "apply_burn v a who amount = Ok (a', u) \<Longrightarrow> bt_wf u"
  subgoal by (auto simp: apply_issue_to_def Let_def split: if_splits)
  subgoal by (auto simp: apply_compliant_move_def move_checked_def wf_forced Let_def split: if_splits)
  subgoal by (auto simp: apply_burn_def Let_def split: if_splits)
  done

lemma wf_distribution:
  "distribution_loop v a who tab amount h hs s = Ok (a', u) \<Longrightarrow> bt_wf s \<Longrightarrow> bt_wf u"
  by (induction hs arbitrary: a s) (fastforce split: if_splits result.splits)+

lemma wf_redemption:
  "redemption_loop v a who h hs s st = Ok (a', u, st') \<Longrightarrow> bt_wf s \<Longrightarrow> bt_wf st \<Longrightarrow> bt_wf u \<and> bt_wf st'"
  by (induction hs arbitrary: a s st) (fastforce simp: Let_def split: option.splits)+

lemma wf_split:
  "split_loop v a who num den h hs s st = Ok (a', u, st') \<Longrightarrow> bt_wf s \<Longrightarrow> bt_wf st \<Longrightarrow> bt_wf u \<and> bt_wf st'"
proof (induction hs arbitrary: a s st)
  case (Cons x hs)
  obtain holder holding where x: "x = (holder, holding)" by (cases x)
  from Cons.prems(1) obtain b w st2 where
      rest: "split_loop v b who num den h hs (bt_extend s w) st2 = Ok (a', u, st')"
    and st2: "st2 = st \<or> (\<exists>e. st2 = bt_insert (asset_ref_of b, holder) e st)"
    by (auto simp: x Let_def split: option.splits)
  show ?case using Cons.IH [OF rest] Cons.prems(2,3) st2 by auto
qed simp

lemma tidy_asset:
  "register_asset derive v act aid compliance metadata h = Ok u \<Longrightarrow> tidy u"
  "set_frozen v act r b reason = Ok u \<Longrightarrow> tidy u"
  "burn_asset v act r amount = Ok u \<Longrightarrow> tidy u"
  "lock_issuance v act r = Ok u \<Longrightarrow> tidy u"
  "transfer_issuer pk v act r new_issuer = Ok u \<Longrightarrow> tidy u"
  "set_metadata_uri v act r uri = Ok u \<Longrightarrow> tidy u"
  "set_private_claims v act r b = Ok u \<Longrightarrow> tidy u"
  "set_limits v act r mh mb ma = Ok u \<Longrightarrow> tidy u"
  "issue_asset_to v act r to amount h = Ok u \<Longrightarrow> tidy u"
  "snapshot_holders v act r h = Ok u \<Longrightarrow> tidy u"
  subgoal by (auto simp: register_asset_def Let_def split: if_splits)
  subgoal by (auto simp: set_frozen_def Let_def split: if_splits)
  subgoal by (auto simp: burn_asset_def wf_moves split: if_splits)
  subgoal by (auto simp: lock_issuance_def)
  subgoal by (auto simp: transfer_issuer_def)
  subgoal by (auto simp: set_metadata_uri_def)
  subgoal by (auto simp: set_private_claims_def)
  subgoal by (auto simp: set_limits_def split: if_splits)
  subgoal by (auto simp: issue_asset_to_def wf_moves split: if_splits)
  subgoal by (auto simp: snapshot_holders_def)
  done


lemma wf_lock: "apply_lock_amount v a holder amount b until h = Ok states \<Longrightarrow> bt_wf states"
  unfolding apply_lock_amount_def Let_def and_then_Ok_iff result.inject
  by (elim exE conjE, erule subst) (rule bt_wf_insert [OF bt_wf_Nil])

lemma tidy_holders:
  "set_holder_frozen v act r holder b = Ok u \<Longrightarrow> tidy u"
  "lock_holder_amount v act r holder amount b until h = Ok u \<Longrightarrow> tidy u"
  "verify_claim_proof_action check v act r h = Ok u \<Longrightarrow> tidy u"
  "issuer_forced_transfer v act r src dst amount reason h = Ok u \<Longrightarrow> tidy u"
  "recover_holder v act r lost replacement h = Ok u \<Longrightarrow> tidy u"
  "distribute v act r sh payout amount h = Ok u \<Longrightarrow> tidy u"
  "redeem v act r sh h = Ok u \<Longrightarrow> tidy u"
  "split_asset v act r sh num den h = Ok u \<Longrightarrow> tidy u"
  "issue_asset v act r amount = Ok u \<Longrightarrow> tidy u"
  "transfer_asset v act r to amount h = Ok u \<Longrightarrow> tidy u"
  subgoal by (auto simp: set_holder_frozen_def apply_set_holder_frozen_def Let_def split: if_splits)
  subgoal by (auto simp: lock_holder_amount_def dest: wf_lock split: if_splits)
  subgoal by (auto simp: verify_claim_proof_action_def apply_record_claim_proof_def Let_def split: if_splits)
  subgoal by (auto simp: issuer_forced_transfer_def apply_forced_transfer_with_lock_def wf_forced Let_def
        split: if_splits option.splits)
  subgoal by (auto simp: recover_holder_def apply_recover_def wf_forced Let_def split: if_splits option.splits)
  subgoal by (auto simp: distribute_def apply_distribution_def wf_distribution split: if_splits)
  subgoal by (auto simp: redeem_def apply_redemption_def dest!: wf_redemption split: if_splits)
  subgoal by (auto simp: split_asset_def apply_split_def dest!: wf_split split: if_splits)
  subgoal by (auto simp: issue_asset_def apply_issue_def Let_def split: if_splits)
  subgoal by (auto simp: transfer_asset_def apply_compliant_transfer_def move_checked_def wf_forced Let_def split: if_splits)
  done


lemma tidy_token: "token_dispatch H derive v act ta h = Ok u \<Longrightarrow> tidy u"
proof (cases ta)
  case (TkCreate ticker nm decs initial cap mintable)
  then show "token_dispatch H derive v act ta h = Ok u \<Longrightarrow> tidy u"
    by (auto simp: token_dispatch_def create_token_def apply_create_def mint_into_def Let_def split: if_splits)
qed (auto simp: token_dispatch_def apply_mint_def mint_into_def token_transfer_def token_burn_def Let_def split: if_splits)

lemma tidy_accounts:
  "account_transfer v act to amount = Ok u \<Longrightarrow> tidy u"
  "policy_apply env qact v pa h g = Ok u \<Longrightarrow> tidy u"
  "verify_identity_credential env v act pb = Ok u \<Longrightarrow> tidy u"
  "grant_attestation v act subject hash topics juris h = Ok u \<Longrightarrow> tidy u"
  "revoke_attestation v act subject = Ok u \<Longrightarrow> tidy u"
  subgoal by (auto simp: account_transfer_def elim!: apply_transfer_OkE)
  subgoal by (auto simp: policy_apply_def Let_def)
  subgoal by (auto simp: verify_identity_credential_def apply_verify_credential_def split: if_splits)
  subgoal by (auto simp: grant_attestation_def apply_grant_attestation_def Let_def split: if_splits)
  subgoal by (auto simp: revoke_attestation_def apply_revoke_attestation_def)
  done

lemma wf_stake:
  "apply_stake H v m n validator amount h = Ok (accounts, stakes) \<Longrightarrow>
     bt_wf accounts \<and> bt_wf (allocations stakes) \<and> bt_wf (validator_index stakes)"
  "apply_unstake v m n validator amount h blocks = Ok (accounts, stakes) \<Longrightarrow>
     bt_wf accounts \<and> bt_wf (allocations stakes) \<and> bt_wf (validator_index stakes)"
  by (erule apply_stake_OkE apply_unstake_OkE; simp)+

lemma tidy_staking:
  "join_validator H vp act v validator amount pk pop opl owner h = Ok u \<Longrightarrow> tidy u"
  "stake H v act validator amount opl h = Ok u \<Longrightarrow> tidy u"
  "unstake v act validator amount h = Ok u \<Longrightarrow> tidy u"
  "leave_validator act v validator opl validators h = Ok u \<Longrightarrow> tidy u"
  "register_bls_key vp act v validator pk pop h opl owner = Ok u \<Longrightarrow> tidy u"
  "authorize_operator act op opl idx = Ok u \<Longrightarrow> tidy u"
  "revoke_operator act opl idx = Ok u \<Longrightarrow> tidy u"
  subgoal by (erule join_validator_OkE) (use wf_stake(1) in simp)
  subgoal by (auto simp: stake_def dest: wf_stake(1))
  subgoal by (erule unstake_OkE) (use wf_stake(2) in \<open>simp add: index_unbonding_def Let_def\<close>)
  subgoal by (erule leave_validator_OkE) (use wf_stake(2) in simp)
  subgoal by (auto simp: register_bls_key_def split: if_splits)
  subgoal by (auto simp: authorize_operator_def Let_def split: option.splits)
  subgoal by (auto simp: revoke_operator_def Let_def)
  done

lemma tidy_slash: "fault_slash H v who reason h chal = Ok u \<Longrightarrow> tidy u"
proof (cases "v_validator_status v who = Some Tombstoned")
  case True
  then show "fault_slash H v who reason h chal = Ok u \<Longrightarrow> tidy u" by (simp add: fault_slash_def)
next
  case False
  assume "fault_slash H v who reason h chal = Ok u"
  then show "tidy u"
  proof (rule fault_slash_OkE [OF _ False])
    fix m ms e accounts stakes pool_entry accounts'
    assume *: "apply_slash H v who (locked e * equivocation_slash_bps (chain_params_of v) div 10000) reason h = Ok (accounts, stakes)"
      "pay_challenger v (reward_pool_account H) pool_entry ((balance pool_entry - balance (account_of v (reward_pool_account H)))
          * challenger_reward_bps (chain_params_of v) div 10000) chal accounts = Ok accounts'"
      "u = default_updates\<lparr> bu_accounts := accounts', bu_stakes := stakes,
           bu_validator_statuses := bt_insert who (Some Tombstoned) [] \<rparr>"
    have s: "bt_wf accounts \<and> bt_wf (allocations stakes) \<and> bt_wf (validator_index stakes)"
      using *(1) by (cases rule: apply_slash_OkE) (auto simp: Let_def)
    moreover have "bt_wf accounts'" using *(2) s by (auto simp: pay_challenger_def Let_def split: if_splits)
    ultimately show ?thesis by (simp add: *(3))
  qed
qed

lemma tidy_evidence:
  "submit_equivocation_evidence H hex pk vf dg v a b h chal = Ok u \<Longrightarrow> tidy u"
  "submit_execution_fault H aenv cr parse adj v json h owner chal = Ok u \<Longrightarrow> tidy u"
  subgoal by (auto simp: submit_equivocation_evidence_def dest: tidy_slash split: if_splits)
  subgoal by (erule submit_execution_fault_OkE, erule settle_fault_OkE) (auto dest: tidy_slash split: if_splits)
  done

lemma open_proposal_keeps_params:
  "open_proposal sk ms v who ga descr height bnd = Ok (n, ws) \<Longrightarrow> list_all keeps_params ws"
  by (erule open_proposal_Ok) (simp add: side_writes_keep_params)

lemma tidy_governance:
  "block_attestor v act = Ok u \<Longrightarrow> tidy u"
  "gov_vote v act n approve h = Ok u \<Longrightarrow> tidy u"
  "gov_submit env v act proposed descr h = Ok u \<Longrightarrow> tidy u"
  "gov_apply_attestor H ok sk ms v act name ownrs thr eh eu h = Ok u \<Longrightarrow> tidy u"
  subgoal by (auto simp: block_attestor_def apply_set_self_blocked_def)
  subgoal by (auto simp: gov_vote_def elim!: apply_vote_Ok)
  subgoal by (auto simp: gov_submit_def apply_submit_def dest: open_proposal_keeps_params split: if_splits)
  subgoal by (auto simp: gov_apply_attestor_def apply_attestor_application_def Let_def dest: open_proposal_keeps_params)
  done

lemma wf_corrections: "bt_wf accounts \<Longrightarrow> bt_wf (apply_corrections v cs accounts)"
  unfolding apply_corrections_def by (induction cs arbitrary: accounts) auto

lemma wf_execute_action:
  assumes "execute_action H sk ms v p h ga = Some (ws, accounts, slash, attestors)"
  shows "bt_wf accounts"
proof (cases ga)
  case (ResolveDispute height header res cs verdict bounty)
  with assms show ?thesis
    by (auto simp: resolve_dispute_def Let_def intro!: wf_corrections split: option.splits if_splits)
qed (use assms in \<open>auto simp: Let_def refund_bond_def split: if_splits result.splits\<close>)

lemma wf_gov_execute:
  assumes "gov_execute H sk ms v n h = Ok u"
  shows "wf_updates u"
proof -
  from assms obtain ws accounts sl attestors where eff: "apply_execute H sk ms v n h = Ok (ws, accounts, sl, attestors)"
    by (auto simp: gov_execute_def)
  have base: "bt_wf accounts" using eff by (cases rule: apply_execute_Ok) (auto dest: wf_execute_action)
  let ?u = "default_updates\<lparr> bu_governance := ws, bu_accounts := accounts,
               bu_attestor_registration := registration attestors,
               bu_attestor_deregistration := deregistration attestors \<rparr>"
  have u: "wf_updates ?u" using base by (simp add: wf_updates_def no_stakes_def no_operators_def)
  show ?thesis
  proof (cases sl)
    case None
    then show ?thesis using assms eff u by (auto simp: gov_execute_def Let_def)
  next
    case (Some d)
    show ?thesis
    proof (cases "fault_slash H v (culprit d) ExecutionFault h (challenger d)")
      case (Ok s)
      then show ?thesis
        using assms eff Some u tidy_slash [OF Ok] by (auto simp: gov_execute_def Let_def tidy_def wf_updates_def)
    qed (use assms eff Some u in \<open>auto simp: gov_execute_def Let_def\<close>)
  qed
qed

lemma inner_tidy:
  assumes "dispatch_inner env ctx act v = Ok u" "\<And>n. act_payload act \<noteq> ActExecuteProposal n"
  shows "tidy u"
proof (cases "act_payload act")
  case (ActExecuteProposal n)
  then show ?thesis using assms(2) by blast
qed (use assms(1) in \<open>simp_all add: dispatch_inner_def Let_def tidy_asset tidy_holders tidy_token tidy_accounts
       tidy_staking tidy_evidence tidy_governance\<close>)

lemma inner_wf:
  assumes "dispatch_inner env ctx act v = Ok u"
  shows "wf_updates u"
proof (cases "\<exists>n. act_payload act = ActExecuteProposal n")
  case True
  then show ?thesis using assms by (auto simp: dispatch_inner_def Let_def wf_gov_execute)
next
  case False
  then show ?thesis using inner_tidy [OF assms] by (simp add: tidy_def)
qed

lemma dispatch_wf:
  assumes "dispatch env ctx act v = Ok w"
  shows "wf_updates w"
  using assms
proof (cases rule: dispatch_OkE)
  case (1 auth u e)
  then show ?thesis using inner_wf [OF 1(2)] by (simp add: wf_updates_def)
qed

lemma governance_keeps_params:
  "list_all keeps_params gs \<Longrightarrow> v_chain_params (apply_governance v gs) = v_chain_params v"
proof (induction gs arbitrary: v)
  case (Cons g gs)
  then have "v_chain_params (apply_gov_write g v) = v_chain_params v" by (cases g) simp_all
  with Cons show ?case by simp
qed simp

lemma dispatch_params:
  assumes "dispatch env ctx act v = Ok w" "\<And>n. act_payload act \<noteq> ActExecuteProposal n"
  shows "chain_params_of (absorb_updates v w) = chain_params_of v"
  using assms(1)
proof (cases rule: dispatch_OkE)
  case (1 auth u e)
  have "v_chain_params (absorb_updates v w) = v_chain_params (apply_governance v (bu_governance w))"
    using absorb_updates_rows(6) [of v w] by (simp add: gov_rows_def)
  then show ?thesis
    using inner_tidy [OF 1(2) assms(2)] by (simp add: chain_params_of_def 1(3) tidy_def governance_keeps_params)
qed


end
