(* ===== verification/Dispatch_Coins.thy ===== *)
theory Dispatch_Coins
  imports Dispatch_Shape Block_Commit
begin

text \<open>
  Where the coins of a block go: every handler conserves the native supply and keeps every stake backed, the fee is the only
  thing an action takes out of circulation, and the seal puts no more than the collected fees back.
\<close>

section \<open>Coins\<close>

text \<open>A batch that creates and destroys no coins and leaves every stake backed.\<close>

definition keeps_coins :: "hasher \<Rightarrow> view \<Rightarrow> account_updates \<Rightarrow> stake_updates \<Rightarrow> bool" where
  "keeps_coins H v accounts stakes \<longleftrightarrow>
     stake_inv H (staked v (accounts, stakes)) \<and> native_supply (staked v (accounts, stakes)) = native_supply v"

lemma keeps_nothing [simp]: "stake_inv H v \<Longrightarrow> keeps_coins H v [] no_stakes"
  by (simp add: keeps_coins_def)

lemma keeps_accounts:
  "stake_inv H (apply_accounts v accounts) \<Longrightarrow> native_supply (apply_accounts v accounts) = native_supply v \<Longrightarrow>
   keeps_coins H v accounts no_stakes"
  using stake_inv_cong [of "staked v (accounts, no_stakes)" "apply_accounts v accounts" H]
  by (simp add: keeps_coins_def staked_def no_stakes_def)

lemma system_not_user [simp]:
  "\<not> user_account H (stake_subaccount H w)" "\<not> user_account H (treasury_account H)"
  "\<not> user_account H (reward_pool_account H)"
  unfolding user_account_def by blast+

lemma keeps_row:
  assumes "stake_inv H v" "balance e = balance (account_of v a)"
  shows "keeps_coins H v (bt_insert a e []) no_stakes"
  using assms native_same [OF stake_inv_finite [OF assms(1)] assms(2)]
  by (intro keeps_accounts stake_inv_accounts [OF assms(1)]) simp_all

lemma keeps_payment:
  assumes "stake_inv H v" "a \<noteq> b" "\<And>w. a \<noteq> stake_subaccount H w"
    and "balance x + balance y = balance (account_of v a) + balance (account_of v b)"
    and "balance (account_of v b) \<le> balance y"
  shows "keeps_coins H v (bt_insert b y (bt_insert a x [])) no_stakes"
  using assms native_conserve [OF stake_inv_finite [OF assms(1)] assms(2,4)]
  by (intro keeps_accounts stake_inv_accounts [OF assms(1)]) (simp_all add: not_sym)

lemma keeps_saturating_payment:
  assumes "stake_inv H v" "a \<noteq> b" "\<And>w. a \<noteq> stake_subaccount H w"
    and "n \<le> balance (account_of v a)" "native_supply v \<le> u128_max"
  shows "keeps_coins H v
    (bt_insert b ((account_of v b)\<lparr> balance := saturating_add u128_max (balance (account_of v b)) n \<rparr>)
      (bt_insert a ((account_of v a)\<lparr> balance := balance (account_of v a) - n \<rparr>) [])) no_stakes"
proof -
  have "balance (account_of v b) + n \<le> u128_max"
    using two_accounts_le_supply [OF stake_inv_finite [OF assms(1)] assms(2)] assms(4,5) by linarith
  then show ?thesis using assms by (intro keeps_payment) (simp_all add: saturating_add_def)
qed

lemma keeps_transfer:
  assumes "stake_inv H v" "user_account H (act_sender act)" "account_transfer v act to amount = Ok u"
  shows "keeps_coins H v (bu_accounts u) (bu_stakes u)"
proof -
  from assms(3) obtain accounts where a: "apply_transfer v (act_sender act) (act_nonce act) to amount = Ok accounts"
      "u = default_updates\<lparr> bu_accounts := accounts \<rparr>"
    by (auto simp: account_transfer_def)
  from a(1) have "keeps_coins H v accounts no_stakes"
  proof (cases rule: apply_transfer_OkE)
    case self
    then show ?thesis using assms(1) by (simp add: keeps_row)
  next
    case other
    then show ?thesis using assms(1,2) by (auto intro!: keeps_payment)
  qed
  then show ?thesis by (simp add: a(2))
qed

lemma keeps_rows:
  assumes "stake_inv H v"
  shows "policy_apply env qact v pa h g = Ok u \<Longrightarrow> keeps_coins H v (bu_accounts u) (bu_stakes u)"
    and "verify_identity_credential env v act pb = Ok u \<Longrightarrow> keeps_coins H v (bu_accounts u) (bu_stakes u)"
    and "grant_attestation v act subject hash topics juris h = Ok u \<Longrightarrow> keeps_coins H v (bu_accounts u) (bu_stakes u)"
    and "revoke_attestation v act subject = Ok u \<Longrightarrow> keeps_coins H v (bu_accounts u) (bu_stakes u)"
    and "issue_asset v act r amount = Ok u \<Longrightarrow> keeps_coins H v (bu_accounts u) (bu_stakes u)"
    and "transfer_asset v act r to amount h = Ok u \<Longrightarrow> keeps_coins H v (bu_accounts u) (bu_stakes u)"
  subgoal by (auto simp: policy_apply_def Let_def dest!: apply_policy_action_keeps intro!: keeps_row assms)
  subgoal by (auto simp: verify_identity_credential_def apply_verify_credential_def account_of_def
        intro!: keeps_row assms split: if_splits)
  subgoal by (auto simp: grant_attestation_def apply_grant_attestation_def Let_def intro!: keeps_row assms split: if_splits)
  subgoal by (auto simp: revoke_attestation_def apply_revoke_attestation_def account_of_def intro!: keeps_row assms)
  subgoal by (auto simp: issue_asset_def apply_issue_def Let_def intro!: keeps_row assms split: if_splits)
  subgoal by (auto simp: transfer_asset_def apply_compliant_transfer_def Let_def intro!: keeps_row assms split: if_splits)
  done

lemma keeps_staking:
  assumes "separated H" "stake_inv H v" "user_account H (act_sender act)"
  shows "join_validator H vp act v validator amount pk pop opl owner h = Ok u \<Longrightarrow> keeps_coins H v (bu_accounts u) (bu_stakes u)"
    and "stake H v act validator amount opl h = Ok u \<Longrightarrow> keeps_coins H v (bu_accounts u) (bu_stakes u)"
    and "unstake v act validator amount h = Ok u \<Longrightarrow> keeps_coins H v (bu_accounts u) (bu_stakes u)"
    and "leave_validator act v validator opl validators h = Ok u \<Longrightarrow> keeps_coins H v (bu_accounts u) (bu_stakes u)"
  subgoal by (erule join_validator_OkE) (use apply_stake_inv [OF assms(1,3,2)] in \<open>simp add: keeps_coins_def\<close>)
  subgoal using apply_stake_inv [OF assms(1,3,2)] by (auto simp: stake_def keeps_coins_def)
  subgoal by (erule unstake_OkE) (use apply_unstake_inv [OF assms(2)] in \<open>simp add: keeps_coins_def\<close>)
  subgoal using leave_validator_inv [OF assms(2)] unfolding absorb_is_staked keeps_coins_def by blast
  done

lemma keeps_slash:
  assumes "separated H" "stake_inv H v" "user_account H chal" "fault_slash H v who reason h chal = Ok u"
  shows "keeps_coins H v (bu_accounts u) (bu_stakes u)"
  using fault_slash_sound [OF assms(1,3,2,4)] assms(2)
  by (auto simp: keeps_coins_def absorb_is_staked split: if_splits)

lemma keeps_evidence:
  assumes "separated H" "stake_inv H v" "user_account H chal"
  shows "submit_equivocation_evidence H hex pk vf dg v a b h chal = Ok u \<Longrightarrow> keeps_coins H v (bu_accounts u) (bu_stakes u)"
    and "submit_execution_fault H aenv cr parse adj v json h owner chal = Ok u \<Longrightarrow> keeps_coins H v (bu_accounts u) (bu_stakes u)"
  using assms by (auto dest!: evidence_slashes keeps_slash [OF assms])

lemma keeps_token:
  assumes "stake_inv H v" "user_account H (act_sender act)" "native_supply v \<le> u128_max"
    and "token_dispatch H derive v act ta h = Ok u"
  shows "keeps_coins H v (bu_accounts u) (bu_stakes u)"
  using assms
  by (cases ta) (auto simp: token_dispatch_def create_token_def apply_create_def Let_def asset_register_def
      intro!: keeps_saturating_payment split: if_splits)

lemma keeps_apply_attestor:
  assumes "stake_inv H v" "user_account H (act_sender act)" "native_supply v \<le> u128_max"
    and "gov_apply_attestor H ok sk ms v act name ownrs thr eh eu h = Ok u"
  shows "keeps_coins H v (bu_accounts u) (bu_stakes u)"
  using assms
  by (auto simp: gov_apply_attestor_def apply_attestor_application_def Let_def intro!: keeps_saturating_payment)


text \<open>
  The proposals whose execution moves coins exactly: not from the treasury to itself, and no dispute resolution that sets
  balances outright.
\<close>

definition exact_proposal :: "hasher \<Rightarrow> proposal \<Rightarrow> bool" where
  "exact_proposal H p \<longleftrightarrow> proposer p \<noteq> treasury_account H \<and>
     (case proposal_action p of ResolveDispute _ _ _ cs _ _ \<Rightarrow> cs = [] | _ \<Rightarrow> True)"

definition user_disputes :: "hasher \<Rightarrow> view \<Rightarrow> bool" where
  "user_disputes H v \<longleftrightarrow> (\<forall>k d. v_dispute_open v k = Some d \<longrightarrow> user_account H (challenger d))"

lemma keeps_execute_action:
  assumes "separated H" "stake_inv H v" "native_supply v \<le> u128_max" "exact_proposal H p"
    and "execute_action H sk ms v p h (proposal_action p) = Some (ws, accounts, slash, attestors)"
  shows "keeps_coins H v accounts no_stakes"
proof (cases "proposal_action p")
  case (ResolveDispute height header res cs verdict bounty)
  with assms(4) have "cs = []" by (simp add: exact_proposal_def)
  with assms ResolveDispute show ?thesis
    by (auto simp: resolve_dispute_def apply_corrections_def Let_def not_less
        intro!: keeps_saturating_payment split: option.splits if_splits)
next
  case AddAttestor
  with assms show ?thesis
    by (auto simp: Let_def refund_bond_def exact_proposal_def intro!: keeps_saturating_payment
        split: if_splits result.splits)
next
  case TreasurySpend
  with assms show ?thesis by (auto simp: Let_def intro!: keeps_saturating_payment split: if_splits)
qed (use assms in \<open>auto simp: Let_def split: if_splits result.splits\<close>)

lemma execute_action_slash:
  assumes "execute_action H sk ms v p h ga = Some (ws, accounts, Some d, attestors)"
  obtains k where "v_dispute_open v k = Some d"
  using assms
  by (cases ga) (auto simp: Let_def resolve_dispute_def split: if_splits result.splits option.splits)

lemma keeps_gov_execute:
  assumes "separated H" "stake_inv H v" "native_supply v \<le> u128_max" "user_disputes H v"
    and "\<forall>p. v_proposal v n = Some p \<longrightarrow> exact_proposal H p"
    and "gov_execute H sk ms v n h = Ok u"
  shows "keeps_coins H v (bu_accounts u) (bu_stakes u)"
  using assms(6)
proof (cases rule: gov_execute_OkE)
  case (plain ws slash attestors)
  from plain(1) show ?thesis
    by (cases rule: apply_execute_Ok) (use assms plain(2) keeps_execute_action in \<open>auto simp: keeps_accounts\<close>)
next
  case (slash d s ws accounts attestors)
  from slash(1) obtain k where "v_dispute_open v k = Some d"
    by (cases rule: apply_execute_Ok) (auto elim: execute_action_slash)
  then have "user_account H (challenger d)" using assms(4) unfolding user_disputes_def by blast
  then show ?thesis using keeps_slash [OF assms(1,2) _ slash(2)] slash(3,4) by simp
qed

section \<open>A dispatched action and the coins\<close>

definition coin_exact :: "hasher \<Rightarrow> view \<Rightarrow> 'q chain_action \<Rightarrow> bool" where
  "coin_exact H v act \<longleftrightarrow> user_account H (act_sender act) \<and>
     (case act_payload act of
        ActExecuteProposal n \<Rightarrow> user_disputes H v \<and> (\<forall>p. v_proposal v n = Some p \<longrightarrow> exact_proposal H p)
      | _ \<Rightarrow> True)"

lemma keeps_inner:
  assumes "separated (re_hasher env)" "stake_inv (re_hasher env) v" "native_supply v \<le> u128_max"
    and "coin_exact (re_hasher env) v act" "dispatch_inner env ctx act v = Ok u"
  shows "keeps_coins (re_hasher env) v (bu_accounts u) (bu_stakes u)"
proof (cases "quiet (act_payload act)")
  case True
  then show ?thesis using quiet_dispatch [OF assms(5)] assms(2) by simp
next
  case False
  have user: "user_account (re_hasher env) (act_sender act)" using assms(4) by (simp add: coin_exact_def)
  note laws = keeps_transfer [OF assms(2) user] keeps_rows [OF assms(2)] keeps_staking [OF assms(1,2) user]
    keeps_evidence [OF assms(1,2) user] keeps_token [OF assms(2) user assms(3)]
    keeps_apply_attestor [OF assms(2) user assms(3)]
  from False assms(5) show ?thesis
  proof (cases "act_payload act")
    case (ActExecuteProposal n)
    then show ?thesis
      using assms(4,5) by (intro keeps_gov_execute [OF assms(1-3)]) (auto simp: coin_exact_def dispatch_inner_def Let_def)
  qed (simp_all add: dispatch_inner_def quiet_def Let_def laws)
qed

lemma sender_row_on_top:
  assumes "w = u\<lparr> bu_accounts := bt_insert a e (bu_accounts u) \<rparr>" "stake_inv H (absorb_updates v u)"
    and "\<And>s. a \<noteq> stake_subaccount H s"
  shows "stake_inv H (absorb_updates v w)"
    and "native_supply (absorb_updates v w) + balance (account_of (absorb_updates v u) a) =
      native_supply (absorb_updates v u) + balance e"
proof -
  let ?t = "apply_accounts (absorb_updates v u) (bt_insert a e [])"
  have rows: "v_account (absorb_updates v w) = v_account ?t" "v_stake (absorb_updates v w) = v_stake ?t"
    "v_stake_by_validator (absorb_updates v w) = v_stake_by_validator ?t"
    by (simp_all add: absorb_updates_rows assms(1))
  have "stake_inv H ?t" using assms(3) by (intro stake_inv_accounts [OF assms(2)]) (simp add: not_sym)
  then show "stake_inv H (absorb_updates v w)" using stake_inv_cong [OF rows] by simp
  show "native_supply (absorb_updates v w) + balance (account_of (absorb_updates v u) a) =
      native_supply (absorb_updates v u) + balance e"
    using native_one [OF stake_inv_finite [OF assms(2)], of a e] by (simp add: native_supply_def rows)
qed

lemma dispatch_coins:
  assumes "separated (re_hasher env)" "stake_inv (re_hasher env) v" "native_supply v \<le> u128_max"
    and "coin_exact (re_hasher env) v act" "dispatch env ctx act v = Ok w"
  shows "stake_inv (re_hasher env) (absorb_updates v w)"
    and "native_supply (absorb_updates v w) + action_fee_for (chain_params_of v) (action_weight env act) = native_supply v"
  using assms(5)
proof (atomize (full), cases rule: dispatch_OkE)
  case (1 auth u e)
  have k: "stake_inv (re_hasher env) (absorb_updates v u)" "native_supply (absorb_updates v u) = native_supply v"
    using keeps_inner [OF assms(1-4) 1(2)] by (simp_all add: absorb_is_staked keeps_coins_def)
  have "\<And>s. act_sender act \<noteq> stake_subaccount (re_hasher env) s" using assms(4) by (simp add: coin_exact_def)
  note top = sender_row_on_top [OF 1(3) k(1) this]
  show "stake_inv (re_hasher env) (absorb_updates v w) \<and>
    native_supply (absorb_updates v w) + action_fee_for (chain_params_of v) (action_weight env act) = native_supply v"
    using top 1(6,7) k(2) by simp
qed

section \<open>The coins of a block\<close>

text \<open>The actions of a user other than the execution of a proposal.\<close>

definition plain_action :: "hasher \<Rightarrow> 'q chain_action \<Rightarrow> bool" where
  "plain_action H act \<longleftrightarrow> user_account H (act_sender act) \<and>
     (case act_payload act of ActExecuteProposal _ \<Rightarrow> False | _ \<Rightarrow> True)"

definition fee_of :: "('q, 'f, 'z, 'x) runtime_env \<Rightarrow> chain_params \<Rightarrow> 'q chain_action \<Rightarrow> nat" where
  "fee_of env params act = action_fee_for params (action_weight env act)"

definition coin_run :: "('q, 'f, 'z, 'x) runtime_env \<Rightarrow> view \<Rightarrow> 'q chain_action list \<Rightarrow> view \<Rightarrow> bool" where
  "coin_run env v0 acts v \<longleftrightarrow>
     (separated (re_hasher env) \<and> native_supply v0 \<le> u128_max \<and> list_all (plain_action (re_hasher env)) acts \<longrightarrow>
      stake_inv (re_hasher env) v \<and> chain_params_of v = chain_params_of v0 \<and>
      native_supply v + (\<Sum>a\<leftarrow>acts. fee_of env (chain_params_of v0) a) = native_supply v0)"

lemma plain_exact: "plain_action H act \<Longrightarrow> coin_exact H v act" "plain_action H act \<Longrightarrow> act_payload act \<noteq> ActExecuteProposal n"
  by (auto simp: plain_action_def coin_exact_def split: action_payload.splits)

interpretation cr: dispatch_invariant "runtime_dispatch env validators height ts genesis" "coin_run env v0"
  for env validators height ts genesis v0
proof (unfold_locales, goal_cases)
  case (1 acts v act u)
  note d = 1(2) [unfolded runtime_dispatch_def]
  show ?case
    unfolding coin_run_def
  proof (intro impI)
    let ?H = "re_hasher env"
    assume *: "separated ?H \<and> native_supply v0 \<le> u128_max \<and> list_all (plain_action ?H) (acts @ [act])"
    then have p: "plain_action ?H act" by simp
    from * 1(1) have r: "stake_inv ?H v" "chain_params_of v = chain_params_of v0"
        "native_supply v + (\<Sum>a\<leftarrow>acts. fee_of env (chain_params_of v0) a) = native_supply v0"
      by (auto simp: coin_run_def)
    have "native_supply v \<le> u128_max" using r(3) * by linarith
    note c = dispatch_coins [OF _ r(1) this plain_exact(1) [OF p] d]
    show "stake_inv ?H (absorb_updates v u) \<and> chain_params_of (absorb_updates v u) = chain_params_of v0 \<and>
      native_supply (absorb_updates v u) + (\<Sum>a\<leftarrow>acts @ [act]. fee_of env (chain_params_of v0) a) = native_supply v0"
      using c * r dispatch_params [OF d plain_exact(2) [OF p]] by (simp add: fee_of_def)
  qed
qed


lemma fold_release_params: "v_chain_params (fold (release H) xs v) = v_chain_params v"
  by (induction xs arbitrary: v) (simp_all add: release_def staked_def Let_def apply_stakes_def apply_accounts_def)

lemma seeded_by_unbonding:
  assumes "separated H" "stake_inv H db" "index_inv db" "native_supply db \<le> u128_max"
    and "resolve_matured_unbonding H db height = Ok seed"
  shows "stake_inv H (seeded_view db seed)" "native_supply (seeded_view db seed) = native_supply db"
    "chain_params_of (seeded_view db seed) = chain_params_of db"
proof -
  let ?x = "fold (release H) (matured db height) db"
  from resolve_due_unbonding_correct [OF assms(1-4), of height] obtain r where
    r: "resolve_due_unbonding H db height = Ok r"
      "resolved db r = ?x\<lparr> v_unbonding_due := (v_unbonding_due db)(height := None) \<rparr>"
      "stake_inv H ?x" "native_supply ?x = native_supply db" by blast
  obtain accounts stakes gov where rr: "r = (accounts, stakes, gov)" by (cases r)
  have "seed = default_updates\<lparr> bu_accounts := accounts, bu_stakes := stakes, bu_governance := gov \<rparr>"
    using assms(5) r(1) by (simp add: resolve_matured_unbonding_def rr)
  then have sv: "seeded_view db seed = resolved db r"
    by (simp add: seeded_view_def resolved_def staked_def rr apply_opt_def apply_holder_states_def
        apply_validator_statuses_def)
  show "stake_inv H (seeded_view db seed)"
    using r(3) stake_inv_cong [of "seeded_view db seed" ?x H] by (simp add: sv r(2))
  show "native_supply (seeded_view db seed) = native_supply db" using r(4) by (simp add: sv r(2) native_supply_def)
  show "chain_params_of (seeded_view db seed) = chain_params_of db"
    by (simp add: sv r(2) chain_params_of_def fold_release_params)
qed


lemma wf_downtime_step:
  assumes "downtime_step H v sealed who validators height u = Ok (u', sealed')" "wf_updates u"
  shows "wf_updates u'"
  using assms
  by (auto simp: downtime_step_def Let_def wf_updates_def split: if_splits option.splits validator_status.splits)

lemma wf_seal:
  assumes "seal H v written who fees validators height = Ok u"
  shows "wf_updates u"
proof -
  from assms obtain r u1 sealed1 b where
    r: "apply_block_reward H v who fees (reward_per_block (chain_params_of v)) (fee_proposer_bps (chain_params_of v))
          (fee_treasury_bps (chain_params_of v)) = Ok r"
    and d: "downtime_step H v (overlay_apply v (default_updates\<lparr> bu_accounts := r \<rparr>)) who validators height
          (default_updates\<lparr> bu_accounts := r \<rparr>) = Ok (u1, sealed1)"
    and u: "u = finish_seal v written u1 sealed1 b"
    by (auto simp: seal_def Let_def)
  have "bt_wf r" using r by (auto simp: apply_block_reward_def Let_def)
  then have "wf_updates (default_updates\<lparr> bu_accounts := r \<rparr>)" by (simp add: wf_updates_def no_stakes_def no_operators_def)
  then have "wf_updates u1" by (rule wf_downtime_step [OF d])
  then show ?thesis by (simp add: u finish_seal_def Let_def wf_updates_def)
qed


text \<open>What the executor counts as the fees of a block are the fees of the actions it applied.\<close>

lemma applied_accounts:
  assumes "execute_actions presigned policy_signed disp (\<lambda>a. (weight a, fee a)) db actions seed = Ok (v, out)"
  shows "set (applied out) \<subseteq> set actions" "fees_collected out = min u128_max (\<Sum>a\<leftarrow>applied out. fee a)"
proof -
  have "deferred (seeded_outcome seed) = []" by (simp add: seeded_outcome_def)
  then have acc: "loop_accounts (\<lambda>a. (weight a, fee a)) (max_block_weight (chain_params_of db)) actions (seeded_outcome seed) out"
    by (rule execute_loop_accounts [OF assms [unfolded execute_actions_def]])
  have seed: "applied (seeded_outcome seed) = []" "fees_collected (seeded_outcome seed) = 0"
    by (simp_all add: seeded_outcome_def)
  from acc obtain taken where t: "actions = taken @ deferred out" "subseq (applied out) taken"
      and f: "fees_collected out = min u128_max (\<Sum>a\<leftarrow>applied out. fee a)"
    unfolding loop_accounts_def seed by auto
  from t show "set (applied out) \<subseteq> set actions" by (fastforce elim: list_emb_set)
  show "fees_collected out = min u128_max (\<Sum>a\<leftarrow>applied out. fee a)" by (rule f)
qed

text \<open>The view the seal reads and the database after the block hold the accounts and stakes the actions left.\<close>

lemma seal_view_stakes:
  assumes "execute_actions presigned policy_signed (runtime_dispatch env validators height ts genesis) meter db actions seed
      = Ok (v, out)"
  shows "v_account (seal_view db out) = v_account v" "v_stake (seal_view db out) = v_stake v"
    "v_stake_by_validator (seal_view db out) = v_stake_by_validator v"
    "chain_params_of (seal_view db out) = chain_params_of v" "tracks db v out"
proof -
  show t: "tracks db v out"
    using assms unfolding execute_actions_def
    by (rule execute_loop_tracks [OF _ tracks_seed]) (auto simp: runtime_dispatch_def dest: dispatch_wf)
  show "v_account (seal_view db out) = v_account v" "v_stake (seal_view db out) = v_stake v"
    "v_stake_by_validator (seal_view db out) = v_stake_by_validator v"
    "chain_params_of (seal_view db out) = chain_params_of v"
    using t seal_view_tracks [of db out] by (simp_all add: tracks_def gov_rows_def chain_params_of_def)
qed

lemma committed_stakes:
  assumes "tracks db v out" "commit_block db height out u = Ok w" "wf_updates u"
  shows "v_account w = v_account v ++ map_of (bu_accounts u)"
    "v_stake w = overlay (v_stake v) (allocations (bu_stakes u))"
    "v_stake_by_validator w = list_row (v_stake_by_validator v) (validator_index (bu_stakes u))"
  using commit_block_rows(1) [OF assms(2,3)] assms(1)
  by (simp_all add: typed_rows_def before_governance_def tracks_def)

end
