(* ===== verification/Dispatch_Properties.thy ===== *)
theory Dispatch_Properties
  imports Dispatch_Coins
begin

text \<open>
  What the dispatcher and the executor guarantee together: nonces, coins, the asset ledger and the scope of delegated keys,
  for the runtime's whole action enum.
\<close>

section \<open>Nonces and coins of a block\<close>

text \<open>
  C6: No action is replayed, skipped or reordered. In any block the runtime executes, the actions applied for an account
  carry the consecutive nonces from the account's nonce before the block up to its nonce after it, whatever the block drops
  or defers.
\<close>

theorem applied_nonces_consecutive:
  assumes "execute_actions presigned policy_signed (runtime_dispatch env validators height ts genesis) meter db actions seed
      = Ok (v, out)"
  shows "map act_nonce (filter (\<lambda>act. act_sender act = a) (applied out)) =
      [nonce (account_of (seeded_view db seed) a)..<nonce (account_of v a)]"
proof -
  have "nonce_run (seeded_view db seed) [] (seeded_view db seed)" by (simp add: nonce_run_def nonces_of_def)
  from nr.block [OF assms this] show ?thesis by (simp add: nonce_run_def nonces_of_def)
qed

text \<open>A chain for the witnesses: a user pays another one, at a fee of three units.\<close>

definition sample_env :: "(unit, unit, unit, unit) runtime_env" where
  "sample_env =
    \<lparr> re_hasher = sample_hasher,
      re_crypto = \<lparr> cr_sha256 = id, cr_hex_encode = id, cr_hex_decode = Some, cr_bech32_encode = (\<lambda>_ _. None),
        cr_bech32_decode = (\<lambda>_. None), cr_ed_verify = (\<lambda>_ _ _. False), cr_ed_key = (\<lambda>_. False), cr_ed_weak = (\<lambda>_. False),
        cr_encode_signing = (\<lambda>_ _ _ _. []) \<rparr>,
      re_art = sample_art_env, re_possession = (\<lambda>_ _. Inl False), re_verifies = (\<lambda>_ _ _. False), re_digest = (\<lambda>_. []),
      re_encoded_len = (\<lambda>_. Some 40), re_field_of = (\<lambda>_. None), re_proof_of = (\<lambda>_. None),
      re_verify_credential = (\<lambda>_ _ _. False), re_country_set = (\<lambda>_. None),
      re_verify_predicate = (\<lambda>_ _ _ _ _ _ _ _. False), re_parse_artifact = (\<lambda>_. None), re_adjudicate = (\<lambda>_. Err ()) \<rparr>"

definition sample_fee_view :: view where
  "sample_fee_view = sample_epoch_view\<lparr> v_chain_params := Some (default_chain_params\<lparr>
     epoch_length := 10, min_validator_set := 1, min_validator_stake := 50, action_fee := 3, weight_fee := 0 \<rparr>) \<rparr>"

definition sample_payment :: "nat \<Rightarrow> unit chain_action" where
  "sample_payment n = \<lparr> act_sender = sample_alice, act_nonce = n, act_signature = None, act_payload = ActTransfer sample_bob 10 \<rparr>"

lemma dispatch_returns:
  assumes "policy_authorize env act v (dc_height ctx) (dc_genesis ctx) = Ok auth"
    and "programmable (account_of v (act_sender act)) = None" "dispatch_inner env ctx act v = Ok u"
    and "map_of (bu_accounts u) (act_sender act) = Some e" "nonce e \<noteq> nonce (account_of v (act_sender act))"
    and "fee \<le> balance e" "fee = action_fee_for (chain_params_of v) (action_weight env act)"
  shows "dispatch env ctx act v =
    Ok (u\<lparr> bu_accounts := bt_insert (act_sender act) (e\<lparr> balance := balance e - fee \<rparr>) (bu_accounts u) \<rparr>)"
proof -
  have current: "(case v_account v (act_sender act) of Some e \<Rightarrow> nonce e | None \<Rightarrow> 0) = nonce (account_of v (act_sender act))"
    by (simp add: account_of_def default_account_def split: option.splits)
  have n: "consume_nonce act v u = Ok u" using assms(4,5) by (simp add: consume_nonce_def Let_def current)
  have f: "charge_action_fee (action_weight env act) act v u =
      Ok (u\<lparr> bu_accounts := bt_insert (act_sender act) (e\<lparr> balance := balance e - fee \<rparr>) (bu_accounts u) \<rparr>)"
    using assms(4,6,7) by (simp add: charge_action_fee_def Let_def checked_sub_def ok_or_def)
  show ?thesis
    unfolding dispatch_def assms(1,3) and_then.simps n f map_err.simps
    using assms(2) by (simp add: policy_enforce_def Let_def)
qed

lemma transfer_dispatches:
  assumes "act_payload act = ActTransfer to amount" "act_nonce act = nonce (account_of v (act_sender act))"
    and "to \<noteq> act_sender act" "programmable (account_of v (act_sender act)) = None"
    and "amount + fee \<le> balance (account_of v (act_sender act))" "balance (account_of v to) + amount \<le> u128_max"
    and "act_nonce act < u64_max" "fee = action_fee_for (chain_params_of v) (action_weight env act)"
  shows "\<exists>u. dispatch env ctx act v = Ok u"
proof -
  let ?s = "act_sender act"
  let ?r = "(account_of v ?s)\<lparr> balance := balance (account_of v ?s) - amount, nonce := Suc (act_nonce act) \<rparr>"
  let ?u = "default_updates\<lparr> bu_accounts := bt_insert to ((account_of v to)\<lparr> balance := balance (account_of v to) + amount \<rparr>)
      (bt_insert ?s ?r []) \<rparr>"
  have auth: "policy_authorize env act v (dc_height ctx) (dc_genesis ctx) = Ok Owner"
    using assms(1,4) by (simp add: policy_authorize_def check_set_policy_def)
  have inner: "dispatch_inner env ctx act v = Ok ?u"
    unfolding dispatch_inner_def Let_def assms(1) action_payload.case account_transfer_def
    using assms(2,3,5,6,7) by (simp add: apply_transfer_outcome)
  show ?thesis
    by (intro exI, rule dispatch_returns [OF auth assms(4) inner, of ?r fee])
       (use assms(2,3,5,8) assms(3) [symmetric] in \<open>simp_all\<close>)
qed

lemma seeded_default: "seeded_view db default_updates = db"
  by (simp add: seeded_view_def apply_opt_def apply_holder_states_def apply_validator_statuses_def no_stakes_def
      apply_stakes_def apply_accounts_def)

lemma sample_fee_rows:
  "account_of sample_fee_view sample_alice = default_account\<lparr> balance := 500 \<rparr>"
  "account_of sample_fee_view sample_bob = default_account"
  "chain_params_of sample_fee_view = default_chain_params\<lparr>
     epoch_length := 10, min_validator_set := 1, min_validator_stake := 50, action_fee := 3, weight_fee := 0 \<rparr>"
  using sample_separated sample_user sample_bob_user
  by (simp_all add: sample_fee_view_def sample_epoch_view_def sample_view_def account_of_def chain_params_of_def empty_view_def)

lemma sample_payment_fee: "action_fee_for (chain_params_of sample_fee_view) n = 3"
  by (simp add: sample_fee_rows action_fee_for_def saturating_add_def u128_max_def default_chain_params_def)

lemma sample_payment_weight: "action_weight sample_env (sample_payment n) \<le> 1000"
  by (simp add: action_weight_def sample_env_def sample_payment_def base_weight_def saturating_add_def WEIGHT_PER_BYTE_def
      u64_max_def)

lemma sample_payment_dispatch:
  "\<exists>u. runtime_dispatch sample_env validators height ts g (sample_payment 0) sample_fee_view = Ok u"
  unfolding runtime_dispatch_def
  by (rule transfer_dispatches [where to = sample_bob and amount = 10 and fee = 3])
     (use sample_bob_user(2) in \<open>simp_all add: sample_payment_def sample_fee_rows(1,2) sample_payment_fee default_account_def
        u128_max_def u64_max_def\<close>)

lemma sample_block_runs:
  "\<exists>v out. execute_actions (\<lambda>_. True) (\<lambda>_ _. True) (runtime_dispatch sample_env validators height ts g)
       (\<lambda>act. (action_weight sample_env act, fee_of sample_env (chain_params_of sample_fee_view) act))
       sample_fee_view [sample_payment 0] default_updates = Ok (v, out) \<and> applied out = [sample_payment 0]"
proof -
  obtain u where u: "runtime_dispatch sample_env validators height ts g (sample_payment 0) sample_fee_view = Ok u"
    using sample_payment_dispatch by blast
  have M: "max_block_weight (chain_params_of sample_fee_view) = 1000000" by (simp add: sample_fee_rows default_chain_params_def)
  have w: "saturating_add u64_max 0 (action_weight sample_env (sample_payment 0)) \<le> 1000000"
      "action_weight sample_env (sample_payment 0) \<le> u64_max"
    using sample_payment_weight [of 0] by (simp_all add: saturating_add_def u64_max_def)
  have ver: "verified (\<lambda>_. True) (\<lambda>_ _. True) sample_fee_view (sample_payment 0)"
    by (simp add: verified_def split: option.split)
  show ?thesis
    using u w by (simp add: execute_actions_def seeded_default M ver seeded_outcome_def extend_outcome_def add_or_panic_def
        checked_add_def expect_def not_less)
qed

theorem applied_nonces_consecutive_witness:
  "\<exists>v out. execute_actions (\<lambda>_. True) (\<lambda>_ _. True) (runtime_dispatch sample_env [sample_alice] 8 0 [])
       (\<lambda>act. (action_weight sample_env act, fee_of sample_env (chain_params_of sample_fee_view) act))
       sample_fee_view [sample_payment 0] default_updates = Ok (v, out) \<and> nonce (account_of v sample_alice) = 1"
proof -
  from sample_block_runs [of "[sample_alice]" 8 0 "[]"] obtain v out where
    r: "execute_actions (\<lambda>_. True) (\<lambda>_ _. True) (runtime_dispatch sample_env [sample_alice] 8 0 [])
       (\<lambda>act. (action_weight sample_env act, fee_of sample_env (chain_params_of sample_fee_view) act))
       sample_fee_view [sample_payment 0] default_updates = Ok (v, out)" "applied out = [sample_payment 0]"
    by blast
  have "[0] = [0..<nonce (account_of v sample_alice)]"
    using applied_nonces_consecutive [OF r(1), of sample_alice]
    by (simp add: r(2) seeded_default sample_fee_rows sample_payment_def default_account_def)
  then have "length [0..<nonce (account_of v sample_alice)] = length [0::nat]" by simp
  then show ?thesis using r by auto
qed

lemma shares_within:
  fixes f :: nat
  assumes "a + b \<le> 10000"
  shows "f * a div 10000 + f * b div 10000 \<le> f"
proof -
  have "10000 * (f * a div 10000) \<le> f * a" "10000 * (f * b div 10000) \<le> f * b"
    by (rule times_div_less_eq_dividend)+
  moreover have "f * a + f * b \<le> f * 10000"
    using mult_le_mono2 [OF assms, of f] by (simp only: add_mult_distrib2)
  ultimately show ?thesis by linarith
qed

text \<open>A block up to its seal.\<close>

lemma block_before_seal:
  assumes "separated (re_hasher env)" and "stake_inv (re_hasher env) db" and "index_inv db" and "native_supply db \<le> u128_max"
    and "list_all (plain_action (re_hasher env)) actions"
    and "resolve_matured_unbonding (re_hasher env) db height = Ok seed"
    and run: "execute_actions presigned policy_signed (runtime_dispatch env validators height ts genesis)
      (\<lambda>act. (action_weight env act, fee_of env (chain_params_of db) act)) db actions seed = Ok (v, out)"
  shows "stake_inv (re_hasher env) (seal_view db out)" "chain_params_of (seal_view db out) = chain_params_of db"
    "native_supply (seal_view db out) + fees_collected out = native_supply db"
proof -
  let ?H = "re_hasher env" and ?s = "seeded_view db seed"
  note seed = seeded_by_unbonding [OF assms(1-4,6)]
  have "coin_run env ?s [] ?s" using seed(1) by (simp add: coin_run_def)
  moreover have "list_all (plain_action ?H) (applied out)"
    using assms(5) applied_accounts(1) [OF run] by (auto simp: list_all_iff)
  ultimately have v: "stake_inv ?H v" "chain_params_of v = chain_params_of db"
      "native_supply v + (\<Sum>a\<leftarrow>applied out. fee_of env (chain_params_of db) a) = native_supply db"
    using cr.block [OF run, of ?s] assms(1,4) by (simp_all add: coin_run_def seed)
  have fees: "native_supply v + fees_collected out = native_supply db"
    using applied_accounts(2) [OF run] v(3) assms(4) by linarith
  note sv = seal_view_stakes [OF run]
  show "stake_inv ?H (seal_view db out)" "chain_params_of (seal_view db out) = chain_params_of db"
    "native_supply (seal_view db out) + fees_collected out = native_supply db"
    using v(1,2) fees stake_inv_cong [OF sv(1-3)] by (simp_all add: native_supply_def sv)
qed

text \<open>
  C5: A whole block creates no coins. Take a chain that keeps the staking and index invariants and whose supply fits
  a \<open>u128\<close>, and a block of user actions other than the execution of a proposal: matured unbonding is released, the actions
  run, the proposer is paid and the rows are committed. The database after the block keeps the staking invariant, and its
  supply differs from the one before by exactly the collected fees less the proposer's and the treasury's share of them; with
  parameters governance would accept it never grows.
\<close>

theorem block_never_mints:
  assumes "separated (re_hasher env)" and "stake_inv (re_hasher env) db" and "index_inv db" and "native_supply db \<le> u128_max"
    and "list_all (plain_action (re_hasher env)) actions" and "user_account (re_hasher env) who"
    and "resolve_matured_unbonding (re_hasher env) db height = Ok seed"
    and "execute_actions presigned policy_signed (runtime_dispatch env validators height ts genesis)
      (\<lambda>act. (action_weight env act, fee_of env (chain_params_of db) act)) db actions seed = Ok (v, out)"
    and "on_block_sealed (re_hasher env) db out who validators height = Ok u" and "commit_block db height out u = Ok w"
  shows "stake_inv (re_hasher env) w \<and>
    native_supply w + fees_collected out = native_supply db +
      fees_collected out * fee_proposer_bps (chain_params_of db) div 10000 +
      fees_collected out * fee_treasury_bps (chain_params_of db) div 10000 \<and>
    (validate_params (chain_params_of db) = Ok () \<longrightarrow> native_supply w \<le> native_supply db)"
proof -
  let ?H = "re_hasher env" and ?x = "seal_view db out" and ?f = "fees_collected out"
  note x = block_before_seal [OF assms(1-5,7,8)] and sv = seal_view_stakes [OF assms(8)]
    and sealed = assms(9) [unfolded on_block_sealed_def]
  have rows: "v_account w = v_account (absorb_updates ?x u)" "v_stake w = v_stake (absorb_updates ?x u)"
      "v_stake_by_validator w = v_stake_by_validator (absorb_updates ?x u)"
    using committed_stakes [OF sv(5) assms(10) wf_seal [OF sealed]] by (simp_all add: absorb_updates_rows sv)
  let ?p = "?f * fee_proposer_bps (chain_params_of db) div 10000" and ?t = "?f * fee_treasury_bps (chain_params_of db) div 10000"
  from sealed have w: "stake_inv ?H w \<and> native_supply w = native_supply ?x + ?p + ?t"
  proof (cases rule: seal_OkE)
    case (1 r d sealed b)
    from seal_supply_inv [OF assms(1,6) x(1) 1(1,2), of w] show ?thesis by (simp add: rows 1(3-5) x(2))
  qed
  have "native_supply w \<le> native_supply db" if "validate_params (chain_params_of db) = Ok ()"
    using w x(3) shares_within [OF validate_params_Ok(3) [OF that], of ?f] by linarith
  then show ?thesis using w x(3) by simp
qed

lemma sample_fee_chain:
  "stake_inv sample_hasher sample_fee_view" "native_supply sample_fee_view = 607" "index_inv sample_fee_view"
  "validate_params (chain_params_of sample_fee_view) = Ok ()"
  "resolve_matured_unbonding sample_hasher sample_fee_view 8 = Ok default_updates"
  "list_all (plain_action sample_hasher) [sample_payment 0]"
proof -
  show "stake_inv sample_hasher sample_fee_view" "native_supply sample_fee_view = 607"
    using sample_epoch_inv stake_inv_cong [of sample_fee_view sample_epoch_view sample_hasher]
    by (simp_all add: sample_fee_view_def native_supply_def)
  show "index_inv sample_fee_view"
    using sample_index_inv index_inv_cong [of sample_fee_view sample_view] by (simp add: sample_fee_view_def sample_epoch_view_def)
  show "validate_params (chain_params_of sample_fee_view) = Ok ()"
    by (simp add: sample_fee_rows default_chain_params_def validate_params_def
        MAX_CANONICAL_BUILDS_def TOTAL_VOTING_POWER_def saturating_add_def u32_max_def)
  show "resolve_matured_unbonding sample_hasher sample_fee_view 8 = Ok default_updates"
    by (simp add: resolve_matured_unbonding_def resolve_due_unbonding_def sample_fee_view_def sample_epoch_view_def
        sample_view_def empty_view_def default_updates_def)
  show "list_all (plain_action sample_hasher) [sample_payment 0]"
    using sample_user by (simp add: plain_action_def sample_payment_def)
qed

theorem block_never_mints_witness:
  "\<exists>v out u w. execute_actions (\<lambda>_. True) (\<lambda>_ _. True) (runtime_dispatch sample_env [sample_alice] 8 0 [])
       (\<lambda>act. (action_weight sample_env act, fee_of sample_env (chain_params_of sample_fee_view) act))
       sample_fee_view [sample_payment 0] default_updates = Ok (v, out) \<and>
     on_block_sealed sample_hasher sample_fee_view out sample_bob [sample_alice] 8 = Ok u \<and>
     commit_block sample_fee_view 8 out u = Ok w \<and> stake_inv sample_hasher w \<and> native_supply w \<le> 607"
proof -
  have H: "re_hasher sample_env = sample_hasher" by (simp add: sample_env_def)
  from sample_block_runs [of "[sample_alice]" 8 0 "[]"] obtain v out where
    r: "execute_actions (\<lambda>_. True) (\<lambda>_ _. True) (runtime_dispatch sample_env [sample_alice] 8 0 [])
       (\<lambda>act. (action_weight sample_env act, fee_of sample_env (chain_params_of sample_fee_view) act))
       sample_fee_view [sample_payment 0] default_updates = Ok (v, out)"
    by blast
  have fits: "native_supply sample_fee_view \<le> u128_max" by (simp add: sample_fee_chain(2) u128_max_def)
  note x = block_before_seal [of sample_env, unfolded H, OF sample_separated sample_fee_chain(1,3) fits sample_fee_chain(6,5) r]
  have "\<exists>u. on_block_sealed sample_hasher sample_fee_view out sample_bob [sample_alice] 8 = Ok u"
    unfolding on_block_sealed_def
    by (rule seal_returns [OF sample_separated sample_bob_user(1) x(1)])
       (use x(2,3) sample_fee_chain(2,4) in \<open>simp_all add: sample_fee_rows default_chain_params_def u128_max_def u64_max_def\<close>)
  then obtain u where u: "on_block_sealed sample_hasher sample_fee_view out sample_bob [sample_alice] 8 = Ok u" ..
  obtain w where w: "commit_block sample_fee_view 8 out u = Ok w"
    by (cases "bu_validator_set u") (auto simp: commit_block_def Let_def add_or_panic_def checked_add_def expect_def u64_max_def)
  from block_never_mints [of sample_env, unfolded H, OF sample_separated sample_fee_chain(1,3) fits sample_fee_chain(6)
      sample_bob_user(1) sample_fee_chain(5) r u w] sample_fee_chain(2,4) r u w
  show ?thesis by auto
qed


section \<open>A fee change in the middle of a block\<close>

lemma applied_both:
  assumes "execute_actions presigned policy_signed disp meter db [a, b] seed = Ok (v, out)" and "applied out = [a, b]"
  obtains u1 u2 where "disp a (seeded_view db seed) = Ok u1" "disp b (absorb_updates (seeded_view db seed) u1) = Ok u2"
    "v = absorb_updates (absorb_updates (seeded_view db seed) u1) u2"
proof -
  let ?s = "seeded_view db seed" and ?M = "max_block_weight (chain_params_of db)"
  have short: "length (applied o') \<le> length (applied o0) + length acts"
    if "execute_loop presigned policy_signed disp meter ?M acts w o0 = Ok (w', o')" for acts w w' o0 o'
    using that
  proof (induction acts arbitrary: w o0)
    case (Cons x acts)
    from Cons.prems show ?case
      by (cases rule: execute_loop_ConsE) (use Cons.IH in \<open>fastforce simp: extend_outcome_def\<close>)+
  qed simp
  from assms(1) [unfolded execute_actions_def] show ?thesis
  proof (cases rule: execute_loop_ConsE)
    case (skip e)
    from short [OF this] assms(2) show ?thesis by (simp add: seeded_outcome_def)
  next
    case full
    with assms(2) show ?thesis by (simp add: seeded_outcome_def)
  next
    case (go u1)
    from go(5) show ?thesis
    proof (cases rule: execute_loop_ConsE)
      case (skip e)
      from short [OF this] assms(2) show ?thesis by (simp add: extend_outcome_def seeded_outcome_def)
    next
      case full
      with assms(2) show ?thesis by (simp add: extend_outcome_def seeded_outcome_def)
    next
      case (go u2)
      then show ?thesis using that \<open>disp a ?s = Ok u1\<close> by simp
    qed
  qed
qed



definition sample_cheaper :: chain_params where
  "sample_cheaper = (chain_params_of sample_fee_view)\<lparr> action_fee := 1 \<rparr>"

definition sample_fee_proposal :: proposal where
  "sample_fee_proposal = \<lparr> proposal_id = 0, proposer = sample_bob, proposal_action = SetChainParams sample_cheaper,
     description = [], created_at = 0, voting_ends_at = 5, yes_power = 10000, no_power = 0, status = Open, bond = 0 \<rparr>"

definition sample_voted_view :: view where
  "sample_voted_view = sample_fee_view\<lparr> v_proposal := [0 \<mapsto> sample_fee_proposal] \<rparr>"

definition sample_execution :: "unit chain_action" where
  "sample_execution = \<lparr> act_sender = sample_alice, act_nonce = 0, act_signature = None, act_payload = ActExecuteProposal 0 \<rparr>"

lemma sample_voted_rows:
  "account_of sample_voted_view = account_of sample_fee_view" "chain_params_of sample_voted_view = chain_params_of sample_fee_view"
  "v_account sample_voted_view sample_alice = Some (default_account\<lparr> balance := 500 \<rparr>)"
  "v_proposal sample_voted_view 0 = Some sample_fee_proposal"
  using sample_user
  by (auto simp: sample_voted_view_def account_of_def chain_params_of_def sample_fee_view_def sample_epoch_view_def sample_view_def
      fun_eq_iff)

lemma sample_proposal_executes:
  "gov_execute H sk ms sample_voted_view 0 8 = Ok (default_updates\<lparr> bu_governance :=
     [PutChainParams sample_cheaper, PutProposal 0 (sample_fee_proposal\<lparr> status := Executed \<rparr>)] \<rparr>)"
proof -
  have "proposal_quorum_bps (chain_params_of sample_voted_view) = 5000"
      "\<not> changes_epoch_length sample_voted_view sample_cheaper"
    by (simp_all add: sample_voted_rows sample_fee_rows default_chain_params_def changes_epoch_length_def sample_cheaper_def)
  then have "apply_execute H sk ms sample_voted_view 0 8 =
      Ok ([PutChainParams sample_cheaper, PutProposal 0 (sample_fee_proposal\<lparr> status := Executed \<rparr>)], [], None, no_attestors)"
    by (simp add: apply_execute_def proposal_of_def sample_voted_rows sample_fee_proposal_def Let_def)
  then show ?thesis by (simp add: gov_execute_def Let_def no_attestors_def default_updates_def)
qed

lemma sample_execution_dispatch:
  "runtime_dispatch sample_env validators 8 ts g sample_execution sample_voted_view = Ok (default_updates\<lparr>
     bu_governance := [PutChainParams sample_cheaper, PutProposal 0 (sample_fee_proposal\<lparr> status := Executed \<rparr>)],
     bu_accounts := bt_insert sample_alice (default_account\<lparr> nonce := 1, balance := 497 \<rparr>) [] \<rparr>)"
proof -
  let ?u = "default_updates\<lparr> bu_governance :=
     [PutChainParams sample_cheaper, PutProposal 0 (sample_fee_proposal\<lparr> status := Executed \<rparr>)] \<rparr>"
  let ?c = "view_ctx sample_voted_view validators 8 ts g" and ?a = sample_execution
  have s: "act_sender ?a = sample_alice" "act_nonce ?a = 0" "act_payload ?a = ActExecuteProposal 0"
    by (simp_all add: sample_execution_def)
  have auth: "policy_authorize sample_env ?a sample_voted_view (dc_height ?c) (dc_genesis ?c) = Ok Owner"
    by (simp add: policy_authorize_def check_set_policy_def s sample_voted_rows sample_fee_rows default_account_def)
  have inner: "dispatch_inner sample_env ?c ?a sample_voted_view = Ok ?u"
    by (simp add: dispatch_inner_def Let_def s view_ctx_def sample_proposal_executes)
  have n: "consume_nonce ?a sample_voted_view ?u =
      Ok (?u\<lparr> bu_accounts := bt_insert sample_alice (default_account\<lparr> balance := 500, nonce := 1 \<rparr>) [] \<rparr>)"
    by (simp add: consume_nonce_def Let_def s sample_voted_rows sample_fee_rows default_account_def add_or_panic_def
        checked_add_def expect_def u64_max_def)
  have f: "charge_action_fee (action_weight sample_env ?a) ?a sample_voted_view
      (?u\<lparr> bu_accounts := bt_insert sample_alice (default_account\<lparr> balance := 500, nonce := 1 \<rparr>) [] \<rparr>) =
    Ok (?u\<lparr> bu_accounts := bt_insert sample_alice (default_account\<lparr> nonce := 1, balance := 497 \<rparr>) [] \<rparr>)"
    by (simp add: charge_action_fee_def Let_def s sample_voted_rows(2) sample_payment_fee checked_sub_def ok_or_def)
  show ?thesis
    unfolding runtime_dispatch_def dispatch_def auth and_then.simps inner n f map_err.simps
    by (simp add: policy_enforce_def Let_def s sample_voted_rows sample_fee_rows default_account_def)
qed

lemma sample_cheaper_fee: "action_fee_for sample_cheaper n = 1" "max_block_weight sample_cheaper = 1000000"
  by (simp_all add: sample_cheaper_def sample_fee_rows action_fee_for_def saturating_add_def u128_max_def default_chain_params_def)

lemma sample_second_dispatch:
  assumes "runtime_dispatch sample_env validators 8 ts g sample_execution sample_voted_view = Ok u"
  shows "chain_params_of (absorb_updates sample_voted_view u) = sample_cheaper"
    "\<exists>u2. runtime_dispatch sample_env validators 8 ts g (sample_payment 1) (absorb_updates sample_voted_view u) = Ok u2"
proof -
  let ?w = "absorb_updates sample_voted_view u"
  note u = sample_execution_dispatch [of validators ts g, unfolded assms, simplified result.inject]
  have "v_chain_params ?w = v_chain_params (apply_governance sample_voted_view (bu_governance u))"
    using absorb_updates_rows(6) [of sample_voted_view u] by (simp add: gov_rows_def)
  then show p: "chain_params_of ?w = sample_cheaper" by (simp add: chain_params_of_def u)
  have a: "account_of ?w sample_alice = default_account\<lparr> nonce := 1, balance := 497 \<rparr>" "account_of ?w sample_bob = default_account"
    using sample_bob_user(2) by (simp_all add: account_of_absorb u sample_voted_rows sample_fee_rows)
  show "\<exists>u2. runtime_dispatch sample_env validators 8 ts g (sample_payment 1) ?w = Ok u2"
    unfolding runtime_dispatch_def
    by (rule transfer_dispatches [where to = sample_bob and amount = 10 and fee = 1])
       (use sample_bob_user(2) in \<open>simp_all add: sample_payment_def a p sample_cheaper_fee default_account_def
          u128_max_def u64_max_def\<close>)
qed

lemma sample_vote_runs:
  "\<exists>v out. execute_actions (\<lambda>_. True) (\<lambda>_ _. True) (runtime_dispatch sample_env [sample_alice] 8 0 [])
       (\<lambda>act. (action_weight sample_env act, fee_of sample_env (chain_params_of sample_voted_view) act))
       sample_voted_view [sample_execution, sample_payment 1] default_updates = Ok (v, out) \<and>
     applied out = [sample_execution, sample_payment 1] \<and> chain_params_of v = sample_cheaper"
proof -
  let ?d = "runtime_dispatch sample_env [sample_alice] 8 0 []"
  obtain u where u: "?d sample_execution sample_voted_view = Ok u"
    using sample_execution_dispatch [of "[sample_alice]" 0 "[]"] by blast
  obtain u2 where u2: "?d (sample_payment 1) (absorb_updates sample_voted_view u) = Ok u2"
    using sample_second_dispatch(2) [OF u] by blast
  have p: "chain_params_of (absorb_updates (absorb_updates sample_voted_view u) u2) = sample_cheaper"
    using dispatch_params [OF u2 [unfolded runtime_dispatch_def]] sample_second_dispatch(1) [OF u]
    by (simp add: sample_payment_def)
  have M: "max_block_weight (chain_params_of sample_voted_view) = 1000000"
    by (simp add: sample_voted_rows sample_fee_rows default_chain_params_def)
  have w: "action_weight sample_env sample_execution \<le> 1000" "action_weight sample_env (sample_payment 1) \<le> 1000"
    using sample_payment_weight by (simp_all add: action_weight_def sample_env_def sample_execution_def base_weight_def
        saturating_add_def WEIGHT_PER_BYTE_def u64_max_def)
  let ?x = "action_weight sample_env sample_execution" and ?y = "action_weight sample_env (sample_payment 1)"
  have sat: "saturating_add u64_max 0 ?x \<le> 1000000" "saturating_add u64_max ?x ?y \<le> 1000000" "?x + ?y \<le> u64_max" "?x \<le> u64_max"
    using w by (simp_all add: saturating_add_def u64_max_def)
  have ver: "verified (\<lambda>_. True) (\<lambda>_ _. True) z act" for z and act :: "unit chain_action"
    by (simp add: verified_def split: option.split)
  show ?thesis
    using u u2 sat p by (simp add: execute_actions_def seeded_default M ver seeded_outcome_def extend_outcome_def add_or_panic_def
        checked_add_def expect_def not_less)
qed


section \<open>The batches of the runtime\<close>



section \<open>The asset ledger\<close>

text \<open>A batch that leaves the asset tables alone.\<close>

definition no_assets :: "block_updates \<Rightarrow> bool" where
  "no_assets u \<longleftrightarrow> bu_assets u = [] \<and> bu_asset_registration u = None"

lemma no_assets_batch: "no_assets u \<Longrightarrow> asset_batch v u"
  by (simp add: no_assets_def asset_batch_def)

lemma no_assets_parts [simp]:
  "no_assets default_updates"
  "no_assets (u\<lparr> bu_accounts := accounts \<rparr>) = no_assets u" "no_assets (u\<lparr> bu_stakes := stakes \<rparr>) = no_assets u"
  "no_assets (u\<lparr> bu_governance := gs \<rparr>) = no_assets u" "no_assets (u\<lparr> bu_evidence := ev \<rparr>) = no_assets u"
  "no_assets (u\<lparr> bu_bls_key := key \<rparr>) = no_assets u" "no_assets (u\<lparr> bu_operator := ops \<rparr>) = no_assets u"
  "no_assets (u\<lparr> bu_holder_states := states \<rparr>) = no_assets u" "no_assets (u\<lparr> bu_validator_statuses := statuses \<rparr>) = no_assets u"
  "no_assets (u\<lparr> bu_attestor_registration := reg \<rparr>) = no_assets u"
  "no_assets (u\<lparr> bu_attestor_deregistration := dereg \<rparr>) = no_assets u"
  by (simp_all add: no_assets_def)

lemma no_assets_slash: "fault_slash H v who reason h chal = Ok u \<Longrightarrow> no_assets u"
  by (cases "v_validator_status v who = Some Tombstoned", simp add: fault_slash_def, erule fault_slash_OkE) simp_all

lemma no_assets_handlers:
  "account_transfer v act to amount = Ok u \<Longrightarrow> no_assets u"
  "policy_apply env qact v pa h g = Ok u \<Longrightarrow> no_assets u"
  "verify_identity_credential env v act pb = Ok u \<Longrightarrow> no_assets u"
  "grant_attestation v act subject hash topics juris h = Ok u \<Longrightarrow> no_assets u"
  "revoke_attestation v act subject = Ok u \<Longrightarrow> no_assets u"
  "join_validator H vp act v validator amount pk pop opl owner h = Ok u \<Longrightarrow> no_assets u"
  "stake H v act validator amount opl h = Ok u \<Longrightarrow> no_assets u"
  "unstake v act validator amount h = Ok u \<Longrightarrow> no_assets u"
  "leave_validator act v validator opl validators h = Ok u \<Longrightarrow> no_assets u"
  "register_bls_key vp act v validator pk pop h opl owner = Ok u \<Longrightarrow> no_assets u"
  "authorize_operator act op opl idx = Ok u \<Longrightarrow> no_assets u"
  "revoke_operator act opl idx = Ok u \<Longrightarrow> no_assets u"
  "verify_claim_proof_action check v act r h = Ok u \<Longrightarrow> no_assets u"
  subgoal by (auto simp: account_transfer_def)
  subgoal by (auto simp: policy_apply_def Let_def)
  subgoal by (auto simp: verify_identity_credential_def)
  subgoal by (auto simp: grant_attestation_def)
  subgoal by (auto simp: revoke_attestation_def)
  subgoal by (erule join_validator_OkE) simp
  subgoal by (auto simp: stake_def)
  subgoal by (erule unstake_OkE) simp
  subgoal by (erule leave_validator_OkE) simp
  subgoal by (auto simp: register_bls_key_def split: if_splits)
  subgoal by (auto simp: authorize_operator_def Let_def)
  subgoal by (auto simp: revoke_operator_def Let_def)
  subgoal by (auto simp: verify_claim_proof_action_def split: if_splits)
  done

lemma no_assets_execute:
  assumes "gov_execute H sk ms v n h = Ok u"
  shows "no_assets u"
proof -
  from assms obtain ws accounts sl attestors where eff: "apply_execute H sk ms v n h = Ok (ws, accounts, sl, attestors)"
    by (auto simp: gov_execute_def)
  show ?thesis
  proof (cases sl)
    case None
    then show ?thesis using assms eff by (auto simp: gov_execute_def Let_def)
  next
    case (Some d)
    then show ?thesis
      using assms eff by (cases "fault_slash H v (culprit d) ExecutionFault h (challenger d)") (auto simp: gov_execute_def Let_def)
  qed
qed

lemma no_assets_governance:
  "block_attestor v act = Ok u \<Longrightarrow> no_assets u"
  "gov_vote v act n approve h = Ok u \<Longrightarrow> no_assets u"
  "gov_submit env v act proposed descr h = Ok u \<Longrightarrow> no_assets u"
  "gov_apply_attestor H ok sk ms v act name ownrs thr eh eu h = Ok u \<Longrightarrow> no_assets u"
  "gov_execute H sk ms v n h = Ok u \<Longrightarrow> no_assets u"
  "submit_equivocation_evidence H hex pk vf dg v x y h chal = Ok u \<Longrightarrow> no_assets u"
  "submit_execution_fault H aenv cr parse adj v json h owner chal = Ok u \<Longrightarrow> no_assets u"
  subgoal by (auto simp: block_attestor_def)
  subgoal by (auto simp: gov_vote_def)
  subgoal by (auto simp: gov_submit_def)
  subgoal by (auto simp: gov_apply_attestor_def)
  subgoal by (rule no_assets_execute)
  subgoal by (auto simp: submit_equivocation_evidence_def dest: no_assets_slash split: if_splits)
  subgoal by (erule submit_execution_fault_OkE, erule settle_fault_OkE) (auto dest: no_assets_slash split: if_splits)
  done

lemma inner_asset_batch:
  assumes "asset_ledger v" "few_holders v" "dispatch_inner env ctx act v = Ok u"
    and "\<And>r who. act_payload act \<noteq> ActTransferIssuer r who"
  shows "asset_batch v u"
proof (cases "act_payload act")
  case (ActTransferIssuer r who)
  then show ?thesis using assms(4) by blast
qed (use assms(3) in \<open>simp_all add: dispatch_inner_def Let_def no_assets_batch no_assets_handlers no_assets_governance
       issue_asset_batch [OF assms(1,2)] issue_asset_to_batch [OF assms(1,2)] burn_asset_batch [OF assms(1,2)]
       transfer_asset_batch [OF assms(1,2)] issuer_forced_transfer_batch [OF assms(1,2)] recover_holder_batch [OF assms(1,2)]
       register_asset_batch [OF assms(1)] record_handlers_batch [OF assms(1,2)] holder_handlers_batch
       lock_issuance_batch [OF assms(1,2)] distribute_batch [OF assms(1,2)] redeem_batch [OF assms(1,2)]
       split_asset_batch [OF assms(1,2)] token_dispatch_batch [OF assms(1,2)]\<close>)

text \<open>
  C7: The asset ledger balances after every action. For every asset on record the supply is the sum of its balances and within
  its cap, the holder count is the number of holders the class counts, and no balance belongs to an unregistered asset; any
  accepted action keeps this, whatever it does, a change of issuer aside and as long as no holder counter is about to overflow.
\<close>

theorem actions_keep_asset_ledger:
  assumes "asset_ledger v" and "few_holders v" and "dispatch env ctx act v = Ok w"
    and "\<forall>r who. act_payload act \<noteq> ActTransferIssuer r who"
  shows "asset_ledger (absorb_updates v w)"
  using assms(3)
proof (cases rule: dispatch_OkE)
  case (1 auth u e)
  from inner_asset_batch [OF assms(1,2) 1(2)] assms(4) have "asset_batch v w"
    by (simp add: 1(3) asset_batch_def split: option.splits)
  then show ?thesis by (rule absorb_asset_batch [OF assms(1)])
qed

definition ledger_view :: view where
  "ledger_view = sample_silver_view\<lparr> v_account := [Address ''iss'' \<mapsto> default_account\<lparr> balance := 500 \<rparr>],
     v_chain_params := Some (default_chain_params\<lparr> action_fee := 3, weight_fee := 0 \<rparr>) \<rparr>"

definition sample_issuance :: "unit chain_action" where
  "sample_issuance = \<lparr> act_sender = Address ''iss'', act_nonce = 0, act_signature = None,
     act_payload = ActIssueAsset (AssetRef ''silver'') 7 \<rparr>"

lemma ledger_view_rows:
  "account_of ledger_view (Address ''iss'') = default_account\<lparr> balance := 500 \<rparr>"
  "v_asset ledger_view = [AssetRef ''silver'' \<mapsto> sample_silver]" "v_asset_balance ledger_view = v_asset_balance sample_silver_view"
  "action_fee_for (chain_params_of ledger_view) n = 3"
  by (simp_all add: ledger_view_def account_of_def chain_params_of_def sample_silver_view_def empty_view_def action_fee_for_def
      default_chain_params_def saturating_add_def u128_max_def)

lemma ledger_view_ledger: "asset_ledger ledger_view" "few_holders ledger_view"
proof -
  have h: "holdings ledger_view = holdings sample_silver_view" by (simp add: holdings_def ledger_view_rows fun_eq_iff)
  have a: "v_asset ledger_view = v_asset sample_silver_view" by (simp add: ledger_view_rows sample_silver_view_def empty_view_def)
  show "asset_ledger ledger_view"
    by (rule asset_ledgerI)
       (use asset_ledgerD [OF sample_silver_ledger] asset_entry_view [of ledger_view _ sample_silver_view] in \<open>simp_all add: h a\<close>)
  show "few_holders ledger_view"
    by (simp add: few_holders_def ledger_view_rows sample_silver_def asset_register_def u32_max_def)
qed

lemma sample_issuance_dispatch: "\<exists>w. dispatch sample_env (view_ctx ledger_view [] 8 0 []) sample_issuance ledger_view = Ok w"
proof -
  let ?c = "view_ctx ledger_view [] 8 0 []" and ?i = "Address ''iss''"
  have s: "act_sender sample_issuance = ?i" "act_nonce sample_issuance = 0"
      "act_payload sample_issuance = ActIssueAsset (AssetRef ''silver'') 7"
    by (simp_all add: sample_issuance_def)
  have auth: "policy_authorize sample_env sample_issuance ledger_view (dc_height ?c) (dc_genesis ?c) = Ok Owner"
    by (simp add: policy_authorize_def check_set_policy_def s ledger_view_rows default_account_def)
  have silver: "asset_class sample_silver \<noteq> Token" "issuer sample_silver = ?i" "\<not> issuance_locked sample_silver"
      "total_supply sample_silver = 15" "max_supply sample_silver = None" "asset_ref_of sample_silver = AssetRef ''silver''"
    by (simp_all add: sample_silver_def asset_register_def)
  have bal: "asset_balance ledger_view (AssetRef ''silver'') ?i = 0"
    by (simp add: asset_balance_def ledger_view_rows sample_silver_view_def empty_view_def)
  have "\<exists>u. dispatch_inner sample_env ?c sample_issuance ledger_view = Ok u \<and>
      bu_accounts u = bt_insert ?i (default_account\<lparr> balance := 500, nonce := 1 \<rparr>) []"
    unfolding dispatch_inner_def Let_def s action_payload.case
    by (simp add: issue_asset_def resolve_asset_def ledger_view_rows silver apply_issue_def s bal supply_after_def asset_credit_def
        Let_def default_account_def u128_max_def u64_max_def)
  then obtain u where u: "dispatch_inner sample_env ?c sample_issuance ledger_view = Ok u"
      "bu_accounts u = bt_insert ?i (default_account\<lparr> balance := 500, nonce := 1 \<rparr>) []" by blast
  show ?thesis
    by (intro exI, rule dispatch_returns [OF auth _ u(1), of "default_account\<lparr> balance := 500, nonce := 1 \<rparr>" 3])
       (simp_all add: s u(2) ledger_view_rows default_account_def)
qed

theorem actions_keep_asset_ledger_witness:
  "\<exists>w. dispatch sample_env (view_ctx ledger_view [] 8 0 []) sample_issuance ledger_view = Ok w \<and>
     asset_ledger (absorb_updates ledger_view w)"
proof -
  obtain w where w: "dispatch sample_env (view_ctx ledger_view [] 8 0 []) sample_issuance ledger_view = Ok w"
    using sample_issuance_dispatch by blast
  from actions_keep_asset_ledger [OF ledger_view_ledger w] w show ?thesis by (auto simp: sample_issuance_def)
qed

section \<open>What a delegated key can do\<close>

lemma policy_enforce_session:
  assumes "policy_enforce env act v h (Session i) u = Ok w" "programmable (account_of v (act_sender act)) = Some st"
    and "transfer_of (act_payload act) = Some (a, to, amount)" "i < length (sessions (policy st))"
  shows "\<exists>e. map_of (bu_accounts w) (act_sender act) = Some e \<and> (\<exists>st'. programmable e = Some st' \<and>
      allowance (sessions (policy st') ! i) + amount = allowance (sessions (policy st) ! i))"
proof -
  have nm: "\<not> (case act_payload act of ActAccountPolicy _ \<Rightarrow> True | _ \<Rightarrow> False)"
    using assms(3) by (auto simp: transfer_of_def split: action_payload.splits)
  obtain after st' spends rcpts where
    e: "enforce_spending st (Session i) h spends rcpts (Some (a, to, amount)) = Ok st'"
      "w = u\<lparr> bu_accounts := bt_insert (act_sender act) (after\<lparr> programmable := Some st' \<rparr>) (bu_accounts u) \<rparr>"
    using assms(1) nm unfolding policy_enforce_def Let_def assms(2,3) option.case if_not_P [OF nm]
    by (auto simp: map_err_Ok_iff)
  have "allowance (sessions (policy st') ! i) + amount = allowance (sessions (policy st) ! i)"
    using e(1) assms(4) by (auto simp: enforce_spending_def Let_def split: if_splits)
  then show ?thesis by (simp add: e(2))
qed

lemma policy_authorize_programmable:
  assumes "policy_authorize env act v h g = (Ok auth' :: ('x dispatch_error, _) result)"
    and "programmable (account_of v (act_sender act)) = Some st"
    and "verify_account_signature (re_crypto env) (Some st) g act = Ok auth"
  shows "auth' = auth" "auth \<noteq> Owner \<longrightarrow> account_extensions_enabled (chain_params_of v)"
    "check_capability st (act_payload act) h auth = (Ok auth :: ('x dispatch_error, _) result)"
proof -
  have same: "x = auth" if "check_capability st (act_payload act) h auth = (Ok x :: ('x dispatch_error, _) result)" for x
    using that by (cases auth) (auto simp: check_capability_def Let_def split: if_splits)
  have "(if \<not> account_extensions_enabled (chain_params_of v) \<and> auth \<noteq> Owner then Err NotActivated
         else check_capability st (act_payload act) h auth) = (Ok auth' :: ('x dispatch_error, _) result)"
    using assms(1) unfolding policy_authorize_def Let_def assms(2) option.case assms(3) map_err.simps and_then.simps
    by (simp only: split: if_splits) (auto simp only: and_then_Ok_iff)
  then show "auth' = auth" "auth \<noteq> Owner \<longrightarrow> account_extensions_enabled (chain_params_of v)"
    "check_capability st (act_payload act) h auth = (Ok auth :: ('x dispatch_error, _) result)"
    using same by (auto split: if_splits)
qed

text \<open>
  C8: A delegated key stays within what it was given. When the signature of a programmable sender is a session key's, a
  dispatched action is a transfer of the session's asset to one of its recipients, before it expires, and the amount is taken
  off its allowance. When it is the guardians', the action starts or executes a recovery and moves no coins but the fee. Neither
  is accepted before governance enables account extensions.
\<close>

theorem delegated_keys_stay_in_scope:
  assumes "dispatch env ctx act v = Ok w" and "programmable (account_of v (act_sender act)) = Some st"
    and "verify_account_signature (re_crypto env) (Some st) (dc_genesis ctx) act = Ok auth"
  shows "(auth \<noteq> Owner \<longrightarrow> account_extensions_enabled (chain_params_of v)) \<and>
    (\<forall>i. auth = Session i \<longrightarrow> i < length (sessions (policy st)) \<and> dc_height ctx < expires_at (sessions (policy st) ! i) \<and>
       (\<exists>to amount st'. transfer_of (act_payload act) = Some (session_asset (sessions (policy st) ! i), to, amount) \<and>
          to \<in> set (session_recipients (sessions (policy st) ! i)) \<and>
          programmable (account_of (absorb_updates v w) (act_sender act)) = Some st' \<and>
          allowance (sessions (policy st') ! i) + amount = allowance (sessions (policy st) ! i))) \<and>
    (auth = Guardian \<longrightarrow> guardian_payload (act_payload act) \<and>
       balance (account_of (absorb_updates v w) (act_sender act)) +
         action_fee_for (chain_params_of v) (action_weight env act) = balance (account_of v (act_sender act)) \<and>
       (\<forall>a. a \<noteq> act_sender act \<longrightarrow> account_of (absorb_updates v w) a = account_of v a))"
proof -
  from assms(1) obtain auth' u u1 u2 where d: "policy_authorize env act v (dc_height ctx) (dc_genesis ctx) = Ok auth'"
      "dispatch_inner env ctx act v = Ok u" "policy_enforce env act v (dc_height ctx) auth' u2 = Ok w"
    by (auto simp: dispatch_def)
  note c = policy_authorize_programmable [OF d(1) assms(2,3)]
  show ?thesis
  proof (cases auth)
    case (Session i)
    then obtain to amount where t: "i < length (sessions (policy st))" "dc_height ctx < expires_at (sessions (policy st) ! i)"
        "transfer_of (act_payload act) = Some (session_asset (sessions (policy st) ! i), to, amount)"
        "to \<in> set (session_recipients (sessions (policy st) ! i))"
      using c(3) by (auto simp: check_capability_def Let_def not_le split: if_splits)
    from policy_enforce_session [OF _ assms(2) t(3,1), of env "dc_height ctx" u2 w] d(3) c(1) Session
    show ?thesis using c(2) t by (auto simp: account_of_absorb)
  next
    case Guardian
    then have g: "guardian_payload (act_payload act)" using c(3) by (simp add: check_capability_def split: if_splits)
    then obtain pa where pa: "act_payload act = ActAccountPolicy pa"
      by (auto simp: guardian_payload_def split: action_payload.splits)
    then have "policy_apply env act v pa (dc_height ctx) (dc_genesis ctx) = Ok u" using d(2) by (simp add: dispatch_inner_def)
    then obtain e0 where u: "bu_accounts u = bt_insert (act_sender act) e0 []"
        "balance e0 = balance (account_of v (act_sender act))"
      by (auto simp: policy_apply_def Let_def dest!: apply_policy_action_keeps)
    from assms(1) obtain e where "bu_accounts w = bt_insert (act_sender act) e []"
        "balance e + action_fee_for (chain_params_of v) (action_weight env act) = balance (account_of v (act_sender act))"
      by (cases rule: dispatch_OkE) (use d(2) u in \<open>auto simp: account_of_absorb\<close>)
    then show ?thesis using Guardian c(2) g by (simp add: account_of_absorb)
  qed simp
qed

definition session_addr :: "char \<Rightarrow> address" where
  "session_addr c = Address (''arx1'' @ replicate 32 c @ replicate 26 CHR ''z'')"

definition session_crypto :: "unit action_payload crypto" where
  "session_crypto = \<lparr> cr_sha256 = (\<lambda>_. replicate 32 CHR ''h''), cr_hex_encode = id, cr_hex_decode = Some,
     cr_bech32_encode = (\<lambda>h b. Some (h @ CHR ''1'' # b @ replicate 26 CHR ''z'')),
     cr_bech32_decode = (\<lambda>s. Some (take 3 s, take 32 (drop 4 s))), cr_ed_verify = (\<lambda>_ _ _. True), cr_ed_key = (\<lambda>_. True),
     cr_ed_weak = (\<lambda>_. False), cr_encode_signing = (\<lambda>_ _ _ _. []) \<rparr>"

definition session_env :: "(unit, unit, unit, unit) runtime_env" where
  "session_env =
    \<lparr> re_hasher = sample_hasher, re_crypto = session_crypto,
      re_art = sample_art_env, re_possession = (\<lambda>_ _. Inl False), re_verifies = (\<lambda>_ _ _. False), re_digest = (\<lambda>_. []),
      re_encoded_len = (\<lambda>_. Some 40), re_field_of = (\<lambda>_. None), re_proof_of = (\<lambda>_. None),
      re_verify_credential = (\<lambda>_ _ _. False), re_country_set = (\<lambda>_. None),
      re_verify_predicate = (\<lambda>_ _ _ _ _ _ _ _. False), re_parse_artifact = (\<lambda>_. None), re_adjudicate = (\<lambda>_. Err ()) \<rparr>"

definition session_account :: programmable_account where
  "session_account = \<lparr> policy =
     \<lparr> owners = \<lparr> threshold = 1, members = [sample_member CHR ''a''] \<rparr>,
       limits = [\<lparr> limit_asset = Native, period_blocks = 10, limit_amount = 100 \<rparr>], recipients = None,
       sessions = [\<lparr> public_key = sample_member CHR ''s'', expires_at = 50, session_asset = Native, allowance = 70,
                     session_recipients = [session_addr CHR ''b''] \<rparr>], recovery = None \<rparr>,
     counters = [], pending_recovery = None \<rparr>"

definition session_view :: view where
  "session_view = empty_view\<lparr>
     v_account := [session_addr CHR ''a'' \<mapsto> default_account\<lparr> balance := 500, programmable := Some session_account \<rparr>],
     v_chain_params := Some (default_chain_params\<lparr> action_fee := 3, weight_fee := 0, account_extensions_enabled := True \<rparr>) \<rparr>"

definition session_payment :: "unit chain_action" where
  "session_payment = \<lparr> act_sender = session_addr CHR ''a'', act_nonce = 0,
     act_signature = Some (CHR 0xA7 # CHR 0x01 # replicate 32 CHR ''s'' @ replicate 64 CHR ''g''),
     act_payload = ActTransfer (session_addr CHR ''b'') 20 \<rparr>"

abbreviation session_ctx :: dispatch_ctx where
  "session_ctx \<equiv> view_ctx session_view [] 8 0 []"

lemma session_addr_valid: "validate_account_address session_crypto (session_addr c) = Ok ()"
  by (simp add: validate_account_address_def session_addr_def session_crypto_def addr_pubkey_bytes_def ADDRESS_HRP_def
      addr_from_pubkey_bytes_def take_Cons' drop_Cons')

lemma session_threshold: "threshold_validate session_crypto \<lparr> threshold = Suc 0, members = [sample_member c] \<rparr> = Ok ()"
  by (simp add: threshold_validate_def multisig_address_def policy_hash_def session_crypto_def MAX_MULTISIG_MEMBERS_def
        addr_from_pubkey_bytes_def)

lemma session_signed: "verify_account_signature session_crypto (Some session_account) g session_payment = Ok (Session 0)"
proof -
  have "policy_validate session_crypto (policy session_account) = Ok ()"
    by (simp add: policy_validate_def session_account_def session_threshold MAX_POLICY_LIMITS_def MAX_SESSION_KEYS_def
        validate_recipients_def MAX_POLICY_RECIPIENTS_def session_addr_valid)
  then show ?thesis
    by (simp add: verify_account_signature_def session_payment_def session_addr_valid)
       (simp add: session_crypto_def session_account_def sample_member_def verify_one_def ensure_def Let_def)
qed

lemma session_addrs: "session_addr CHR ''b'' \<noteq> session_addr CHR ''a''"
  by (simp add: session_addr_def numeral_eq_Suc)

lemma session_rows:
  "account_of session_view (session_addr CHR ''a'') = default_account\<lparr> balance := 500, programmable := Some session_account \<rparr>"
  "account_of session_view (session_addr CHR ''b'') = default_account"
  "chain_params_of session_view = default_chain_params\<lparr> action_fee := 3, weight_fee := 0, account_extensions_enabled := True \<rparr>"
  using session_addrs by (simp_all add: session_view_def account_of_def chain_params_of_def empty_view_def)

lemma session_fee: "action_fee_for (chain_params_of session_view) n = 3"
  by (simp add: session_rows action_fee_for_def saturating_add_def u128_max_def default_chain_params_def)

lemma session_dispatch: "\<exists>w. dispatch session_env session_ctx session_payment session_view = Ok w"
proof -
  let ?a = "session_addr CHR ''a''" and ?b = "session_addr CHR ''b''"
  have s: "act_sender session_payment = ?a" "act_nonce session_payment = 0" "act_payload session_payment = ActTransfer ?b 20"
    by (simp_all add: session_payment_def)
  have ctx: "dc_height session_ctx = 8" "dc_genesis session_ctx = []" by (simp_all add: view_ctx_def)
  have auth: "policy_authorize session_env session_payment session_view 8 [] = Ok (Session 0)"
    using session_signed [of "[]"]
    by (simp add: policy_authorize_def check_set_policy_def s session_rows session_env_def)
       (simp add: check_capability_def transfer_of_def session_account_def)
  let ?e = "default_account\<lparr> balance := 480, nonce := 1, programmable := Some session_account \<rparr>"
  let ?u = "default_updates\<lparr> bu_accounts := bt_insert ?b (default_account\<lparr> balance := 20 \<rparr>) (bt_insert ?a ?e []) \<rparr>"
  have inner: "dispatch_inner session_env session_ctx session_payment session_view = Ok ?u"
    unfolding dispatch_inner_def Let_def s action_payload.case account_transfer_def
    using session_addrs by (simp add: apply_transfer_outcome s session_rows default_account_def u64_max_def u128_max_def)
  have n: "consume_nonce session_payment session_view ?u = Ok ?u"
    using session_addrs [symmetric] by (simp add: consume_nonce_def Let_def s session_view_def default_account_def)
  have f: "charge_action_fee (action_weight session_env session_payment) session_payment session_view ?u =
      Ok (?u\<lparr> bu_accounts := bt_insert ?a (?e\<lparr> balance := 477 \<rparr>) (bu_accounts ?u) \<rparr>)"
    using session_addrs [symmetric] by (simp add: charge_action_fee_def Let_def s session_fee checked_sub_def ok_or_def)
  have "\<exists>w. policy_enforce session_env session_payment session_view 8 (Session 0)
      (?u\<lparr> bu_accounts := bt_insert ?a (?e\<lparr> balance := 477 \<rparr>) (bu_accounts ?u) \<rparr>) = (Ok w :: (unit dispatch_error, _) result)"
    using session_addrs session_addrs [symmetric]
    by (simp add: policy_enforce_def Let_def s session_rows(1,2) session_fee transfer_of_def)
       (simp add: enforce_spending_def action_spends_def s session_rows session_account_def Let_def checked_add_def
         checked_sub_def u128_max_def default_account_def)
  then show ?thesis
    unfolding dispatch_def ctx auth and_then.simps inner n f map_err.simps by simp
qed

theorem delegated_keys_stay_in_scope_witness:
  "\<exists>w st'. dispatch session_env session_ctx session_payment session_view = Ok w \<and>
     programmable (account_of (absorb_updates session_view w) (session_addr CHR ''a'')) = Some st' \<and>
     allowance (sessions (policy st') ! 0) = 50"
proof -
  obtain w where w: "dispatch session_env session_ctx session_payment session_view = Ok w" using session_dispatch by blast
  have "programmable (account_of session_view (act_sender session_payment)) = Some session_account"
    by (simp add: session_payment_def session_rows)
  from delegated_keys_stay_in_scope [OF w this, of "Session 0"] session_signed w
  show ?thesis
    by (auto simp: session_env_def session_payment_def transfer_of_def) (auto simp: session_account_def)
qed

end
