(* ===== verification/Mempool.thy ===== *)
theory Mempool
  imports Account_Policy Executor
begin

text \<open>
  The queue of pending actions (\<^verbatim>\<open>src/core/mempool/src/lib.rs\<close>): admission, the caps, the indexes kept beside the queue,
  draining for a block, putting back what did not fit, and purging what other blocks made stale. The length of an action's
  bincode bytes is the parameter \<open>bytes_of\<close>. A \<open>HashSet\<close> is a set and a \<open>HashMap\<close> a \<open>btree\<close>; none is iterated over.
\<close>

section \<open>The queue\<close>

definition MAX_WIRE_MESSAGE_SIZE :: nat where "MAX_WIRE_MESSAGE_SIZE = 1024 * 1024"

definition DROPPED_RING :: nat where "DROPPED_RING = 1024"

datatype mempool_error =
    PoolFull
  | PoolDuplicate address nat
  | PoolTooLarge nat nat
  | SenderQueueFull address nat

record limits =
  mempool_max_pending :: nat
  mempool_max_bytes :: nat
  mempool_max_per_sender :: nat
  mempool_max_nonce_gap :: nat
  block_max_actions :: nat

definition default_limits :: limits where
  "default_limits =
    \<lparr> mempool_max_pending = 10000, mempool_max_bytes = 10000000, mempool_max_per_sender = 64, mempool_max_nonce_gap = 64,
      block_max_actions = 1000 \<rparr>"

record 'p mempool =
  mp_pending :: "'p action list"
  mp_seen :: "(address \<times> nat) set"
  mp_signatures :: "string set"
  mp_total_bytes :: nat
  mp_per_sender :: "(address, nat) btree"
  mp_max_pending :: nat
  mp_max_pending_bytes :: nat
  mp_max_per_sender :: nat
  mp_dropped :: "(string \<times> string) list"

definition with_limits :: "limits \<Rightarrow> 'p mempool" where
  "with_limits l =
    \<lparr> mp_pending = [], mp_seen = {}, mp_signatures = {}, mp_total_bytes = 0, mp_per_sender = [],
      mp_max_pending = mempool_max_pending l, mp_max_pending_bytes = mempool_max_bytes l,
      mp_max_per_sender = mempool_max_per_sender l, mp_dropped = [] \<rparr>"

definition default_mempool :: "'p mempool" where
  "default_mempool = with_limits default_limits"

section \<open>Admission\<close>

datatype admission_error =
    BadSignature signature_error
  | StaleNonce address nat nat
  | NonceTooFarAhead address nat nat nat

definition validate_admission :: "'p crypto \<Rightarrow> view \<Rightarrow> string \<Rightarrow> 'p action \<Rightarrow> nat \<Rightarrow> (admission_error, unit) result" where
  "validate_admission cr db genesis act max_nonce_gap =
    (let account = v_account db (act_sender act) in
     and_then (map_err BadSignature (verify_account_signature cr (Option.bind account programmable) genesis act)) (\<lambda>_.
     (let current_nonce = (case account of Some entry \<Rightarrow> nonce entry | None \<Rightarrow> 0) in
      if act_nonce act < current_nonce then Err (StaleNonce (act_sender act) (act_nonce act) current_nonce)
      else if max_nonce_gap < act_nonce act - current_nonce
      then Err (NonceTooFarAhead (act_sender act) (act_nonce act) current_nonce max_nonce_gap)
      else Ok ())))"

section \<open>Entering and leaving the indexes\<close>

definition action_key :: "'p action \<Rightarrow> address \<times> nat" where
  "action_key act = (act_sender act, act_nonce act)"

definition take_slot :: "(address, nat) btree \<Rightarrow> address \<Rightarrow> (never, (address, nat) btree) result" where
  "take_slot per_sender sender =
    and_then (add_or_panic u64_max (unwrap_or 0 (map_of per_sender sender)) 1) (\<lambda>n.
    Ok (bt_insert sender n per_sender))"

definition release_slot :: "(address, nat) btree \<Rightarrow> address \<Rightarrow> (never, (address, nat) btree) result" where
  "release_slot per_sender sender =
    (case map_of per_sender sender of
       None \<Rightarrow> Ok per_sender
     | Some n \<Rightarrow>
         and_then (sub_or_panic n 1) (\<lambda>n.
         Ok (if n = 0 then bt_remove sender per_sender else bt_insert sender n per_sender)))"

definition signature_set :: "'p action \<Rightarrow> string set" where
  "signature_set act = set (option_list (act_signature act))"

text \<open>What \<open>push\<close> and \<open>requeue_front\<close> do to every field but the queue itself, once the key is known to be new.\<close>

definition enlist :: "('p action \<Rightarrow> nat) \<Rightarrow> 'p action \<Rightarrow> 'p mempool \<Rightarrow> (never, 'p mempool) result" where
  "enlist bytes_of act m =
    and_then (add_or_panic u64_max (mp_total_bytes m) (bytes_of act)) (\<lambda>bytes_now.
    and_then (take_slot (mp_per_sender m) (act_sender act)) (\<lambda>slots.
    Ok (m\<lparr> mp_seen := insert (action_key act) (mp_seen m), mp_signatures := mp_signatures m \<union> signature_set act,
           mp_total_bytes := bytes_now, mp_per_sender := slots \<rparr>)))"

text \<open>What \<open>drain\<close> and \<open>retain\<close> do for an action that leaves.\<close>

definition unlist :: "'p action \<Rightarrow> 'p mempool \<Rightarrow> (never, 'p mempool) result" where
  "unlist act m =
    and_then (release_slot (mp_per_sender m) (act_sender act)) (\<lambda>slots.
    Ok (m\<lparr> mp_seen := mp_seen m - {action_key act}, mp_signatures := mp_signatures m - signature_set act,
           mp_per_sender := slots \<rparr>))"

fun unlist_all :: "'p action list \<Rightarrow> 'p mempool \<Rightarrow> (never, 'p mempool) result" where
  "unlist_all [] m = Ok m"
| "unlist_all (act # acts) m = and_then (unlist act m) (unlist_all acts)"

section \<open>Operations\<close>

definition push :: "('p action \<Rightarrow> nat) \<Rightarrow> 'p action \<Rightarrow> 'p mempool \<Rightarrow> (mempool_error, 'p mempool) result" where
  "push bytes_of act m =
    (if mp_max_pending m \<le> length (mp_pending m) then Err PoolFull
     else if MAX_WIRE_MESSAGE_SIZE < bytes_of act then Err (PoolTooLarge (bytes_of act) MAX_WIRE_MESSAGE_SIZE)
     else
      and_then (add_or_panic u64_max (mp_total_bytes m) (bytes_of act)) (\<lambda>bytes_now.
      if mp_max_pending_bytes m < bytes_now then Err PoolFull
      else if mp_max_per_sender m \<le> unwrap_or 0 (map_of (mp_per_sender m) (act_sender act))
      then Err (SenderQueueFull (act_sender act) (mp_max_per_sender m))
      else if action_key act \<in> mp_seen m then Err (PoolDuplicate (act_sender act) (act_nonce act))
      else
       and_then (unfailing (enlist bytes_of act m)) (\<lambda>m.
       Ok (m\<lparr> mp_pending := mp_pending m @ [act],
              mp_dropped := (case act_signature act of
                Some signature \<Rightarrow> filter (\<lambda>(s, _). s \<noteq> signature) (mp_dropped m)
              | None \<Rightarrow> mp_dropped m) \<rparr>))))"

text \<open>\<open>requeue_front\<close> walks the actions from the last to the first, so that they end up in order.\<close>

fun requeue_each :: "('p action \<Rightarrow> nat) \<Rightarrow> 'p action list \<Rightarrow> 'p mempool \<Rightarrow> (never, 'p mempool) result" where
  "requeue_each bytes_of [] m = Ok m"
| "requeue_each bytes_of (act # acts) m =
    (if action_key act \<in> mp_seen m then requeue_each bytes_of acts m
     else
      and_then (enlist bytes_of act m) (\<lambda>m.
      requeue_each bytes_of acts (m\<lparr> mp_pending := act # mp_pending m \<rparr>)))"

definition requeue_front :: "('p action \<Rightarrow> nat) \<Rightarrow> 'p action list \<Rightarrow> 'p mempool \<Rightarrow> (never, 'p mempool) result" where
  "requeue_front bytes_of acts m = requeue_each bytes_of (rev acts) m"

fun next_nonce_of :: "address \<Rightarrow> 'p action list \<Rightarrow> nat \<Rightarrow> (never, nat) result" where
  "next_nonce_of sender [] acc = Ok acc"
| "next_nonce_of sender (act # acts) acc =
    (if act_sender act = sender
     then and_then (add_or_panic u64_max (act_nonce act) 1) (\<lambda>n. next_nonce_of sender acts (max acc n))
     else next_nonce_of sender acts acc)"

definition next_nonce :: "address \<Rightarrow> nat \<Rightarrow> 'p mempool \<Rightarrow> (never, nat) result" where
  "next_nonce sender on_chain_nonce m = next_nonce_of sender (mp_pending m) on_chain_nonce"

definition contains_signature :: "string \<Rightarrow> 'p mempool \<Rightarrow> bool" where
  "contains_signature signature m \<longleftrightarrow> signature \<in> mp_signatures m"

definition ring_push :: "string \<times> string \<Rightarrow> (string \<times> string) list \<Rightarrow> (string \<times> string) list" where
  "ring_push e ring = (if length ring = DROPPED_RING then tl ring else ring) @ [e]"

definition note_dropped :: "(string \<times> string) list \<Rightarrow> 'p mempool \<Rightarrow> 'p mempool" where
  "note_dropped es m = m\<lparr> mp_dropped := fold ring_push es (mp_dropped m) \<rparr>"

definition dropped_reason :: "string \<Rightarrow> 'p mempool \<Rightarrow> string option" where
  "dropped_reason signature m = map_option snd (find (\<lambda>(s, _). s = signature) (rev (mp_dropped m)))"

text \<open>How many of the actions fit in \<open>max_bytes\<close>, the first one always.\<close>

fun drain_count :: "('p action \<Rightarrow> nat) \<Rightarrow> nat \<Rightarrow> 'p action list \<Rightarrow> nat \<Rightarrow> nat \<Rightarrow> (never, nat) result" where
  "drain_count bytes_of max_bytes [] n bytes = Ok n"
| "drain_count bytes_of max_bytes (act # acts) n bytes =
    and_then (add_or_panic u64_max bytes (bytes_of act)) (\<lambda>bytes_now.
    if 0 < n \<and> max_bytes < bytes_now then Ok n else drain_count bytes_of max_bytes acts (Suc n) bytes_now)"

fun sub_sizes :: "('p action \<Rightarrow> nat) \<Rightarrow> 'p action list \<Rightarrow> nat \<Rightarrow> (never, nat) result" where
  "sub_sizes bytes_of [] bytes_now = Ok bytes_now"
| "sub_sizes bytes_of (act # acts) bytes_now = and_then (sub_or_panic bytes_now (bytes_of act)) (sub_sizes bytes_of acts)"

definition drain_pending_within ::
  "('p action \<Rightarrow> nat) \<Rightarrow> nat \<Rightarrow> nat \<Rightarrow> 'p mempool \<Rightarrow> (never, 'p mempool \<times> 'p action list) result" where
  "drain_pending_within bytes_of max_actions max_bytes m =
    and_then (drain_count bytes_of max_bytes (take max_actions (mp_pending m)) 0 0) (\<lambda>n.
    (let drained = take n (mp_pending m) in
     and_then (unlist_all drained (m\<lparr> mp_pending := drop n (mp_pending m) \<rparr>)) (\<lambda>m.
     and_then (sub_sizes bytes_of drained (mp_total_bytes m)) (\<lambda>bytes_now.
     Ok (m\<lparr> mp_total_bytes := bytes_now \<rparr>, drained)))))"

definition drain_pending :: "('p action \<Rightarrow> nat) \<Rightarrow> nat \<Rightarrow> 'p mempool \<Rightarrow> (never, 'p mempool \<times> 'p action list) result" where
  "drain_pending bytes_of max_actions m = drain_pending_within bytes_of max_actions u64_max m"

fun add_sizes :: "('p action \<Rightarrow> nat) \<Rightarrow> 'p action list \<Rightarrow> nat \<Rightarrow> (never, nat) result" where
  "add_sizes bytes_of [] bytes = Ok bytes"
| "add_sizes bytes_of (act # acts) bytes = and_then (add_or_panic u64_max bytes (bytes_of act)) (add_sizes bytes_of acts)"

definition purge_stale :: "('p action \<Rightarrow> nat) \<Rightarrow> address \<Rightarrow> nat \<Rightarrow> 'p mempool \<Rightarrow> (never, 'p mempool) result" where
  "purge_stale bytes_of sender current_nonce m =
    (let stale = (\<lambda>act. act_sender act = sender \<and> act_nonce act < current_nonce);
         removed = filter stale (mp_pending m)
     in
     and_then (unlist_all removed (m\<lparr> mp_pending := filter (\<lambda>act. \<not> stale act) (mp_pending m) \<rparr>)) (\<lambda>m.
     and_then (add_sizes bytes_of removed 0) (\<lambda>removed_bytes.
     and_then (sub_or_panic (mp_total_bytes m) removed_bytes) (\<lambda>bytes_now.
     Ok (m\<lparr> mp_total_bytes := bytes_now \<rparr>)))))"

section \<open>The indexes describe the queue\<close>

definition slots_of :: "'p action list \<Rightarrow> address \<Rightarrow> nat" where
  "slots_of acts sender = length (filter (\<lambda>act. act_sender act = sender) acts)"

definition slot_row :: "nat \<Rightarrow> nat option" where
  "slot_row n = (if n = 0 then None else Some n)"

definition indexed :: "'p mempool \<Rightarrow> 'p action list \<Rightarrow> bool" where
  "indexed m acts \<longleftrightarrow>
     distinct (map action_key acts) \<and> mp_seen m = action_key ` set acts \<and>
     (\<forall>sender. map_of (mp_per_sender m) sender = slot_row (slots_of acts sender))"

text \<open>A signature names one action: the key of the action is part of the signed bytes.\<close>

definition signatures_identify :: "'p action set \<Rightarrow> bool" where
  "signatures_identify A \<longleftrightarrow>
     (\<forall>a\<in>A. \<forall>b\<in>A. act_signature a = act_signature b \<and> act_signature a \<noteq> None \<longrightarrow> action_key a = action_key b)"

definition signatures_of :: "'p action set \<Rightarrow> string set" where
  "signatures_of A = (\<Union>a\<in>A. signature_set a)"

definition pool_exact :: "('p action \<Rightarrow> nat) \<Rightarrow> 'p mempool \<Rightarrow> bool" where
  "pool_exact bytes_of m \<longleftrightarrow>
     indexed m (mp_pending m) \<and> mp_total_bytes m = (\<Sum>a\<leftarrow>mp_pending m. bytes_of a) \<and> mp_total_bytes m \<le> u64_max \<and>
     length (mp_dropped m) \<le> DROPPED_RING"

lemma indexed_mset: "mset xs = mset ys \<Longrightarrow> indexed m xs \<longleftrightarrow> indexed m ys"
proof -
  assume e: "mset xs = mset ys"
  then have "set xs = set ys" by (rule mset_eq_setD)
  moreover have "distinct (map action_key xs) \<longleftrightarrow> distinct (map action_key ys)"
    using arg_cong [OF e, of "image_mset action_key"] by (metis mset_map mset_eq_imp_distinct_iff)
  moreover have "slots_of xs s = slots_of ys s" for s
    unfolding slots_of_def using arg_cong [OF e, of "\<lambda>m. size (filter_mset (\<lambda>act. act_sender act = s) m)"]
    by (metis mset_filter size_mset)
  ultimately show ?thesis by (simp add: indexed_def)
qed

lemma slots_of_Cons: "slots_of (a # acts) s = (if act_sender a = s then Suc (slots_of acts s) else slots_of acts s)"
  by (simp add: slots_of_def)

lemma slots_of_le: "slots_of acts s \<le> length acts"
  by (simp add: slots_of_def)

lemma indexed_queue [simp]: "indexed (m\<lparr> mp_pending := q \<rparr>) acts = indexed m acts"
  "indexed (m\<lparr> mp_total_bytes := t \<rparr>) acts = indexed m acts" "indexed (m\<lparr> mp_dropped := d \<rparr>) acts = indexed m acts"
  by (simp_all add: indexed_def)

lemma release_slot_exact:
  assumes "\<And>s. map_of slots s = slot_row (slots_of (a # acts) s)"
  shows "\<exists>slots'. release_slot slots (act_sender a) = Ok slots' \<and> (\<forall>s. map_of slots' s = slot_row (slots_of acts s))"
proof -
  let ?n = "slots_of acts (act_sender a)"
  have "map_of slots (act_sender a) = Some (Suc ?n)" using assms by (simp add: slots_of_Cons slot_row_def)
  then have "release_slot slots (act_sender a) =
      Ok (if ?n = 0 then bt_remove (act_sender a) slots else bt_insert (act_sender a) ?n slots)"
    by (simp add: release_slot_def)
  then show ?thesis using assms by (auto simp: slots_of_Cons slot_row_def)
qed

lemma take_slot_exact:
  assumes "take_slot slots (act_sender a) = Ok slots'" "\<And>s. map_of slots s = slot_row (slots_of acts s)"
  shows "map_of slots' s = slot_row (slots_of (a # acts) s)"
  using assms by (auto simp: take_slot_def slots_of_Cons slot_row_def split: if_splits)

lemma unlist_indexed:
  assumes "indexed m (a # acts)"
  shows "\<exists>m'. unlist a m = Ok m' \<and> indexed m' acts \<and> mp_signatures m' = mp_signatures m - signature_set a \<and>
    mp_pending m' = mp_pending m \<and> mp_total_bytes m' = mp_total_bytes m \<and> mp_dropped m' = mp_dropped m \<and>
    mp_max_pending m' = mp_max_pending m \<and> mp_max_pending_bytes m' = mp_max_pending_bytes m \<and>
    mp_max_per_sender m' = mp_max_per_sender m"
proof -
  obtain slots where "release_slot (mp_per_sender m) (act_sender a) = Ok slots"
    and s: "\<forall>s. map_of slots s = slot_row (slots_of acts s)"
    using release_slot_exact [of "mp_per_sender m" a acts] assms by (auto simp: indexed_def)
  then show ?thesis using assms by (intro exI [of _ "m\<lparr> mp_seen := mp_seen m - {action_key a}, mp_signatures := mp_signatures m - signature_set a,
          mp_per_sender := slots \<rparr>"]) (auto simp: unlist_def indexed_def)
qed

text \<open>What leaving the indexes keeps of a pool.\<close>

definition same_caps :: "'p mempool \<Rightarrow> 'p mempool \<Rightarrow> bool" where
  "same_caps m m' \<longleftrightarrow> mp_max_pending m' = mp_max_pending m \<and> mp_max_pending_bytes m' = mp_max_pending_bytes m \<and>
     mp_max_per_sender m' = mp_max_per_sender m"

lemma unlist_all_indexed:
  "indexed m (gone @ acts) \<Longrightarrow> \<exists>m'. unlist_all gone m = Ok m' \<and> indexed m' acts \<and>
     mp_signatures m' = mp_signatures m - signatures_of (set gone) \<and> mp_pending m' = mp_pending m \<and>
     mp_total_bytes m' = mp_total_bytes m \<and> mp_dropped m' = mp_dropped m \<and> same_caps m m'"
proof (induction gone arbitrary: m)
  case (Cons a gone)
  then obtain m1 where m1: "unlist a m = Ok m1" "indexed m1 (gone @ acts)"
    "mp_signatures m1 = mp_signatures m - signature_set a" "mp_pending m1 = mp_pending m"
    "mp_total_bytes m1 = mp_total_bytes m" "mp_dropped m1 = mp_dropped m" "same_caps m m1"
    using unlist_indexed [of m a "gone @ acts"] by (auto simp: same_caps_def)
  from Cons.IH [OF m1(2)] obtain m2 where "unlist_all gone m1 = Ok m2" "indexed m2 acts"
    "mp_signatures m2 = mp_signatures m1 - signatures_of (set gone)" "mp_pending m2 = mp_pending m1"
    "mp_total_bytes m2 = mp_total_bytes m1" "mp_dropped m2 = mp_dropped m1" "same_caps m1 m2" by blast
  then show ?case using m1 by (intro exI [of _ m2]) (auto simp: signatures_of_def same_caps_def)
qed (simp_all add: signatures_of_def same_caps_def)

lemma enlist_indexed:
  assumes "enlist bytes_of a m = Ok m'" "indexed m acts" "action_key a \<notin> mp_seen m"
  shows "indexed m' (a # acts)" "mp_signatures m' = mp_signatures m \<union> signature_set a" "mp_pending m' = mp_pending m"
    "mp_total_bytes m' = mp_total_bytes m + bytes_of a" "mp_total_bytes m' \<le> u64_max" "mp_dropped m' = mp_dropped m"
    "same_caps m m'"
  using assms take_slot_exact [of "mp_per_sender m" a _ acts]
  by (auto simp: enlist_def indexed_def same_caps_def)

lemma sum_sizes_mset: "mset xs = mset ys \<Longrightarrow> (\<Sum>a\<leftarrow>xs. f a :: nat) = (\<Sum>a\<leftarrow>ys. f a)"
  by (metis mset_map sum_mset_sum_list)

lemma sub_sizes_Ok: "(\<Sum>a\<leftarrow>acts. bytes_of a) \<le> bytes_now \<Longrightarrow> sub_sizes bytes_of acts bytes_now = Ok (bytes_now - (\<Sum>a\<leftarrow>acts. bytes_of a))"
  by (induction acts arbitrary: bytes_now) simp_all

lemma add_sizes_Ok: "bytes + (\<Sum>a\<leftarrow>acts. bytes_of a) \<le> u64_max \<Longrightarrow> add_sizes bytes_of acts bytes = Ok (bytes + (\<Sum>a\<leftarrow>acts. bytes_of a))"
  by (induction acts arbitrary: bytes) simp_all

section \<open>Every operation keeps them exact\<close>

lemma push_exact:
  assumes "push bytes_of a m = Ok m'" "pool_exact bytes_of m"
  shows "pool_exact bytes_of m'" "mp_pending m' = mp_pending m @ [a]"
    "mp_signatures m' = mp_signatures m \<union> signature_set a" "same_caps m m'"
proof -
  from assms(1) obtain m1 where m1: "enlist bytes_of a m = Ok m1" "action_key a \<notin> mp_seen m"
    "m' = m1\<lparr> mp_pending := mp_pending m1 @ [a], mp_dropped := (case act_signature a of
       Some signature \<Rightarrow> filter (\<lambda>(s, _). s \<noteq> signature) (mp_dropped m1) | None \<Rightarrow> mp_dropped m1) \<rparr>"
    by (auto simp: push_def split: if_splits)
  have i: "indexed m (mp_pending m)" using assms(2) by (simp add: pool_exact_def)
  note e = enlist_indexed [OF m1(1) i m1(2)]
  have "indexed m1 (mp_pending m @ [a])" using e(1) by (subst indexed_mset [of _ "a # mp_pending m"]) simp_all
  moreover have "length (filter P (mp_dropped m)) \<le> DROPPED_RING" for P
    using assms(2) length_filter_le [of P "mp_dropped m"] unfolding pool_exact_def by linarith
  ultimately show "pool_exact bytes_of m'" using e assms(2) by (simp add: m1(3) pool_exact_def split: option.split)
  show "mp_pending m' = mp_pending m @ [a]" "mp_signatures m' = mp_signatures m \<union> signature_set a" "same_caps m m'"
    using e by (simp_all add: m1(3) same_caps_def)
qed

lemma requeue_each_exact:
  "requeue_each bytes_of acts m = Ok m' \<Longrightarrow> pool_exact bytes_of m \<Longrightarrow>
     pool_exact bytes_of m' \<and> same_caps m m' \<and>
     (\<exists>kept. mp_pending m' = rev kept @ mp_pending m \<and> subseq kept acts \<and>
       mp_signatures m' = mp_signatures m \<union> signatures_of (set kept) \<and>
       action_key ` set acts \<subseteq> action_key ` set (mp_pending m'))"
proof (induction acts arbitrary: m)
  case Nil
  then show ?case by (auto simp: same_caps_def signatures_of_def intro!: exI [of _ "[]"])
next
  case (Cons a acts)
  show ?case
  proof (cases "action_key a \<in> mp_seen m")
    case True
    with Cons.prems have r: "requeue_each bytes_of acts m = Ok m'" by simp
    have "action_key a \<in> action_key ` set (mp_pending m)" using True Cons.prems(2) by (simp add: pool_exact_def indexed_def)
    then show ?thesis using Cons.IH [OF r Cons.prems(2)] by (force intro: list_emb_Cons)
  next
    case False
    with Cons.prems obtain m1 where e: "enlist bytes_of a m = Ok m1"
      and r: "requeue_each bytes_of acts (m1\<lparr> mp_pending := a # mp_pending m1 \<rparr>) = Ok m'" by auto
    have i: "indexed m (mp_pending m)" using Cons.prems(2) by (simp add: pool_exact_def)
    note m1 = enlist_indexed [OF e i False]
    have "pool_exact bytes_of (m1\<lparr> mp_pending := a # mp_pending m1 \<rparr>)"
      using m1 Cons.prems(2) by (simp add: pool_exact_def)
    from Cons.IH [OF r this] obtain kept where b: "pool_exact bytes_of m'" "same_caps m1 m'"
      "mp_pending m' = rev kept @ a # mp_pending m" "subseq kept acts"
      "mp_signatures m' = mp_signatures m \<union> signature_set a \<union> signatures_of (set kept)"
      "action_key ` set acts \<subseteq> action_key ` set (mp_pending m')"
      by (auto simp: m1 same_caps_def)
    show ?thesis
      using b m1(7) by (intro conjI exI [of _ "a # kept"]) (auto simp: same_caps_def signatures_of_def)
  qed
qed

lemma subseq_reversed: "subseq xs ys \<Longrightarrow> subseq (rev xs) (rev ys)"
  by (induction xs ys rule: list_emb.induct) (auto intro: subseq_rev_drop_many list_emb_append_mono)

lemma requeue_front_exact:
  assumes "requeue_front bytes_of acts m = Ok m'" "pool_exact bytes_of m"
  shows "pool_exact bytes_of m'" "same_caps m m'"
    "\<exists>kept. mp_pending m' = kept @ mp_pending m \<and> subseq kept acts \<and>
       mp_signatures m' = mp_signatures m \<union> signatures_of (set kept)"
    "action_key ` set acts \<subseteq> action_key ` set (mp_pending m')"
proof -
  from requeue_each_exact [OF assms(1) [unfolded requeue_front_def] assms(2)] obtain kept where
    k: "pool_exact bytes_of m'" "same_caps m m'" "mp_pending m' = rev kept @ mp_pending m" "subseq kept (rev acts)"
      "mp_signatures m' = mp_signatures m \<union> signatures_of (set kept)"
      "action_key ` set (rev acts) \<subseteq> action_key ` set (mp_pending m')" by blast
  have "subseq (rev kept) acts" using subseq_reversed [OF k(4)] by simp
  then show "\<exists>kept. mp_pending m' = kept @ mp_pending m \<and> subseq kept acts \<and>
       mp_signatures m' = mp_signatures m \<union> signatures_of (set kept)"
    using k(3,5) by (intro exI [of _ "rev kept"]) simp
qed (use requeue_each_exact [OF assms(1) [unfolded requeue_front_def] assms(2)] in auto)

text \<open>Taking some actions out of the queue: the common part of draining and purging.\<close>

lemma remove_exact:
  assumes "pool_exact bytes_of m" "mset (mp_pending m) = mset (gone @ rest)"
  shows "\<exists>m'. unlist_all gone (m\<lparr> mp_pending := rest \<rparr>) = Ok m' \<and> mp_total_bytes m' = mp_total_bytes m \<and>
    (\<Sum>a\<leftarrow>gone. bytes_of a) \<le> mp_total_bytes m \<and> (\<Sum>a\<leftarrow>gone. bytes_of a) \<le> u64_max \<and>
    pool_exact bytes_of (m'\<lparr> mp_total_bytes := mp_total_bytes m - (\<Sum>a\<leftarrow>gone. bytes_of a) \<rparr>) \<and>
    mp_pending m' = rest \<and> mp_signatures m' = mp_signatures m - signatures_of (set gone) \<and> same_caps m m'"
proof -
  have "indexed (m\<lparr> mp_pending := rest \<rparr>) (gone @ rest)"
    using assms by (simp add: pool_exact_def indexed_mset [OF assms(2)])
  from unlist_all_indexed [OF this] obtain m' where
    m': "unlist_all gone (m\<lparr> mp_pending := rest \<rparr>) = Ok m'" "indexed m' rest" "mp_pending m' = rest"
      "mp_signatures m' = mp_signatures m - signatures_of (set gone)" "mp_total_bytes m' = mp_total_bytes m"
      "mp_dropped m' = mp_dropped m" "same_caps m m'" by (auto simp: same_caps_def)
  moreover have "mp_total_bytes m = (\<Sum>a\<leftarrow>gone. bytes_of a) + (\<Sum>a\<leftarrow>rest. bytes_of a)"
    using assms(1) sum_sizes_mset [OF assms(2), of bytes_of] by (simp add: pool_exact_def)
  ultimately show ?thesis using assms(1) by (intro exI [of _ m']) (auto simp: pool_exact_def)
qed

lemma drain_count_prefix:
  assumes "bytes + (\<Sum>a\<leftarrow>acts. bytes_of a) \<le> u64_max"
  shows "\<exists>k. drain_count bytes_of max_bytes acts n bytes = Ok (n + k) \<and> k \<le> length acts \<and>
    (bytes + (\<Sum>a\<leftarrow>take k acts. bytes_of a) \<le> max_bytes \<or> k = 0 \<or> (n = 0 \<and> k = 1)) \<and>
    (k < length acts \<longrightarrow> 0 < n + k \<and> max_bytes < bytes + (\<Sum>a\<leftarrow>take (Suc k) acts. bytes_of a))"
  using assms
proof (induction acts arbitrary: n bytes)
  case (Cons a acts)
  show ?case
  proof (cases "0 < n \<and> max_bytes < bytes + bytes_of a")
    case True
    then show ?thesis using Cons.prems by (intro exI [of _ 0]) simp
  next
    case False
    from Cons.IH [of "bytes + bytes_of a" "Suc n"] Cons.prems obtain k where
      k: "drain_count bytes_of max_bytes acts (Suc n) (bytes + bytes_of a) = Ok (Suc n + k)" "k \<le> length acts"
        "bytes + bytes_of a + (\<Sum>a\<leftarrow>take k acts. bytes_of a) \<le> max_bytes \<or> k = 0"
        "k < length acts \<longrightarrow> max_bytes < bytes + bytes_of a + (\<Sum>a\<leftarrow>take (Suc k) acts. bytes_of a)"
      by auto
    have "drain_count bytes_of max_bytes (a # acts) n bytes = Ok (n + Suc k)" using False Cons.prems k(1) by auto
    then show ?thesis using k(2-4) False by (intro exI [of _ "Suc k"]) (auto simp: add.assoc)
  qed
qed simp

lemma drain_exact:
  assumes "pool_exact bytes_of m"
  shows "\<exists>m' drained. drain_pending_within bytes_of max_actions max_bytes m = Ok (m', drained) \<and>
    pool_exact bytes_of m' \<and> drained @ mp_pending m' = mp_pending m \<and> same_caps m m' \<and>
    mp_signatures m' = mp_signatures m - signatures_of (set drained) \<and> length drained \<le> max_actions \<and>
    ((\<Sum>a\<leftarrow>drained. bytes_of a) \<le> max_bytes \<or> length drained = 1) \<and>
    (mp_pending m' \<noteq> [] \<and> length drained < max_actions \<longrightarrow>
       drained \<noteq> [] \<and> max_bytes < (\<Sum>a\<leftarrow>drained. bytes_of a) + bytes_of (hd (mp_pending m')))"
proof -
  let ?p = "mp_pending m" and ?q = "take max_actions (mp_pending m)"
  have "(\<Sum>a\<leftarrow>?q. bytes_of a) \<le> (\<Sum>a\<leftarrow>?p. bytes_of a)"
    using arg_cong [OF append_take_drop_id [of max_actions ?p], of "\<lambda>xs. \<Sum>a\<leftarrow>xs. bytes_of a"] by (simp only: map_append sum_list_append)
  then have "(\<Sum>a\<leftarrow>?q. bytes_of a) \<le> u64_max" using assms unfolding pool_exact_def by linarith
  then obtain k where k: "drain_count bytes_of max_bytes ?q 0 0 = Ok (0 + k)" "k \<le> length ?q"
    "0 + (\<Sum>a\<leftarrow>take k ?q. bytes_of a) \<le> max_bytes \<or> k = 0 \<or> ((0 :: nat) = 0 \<and> k = 1)"
    "k < length ?q \<longrightarrow> 0 < 0 + k \<and> max_bytes < 0 + (\<Sum>a\<leftarrow>take (Suc k) ?q. bytes_of a)"
    using drain_count_prefix [where bytes = 0 and acts = ?q and n = 0 and bytes_of = bytes_of and max_bytes = max_bytes]
    by (auto simp only: add_0)
  have t: "take k ?q = take k ?p" using k(2) by (simp add: min_absorb1)
  let ?d = "take k ?p"
  obtain m' where m': "unlist_all ?d (m\<lparr> mp_pending := drop k ?p \<rparr>) = Ok m'" "mp_total_bytes m' = mp_total_bytes m"
    "(\<Sum>a\<leftarrow>?d. bytes_of a) \<le> mp_total_bytes m" "mp_pending m' = drop k ?p" "same_caps m m'"
    "pool_exact bytes_of (m'\<lparr> mp_total_bytes := mp_total_bytes m - (\<Sum>a\<leftarrow>?d. bytes_of a) \<rparr>)"
    "mp_signatures m' = mp_signatures m - signatures_of (set ?d)"
    using remove_exact [OF assms, of ?d "drop k ?p"] by (auto simp flip: mset_append)
  let ?m = "m'\<lparr> mp_total_bytes := mp_total_bytes m - (\<Sum>a\<leftarrow>?d. bytes_of a) \<rparr>"
  have run: "drain_pending_within bytes_of max_actions max_bytes m = Ok (?m, ?d)"
    using m'(1,2) k(1) sub_sizes_Ok [OF m'(3)] by (simp add: drain_pending_within_def Let_def)
  have more: "?d \<noteq> [] \<and> max_bytes < (\<Sum>a\<leftarrow>?d. bytes_of a) + bytes_of (hd (drop k ?p))"
    if l: "k < length ?p" "k < max_actions"
  proof -
    have "take (Suc k) ?q = ?d @ [hd (drop k ?p)]" using l by (simp add: take_Suc_conv_app_nth hd_drop_conv_nth)
    then have "0 < k" "max_bytes < (\<Sum>a\<leftarrow>?d. bytes_of a) + bytes_of (hd (drop k ?p))" using k(4) l by simp_all
    then show ?thesis using l by auto
  qed
  have "length ?d = k" "k \<le> max_actions" using k(2) by simp_all
  then show ?thesis
    using run m'(4-7) k(3) t more by (intro exI [of _ ?m] exI [of _ ?d]) (auto simp: same_caps_def)
qed

lemma purge_exact:
  assumes "pool_exact bytes_of m"
  shows "\<exists>m'. purge_stale bytes_of sender current m = Ok m' \<and> pool_exact bytes_of m' \<and> same_caps m m' \<and>
    mp_pending m' = filter (\<lambda>a. \<not> (act_sender a = sender \<and> act_nonce a < current)) (mp_pending m) \<and>
    mp_signatures m' = mp_signatures m - signatures_of {a \<in> set (mp_pending m). act_sender a = sender \<and> act_nonce a < current}"
proof -
  let ?stale = "\<lambda>a. act_sender a = sender \<and> act_nonce a < current"
  let ?gone = "filter ?stale (mp_pending m)" and ?rest = "filter (\<lambda>a. \<not> ?stale a) (mp_pending m)"
  have "mset (mp_pending m) = mset (?gone @ ?rest)" by (simp only: mset_append mset_filter multiset_partition [symmetric])
  from remove_exact [OF assms this] obtain m' where m': "unlist_all ?gone (m\<lparr> mp_pending := ?rest \<rparr>) = Ok m'"
    "mp_total_bytes m' = mp_total_bytes m" "(\<Sum>a\<leftarrow>?gone. bytes_of a) \<le> mp_total_bytes m" "(\<Sum>a\<leftarrow>?gone. bytes_of a) \<le> u64_max"
    "pool_exact bytes_of (m'\<lparr> mp_total_bytes := mp_total_bytes m - (\<Sum>a\<leftarrow>?gone. bytes_of a) \<rparr>)"
    "mp_pending m' = ?rest" "mp_signatures m' = mp_signatures m - signatures_of (set ?gone)" "same_caps m m'" by blast
  have "purge_stale bytes_of sender current m = Ok (m'\<lparr> mp_total_bytes := mp_total_bytes m - (\<Sum>a\<leftarrow>?gone. bytes_of a) \<rparr>)"
    using m'(1-4) add_sizes_Ok [where bytes = 0 and acts = ?gone and bytes_of = bytes_of] by (simp add: purge_stale_def Let_def)
  then show ?thesis using m'(5-8) by (auto simp: same_caps_def)
qed

lemma note_dropped_exact: "pool_exact bytes_of m \<Longrightarrow> pool_exact bytes_of (note_dropped es m)"
proof -
  have "length ring \<le> DROPPED_RING \<Longrightarrow> length (fold ring_push es ring) \<le> DROPPED_RING" for ring
    by (induction es arbitrary: ring) (simp_all add: ring_push_def DROPPED_RING_def)
  then show "pool_exact bytes_of m \<Longrightarrow> pool_exact bytes_of (note_dropped es m)" by (simp add: pool_exact_def note_dropped_def)
qed

section \<open>Any sequence of operations\<close>

datatype 'p pool_op =
    Push "'p action"
  | RequeueFront "'p action list"
  | NoteDropped "(string \<times> string) list"
  | DrainWithin nat nat
  | PurgeStale address nat

text \<open>A refused push leaves the queue as it is.\<close>

fun pool_step :: "('p action \<Rightarrow> nat) \<Rightarrow> 'p pool_op \<Rightarrow> 'p mempool \<Rightarrow> (never, 'p mempool) result" where
  "pool_step bytes_of (Push a) m = (case push bytes_of a m of Ok m' \<Rightarrow> Ok m' | Err _ \<Rightarrow> Ok m | Panic \<Rightarrow> Panic)"
| "pool_step bytes_of (RequeueFront acts) m = requeue_front bytes_of acts m"
| "pool_step bytes_of (NoteDropped es) m = Ok (note_dropped es m)"
| "pool_step bytes_of (DrainWithin k b) m = and_then (drain_pending_within bytes_of k b m) (\<lambda>(m', _). Ok m')"
| "pool_step bytes_of (PurgeStale s n) m = purge_stale bytes_of s n m"

fun pool_run :: "('p action \<Rightarrow> nat) \<Rightarrow> 'p pool_op list \<Rightarrow> 'p mempool \<Rightarrow> (never, 'p mempool) result" where
  "pool_run bytes_of [] m = Ok m"
| "pool_run bytes_of (op # ops) m = and_then (pool_step bytes_of op m) (pool_run bytes_of ops)"

fun offered :: "'p pool_op \<Rightarrow> 'p action list" where
  "offered (Push a) = [a]"
| "offered (RequeueFront acts) = acts"
| "offered _ = []"

fun bypasses_caps :: "'p pool_op \<Rightarrow> bool" where
  "bypasses_caps (RequeueFront _) = True"
| "bypasses_caps _ = False"

definition within_caps :: "'p mempool \<Rightarrow> bool" where
  "within_caps m \<longleftrightarrow> length (mp_pending m) \<le> mp_max_pending m \<and> mp_total_bytes m \<le> mp_max_pending_bytes m \<and>
     (\<forall>s. slots_of (mp_pending m) s \<le> mp_max_per_sender m)"

text \<open>The state of a pool after offers from a set of actions.\<close>

definition pool_inv :: "('p action \<Rightarrow> nat) \<Rightarrow> 'p action set \<Rightarrow> 'p mempool \<Rightarrow> bool" where
  "pool_inv bytes_of A m \<longleftrightarrow> pool_exact bytes_of m \<and> set (mp_pending m) \<subseteq> A \<and>
     mp_signatures m = signatures_of (set (mp_pending m))"

lemma in_signature_set: "s \<in> signature_set a \<longleftrightarrow> act_signature a = Some s"
  by (cases "act_signature a") (auto simp: signature_set_def)

lemma in_signatures_of: "s \<in> signatures_of A \<longleftrightarrow> (\<exists>a\<in>A. act_signature a = Some s)"
  by (simp add: signatures_of_def in_signature_set)

lemma signatures_left:
  assumes "signatures_identify A" "set (gone @ rest) \<subseteq> A" "distinct (map action_key (gone @ rest))"
  shows "signatures_of (set (gone @ rest)) - signatures_of (set gone) = signatures_of (set rest)"
proof -
  have d: "action_key ` set gone \<inter> action_key ` set rest = {}" using assms(3) by simp
  have "s \<notin> signatures_of (set rest)" if g: "s \<in> signatures_of (set gone)" for s
  proof
    assume "s \<in> signatures_of (set rest)"
    then obtain a b where ab: "a \<in> set gone" "b \<in> set rest" "act_signature a = Some s" "act_signature b = Some s"
      using g by (auto simp: in_signatures_of)
    then have "a \<in> A" "b \<in> A" using assms(2) by auto
    then have "action_key a = action_key b" using assms(1) ab(3,4) unfolding signatures_identify_def by (metis option.distinct(1))
    then show False using d ab(1,2) by (metis IntI empty_iff imageI)
  qed
  moreover have "signatures_of (set (gone @ rest)) = signatures_of (set gone) \<union> signatures_of (set rest)"
    by (auto simp: signatures_of_def)
  ultimately show ?thesis by blast
qed

lemma signatures_of_Un: "signatures_of (A \<union> B) = signatures_of A \<union> signatures_of B"
  by (auto simp: signatures_of_def)

lemma removed_inv:
  assumes "pool_inv bytes_of A m" "signatures_identify A" "pool_exact bytes_of m'" "mset (mp_pending m) = mset (gone @ mp_pending m')"
    and "mp_signatures m' = mp_signatures m - signatures_of (set gone)"
  shows "pool_inv bytes_of A m'"
proof -
  have s: "set (mp_pending m) = set (gone @ mp_pending m')" using assms(4) by (rule mset_eq_setD)
  have "indexed m (gone @ mp_pending m')"
    using assms(1) indexed_mset [OF assms(4), of m] by (simp add: pool_inv_def pool_exact_def)
  then have "distinct (map action_key (gone @ mp_pending m'))" by (simp only: indexed_def)
  with signatures_left [OF assms(2), of gone "mp_pending m'"] assms(1,3,5) s show ?thesis by (simp add: pool_inv_def)
qed

lemma pool_step_inv:
  assumes "pool_step bytes_of op m = Ok m'" "pool_inv bytes_of A m" "signatures_identify A" "set (offered op) \<subseteq> A"
  shows "pool_inv bytes_of A m'"
proof (cases op)
  case (Push a)
  show ?thesis
  proof (cases "push bytes_of a m")
    case (Ok x)
    then have "x = m'" using assms(1) Push by simp
    with push_exact [of bytes_of a m m'] Ok assms(2,4) Push show ?thesis by (auto simp: pool_inv_def signatures_of_def)
  qed (use assms(1,2) Push in simp_all)
next
  case (RequeueFront acts)
  then have r: "requeue_front bytes_of acts m = Ok m'" using assms(1) by simp
  from requeue_front_exact [OF r] assms(2) obtain kept where k: "pool_exact bytes_of m'" "mp_pending m' = kept @ mp_pending m"
    "subseq kept acts" "mp_signatures m' = mp_signatures m \<union> signatures_of (set kept)" by (auto simp: pool_inv_def)
  have "set kept \<subseteq> A" using k(3) assms(4) RequeueFront by (auto dest: list_emb_set)
  then show ?thesis using k assms(2) by (auto simp: pool_inv_def signatures_of_Un)
next
  case (NoteDropped es)
  then show ?thesis using assms(1,2) note_dropped_exact [of bytes_of m es] by (auto simp: pool_inv_def note_dropped_def)
next
  case (DrainWithin k b)
  have "pool_exact bytes_of m" using assms(2) by (simp add: pool_inv_def)
  from drain_exact [OF this, of k b] obtain x gone where "drain_pending_within bytes_of k b m = Ok (x, gone)"
    "pool_exact bytes_of x" "gone @ mp_pending x = mp_pending m" "mp_signatures x = mp_signatures m - signatures_of (set gone)"
    by blast
  moreover from this(1) have "x = m'" using assms(1) DrainWithin by simp
  ultimately show ?thesis using assms(2,3) by (intro removed_inv [of bytes_of A m m' gone]) (simp_all flip: mset_append)
next
  case (PurgeStale s n)
  let ?stale = "\<lambda>a. act_sender a = s \<and> act_nonce a < n"
  from purge_exact [of bytes_of m s n] assms(1,2) PurgeStale have m': "pool_exact bytes_of m'"
    "mp_pending m' = filter (\<lambda>a. \<not> ?stale a) (mp_pending m)"
    "mp_signatures m' = mp_signatures m - signatures_of (set (filter ?stale (mp_pending m)))"
    by (auto simp: pool_inv_def)
  then show ?thesis using assms(2,3)
    by (intro removed_inv [of bytes_of A m m' "filter ?stale (mp_pending m)"])
       (simp_all only: mset_append mset_filter multiset_partition [symmetric])
qed

lemma pool_run_inv:
  "pool_run bytes_of ops m = Ok m' \<Longrightarrow> pool_inv bytes_of A m \<Longrightarrow> signatures_identify A \<Longrightarrow>
   \<forall>op\<in>set ops. set (offered op) \<subseteq> A \<Longrightarrow> pool_inv bytes_of A m'"
  by (induction ops arbitrary: m) (auto intro: pool_step_inv)

section \<open>The caps\<close>

lemma slots_of_filter: "slots_of (filter P acts) s \<le> slots_of acts s"
  by (induction acts) (auto simp: slots_of_def)

lemma within_caps_sub:
  assumes "within_caps m" "pool_exact bytes_of m" "pool_exact bytes_of m'" "same_caps m m'"
    and "mset (mp_pending m) = mset (gone @ mp_pending m')"
  shows "within_caps m'"
proof -
  have "length (mp_pending m') \<le> length (mp_pending m)"
    using arg_cong [OF assms(5), of size] by simp
  moreover have "mp_total_bytes m' \<le> mp_total_bytes m"
    using assms(2,3) sum_sizes_mset [OF assms(5), of bytes_of] by (simp add: pool_exact_def)
  moreover have "slots_of (mp_pending m') s \<le> slots_of (mp_pending m) s" for s
    using arg_cong [OF assms(5), of "\<lambda>M. size (filter_mset (\<lambda>a. act_sender a = s) M)"]
    by (simp add: slots_of_def flip: mset_filter)
  ultimately show ?thesis using assms(1,4) unfolding within_caps_def same_caps_def by (metis order_trans)
qed

definition sane_caps :: "'p mempool \<Rightarrow> bool" where
  "sane_caps m \<longleftrightarrow> mp_max_pending_bytes m + MAX_WIRE_MESSAGE_SIZE \<le> u64_max \<and> mp_max_per_sender m \<le> u64_max"

lemma pool_slots: "pool_exact bytes_of m \<Longrightarrow> unwrap_or 0 (map_of (mp_per_sender m) s) = slots_of (mp_pending m) s"
  by (simp add: pool_exact_def indexed_def slot_row_def)

lemma push_within_caps:
  assumes "pool_exact bytes_of m" "within_caps m" "sane_caps m"
  shows "push bytes_of a m \<noteq> Panic" "push bytes_of a m = Ok m' \<Longrightarrow> within_caps m'"
proof -
  note sl = pool_slots [OF assms(1)]
  have "bytes_of a \<le> MAX_WIRE_MESSAGE_SIZE \<Longrightarrow> mp_total_bytes m + bytes_of a \<le> u64_max"
    using assms(2,3) by (simp add: within_caps_def sane_caps_def)
  moreover have "slots_of (mp_pending m) (act_sender a) < mp_max_per_sender m \<Longrightarrow> Suc (slots_of (mp_pending m) (act_sender a)) \<le> u64_max"
    using assms(3) by (simp add: sane_caps_def)
  ultimately show "push bytes_of a m \<noteq> Panic"
    by (auto simp: push_def enlist_def take_slot_def sl add_or_panic_def checked_add_def expect_def)
  assume p: "push bytes_of a m = Ok m'"
  note e = push_exact [OF p assms(1)]
  have g: "length (mp_pending m) < mp_max_pending m" "mp_total_bytes m + bytes_of a \<le> mp_max_pending_bytes m"
    "slots_of (mp_pending m) (act_sender a) < mp_max_per_sender m"
    using p by (auto simp: push_def sl split: if_splits)
  have "mp_total_bytes m' = mp_total_bytes m + bytes_of a" using e(1,2) assms(1) by (simp add: pool_exact_def)
  moreover have "slots_of (mp_pending m @ [a]) s = slots_of (mp_pending m) s + (if act_sender a = s then 1 else 0)" for s
    by (simp add: slots_of_def)
  ultimately show "within_caps m'" using e(2,4) g assms(2) by (auto simp: within_caps_def same_caps_def)
qed

lemma pool_step_within_caps:
  assumes "pool_exact bytes_of m" "within_caps m" "sane_caps m" "\<not> bypasses_caps op"
  shows "\<exists>m'. pool_step bytes_of op m = Ok m' \<and> pool_exact bytes_of m' \<and> within_caps m' \<and> sane_caps m'"
proof (cases op)
  case (Push a)
  note p = push_within_caps [OF assms(1-3), of a]
  show ?thesis
  proof (cases "push bytes_of a m")
    case (Ok x)
    then show ?thesis using Push p(2) [OF Ok] push_exact [OF Ok assms(1)] assms(3) by (simp add: sane_caps_def same_caps_def)
  qed (use p(1) assms Push in simp_all)
next
  case (NoteDropped es)
  then show ?thesis using assms note_dropped_exact [OF assms(1), of es]
    by (simp add: within_caps_def sane_caps_def note_dropped_def)
next
  case (DrainWithin k b)
  from drain_exact [OF assms(1), of k b] obtain x gone where x: "drain_pending_within bytes_of k b m = Ok (x, gone)"
    "pool_exact bytes_of x" "gone @ mp_pending x = mp_pending m" "same_caps m x" by blast
  have "within_caps x" by (rule within_caps_sub [OF assms(2,1) x(2,4), of gone]) (simp only: x(3))
  then show ?thesis using DrainWithin x assms(3) by (simp add: sane_caps_def same_caps_def)
next
  case (PurgeStale s n)
  let ?stale = "\<lambda>a. act_sender a = s \<and> act_nonce a < n"
  from purge_exact [OF assms(1), of s n] obtain x where x: "purge_stale bytes_of s n m = Ok x" "pool_exact bytes_of x"
    "same_caps m x" "mp_pending x = filter (\<lambda>a. \<not> ?stale a) (mp_pending m)" by blast
  have "within_caps x"
    by (rule within_caps_sub [OF assms(2,1) x(2,3), of "filter ?stale (mp_pending m)"])
       (simp only: x(4) mset_append mset_filter multiset_partition [symmetric])
  then show ?thesis using PurgeStale x assms(3) by (simp add: sane_caps_def same_caps_def)
qed (use assms(4) in simp)

lemma pool_run_within_caps:
  "pool_exact bytes_of m \<Longrightarrow> within_caps m \<Longrightarrow> sane_caps m \<Longrightarrow> \<not> list_ex bypasses_caps ops \<Longrightarrow>
   \<exists>m'. pool_run bytes_of ops m = Ok m' \<and> within_caps m'"
proof (induction ops arbitrary: m)
  case (Cons op ops)
  then obtain x where "pool_step bytes_of op m = Ok x" "pool_exact bytes_of x" "within_caps x" "sane_caps x"
    using pool_step_within_caps [of bytes_of m op] by auto
  then show ?case using Cons.IH [of x] Cons.prems(4) by auto
qed simp

lemma empty_pool: "pool_exact bytes_of (with_limits l)" "within_caps (with_limits l)" "pool_inv bytes_of A (with_limits l)"
  by (simp_all add: pool_inv_def pool_exact_def indexed_def within_caps_def with_limits_def slots_of_def slot_row_def signatures_of_def)

text \<open>
  C40: The mempool's indexes describe its queue, whatever was pushed, drained, put back and purged: one action per sender and
  nonce, \<open>seen\<close> the keys of the queue, the byte count and the sender counts exact, and \<open>contains_signature\<close> true of exactly the
  queued signatures, given that a signature names one action. With limits that leave room for one more message, and unless
  actions are put back, no operation panics and the queue stays within its caps.
\<close>

theorem pool_indexes_exact:
  assumes "signatures_identify (\<Union>op\<in>set ops. set (offered op))"
  shows "(\<forall>m. pool_run bytes_of ops (with_limits l) = Ok m \<longrightarrow>
      distinct (map action_key (mp_pending m)) \<and> mp_seen m = action_key ` set (mp_pending m) \<and>
      mp_total_bytes m = (\<Sum>a\<leftarrow>mp_pending m. bytes_of a) \<and>
      (\<forall>s. unwrap_or 0 (map_of (mp_per_sender m) s) = slots_of (mp_pending m) s) \<and>
      (\<forall>s. contains_signature s m \<longleftrightarrow> (\<exists>a\<in>set (mp_pending m). act_signature a = Some s))) \<and>
    (mempool_max_bytes l + MAX_WIRE_MESSAGE_SIZE \<le> u64_max \<and> mempool_max_per_sender l \<le> u64_max \<and>
     \<not> list_ex bypasses_caps ops \<longrightarrow>
      (\<exists>m. pool_run bytes_of ops (with_limits l) = Ok m \<and> length (mp_pending m) \<le> mp_max_pending m \<and>
         mp_total_bytes m \<le> mp_max_pending_bytes m \<and> (\<forall>s. slots_of (mp_pending m) s \<le> mp_max_per_sender m)))"
proof (intro conjI allI impI)
  fix m assume r: "pool_run bytes_of ops (with_limits l) = Ok m"
  have inv: "pool_inv bytes_of (\<Union>op\<in>set ops. set (offered op)) m" using pool_run_inv [OF r empty_pool(3) assms] by auto
  then have e: "pool_exact bytes_of m" by (simp add: pool_inv_def)
  then show "distinct (map action_key (mp_pending m))" "mp_seen m = action_key ` set (mp_pending m)"
    "mp_total_bytes m = (\<Sum>a\<leftarrow>mp_pending m. bytes_of a)" by (simp_all add: pool_exact_def indexed_def)
  fix s :: address
  show "unwrap_or 0 (map_of (mp_per_sender m) s) = slots_of (mp_pending m) s" by (rule pool_slots [OF e])
  fix t :: string
  show "contains_signature t m \<longleftrightarrow> (\<exists>a\<in>set (mp_pending m). act_signature a = Some t)"
    using inv by (simp add: pool_inv_def contains_signature_def in_signatures_of)
next
  assume "mempool_max_bytes l + MAX_WIRE_MESSAGE_SIZE \<le> u64_max \<and> mempool_max_per_sender l \<le> u64_max \<and>
     \<not> list_ex bypasses_caps ops"
  then have "sane_caps (with_limits l)" "\<not> list_ex bypasses_caps ops" by (simp_all add: sane_caps_def with_limits_def)
  from pool_run_within_caps [OF empty_pool(1,2) this]
  show "\<exists>m. pool_run bytes_of ops (with_limits l) = Ok m \<and> length (mp_pending m) \<le> mp_max_pending m \<and>
      mp_total_bytes m \<le> mp_max_pending_bytes m \<and> (\<forall>s. slots_of (mp_pending m) s \<le> mp_max_per_sender m)"
    by (auto simp: within_caps_def)
qed

definition queued :: "nat \<Rightarrow> nat action" where
  "queued n = \<lparr> act_sender = Address ''a'', act_nonce = n, act_signature = Some [char_of n], act_payload = n \<rparr>"

definition sample_ops :: "nat pool_op list" where
  "sample_ops = [Push (queued 0), Push (queued 1), Push (queued 0), Push (queued 2), DrainWithin 2 15, NoteDropped [([char_of (0 :: nat)], ''late'')],
     PurgeStale (Address ''a'') 2]"

theorem pool_indexes_exact_witness:
  "\<exists>m. pool_run (\<lambda>_. 10) sample_ops (with_limits default_limits) = Ok m \<and> mp_pending m = [queued 2] \<and>
     mp_total_bytes m = 10 \<and> \<not> contains_signature [char_of (0 :: nat)] m \<and> contains_signature [char_of (2 :: nat)] m"
proof -
  have "signatures_identify (\<Union>op\<in>set sample_ops. set (offered op))"
    by (auto simp: sample_ops_def signatures_identify_def queued_def action_key_def)
  note c = pool_indexes_exact [OF this, of "\<lambda>_. 10" default_limits]
  have "\<not> list_ex bypasses_caps sample_ops" by (simp add: sample_ops_def)
  then obtain m where m: "pool_run (\<lambda>_. 10) sample_ops (with_limits default_limits) = Ok m"
    using c by (auto simp: default_limits_def MAX_WIRE_MESSAGE_SIZE_def u64_max_def)
  then have p: "mp_pending m = [queued 2]"
    by (auto simp: sample_ops_def push_def with_limits_def default_limits_def MAX_WIRE_MESSAGE_SIZE_def enlist_def take_slot_def
        queued_def action_key_def drain_pending_within_def unlist_def release_slot_def note_dropped_def purge_stale_def
        signature_set_def bt_insert.simps Let_def u64_max_def add_or_panic_def checked_add_def expect_def)
  then show ?thesis using c m by (auto simp: queued_def)
qed

end
