(* ===== verification/Accept_Block.thy ===== *)
theory Accept_Block
  imports Block_Commit Finality Account_Policy Runtime_Consensus
begin

text \<open>
  Accepting a block (\<open>accept_block\<close> in \<^verbatim>\<open>src/core/executor/src/lib.rs\<close>): the checks of the header against the chain, the unwinding
  of a dead tip, the round certificate, the replay of the actions, the state root and the batch that stores the block; and what
  that keeps true of the chain whatever peers send.

  Third-party code and the chain's own runtime are the record \<open>accept_env\<close>: hashing and signatures (\<open>fin_env\<close>, \<open>crypto\<close>), the
  Ed25519 check of a block, the bincode bytes of an action, the Merkle leaves of a view (key hashes and bincode values of its
  rows, in order), and the runtime the executor is generic in: \<open>dispatch\<close>, \<open>meter\<close> and \<open>on_block_sealed\<close>. The clock is an argument.
  The keys an execution touches, which errors carry for fraud proofs, are left out, as are the read-side indexes of a block.
\<close>

section \<open>Environment and errors\<close>

record ('p, 'e, 's) accept_env =
  ac_fin :: "'p fin_env"
  ac_crypto :: "'p crypto"
  ac_verifies :: "string \<Rightarrow> block_signing_payload \<Rightarrow> string \<Rightarrow> bool"
  ac_encode :: "'p action \<Rightarrow> string option"
  ac_leaves :: "view \<Rightarrow> (string \<times> string) list"
  ac_hasher :: hasher
  ac_dispatch :: "address list \<Rightarrow> nat \<Rightarrow> nat \<Rightarrow> string \<Rightarrow> 'p action \<Rightarrow> view \<Rightarrow> ('e, block_updates) result"
  ac_meter :: "chain_params \<Rightarrow> 'p action \<Rightarrow> nat \<times> nat"
  ac_sealed :: "view \<Rightarrow> address list \<Rightarrow> address \<Rightarrow> nat \<Rightarrow> address list \<Rightarrow> nat \<Rightarrow> ('s, block_updates) result"

datatype 's accept_error =
    AbSignature signature_error
  | TxRootEncode nat
  | TxRootMismatch nat string string
  | WrongProposer nat "address option" "address option"
  | MissingRoundCertificate nat nat
  | UnexpectedRoundCertificate nat
  | RoundCertificateMismatch nat nat nat nat
  | RoundCertificateBelowQuorum nat nat nat nat nat
  | RoundCertificateOversized nat nat nat nat
  | RoundCertificateUnknownSigner nat nat address
  | RoundCertificateInvalid nat nat
  | NotNextHeight nat nat
  | ContradictsCertificate nat string string
  | ContradictsLock nat string string
  | DeadRound nat nat nat
  | ParentMismatch string string
  | BuildIdTooLong nat nat
  | ParentStateRootMismatch nat string string
  | NonMonotonicTimestamp nat nat nat
  | TimestampTooFarAhead nat nat nat nat
  | AbStorage storage_error
  | BlockOverWeight nat nat nat
  | ActionMismatch nat nat nat string
  | StateRootMismatch nat string string
  | BlockSealed 's

fun is_execution_disagreement :: "'s accept_error \<Rightarrow> bool" where
  "is_execution_disagreement (StateRootMismatch _ _ _) = True"
| "is_execution_disagreement (ActionMismatch _ _ _ _) = True"
| "is_execution_disagreement _ = False"

definition MAX_FUTURE_DRIFT_SECS :: nat where "MAX_FUTURE_DRIFT_SECS = 30"

definition hex_text :: "('p, 'e, 's) accept_env \<Rightarrow> string \<Rightarrow> string" where
  "hex_text env bytes = ''0x'' @ cr_hex_encode (ac_crypto env) bytes"

section \<open>Round certificates\<close>

fun round_signer_keys ::
  "'p chain_db \<Rightarrow> nat \<Rightarrow> nat \<Rightarrow> validator_set \<Rightarrow> address list \<Rightarrow> address list \<Rightarrow> ('s accept_error, string list) result" where
  "round_signer_keys db height round validators before [] = Ok []"
| "round_signer_keys db height round validators before (who # signers) =
    (if who \<in> set before \<or> map_of validators who = None
     then Err (RoundCertificateUnknownSigner height round who)
     else
      and_then (ok_or (RoundCertificateUnknownSigner height round who) (get_bls_pubkey_at db who height)) (\<lambda>pubkey.
      and_then (round_signer_keys db height round validators (before @ [who]) signers) (\<lambda>pubkeys.
      Ok (pubkey # pubkeys))))"

definition verify_round_certificate ::
  "('p, 'e, 's) accept_env \<Rightarrow> 'p chain_db \<Rightarrow> round_certificate \<Rightarrow> nat \<Rightarrow> nat \<Rightarrow> string \<Rightarrow> validator_set \<Rightarrow>
   ('s accept_error, unit) result" where
  "verify_round_certificate env db cert height round parent_hash validators =
    and_then (sub_or_panic round 1) (\<lambda>prev.
    if rc_height cert \<noteq> height \<or> rc_round cert \<noteq> prev
    then Err (RoundCertificateMismatch height round (rc_height cert) (rc_round cert))
    else
     (let power = signed_power validators (rc_signers cert) in
      if power < QUORUM_POWER
      then Err (RoundCertificateBelowQuorum height round (length (rc_signers cert)) power QUORUM_POWER)
      else if length validators < length (rc_signers cert)
      then Err (RoundCertificateOversized height round (length (rc_signers cert)) (length validators))
      else
       and_then (round_signer_keys db height round validators [] (rc_signers cert)) (\<lambda>pubkeys.
       ensure (fe_verify_aggregate (ac_fin env) (round_timeout_signing_bytes (cd_genesis db) height prev parent_hash)
           pubkeys (rc_aggregate_signature cert))
         (RoundCertificateInvalid height round))))"

text \<open>A later round's block at the tip's own height unwinds a tip that can no longer finalize.\<close>

definition supersede_dead_tip ::
  "('p, 'e, 's) accept_env \<Rightarrow> 'p chain_db \<Rightarrow> 'p block \<Rightarrow> ('s accept_error, 'p chain_db) result" where
  "supersede_dead_tip env db b =
    (case cd_tip db of
       None \<Rightarrow> Ok db
     | Some tip_height \<Rightarrow>
        if b_height b \<noteq> tip_height \<or> tip_height = 0 then Ok db
        else if get_finality_record db tip_height \<noteq> None then Ok db
        else
         (case get_block db tip_height of
            None \<Rightarrow> Ok db
          | Some tip \<Rightarrow>
             if b_round b \<le> b_round tip then Ok db
             else
              (case b_round_certificate b of
                 None \<Rightarrow> Ok db
               | Some cert \<Rightarrow>
                  if (case get_highest_pol db tip_height of
                        Some pol \<Rightarrow> pl_block_hash pol = fe_block_hash (ac_fin env) tip | None \<Rightarrow> False)
                  then Ok db
                  else
                   and_then (verify_round_certificate env db cert (b_height b) (b_round b) (b_parent_hash b)
                       (get_validator_set_at db (b_height b))) (\<lambda>_.
                   map_err AbStorage (revert_to (tip_height - 1) db)))))"

section \<open>The header\<close>

definition check_signed :: "('p, 'e, 's) accept_env \<Rightarrow> 'p chain_db \<Rightarrow> 'p block \<Rightarrow> ('s accept_error, unit) result" where
  "check_signed env db b =
    (let cr = ac_crypto env; sha = cr_sha256 cr in
     and_then (map_err AbSignature (verify_proposer_signature (cr_hex_decode cr)
         (\<lambda>a. case addr_pubkey_bytes cr a of Ok bytes \<Rightarrow> Some bytes | _ \<Rightarrow> None) (ac_verifies env) (cd_genesis db) b)) (\<lambda>_.
     and_then (ok_or (TxRootEncode (b_height b)) (tx_root (action_leaf_hash sha) (action_node_hash sha)
         (replicate 32 (char_of (0 :: nat))) (ac_encode env) (b_actions b))) (\<lambda>expected.
     ensure (b_tx_root b = expected)
       (TxRootMismatch (b_height b) (hex_text env expected) (hex_text env (b_tx_root b))))))"

text \<open>The finality gate: a certificate or a lock at this height names the only block that may stand there.\<close>

definition check_gate :: "('p, 'e, 's) accept_env \<Rightarrow> 'p chain_db \<Rightarrow> 'p block \<Rightarrow> ('s accept_error, unit) result" where
  "check_gate env db b =
    (let height = b_height b; offered = fe_block_hash (ac_fin env) b in
     case get_finality_record db height of
       Some r \<Rightarrow> ensure (fr_block_hash r = offered) (ContradictsCertificate height (fr_block_hash r) offered)
     | None \<Rightarrow>
        (case get_highest_pol db height of
           Some pol \<Rightarrow> ensure (pl_block_hash pol = offered) (ContradictsLock height (pl_block_hash pol) offered)
         | None \<Rightarrow>
            and_then (unfailing (current_round db height)) (\<lambda>now_at.
            ensure (now_at \<le> b_round b) (DeadRound height (b_round b) now_at))))"

definition check_parent :: "('p, 'e, 's) accept_env \<Rightarrow> 'p block \<Rightarrow> 'p block \<Rightarrow> ('s accept_error, unit) result" where
  "check_parent env parent b =
    (let decode = cr_hex_decode (ac_crypto env); local = fe_block_hash (ac_fin env) parent;
         declared = hash32_parse decode (b_parent_hash b)
     in
     if declared = None \<or> declared \<noteq> hash32_parse decode local then Err (ParentMismatch local (b_parent_hash b))
     else if b_parent_state_root b \<noteq> b_state_root parent
     then Err (ParentStateRootMismatch (b_height b) (b_state_root parent) (b_parent_state_root b))
     else ensure (length (b_build_id b) \<le> MAX_BUILD_ID_LEN) (BuildIdTooLong (b_height b) (length (b_build_id b))))"

definition check_time :: "nat \<Rightarrow> 'p block \<Rightarrow> 'p block \<Rightarrow> ('s accept_error, unit) result" where
  "check_time clock parent b =
    (if b_height parent = 0 then Ok ()
     else if b_timestamp b \<le> b_timestamp parent
     then Err (NonMonotonicTimestamp (b_height b) (b_timestamp b) (b_timestamp parent))
     else ensure (b_timestamp b \<le> saturating_add u64_max clock MAX_FUTURE_DRIFT_SECS)
       (TimestampTooFarAhead (b_height b) (b_timestamp b) (saturating_sub (b_timestamp b) clock) MAX_FUTURE_DRIFT_SECS))"

definition check_proposer :: "('p, 'e, 's) accept_env \<Rightarrow> 'p chain_db \<Rightarrow> validator_set \<Rightarrow> 'p block \<Rightarrow> ('s accept_error, unit) result" where
  "check_proposer env db validators b =
    and_then (case b_round_certificate b of
        None \<Rightarrow> ensure (b_round b = 0) (MissingRoundCertificate (b_height b) (b_round b))
      | Some cert \<Rightarrow>
          if b_round b = 0 then Err (UnexpectedRoundCertificate (b_height b))
          else verify_round_certificate env db cert (b_height b) (b_round b) (b_parent_hash b) validators) (\<lambda>_.
    (let expected = eligible_proposer (bt_keys validators) (b_height b) (b_round b) in
     ensure (b_proposer b = expected) (WrongProposer (b_height b) expected (b_proposer b))))"

definition check_header ::
  "('p, 'e, 's) accept_env \<Rightarrow> nat \<Rightarrow> 'p chain_db \<Rightarrow> 'p block \<Rightarrow> ('s accept_error, validator_set) result" where
  "check_header env clock db b =
    (let tip_height = unwrap_or 0 (cd_tip db) in
     and_then (add_or_panic u64_max tip_height 1) (\<lambda>next.
     if b_height b \<noteq> next then Err (NotNextHeight (b_height b) tip_height)
     else
      and_then (check_gate env db b) (\<lambda>_.
      and_then (expect (get_block db tip_height)) (\<lambda>parent.
      and_then (check_parent env parent b) (\<lambda>_.
      and_then (check_time clock parent b) (\<lambda>_.
      (let validators = get_validator_set_at db (b_height b) in
       and_then (check_proposer env db validators b) (\<lambda>_.
       Ok validators))))))))"

section \<open>Execution\<close>

definition chunks :: "nat \<Rightarrow> 'a list \<Rightarrow> 'a list list" where
  "chunks k xs = map (\<lambda>i. take k (drop (i * k) xs)) [0..<(length xs + k - 1) div k]"

text \<open>The signature checks, spread over \<open>threads\<close> workers; \<open>check\<close> is \<open>verify_signature\<close> under the chain's genesis hash.\<close>

definition verify_signatures :: "nat \<Rightarrow> ('a \<Rightarrow> 'r) \<Rightarrow> 'a list \<Rightarrow> 'r list" where
  "verify_signatures threads check actions =
    (if threads = 1 \<or> length actions < 64 then map check actions
     else concat (map (map check) (chunks ((length actions + threads - 1) div threads) actions)))"

definition presigned :: "('p, 'e, 's) accept_env \<Rightarrow> string \<Rightarrow> 'p action \<Rightarrow> bool" where
  "presigned env genesis act = is_ok (verify_signature (ac_crypto env) genesis act)"

definition policy_signed :: "('p, 'e, 's) accept_env \<Rightarrow> string \<Rightarrow> 'p action \<Rightarrow> programmable_account \<Rightarrow> bool" where
  "policy_signed env genesis act pol = is_ok (verify_account_signature (ac_crypto env) (Some pol) genesis act)"

definition run_actions ::
  "('p, 'e, 's) accept_env \<Rightarrow> 'p chain_db \<Rightarrow> address list \<Rightarrow> nat \<Rightarrow> nat \<Rightarrow> 'p action list \<Rightarrow>
   (never, view \<times> ('p action, 'e) execution_outcome) result" where
  "run_actions env db validators height ts actions =
    (let v = cd_state db; genesis = cd_genesis db in
     and_then (resolve_matured_unbonding (ac_hasher env) v height) (\<lambda>seed.
     execute_actions (presigned env genesis) (policy_signed env genesis)
       (ac_dispatch env validators height ts genesis) (ac_meter env (chain_params_of v)) v actions seed))"

text \<open>The seal reads the view the overlays give and the statuses they wrote.\<close>

definition run_seal ::
  "('p, 'e, 's) accept_env \<Rightarrow> view \<Rightarrow> ('p action, 'e) execution_outcome \<Rightarrow> address \<Rightarrow> address list \<Rightarrow> nat \<Rightarrow>
   ('s, block_updates) result" where
  "run_seal env v out who validators height =
    ac_sealed env (seal_view v out) (written_validator_statuses out) who (fees_collected out) validators height"

text \<open>
  The rows the state root is taken over, in the order \<open>accept_block\<close> overlays them. The batch it then writes holds the same
  rows in another order (\<open>commit_block\<close>).
\<close>

definition set_snapshot :: "nat \<Rightarrow> block_updates \<Rightarrow> (never, (nat \<times> validator_set) option) result" where
  "set_snapshot height sealed =
    (case bu_validator_set sealed of
       Some s \<Rightarrow> and_then (add_or_panic u64_max height 1) (\<lambda>h. Ok (Some (h, s)))
     | None \<Rightarrow> Ok None)"

definition state_root_overlay ::
  "view \<Rightarrow> nat \<Rightarrow> ('a, 'e) execution_outcome \<Rightarrow> block_updates \<Rightarrow> (never, view) result" where
  "state_root_overlay db height out sealed =
    and_then (set_snapshot height sealed) (\<lambda>new_set.
    (let v = commit_typed db out sealed;
         v = (case new_set of Some (h, s) \<Rightarrow> apply_validator_set h v s | None \<Rightarrow> v);
         v = fold (\<lambda>r v. apply_attestor_registration v r) (attestor_registrations out) v;
         v = fold (\<lambda>d v. apply_attestor_deregistration v d) (attestor_deregistrations out) v;
         v = fold (\<lambda>a v. apply_asset_registration v a) (asset_registrations out) v;
         v = fold (\<lambda>m v. apply_evidence v m) (evidence_markers out) v;
         v = fold (\<lambda>k v. apply_bls_key v k) (bls_keys out) v;
         v = apply_operator v (o_operator out)
     in Ok (apply_governance v (o_governance out @ bu_governance sealed))))"

definition compute_state_root :: "('p, 'e, 's) accept_env \<Rightarrow> view \<Rightarrow> (never, string) result" where
  "compute_state_root env v =
    and_then (root_of (sha_trie (cr_sha256 (ac_crypto env))) (ac_leaves env v)) (\<lambda>root. Ok (hex_text env root))"

text \<open>What \<open>ActionMismatch\<close> reports: the root over the plain rows of the actions that did execute.\<close>

definition partial_overlay :: "view \<Rightarrow> ('a, 'e) execution_outcome \<Rightarrow> view" where
  "partial_overlay db out =
    apply_holder_states (apply_asset_balances (apply_stakes (apply_accounts db (o_accounts out)) (o_stakes out)) (o_assets out))
      (o_holder_states out)"

definition block_rows ::
  "('p, 'e, 's) accept_env \<Rightarrow> 'p block \<Rightarrow> ('p action, 'e) execution_outcome \<Rightarrow> (nat \<times> validator_set) option \<Rightarrow> view \<Rightarrow> string \<Rightarrow>
   'p db_row list" where
  "block_rows env b out new_set v root =
    [StateRow v, RootRow root] @
    (case new_set of Some (h, s) \<Rightarrow> [ValidatorSetRow h (Some s)] | None \<Rightarrow> []) @
    map (\<lambda>k. BlsHistoryRow (bls_address k, bls_effective_height k) (Some (bls_pubkey k))) (bls_keys out) @
    [WeightRow (b_height b) (Some (weight_used out)), BlockRow (b_height b) (Some b), TipRow (Some (b_height b)),
     BlockHashRow (fe_block_hash (ac_fin env) b) (Some (b_height b))]"

definition execute_block ::
  "('p, 'e, 's) accept_env \<Rightarrow> 'p chain_db \<Rightarrow> validator_set \<Rightarrow> 'p block \<Rightarrow> ('s accept_error, 'p db_row list) result" where
  "execute_block env db validator_set b =
    (let v = cd_state db; validators = bt_keys validator_set; height = b_height b; claimed = length (b_actions b) in
     and_then (unfailing (run_actions env db validators height (b_timestamp b) (b_actions b))) (\<lambda>(_, out).
     if deferred out \<noteq> []
     then Err (BlockOverWeight height (max_block_weight (chain_params_of v)) (length (deferred out)))
     else if length (applied out) \<noteq> claimed
     then Err (ActionMismatch height claimed (length (applied out))
       (case compute_state_root env (partial_overlay v out) of Ok root \<Rightarrow> root | _ \<Rightarrow> []))
     else
      and_then (expect (b_proposer b)) (\<lambda>who.
      and_then (map_err BlockSealed (run_seal env v out who validators height)) (\<lambda>sealed.
      and_then (unfailing (set_snapshot height sealed)) (\<lambda>new_set.
      and_then (unfailing (and_then (state_root_overlay v height out sealed) (compute_state_root env))) (\<lambda>expected.
      if b_state_root b \<noteq> expected then Err (StateRootMismatch height expected (b_state_root b))
      else
       and_then (unfailing (commit_block v height out sealed)) (\<lambda>w.
       Ok (block_rows env b out new_set w expected))))))))"

section \<open>Accepting\<close>

text \<open>The database after the call comes with its outcome: a rejected block may still have unwound a dead tip.\<close>

fun outcome :: "'d \<Rightarrow> ('a \<Rightarrow> 'd \<times> ('e, 'b) result) \<Rightarrow> ('e, 'a) result \<Rightarrow> 'd \<times> ('e, 'b) result" where
  "outcome db f (Ok x) = f x"
| "outcome db f (Err e) = (db, Err e)"
| "outcome db f Panic = (db, Panic)"

definition accept_block ::
  "('p, 'e, 's) accept_env \<Rightarrow> nat \<Rightarrow> 'p chain_db \<Rightarrow> 'p block \<Rightarrow> 'p chain_db \<times> ('s accept_error, 'p block) result" where
  "accept_block env clock db b =
    outcome db (\<lambda>_.
      outcome db (\<lambda>db.
        outcome db (\<lambda>rows. (write_block_batches (b_height b) rows db, Ok b))
          (and_then (check_header env clock db b) (\<lambda>validators. execute_block env db validators b)))
        (supersede_dead_tip env db b))
      (check_signed env db b)"

section \<open>The previewed rows are the written rows\<close>

lemma fold_past:
  assumes "\<And>y v. f (g y v) = g y (f v)"
  shows "f (fold g ys v) = fold g ys (f v)"
proof (induction ys arbitrary: v)
  case (Cons y ys)
  show ?case using Cons.IH [of "g y v"] by (simp only: fold_simps assms [of y v])
qed simp

lemma folds_commute:
  assumes "\<And>x y v. f x (g y v) = g y (f x v)"
  shows "fold f xs (fold g ys v) = fold g ys (fold f xs v)"
proof (induction xs arbitrary: v)
  case (Cons x xs)
  have "f x (fold g ys v) = fold g ys (f x v)" by (rule fold_past) (rule assms)
  then show ?case using Cons.IH [of "f x v"] by (simp only: fold_simps)
qed simp

lemmas overlay_defs = apply_evidence_def apply_bls_key_def apply_asset_registration_def apply_attestor_registration_def
  apply_attestor_deregistration_def apply_operator_def apply_validator_set_def Let_def

lemma evidence_commutes_one:
  "apply_evidence (apply_attestor_registration v r) m = apply_attestor_registration (apply_evidence v m) r"
  "apply_evidence (apply_attestor_deregistration v d) m = apply_attestor_deregistration (apply_evidence v m) d"
  "apply_evidence (apply_asset_registration v a) m = apply_asset_registration (apply_evidence v m) a"
  by (cases "em_disputed m"; simp add: overlay_defs)+

lemma bls_key_commutes_one:
  "apply_bls_key (apply_attestor_registration v r) k = apply_attestor_registration (apply_bls_key v k) r"
  "apply_bls_key (apply_attestor_deregistration v d) k = apply_attestor_deregistration (apply_bls_key v k) d"
  "apply_bls_key (apply_asset_registration v a) k = apply_asset_registration (apply_bls_key v k) a"
  by (simp_all add: overlay_defs)

lemma evidence_commutes:
  "fold (\<lambda>m v. apply_evidence v m) ms (fold (\<lambda>r v. apply_attestor_registration v r) rs v) =
   fold (\<lambda>r v. apply_attestor_registration v r) rs (fold (\<lambda>m v. apply_evidence v m) ms v)"
  "fold (\<lambda>m v. apply_evidence v m) ms (fold (\<lambda>d v. apply_attestor_deregistration v d) ds v) =
   fold (\<lambda>d v. apply_attestor_deregistration v d) ds (fold (\<lambda>m v. apply_evidence v m) ms v)"
  "fold (\<lambda>m v. apply_evidence v m) ms (fold (\<lambda>a v. apply_asset_registration v a) as v) =
   fold (\<lambda>a v. apply_asset_registration v a) as (fold (\<lambda>m v. apply_evidence v m) ms v)"
  by (rule folds_commute; rule evidence_commutes_one)+

lemma bls_key_commutes:
  "fold (\<lambda>k v. apply_bls_key v k) ks (fold (\<lambda>r v. apply_attestor_registration v r) rs v) =
   fold (\<lambda>r v. apply_attestor_registration v r) rs (fold (\<lambda>k v. apply_bls_key v k) ks v)"
  "fold (\<lambda>k v. apply_bls_key v k) ks (fold (\<lambda>d v. apply_attestor_deregistration v d) ds v) =
   fold (\<lambda>d v. apply_attestor_deregistration v d) ds (fold (\<lambda>k v. apply_bls_key v k) ks v)"
  "fold (\<lambda>k v. apply_bls_key v k) ks (fold (\<lambda>a v. apply_asset_registration v a) as v) =
   fold (\<lambda>a v. apply_asset_registration v a) as (fold (\<lambda>k v. apply_bls_key v k) ks v)"
  by (rule folds_commute; rule bls_key_commutes_one)+

lemma asset_registration_commutes:
  "fold (\<lambda>a v. apply_asset_registration v a) as (fold (\<lambda>r v. apply_attestor_registration v r) rs v) =
   fold (\<lambda>r v. apply_attestor_registration v r) rs (fold (\<lambda>a v. apply_asset_registration v a) as v)"
  "fold (\<lambda>a v. apply_asset_registration v a) as (fold (\<lambda>d v. apply_attestor_deregistration v d) ds v) =
   fold (\<lambda>d v. apply_attestor_deregistration v d) ds (fold (\<lambda>a v. apply_asset_registration v a) as v)"
  by (rule folds_commute; simp add: overlay_defs)+

lemmas overlays_commute = evidence_commutes bls_key_commutes asset_registration_commutes

lemma state_root_overlay_commits: "state_root_overlay db height out sealed = commit_block db height out sealed"
  unfolding state_root_overlay_def commit_block_def set_snapshot_def Let_def by (simp only: overlays_commute)

section \<open>The workers check what one thread would\<close>

lemma concat_chunks: "0 < k \<Longrightarrow> concat (chunks k xs) = xs"
proof -
  assume k: "0 < k"
  have "concat (map (\<lambda>i. take k (drop (i * k) xs)) [0..<n]) = take (n * k) xs" for n
  proof (induction n)
    case (Suc n)
    then show ?case using take_add [of "n * k" k xs] by (simp add: add.commute)
  qed simp
  moreover have "length xs \<le> (length xs + k - 1) div k * k"
  proof -
    have "(length xs + k - 1) mod k < k" using k by simp
    then show ?thesis using div_mult_mod_eq [of "length xs + k - 1" k] by linarith
  qed
  ultimately show ?thesis by (simp add: chunks_def)
qed

lemma verify_signatures_sequential: "0 < threads \<Longrightarrow> verify_signatures threads check actions = map check actions"
proof -
  assume t: "0 < threads"
  show ?thesis
  proof (cases "threads = 1 \<or> length actions < 64")
    case False
    then have "0 < (length actions + threads - 1) div threads" using t by (intro div_greater_zero_iff [THEN iffD2]) auto
    then have "concat (map (map check) (chunks ((length actions + threads - 1) div threads) actions)) = map check actions"
      by (metis concat_chunks map_concat)
    then show ?thesis using False by (simp add: verify_signatures_def)
  qed (simp add: verify_signatures_def)
qed

end
