(* ===== verification/Chain_Safety.thy ===== *)
theory Chain_Safety
  imports Accept_Block
begin

text \<open>
  What holds of the chain a node stores, whatever blocks, certificates and votes reach it: the blocks from genesis to the tip are
  linked, the stored state is the one the tip commits to, every block above the finalized watermark can be unwound, and no block at
  or below it ever changes.
\<close>

section \<open>Linked chains\<close>

definition extends_block :: "('p, 'e, 's) accept_env \<Rightarrow> 'p block \<Rightarrow> 'p block \<Rightarrow> bool" where
  "extends_block env p b \<longleftrightarrow>
     b_height b = Suc (b_height p) \<and>
     (\<exists>h. hash32_parse (cr_hex_decode (ac_crypto env)) (b_parent_hash b) = Some h \<and>
          hash32_parse (cr_hex_decode (ac_crypto env)) (fe_block_hash (ac_fin env) p) = Some h) \<and>
     b_parent_state_root b = b_state_root p \<and> (0 < b_height p \<longrightarrow> b_timestamp p < b_timestamp b)"

definition linked :: "('p, 'e, 's) accept_env \<Rightarrow> nat \<Rightarrow> 'p chain_db \<Rightarrow> bool" where
  "linked env t db \<longleftrightarrow>
     cd_tip db = Some t \<and> (\<forall>h. get_block db h \<noteq> None \<longleftrightarrow> h \<le> t) \<and>
     (\<forall>h b. get_block db h = Some b \<longrightarrow> b_height b = h) \<and>
     (\<forall>h p b. get_block db h = Some p \<and> get_block db (Suc h) = Some b \<longrightarrow> extends_block env p b) \<and>
     (\<forall>b. get_block db t = Some b \<longrightarrow> b_state_root b = cd_root db) \<and>
     compute_state_root env (cd_state db) = Ok (cd_root db) \<and>
     (\<forall>x n. map_of (cd_hash_index db) x = Some n \<longrightarrow> n \<le> t)"

lemma same_chain_sym: "same_chain a b \<Longrightarrow> same_chain b a"
  by (simp add: same_chain_def)

lemma same_chain_trans: "same_chain a b \<Longrightarrow> same_chain b c \<Longrightarrow> same_chain a c"
  by (simp add: same_chain_def)

lemma same_chain_refl [simp]: "same_chain a a"
  by (simp add: same_chain_def)

lemma linked_same: "same_chain a b \<Longrightarrow> linked env t a \<longleftrightarrow> linked env t b"
  by (simp add: same_chain_def linked_def get_block_def)

lemma linkedD:
  assumes "linked env t db"
  shows "cd_tip db = Some t" "get_block db h = Some p \<Longrightarrow> get_block db (Suc h) = Some b \<Longrightarrow> extends_block env p b"
    "get_block db t = Some b \<Longrightarrow> b_state_root b = cd_root db" "compute_state_root env (cd_state db) = Ok (cd_root db)"
  by (insert assms, unfold linked_def, elim conjE; (assumption | iprover))+

lemma linked_block: "linked env t db \<Longrightarrow> h \<le> t \<Longrightarrow> \<exists>b. get_block db h = Some b \<and> b_height b = h"
  by (meson linked_def not_None_eq)

lemma put_row_same: "same_chain a b \<Longrightarrow> same_chain (put_row w a) (put_row w b)"
  by (cases w) (simp_all add: same_chain_def)

lemma put_rows_same: "same_chain a b \<Longrightarrow> same_chain (fold put_row ws a) (fold put_row ws b)"
  by (induction ws arbitrary: a b) (simp_all add: put_row_same)

section \<open>Chains that can be unwound\<close>

text \<open>
  \<open>past n\<close> is the database as it stood with tip \<open>n\<close>. Below the watermark nothing is asked of the undo records, which the watermark
  prunes.
\<close>

definition undoes :: "'p db_row list \<Rightarrow> 'p chain_db \<Rightarrow> 'p chain_db \<Rightarrow> bool" where
  "undoes rows after before \<longleftrightarrow> (\<forall>d. same_chain d after \<longrightarrow> same_chain (fold put_row rows d) before)"

definition unwindable :: "('p, 'e, 's) accept_env \<Rightarrow> (nat \<Rightarrow> 'p chain_db) \<Rightarrow> nat \<Rightarrow> 'p chain_db \<Rightarrow> bool" where
  "unwindable env past t db \<longleftrightarrow>
     chain_wf db \<and> cd_watermark db \<le> t \<and> same_chain db (past t) \<and>
     (\<forall>n\<le>t. linked env n (past n)) \<and>
     (\<forall>n<t. \<forall>k\<le>n. get_block (past (Suc n)) k = get_block (past n) k) \<and>
     (\<forall>n<t. cd_watermark db \<le> n \<longrightarrow> (\<exists>rows. map_of (cd_undo db) (Suc n) = Some rows \<and> undoes rows (past (Suc n)) (past n)))"

lemma unwindable_linked: "unwindable env past t db \<Longrightarrow> linked env t db"
  using linked_same [of db "past t" env t] by (auto simp: unwindable_def)

lemma past_blocks:
  assumes "\<forall>n<t. \<forall>k\<le>n. get_block (past (Suc n)) k = get_block (past n) k" "k \<le> n" "n \<le> t"
  shows "get_block (past t) k = get_block (past n) k"
  using assms(3,1)
proof (induction rule: dec_induct)
  case (step m)
  then show ?case using assms(2) by auto
qed simp

lemma undo_blocks_past:
  assumes "h \<le> t" "chain_wf d" "same_chain d (past t)"
    and "\<And>n. h \<le> n \<Longrightarrow> n < t \<Longrightarrow> \<exists>rows. map_of (cd_undo d) (Suc n) = Some rows \<and> undoes rows (past (Suc n)) (past n)"
  shows "\<exists>d'. undo_blocks (rev [Suc h..<Suc t]) d = Ok d' \<and> chain_wf d' \<and> same_chain d' (past h) \<and>
    (\<forall>k\<le>h. map_of (cd_undo d') k = map_of (cd_undo d) k) \<and> cd_watermark d' = cd_watermark d \<and>
    cd_finality d' = cd_finality d \<and> cd_genesis d' = cd_genesis d"
  using assms
proof (induction t arbitrary: d)
  case (Suc t)
  show ?case
  proof (cases "h = Suc t")
    case False
    then have h: "h \<le> t" using Suc.prems(1) by simp
    obtain rows where rows: "map_of (cd_undo d) (Suc t) = Some rows" "undoes rows (past (Suc t)) (past t)"
      using Suc.prems(4) [of t] h by auto
    let ?d = "(fold put_row rows d)\<lparr> cd_undo := bt_remove (Suc t) (cd_undo d) \<rparr>"
    have wf: "chain_wf ?d" using put_rows_wf [OF Suc.prems(2), of rows] Suc.prems(2) by (simp add: chain_wf_def bt_wf_remove)
    have same: "same_chain ?d (past t)" using rows(2) Suc.prems(3) by (simp add: undoes_def same_chain_cong(3))
    have "\<exists>rows. map_of (cd_undo ?d) (Suc n) = Some rows \<and> undoes rows (past (Suc n)) (past n)" if "h \<le> n" "n < t" for n
      using Suc.prems(4) [of n] that by simp
    from Suc.IH [OF h wf same this] obtain d' where d': "undo_blocks (rev [Suc h..<Suc t]) ?d = Ok d'" "chain_wf d'"
      "same_chain d' (past h)" "\<forall>k\<le>h. map_of (cd_undo d') k = map_of (cd_undo ?d) k" "cd_watermark d' = cd_watermark ?d"
      "cd_finality d' = cd_finality ?d" "cd_genesis d' = cd_genesis ?d" by blast
    have "rev [Suc h..<Suc (Suc t)] = Suc t # rev [Suc h..<Suc t]" using h by simp
    then have "undo_blocks (rev [Suc h..<Suc (Suc t)]) d = Ok d'" using rows(1) d'(1) by (simp only: undo_blocks.simps) (simp add: ok_or_def)
    then show ?thesis using d'(2-7) h by auto
  qed (use Suc.prems in simp)
qed simp

lemma drop_votes_fields [simp]:
  "chain_wf (drop_votes_above h d) = chain_wf d" "cd_watermark (drop_votes_above h d) = cd_watermark d"
  "cd_undo (drop_votes_above h d) = cd_undo d" "cd_finality (drop_votes_above h d) = cd_finality d"
  "cd_genesis (drop_votes_above h d) = cd_genesis d"
  by (simp_all add: drop_votes_above_def chain_wf_def)

lemma unwindable_cut:
  assumes "unwindable env past t db" "h \<le> t" "cd_watermark db \<le> h"
    and "chain_wf d" "same_chain d (past h)" "\<forall>k\<le>h. map_of (cd_undo d) k = map_of (cd_undo db) k" "cd_watermark d = cd_watermark db"
  shows "unwindable env past h d"
  unfolding unwindable_def
proof (intro conjI allI impI)
  fix n assume n: "n < h" "cd_watermark d \<le> n"
  have "Suc n \<le> h" "n < t" using n assms(2) by auto
  with assms(1,6,7) n(2)
  show "\<exists>rows. map_of (cd_undo d) (Suc n) = Some rows \<and> undoes rows (past (Suc n)) (past n)" unfolding unwindable_def by metis
qed (use assms in \<open>auto simp: unwindable_def\<close>)

lemma revert_unwinds:
  assumes "unwindable env past t db" "cd_watermark db \<le> h" "h \<le> t"
  shows "\<exists>db'. revert_to h db = Ok db' \<and> unwindable env past h db' \<and> cd_watermark db' = cd_watermark db \<and>
    cd_finality db' = cd_finality db \<and> cd_genesis db' = cd_genesis db"
proof (cases "h = t")
  case True
  have "cd_tip db = Some t" using unwindable_linked [OF assms(1)] by (simp add: linked_def)
  then show ?thesis using True assms(1) by (simp add: revert_to_def)
next
  case False
  note u = assms(1) [unfolded unwindable_def]
  have l: "linked env h (past h)" "linked env t db" using u assms(3) unwindable_linked [OF assms(1)] by simp_all
  have tip: "cd_tip db = Some t" using l(2) by (simp add: linked_def)
  have "\<exists>rows. map_of (cd_undo db) (Suc n) = Some rows \<and> undoes rows (past (Suc n)) (past n)" if "h \<le> n" "n < t" for n
    using u assms(2) that by auto
  from undo_blocks_past [OF assms(3) _ _ this] u obtain d where
    d: "undo_blocks (rev [Suc h..<Suc t]) db = Ok d" "chain_wf d" "same_chain d (past h)"
      "\<forall>k\<le>h. map_of (cd_undo d) k = map_of (cd_undo db) k" "cd_watermark d = cd_watermark db" "cd_finality d = cd_finality db"
      "cd_genesis d = cd_genesis db" by blast
  obtain target where target: "get_block db h = Some target" using linked_block [OF l(2) assms(3)] by blast
  have "get_block (past t) h = get_block (past h) h" using u assms(3) by (intro past_blocks) auto
  moreover have "get_block db h = get_block (past t) h" using u by (simp add: same_chain_def get_block_def)
  ultimately have "b_state_root target = cd_root d"
    using target l(1) d(3) by (simp add: linked_def same_chain_def)
  then have "revert_to h db = Ok (drop_votes_above h d)"
    using tip False assms(2,3) target d(1) unfolding revert_to_def Let_def by (simp del: upt_Suc)
  moreover have "unwindable env past h (drop_votes_above h d)"
    by (rule unwindable_cut [OF assms(1,3,2)]) (use d in \<open>simp_all add: same_chain_cong(2)\<close>)
  ultimately show ?thesis using d(5-7) by simp
qed

section \<open>Writing a block, and certificates\<close>

lemma advance_le_tip:
  assumes "unwindable env past t db"
  shows "advance_watermark db i (cd_watermark db) \<le> t"
  by (rule advance_watermark_le) (use assms unwindable_linked [OF assms] in \<open>auto simp: unwindable_def linked_def\<close>)

lemma write_unwindable:
  assumes u: "unwindable env past t db" and l: "linked env (Suc t) (fold put_row rows db)"
    and old: "\<And>k. k \<le> t \<Longrightarrow> get_block (fold put_row rows db) k = get_block db k"
  shows "unwindable env (past(Suc t := fold put_row rows db)) (Suc t) (write_block_batches (Suc t) rows db)"
proof -
  let ?undo = "map (prior_row db) rows @ [RootRow (cd_root db)]" and ?new = "fold put_row rows db"
  let ?rows = "?new\<lparr> cd_undo := bt_insert (Suc t) ?undo (cd_undo ?new) \<rparr>"
  let ?db = "stage_watermark_advance db [] ?rows" and ?past = "past(Suc t := fold put_row rows db)"
  note adv = advance_le_tip [OF u, of "[]"]
  have w: "write_block_batches (Suc t) rows db = ?db" by (simp add: write_block_batches_def Let_def)
  have wm: "cd_watermark ?db = advance_watermark db [] (cd_watermark db)" by (rule cd_watermark_stage) simp
  have undo: "map_of (cd_undo ?db) (Suc n) = map_of (bt_insert (Suc t) ?undo (cd_undo db)) (Suc n)" if "cd_watermark ?db \<le> n" for n
    using undo_kept [of db "[]" n ?rows] that wm by simp
  have "undoes ?undo ?new (past t)"
    unfolding undoes_def
  proof (intro allI impI)
    fix d assume "same_chain d ?new"
    from put_rows_same [OF this, of ?undo] undo_restores [of db rows] u show "same_chain (fold put_row ?undo d) (past t)"
      by (meson same_chain_trans unwindable_def)
  qed
  moreover have "chain_wf ?db"
    using put_rows_wf [of db rows] u by (simp add: unwindable_def chain_wf_def bt_wf_insert stage_watermark_advance_def Let_def bt_wf_filter)
  moreover have "get_block (?past (Suc n)) k = get_block (?past n) k" if "n < Suc t" "k \<le> n" for n k
  proof (cases "n = t")
    case True
    have "get_block db k = get_block (past t) k" using u by (simp add: unwindable_def same_chain_def get_block_def)
    then show ?thesis using old that True by simp
  qed (use u that in \<open>auto simp: unwindable_def\<close>)
  moreover have "\<exists>rows. map_of (cd_undo ?db) (Suc n) = Some rows \<and> undoes rows (?past (Suc n)) (?past n)"
    if n: "n < Suc t" "cd_watermark ?db \<le> n" for n
  proof (cases "n = t")
    case True
    then show ?thesis using undo [OF n(2)] calculation(1) by simp
  next
    case False
    have "cd_watermark db \<le> n" using n(2) wm advance_watermark_ge [of "cd_watermark db" db "[]"] by simp
    then show ?thesis using u undo [OF n(2)] False n(1) by (auto simp: unwindable_def)
  qed
  moreover have "same_chain ?db ?new" by (simp add: same_chain_cong)
  ultimately show ?thesis using u l adv wm unfolding w unwindable_def by (auto simp: le_Suc_eq)
qed

lemma write_watermark: "cd_watermark db \<le> cd_watermark (write_block_batches h rows db)"
  "cd_finality (write_block_batches h rows db) = cd_finality db"
proof -
  have "cd_watermark (write_block_batches h rows db) = advance_watermark db [] (cd_watermark db)"
    unfolding write_block_batches_def Let_def by (rule cd_watermark_stage) simp
  then show "cd_watermark db \<le> cd_watermark (write_block_batches h rows db)" by (simp add: advance_watermark_ge)
  show "cd_finality (write_block_batches h rows db) = cd_finality db" by (simp add: write_block_batches_def Let_def)
qed

lemma certify_unwindable:
  assumes "unwindable env past t db"
  shows "unwindable env past t (write_finality_record r db)"
proof -
  let ?i = "[(fr_height r, fr_block_hash r)]" and ?f = "db\<lparr> cd_finality := bt_insert (fr_height r) r (cd_finality db) \<rparr>"
  let ?db = "stage_watermark_advance db ?i ?f"
  have wm: "cd_watermark ?db = advance_watermark db ?i (cd_watermark db)" by (rule cd_watermark_stage) simp
  have "\<exists>rows. map_of (cd_undo ?db) (Suc n) = Some rows \<and> undoes rows (past (Suc n)) (past n)" if "n < t" "cd_watermark ?db \<le> n" for n
  proof -
    have "cd_watermark db \<le> n" using that(2) wm advance_watermark_ge [of "cd_watermark db" db ?i] by simp
    moreover have "map_of (cd_undo ?db) (Suc n) = map_of (cd_undo db) (Suc n)" using undo_kept [of db ?i n ?f] that(2) wm by simp
    ultimately show ?thesis using assms that(1) by (simp add: unwindable_def)
  qed
  moreover have "same_chain ?db db" by (simp add: same_chain_def)
  moreover have "chain_wf db" using assms by (simp add: unwindable_def)
  then have "chain_wf ?db" by (simp add: chain_wf_def stage_watermark_advance_def Let_def bt_wf_filter)
  ultimately show ?thesis
    using assms advance_le_tip [OF assms, of ?i] wm unfolding write_finality_record_def unwindable_def by (auto intro: same_chain_trans)
qed

section \<open>What an accepted block went through\<close>

lemma check_headerE:
  fixes env :: "('p, 'e, 's) accept_env"
  assumes "check_header env clock db b = Ok validators" "cd_tip db = Some t"
  obtains parent where "b_height b = Suc t" "get_block db t = Some parent" "check_gate env db b = Ok ()"
    "check_parent env parent b = Ok ()" "(check_time clock parent b :: ('s accept_error, unit) result) = Ok ()"
    "check_proposer env db validators b = Ok ()" "validators = get_validator_set_at db (b_height b)"
  using assms by (auto simp: check_header_def Let_def expect_def split: if_splits option.splits)

lemma execute_blockE:
  assumes "execute_block env db validators b = Ok rows"
  obtains v out who sealed new_set w where
    "run_actions env db (bt_keys validators) (b_height b) (b_timestamp b) (b_actions b) = Ok (v, out)" "deferred out = []"
    "length (applied out) = length (b_actions b)" "b_proposer b = Some who"
    "run_seal env (cd_state db) out who (bt_keys validators) (b_height b) = Ok sealed"
    "set_snapshot (b_height b) sealed = Ok new_set" "commit_block (cd_state db) (b_height b) out sealed = Ok w"
    "compute_state_root env w = Ok (b_state_root b)" "rows = block_rows env b out new_set w (b_state_root b)"
proof -
  from assms obtain v out who sealed new_set w where
    e: "run_actions env db (bt_keys validators) (b_height b) (b_timestamp b) (b_actions b) = Ok (v, out)" "deferred out = []"
      "length (applied out) = length (b_actions b)" "expect (b_proposer b) = (Ok who :: (_ accept_error, _) result)"
      "map_err BlockSealed (run_seal env (cd_state db) out who (bt_keys validators) (b_height b)) = Ok sealed"
      "set_snapshot (b_height b) sealed = Ok new_set" "commit_block (cd_state db) (b_height b) out sealed = Ok w"
      "compute_state_root env w = Ok (b_state_root b)" "rows = block_rows env b out new_set w (b_state_root b)"
    unfolding execute_block_def Let_def state_root_overlay_commits by (auto split: prod.splits if_splits)
  moreover from e(4) have "b_proposer b = Some who" by (auto simp: expect_def split: option.splits)
  moreover from e(5) have "run_seal env (cd_state db) out who (bt_keys validators) (b_height b) = Ok sealed"
    by (cases "run_seal env (cd_state db) out who (bt_keys validators) (b_height b)") simp_all
  ultimately show thesis using that by blast
qed

lemma bls_rows_fields:
  "cd_tip (fold put_row (map (\<lambda>k. BlsHistoryRow (f k) (g k)) ks) db) = cd_tip db"
  "cd_blocks (fold put_row (map (\<lambda>k. BlsHistoryRow (f k) (g k)) ks) db) = cd_blocks db"
  "cd_hash_index (fold put_row (map (\<lambda>k. BlsHistoryRow (f k) (g k)) ks) db) = cd_hash_index db"
  "cd_state (fold put_row (map (\<lambda>k. BlsHistoryRow (f k) (g k)) ks) db) = cd_state db"
  "cd_root (fold put_row (map (\<lambda>k. BlsHistoryRow (f k) (g k)) ks) db) = cd_root db"
  by (induction ks arbitrary: db) simp_all

lemma block_rows_fields:
  defines "d env b out new_set w root db \<equiv> fold put_row (block_rows env b out new_set w root) db"
  shows "cd_tip (d env b out new_set w root db) = Some (b_height b)"
    "cd_blocks (d env b out new_set w root db) = bt_insert (b_height b) b (cd_blocks db)"
    "cd_hash_index (d env b out new_set w root db) = bt_insert (fe_block_hash (ac_fin env) b) (b_height b) (cd_hash_index db)"
    "cd_state (d env b out new_set w root db) = w" "cd_root (d env b out new_set w root db) = root"
  by (simp_all add: d_def block_rows_def bls_rows_fields bt_put_def split: option.split prod.split)

lemma executed_fields:
  assumes "execute_block env db validators b = Ok rows"
  shows "cd_tip (write_block_batches h rows db) = Some (b_height b)"
    "cd_blocks (write_block_batches h rows db) = bt_insert (b_height b) b (cd_blocks db)"
    "cd_hash_index (write_block_batches h rows db) = bt_insert (fe_block_hash (ac_fin env) b) (b_height b) (cd_hash_index db)"
    "cd_root (write_block_batches h rows db) = b_state_root b"
    "compute_state_root env (cd_state (write_block_batches h rows db)) = Ok (b_state_root b)"
proof -
  from execute_blockE [OF assms] obtain out new_set w where x: "compute_state_root env w = Ok (b_state_root b)"
    "rows = block_rows env b out new_set w (b_state_root b)" by blast
  note f = block_rows_fields [of env b out new_set w "b_state_root b" db, folded x(2)]
  show "cd_tip (write_block_batches h rows db) = Some (b_height b)"
    "cd_blocks (write_block_batches h rows db) = bt_insert (b_height b) b (cd_blocks db)"
    "cd_hash_index (write_block_batches h rows db) = bt_insert (fe_block_hash (ac_fin env) b) (b_height b) (cd_hash_index db)"
    "cd_root (write_block_batches h rows db) = b_state_root b"
    "compute_state_root env (cd_state (write_block_batches h rows db)) = Ok (b_state_root b)"
    using x(1) by (simp_all add: write_block_batches_def Let_def f)
qed

lemma checked_block_extends:
  fixes env :: "('p, 'e, 's) accept_env"
  assumes "check_parent env parent b = Ok ()" "(check_time clock parent b :: ('s accept_error, unit) result) = Ok ()" "b_height b = Suc (b_height parent)"
  shows "extends_block env parent b"
  using assms by (auto simp: check_parent_def check_time_def Let_def extends_block_def ensure_def dest!: sym [of "Some _"] split: if_splits)

lemma accepted_rows_linked:
  fixes env :: "('p, 'e, 's) accept_env"
  assumes "linked env t db" "check_header env clock db b = Ok validators" "execute_block env db validators b = Ok rows"
  shows "linked env (Suc t) (fold put_row rows db)" "b_height b = Suc t"
    "k \<le> t \<Longrightarrow> get_block (fold put_row rows db) k = get_block db k"
proof -
  have "cd_tip db = Some t" using assms(1) by (simp add: linked_def)
  from check_headerE [OF assms(2) this] obtain parent where h: "b_height b = Suc t" "get_block db t = Some parent"
    "check_parent env parent b = Ok ()" "(check_time clock parent b :: ('s accept_error, unit) result) = Ok ()" by blast
  from execute_blockE [OF assms(3)] obtain out new_set w where x: "compute_state_root env w = Ok (b_state_root b)"
    "rows = block_rows env b out new_set w (b_state_root b)" by blast
  have p: "b_height parent = t" using linked_block [OF assms(1), of t] h(2) by auto
  have ext: "extends_block env parent b" using checked_block_extends [OF h(3,4)] h(1) p by simp
  note f = block_rows_fields [of env b out new_set w "b_state_root b" db, folded x(2)]
  have g: "get_block (fold put_row rows db) k = (if k = Suc t then Some b else get_block db k)" for k
    by (simp add: get_block_def f h(1))
  have l: "get_block db k \<noteq> None \<longleftrightarrow> k \<le> t" for k using assms(1) by (simp add: linked_def)
  have "extends_block env q c" if "get_block (fold put_row rows db) k = Some q" "get_block (fold put_row rows db) (Suc k) = Some c" for k q c
  proof (cases "k = t")
    case True
    then show ?thesis using that h(2) ext by (simp add: g)
  next
    case False
    have "k \<le> t" using that(2) False l [of "Suc k"] by (auto simp: g split: if_splits)
    then show ?thesis using that False assms(1) by (auto simp: g linked_def split: if_splits)
  qed
  moreover have "n \<le> Suc t" if "map_of (cd_hash_index (fold put_row rows db)) y = Some n" for y n
    using that h(1) assms(1) by (auto simp: f linked_def le_SucI split: if_splits)
  moreover have "get_block (fold put_row rows db) k \<noteq> None \<longleftrightarrow> k \<le> Suc t" for k using l [of k] by (auto simp: g)
  moreover have "b_height c = k" if "get_block (fold put_row rows db) k = Some c" for k c
    using that h(1) assms(1) by (auto simp: g linked_def split: if_splits)
  moreover have "b_state_root c = cd_root (fold put_row rows db)" if "get_block (fold put_row rows db) (Suc t) = Some c" for c
    using that by (simp add: g f)
  moreover have "cd_tip (fold put_row rows db) = Some (Suc t)"
    "compute_state_root env (cd_state (fold put_row rows db)) = Ok (cd_root (fold put_row rows db))"
    using x(1) h(1) by (simp_all add: f)
  ultimately show "linked env (Suc t) (fold put_row rows db)" unfolding linked_def by blast
  show "b_height b = Suc t" by (rule h(1))
  show "k \<le> t \<Longrightarrow> get_block (fold put_row rows db) k = get_block db k" by (simp add: g)
qed

section \<open>Everything that happens to the chain\<close>

text \<open>
  A peer offers any block at any time, a certificate is stored, votes, locks and round certificates come and go, and the finality
  engine or an operator unwinds the chain.
\<close>

inductive chain_step :: "('p, 'e, 's) accept_env \<Rightarrow> 'p chain_db \<Rightarrow> 'p chain_db \<Rightarrow> bool" for env where
  Offer: "chain_step env db (fst (accept_block env clock db b))"
| Certify: "chain_step env db (write_finality_record r db)"
| Votes: "chain_step env db (db\<lparr> cd_pols := ps, cd_round_certs := cs, cd_precommits := vs, cd_round_timeouts := ts, cd_dissents := ds \<rparr>)"
| Unwind: "revert_to h db = Ok db' \<Longrightarrow> chain_step env db db'"

definition genesis_ok :: "('p, 'e, 's) accept_env \<Rightarrow> 'p chain_db \<Rightarrow> bool" where
  "genesis_ok env g \<longleftrightarrow> chain_wf g \<and> cd_watermark g = 0 \<and> linked env 0 g"

lemma genesis_unwindable: "genesis_ok env g \<Longrightarrow> unwindable env (\<lambda>_. g) 0 g"
  by (simp add: genesis_ok_def unwindable_def)

text \<open>What every step keeps: a chain that can be unwound, above a watermark that only grows.\<close>

definition keeps_final :: "('p, 'e, 's) accept_env \<Rightarrow> 'p chain_db \<Rightarrow> 'p chain_db \<Rightarrow> bool" where
  "keeps_final env db db' \<longleftrightarrow> (\<exists>past t. unwindable env past t db') \<and> cd_watermark db \<le> cd_watermark db' \<and>
     (\<forall>k\<le>cd_watermark db. get_block db' k = get_block db k)"

lemma unwindable_block: "unwindable env past t db \<Longrightarrow> k \<le> t \<Longrightarrow> get_block db k = get_block (past k) k"
  using past_blocks [of t past k k] by (simp add: unwindable_def same_chain_def get_block_def)

lemma revert_keeps_final:
  assumes "unwindable env past t db" "revert_to h db = Ok db'"
  shows "keeps_final env db db'"
proof -
  have tip: "cd_tip db = Some t" using unwindable_linked [OF assms(1)] by (simp add: linked_def)
  consider "t \<le> h" | "h < t" "cd_watermark db \<le> h" using assms(2) tip by (auto simp: revert_to_def Let_def split: if_splits)
  then show ?thesis
  proof cases
    case 1
    then have "db' = db" using assms(2) tip by (simp add: revert_to_def)
    then show ?thesis using assms(1) by (auto simp: keeps_final_def)
  next
    case 2
    from revert_unwinds [OF assms(1) 2(2)] 2(1) assms(2) have u: "unwindable env past h db'" "cd_watermark db' = cd_watermark db" by auto
    have "get_block db' k = get_block db k" if "k \<le> cd_watermark db" for k
      using that 2 unwindable_block [OF u(1), of k] unwindable_block [OF assms(1), of k] by simp
    then show ?thesis using u by (auto simp: keeps_final_def)
  qed
qed

lemma keeps_final_trans: "keeps_final env a b \<Longrightarrow> keeps_final env b c \<Longrightarrow> keeps_final env a c"
  unfolding keeps_final_def by (metis le_trans)

lemma supersedeE:
  assumes "supersede_dead_tip env db b = Ok db1"
  obtains "db1 = db" | t where "cd_tip db = Some t" "0 < t" "b_height b = t" "get_finality_record db t = None"
    "revert_to (t - 1) db = Ok db1"
  using assms unfolding supersede_dead_tip_def
  by (auto split: option.splits if_splits elim!: map_err.elims)

lemma accept_keeps_final:
  assumes "unwindable env past t db"
  shows "keeps_final env db (fst (accept_block env clock db b))"
proof (cases "check_signed env db b")
  case Ok
  show ?thesis
  proof (cases "supersede_dead_tip env db b")
    case sup: (Ok db1)
    have k1: "keeps_final env db db1"
      using sup by (cases rule: supersedeE) (use assms revert_keeps_final [OF assms] in \<open>auto simp: keeps_final_def\<close>)
    then obtain past1 t1 where u1: "unwindable env past1 t1 db1" by (auto simp: keeps_final_def)
    show ?thesis
    proof (cases "and_then (check_header env clock db1 b) (\<lambda>validators. execute_block env db1 validators b)")
      case ex: (Ok rows)
      then obtain validators where "check_header env clock db1 b = Ok validators" "execute_block env db1 validators b = Ok rows" by auto
      note r = accepted_rows_linked [OF unwindable_linked [OF u1] this]
      have w: "unwindable env (past1(Suc t1 := fold put_row rows db1)) (Suc t1) (write_block_batches (Suc t1) rows db1)"
        by (rule write_unwindable [OF u1 r(1)]) (rule r(3))
      have "get_block (write_block_batches (Suc t1) rows db1) k = get_block db1 k" if "k \<le> cd_watermark db1" for k
        using r(3) [of k] that u1 by (simp add: write_block_batches_def Let_def get_block_def unwindable_def)
      then have "keeps_final env db1 (write_block_batches (Suc t1) rows db1)"
        using w write_watermark(1) [of db1 "Suc t1" rows] unfolding keeps_final_def by blast
      then show ?thesis using keeps_final_trans [OF k1] Ok sup ex r(2) by (simp add: accept_block_def del: and_then_Ok_iff)
    qed (use Ok sup k1 in \<open>simp_all add: accept_block_def\<close>)
  qed (use Ok assms in \<open>auto simp: accept_block_def keeps_final_def\<close>)
qed (use assms in \<open>auto simp: accept_block_def keeps_final_def\<close>)

lemma votes_unwindable:
  "unwindable env past t (db\<lparr> cd_pols := ps, cd_round_certs := cs, cd_precommits := vs, cd_round_timeouts := ts, cd_dissents := ds \<rparr>) =
   unwindable env past t db"
  by (simp add: unwindable_def chain_wf_def same_chain_def)

lemma chain_step_keeps:
  assumes "chain_step env db db'" "unwindable env past t db"
  shows "keeps_final env db db'"
  using assms(1)
proof cases
  case (Offer clock b)
  then show ?thesis using accept_keeps_final [OF assms(2)] by simp
next
  case (Certify r)
  have "cd_watermark db \<le> cd_watermark (write_finality_record r db)"
    using advance_watermark_ge [of "cd_watermark db" db "[(fr_height r, fr_block_hash r)]"]
    by (simp add: write_finality_record_def cd_watermark_stage)
  then show ?thesis using Certify certify_unwindable [OF assms(2), of r]
    by (auto simp: keeps_final_def write_finality_record_def get_block_def)
next
  case Votes
  then show ?thesis using assms(2) by (auto simp: keeps_final_def votes_unwindable get_block_def)
next
  case (Unwind h)
  then show ?thesis using revert_keeps_final [OF assms(2)] by simp
qed

lemma chain_steps_keep:
  assumes "(chain_step env)\<^sup>*\<^sup>* db db'" "unwindable env past t db"
  shows "keeps_final env db db'"
  using assms
proof (induction rule: rtranclp_induct)
  case base
  then show ?case by (auto simp: keeps_final_def)
next
  case (step y z)
  then have k: "keeps_final env db y" by blast
  then obtain past t where "unwindable env past t y" by (auto simp: keeps_final_def)
  from keeps_final_trans [OF k chain_step_keeps [OF step.hyps(2) this]] show ?case .
qed

section \<open>Properties\<close>

lemma round_signer_keys_Ok:
  "round_signer_keys db height round validators before signers = (Ok keys :: ('s accept_error, string list) result) \<Longrightarrow>
   distinct signers \<and> set signers \<inter> set before = {} \<and> set signers \<subseteq> dom (map_of validators) \<and>
   map Some keys = map (\<lambda>a. get_bls_pubkey_at db a height) signers"
proof (induction signers arbitrary: before keys)
  case (Cons a signers)
  then obtain key ks where k: "a \<notin> set before" "map_of validators a \<noteq> None" "get_bls_pubkey_at db a height = Some key"
    "round_signer_keys db height round validators (before @ [a]) signers = (Ok ks :: ('s accept_error, string list) result)"
    "keys = key # ks"
    by (auto simp: ok_or_def split: if_splits option.splits)
  from Cons.IH [OF k(4)] k show ?case by auto
qed simp

text \<open>The proof a block of a later round carries: a quorum of the validators signed that the round before timed out.\<close>

definition timed_out :: "('p, 'e, 's) accept_env \<Rightarrow> 'p chain_db \<Rightarrow> round_certificate \<Rightarrow> nat \<Rightarrow> nat \<Rightarrow> string \<Rightarrow> bool" where
  "timed_out env db cert height round parent_hash \<longleftrightarrow>
     rc_height cert = height \<and> Suc (rc_round cert) = round \<and> distinct (rc_signers cert) \<and>
     set (rc_signers cert) \<subseteq> dom (map_of (get_validator_set_at db height)) \<and>
     quorum_reached (get_validator_set_at db height) (rc_signers cert) \<and>
     (\<exists>keys. map Some keys = map (\<lambda>a. get_bls_pubkey_at db a height) (rc_signers cert) \<and>
        fe_verify_aggregate (ac_fin env) (round_timeout_signing_bytes (cd_genesis db) height (rc_round cert) parent_hash) keys
          (rc_aggregate_signature cert))"

lemma verify_round_certificate_Ok:
  fixes env :: "('p, 'e, 's) accept_env"
  assumes "verify_round_certificate env db cert height round parent (get_validator_set_at db height) = Ok ()"
  shows "timed_out env db cert height round parent"
proof -
  from assms obtain keys where k: "1 \<le> round" "rc_height cert = height" "rc_round cert = round - 1"
    "\<not> signed_power (get_validator_set_at db height) (rc_signers cert) < QUORUM_POWER"
    "round_signer_keys db height round (get_validator_set_at db height) [] (rc_signers cert) = (Ok keys :: ('s accept_error, string list) result)"
    "fe_verify_aggregate (ac_fin env) (round_timeout_signing_bytes (cd_genesis db) height (round - 1) parent) keys
       (rc_aggregate_signature cert)"
    unfolding verify_round_certificate_def Let_def
    by (auto simp: ensure_def sub_or_panic_def expect_def split: if_splits option.splits)
  from round_signer_keys_Ok [OF k(5)] k show ?thesis by (auto simp: timed_out_def quorum_reached_def)
qed

text \<open>The one thing besides storing it that offering a block can do: unwind a tip its certificate proves dead.\<close>

definition dead_tip_unwound :: "('p, 'e, 's) accept_env \<Rightarrow> 'p block \<Rightarrow> 'p chain_db \<Rightarrow> 'p chain_db \<Rightarrow> bool" where
  "dead_tip_unwound env b db db1 \<longleftrightarrow>
     (\<exists>tip cert. cd_tip db = Some (b_height b) \<and> 0 < b_height b \<and> get_block db (b_height b) = Some tip \<and>
        get_finality_record db (b_height b) = None \<and> b_round tip < b_round b \<and>
        (\<forall>pol. get_highest_pol db (b_height b) = Some pol \<longrightarrow> pl_block_hash pol \<noteq> fe_block_hash (ac_fin env) tip) \<and>
        b_round_certificate b = Some cert \<and> timed_out env db cert (b_height b) (b_round b) (b_parent_hash b) \<and>
        revert_to (b_height b - 1) db = Ok db1)"

lemma supersede_outcome:
  assumes "supersede_dead_tip env db b = Ok db1"
  shows "db1 = db \<or> dead_tip_unwound env b db db1"
proof (rule ccontr)
  assume n: "\<not> ?thesis"
  with assms obtain tip cert where c: "cd_tip db = Some (b_height b)" "0 < b_height b" "get_finality_record db (b_height b) = None"
    "get_block db (b_height b) = Some tip" "b_round tip < b_round b" "b_round_certificate b = Some cert"
    "\<not> (case get_highest_pol db (b_height b) of Some pol \<Rightarrow> pl_block_hash pol = fe_block_hash (ac_fin env) tip | None \<Rightarrow> False)"
    "verify_round_certificate env db cert (b_height b) (b_round b) (b_parent_hash b) (get_validator_set_at db (b_height b)) = Ok ()"
    "map_err AbStorage (revert_to (b_height b - 1) db) = Ok db1"
    unfolding supersede_dead_tip_def by (auto split: option.splits if_splits)
  moreover have "revert_to (b_height b - 1) db = Ok db1" using c(9) by (cases "revert_to (b_height b - 1) db") simp_all
  ultimately show False using n verify_round_certificate_Ok [OF c(8)] by (auto simp: dead_tip_unwound_def)
qed

lemma all_applied:
  assumes "execute_actions ps pp disp meter db actions seed = Ok (v, out)" "deferred out = []" "length (applied out) = length actions"
  shows "applied out = actions" "weight_used out \<le> max_block_weight (chain_params_of db)"
proof -
  have "deferred (seeded_outcome seed) = []" by (simp add: seeded_outcome_def)
  then have "loop_accounts meter (max_block_weight (chain_params_of db)) actions (seeded_outcome seed) out"
    by (rule execute_loop_accounts [OF assms(1) [unfolded execute_actions_def]])
  then obtain xs taken where t: "actions = taken" "applied out = xs" "subseq xs taken"
    "weight_used out \<le> max_block_weight (chain_params_of db)"
    using assms(2) by (auto simp: loop_accounts_def seeded_outcome_def)
  then show "applied out = actions" "weight_used out \<le> max_block_weight (chain_params_of db)"
    using assms(3) subseq_same_length [of xs taken] by auto
qed

text \<open>
  C2: Nothing a peer sends rewrites final history. From a sound genesis, through any blocks offered, certificates stored, votes,
  locks and round certificates, and unwindings, the finalized watermark only grows and every block at or below it stays what it
  was.
\<close>

theorem final_blocks_never_change:
  assumes "genesis_ok env g" "(chain_step env)\<^sup>*\<^sup>* g db" "(chain_step env)\<^sup>*\<^sup>* db db'"
  shows "cd_watermark db \<le> cd_watermark db' \<and>
    (\<forall>h\<le>cd_watermark db. \<exists>b. get_block db h = Some b \<and> b_height b = h \<and> get_block db' h = Some b)"
proof -
  from chain_steps_keep [OF assms(2) genesis_unwindable [OF assms(1)]] obtain past t where u: "unwindable env past t db"
    by (auto simp: keeps_final_def)
  from chain_steps_keep [OF assms(3) this] have k: "cd_watermark db \<le> cd_watermark db'"
    "\<forall>h\<le>cd_watermark db. get_block db' h = get_block db h" by (simp_all add: keeps_final_def)
  have "\<exists>b. get_block db h = Some b \<and> b_height b = h" if "h \<le> cd_watermark db" for h
    using linked_block [OF unwindable_linked [OF u], of h] that u by (simp add: unwindable_def)
  then show ?thesis using k by metis
qed

text \<open>
  C14: The stored chain is always one a node could have built. Whatever steps led to it, there is a block at every height up to the
  tip, each extends the one below by its hash, state root and time, the stored state hashes to the root the tip commits to, and
  the chain can be unwound to any height down to the watermark.
\<close>

theorem chain_stays_linked:
  assumes "genesis_ok env g" "(chain_step env)\<^sup>*\<^sup>* g db"
  shows "\<exists>t. cd_tip db = Some t \<and> cd_watermark db \<le> t \<and> (\<forall>h\<le>t. \<exists>b. get_block db h = Some b \<and> b_height b = h) \<and>
    (\<forall>h p b. get_block db h = Some p \<and> get_block db (Suc h) = Some b \<longrightarrow> extends_block env p b) \<and>
    compute_state_root env (cd_state db) = Ok (cd_root db) \<and> map_option b_state_root (get_block db t) = Some (cd_root db) \<and>
    (\<forall>h. cd_watermark db \<le> h \<and> h \<le> t \<longrightarrow> (\<exists>db'. revert_to h db = Ok db' \<and> cd_tip db' = Some h))"
proof -
  from chain_steps_keep [OF assms(2) genesis_unwindable [OF assms(1)]] obtain past t where u: "unwindable env past t db"
    by (auto simp: keeps_final_def)
  note l = unwindable_linked [OF u]
  have rev: "\<exists>db'. revert_to h db = Ok db' \<and> cd_tip db' = Some h" if h: "cd_watermark db \<le> h" "h \<le> t" for h
  proof -
    from revert_unwinds [OF u h] obtain db' where "revert_to h db = Ok db'" "unwindable env past h db'" by blast
    then show ?thesis using linkedD(1) [OF unwindable_linked [of env past h db']] by blast
  qed
  obtain b where b: "get_block db t = Some b" using linked_block [OF l order_refl] by blast
  have root: "map_option b_state_root (get_block db t) = Some (cd_root db)" by (simp add: b linkedD(3) [OF l b])
  have "cd_watermark db \<le> t" using u by (simp add: unwindable_def)
  then show ?thesis
    by (intro exI [of _ t] conjI allI impI) (auto simp: b intro: rev linkedD [OF l] linkedD(3) [OF l b] linked_block [OF l])
qed

text \<open>What the checks of an accepted block establish over the chain it extends.\<close>

definition properly_extends :: "('p, 'e, 's) accept_env \<Rightarrow> 'p chain_db \<Rightarrow> 'p block \<Rightarrow> bool" where
  "properly_extends env db b \<longleftrightarrow>
     (let height = b_height b; validators = get_validator_set_at db height in
      (\<exists>parent. cd_tip db = Some (b_height parent) \<and> get_block db (b_height parent) = Some parent \<and> extends_block env parent b) \<and>
      (\<forall>r. get_finality_record db height = Some r \<longrightarrow> fr_block_hash r = fe_block_hash (ac_fin env) b) \<and>
      (\<forall>pol. get_finality_record db height = None \<and> get_highest_pol db height = Some pol \<longrightarrow>
         pl_block_hash pol = fe_block_hash (ac_fin env) b) \<and>
      b_proposer b = eligible_proposer (bt_keys validators) height (b_round b) \<and>
      (0 < b_round b \<longrightarrow> (\<exists>cert. b_round_certificate b = Some cert \<and> timed_out env db cert height (b_round b) (b_parent_hash b))) \<and>
      (\<exists>v out. run_actions env db (bt_keys validators) height (b_timestamp b) (b_actions b) = Ok (v, out) \<and>
         applied out = b_actions b \<and> weight_used out \<le> max_block_weight (chain_params_of (cd_state db))))"

lemma gate_passed:
  assumes "check_gate env db b = Ok ()"
  shows "get_finality_record db (b_height b) = Some r \<Longrightarrow> fr_block_hash r = fe_block_hash (ac_fin env) b"
    "get_finality_record db (b_height b) = None \<Longrightarrow> get_highest_pol db (b_height b) = Some pol \<Longrightarrow>
     pl_block_hash pol = fe_block_hash (ac_fin env) b"
  using assms by (auto simp: check_gate_def Let_def ensure_def split: if_splits)

lemma proposer_passed:
  assumes "check_proposer env db (get_validator_set_at db (b_height b)) b = Ok ()"
  shows "b_proposer b = eligible_proposer (bt_keys (get_validator_set_at db (b_height b))) (b_height b) (b_round b)"
    "0 < b_round b \<Longrightarrow> \<exists>cert. b_round_certificate b = Some cert \<and> timed_out env db cert (b_height b) (b_round b) (b_parent_hash b)"
  using assms verify_round_certificate_Ok [of env db _ "b_height b" "b_round b" "b_parent_hash b"]
  by (auto simp: check_proposer_def Let_def ensure_def split: option.splits if_splits)

lemma run_actions_all:
  assumes "run_actions env db validators height ts actions = Ok (v, out)" "deferred out = []" "length (applied out) = length actions"
  shows "applied out = actions" "weight_used out \<le> max_block_weight (chain_params_of (cd_state db))"
  using assms(1) all_applied [OF _ assms(2,3)] by (auto simp: run_actions_def Let_def)

lemma passed_properly_extends:
  fixes env :: "('p, 'e, 's) accept_env"
  assumes "linked env t db" "check_header env clock db b = Ok validators" "execute_block env db validators b = Ok rows"
  shows "properly_extends env db b"
proof -
  from check_headerE [OF assms(2) linkedD(1) [OF assms(1)]] obtain parent where h: "b_height b = Suc t" "get_block db t = Some parent"
    "check_gate env db b = Ok ()" "check_parent env parent b = Ok ()"
    "(check_time clock parent b :: ('s accept_error, unit) result) = Ok ()" "check_proposer env db validators b = Ok ()"
    "validators = get_validator_set_at db (b_height b)" by blast
  from execute_blockE [OF assms(3)] obtain v out where
    x: "run_actions env db (bt_keys validators) (b_height b) (b_timestamp b) (b_actions b) = Ok (v, out)" "deferred out = []"
      "length (applied out) = length (b_actions b)" by blast
  have p: "b_height parent = t" using linked_block [OF assms(1), of t] h(2) by auto
  have "extends_block env parent b" using checked_block_extends [OF h(4,5)] h(1) p by simp
  then show ?thesis
    using h(2,7) p linkedD(1) [OF assms(1)] gate_passed [OF h(3)] proposer_passed [OF h(6) [unfolded h(7)]] x(1) run_actions_all [OF x]
    unfolding properly_extends_def Let_def by blast
qed

text \<open>
  C3: A block a node accepts was due. On any chain a node can hold, \<open>accept_block\<close> stores a block only on top of the tip it extends,
  after the unwinding of a tip its round certificate proves dead, from the proposer whose turn the round is, with a quorum's
  proof for a later round, never against a certificate or a lock, with every action executing within the weight limit, and its
  state root is the root of the rows it stores. A rejected block leaves the database as it was, up to a dead tip it unwound.
\<close>

theorem accepted_block_was_due:
  assumes "genesis_ok env g" "(chain_step env)\<^sup>*\<^sup>* g db" "accept_block env clock db b = (db', verdict)"
  shows "(verdict = Ok b \<and> (\<exists>db1. (db1 = db \<or> dead_tip_unwound env b db db1) \<and> properly_extends env db1 b) \<and>
       cd_tip db' = Some (b_height b) \<and> get_block db' (b_height b) = Some b \<and> cd_root db' = b_state_root b \<and>
       compute_state_root env (cd_state db') = Ok (b_state_root b)) \<or>
     ((\<forall>b'. verdict \<noteq> Ok b') \<and> (db' = db \<or> dead_tip_unwound env b db db'))"
proof -
  from chain_steps_keep [OF assms(2) genesis_unwindable [OF assms(1)]] obtain past t where u: "unwindable env past t db"
    by (auto simp: keeps_final_def)
  show ?thesis
  proof (cases "check_signed env db b")
    case Ok
    show ?thesis
    proof (cases "supersede_dead_tip env db b")
      case sup: (Ok db1)
      have d1: "db1 = db \<or> dead_tip_unwound env b db db1" by (rule supersede_outcome [OF sup])
      then have "keeps_final env db db1"
        using u revert_keeps_final [OF u] by (auto simp: keeps_final_def dead_tip_unwound_def)
      then obtain past1 t1 where u1: "unwindable env past1 t1 db1" by (auto simp: keeps_final_def)
      note l1 = unwindable_linked [OF u1]
      show ?thesis
      proof (cases "and_then (check_header env clock db1 b) (\<lambda>validators. execute_block env db1 validators b)")
        case ex: (Ok rows)
        then obtain validators where v: "check_header env clock db1 b = Ok validators" "execute_block env db1 validators b = Ok rows"
          by auto
        have w: "db' = write_block_batches (b_height b) rows db1" "verdict = Ok b"
          using assms(3) Ok sup ex by (simp_all add: accept_block_def del: and_then_Ok_iff)
        have "cd_tip db' = Some (b_height b) \<and> get_block db' (b_height b) = Some b \<and> cd_root db' = b_state_root b \<and>
            compute_state_root env (cd_state db') = Ok (b_state_root b)"
          by (simp add: w(1) executed_fields [OF v(2)] get_block_def)
        then show ?thesis using passed_properly_extends [OF l1 v] d1 w(2) by blast
      qed (use assms(3) Ok sup d1 in \<open>auto simp: accept_block_def\<close>)
    qed (use assms(3) Ok in \<open>auto simp: accept_block_def\<close>)
  qed (use assms(3) in \<open>auto simp: accept_block_def\<close>)
qed

section \<open>A chain of one validator\<close>

definition due_crypto :: "nat crypto" where
  "due_crypto =
    \<lparr> cr_sha256 = (\<lambda>_. []), cr_hex_encode = (\<lambda>s. s), cr_hex_decode = Some, cr_bech32_encode = (\<lambda>_ _. None),
      cr_bech32_decode = (\<lambda>_. Some (''arx'', replicate 32 CHR ''k'')), cr_ed_verify = (\<lambda>_ _ _. True), cr_ed_key = (\<lambda>_. True),
      cr_ed_weak = (\<lambda>_. False), cr_encode_signing = (\<lambda>_ _ _ _. []) \<rparr>"

definition due_fin :: "nat fin_env" where
  "due_fin =
    \<lparr> fe_verify = (\<lambda>_ _ _. True), fe_aggregate = (\<lambda>_. None), fe_verify_aggregate = (\<lambda>_ _ _. True), fe_sign = (\<lambda>_ _. []),
      fe_block_hash = (\<lambda>b. replicate 32 (char_of (b_height b))), fe_sha = (\<lambda>_. []) \<rparr>"

definition due_env :: "(nat, nat, never) accept_env" where
  "due_env =
    \<lparr> ac_fin = due_fin, ac_crypto = due_crypto, ac_verifies = (\<lambda>_ _ _. True), ac_encode = (\<lambda>_. Some []), ac_leaves = (\<lambda>_. []),
      ac_hasher = sample_hasher, ac_dispatch = (\<lambda>_ _ _ _. sample_dispatch), ac_meter = (\<lambda>_ _. (4, 5)),
      ac_sealed = (\<lambda>_ _ _ _ _ _. Ok default_updates) \<rparr>"

definition due_action :: "nat action" where
  "due_action = \<lparr> act_sender = Address ''u'', act_nonce = 0, act_signature = Some (replicate 64 CHR ''s''), act_payload = 7 \<rparr>"

definition due_block :: "nat \<Rightarrow> nat action list \<Rightarrow> nat block" where
  "due_block h actions =
    \<lparr> b_height = h, b_parent_hash = replicate 32 (char_of (h - 1)), b_timestamp = 10 * h, b_actions = actions,
      b_tx_root = [], b_proposer = Some (Address ''a''), b_signature = Some (replicate 64 CHR ''s''),
      b_parent_state_root = ''0x'', b_state_root = ''0x'', b_round = 0, b_round_certificate = None, b_build_id = ''v1'' \<rparr>"

definition due_genesis :: "nat chain_db" where
  "due_genesis =
    \<lparr> cd_genesis = ''g'', cd_blocks = [(0, due_block 0 [])], cd_hash_index = [(replicate 32 (char_of (0 :: nat)), 0)], cd_tip = Some 0,
      cd_validator_sets = [(0, [(Address ''a'', 10000)])], cd_bls_history = [((Address ''a'', 0), ''k'')], cd_weights = [],
      cd_root = ''0x'', cd_undo = [], cd_state = Executor.sample_db, cd_watermark = 0, cd_finality = [], cd_pols = [],
      cd_round_certs = [], cd_precommits = [], cd_round_timeouts = [], cd_dissents = [] \<rparr>"

lemma due_root: "compute_state_root due_env v = Ok ''0x''"
proof -
  have "default_hash (sha_trie (\<lambda>_. [])) (Suc d) = []" for d by (simp add: sha_trie_def internal_hash_def)
  from this [of 255] show ?thesis
    by (simp add: compute_state_root_def due_env_def due_crypto_def root_of_def hex_text_def del: default_hash.simps)
qed

lemma due_genesis_ok: "genesis_ok due_env due_genesis"
  by (auto simp: genesis_ok_def chain_wf_def bt_wf_def linked_def due_root get_block_def due_genesis_def due_block_def split: if_splits)

lemma due_signed: "check_signed due_env db (due_block 1 [due_action]) = Ok ()"
  by (simp add: check_signed_def due_env_def due_crypto_def due_block_def verify_proposer_signature_def addr_pubkey_bytes_def
      ADDRESS_HRP_def tx_root_def action_hash_def action_leaf_hash_def merkle_levels.simps ok_or_def ensure_def Let_def)

lemma due_gate: "check_gate due_env due_genesis (due_block 1 acts) = Ok ()"
  by (simp add: check_gate_def due_genesis_def get_finality_record_def get_highest_pol_def last_row_def current_round_def ensure_def
      due_block_def)

lemma due_parent: "check_parent due_env (due_block 0 []) (due_block 1 acts) = Ok ()"
proof -
  let ?p = "replicate 32 (char_of (0 :: nat)) :: string"
  have "take 2 ?p = [char_of (0 :: nat), char_of (0 :: nat)]" by (simp add: numeral_eq_Suc)
  moreover have "[char_of (0 :: nat), char_of (0 :: nat)] \<noteq> ''0x''" "[char_of (0 :: nat), char_of (0 :: nat)] \<noteq> ''0X''" by code_simp+
  ultimately have "hash32_parse Some ?p = Some ?p" by (simp add: hash32_parse_def del: take_replicate)
  then show ?thesis by (simp add: check_parent_def due_env_def due_fin_def due_crypto_def due_block_def MAX_BUILD_ID_LEN_def ensure_def)
qed

lemma due_header: "check_header due_env 100 due_genesis (due_block 1 acts) = Ok [(Address ''a'', 10000)]"
proof -
  have "get_block due_genesis 0 = Some (due_block 0 [])" "get_validator_set_at due_genesis 1 = [(Address ''a'', 10000)]"
    "cd_tip due_genesis = Some 0"
    by (simp_all add: due_genesis_def get_block_def get_validator_set_at_def last_row_def)
  moreover have "check_proposer due_env due_genesis [(Address ''a'', 10000)] (due_block 1 acts) = Ok ()"
    by (simp add: check_proposer_def due_block_def eligible_proposer_def bt_keys_def ensure_def)
  moreover have "b_height (due_block 1 acts) = 1" "(check_time 100 (due_block 0 []) (due_block 1 acts) :: (never accept_error, unit) result) = Ok ()"
    by (simp_all add: due_block_def check_time_def)
  moreover have "add_or_panic u64_max 0 1 = (Ok 1 :: (never accept_error, nat) result)" by (simp add: u64_max_def)
  ultimately show ?thesis using due_gate [of acts] due_parent [of acts] by (simp add: check_header_def expect_def)
qed

lemma due_run:
  "\<exists>v out. run_actions due_env due_genesis [Address ''a''] 1 10 [due_action] = Ok (v, out) \<and> deferred out = [] \<and>
     applied out = [due_action]"
proof -
  have st: "cd_state due_genesis = Executor.sample_db" "cd_genesis due_genesis = ''g''" by (simp_all add: due_genesis_def)
  have seed: "resolve_matured_unbonding sample_hasher Executor.sample_db 1 = Ok default_updates"
    by (simp add: resolve_matured_unbonding_def resolve_due_unbonding_def Executor.sample_db_def empty_view_def default_updates_def)
  have signed: "verified (presigned due_env ''g'') (policy_signed due_env ''g'') (seeded_view Executor.sample_db default_updates) due_action"
    by (simp add: verified_def presigned_def due_env_def due_crypto_def due_action_def verify_signature_def addr_pubkey_bytes_def ADDRESS_HRP_def
        verify_one_def ok_or_def ensure_def Executor.sample_db_def empty_view_def seeded_view_def default_updates_def absorb_rows)
  show ?thesis
    using seed signed
    by (simp add: run_actions_def st due_env_def execute_actions_def sample_dispatch_def due_action_def Executor.sample_db_def chain_params_of_def
        default_chain_params_def seeded_outcome_def saturating_add_def u64_max_def extend_outcome_def default_updates_def)
qed

lemma due_execution:
  "\<exists>rows. execute_block due_env due_genesis [(Address ''a'', 10000)] (due_block 1 [due_action]) = Ok rows"
proof -
  obtain v out where r: "run_actions due_env due_genesis [Address ''a''] 1 10 [due_action] = Ok (v, out)" "deferred out = []"
    "applied out = [due_action]" using due_run by blast
  obtain w where c: "commit_block (cd_state due_genesis) 1 out default_updates = Ok w" by (simp add: commit_block_def default_updates_def Let_def)
  have "run_seal due_env x y z p q = Ok default_updates" for x y z p q by (simp add: run_seal_def due_env_def)
  moreover have "set_snapshot 1 default_updates = Ok None" by (simp add: set_snapshot_def default_updates_def)
  moreover have "b_height (due_block 1 [due_action]) = 1" "b_timestamp (due_block 1 [due_action]) = 10"
    "b_actions (due_block 1 [due_action]) = [due_action]" "b_proposer (due_block 1 [due_action]) = Some (Address ''a'')"
    "b_state_root (due_block 1 [due_action]) = ''0x''" by (simp_all add: due_block_def)
  ultimately show ?thesis
    using r c by (simp add: execute_block_def state_root_overlay_commits due_root bt_keys_def expect_def)
qed

lemma due_accepts:
  "\<exists>rows. accept_block due_env 100 due_genesis (due_block 1 [due_action]) =
     (write_block_batches 1 rows due_genesis, Ok (due_block 1 [due_action])) \<and>
     execute_block due_env due_genesis [(Address ''a'', 10000)] (due_block 1 [due_action]) = Ok rows"
proof -
  obtain rows where "execute_block due_env due_genesis [(Address ''a'', 10000)] (due_block 1 [due_action]) = Ok rows"
    using due_execution by blast
  moreover have "supersede_dead_tip due_env due_genesis (due_block 1 [due_action]) = Ok due_genesis"
    by (simp add: supersede_dead_tip_def due_genesis_def due_block_def)
  moreover have "b_height (due_block 1 [due_action]) = 1" by (simp add: due_block_def)
  ultimately show ?thesis
    using due_signed [of due_genesis] due_header [of "[due_action]"] by (intro exI [of _ rows]) (simp add: accept_block_def)
qed

theorem accepted_block_was_due_witness:
  "\<exists>db'. accept_block due_env 100 due_genesis (due_block 1 [due_action]) = (db', Ok (due_block 1 [due_action])) \<and>
     cd_tip db' = Some 1 \<and> properly_extends due_env due_genesis (due_block 1 [due_action])"
proof -
  obtain db' where a: "accept_block due_env 100 due_genesis (due_block 1 [due_action]) = (db', Ok (due_block 1 [due_action]))"
    using due_accepts by blast
  have h: "b_height (due_block 1 [due_action]) = 1" "cd_tip due_genesis = Some 0" by (simp_all add: due_block_def due_genesis_def)
  from accepted_block_was_due [OF due_genesis_ok rtranclp.rtrancl_refl a] a h show ?thesis
    by (auto simp: dead_tip_unwound_def)
qed

lemma due_stored:
  "\<exists>db. chain_step due_env due_genesis db \<and> cd_tip db = Some 1 \<and> get_block db 1 = Some (due_block 1 [due_action]) \<and>
     get_block_height_by_hash db (fe_block_hash due_fin (due_block 1 [due_action])) = Some 1 \<and> cd_watermark db = 0"
proof -
  obtain rows where a: "accept_block due_env 100 due_genesis (due_block 1 [due_action]) =
      (write_block_batches 1 rows due_genesis, Ok (due_block 1 [due_action]))"
    and x: "execute_block due_env due_genesis [(Address ''a'', 10000)] (due_block 1 [due_action]) = Ok rows"
    using due_accepts by blast
  let ?db = "write_block_batches 1 rows due_genesis"
  have "chain_step due_env due_genesis ?db" using chain_step.Offer [of due_env due_genesis 100 "due_block 1 [due_action]"] a by simp
  moreover have h: "b_height (due_block 1 [due_action]) = 1" "ac_fin due_env = due_fin" by (simp_all add: due_block_def due_env_def)
  moreover have "cd_watermark ?db = 0"
  proof -
    have "advance_watermark due_genesis [] 0 = 0"
      by (subst advance_watermark.simps) (simp add: certified_at_def get_finality_record_def due_genesis_def)
    then show ?thesis by (simp add: write_block_batches_def Let_def stage_watermark_advance_def) (simp add: due_genesis_def)
  qed
  ultimately show ?thesis
    using executed_fields [OF x, of 1] by (intro exI [of _ ?db]) (simp add: get_block_def get_block_height_by_hash_def)
qed

theorem chain_stays_linked_witness:
  "\<exists>db p b. cd_tip db = Some 1 \<and> get_block db 0 = Some p \<and> get_block db 1 = Some b \<and> extends_block due_env p b"
proof -
  obtain db where d: "chain_step due_env due_genesis db" "cd_tip db = Some 1" using due_stored by blast
  then have "(chain_step due_env)\<^sup>*\<^sup>* due_genesis db" by blast
  from chain_stays_linked [OF due_genesis_ok this] d(2) obtain t where t: "t = 1" "\<forall>h\<le>t. \<exists>b. get_block db h = Some b \<and> b_height b = h"
    "\<forall>h p b. get_block db h = Some p \<and> get_block db (Suc h) = Some b \<longrightarrow> extends_block due_env p b" by auto
  then obtain p b where "get_block db 0 = Some p" "get_block db 1 = Some b" by (metis le_refl zero_le)
  then show ?thesis using t(3) d(2) by (metis One_nat_def)
qed

theorem final_blocks_never_change_witness:
  "\<exists>db. 1 \<le> cd_watermark db \<and> get_block (fst (accept_block due_env 100 db (due_block 1 []))) 1 = Some (due_block 1 [due_action])"
proof -
  let ?x = "fe_block_hash due_fin (due_block 1 [due_action])"
  obtain db where d: "chain_step due_env due_genesis db" "get_block db 1 = Some (due_block 1 [due_action])"
    "get_block_height_by_hash db ?x = Some 1" "cd_watermark db = 0" using due_stored by blast
  define r where "r = sample_finality 1 ?x"
  let ?db = "write_finality_record r db"
  have r: "fr_height r = 1" "fr_block_hash r = ?x" by (simp_all add: r_def sample_finality_def)
  have "advance_watermark db [(1, ?x)] 0 = advance_watermark db [(1, ?x)] 1"
    using d(3) by (subst advance_watermark.simps) (simp add: certified_at_def)
  then have "1 \<le> advance_watermark db [(1, ?x)] 0" by (metis advance_watermark_ge)
  then have w: "1 \<le> cd_watermark ?db" by (simp add: write_finality_record_def cd_watermark_stage d(4) r)
  have b: "get_block ?db 1 = Some (due_block 1 [due_action])" using d(2) by (simp add: write_finality_record_def get_block_def)
  have s: "(chain_step due_env)\<^sup>*\<^sup>* due_genesis ?db"
    using d(1) chain_step.Certify [of due_env db r] by (meson rtranclp.simps)
  have "(chain_step due_env)\<^sup>*\<^sup>* ?db (fst (accept_block due_env 100 ?db (due_block 1 [])))"
    using chain_step.Offer [of due_env ?db 100 "due_block 1 []"] by blast
  from final_blocks_never_change [OF due_genesis_ok s this] w b show ?thesis by (intro exI [of _ ?db]) force
qed

end
