(* ===== verification/Spec2Isabelle.thy ===== *)
theory Spec2Isabelle
  imports Prelude Primitives Voting_Power Proposer Ledger_View Account_Circuit Staking_Circuit
    Identity_Circuit Governance_Circuit Executor Runtime_Staking Evidence Runtime_Consensus
    Epoch_Seal Block_Commit Asset_Ledger Token_Circuit Asset_Circuit Runtime_Asset
    Asset_Invariant Multisig Account_Policy State_Trie Chain_Db Signed_Votes
    Finality Vote_Log Agreement Artifact Conviction Execution_Fault Dispatch Dispatch_Nonces Dispatch_Shape Dispatch_Coins
    Dispatch_Properties Mempool Accept_Block Chain_Safety
begin

section \<open>Arxium: the state transition, consensus and storage core of a node\<close>

text \<open>
  \<^bold>\<open>The program.\<close> Arxium is a proof-of-stake chain for regulated assets, written in Rust. A node keeps a typed key-value
  database; the executor (\<^verbatim>\<open>src/core/executor\<close>) runs the actions of a block through the runtime's dispatcher
  (\<^verbatim>\<open>src/arxd/runtime\<close>), which calls the circuits (\<^verbatim>\<open>src/circuits\<close>) on a read view and collects typed update batches; a block
  is sealed (rewards, downtime slashing, epoch elections), its rows are committed under a Merkle root (\<^verbatim>\<open>src/core/poe\<close>), and
  the finality gadget (\<^verbatim>\<open>src/arxd/finality\<close>) votes on it, certifies it and unwinds what loses. Faults are reported as
  standalone documents (\<^verbatim>\<open>src/core/artifact\<close>) that the runtime checks before it slashes.

  \<^bold>\<open>How the model corresponds to the code.\<close>
  \<^item> Data: a struct is a \<open>record\<close> with the source's fields, an enum a \<open>datatype\<close> with its variants (prefixed where two enums
    share a name). A \<open>BTreeMap\<close> is a \<open>btree\<close>, an association list in key order (\<open>bt_wf\<close>); a \<open>HashMap\<close> that is never iterated is one too.
  \<^item> Outcomes: every fallible function returns a \<open>result\<close> with the constructors \<open>Ok\<close>, \<open>Err\<close> and \<open>Panic\<close>. The workspace builds with
    overflow checks, so an arithmetic overflow, a failed \<open>expect\<close> or \<open>unwrap\<close> is \<open>Panic\<close> and not a wrapped value; saturating and
    checked operations are written as such. Integers are \<open>nat\<close> with their width as an explicit bound (\<open>u64_max\<close>, \<open>u128_max\<close>), and
    \<open>mod 2 ^ 64\<close> where the code wraps. A function of the source that returns no \<open>Result\<close> has the error type \<open>never\<close>.
  \<^item> State: a function that takes \<open>&mut self\<close> returns the new record. The rows a circuit reads are a \<open>view\<close>, one partial map per
    typed key; what it hands back is a \<open>block_updates\<close>. Reads are total: an I/O error of RocksDB has no counterpart.
  \<^item> Loops are structural recursion, or \<open>function\<close> with a \<open>termination\<close> proof (Merkle levels, the power clamp, the watermark). There is
    no fuel anywhere in the development.
  \<^item> Third-party code is an argument: SHA-256, hex, bech32, bincode, serde_json, Ed25519, BLS (blst) and Groth16, gathered in the
    records \<open>crypto\<close>, \<open>trie_hash\<close>, \<open>fin_env\<close>, \<open>art_env\<close>, \<open>runtime_env\<close> and \<open>accept_env\<close>. Where a theorem needs something of them it is a named
    hypothesis: \<open>collision_free\<close> and injectivity of the hash, \<open>separated\<close> (system accounts are not user accounts), soundness of
    signatures; every such theorem has a witness with a concrete instance.

  \<^bold>\<open>The theories\<close>, in the order of the program.
  \<^item> \<open>Prelude\<close>: results, widths, ordered maps (locale \<open>finite_map\<close>), sums over maps, \<open>named_theorems\<close>. \<open>Primitives\<close>: accounts,
    stakes, assets, attestors, parameters, proposals (\<^verbatim>\<open>src/core/primitives\<close>).
  \<^item> \<open>Voting_Power\<close>: power assignment with its cap and clamp loop; the powers add up to the total, and two quorums share an honest
    validator (locale \<open>weighted_quorum\<close>). \<open>Proposer\<close>: the rotation and the bytes of a timeout vote (locale \<open>field_code\<close>).
  \<^item> \<open>Ledger_View\<close>: views, batches and every \<open>BlockView::apply_*\<close>; locale \<open>ledger\<close> is what a table of amounts promises, interpreted
    on coins and on asset balances.
  \<^item> \<open>Account_Circuit\<close>, \<open>Staking_Circuit\<close>, \<open>Identity_Circuit\<close>, \<open>Governance_Circuit\<close>, \<open>Token_Circuit\<close>, \<open>Asset_Circuit\<close>: one theory per circuit,
    every operation and error branch, conservation and backing of stakes, unbonding, voting and execution, compliance of
    transfers, pro-rata distributions. \<open>Asset_Ledger\<close> (locale \<open>holder_book\<close>) is what the two asset circuits share.
  \<^item> \<open>Multisig\<close>, \<open>Account_Policy\<close>: signatures of single keys, multisigs and programmable accounts; limits, sessions, recovery.
  \<^item> \<open>Runtime_Staking\<close>, \<open>Runtime_Consensus\<close>, \<open>Runtime_Asset\<close>, \<open>Evidence\<close>, \<open>Execution_Fault\<close>: the handlers of the runtime, with
    equivocation evidence and execution faults. \<open>Asset_Invariant\<close>: the asset ledger balances under every asset handler.
  \<^item> \<open>Executor\<close>: the action loop, overlays, seal view and write batch. \<open>Epoch_Seal\<close>: rewards, downtime, elections. \<open>Block_Commit\<close>: what
    is persisted is what was executed.
  \<^item> \<open>Dispatch\<close>: the action enum, weights and fees, authorization, the dispatcher, the admission check. \<open>Dispatch_Nonces\<close>,
    \<open>Dispatch_Shape\<close>, \<open>Dispatch_Coins\<close> show for every handler what it does to nonces, to the order of its batches and to coins;
    the locale \<open>dispatch_invariant\<close> carries such a fact over a block. \<open>Dispatch_Properties\<close>: no replay, no minting, balanced assets,
    delegated keys within their scope, for any block of any actions.
  \<^item> \<open>State_Trie\<close>: the sparse Merkle trie, its proofs, the trie rebuilt from proofs, the action root. \<open>Chain_Db\<close>: blocks, indexes,
    certificates, the watermark, undo records and unwinding, with the state rows as one row.
  \<^item> \<open>Accept_Block\<close>: \<open>accept_block\<close> (\<^verbatim>\<open>core/executor/src/lib.rs\<close>) whole: the proposer's signature and the action root, the
    unwinding of a dead tip, the finality and lock gates, parent, time and proposer checks, round certificates, the signature checks
    spread over worker threads (shown equal to checking in order), the replay, the seal, the state root (shown to be the root of
    the rows the batch writes) and the batch. \<open>Chain_Safety\<close>: the step relation \<open>chain_step\<close> over what can happen to the stored chain,
    and by rule induction that every reachable chain is linked and can be unwound down to its watermark, that final blocks never
    change, and that an accepted block was due.
  \<^item> \<open>Signed_Votes\<close>, \<open>Finality\<close>: slashing protection and the finality engine as a state machine (votes, locks, certificates,
    restarts). \<open>Vote_Log\<close>, \<open>Agreement\<close>: the rules an honest validator's votes obey under every event, and from them that two
    blocks are never final at one height. \<open>Artifact\<close>, \<open>Conviction\<close>: evidence documents, and that no honest validator is convicted.
  \<^item> \<open>Mempool\<close>: the queue of pending actions, its caps and its indexes.

  \<^bold>\<open>What is idealized.\<close> The order in which a \<open>HashMap\<close> is iterated is key order (it decides only the order of signers in a
  certificate). Channels are lists of what was sent; \<open>durable\<close> is the outcome of writing the vote file; the clock is an
  argument. The log of claimed votes is a history variable. An undo record keeps the whole view where the source keeps the rows
  the batch touched. Builds with the \<open>fault-injection\<close> feature, metrics and log lines are left out.

  \<^bold>\<open>What is not modelled, and why.\<close> The Groth16 circuits (constraints over a third-party library); RocksDB access, key encoding,
  snapshots and read-side indexes; the BLS wrapper; libp2p transport, gossip and sync; process wiring, CLI, chain specification
  loading and RPC, which are I/O over the modelled parts; tools, mobile bindings and examples. Adjudication
  (\<^verbatim>\<open>src/arxd/runtime/src/adjudicate.rs\<close>) replays actions over a view in which any read may fail for want of a proof, while the
  handlers here read a total view: its outcome is a parameter of \<open>submit_execution_fault\<close>, and the trie it reads through is
  \<open>proof_backed_trie\<close>.
\<close>

end
